(* ===== verification/Prelude.thy ===== *)
theory Prelude
  imports Main "HOL-Library.Sublist"
begin

text \<open>
  The vocabulary every component theory shares: Go error values and \<open>errors.Is\<close>, the
  state-and-error monad the handlers are written in, the schedule of environment faults, the
  Hoare triples used to reason about it, and generic lemmas about lists and maps.

  A handler that returns \<open>(T, error)\<close> becomes a function from the state to an error or a value,
  together with the state it leaves behind: an early \<open>return err\<close> keeps the changes made so far,
  as it does in the code.  Every call that can fail for a reason outside the program (a disk, the
  database, the network) asks the fault schedule first, so all error exits of the source are
  branches of the model and a theorem that holds for every schedule holds for every way the
  environment can fail.
\<close>

named_theorems keeps_intros
named_theorems triple_intros

section \<open>Error values\<close>

text \<open>
  \<open>Sentinel\<close> is a package-level \<open>errors.New\<close> compared by identity, \<open>Msg\<close> a fresh error built
  where it is returned, \<open>Io\<close> an error of the environment and \<open>Wrap\<close> is
  \<open>fmt.Errorf("...: %w", err)\<close>.
\<close>

datatype goerr = Sentinel string | Msg string | Io string | Wrap string goerr

fun errors_Is :: "goerr \<Rightarrow> goerr \<Rightarrow> bool" where
  "errors_Is (Wrap w e) t = (Wrap w e = t \<or> errors_Is e t)"
| "errors_Is (Sentinel a) t = (Sentinel a = t)"
| "errors_Is (Msg a) t = (Msg a = t)"
| "errors_Is (Io a) t = (Io a = t)"

lemma errors_Is_refl [simp]: "errors_Is e e"
  by (cases e) auto

section \<open>The state-and-error monad\<close>

type_synonym ('s, 'a) m = "'s \<Rightarrow> (goerr + 'a) \<times> 's"

definition ret :: "'a \<Rightarrow> ('s, 'a) m" where
  "ret x = (\<lambda>s. (Inr x, s))"

definition raise :: "goerr \<Rightarrow> ('s, 'a) m" where
  "raise e = (\<lambda>s. (Inl e, s))"

definition bindM :: "('s, 'a) m \<Rightarrow> ('a \<Rightarrow> ('s, 'b) m) \<Rightarrow> ('s, 'b) m" where
  "bindM c f = (\<lambda>s. case c s of (Inl e, s') \<Rightarrow> (Inl e, s') | (Inr x, s') \<Rightarrow> f x s')"

definition thenM :: "('s, 'a) m \<Rightarrow> ('s, 'b) m \<Rightarrow> ('s, 'b) m" where
  "thenM c d = bindM c (\<lambda>_. d)"

definition getM :: "('s \<Rightarrow> 'a) \<Rightarrow> ('s, 'a) m" where
  "getM f = (\<lambda>s. (Inr (f s), s))"

definition modM :: "('s \<Rightarrow> 's) \<Rightarrow> ('s, unit) m" where
  "modM f = (\<lambda>s. (Inr (), f s))"

text \<open>\<open>if err != nil\<close> with a handler of its own, and \<open>return fmt.Errorf("w: %w", err)\<close>.\<close>

definition catchM :: "('s, 'a) m \<Rightarrow> (goerr \<Rightarrow> ('s, 'a) m) \<Rightarrow> ('s, 'a) m" where
  "catchM c h = (\<lambda>s. case c s of (Inl e, s') \<Rightarrow> h e s' | (Inr x, s') \<Rightarrow> (Inr x, s'))"

definition wrapM :: "string \<Rightarrow> ('s, 'a) m \<Rightarrow> ('s, 'a) m" where
  "wrapM w c = catchM c (\<lambda>e. raise (Wrap w e))"

text \<open>The result of a call as a value, for code that inspects the error itself.\<close>

definition tryM :: "('s, 'a) m \<Rightarrow> ('s, goerr + 'a) m" where
  "tryM c = (\<lambda>s. case c s of (r, s') \<Rightarrow> (Inr r, s'))"

definition guardM :: "bool \<Rightarrow> goerr \<Rightarrow> ('s, unit) m" where
  "guardM b e = (if b then ret () else raise e)"

text \<open>A loop over a list that threads an accumulator and stops at the first error.\<close>

fun foldM :: "('b \<Rightarrow> 'a \<Rightarrow> ('s, 'b) m) \<Rightarrow> 'b \<Rightarrow> 'a list \<Rightarrow> ('s, 'b) m" where
  "foldM f b [] = ret b"
| "foldM f b (x # xs) = bindM (f b x) (\<lambda>b'. foldM f b' xs)"

section \<open>Environment faults\<close>

text \<open>
  The head of the schedule decides whether the next call into the environment fails; an empty
  schedule means that nothing fails any more.
\<close>

record io =
  faults :: "bool list"

definition ioM :: "goerr \<Rightarrow> ('a io_scheme, unit) m" where
  "ioM e = (\<lambda>s. case faults s of
      [] \<Rightarrow> (Inr (), s)
    | b # bs \<Rightarrow> ((if b then Inl e else Inr ()), s\<lparr>faults := bs\<rparr>))"

fun ioAll :: "goerr list \<Rightarrow> ('a io_scheme, unit) m" where
  "ioAll [] = ret ()"
| "ioAll (e # es) = thenM (ioM e) (ioAll es)"

lemma ioM_no_faults [simp]: "faults s = [] \<Longrightarrow> ioM e s = (Inr (), s)"
  by (simp add: ioM_def)

lemma ioAll_no_faults [simp]: "faults s = [] \<Longrightarrow> ioAll es s = (Inr (), s)"
  by (induction es) (simp_all add: ret_def thenM_def bindM_def)

lemmas monad_defs = ret_def raise_def bindM_def thenM_def getM_def modM_def catchM_def
  wrapM_def tryM_def guardM_def

section \<open>Taking a run apart\<close>

text \<open>
  Where did the run \<open>c s = (r, s')\<close> end?  These rules and equations let \<open>auto\<close> walk through a
  handler, one early return after the other.
\<close>

lemma bindM_cases:
  assumes "bindM c f s = (r, s')"
  obtains e where "c s = (Inl e, s')" "r = Inl e"
  | x t where "c s = (Inr x, t)" "f x t = (r, s')"
  using assms by (auto simp: bindM_def split: prod.splits sum.splits)

lemma thenM_cases:
  assumes "thenM c d s = (r, s')"
  obtains e where "c s = (Inl e, s')" "r = Inl e"
  | x t where "c s = (Inr x, t)" "d t = (r, s')"
  using assms unfolding thenM_def by (rule bindM_cases) auto

lemma catchM_run:
  assumes "catchM c h s = (r, s')"
  obtains e t where "c s = (Inl e, t)" "h e t = (r, s')" | v where "c s = (Inr v, s')" "r = Inr v"
  using assms by (auto simp: catchM_def split: prod.splits sum.splits)

lemma tryM_run:
  assumes "tryM c s = (r, s')"
  obtains q where "c s = (q, s')" "r = Inr q"
  using assms by (auto simp: tryM_def split: prod.splits)

lemma wrap_iffs:
  "wrapM l c s = (Inr v, s') \<longleftrightarrow> c s = (Inr v, s')"
  "wrapM l c s = (Inl e, s') \<longleftrightarrow> (\<exists>e'. e = Wrap l e' \<and> c s = (Inl e', s'))"
  by (auto simp: wrapM_def catchM_def raise_def split: prod.splits sum.splits)

lemma ret_iff: "ret x s = (r, s') \<longleftrightarrow> r = Inr x \<and> s' = s"
  and raise_iff: "raise e s = (r, s') \<longleftrightarrow> r = Inl e \<and> s' = s"
  and getM_iff: "getM f s = (ra, s') \<longleftrightarrow> ra = Inr (f s) \<and> s' = s"
  and modM_iff: "modM g s = (ru, s') \<longleftrightarrow> ru = Inr () \<and> s' = g s"
  and guardM_iff: "guardM b e s = (ru, s') \<longleftrightarrow> s' = s \<and> ru = (if b then Inr () else Inl e)"
  by (auto simp: monad_defs)

lemmas run_iffs = ret_iff raise_iff getM_iff modM_iff guardM_iff

text \<open>
  Evaluating a run on a concrete state.  \<open>contM\<close> and \<open>handM\<close> are the two case distinctions of the
  monad; their congruence rules keep the simplifier out of the continuation until the state it
  starts from is known.
\<close>

definition contM :: "(goerr + 'a) \<times> 's \<Rightarrow> ('a \<Rightarrow> ('s, 'b) m) \<Rightarrow> (goerr + 'b) \<times> 's" where
  "contM p f = (case p of (Inl e, s) \<Rightarrow> (Inl e, s) | (Inr x, s) \<Rightarrow> f x s)"

definition handM :: "(goerr + 'a) \<times> 's \<Rightarrow> (goerr \<Rightarrow> ('s, 'a) m) \<Rightarrow> (goerr + 'a) \<times> 's" where
  "handM p h = (case p of (Inl e, s) \<Rightarrow> h e s | (Inr x, s) \<Rightarrow> (Inr x, s))"

definition tryP :: "(goerr + 'a) \<times> 's \<Rightarrow> (goerr + (goerr + 'a)) \<times> 's" where
  "tryP p = (Inr (fst p), snd p)"

lemma run_cong: "p = p' \<Longrightarrow> contM p f = contM p' f" "q = q' \<Longrightarrow> handM q h = handM q' h"
  "s = s' \<Longrightarrow> bindM c f s = bindM c f s'" "t = t' \<Longrightarrow> thenM d e t = thenM d e t'"
  by simp_all

lemma run_eval:
  "bindM c f s = contM (c s) f" "thenM c d s = contM (c s) (\<lambda>_. d)"
  "catchM c h s = handM (c s) h" "wrapM l c s = handM (c s) (\<lambda>e. raise (Wrap l e))"
  "tryM c s = tryP (c s)" "tryP (r, s) = (Inr r, s)"
  "contM (Inl e, s) f = (Inl e, s)" "contM (Inr x, s) f = f x s"
  "handM (Inl e, s) h = h e s" "handM (Inr x, s) h = (Inr x, s)"
  "ret x s = (Inr x, s)" "raise e s = (Inl e, s)" "getM g s = (Inr (g s), s)"
  "modM k s = (Inr (), k s)" "guardM b e s = (if b then Inr () else Inl e, s)"
  "foldM st a [] s = (Inr a, s)" "foldM st a (y # ys) s = contM (st a y s) (\<lambda>b'. foldM st b' ys)"
  by (simp_all add: monad_defs contM_def handM_def tryP_def split_beta)

text \<open>
  A loop, with what holds after the elements \<open>ys\<close> (\<open>J ys\<close>) and what holds after a failure (\<open>E\<close>).
\<close>

lemma foldM_run:
  assumes run: "foldM f b xs s = (r, s')" and J: "J [] b s"
    and step: "\<And>ys y zs b s r s'. xs = ys @ y # zs \<Longrightarrow> J ys b s \<Longrightarrow> f b y s = (r, s') \<Longrightarrow>
      (case r of Inl e \<Rightarrow> E e s' | Inr b' \<Rightarrow> J (ys @ [y]) b' s')"
  shows "case r of Inl e \<Rightarrow> E e s' | Inr b' \<Rightarrow> J xs b' s'"
proof -
  have "xs = ys @ zs \<Longrightarrow> J ys b s \<Longrightarrow> foldM f b zs s = (r, s') \<Longrightarrow>
      (case r of Inl e \<Rightarrow> E e s' | Inr b' \<Rightarrow> J xs b' s')" for ys zs b s
  proof (induction zs arbitrary: ys b s)
    case Nil
    then show ?case by (simp add: ret_iff)
  next
    case (Cons y zs)
    from Cons.prems(3) have "bindM (f b y) (\<lambda>b'. foldM f b' zs) s = (r, s')" by simp
    then show ?case
    proof (cases rule: bindM_cases)
      case (1 e)
      with step [OF Cons.prems(1,2) 1(1)] show ?thesis by simp
    next
      case (2 b' t)
      with step [OF Cons.prems(1,2) 2(1)] have "J (ys @ [y]) b' t" by simp
      with Cons.IH [of "ys @ [y]" b' t] Cons.prems(1) 2(2) show ?thesis by simp
    qed
  qed
  from this [of "[]" xs b s] run J show ?thesis by simp
qed

lemma bindM_getM: "bindM (getM g) f s = f (g s) s"
  and bindM_ret: "bindM (ret v) f = f v"
  and thenM_ret: "thenM (ret v) d = d"
  and thenM_modM: "thenM (modM h) d s = d (h s)"
  by (simp_all add: monad_defs fun_eq_iff)

lemma bindM_Inr: "c s = (Inr v, t) \<Longrightarrow> bindM c f s = f v t"
  and thenM_Inr: "c s = (Inr v, t) \<Longrightarrow> thenM c d s = d t"
  and bindM_Inl: "c s = (Inl e, t) \<Longrightarrow> bindM c f s = (Inl e, t)"
  and wrapM_Inr: "c s = (Inr v, t) \<Longrightarrow> wrapM l c s = (Inr v, t)"
  by (simp_all add: monad_defs)

text \<open>The same for a loop that cannot fail.\<close>

lemma foldM_ok:
  assumes J: "J [] b s"
    and step: "\<And>ys y zs b s. xs = ys @ y # zs \<Longrightarrow> J ys b s \<Longrightarrow>
      \<exists>b' s'. f b y s = (Inr b', s') \<and> J (ys @ [y]) b' s'"
  shows "\<exists>b' s'. foldM f b xs s = (Inr b', s') \<and> J xs b' s'"
proof -
  have "xs = ys @ zs \<Longrightarrow> J ys b s \<Longrightarrow> \<exists>b' s'. foldM f b zs s = (Inr b', s') \<and> J xs b' s'" for ys zs b s
  proof (induction zs arbitrary: ys b s)
    case Nil
    then show ?case by (simp add: ret_def)
  next
    case (Cons y zs)
    from step [OF Cons.prems] obtain b' s' where 1: "f b y s = (Inr b', s')" "J (ys @ [y]) b' s'"
      by blast
    from Cons.IH [of "ys @ [y]" b' s'] Cons.prems(1) 1(2)
    obtain b'' s'' where "foldM f b' zs s' = (Inr b'', s'')" "J xs b'' s''" by auto
    with 1(1) show ?case by (simp add: bindM_Inr)
  qed
  from this [of "[]" xs b s] J show ?thesis by simp
qed

section \<open>Hoare triples\<close>

definition triple ::
  "('s \<Rightarrow> bool) \<Rightarrow> ('s, 'a) m \<Rightarrow> ('a \<Rightarrow> 's \<Rightarrow> bool) \<Rightarrow> (goerr \<Rightarrow> 's \<Rightarrow> bool) \<Rightarrow> bool" where
  "triple P c Q E \<longleftrightarrow> (\<forall>s. P s \<longrightarrow> (case c s of (Inl e, s') \<Rightarrow> E e s' | (Inr x, s') \<Rightarrow> Q x s'))"

text \<open>An invariant that a computation keeps, whether it returns or fails.\<close>

definition keeps :: "('s \<Rightarrow> bool) \<Rightarrow> ('s, 'a) m \<Rightarrow> bool" where
  "keeps I c \<longleftrightarrow> (\<forall>s. I s \<longrightarrow> I (snd (c s)))"

lemma tripleI:
  "(\<And>s x s'. P s \<Longrightarrow> c s = (Inr x, s') \<Longrightarrow> Q x s') \<Longrightarrow>
   (\<And>s e s'. P s \<Longrightarrow> c s = (Inl e, s') \<Longrightarrow> E e s') \<Longrightarrow> triple P c Q E"
  by (auto simp: triple_def split: prod.splits sum.splits)

lemma tripleD:
  assumes "triple P c Q E" and "P s"
  shows "c s = (Inr x, s') \<Longrightarrow> Q x s'" and "c s = (Inl e, s') \<Longrightarrow> E e s'"
  using assms by (fastforce simp: triple_def)+

lemma triple_conseq:
  "triple P c Q E \<Longrightarrow> (\<And>s. P' s \<Longrightarrow> P s) \<Longrightarrow> (\<And>x s. Q x s \<Longrightarrow> Q' x s) \<Longrightarrow>
   (\<And>e s. E e s \<Longrightarrow> E' e s) \<Longrightarrow> triple P' c Q' E'"
  by (fastforce simp: triple_def split: prod.splits sum.splits)

lemma triple_ret [triple_intros]: "(\<And>s. P s \<Longrightarrow> Q x s) \<Longrightarrow> triple P (ret x) Q E"
  by (simp add: triple_def ret_def)

lemma triple_raise [triple_intros]: "(\<And>s. P s \<Longrightarrow> E e s) \<Longrightarrow> triple P (raise e) Q E"
  by (simp add: triple_def raise_def)

lemma triple_getM [triple_intros]: "(\<And>s. P s \<Longrightarrow> Q (f s) s) \<Longrightarrow> triple P (getM f) Q E"
  by (simp add: triple_def getM_def)

lemma triple_modM [triple_intros]: "(\<And>s. P s \<Longrightarrow> Q () (f s)) \<Longrightarrow> triple P (modM f) Q E"
  by (simp add: triple_def modM_def)

lemma triple_bindM:
  "triple P c R E \<Longrightarrow> (\<And>x. triple (R x) (f x) Q E) \<Longrightarrow> triple P (bindM c f) Q E"
  by (fastforce simp: triple_def bindM_def split: prod.splits sum.splits)

lemma triple_thenM:
  "triple P c R E \<Longrightarrow> (\<And>x. triple (R x) d Q E) \<Longrightarrow> triple P (thenM c d) Q E"
  by (simp add: thenM_def triple_bindM)

lemma triple_foldM:
  assumes step: "\<And>b x. x \<in> set xs \<Longrightarrow> triple (I b) (f b x) I E"
  shows "triple (I b) (foldM f b xs) I E"
  using step
proof (induction xs arbitrary: b)
  case Nil
  show ?case by (simp add: triple_ret)
next
  case (Cons x xs)
  have "triple (I b) (f b x) I E" by (rule Cons.prems) simp
  moreover have "\<And>b'. triple (I b') (foldM f b' xs) I E"
    by (rule Cons.IH) (simp add: Cons.prems)
  ultimately show ?case by (simp add: triple_bindM)
qed

lemma keeps_triple: "keeps I c \<longleftrightarrow> triple I c (\<lambda>_. I) (\<lambda>_. I)"
proof
  assume "keeps I c"
  then show "triple I c (\<lambda>_. I) (\<lambda>_. I)"
    by (fastforce simp: keeps_def triple_def split: prod.splits sum.splits)
next
  assume *: "triple I c (\<lambda>_. I) (\<lambda>_. I)"
  show "keeps I c"
    unfolding keeps_def
  proof (intro allI impI)
    fix s assume "I s"
    with * show "I (snd (c s))"
      by (cases "c s"; cases "fst (c s)") (auto simp: triple_def)
  qed
qed

lemma keepsD: "keeps I c \<Longrightarrow> I s \<Longrightarrow> c s = (r, s') \<Longrightarrow> I s'"
  by (fastforce simp: keeps_def)

lemma keeps_ret [keeps_intros]: "keeps I (ret x)"
  and keeps_raise [keeps_intros]: "keeps I (raise e)"
  and keeps_getM [keeps_intros]: "keeps I (getM f)"
  and keeps_guardM [keeps_intros]: "keeps I (guardM b e)"
  by (simp_all add: keeps_def monad_defs)

lemma keeps_modM [keeps_intros]: "(\<And>s. I s \<Longrightarrow> I (f s)) \<Longrightarrow> keeps I (modM f)"
  by (simp add: keeps_def modM_def)

lemma keeps_bindM [keeps_intros]:
  "keeps I c \<Longrightarrow> (\<And>x. keeps I (f x)) \<Longrightarrow> keeps I (bindM c f)"
  by (fastforce simp: keeps_def bindM_def split: prod.splits sum.splits)

lemma keeps_thenM [keeps_intros]: "keeps I c \<Longrightarrow> keeps I d \<Longrightarrow> keeps I (thenM c d)"
  by (simp add: thenM_def keeps_bindM)

lemma keeps_catchM [keeps_intros]:
  "keeps I c \<Longrightarrow> (\<And>e. keeps I (h e)) \<Longrightarrow> keeps I (catchM c h)"
  by (fastforce simp: keeps_def catchM_def split: prod.splits sum.splits)

lemma keeps_wrapM [keeps_intros]: "keeps I c \<Longrightarrow> keeps I (wrapM w c)"
  by (simp add: wrapM_def keeps_catchM keeps_raise)

lemma keeps_tryM [keeps_intros]: "keeps I c \<Longrightarrow> keeps I (tryM c)"
  by (fastforce simp: keeps_def tryM_def split: prod.splits)

lemma keeps_if [keeps_intros]:
  "(b \<Longrightarrow> keeps I c) \<Longrightarrow> (\<not> b \<Longrightarrow> keeps I d) \<Longrightarrow> keeps I (if b then c else d)"
  by simp

lemma keeps_case_option [keeps_intros]:
  "(x = None \<Longrightarrow> keeps I c) \<Longrightarrow> (\<And>y. x = Some y \<Longrightarrow> keeps I (d y)) \<Longrightarrow>
   keeps I (case x of None \<Rightarrow> c | Some y \<Rightarrow> d y)"
  by (cases x) auto

lemma keeps_case_sum [keeps_intros]:
  "(\<And>e. x = Inl e \<Longrightarrow> keeps I (c e)) \<Longrightarrow> (\<And>y. x = Inr y \<Longrightarrow> keeps I (d y)) \<Longrightarrow>
   keeps I (case x of Inl e \<Rightarrow> c e | Inr y \<Rightarrow> d y)"
  by (cases x) auto

lemma keeps_case_prod [keeps_intros]:
  "(\<And>a b. x = (a, b) \<Longrightarrow> keeps I (c a b)) \<Longrightarrow> keeps I (case x of (a, b) \<Rightarrow> c a b)"
  by (cases x) auto

lemma keeps_foldM [keeps_intros]:
  "(\<And>b x. x \<in> set xs \<Longrightarrow> keeps I (f b x)) \<Longrightarrow> keeps I (foldM f b xs)"
  by (induction xs arbitrary: b) (auto intro: keeps_intros)

text \<open>
  A fault consumes the head of the schedule and nothing else, so any property that does not read
  the schedule is kept by it.
\<close>

definition fault_free :: "('a io_scheme \<Rightarrow> bool) \<Rightarrow> bool" where
  "fault_free I \<longleftrightarrow> (\<forall>s bs. I s \<longrightarrow> I (s\<lparr>faults := bs\<rparr>))"

lemma keeps_ioM [keeps_intros]: "fault_free I \<Longrightarrow> keeps I (ioM e)"
  by (auto simp: keeps_def fault_free_def ioM_def split: list.splits)

lemma keeps_ioAll [keeps_intros]: "fault_free I \<Longrightarrow> keeps I (ioAll es)"
  by (induction es) (auto intro: keeps_intros)

lemma triple_ioM [triple_intros]:
  assumes "fault_free P" and "\<And>s. P s \<Longrightarrow> Q () s" and "\<And>s. P s \<Longrightarrow> E e s"
  shows "triple P (ioM e) Q E"
  using assms by (auto simp: triple_def fault_free_def ioM_def split: list.splits)

section \<open>Lists and maps\<close>

lemma map_le_upd_new: "m k = None \<Longrightarrow> m \<subseteq>\<^sub>m m(k \<mapsto> v)"
  by (auto simp: map_le_def)

lemma find_Some_set: "find p xs = Some x \<Longrightarrow> x \<in> set xs \<and> p x"
  by (induction xs) (auto split: if_splits)

lemma find_None_all: "find p xs = None \<longleftrightarrow> (\<forall>x \<in> set xs. \<not> p x)"
  by (induction xs) auto

lemma find_unique:
  "distinct (map k xs) \<Longrightarrow> x \<in> set xs \<Longrightarrow> find (\<lambda>y. k y = k x) xs = Some x"
  by (induction xs) (auto simp: rev_image_eqI)

lemma filter_unique:
  "distinct (map k xs) \<Longrightarrow> x \<in> set xs \<Longrightarrow> filter (\<lambda>y. k y = k x) xs = [x]"
  by (induction xs) (auto simp: filter_empty_conv rev_image_eqI)

lemma length_filter_append: "length (filter p (xs @ ys)) = length (filter p xs) + length (filter p ys)"
  by simp

lemma sum_list_take_le: "sum_list (take n xs) \<le> sum_list (xs :: nat list)"
  by (metis append_take_drop_id le_add1 sum_list_append)

lemma take_sort_subset: "set (take n (sort_key k (filter p xs))) \<subseteq> {x \<in> set xs. p x}"
  by (auto dest: in_set_takeD)

end
