(* ===== verification/GoText.thy ===== *)
theory GoText
  imports Prelude "HOL-Library.Char_ord"
begin

text \<open>
  The part of Go's \<open>strings\<close>, \<open>path\<close>, \<open>encoding/hex\<close>, \<open>unicode/utf8\<close> and \<open>strconv\<close> packages the
  modelled code uses.  A Go string is a sequence of bytes, so it is an HOL \<open>string\<close> whose
  characters are bytes; \<open>len\<close> is \<open>length\<close>.  What counts characters instead of bytes (a range over
  a string, a PostgreSQL text function) goes through \<open>runes\<close>, the UTF-8 decoder.
\<close>

section \<open>Bytes and characters\<close>

abbreviation byte :: "char \<Rightarrow> nat" where
  "byte c \<equiv> of_char c"

definition cont_byte :: "nat \<Rightarrow> bool" where
  "cont_byte b \<longleftrightarrow> 128 \<le> b \<and> b < 192"

text \<open>
  The width \<open>utf8.DecodeRune\<close> reports for the front of a byte list: an ill-formed sequence has
  width 1.  Overlong forms, surrogates and values above U+10FFFF are ill-formed.
\<close>

fun rune_len :: "string \<Rightarrow> nat" where
  "rune_len [] = 0"
| "rune_len (c # cs) =
     (let b = byte c;
          at = (\<lambda>i. if i < length cs then byte (cs ! i) else 0)
      in if b < 194 then 1
         else if b < 224 then (if cont_byte (at 0) then 2 else 1)
         else if b < 240 then
           (if cont_byte (at 0) \<and> cont_byte (at 1)
               \<and> (b = 224 \<longrightarrow> 160 \<le> at 0) \<and> (b = 237 \<longrightarrow> at 0 < 160) then 3 else 1)
         else if b < 245 then
           (if cont_byte (at 0) \<and> cont_byte (at 1) \<and> cont_byte (at 2)
               \<and> (b = 240 \<longrightarrow> 144 \<le> at 0) \<and> (b = 244 \<longrightarrow> at 0 < 144) then 4 else 1)
         else 1)"

lemma rune_len_pos: "s \<noteq> [] \<Longrightarrow> 0 < rune_len s"
  by (cases s) (auto simp: Let_def)

text \<open>The characters of a string, each as the bytes that encode it.\<close>

function runes :: "string \<Rightarrow> string list" where
  "runes [] = []"
| "runes (c # cs) = take (rune_len (c # cs)) (c # cs) # runes (drop (rune_len (c # cs)) (c # cs))"
  by pat_completeness auto
termination
proof (relation "measure length")
  fix c cs
  have "0 < rune_len (c # cs)" by (rule rune_len_pos) simp
  then show "(drop (rune_len (c # cs)) (c # cs), c # cs) \<in> measure length"
    by (simp only: in_measure length_drop) simp
qed simp

declare rune_len.simps [simp del]

lemma concat_runes [simp]: "concat (runes s) = s"
proof (induction s rule: runes.induct)
  case (2 c cs)
  then show ?case by (simp only: runes.simps concat.simps append_take_drop_id)
qed simp

lemma length_runes_le: "length (runes s) \<le> length s"
proof (induction s rule: runes.induct)
  case (2 c cs)
  have "0 < rune_len (c # cs)" by (rule rune_len_pos) simp
  then have "length (drop (rune_len (c # cs)) (c # cs)) < length (c # cs)"
    by (simp only: length_drop) simp
  with 2 show ?case by simp
qed simp

definition ascii :: "string \<Rightarrow> bool" where
  "ascii s \<longleftrightarrow> list_all (\<lambda>c. byte c < 128) s"

lemma runes_ascii: "ascii s \<Longrightarrow> runes s = map (\<lambda>c. [c]) s"
proof (induction s)
  case (Cons c cs)
  then have "rune_len (c # cs) = 1"
    by (simp add: ascii_def rune_len.simps Let_def)
  with Cons show ?case by (simp add: ascii_def)
qed simp

definition lower_byte :: "char \<Rightarrow> char" where
  "lower_byte c = (if 65 \<le> byte c \<and> byte c \<le> 90 then char_of (byte c + 32) else c)"

definition upper_byte :: "char \<Rightarrow> char" where
  "upper_byte c = (if 97 \<le> byte c \<and> byte c \<le> 122 then char_of (byte c - 32) else c)"

text \<open>
  \<open>strings.ToLower\<close>: ASCII letters are mapped here; \<open>u\<close> is Unicode's lower-case table for the
  other characters.
\<close>

definition ToLower :: "(string \<Rightarrow> string) \<Rightarrow> string \<Rightarrow> string" where
  "ToLower u s = concat (map (\<lambda>ch. if ascii ch then map lower_byte ch else u ch) (runes s))"

lemma ToLower_ascii: "ascii s \<Longrightarrow> ToLower u s = map lower_byte s"
proof -
  assume a: "ascii s"
  have "\<forall>c \<in> set s. ascii [c]" using a by (auto simp: ascii_def list_all_iff)
  then have "concat (map (\<lambda>ch. if ascii ch then map lower_byte ch else u ch) (map (\<lambda>c. [c]) s))
      = map lower_byte s"
    by (induction s) auto
  with a show ?thesis by (simp add: ToLower_def runes_ascii)
qed

section \<open>The strings package\<close>

definition HasPrefix :: "string \<Rightarrow> string \<Rightarrow> bool" where
  "HasPrefix s p \<longleftrightarrow> prefix p s"

definition HasSuffix :: "string \<Rightarrow> string \<Rightarrow> bool" where
  "HasSuffix s p \<longleftrightarrow> suffix p s"

definition TrimPrefix :: "string \<Rightarrow> string \<Rightarrow> string" where
  "TrimPrefix s p = (if HasPrefix s p then drop (length p) s else s)"

definition TrimSuffix :: "string \<Rightarrow> string \<Rightarrow> string" where
  "TrimSuffix s p = (if HasSuffix s p then take (length s - length p) s else s)"

definition TrimRightByte :: "string \<Rightarrow> char \<Rightarrow> string" where
  "TrimRightByte s c = rev (dropWhile (\<lambda>d. d = c) (rev s))"

definition ContainsAny :: "string \<Rightarrow> string \<Rightarrow> bool" where
  "ContainsAny s cs \<longleftrightarrow> list_ex (\<lambda>c. c \<in> set cs) s"

fun IndexByte :: "string \<Rightarrow> char \<Rightarrow> nat option" where
  "IndexByte [] c = None"
| "IndexByte (d # ds) c = (if d = c then Some 0 else map_option Suc (IndexByte ds c))"

fun SplitByte :: "string \<Rightarrow> char \<Rightarrow> string list" where
  "SplitByte [] c = [[]]"
| "SplitByte (d # ds) c =
     (if d = c then [] # SplitByte ds c
      else (case SplitByte ds c of [] \<Rightarrow> [[d]] | w # ws \<Rightarrow> (d # w) # ws))"

fun JoinByte :: "string list \<Rightarrow> char \<Rightarrow> string" where
  "JoinByte [] c = []"
| "JoinByte [w] c = w"
| "JoinByte (w # ws) c = w @ c # JoinByte ws c"

text \<open>White space of \<open>unicode.IsSpace\<close>, as encoded characters.\<close>

definition space_runes :: "string list" where
  "space_runes = map (map char_of)
     ([[9], [10], [11], [12], [13], [32], [194, 133], [194, 160], [225, 154, 128],
       [226, 128, 168], [226, 128, 169], [226, 128, 175], [226, 129, 159], [227, 128, 128]]
      @ map (\<lambda>b. [226, 128, b]) [128 ..< 139] :: nat list list)"

definition IsSpace :: "string \<Rightarrow> bool" where
  "IsSpace ch \<longleftrightarrow> ch \<in> set space_runes"

definition TrimSpace :: "string \<Rightarrow> string" where
  "TrimSpace s = concat (rev (dropWhile IsSpace (rev (dropWhile IsSpace (runes s)))))"

lemma SplitByte_not_Nil [simp]: "SplitByte s c \<noteq> []"
  by (cases s) (auto split: list.splits)

lemma Join_SplitByte: "JoinByte (SplitByte s c) c = s"
proof (induction s)
  case (Cons d ds)
  show ?case
  proof (cases "SplitByte ds c")
    case Nil
    then show ?thesis by simp
  next
    case (Cons w ws)
    with Cons.IH show ?thesis by (cases ws) auto
  qed
qed simp

lemma SplitByte_no_sep: "w \<in> set (SplitByte s c) \<Longrightarrow> c \<notin> set w"
proof (induction s arbitrary: w)
  case (Cons d ds)
  then show ?case by (cases "SplitByte ds c") (auto split: if_splits)
qed simp

lemma SplitByte_none: "c \<notin> set s \<Longrightarrow> SplitByte s c = [s]"
  by (induction s) auto

lemma SplitByte_append: "c \<notin> set w \<Longrightarrow> SplitByte (w @ c # s) c = w # SplitByte s c"
  by (induction w) auto

lemma IndexByte_Some: "IndexByte s c = Some i \<Longrightarrow> i < length s \<and> s ! i = c \<and> c \<notin> set (take i s)"
  by (induction s arbitrary: i) (auto split: if_splits)

lemma IndexByte_None: "IndexByte s c = None \<longleftrightarrow> c \<notin> set s"
  by (induction s) auto

lemma HasPrefix_iff [simp]: "HasPrefix s p \<longleftrightarrow> prefix p s"
  by (simp add: HasPrefix_def)

lemma HasSuffix_iff [simp]: "HasSuffix s p \<longleftrightarrow> suffix p s"
  by (simp add: HasSuffix_def)

lemma TrimPrefix_append [simp]: "TrimPrefix (p @ s) p = s"
  by (simp add: TrimPrefix_def)

section \<open>Slash-separated paths\<close>

text \<open>\<open>strings.LastIndexByte(s, '/')\<close> splits a path into what is up to and after the last slash.\<close>

definition after_slash :: "string \<Rightarrow> string" where
  "after_slash s = rev (takeWhile (\<lambda>c. c \<noteq> CHR ''/'') (rev s))"

definition upto_slash :: "string \<Rightarrow> string" where
  "upto_slash s = rev (dropWhile (\<lambda>c. c \<noteq> CHR ''/'') (rev s))"

lemma upto_after_slash: "upto_slash s @ after_slash s = s"
  by (simp add: upto_slash_def after_slash_def flip: rev_append)

text \<open>\<open>path.Clean\<close>: the elements are resolved left to right.\<close>

fun clean_elems :: "bool \<Rightarrow> string list \<Rightarrow> string list \<Rightarrow> string list" where
  "clean_elems rooted acc [] = rev acc"
| "clean_elems rooted acc (w # ws) =
     (if w = [] \<or> w = ''.'' then clean_elems rooted acc ws
      else if w = ''..'' then
        (case acc of
           [] \<Rightarrow> (if rooted then clean_elems rooted [] ws else clean_elems rooted [''..''] ws)
         | a # as \<Rightarrow> (if a = ''..'' then clean_elems rooted (''..'' # acc) ws
                     else clean_elems rooted as ws))
      else clean_elems rooted (w # acc) ws)"

definition path_Clean :: "string \<Rightarrow> string" where
  "path_Clean p =
     (if p = [] then ''.''
      else let rooted = prefix ''/'' p;
               out = JoinByte (clean_elems rooted [] (SplitByte p (CHR ''/''))) (CHR ''/'')
           in if rooted then CHR ''/'' # out else if out = [] then ''.'' else out)"

definition path_Dir :: "string \<Rightarrow> string" where
  "path_Dir p = path_Clean (upto_slash p)"

definition path_Base :: "string \<Rightarrow> string" where
  "path_Base p =
     (if p = [] then ''.''
      else let b = after_slash (TrimRightByte p (CHR ''/''))
           in if b = [] then ''/'' else b)"

definition path_Ext :: "string \<Rightarrow> string" where
  "path_Ext p =
     (let b = after_slash p; e = takeWhile (\<lambda>c. c \<noteq> CHR ''.'') (rev b)
      in if length e < length b then CHR ''.'' # rev e else [])"

lemma path_Ext_suffix: "suffix (path_Ext p) p"
proof (cases "length (takeWhile (\<lambda>c. c \<noteq> CHR ''.'') (rev (after_slash p))) < length (after_slash p)")
  case True
  let ?r = "rev (after_slash p)"
  let ?n = "length (takeWhile (\<lambda>c. c \<noteq> CHR ''.'') ?r)"
  have "?n < length ?r" using True by simp
  then have dot: "?r ! ?n = CHR ''.''" using nth_length_takeWhile by fastforce
  have "take (Suc ?n) ?r = takeWhile (\<lambda>c. c \<noteq> CHR ''.'') ?r @ [CHR ''.'']"
    using True dot by (simp add: take_Suc_conv_app_nth takeWhile_eq_take [symmetric])
  then have "path_Ext p = rev (take (Suc ?n) ?r)"
    using True by (simp add: path_Ext_def Let_def)
  then have "suffix (path_Ext p) (after_slash p)"
    by (metis rev_rev_ident suffix_to_prefix take_is_prefix)
  then show ?thesis by (metis suffix_append suffix_order.refl upto_after_slash)
next
  case False
  then show ?thesis by (simp add: path_Ext_def Let_def)
qed

section \<open>Hexadecimal\<close>

definition hex_digit :: "nat \<Rightarrow> char" where
  "hex_digit n = (if n < 10 then char_of (n + 48) else char_of (n + 87))"

definition hex_value :: "char \<Rightarrow> nat option" where
  "hex_value c =
     (let b = byte c
      in if 48 \<le> b \<and> b \<le> 57 then Some (b - 48)
         else if 97 \<le> b \<and> b \<le> 102 then Some (b - 87)
         else if 65 \<le> b \<and> b \<le> 70 then Some (b - 55) else None)"

fun hex_encode :: "string \<Rightarrow> string" where
  "hex_encode [] = []"
| "hex_encode (c # cs) = hex_digit (byte c div 16) # hex_digit (byte c mod 16) # hex_encode cs"

fun hex_decode :: "string \<Rightarrow> string option" where
  "hex_decode [] = Some []"
| "hex_decode [c] = None"
| "hex_decode (c # d # cs) =
     (case (hex_value c, hex_value d, hex_decode cs) of
        (Some h, Some l, Some r) \<Rightarrow> Some (char_of (16 * h + l) # r)
      | _ \<Rightarrow> None)"

lemma hex_value_digit: "n < 16 \<Longrightarrow> hex_value (hex_digit n) = Some n"
  by (auto simp: hex_value_def hex_digit_def Let_def)

lemma length_hex_encode [simp]: "length (hex_encode s) = 2 * length s"
  by (induction s) auto

lemma nibbles: "byte c div 16 < 16" "byte c mod 16 < 16"
proof -
  have "byte c < 256" by simp
  then show "byte c div 16 < 16" "byte c mod 16 < 16" by linarith simp
qed

lemma hex_decode_encode [simp]: "hex_decode (hex_encode s) = Some s"
proof (induction s)
  case (Cons c cs)
  then show ?case by (simp add: hex_value_digit nibbles)
qed simp

lemma hex_encode_inj: "hex_encode s = hex_encode t \<longleftrightarrow> s = t"
  by (metis hex_decode_encode option.inject)

definition is_hex :: "char \<Rightarrow> bool" where
  "is_hex c \<longleftrightarrow> (48 \<le> byte c \<and> byte c \<le> 57) \<or> (97 \<le> byte c \<and> byte c \<le> 102)"

lemma is_hex_digit: "n < 16 \<Longrightarrow> is_hex (hex_digit n)"
  by (auto simp: is_hex_def hex_digit_def)

lemma hex_encode_chars: "c \<in> set (hex_encode s) \<Longrightarrow> is_hex c"
proof (induction s)
  case (Cons d ds)
  then show ?case by (auto intro: is_hex_digit nibbles)
qed simp

end
