(* ===== verification/World.thy ===== *)
theory World
  imports GoText "HOL-Library.AList"
begin

text \<open>
  The server's state: the PostgreSQL tables of \<open>server/internal/db/migrations\<close> that the modelled
  code reads and writes (each a list of rows), the local blob store, and what the environment
  supplies (the clock, random bytes, fresh row ids, the fault schedule).  The row records carry
  the columns of the migrations; the triggers and constraints are in the theory of the component
  whose rows they guard.  Timestamps are \<open>int\<close> (nanoseconds), \<open>int64\<close> sizes are \<open>int\<close>.
\<close>

datatype kind = KindFolder | KindFile

record user_row =
  u_id :: nat
  u_name :: string
  u_quota :: "int option"

record node_row =
  n_id :: nat
  n_owner :: nat
  n_parent :: "nat option"
  n_kind :: kind
  n_name :: string
  n_fold :: string
  n_path :: string
  n_head :: "nat option"
  n_trashed :: "int option"
  n_troot :: "nat option"
  n_created :: int
  n_updated :: int

record version_row =
  v_id :: nat
  v_node :: nat
  v_blob :: "nat option"
  v_manifest :: "nat option"
  v_size :: int
  v_mime :: string
  v_created :: int
  v_by :: "nat option"

record blob_row =
  b_id :: nat
  b_key :: string
  b_size :: int
  b_sha256 :: string
  b_ref :: int
  b_created :: int
  b_tier :: string

record chunk_row =
  c_hash :: string
  c_size :: int
  c_stored :: int
  c_comp :: string
  c_key :: string
  c_ref :: int
  c_created :: int
  c_tier :: string

record manifest_row =
  mf_id :: nat
  mf_total :: int
  mf_count :: int
  mf_hash :: string
  mf_created :: int

record mchunk_row =
  mc_manifest :: nat
  mc_seq :: int
  mc_hash :: string
  mc_offset :: int

record grant_row =
  g_id :: nat
  g_node :: nat
  g_owner :: nat
  g_grantee :: nat
  g_role :: string
  g_created :: int

record upload_row =
  up_id :: nat
  up_owner :: nat
  up_parent :: nat
  up_name :: string
  up_mime :: string
  up_size :: int
  up_offset :: int
  up_key :: string
  up_hash :: "string option"
  up_locked :: "int option"
  up_created :: int
  up_expires :: int

record change_row =
  chg_owner :: nat
  chg_seq :: int
  chg_node :: nat
  chg_kind :: string
  chg_at :: int

record world = io +
  now :: int
  next_id :: nat
  entropy :: "string list"
  disk :: "(string \<times> string) list"
  users :: "user_row list"
  nodes :: "node_row list"
  versions :: "version_row list"
  blobs :: "blob_row list"
  chunks :: "chunk_row list"
  manifests :: "manifest_row list"
  mchunks :: "mchunk_row list"
  grants :: "grant_row list"
  uploads :: "upload_row list"
  sync_state :: "(nat \<times> int) list"
  changes :: "change_row list"

definition empty_world :: world where
  "empty_world = \<lparr>faults = [], now = 0, next_id = 0, entropy = [], disk = [], users = [],
     nodes = [], versions = [], blobs = [], chunks = [], manifests = [], mchunks = [],
     grants = [], uploads = [], sync_state = [], changes = []\<rparr>"

text \<open>
  What the code calls and does not contain: BLAKE3 and SHA-256, the zstd encoder and decoder
  (\<open>DecodeAll\<close> may refuse its input), the FastCDC splitter (the pieces it emits from a reader that
  delivers the given bytes and then ends or fails: those of \<open>Split\<close>, and the trailing ones of
  \<open>Finalize\<close>) and Unicode's case tables outside ASCII.
\<close>

record ext =
  blake3 :: "string \<Rightarrow> string"
  sha256 :: "string \<Rightarrow> string"
  zstd_enc :: "string \<Rightarrow> string"
  zstd_dec :: "string \<Rightarrow> string option"
  cdc_split :: "string \<times> bool \<Rightarrow> string list"
  cdc_final :: "string \<times> bool \<Rightarrow> string list"
  uni_lower :: "string \<Rightarrow> string"
  uni_upper :: "string \<Rightarrow> string"

lemma faults_eq_iff [simp]: "(w :: world)\<lparr>faults := a\<rparr> = w\<lparr>faults := b\<rparr> \<longleftrightarrow> a = b"
proof
  assume "w\<lparr>faults := a\<rparr> = w\<lparr>faults := b\<rparr>"
  then have "faults (w\<lparr>faults := a\<rparr>) = faults (w\<lparr>faults := b\<rparr>)" by (rule arg_cong)
  then show "a = b" by simp
qed simp

text \<open>\<open>gen_random_uuid()\<close> gives ids that were never used.\<close>

definition fresh_id :: "(world, nat) m" where
  "fresh_id = (\<lambda>w. (Inr (next_id w), w\<lparr>next_id := Suc (next_id w)\<rparr>))"

text \<open>
  A database transaction: an error rolls the tables back and leaves everything else (the disk,
  the schedule, the random bytes and the ids already drawn) as it is.
\<close>

definition rollback :: "world \<Rightarrow> world \<Rightarrow> world" where
  "rollback w w' = w'\<lparr>users := users w, nodes := nodes w, versions := versions w,
     blobs := blobs w, chunks := chunks w, manifests := manifests w, mchunks := mchunks w,
     grants := grants w, uploads := uploads w,
     sync_state := sync_state w, changes := changes w\<rparr>"

definition txM :: "(world, 'a) m \<Rightarrow> (world, 'a) m" where
  "txM c = (\<lambda>w. case c w of (Inl e, w') \<Rightarrow> (Inl e, rollback w w') | (Inr x, w') \<Rightarrow> (Inr x, w'))"

text \<open>Everything but the disk, the schedule and the random bytes.\<close>

definition db_view :: "world \<Rightarrow> user_row list \<times> node_row list \<times> version_row list \<times> blob_row list \<times>
    chunk_row list \<times> manifest_row list \<times> mchunk_row list \<times> grant_row list \<times> upload_row list \<times>
    (nat \<times> int) list \<times> change_row list \<times> nat \<times> int" where
  "db_view w = (users w, nodes w, versions w, blobs w, chunks w, manifests w, mchunks w, grants w,
     uploads w, sync_state w, changes w, next_id w, now w)"

text \<open>One statement against the pool: the connection may be lost before it runs.\<close>

definition db_err :: goerr where
  "db_err = Io ''database''"

definition dbM :: "(world, unit) m" where
  "dbM = ioM db_err"

definition selectM :: "(world \<Rightarrow> 'a) \<Rightarrow> (world, 'a) m" where
  "selectM f = thenM dbM (getM f)"

definition execM :: "(world \<Rightarrow> world) \<Rightarrow> (world, unit) m" where
  "execM f = thenM dbM (modM f)"

text \<open>
  \<open>pool.Begin\<close>, the statements, \<open>tx.Commit\<close>.  A commit can fail before it is applied, and the
  acknowledgement of one that was applied can be lost: the caller sees an error in both cases.
\<close>

definition withTx :: "(world, 'a) m \<Rightarrow> (world, 'a) m" where
  "withTx c =
     thenM dbM
     (bindM (txM (bindM c (\<lambda>x. thenM dbM (ret x)))) (\<lambda>x.
      thenM dbM (ret x)))"

text \<open>Constraint violations PostgreSQL reports, by SQLSTATE.\<close>

definition unique_violation :: goerr where
  "unique_violation = Sentinel ''23505''"

definition check_violation :: goerr where
  "check_violation = Sentinel ''23514''"

definition fk_violation :: goerr where
  "fk_violation = Sentinel ''23503''"

lemma keeps_txM:
  assumes c: "keeps I c" and roll: "\<And>w w'. I w \<Longrightarrow> I w' \<Longrightarrow> I (rollback w w')"
  shows "keeps I (txM c)"
  unfolding keeps_def
proof (intro allI impI)
  fix w assume "I w"
  with c have "I (snd (c w))" by (simp add: keeps_def)
  with \<open>I w\<close> roll show "I (snd (txM c w))"
    by (cases "c w"; cases "fst (c w)") (auto simp: txM_def)
qed

lemma triple_txM:
  assumes "triple P c Q E" and "\<And>w e w'. P w \<Longrightarrow> E e w' \<Longrightarrow> E' e (rollback w w')"
  shows "triple P (txM c) Q E'"
  using assms by (fastforce simp: triple_def txM_def split: prod.splits sum.splits)

lemma rollback_simps [simp]:
  "faults (rollback w w') = faults w'" "now (rollback w w') = now w'"
  "next_id (rollback w w') = next_id w'" "entropy (rollback w w') = entropy w'"
  "disk (rollback w w') = disk w'" "users (rollback w w') = users w"
  "nodes (rollback w w') = nodes w" "versions (rollback w w') = versions w"
  "blobs (rollback w w') = blobs w" "chunks (rollback w w') = chunks w"
  "manifests (rollback w w') = manifests w" "mchunks (rollback w w') = mchunks w"
  "grants (rollback w w') = grants w" "uploads (rollback w w') = uploads w"
  "sync_state (rollback w w') = sync_state w" "changes (rollback w w') = changes w"
  by (simp_all add: rollback_def)

lemma keeps_selectM [keeps_intros]: "fault_free I \<Longrightarrow> keeps I (selectM f)"
  by (simp add: selectM_def dbM_def keeps_intros)

lemma keeps_dbM [keeps_intros]: "fault_free I \<Longrightarrow> keeps I dbM"
  by (simp add: dbM_def keeps_intros)

lemma keeps_execM [keeps_intros]:
  "fault_free I \<Longrightarrow> (\<And>w. I w \<Longrightarrow> I (f w)) \<Longrightarrow> keeps I (execM f)"
  by (simp add: execM_def dbM_def keeps_intros)

lemma keeps_withTx:
  "keeps I c \<Longrightarrow> fault_free I \<Longrightarrow> (\<And>w w'. I w \<Longrightarrow> I w' \<Longrightarrow> I (rollback w w')) \<Longrightarrow> keeps I (withTx c)"
  by (simp add: withTx_def keeps_intros keeps_txM)

lemma triple_dbM:
  "fault_free P \<Longrightarrow> (\<And>w. P w \<Longrightarrow> Q () w) \<Longrightarrow> (\<And>w. P w \<Longrightarrow> E db_err w) \<Longrightarrow> triple P dbM Q E"
  by (simp add: dbM_def triple_ioM)

lemma withTx_cases:
  assumes "withTx c w = (r, w')"
  obtains bs where "r = Inl db_err" "w' = w\<lparr>faults := bs\<rparr>"
  | bs e w1 where "c (w\<lparr>faults := bs\<rparr>) = (Inl e, w1)" "r = Inl e" "w' = rollback w w1"
  | bs x w1 bs' where "c (w\<lparr>faults := bs\<rparr>) = (Inr x, w1)" "r = Inl db_err"
      "w' = rollback w (w1\<lparr>faults := bs'\<rparr>)"
  | bs x w1 bs' where "c (w\<lparr>faults := bs\<rparr>) = (Inr x, w1)" "r = Inr x \<or> r = Inl db_err"
      "w' = w1\<lparr>faults := bs'\<rparr>"
proof -
  have io: "\<And>e (v::world) q v'. ioM e v = (q, v') \<Longrightarrow>
      (q = Inr () \<or> q = Inl e) \<and> (\<exists>bs. v' = v\<lparr>faults := bs\<rparr>)"
    subgoal for e v q v'
      by (cases "faults v") (auto simp: ioM_def intro!: exI [of _ "faults v'"])
    done
  have rb: "\<And>v bs. rollback (w\<lparr>faults := bs\<rparr>) v = rollback w v" by (simp add: rollback_def)
  show ?thesis
    using assms that unfolding withTx_def dbM_def
    by (elim thenM_cases bindM_cases) 
       (auto simp: txM_def run_iffs rb split: prod.splits sum.splits
         elim!: bindM_cases thenM_cases dest!: io)
qed


definition commitP :: "world \<Rightarrow> (goerr + 'a) \<times> world \<Rightarrow> (goerr + 'a) \<times> world" where
  "commitP w p = (case p of (Inl e, w') \<Rightarrow> (Inl e, rollback w w') | (Inr x, w') \<Rightarrow> (Inr x, w'))"

lemma db_eval:
  "faults w = [] \<Longrightarrow> dbM w = (Inr (), w)"
  "faults w = [] \<Longrightarrow> selectM f w = (Inr (f w), w)"
  "faults w = [] \<Longrightarrow> execM g w = (Inr (), g w)"
  "txM c w = commitP w (c w)" "commitP w (Inl e, w') = (Inl e, rollback w w')"
  "commitP w (Inr x, w') = (Inr x, w')"
  by (simp_all add: dbM_def selectM_def execM_def monad_defs txM_def commitP_def)

end
