(* ===== verification/Blob.thy ===== *)
theory Blob
  imports World
begin

text \<open>
  The local blob store, \<open>server/internal/blob/blob.go\<close>: keys and their validation, whole-object
  writes under a random key (\<open>Put\<close>) or a caller's key (\<open>PutKeyed\<close>), reads, deletion, and the
  staging half used by resumable uploads.  \<open>disk\<close> maps a path below the root to the bytes of the
  file there.  A write goes to a temporary file that is renamed into place, so a failure before the
  rename leaves no object and a failure after it (the \<open>chmod\<close>) leaves a complete one; the temporary
  file has a name no key lookup finds and is left out of the state.

  The locale \<open>keyed_store\<close> is the contract content-addressed storage relies on; it is interpreted
  here on the local store.
\<close>

section \<open>Keys\<close>

definition ErrBlobNotFound :: goerr where
  "ErrBlobNotFound = Sentinel ''blob not found''"

definition validKey :: "string \<Rightarrow> bool" where
  "validKey key \<longleftrightarrow>
     \<not> (key = [] \<or> length key > 512) \<and>
     \<not> ContainsAny key [CHR 0x5C, CHR '':''] \<and>
     \<not> HasPrefix key ''/'' \<and>
     (\<forall>seg \<in> set (SplitByte key (CHR ''/'')). \<not> (seg = [] \<or> seg = ''.'' \<or> seg = ''..'')) \<and>
     (\<forall>c \<in> set key. \<not> (byte c < 32 \<or> byte c = 127))"

definition pathFor :: "string \<Rightarrow> ('s, string) m" where
  "pathFor key =
     (if \<not> validKey key then raise (Msg ''invalid blob key'')
      else if HasPrefix key ''..'' then raise (Msg ''blob key escapes the store root'')
      else ret key)"

definition goodKey :: "string \<Rightarrow> bool" where
  "goodKey key \<longleftrightarrow> validKey key \<and> \<not> prefix ''..'' key"

lemma pathFor_good: "goodKey key \<Longrightarrow> pathFor key = ret key"
  by (simp add: pathFor_def goodKey_def)

lemma pathFor_good_iff: "pathFor key s = (r, s') \<longleftrightarrow> s' = s \<and>
    (if goodKey key then r = Inr key
     else r = Inl (Msg (if validKey key then ''blob key escapes the store root''
                        else ''invalid blob key'')))"
  by (auto simp: pathFor_def goodKey_def ret_def raise_def)

section \<open>Objects\<close>

definition dget :: "world \<Rightarrow> string \<Rightarrow> string option" where
  "dget w k = map_of (disk w) k"

definition dput :: "string \<Rightarrow> string \<Rightarrow> world \<Rightarrow> world" where
  "dput k v w = w\<lparr>disk := AList.update k v (disk w)\<rparr>"

definition ddel :: "string \<Rightarrow> world \<Rightarrow> world" where
  "ddel k w = w\<lparr>disk := AList.delete k (disk w)\<rparr>"

lemma dget_dput [simp]: "dget (dput k v w) = (dget w)(k \<mapsto> v)"
  by (rule ext) (simp add: dget_def dput_def update_conv')

lemma dget_ddel [simp]: "dget (ddel k w) = (dget w)(k := None)"
  by (rule ext) (simp add: dget_def ddel_def delete_conv')

lemma dput_simps [simp]:
  "faults (dput k v w) = faults w" "now (dput k v w) = now w" "next_id (dput k v w) = next_id w"
  "entropy (dput k v w) = entropy w" "users (dput k v w) = users w" "nodes (dput k v w) = nodes w"
  "versions (dput k v w) = versions w" "blobs (dput k v w) = blobs w"
  "chunks (dput k v w) = chunks w" "manifests (dput k v w) = manifests w"
  "mchunks (dput k v w) = mchunks w" "grants (dput k v w) = grants w"
  "uploads (dput k v w) = uploads w" "sync_state (dput k v w) = sync_state w" "changes (dput k v w) = changes w"
  by (simp_all add: dput_def)

lemma ddel_simps [simp]:
  "faults (ddel k w) = faults w" "now (ddel k w) = now w" "next_id (ddel k w) = next_id w"
  "entropy (ddel k w) = entropy w" "users (ddel k w) = users w" "nodes (ddel k w) = nodes w"
  "versions (ddel k w) = versions w" "blobs (ddel k w) = blobs w"
  "chunks (ddel k w) = chunks w" "manifests (ddel k w) = manifests w"
  "mchunks (ddel k w) = mchunks w" "grants (ddel k w) = grants w"
  "uploads (ddel k w) = uploads w" "sync_state (ddel k w) = sync_state w" "changes (ddel k w) = changes w"
  by (simp_all add: ddel_def)

text \<open>
  An \<open>io.Reader\<close>: the bytes it delivers, and whether it then fails instead of ending.
\<close>

type_synonym reader = "string \<times> bool"

definition copy_err :: goerr where
  "copy_err = Io ''read''"

definition randRead :: "(world, string) m" where
  "randRead = (\<lambda>w. case entropy w of
      [] \<Rightarrow> (Inl (Io ''generate blob key''), w)
    | raw # rest \<Rightarrow> (Inr raw, w\<lparr>entropy := rest\<rparr>))"

definition fanout :: "string \<Rightarrow> string" where
  "fanout name = take 2 name @ ''/'' @ take 2 (drop 2 name) @ ''/'' @ name"

definition fs_Put :: "ext \<Rightarrow> reader \<Rightarrow> (world, string \<times> int \<times> string) m" where
  "fs_Put x r =
     bindM randRead (\<lambda>raw.
     bindM (pathFor (fanout (hex_encode raw))) (\<lambda>full.
     thenM (ioAll [Io ''create blob directory'', Io ''create temp blob'', Io ''write blob''])
     (thenM (guardM (\<not> snd r) (Wrap ''write blob'' copy_err))
     (thenM (ioAll [Io ''sync blob'', Io ''close blob'', Io ''commit blob''])
     (thenM (modM (dput full (fst r)))
     (thenM (ioM (Io ''seal blob''))
     (ret (full, int (length (fst r)), sha256 x (fst r)))))))))"

definition fs_PutKeyed :: "string \<Rightarrow> reader \<Rightarrow> (world, bool) m" where
  "fs_PutKeyed key r =
     bindM (pathFor key) (\<lambda>full.
     thenM (ioM (Io ''stat''))
     (bindM (getM (\<lambda>w. dget w full)) (\<lambda>old.
      if old \<noteq> None then ret True
      else
        thenM (ioAll [Io ''create chunk directory'', Io ''create temp chunk'', Io ''write chunk''])
        (thenM (guardM (\<not> snd r) (Wrap ''write chunk'' copy_err))
        (thenM (ioAll [Io ''sync chunk'', Io ''close chunk'', Io ''commit chunk''])
        (thenM (modM (dput full (fst r)))
        (thenM (ioM (Io ''seal chunk''))
        (ret False))))))))"

definition fs_Open :: "string \<Rightarrow> (world, string) m" where
  "fs_Open key =
     bindM (pathFor key) (\<lambda>full.
     bindM (getM (\<lambda>w. dget w full)) (\<lambda>d. case d of
       None \<Rightarrow> raise ErrBlobNotFound
     | Some bs \<Rightarrow> thenM (ioM (Io ''open'')) (ret bs)))"

definition fs_Stat :: "string \<Rightarrow> (world, int) m" where
  "fs_Stat key =
     bindM (pathFor key) (\<lambda>full.
     bindM (getM (\<lambda>w. dget w full)) (\<lambda>d. case d of
       None \<Rightarrow> raise ErrBlobNotFound
     | Some bs \<Rightarrow> thenM (ioM (Io ''stat'')) (ret (int (length bs)))))"

definition fs_Delete :: "string \<Rightarrow> (world, unit) m" where
  "fs_Delete key =
     bindM (pathFor key) (\<lambda>full.
     bindM (getM (\<lambda>w. dget w full)) (\<lambda>d. case d of
       None \<Rightarrow> ret ()
     | Some _ \<Rightarrow> thenM (ioM (Io ''remove'')) (modM (ddel full))))"

section \<open>Staging\<close>

definition stagingDir :: string where
  "stagingDir = ''.staging''"

definition fs_CreatePartial :: "(world, string) m" where
  "fs_CreatePartial =
     bindM randRead (\<lambda>raw.
     bindM (pathFor (stagingDir @ ''/'' @ hex_encode raw)) (\<lambda>full.
     thenM (ioM (Io ''create staging directory''))
     (bindM (getM (\<lambda>w. dget w full)) (\<lambda>d.
     thenM (guardM (d = None) (Io ''create staging file''))
     (thenM (ioM (Io ''create staging file''))
     (thenM (modM (dput full []))
     (thenM (ioM (Io ''close''))
     (ret full))))))))"

text \<open>
  \<open>f.Truncate(offset)\<close>: a longer file is cut, a shorter one is filled with zero bytes.
\<close>

definition truncate_to :: "nat \<Rightarrow> string \<Rightarrow> string" where
  "truncate_to n bs = take n bs @ replicate (n - length bs) (CHR 0x00)"

text \<open>
  The hasher is the sequence of bytes written to it; it is shared with the caller, so what it has
  taken is part of every result, errors included.  The copy runs through \<open>io.MultiWriter(f, hasher)\<close>,
  which hands a piece to the hasher only after the file took all of it: \<open>full = Some (h, k)\<close> is a file
  that takes \<open>h\<close> bytes in complete pieces and then only \<open>k\<close> bytes of the next piece (a full disk).
\<close>

definition fs_AppendPartial ::
  "string \<Rightarrow> int \<Rightarrow> string \<Rightarrow> reader \<Rightarrow> (nat \<times> nat) option \<Rightarrow> (world, int \<times> string \<times> goerr option) m" where
  "fs_AppendPartial key offset hasher r full =
     bindM (tryM
       (bindM (pathFor key) (\<lambda>path.
        bindM (getM (\<lambda>w. dget w path)) (\<lambda>d. case d of
          None \<Rightarrow> raise ErrBlobNotFound
        | Some bs \<Rightarrow>
            thenM (ioM (Io ''open''))
            (thenM (guardM (0 \<le> offset) (Io ''truncate staging file''))
            (thenM (ioM (Io ''truncate staging file''))
            (thenM (modM (dput path (truncate_to (nat offset) bs)))
            (thenM (ioM (Io ''seek''))
            (ret (path, truncate_to (nat offset) bs)))))))))) (\<lambda>opened. case opened of
       Inl e \<Rightarrow> ret (0, hasher, Some e)
     | Inr (path, bs) \<Rightarrow>
         (let (h, k) = (case full of None \<Rightarrow> (length (fst r), 0) | Some hk \<Rightarrow> hk);
              hasher' = hasher @ take h (fst r);
              got = take (h + k) (fst r);
              copyErr = (if full \<noteq> None then Some (Io ''write staging file'')
                         else if snd r then Some copy_err else None)
          in thenM (modM (dput path (bs @ got)))
             (bindM (tryM (ioM (Io ''sync staging file''))) (\<lambda>synced. case synced of
                Inl e \<Rightarrow> ret (0, hasher', Some e)
              | Inr _ \<Rightarrow> ret (int (length got), hasher', copyErr)))))"

definition fs_CommitPartial :: "string \<Rightarrow> (world, string) m" where
  "fs_CommitPartial key =
     bindM (pathFor key) (\<lambda>src.
     bindM randRead (\<lambda>raw.
     bindM (pathFor (fanout (hex_encode raw))) (\<lambda>dst.
     thenM (ioM (Io ''create blob directory''))
     (bindM (getM (\<lambda>w. dget w src)) (\<lambda>d. case d of
       None \<Rightarrow> raise (Io ''commit staged upload'')
     | Some bs \<Rightarrow>
         thenM (ioM (Io ''commit staged upload''))
         (thenM (modM (\<lambda>w. dput dst bs (ddel src w)))
         (thenM (ioM (Io ''seal blob''))
         (ret (fanout (hex_encode raw))))))))))"

definition fs_StatPartial :: "string \<Rightarrow> (world, int) m" where
  "fs_StatPartial = fs_Stat"

definition fs_RemovePartial :: "string \<Rightarrow> (world, unit) m" where
  "fs_RemovePartial = fs_Delete"

section \<open>The contract of a keyed store\<close>

text \<open>
  \<open>blob.Store\<close> with \<open>blob.KeyedPutter\<close>, as its clients rely on it.  \<open>view\<close> is what a reader can
  get, \<open>ok\<close> the keys the store accepts.
\<close>

locale keyed_store =
  fixes put :: "string \<Rightarrow> reader \<Rightarrow> ('s, bool) m"
    and openk :: "string \<Rightarrow> ('s, string) m"
    and del :: "string \<Rightarrow> ('s, unit) m"
    and view :: "'s \<Rightarrow> string \<Rightarrow> string option"
    and ok :: "string \<Rightarrow> bool"
  assumes put_view: "put k r s = (res, s') \<Longrightarrow>
      view s' = view s \<or> (view s k = None \<and> \<not> snd r \<and> view s' = (view s)(k \<mapsto> fst r))"
    and put_present: "put k r s = (Inr e, s') \<Longrightarrow> ok k \<and> view s' k \<noteq> None \<and> (e \<longleftrightarrow> view s k \<noteq> None)"
    and open_sound: "openk k s = (Inr bs, s') \<Longrightarrow> view s k = Some bs"
    and open_view: "openk k s = (res', s') \<Longrightarrow> view s' = view s"
    and del_view: "del k s = (res'', s') \<Longrightarrow> view s' = view s \<or> view s' = (view s)(k := None)"
    and del_absent: "del k s = (Inr u, s') \<Longrightarrow> view s' k = None"
begin

lemma put_mono: "put k r s = (res, s') \<Longrightarrow> view s \<subseteq>\<^sub>m view s'"
  using put_view [of k r s res s'] by (auto intro: map_le_upd_new)

text \<open>An object once stored is never changed by a later write, whatever is written.\<close>

lemma put_stable: "put k r s = (res, s') \<Longrightarrow> view s j = Some bs \<Longrightarrow> view s' j = Some bs"
  using put_view [of k r s res s'] by auto

lemma put_content:
  assumes "put k (bs, False) s = (Inr e, s')" and "\<And>old. view s k = Some old \<Longrightarrow> old = bs"
  shows "view s' k = Some bs"
  using put_view [OF assms(1)] put_present [OF assms(1)] assms(2) by auto

lemma put_idem:
  assumes "put k (bs, False) s = (Inr e, s')" and "put k (bs', b) s' = (Inr e', s'')"
  shows "e' \<and> view s'' = view s'"
  using put_present [OF assms(1)] put_present [OF assms(2)] put_view [OF assms(2)] by auto

end

lemma ioM_disk: "ioM e w = (r, w') \<Longrightarrow> dget w' = dget w"
  by (auto simp: ioM_def dget_def split: list.splits)

lemma ioAll_disk: "ioAll es w = (r, w') \<Longrightarrow> dget w' = dget w"
proof (induction es arbitrary: w)
  case (Cons e es)
  from Cons.prems show ?case
    by (auto elim!: thenM_cases dest!: ioM_disk Cons.IH)
qed (simp add: ret_def)

lemmas disk_steps = ioM_disk ioAll_disk

lemma fs_PutKeyed_cases:
  assumes "fs_PutKeyed k r w = (res, w')"
  shows "(dget w' = dget w \<and> (\<forall>e. res = Inr e \<longrightarrow> goodKey k \<and> e \<and> dget w k \<noteq> None)) \<or>
         (goodKey k \<and> dget w k = None \<and> \<not> snd r \<and> dget w' = (dget w)(k \<mapsto> fst r) \<and>
          (\<forall>e. res = Inr e \<longrightarrow> \<not> e))"
  using assms unfolding fs_PutKeyed_def
  by (auto elim!: thenM_cases bindM_cases split: if_splits
      simp: pathFor_good_iff run_iffs dest!: disk_steps)

interpretation fs: keyed_store fs_PutKeyed fs_Open fs_Delete dget goodKey
proof
  fix k r and s s' :: world and res
  show "fs_PutKeyed k r s = (res, s') \<Longrightarrow>
      dget s' = dget s \<or> dget s k = None \<and> \<not> snd r \<and> dget s' = (dget s)(k \<mapsto> fst r)"
    by (auto dest: fs_PutKeyed_cases)
next
  fix k r and s s' :: world and e
  show "fs_PutKeyed k r s = (Inr e, s') \<Longrightarrow>
      goodKey k \<and> dget s' k \<noteq> None \<and> (e \<longleftrightarrow> dget s k \<noteq> None)"
    by (auto dest: fs_PutKeyed_cases)
next
  fix k bs and s s' :: world
  show "fs_Open k s = (Inr bs, s') \<Longrightarrow> dget s k = Some bs"
    unfolding fs_Open_def
    by (auto elim!: thenM_cases bindM_cases split: option.splits if_splits
        simp: pathFor_good_iff run_iffs)
next
  fix k and s s' :: world and res
  show "fs_Open k s = (res, s') \<Longrightarrow> dget s' = dget s"
    unfolding fs_Open_def
    by (auto elim!: thenM_cases bindM_cases split: option.splits if_splits
        simp: pathFor_good_iff run_iffs dest!: disk_steps)
next
  fix k and s s' :: world and res
  show "fs_Delete k s = (res, s') \<Longrightarrow> dget s' = dget s \<or> dget s' = (dget s)(k := None)"
    unfolding fs_Delete_def
    by (auto elim!: thenM_cases bindM_cases split: option.splits if_splits
        simp: pathFor_good_iff run_iffs dest!: disk_steps)
next
  fix k and s s' :: world and u
  show "fs_Delete k s = (Inr u, s') \<Longrightarrow> dget s' k = None"
    unfolding fs_Delete_def
    by (auto elim!: thenM_cases bindM_cases split: option.splits if_splits
        simp: pathFor_good_iff run_iffs dest!: disk_steps)
qed

text \<open>The store touches nothing but the disk (and what the environment supplies).\<close>

lemma keeps_randRead [keeps_intros]:
  "(\<And>w bs. I w \<Longrightarrow> I (w\<lparr>entropy := bs\<rparr>)) \<Longrightarrow> keeps I randRead"
  by (auto simp: keeps_def randRead_def split: list.splits)

lemma keeps_pathFor [keeps_intros]: "keeps I (pathFor k)"
  by (simp add: pathFor_def keeps_intros)

lemma db_view_fs [simp]:
  "db_view (dput k v w) = db_view w" "db_view (ddel k w) = db_view w"
  "db_view (w\<lparr>entropy := bs\<rparr>) = db_view w" "db_view (w\<lparr>faults := fs\<rparr>) = db_view w"
  by (simp_all add: db_view_def)

lemma fault_free_db_view [keeps_intros]: "fault_free (\<lambda>w. db_view w = T)"
  by (simp add: fault_free_def)

lemma fs_db_view:
  "keeps (\<lambda>w. db_view w = T) (fs_PutKeyed k r)" "keeps (\<lambda>w. db_view w = T) (fs_Open k)"
  "keeps (\<lambda>w. db_view w = T) (fs_Delete k)" "keeps (\<lambda>w. db_view w = T) (fs_Stat k)"
  unfolding fs_PutKeyed_def fs_Open_def fs_Delete_def fs_Stat_def
  by (intro keeps_intros; simp)+

end
