(* ===== verification/Chunker.thy ===== *)
theory Chunker
  imports Blob
begin

text \<open>
  Chunking, \<open>server/internal/cas/chunker.go\<close>: content-defined splitting with a per-chunk
  compression decision, decompression, and the path a chunk hash is stored under.  The splitter,
  zstd and BLAKE3 are the fields of \<open>ext\<close>; a streaming BLAKE3 hasher is the sequence of bytes
  written to it, hashed when its sum is read.
\<close>

definition MinChunkSize :: int where "MinChunkSize = 2 * 1024"
definition AvgChunkSize :: int where "AvgChunkSize = 16 * 1024"
definition MaxChunkSize :: int where "MaxChunkSize = 64 * 1024"
definition WholeFileThreshold :: int where "WholeFileThreshold = MinChunkSize"

definition CompressionNone :: string where "CompressionNone = ''none''"
definition CompressionZstd :: string where "CompressionZstd = ''zstd''"

record chunk =
  ch_Hash :: string
  ch_Size :: int
  ch_Stored :: string
  ch_Compression :: string
  ch_Offset :: int

definition emitChunk :: "ext \<Rightarrow> int \<Rightarrow> string \<Rightarrow> chunk" where
  "emitChunk x offset plain =
     (let ch = \<lparr>ch_Hash = blake3 x plain, ch_Size = int (length plain), ch_Stored = [],
                ch_Compression = CompressionNone, ch_Offset = offset\<rparr>;
          compressed = zstd_enc x plain
      in if int (length compressed) < int (length plain) * 9 div 10
         then ch\<lparr>ch_Stored := compressed, ch_Compression := CompressionZstd\<rparr>
         else ch\<lparr>ch_Stored := plain\<rparr>)"

text \<open>
  The splitter calls \<open>emit\<close> once per piece with the piece's position in the file; \<open>fn\<close> is the
  caller's \<open>ChunkFn\<close> with the variables it closes over as an accumulator.  The state threaded
  through both loops is the position, the bytes given to the whole-file hasher, and that
  accumulator.
\<close>

definition split_emit ::
  "ext \<Rightarrow> ('b \<Rightarrow> chunk \<Rightarrow> (world, 'b) m) \<Rightarrow> int \<times> string \<times> 'b \<Rightarrow> string \<Rightarrow>
     (world, int \<times> string \<times> 'b) m" where
  "split_emit x fn st plain =
     (case st of (offset, whole, acc) \<Rightarrow>
        bindM (fn acc (emitChunk x offset plain)) (\<lambda>acc'.
        ret (offset + int (length plain), whole @ plain, acc')))"

definition Split ::
  "ext \<Rightarrow> reader \<Rightarrow> ('b \<Rightarrow> chunk \<Rightarrow> (world, 'b) m) \<Rightarrow> 'b \<Rightarrow> (world, string \<times> 'b) m" where
  "Split x r fn b =
     thenM (ioAll [Io ''create chunker'', Io ''create zstd encoder''])
     (bindM (wrapM ''split''
        (bindM (foldM (split_emit x fn) (0, [], b) (cdc_split x r)) (\<lambda>st.
         thenM (guardM (\<not> snd r) copy_err) (ret st)))) (\<lambda>st.
      bindM (wrapM ''finalize split'' (foldM (split_emit x fn) st (cdc_final x r)))
        (\<lambda>(_, whole, acc). ret (blake3 x whole, acc))))"

definition Decompress :: "ext \<Rightarrow> string \<Rightarrow> string \<Rightarrow> int \<Rightarrow> goerr + string" where
  "Decompress x stored compression plainSize =
     (if compression = CompressionNone then Inr stored
      else if compression = CompressionZstd then
        (case zstd_dec x stored of
           None \<Rightarrow> Inl (Wrap ''decompress chunk'' (Io ''zstd''))
         | Some out \<Rightarrow> Inr out)
      else Inl (Msg ''unknown compression''))"

definition StorageKey :: "string \<Rightarrow> string" where
  "StorageKey hash =
     (let h = hex_encode hash
      in take 2 h @ ''/'' @ take 2 (drop 2 h) @ ''/'' @ h)"

definition compressChunk :: "ext \<Rightarrow> string \<Rightarrow> string \<times> string" where
  "compressChunk x plain =
     (let c = zstd_enc x plain
      in if int (length c) < int (length plain) * 9 div 10 then (c, CompressionZstd)
         else (plain, CompressionNone))"

section \<open>Facts\<close>

text \<open>The streaming path and the single-chunk path take the same compression decision.\<close>

lemma emitChunk_fields [simp]:
  "ch_Hash (emitChunk x off p) = blake3 x p"
  "ch_Size (emitChunk x off p) = int (length p)"
  "ch_Stored (emitChunk x off p) = fst (compressChunk x p)"
  "ch_Compression (emitChunk x off p) = snd (compressChunk x p)"
  "ch_Offset (emitChunk x off p) = off"
  by (simp_all add: emitChunk_def compressChunk_def Let_def)

text \<open>The zstd property the code relies on, for the plaintexts in question.\<close>

definition zstd_ok :: "ext \<Rightarrow> string set \<Rightarrow> bool" where
  "zstd_ok x U \<longleftrightarrow> (\<forall>p \<in> U. zstd_dec x (zstd_enc x p) = Some p)"

lemma Decompress_compressChunk:
  "zstd_ok x U \<Longrightarrow> p \<in> U \<Longrightarrow>
   Decompress x (fst (compressChunk x p)) (snd (compressChunk x p)) n = Inr p"
  by (simp add: compressChunk_def Decompress_def Let_def zstd_ok_def CompressionNone_def
      CompressionZstd_def)

lemma compressChunk_shorter: "length (fst (compressChunk x p)) \<le> length p"
  by (auto simp: compressChunk_def Let_def)

lemma compressChunk_comp: "snd (compressChunk x p) \<in> {CompressionNone, CompressionZstd}"
  by (auto simp: compressChunk_def Let_def)

lemma StorageKey_eq: "StorageKey h = take 2 (hex_encode h) @ ''/'' @ take 2 (drop 2 (hex_encode h))
    @ ''/'' @ hex_encode h"
  by (simp add: StorageKey_def Let_def)

lemma StorageKey_inj: "length g = length h \<Longrightarrow> StorageKey g = StorageKey h \<longleftrightarrow> g = h"
  by (auto simp: StorageKey_eq hex_encode_inj)

lemma not_is_hex: "\<not> is_hex (CHR ''/'')" "\<not> is_hex (CHR ''.'')" "\<not> is_hex (CHR 0x5C)"
    "\<not> is_hex (CHR '':'')"
  by (simp_all add: is_hex_def)

lemma hex_no_char: "\<not> is_hex c \<Longrightarrow> c \<notin> set (hex_encode s)"
  by (auto dest: hex_encode_chars)

lemma fanout_segments:
  assumes "CHR ''/'' \<notin> set n"
  shows "SplitByte (take 2 n @ ''/'' @ take 2 (drop 2 n) @ ''/'' @ n) (CHR ''/'')
    = [take 2 n, take 2 (drop 2 n), n]"
proof -
  have "CHR ''/'' \<notin> set (take 2 n)" "CHR ''/'' \<notin> set (take 2 (drop 2 n))"
    using assms by (auto dest: in_set_takeD in_set_dropD)
  then show ?thesis using assms by (simp add: SplitByte_append SplitByte_none)
qed

lemma goodKey_fanout:
  assumes l: "4 \<le> length n" "length n \<le> 256" and hex: "\<forall>c \<in> set n. is_hex c"
  shows "goodKey (fanout n)"
proof -
  have sub: "set (take 2 n) \<subseteq> set n" "set (take 2 (drop 2 n)) \<subseteq> set n"
    by (auto dest: in_set_takeD in_set_dropD)
  have set: "set (fanout n) \<subseteq> insert (CHR ''/'') (set n)"
    using sub by (auto simp: fanout_def)
  have no: "CHR ''/'' \<notin> set n" "CHR ''.'' \<notin> set n" "CHR 0x5C \<notin> set n" "CHR '':'' \<notin> set n"
    using hex not_is_hex by auto
  have seg: "SplitByte (fanout n) (CHR ''/'') = [take 2 n, take 2 (drop 2 n), n]"
    unfolding fanout_def by (rule fanout_segments) (rule no)
  obtain c cs where n: "n = c # cs" using l by (cases n) auto
  then have c: "c \<noteq> CHR ''.''" "c \<noteq> CHR ''/''" using no by auto
  have len: "length (fanout n) \<le> 512" using l by (simp add: fanout_def)
  have dots: "\<forall>s \<in> {take 2 n, take 2 (drop 2 n), n}. s \<noteq> [] \<and> CHR ''.'' \<notin> set s"
    using l no(2) sub by auto
  have ctl: "\<forall>c \<in> set (fanout n). \<not> (byte c < 32 \<or> byte c = 127)"
  proof
    fix c assume "c \<in> set (fanout n)"
    with set have "c = CHR ''/'' \<or> c \<in> set n" by auto
    with hex show "\<not> (byte c < 32 \<or> byte c = 127)" by (auto simp: is_hex_def)
  qed
  have "validKey (fanout n)"
    unfolding validKey_def seg
  proof (intro conjI)
    show "\<not> (fanout n = [] \<or> 512 < length (fanout n))" using len by (simp add: fanout_def)
    show "\<not> ContainsAny (fanout n) [CHR 0x5C, CHR '':'']"
      using set no by (auto simp: ContainsAny_def list_ex_iff)
    show "\<not> HasPrefix (fanout n) ''/''" using n c by (auto simp: fanout_def)
    show "\<forall>s \<in> set [take 2 n, take 2 (drop 2 n), n]. \<not> (s = [] \<or> s = ''.'' \<or> s = ''..'')"
      using dots by auto
  qed (rule ctl)
  moreover have "\<not> prefix ''..'' (fanout n)" using n c by (auto simp: fanout_def)
  ultimately show ?thesis by (simp add: goodKey_def)
qed

lemma StorageKey_fanout: "StorageKey h = fanout (hex_encode h)"
  by (simp add: StorageKey_eq fanout_def)

lemma goodKey_StorageKey: "length h = 32 \<Longrightarrow> goodKey (StorageKey h)"
  unfolding StorageKey_fanout by (rule goodKey_fanout) (auto dest: hex_encode_chars)

lemma length_StorageKey: "length h = 32 \<Longrightarrow> length (StorageKey h) = 70"
  by (simp add: StorageKey_eq)

end
