(* ===== verification/Cas.thy ===== *)
theory Cas
  imports Chunker
begin

text \<open>
  Content-addressed storage, \<open>server/internal/cas/store.go\<close>, \<open>delta.go\<close> and the row operations of
  \<open>gc.go\<close>, over the local blob store: streaming writes, the chunk and manifest half of the delta
  protocol, and the statements the garbage collector is made of.  The first section is the SQL side
  (migrations 00003, 00007 and 00008): constraints, foreign keys and the trigger that keeps
  \<open>chunks.refcount\<close> equal to the number of \<open>manifest_chunks\<close> rows.
\<close>

section \<open>Tables\<close>

definition chunk_check :: "chunk_row \<Rightarrow> bool" where
  "chunk_check c \<longleftrightarrow> length (c_hash c) = 32 \<and> c_size c > 0 \<and> c_stored c > 0
     \<and> c_comp c \<in> {''none'', ''zstd''} \<and> c_ref c \<ge> 0"

text \<open>\<open>INSERT INTO chunks ... ON CONFLICT (hash) DO NOTHING\<close>; the result is \<open>RowsAffected() > 0\<close>.\<close>

definition insert_chunk :: "string \<Rightarrow> int \<Rightarrow> int \<Rightarrow> string \<Rightarrow> string \<Rightarrow> (world, bool) m" where
  "insert_chunk hash sz stored cmp key =
     thenM dbM
     (bindM (getM id) (\<lambda>w.
        let row = \<lparr>c_hash = hash, c_size = sz, c_stored = stored, c_comp = cmp, c_key = key,
                   c_ref = 0, c_created = now w, c_tier = ''hot''\<rparr>
        in if \<not> chunk_check row then raise check_violation
           else if hash \<in> set (map c_hash (chunks w)) then ret False
           else if key \<in> set (map c_key (chunks w)) then raise unique_violation
           else thenM (modM (\<lambda>v. v\<lparr>chunks := chunks v @ [row]\<rparr>)) (ret True)))"

definition insert_manifest :: "int \<Rightarrow> int \<Rightarrow> string \<Rightarrow> (world, nat) m" where
  "insert_manifest tot count hash =
     thenM dbM
     (if tot < 0 \<or> count < 0 \<or> length hash \<noteq> 32 then raise check_violation
      else bindM fresh_id (\<lambda>id.
           thenM (modM (\<lambda>v. v\<lparr>manifests := manifests v @
             [\<lparr>mf_id = id, mf_total = tot, mf_count = count, mf_hash = hash, mf_created = now v\<rparr>]\<rparr>))
           (ret id)))"

definition mc_count :: "string \<Rightarrow> mchunk_row list \<Rightarrow> int" where
  "mc_count h ms = int (length (filter (\<lambda>m. mc_hash m = h) ms))"

text \<open>The trigger \<open>manifest_chunks_refcount\<close>, for all the rows of one statement.\<close>

definition chunk_refcount_bump :: "int \<Rightarrow> mchunk_row list \<Rightarrow> chunk_row list \<Rightarrow> chunk_row list" where
  "chunk_refcount_bump d ms cs = map (\<lambda>c. c\<lparr>c_ref := c_ref c + d * mc_count (c_hash c) ms\<rparr>) cs"

definition copy_mchunks :: "mchunk_row list \<Rightarrow> (world, unit) m" where
  "copy_mchunks rows =
     thenM dbM
     (bindM (getM id) (\<lambda>w.
      if list_ex (\<lambda>m. mc_offset m < 0) rows then raise check_violation
      else if \<not> (distinct (map (\<lambda>m. (mc_manifest m, mc_seq m)) rows)
                 \<and> list_all (\<lambda>m. (mc_manifest m, mc_seq m)
                       \<notin> set (map (\<lambda>m. (mc_manifest m, mc_seq m)) (mchunks w))) rows)
        then raise unique_violation
      else if \<not> list_all (\<lambda>m. mc_manifest m \<in> set (map mf_id (manifests w))
                            \<and> mc_hash m \<in> set (map c_hash (chunks w))) rows
        then raise fk_violation
      else modM (\<lambda>v. v\<lparr>mchunks := mchunks v @ rows,
                        chunks := chunk_refcount_bump 1 rows (chunks v)\<rparr>)))"

text \<open>
  A manifest's rows in file order, joined with the chunk rows they reference (an inner join: a row
  without its chunk drops out).
\<close>

definition rows_of :: "mchunk_row list \<Rightarrow> nat \<Rightarrow> mchunk_row list" where
  "rows_of mcs mid = sort_key mc_seq (filter (\<lambda>m. mc_manifest m = mid) mcs)"

definition chunk_of :: "chunk_row list \<Rightarrow> string \<Rightarrow> chunk_row option" where
  "chunk_of cs h = find (\<lambda>c. c_hash c = h) cs"

definition joined :: "world \<Rightarrow> nat \<Rightarrow> (mchunk_row \<times> chunk_row) list" where
  "joined w mid = List.map_filter
     (\<lambda>m. case chunk_of (chunks w) (mc_hash m) of None \<Rightarrow> None | Some c \<Rightarrow> Some (m, c))
     (rows_of (mchunks w) mid)"

text \<open>\<open>EXISTS (SELECT 1 FROM file_versions v WHERE v.manifest_id = m.id)\<close>\<close>

definition manifest_live :: "world \<Rightarrow> nat \<Rightarrow> bool" where
  "manifest_live w mid \<longleftrightarrow> list_ex (\<lambda>v. v_manifest v = Some mid) (versions w)"

section \<open>Streaming writes (store.go)\<close>

definition ErrManifestNotFound :: goerr where
  "ErrManifestNotFound = Sentinel ''manifest not found''"

record manifest =
  M_ID :: nat
  M_TotalSize :: int
  M_ChunkCount :: int
  M_ContentHash :: string

record write_result =
  wr_Manifest :: manifest
  wr_LogicalSize :: int
  wr_NewBytes :: int
  wr_DedupedChunks :: int
  wr_NewChunks :: int
  wr_ReusedManifest :: bool

record placed =
  pl_hash :: string
  pl_size :: int
  pl_stored :: int
  pl_comp :: string
  pl_offset :: int

text \<open>The variables \<open>Write\<close>'s callback closes over.\<close>

record write_acc =
  wa_chunks :: "placed list"
  wa_total :: int
  wa_newBytes :: int
  wa_deduped :: int
  wa_new :: int

definition write_acc0 :: write_acc where
  "write_acc0 = \<lparr>wa_chunks = [], wa_total = 0, wa_newBytes = 0, wa_deduped = 0, wa_new = 0\<rparr>"

definition write_chunk :: "write_acc \<Rightarrow> chunk \<Rightarrow> (world, write_acc) m" where
  "write_chunk a ch =
     bindM (wrapM ''store chunk'' (fs_PutKeyed (StorageKey (ch_Hash ch)) (ch_Stored ch, False)))
     (\<lambda>existed.
      let a = (if existed then a\<lparr>wa_deduped := wa_deduped a + 1\<rparr>
               else a\<lparr>wa_new := wa_new a + 1,
                      wa_newBytes := wa_newBytes a + int (length (ch_Stored ch))\<rparr>)
      in ret (a\<lparr>wa_chunks := wa_chunks a @ [\<lparr>pl_hash = ch_Hash ch, pl_size = ch_Size ch,
                  pl_stored = int (length (ch_Stored ch)), pl_comp = ch_Compression ch,
                  pl_offset = ch_Offset ch\<rparr>],
                wa_total := wa_total a + ch_Size ch\<rparr>))"

definition find_live_manifest :: "string \<Rightarrow> int \<Rightarrow> int \<Rightarrow> (world, nat option) m" where
  "find_live_manifest hash tot count =
     wrapM ''look up existing manifest'' (selectM (\<lambda>w. map_option mf_id (find (\<lambda>m.
       mf_hash m = hash \<and> mf_total m = tot \<and> mf_count m = count \<and> manifest_live w (mf_id m))
       (manifests w))))"

definition manifest_rows :: "nat \<Rightarrow> (string \<times> int) list \<Rightarrow> mchunk_row list" where
  "manifest_rows mid hos = map (\<lambda>(i, h, off). \<lparr>mc_manifest = mid, mc_seq = int i, mc_hash = h,
     mc_offset = off\<rparr>) (enumerate 0 hos)"

definition record_manifest :: "int \<Rightarrow> int \<Rightarrow> string \<Rightarrow> (string \<times> int) list \<Rightarrow> (world, nat) m" where
  "record_manifest tot count hash hos =
     bindM (wrapM ''create manifest'' (insert_manifest tot count hash)) (\<lambda>id.
     thenM (wrapM ''record manifest chunks'' (copy_mchunks (manifest_rows id hos)))
     (ret id))"

definition upsert_chunks :: "placed list \<Rightarrow> (world, unit) m" where
  "upsert_chunks ps = foldM (\<lambda>_ p.
     thenM (wrapM ''record chunk'' (insert_chunk (pl_hash p) (pl_size p) (pl_stored p) (pl_comp p)
              (StorageKey (pl_hash p))))
     (ret ())) () ps"

text \<open>
  The two halves of \<open>Write\<close>: the bytes reach the disk while the reader is split, then the rows are
  committed.  They are separate because another request can run between them.
\<close>

definition Write_rows :: "string \<times> write_acc \<Rightarrow> (world, write_result) m" where
  "Write_rows ha =
     (let contentHash = fst ha; a = snd ha;
          count = int (length (wa_chunks a));
          result = (\<lambda>id reused. \<lparr>wr_Manifest = \<lparr>M_ID = id, M_TotalSize = wa_total a,
                      M_ChunkCount = count, M_ContentHash = contentHash\<rparr>,
                    wr_LogicalSize = wa_total a, wr_NewBytes = wa_newBytes a,
                    wr_DedupedChunks = wa_deduped a, wr_NewChunks = wa_new a,
                    wr_ReusedManifest = reused\<rparr>)
      in bindM (find_live_manifest contentHash (wa_total a) count) (\<lambda>existing.
         case existing of
           Some mid \<Rightarrow> ret (result mid True)
         | None \<Rightarrow>
             bindM (withTx
               (thenM (upsert_chunks (wa_chunks a))
                 (record_manifest (wa_total a) count contentHash
                   (map (\<lambda>p. (pl_hash p, pl_offset p)) (wa_chunks a)))))
               (\<lambda>id. ret (result id False))))"

definition Write :: "ext \<Rightarrow> reader \<Rightarrow> (world, write_result) m" where
  "Write x r = bindM (Split x r write_chunk write_acc0) Write_rows"

text \<open>\<open>copy(m.ContentHash[:], hash)\<close> into a \<open>[32]byte\<close>.\<close>

definition copy32 :: "string \<Rightarrow> string" where
  "copy32 h = take 32 h @ replicate (32 - length h) (CHR 0x00)"

lemma copy32_id [simp]: "length h = 32 \<Longrightarrow> copy32 h = h"
  by (simp add: copy32_def)

definition GetManifest :: "nat \<Rightarrow> (world, manifest) m" where
  "GetManifest mid =
     bindM (selectM (\<lambda>w. find (\<lambda>m. mf_id m = mid) (manifests w))) (\<lambda>row. case row of
       None \<Rightarrow> raise ErrManifestNotFound
     | Some m \<Rightarrow> ret \<lparr>M_ID = mid, M_TotalSize = mf_total m, M_ChunkCount = mf_count m,
                      M_ContentHash = copy32 (mf_hash m)\<rparr>)"

record chunkRef =
  cr_hash :: string
  cr_storageKey :: string
  cr_size :: int
  cr_compression :: string
  cr_offset :: int

definition chunksFrom :: "nat \<Rightarrow> int \<Rightarrow> (world, chunkRef list) m" where
  "chunksFrom manifestID start =
     selectM (\<lambda>w. map (\<lambda>(m, c). \<lparr>cr_hash = copy32 (c_hash c), cr_storageKey = c_key c,
         cr_size = c_size c, cr_compression = c_comp c, cr_offset = mc_offset m\<rparr>)
       (filter (\<lambda>(m, c). mc_offset m + c_size c > start) (joined w manifestID)))"

section \<open>The delta protocol (delta.go)\<close>

definition ErrHashMismatch :: goerr where
  "ErrHashMismatch = Sentinel ''chunk content does not match its hash''"
definition ErrChunkTooLarge :: goerr where
  "ErrChunkTooLarge = Sentinel ''chunk exceeds the maximum chunk size''"
definition ErrEmptyManifest :: goerr where
  "ErrEmptyManifest = Sentinel ''a manifest must reference at least one chunk''"
definition ErrMissingChunk :: goerr where
  "ErrMissingChunk = Sentinel ''manifest references a chunk that is not stored''"
definition ErrChunkNotFound :: goerr where
  "ErrChunkNotFound = Sentinel ''chunk not found''"
definition ErrContentHashMismatch :: goerr where
  "ErrContentHashMismatch = Sentinel ''chunks do not reassemble to the declared content hash''"

record entry =
  E_Hash :: string
  E_Offset :: int
  E_Size :: int

definition Entries :: "nat \<Rightarrow> (world, entry list) m" where
  "Entries manifestID =
     selectM (\<lambda>w. map (\<lambda>(m, c). \<lparr>E_Hash = copy32 (mc_hash m), E_Offset = mc_offset m,
       E_Size = c_size c\<rparr>) (joined w manifestID))"

definition OpenChunkStored :: "string \<Rightarrow> (world, string \<times> string \<times> int) m" where
  "OpenChunkStored hash =
     bindM (selectM (\<lambda>w. chunk_of (chunks w) hash)) (\<lambda>row. case row of
       None \<Rightarrow> raise ErrChunkNotFound
     | Some c \<Rightarrow>
         bindM (catchM (fs_Open (c_key c))
           (\<lambda>e. if errors_Is e ErrBlobNotFound then raise ErrChunkNotFound else raise e)) (\<lambda>f.
         ret (f, c_comp c, c_size c)))"

definition ReadChunkStored :: "string \<Rightarrow> (world, string \<times> string \<times> int) m" where
  "ReadChunkStored hash =
     bindM (OpenChunkStored hash) (\<lambda>(f, compression, size).
     thenM (ioM (Io ''read chunk'')) (ret (f, compression, size)))"

definition verify_step :: "ext \<Rightarrow> string \<Rightarrow> string \<Rightarrow> (world, string) m" where
  "verify_step x whole h =
     bindM (ReadChunkStored h) (\<lambda>(stored, compression, size).
     case Decompress x stored compression size of
       Inl e \<Rightarrow> raise e
     | Inr plain \<Rightarrow>
         if blake3 x plain \<noteq> h then raise (Msg ''chunk failed verification'')
         else ret (whole @ plain))"

definition verifyContentHash :: "ext \<Rightarrow> string \<Rightarrow> string list \<Rightarrow> (world, unit) m" where
  "verifyContentHash x expected hashes =
     bindM (foldM (verify_step x) [] hashes) (\<lambda>whole.
     guardM (blake3 x whole = expected) ErrContentHashMismatch)"

definition PutChunk :: "ext \<Rightarrow> string \<Rightarrow> string \<Rightarrow> (world, bool) m" where
  "PutChunk x expected plain =
     (if length plain = 0 \<or> int (length plain) > MaxChunkSize then raise ErrChunkTooLarge
      else if blake3 x plain \<noteq> expected then raise ErrHashMismatch
      else
        (let (stored, compression) = compressChunk x plain; key = StorageKey expected
         in thenM (wrapM ''store chunk'' (fs_PutKeyed key (stored, False)))
            (wrapM ''record chunk'' (insert_chunk expected (int (length plain))
               (int (length stored)) compression key))))"

text \<open>The loop that lays the chunks out: it stops at the first one that has no row.\<close>

fun layout :: "(string \<Rightarrow> int option) \<Rightarrow> int \<Rightarrow> string list \<Rightarrow> (int list \<times> int) option" where
  "layout sizes tot [] = Some ([], tot)"
| "layout sizes tot (h # hs) =
     (case sizes h of
        None \<Rightarrow> None
      | Some sz \<Rightarrow>
          (case layout sizes (tot + sz) hs of
             None \<Rightarrow> None
           | Some (offs, t) \<Rightarrow> Some (tot # offs, t)))"

definition CommitManifest :: "ext \<Rightarrow> string \<Rightarrow> string list \<Rightarrow> (world, manifest \<times> bool) m" where
  "CommitManifest x contentHash hashes =
     (if length hashes = 0 then raise ErrEmptyManifest
      else bindM (selectM (\<lambda>w. map (\<lambda>c. (copy32 (c_hash c), c_size c))
                    (filter (\<lambda>c. c_hash c \<in> set hashes) (chunks w)))) (\<lambda>sizeByHash.
        case layout (map_of (rev sizeByHash)) 0 hashes of
          None \<Rightarrow> raise (Wrap ''chunk'' ErrMissingChunk)
        | Some (offsets, tot) \<Rightarrow>
            let count = int (length hashes);
                result = (\<lambda>id. \<lparr>M_ID = id, M_TotalSize = tot, M_ChunkCount = count,
                                M_ContentHash = contentHash\<rparr>)
            in thenM (verifyContentHash x contentHash hashes)
               (bindM (find_live_manifest contentHash tot count) (\<lambda>existing. case existing of
                  Some mid \<Rightarrow> ret (result mid, True)
                | None \<Rightarrow>
                    bindM (withTx (record_manifest tot count contentHash (zip hashes offsets)))
                      (\<lambda>id. ret (result id, False))))))"

section \<open>Garbage collection and checking (gc.go)\<close>

record ChunkRef =
  CR_Hash :: string
  CR_StorageKey :: string
  CR_Size :: int
  CR_StoredSize :: int
  CR_Tier :: string

definition AllChunkKeys :: "(world, (string \<times> ChunkRef) list) m" where
  "AllChunkKeys = selectM (\<lambda>w. fold (\<lambda>c m. AList.update (c_key c)
     \<lparr>CR_Hash = copy32 (c_hash c), CR_StorageKey = c_key c, CR_Size = c_size c,
      CR_StoredSize = c_stored c, CR_Tier = c_tier c\<rparr> m) (chunks w) [])"

definition UnreferencedChunks :: "int \<Rightarrow> nat \<Rightarrow> (world, ChunkRef list) m" where
  "UnreferencedChunks grace limit =
     selectM (\<lambda>w. map (\<lambda>c. \<lparr>CR_Hash = copy32 (c_hash c), CR_StorageKey = c_key c,
         CR_Size = c_size c, CR_StoredSize = c_stored c, CR_Tier = []\<rparr>)
       (take limit (sort_key c_created
          (filter (\<lambda>c. c_ref c = 0 \<and> c_created c < now w - grace) (chunks w)))))"

definition DeleteChunkRow :: "string \<Rightarrow> (world, bool) m" where
  "DeleteChunkRow hash =
     thenM dbM
     (bindM (getM id) (\<lambda>w.
      let hit = (\<lambda>c. c_hash c = hash \<and> c_ref c = 0)
      in if \<not> list_ex hit (chunks w) then ret False
         else if list_ex (\<lambda>m. mc_hash m = hash) (mchunks w) then raise fk_violation
         else thenM (modM (\<lambda>v. v\<lparr>chunks := filter (\<lambda>c. \<not> hit c) (chunks v)\<rparr>)) (ret True)))"

definition UnreferencedManifests :: "int \<Rightarrow> nat \<Rightarrow> (world, nat list) m" where
  "UnreferencedManifests grace limit =
     selectM (\<lambda>w. map mf_id (take limit (sort_key mf_created
       (filter (\<lambda>m. \<not> manifest_live w (mf_id m) \<and> mf_created m < now w - grace) (manifests w)))))"

text \<open>
  Deleting a manifest cascades to its \<open>manifest_chunks\<close> rows, whose trigger walks each chunk's
  count down; a count that would go below zero fails the statement.
\<close>

definition DeleteManifestRow :: "nat \<Rightarrow> (world, bool) m" where
  "DeleteManifestRow mid =
     thenM dbM
     (bindM (getM id) (\<lambda>w.
      if mid \<notin> set (map mf_id (manifests w)) \<or> manifest_live w mid then ret False
      else
        (let gone = filter (\<lambda>m. mc_manifest m = mid) (mchunks w);
             cs = chunk_refcount_bump (-1) gone (chunks w)
         in if list_ex (\<lambda>c. c_ref c < 0) cs then raise check_violation
            else thenM (modM (\<lambda>v. v\<lparr>manifests := filter (\<lambda>m. mf_id m \<noteq> mid) (manifests v),
                     mchunks := filter (\<lambda>m. mc_manifest m \<noteq> mid) (mchunks v), chunks := cs\<rparr>))
                 (ret True))))"

record RefcountDrift =
  RD_Hash :: string
  RD_Recorded :: int
  RD_Actual :: int

definition VerifyRefcounts :: "nat \<Rightarrow> (world, RefcountDrift list) m" where
  "VerifyRefcounts limit =
     wrapM ''verify refcounts'' (selectM (\<lambda>w. take limit
       (map (\<lambda>c. \<lparr>RD_Hash = copy32 (c_hash c), RD_Recorded = c_ref c,
                   RD_Actual = mc_count (c_hash c) (mchunks w)\<rparr>)
         (filter (\<lambda>c. c_ref c \<noteq> mc_count (c_hash c) (mchunks w)) (chunks w)))))"

record Stats =
  st_Chunks :: int
  st_LogicalBytes :: int
  st_UniqueBytes :: int
  st_PhysicalBytes :: int
  st_Manifests :: int

definition cas_Stats :: "(world, Stats) m" where
  "cas_Stats =
     bindM (selectM (\<lambda>w. (int (length (chunks w)), sum_list (map c_size (chunks w)),
                           sum_list (map c_stored (chunks w))))) (\<lambda>(n, unique, physical).
     bindM (selectM (\<lambda>w. (int (length (manifests w)), sum_list (map mf_total (manifests w)))))
       (\<lambda>(k, logical).
     ret \<lparr>st_Chunks = n, st_LogicalBytes = logical, st_UniqueBytes = unique,
          st_PhysicalBytes = physical, st_Manifests = k\<rparr>))"

end
