(* ===== verification/CasInv.thy ===== *)
theory CasInv
  imports Cas
begin

text \<open>
  The invariant of content-addressed storage and the proof that every operation keeps it under
  every fault schedule.  It is a predicate on the disk and the three tables, so that what the
  operations do elsewhere (the schedule, the other tables) cannot matter.

  \<open>U\<close> is the set of chunk plaintexts in play.  BLAKE3 must not collide on it and zstd must be able
  to undo itself on it: the two properties of external code that content addressing rests on.
\<close>

section \<open>The invariant\<close>

type_synonym bytes_map = "string \<Rightarrow> string option"

definition crypto_ok :: "ext \<Rightarrow> string set \<Rightarrow> bool" where
  "crypto_ok x U \<longleftrightarrow> inj_on (blake3 x) U \<and> (\<forall>p. length (blake3 x p) = 32) \<and> zstd_ok x U"

text \<open>A chunk row describes bytes that are on disk and decompress to what the hash names.\<close>

definition chunk_ok :: "ext \<Rightarrow> string set \<Rightarrow> bytes_map \<Rightarrow> chunk_row \<Rightarrow> bool" where
  "chunk_ok x U d c \<longleftrightarrow> (\<exists>p \<in> U. c_hash c = blake3 x p \<and> c_size c = int (length p) \<and> p \<noteq> []
     \<and> c_comp c = snd (compressChunk x p) \<and> c_stored c = int (length (fst (compressChunk x p)))
     \<and> c_key c = StorageKey (c_hash c) \<and> d (c_key c) = Some (fst (compressChunk x p)))"

text \<open>A file at a chunk's path holds the stored form of that chunk, row or no row.\<close>

definition disk_ok :: "ext \<Rightarrow> string set \<Rightarrow> bytes_map \<Rightarrow> bool" where
  "disk_ok x U d \<longleftrightarrow> (\<forall>h bs. length h = 32 \<longrightarrow> d (StorageKey h) = Some bs \<longrightarrow>
     (\<exists>p \<in> U. blake3 x p = h \<and> bs = fst (compressChunk x p)))"

text \<open>What reading a chunk by its hash gives.\<close>

definition content :: "ext \<Rightarrow> bytes_map \<Rightarrow> chunk_row list \<Rightarrow> string \<Rightarrow> string option" where
  "content x d cs h =
     (case chunk_of cs h of
        None \<Rightarrow> None
      | Some c \<Rightarrow>
          (case d (c_key c) of
             None \<Rightarrow> None
           | Some bs \<Rightarrow> (case Decompress x bs (c_comp c) (c_size c) of Inl _ \<Rightarrow> None | Inr p \<Rightarrow> Some p)))"

fun offsets :: "int \<Rightarrow> string list \<Rightarrow> int list" where
  "offsets n [] = []"
| "offsets n (p # ps) = n # offsets (n + int (length p)) ps"

text \<open>
  A manifest lists its chunks without a gap, at the offsets their sizes give, and its total, count
  and content hash are those of the file they compose.
\<close>

definition manifest_ok ::
  "ext \<Rightarrow> bytes_map \<Rightarrow> chunk_row list \<Rightarrow> mchunk_row list \<Rightarrow> manifest_row \<Rightarrow> bool" where
  "manifest_ok x d cs mcs m \<longleftrightarrow>
     (let rs = rows_of mcs (mf_id m)
      in map mc_seq rs = map int [0 ..< length rs] \<and> mf_count m = int (length rs) \<and>
         (case those (map (\<lambda>r. content x d cs (mc_hash r)) rs) of
            None \<Rightarrow> False
          | Some ps \<Rightarrow> map mc_offset rs = offsets 0 ps \<and> mf_total m = int (length (concat ps))
                      \<and> mf_hash m = blake3 x (concat ps)))"

definition cas_ok :: "ext \<Rightarrow> string set \<Rightarrow> bytes_map \<Rightarrow> chunk_row list \<Rightarrow> manifest_row list \<Rightarrow>
    mchunk_row list \<Rightarrow> nat \<Rightarrow> bool" where
  "cas_ok x U d cs ms mcs n \<longleftrightarrow>
     distinct (map c_hash cs) \<and> (\<forall>c \<in> set cs. chunk_ok x U d c) \<and>
     (\<forall>c \<in> set cs. c_ref c = mc_count (c_hash c) mcs) \<and> disk_ok x U d \<and>
     distinct (map mf_id ms) \<and> (\<forall>m \<in> set ms. mf_id m < n) \<and>
     (\<forall>r \<in> set mcs. mc_manifest r \<in> mf_id ` set ms \<and> mc_hash r \<in> c_hash ` set cs) \<and>
     (\<forall>m \<in> set ms. manifest_ok x d cs mcs m)"

definition cas_inv :: "ext \<Rightarrow> string set \<Rightarrow> world \<Rightarrow> bool" where
  "cas_inv x U w \<longleftrightarrow> crypto_ok x U \<and>
     cas_ok x U (dget w) (chunks w) (manifests w) (mchunks w) (next_id w)"

text \<open>The file a manifest stands for.\<close>

definition manifest_content :: "ext \<Rightarrow> world \<Rightarrow> nat \<Rightarrow> string option" where
  "manifest_content x w mid = map_option concat
     (those (map (\<lambda>r. content x (dget w) (chunks w) (mc_hash r)) (rows_of (mchunks w) mid)))"

definition stands_for :: "ext \<Rightarrow> world \<Rightarrow> nat \<Rightarrow> string \<Rightarrow> bool" where
  "stands_for x w mid file \<longleftrightarrow> mid \<in> mf_id ` set (manifests w) \<and> manifest_content x w mid = Some file"

lemma cas_inv_empty: "crypto_ok x U \<Longrightarrow> cas_inv x U empty_world"
  by (simp add: cas_inv_def cas_ok_def disk_ok_def empty_world_def dget_def)

section \<open>Facts about the pieces\<close>

lemma cas_ok_chunk: "cas_ok x U d cs ms mcs n \<Longrightarrow> c \<in> set cs \<Longrightarrow> chunk_ok x U d c"
  by (simp add: cas_ok_def)

lemma those_Some_iff: "those xs = Some ys \<longleftrightarrow> xs = map Some ys"
  by (induction xs arbitrary: ys) (auto split: option.splits)

lemma those_map_cong: "(\<And>a. a \<in> set xs \<Longrightarrow> f a = g a) \<Longrightarrow> those (map f xs) = those (map g xs)"
  by (metis map_eq_conv)

lemma set_rows_of [simp]: "set (rows_of mcs i) = {m \<in> set mcs. mc_manifest m = i}"
  by (simp add: rows_of_def)

lemma rows_of_append_other: "\<forall>r \<in> set rs. mc_manifest r \<noteq> i \<Longrightarrow> rows_of (mcs @ rs) i = rows_of mcs i"
  by (simp add: rows_of_def)

lemma mc_count_append [simp]: "mc_count h (xs @ ys) = mc_count h xs + mc_count h ys"
  by (simp add: mc_count_def)

lemma mc_count_zero: "mc_count h ms = 0 \<longleftrightarrow> (\<forall>m \<in> set ms. mc_hash m \<noteq> h)"
  by (auto simp: mc_count_def filter_empty_conv)

lemma mc_count_split: "mc_count h (filter P ms) + mc_count h (filter (\<lambda>m. \<not> P m) ms) = mc_count h ms"
  unfolding mc_count_def by (induction ms) auto

lemma mc_count_nonneg [simp]: "0 \<le> mc_count h ms"
  by (simp add: mc_count_def)

lemma bump_hashes [simp]: "map c_hash (chunk_refcount_bump k rs cs) = map c_hash cs"
  by (simp add: chunk_refcount_bump_def)

lemma bump_hash_set [simp]: "c_hash ` set (chunk_refcount_bump k rs cs) = c_hash ` set cs"
  by (auto simp: chunk_refcount_bump_def image_image)

lemma chunk_ok_ref [simp]: "chunk_ok x U d (c\<lparr>c_ref := k\<rparr>) \<longleftrightarrow> chunk_ok x U d c"
  by (simp add: chunk_ok_def)

lemma bump_chunk_ok:
  "(\<forall>c \<in> set (chunk_refcount_bump k rs cs). chunk_ok x U d c) \<longleftrightarrow> (\<forall>c \<in> set cs. chunk_ok x U d c)"
  by (simp add: chunk_refcount_bump_def)

lemma chunk_of_bump:
  "chunk_of (chunk_refcount_bump k rs cs) h
     = map_option (\<lambda>c. c\<lparr>c_ref := c_ref c + k * mc_count (c_hash c) rs\<rparr>) (chunk_of cs h)"
  unfolding chunk_of_def chunk_refcount_bump_def by (induction cs) auto

lemma content_bump [simp]: "content x d (chunk_refcount_bump k rs cs) = content x d cs"
  by (rule ext) (simp add: content_def chunk_of_bump split: option.splits)

lemma manifest_ok_bump [simp]:
  "manifest_ok x d (chunk_refcount_bump k rs cs) mcs m \<longleftrightarrow> manifest_ok x d cs mcs m"
  by (simp add: manifest_ok_def)

lemma chunk_of_mem:
  "distinct (map c_hash cs) \<Longrightarrow> c \<in> set cs \<Longrightarrow> chunk_of cs (c_hash c) = Some c"
  by (simp add: chunk_of_def find_unique)

lemma chunk_of_Some: "chunk_of cs h = Some c \<Longrightarrow> c \<in> set cs \<and> c_hash c = h"
  by (auto simp: chunk_of_def dest: find_Some_set)

lemma chunk_of_None: "chunk_of cs h = None \<longleftrightarrow> h \<notin> c_hash ` set cs"
  by (auto simp: chunk_of_def find_None_all)

lemma content_chunk:
  assumes "zstd_ok x U" "chunk_of cs h = Some c" "chunk_ok x U d c"
  obtains p where "p \<in> U" "content x d cs h = Some p" "blake3 x p = h" "c_size c = int (length p)"
    "p \<noteq> []"
  using assms chunk_of_Some [OF assms(2)]
  by (auto simp: content_def chunk_ok_def Decompress_compressChunk)

lemma offsets_length [simp]: "length (offsets n ps) = length ps"
  by (induction ps arbitrary: n) auto

lemma offsets_append: "offsets n (ps @ qs) = offsets n ps @ offsets (n + int (length (concat ps))) qs"
  by (induction ps arbitrary: n) (auto simp: ac_simps)

lemma offsets_nonneg: "0 \<le> n \<Longrightarrow> k \<in> set (offsets n ps) \<Longrightarrow> 0 \<le> k"
proof (induction ps arbitrary: n)
  case (Cons p ps)
  from Cons.prems have "k = n \<or> k \<in> set (offsets (n + int (length p)) ps)" by simp
  with Cons.prems(1) Cons.IH [of "n + int (length p)"] show ?case by auto
qed simp

section \<open>How the pieces change\<close>

text \<open>Writing one chunk's bytes.\<close>

lemma disk_ok_put:
  assumes "disk_ok x U d" "p \<in> U" "\<forall>p. length (blake3 x p) = 32"
  shows "disk_ok x U (d(StorageKey (blake3 x p) \<mapsto> fst (compressChunk x p)))"
  using assms by (auto simp: disk_ok_def StorageKey_inj)

lemma cas_ok_disk:
  assumes ok: "cas_ok x U d cs ms mcs n" and le: "d \<subseteq>\<^sub>m d'" and dk: "disk_ok x U d'"
  shows "cas_ok x U d' cs ms mcs n"
proof -
  have chunk: "chunk_ok x U d' c" if "c \<in> set cs" for c
    using ok that le unfolding cas_ok_def chunk_ok_def map_le_def by (metis domI)
  have same: "content x d' cs h = content x d cs h" for h
  proof (cases "chunk_of cs h")
    case (Some c)
    then have "chunk_ok x U d c" using ok chunk_of_Some [OF Some] by (simp add: cas_ok_def)
    then have "d' (c_key c) = d (c_key c)"
      using le by (auto simp: chunk_ok_def map_le_def dom_def)
    with Some show ?thesis by (simp add: content_def)
  qed (simp add: content_def)
  have "manifest_ok x d' cs mcs m = manifest_ok x d cs mcs m" for m
    by (simp add: manifest_ok_def same)
  with ok chunk dk show ?thesis by (simp add: cas_ok_def)
qed

text \<open>A new chunk row whose bytes are on disk.\<close>

lemma cas_ok_add_chunk:
  assumes ok: "cas_ok x U d cs ms mcs n" and c: "chunk_ok x U d c" "c_ref c = 0"
    and new: "c_hash c \<notin> c_hash ` set cs"
  shows "cas_ok x U d (cs @ [c]) ms mcs n"
proof -
  have same: "content x d (cs @ [c]) h = content x d cs h" if "h \<in> c_hash ` set cs" for h
  proof -
    have "chunk_of (cs @ [c]) h = chunk_of cs h"
      using that unfolding chunk_of_def by (induction cs) auto
    then show ?thesis by (simp add: content_def)
  qed
  have refs: "r \<in> set mcs \<Longrightarrow> mc_hash r \<in> c_hash ` set cs" for r
    using ok by (simp add: cas_ok_def)
  have "manifest_ok x d (cs @ [c]) mcs m = manifest_ok x d cs mcs m" for m
  proof -
    have "those (map (\<lambda>r. content x d (cs @ [c]) (mc_hash r)) (rows_of mcs (mf_id m)))
        = those (map (\<lambda>r. content x d cs (mc_hash r)) (rows_of mcs (mf_id m)))"
      by (rule those_map_cong) (auto intro: same refs)
    then show ?thesis by (simp add: manifest_ok_def)
  qed
  moreover have "mc_count (c_hash c) mcs = 0"
    using refs new unfolding mc_count_zero by metis
  ultimately show ?thesis using ok c new by (auto simp: cas_ok_def)
qed

text \<open>Dropping an unreferenced chunk row.\<close>

lemma cas_ok_drop_chunk:
  assumes ok: "cas_ok x U d cs ms mcs n" and un: "\<forall>r \<in> set mcs. mc_hash r \<noteq> h"
  shows "cas_ok x U d (filter (\<lambda>c. \<not> (c_hash c = h \<and> P c)) cs) ms mcs n" (is "cas_ok x U d ?cs ms mcs n")
proof -
  have same: "content x d ?cs g = content x d cs g" if "g \<noteq> h" for g
  proof -
    have "chunk_of ?cs g = chunk_of cs g"
      using that unfolding chunk_of_def by (induction cs) auto
    then show ?thesis by (simp add: content_def)
  qed
  have "manifest_ok x d ?cs mcs m = manifest_ok x d cs mcs m" for m
  proof -
    have "those (map (\<lambda>r. content x d ?cs (mc_hash r)) (rows_of mcs (mf_id m)))
        = those (map (\<lambda>r. content x d cs (mc_hash r)) (rows_of mcs (mf_id m)))"
      by (rule those_map_cong) (rule same, simp add: un)
    then show ?thesis by (simp add: manifest_ok_def)
  qed
  moreover have "distinct (map c_hash ?cs)"
    using ok by (simp add: cas_ok_def distinct_map_filter)
  moreover have "\<forall>r \<in> set mcs. mc_hash r \<in> c_hash ` set ?cs"
    using ok un unfolding cas_ok_def by fastforce
  ultimately show ?thesis using ok by (simp add: cas_ok_def)
qed

text \<open>Removing the bytes of a chunk that has no row.\<close>

lemma cas_ok_del_bytes:
  assumes ok: "cas_ok x U d cs ms mcs n" and len: "\<forall>p. length (blake3 x p) = 32"
    and h: "length h = 32" "h \<notin> c_hash ` set cs"
  shows "cas_ok x U (d(StorageKey h := None)) cs ms mcs n" (is "cas_ok x U ?d cs ms mcs n")
proof -
  have key: "c_key c \<noteq> StorageKey h \<and> ?d (c_key c) = d (c_key c)" if c: "c \<in> set cs" for c
  proof -
    obtain p where "c_hash c = blake3 x p" "c_key c = StorageKey (c_hash c)"
      using cas_ok_chunk [OF ok c] unfolding chunk_ok_def by blast
    then show ?thesis using len h imageI [OF c, of c_hash] by (auto simp: StorageKey_inj)
  qed
  have "content x ?d cs g = content x d cs g" for g
    by (cases "chunk_of cs g") (auto simp: content_def key dest!: chunk_of_Some)
  then have "manifest_ok x ?d cs mcs m = manifest_ok x d cs mcs m" for m
    by (simp add: manifest_ok_def)
  moreover have "\<forall>c \<in> set cs. chunk_ok x U ?d c"
    using cas_ok_chunk [OF ok] key unfolding chunk_ok_def by metis
  moreover have "disk_ok x U ?d" using ok by (auto simp: cas_ok_def disk_ok_def)
  ultimately show ?thesis using ok by (simp add: cas_ok_def)
qed

text \<open>Recording a manifest with its rows.\<close>

lemma manifest_rows_facts:
  "length (manifest_rows i hos) = length hos"
  "map mc_seq (manifest_rows i hos) = map int [0 ..< length hos]"
  "map mc_hash (manifest_rows i hos) = map fst hos"
  "map mc_offset (manifest_rows i hos) = map snd hos"
  "r \<in> set (manifest_rows i hos) \<Longrightarrow> mc_manifest r = i"
  by (auto simp: manifest_rows_def enumerate_eq_zip split_beta simp flip: map_map
      intro!: nth_equalityI)

lemma rows_of_new:
  assumes "\<forall>r \<in> set mcs. mc_manifest r \<noteq> i"
  shows "rows_of (mcs @ manifest_rows i hos) i = manifest_rows i hos"
proof -
  have "filter (\<lambda>m. mc_manifest m = i) (mcs @ manifest_rows i hos) = manifest_rows i hos"
    using assms by (auto simp: filter_id_conv filter_empty_conv dest: manifest_rows_facts(5))
  moreover have "sorted (map mc_seq (manifest_rows i hos))"
    by (simp add: manifest_rows_facts sorted_iff_nth_mono)
  ultimately show ?thesis by (simp add: rows_of_def sort_key_id_if_sorted)
qed

lemma cas_ok_add_manifest:
  fixes hashes :: "string list" and ps :: "string list" and m :: manifest_row
  defines "rs \<equiv> manifest_rows (mf_id m) (zip hashes (offsets 0 ps))"
  assumes ok: "cas_ok x U d cs ms mcs n" and new: "n \<le> mf_id m" "mf_id m < n'" "n \<le> n'"
    and ps: "map (content x d cs) hashes = map Some ps"
    and m: "mf_total m = int (length (concat ps))" "mf_count m = int (length ps)"
      "mf_hash m = blake3 x (concat ps)"
  shows "cas_ok x U d (chunk_refcount_bump 1 rs cs) (ms @ [m]) (mcs @ rs) n'"
    and "those (map (\<lambda>r. content x d cs (mc_hash r)) (rows_of (mcs @ rs) (mf_id m))) = Some ps"
proof -
  have len: "length hashes = length ps" using arg_cong [OF ps, of length] by simp
  have old: "mc_manifest r < n" if "r \<in> set mcs" for r
    using ok that unfolding cas_ok_def by auto
  have at: "rows_of (mcs @ rs) (mf_id m) = rs"
    unfolding rs_def using old new by (intro rows_of_new) fastforce
  have hs: "map mc_hash rs = hashes" "map mc_offset rs = offsets 0 ps" "length rs = length ps"
    "map mc_seq rs = map int [0 ..< length ps]" "\<And>r. r \<in> set rs \<Longrightarrow> mc_manifest r = mf_id m"
    using len unfolding rs_def by (simp_all add: manifest_rows_facts)
  have seen: "those (map (\<lambda>r. content x d cs (mc_hash r)) rs) = Some ps"
    using ps unfolding hs(1) [symmetric] by (simp add: those_Some_iff comp_def)
  have "manifest_ok x d cs (mcs @ rs) m"
    by (simp add: manifest_ok_def at hs seen m)
  moreover have "manifest_ok x d cs (mcs @ rs) k = manifest_ok x d cs mcs k" if "k \<in> set ms" for k
  proof -
    have "mf_id k < n" using ok that by (simp add: cas_ok_def)
    then have "rows_of (mcs @ rs) (mf_id k) = rows_of mcs (mf_id k)"
      using new by (intro rows_of_append_other) (auto dest: hs(5))
    then show ?thesis by (simp add: manifest_ok_def)
  qed
  moreover have "mc_hash r \<in> c_hash ` set cs" if "r \<in> set rs" for r
  proof -
    have "mc_hash r \<in> set (map mc_hash rs)" using that by simp
    then have "mc_hash r \<in> set hashes" unfolding hs(1) .
    then have "content x d cs (mc_hash r) \<in> set (map Some ps)"
      unfolding ps [symmetric] by simp
    then have "chunk_of cs (mc_hash r) \<noteq> None" by (auto simp: content_def split: option.splits)
    then show ?thesis unfolding chunk_of_None by simp
  qed
  moreover have "mf_id m \<notin> mf_id ` set ms" using ok new by (auto simp: cas_ok_def)
  moreover have "\<forall>c \<in> set (chunk_refcount_bump 1 rs cs). c_ref c = mc_count (c_hash c) (mcs @ rs)"
    using ok by (auto simp: cas_ok_def chunk_refcount_bump_def)
  ultimately show "cas_ok x U d (chunk_refcount_bump 1 rs cs) (ms @ [m]) (mcs @ rs) n'"
    using ok new unfolding cas_ok_def by (auto simp: bump_chunk_ok dest: hs(5))
  show "those (map (\<lambda>r. content x d cs (mc_hash r)) (rows_of (mcs @ rs) (mf_id m))) = Some ps"
    unfolding at by (rule seen)
qed

text \<open>Dropping a manifest with its rows.\<close>

lemma cas_ok_drop_manifest:
  fixes mid :: nat
  defines "P \<equiv> (\<lambda>r. mc_manifest r = mid)"
  assumes ok: "cas_ok x U d cs ms mcs n"
  shows "cas_ok x U d (chunk_refcount_bump (-1) (filter P mcs) cs) (filter (\<lambda>m. mf_id m \<noteq> mid) ms)
    (filter (\<lambda>r. \<not> P r) mcs) n"
proof -
  let ?mcs = "filter (\<lambda>r. \<not> P r) mcs"
  have "manifest_ok x d cs ?mcs m = manifest_ok x d cs mcs m" if "mf_id m \<noteq> mid" for m
  proof -
    have "filter (\<lambda>r. mc_manifest r = mf_id m) ?mcs = filter (\<lambda>r. mc_manifest r = mf_id m) mcs"
      unfolding filter_filter by (rule filter_cong) (use that in \<open>auto simp: P_def\<close>)
    then have "rows_of ?mcs (mf_id m) = rows_of mcs (mf_id m)" by (simp add: rows_of_def)
    then show ?thesis by (simp add: manifest_ok_def)
  qed
  moreover have "\<forall>c \<in> set (chunk_refcount_bump (-1) (filter P mcs) cs). c_ref c = mc_count (c_hash c) ?mcs"
  proof -
    have "mc_count h mcs - mc_count h (filter P mcs) = mc_count h ?mcs" for h
      using mc_count_split [of h P mcs] by simp
    then show ?thesis using ok by (auto simp: cas_ok_def chunk_refcount_bump_def)
  qed
  moreover have "\<forall>r \<in> set ?mcs. mc_manifest r \<in> mf_id ` set (filter (\<lambda>m. mf_id m \<noteq> mid) ms)"
    using ok unfolding cas_ok_def P_def by fastforce
  ultimately show ?thesis
    using ok unfolding cas_ok_def by (simp add: bump_chunk_ok distinct_map_filter)
qed

end
