(* ===== verification/CasOps.thy ===== *)
theory CasOps
  imports CasInv
begin

text \<open>
  Every operation of content-addressed storage keeps \<open>cas_inv\<close>, whatever the fault schedule does,
  and what each of them returns: streaming writes, chunk uploads, manifest commits and the delete
  statements of the garbage collector.
\<close>

section \<open>Framing\<close>

lemma cas_inv_cong:
  "dget w' = dget w \<Longrightarrow> chunks w' = chunks w \<Longrightarrow> manifests w' = manifests w \<Longrightarrow>
   mchunks w' = mchunks w \<Longrightarrow> next_id w' = next_id w \<Longrightarrow> cas_inv x U w' = cas_inv x U w"
  by (simp add: cas_inv_def)

lemma dget_faults [simp]: "dget (w\<lparr>faults := bs\<rparr>) = dget w"
  by (rule ext) (simp add: dget_def)

lemma cas_inv_faults [simp]: "cas_inv x U (w\<lparr>faults := bs\<rparr>) = cas_inv x U w"
  by (rule cas_inv_cong) simp_all

lemma fault_free_cas [simp, keeps_intros]: "fault_free (cas_inv x U)"
  by (simp add: fault_free_def)

lemma cas_ok_next: "cas_ok x U d cs ms mcs n \<Longrightarrow> n \<le> n' \<Longrightarrow> cas_ok x U d cs ms mcs n'"
  by (auto simp: cas_ok_def)

text \<open>What a transaction body may do so that rolling it back is harmless.\<close>

definition tx_frame :: "world \<Rightarrow> world \<Rightarrow> bool" where
  "tx_frame w w' \<longleftrightarrow> dget w' = dget w \<and> next_id w \<le> next_id w' \<and> now w' = now w"

lemma tx_frame_refl [simp]: "tx_frame w w"
  by (simp add: tx_frame_def)

lemma tx_frame_trans: "tx_frame u v \<Longrightarrow> tx_frame v w \<Longrightarrow> tx_frame u w"
  by (simp add: tx_frame_def)

lemma cas_inv_rollback:
  assumes "cas_inv x U w" "tx_frame w w'"
  shows "cas_inv x U (rollback w w')"
proof -
  have "dget (rollback w w') = dget w" using assms(2)
    by (simp add: tx_frame_def fun_eq_iff) (simp add: dget_def)
  with assms show ?thesis by (auto simp: cas_inv_def tx_frame_def intro: cas_ok_next)
qed

lemma tx_frame_dbM: "dbM w = (r, w') \<Longrightarrow> tx_frame w w'"
  by (auto simp: dbM_def ioM_def tx_frame_def dget_def split: list.splits)

lemma dbM_run:
  assumes "dbM w = (r, w')"
  obtains bs where "w' = w\<lparr>faults := bs\<rparr>" "r = Inr () \<or> r = Inl db_err"
proof (cases "faults w")
  case Nil
  with assms have "w' = w\<lparr>faults := faults w\<rparr>" "r = Inr ()" by (auto simp: dbM_def ioM_def)
  then show ?thesis using that by blast
next
  case (Cons b bs)
  with assms have "w' = w\<lparr>faults := bs\<rparr>" "r = Inr () \<or> r = Inl db_err"
    by (auto simp: dbM_def ioM_def split: if_splits)
  then show ?thesis using that by blast
qed

lemma selectM_run:
  assumes "selectM f w = (r, w')"
  obtains bs where "w' = w\<lparr>faults := bs\<rparr>" "r = Inr (f (w\<lparr>faults := bs\<rparr>)) \<or> r = Inl db_err"
  using assms unfolding selectM_def
  by (auto elim!: thenM_cases dbM_run simp: run_iffs)

lemma wrapM_run:
  assumes "wrapM l c w = (r, w')"
  obtains e where "c w = (Inl e, w')" "r = Inl (Wrap l e)" | v where "c w = (Inr v, w')" "r = Inr v"
  using assms by (auto simp: wrapM_def catchM_def raise_def split: prod.splits sum.splits)

section \<open>Single statements\<close>

text \<open>The bytes of \<open>p\<close> are on disk under its address.\<close>

definition stored :: "ext \<Rightarrow> world \<Rightarrow> string \<Rightarrow> bool" where
  "stored x w p \<longleftrightarrow> dget w (StorageKey (blake3 x p)) = Some (fst (compressChunk x p))"

lemma PutKeyed_cas:
  assumes inv: "cas_inv x U w" and p: "p \<in> U"
    and run: "fs_PutKeyed (StorageKey (blake3 x p)) (fst (compressChunk x p), False) w = (r, w')"
  shows "cas_inv x U w'" and "\<And>q. stored x w q \<Longrightarrow> stored x w' q"
    and "r = Inr e \<Longrightarrow> stored x w' p"
    and "db_view w' = db_view w"
proof -
  let ?k = "StorageKey (blake3 x p)" and ?v = "fst (compressChunk x p)"
  show frame: "db_view w' = db_view w"
    using keepsD [OF fs_db_view(1) refl run] .
  have cr: "crypto_ok x U" and ok: "cas_ok x U (dget w) (chunks w) (manifests w) (mchunks w) (next_id w)"
    and dk: "disk_ok x U (dget w)"
    using inv by (simp_all add: cas_inv_def cas_ok_def)
  have len: "\<forall>p. length (blake3 x p) = 32" using cr by (simp add: crypto_ok_def)
  have cases: "dget w' = dget w \<or> dget w' = (dget w)(?k \<mapsto> ?v)"
    using fs.put_view [OF run] by auto
  have le: "dget w \<subseteq>\<^sub>m dget w'" using fs.put_mono [OF run] .
  have "disk_ok x U (dget w')"
    using cases dk disk_ok_put [OF dk p len] by auto
  then show "cas_inv x U w'"
    using cas_ok_disk [OF ok le] cr frame by (simp add: cas_inv_def db_view_def)
  show "\<And>q. stored x w q \<Longrightarrow> stored x w' q"
    using fs.put_stable [OF run] by (simp add: stored_def)
  have old: "bs = ?v" if bs: "dget w ?k = Some bs" for bs
  proof -
    obtain q where "q \<in> U" "blake3 x q = blake3 x p" "bs = fst (compressChunk x q)"
      using dk [unfolded disk_ok_def, rule_format, OF len [rule_format] bs] by auto
    then show ?thesis using cr p by (auto simp: crypto_ok_def dest: inj_onD)
  qed
  show "stored x w' p" if "r = Inr e"
  proof -
    have "fs_PutKeyed ?k (?v, False) w = (Inr e, w')" using run that by simp
    from fs.put_content [OF this old] show ?thesis by (simp add: stored_def)
  qed
qed


text \<open>The upsert of a chunk row whose bytes are on disk.\<close>

lemma insert_chunk_run:
  assumes inv: "cas_inv x U w" and p: "p \<in> U" "stored x w p"
    and run: "insert_chunk (blake3 x p) (int (length p)) (int (length (fst (compressChunk x p))))
        (snd (compressChunk x p)) (StorageKey (blake3 x p)) w = (r, w')"
  shows "cas_inv x U w' \<and> tx_frame w w' \<and> versions w' = versions w \<and> manifests w' = manifests w \<and>
    (\<exists>cs. chunks w' = chunks w @ cs) \<and>
    (\<forall>b. r = Inr b \<longrightarrow> blake3 x p \<in> c_hash ` set (chunks w') \<and> p \<noteq> [])"
proof -
  let ?row = "\<lambda>t. \<lparr>c_hash = blake3 x p, c_size = int (length p),
     c_stored = int (length (fst (compressChunk x p))), c_comp = snd (compressChunk x p),
     c_key = StorageKey (blake3 x p), c_ref = 0, c_created = t, c_tier = ''hot''\<rparr>"
  have row: "chunk_ok x U (dget w) (?row t)" if "p \<noteq> []" for t
    using p that by (auto simp: chunk_ok_def stored_def intro!: bexI [of _ p])
  have add: "cas_inv x U (w\<lparr>faults := bs, chunks := chunks w @ [?row t]\<rparr>)"
    if "p \<noteq> []" "blake3 x p \<notin> c_hash ` set (chunks w)" for t bs
    using inv cas_ok_add_chunk [OF _ row [OF that(1)], of _ _ _ _ t] that
    by (simp add: cas_inv_def dget_def [abs_def])
  show ?thesis
    using run inv add unfolding insert_chunk_def
    by (auto elim!: thenM_cases bindM_cases dbM_run simp: run_iffs Let_def chunk_check_def
        tx_frame_def dget_def [abs_def] split: if_splits)
qed


definition placed_of :: "ext \<Rightarrow> string \<Rightarrow> int \<Rightarrow> placed" where
  "placed_of x p off = \<lparr>pl_hash = blake3 x p, pl_size = int (length p),
     pl_stored = int (length (fst (compressChunk x p))), pl_comp = snd (compressChunk x p),
     pl_offset = off\<rparr>"

lemma stored_frame: "tx_frame w w' \<Longrightarrow> stored x w' p = stored x w p"
  by (simp add: stored_def tx_frame_def)

lemma wrap_insert_run:
  assumes "cas_inv x U w" "p \<in> U" "stored x w p" "z = placed_of x p off"
    and "wrapM l (insert_chunk (pl_hash z) (pl_size z) (pl_stored z) (pl_comp z)
           (StorageKey (pl_hash z))) w = (r, w')"
  shows "cas_inv x U w' \<and> tx_frame w w' \<and> versions w' = versions w \<and> manifests w' = manifests w \<and>
    (\<exists>cs. chunks w' = chunks w @ cs) \<and> (\<forall>b. r = Inr b \<longrightarrow> pl_hash z \<in> c_hash ` set (chunks w'))"
  using assms insert_chunk_run [OF assms(1-3)] by (auto simp: placed_of_def elim!: wrapM_run)

lemma upsert_run:
  assumes inv: "cas_inv x U w"
    and zs: "\<forall>z \<in> set zs. \<exists>p off. p \<in> U \<and> stored x w p \<and> z = placed_of x p off"
    and run: "upsert_chunks zs w = (r, w')"
  shows "cas_inv x U w' \<and> tx_frame w w' \<and> versions w' = versions w \<and> manifests w' = manifests w \<and>
    (\<exists>cs. chunks w' = chunks w @ cs) \<and>
    (\<forall>b. r = Inr b \<longrightarrow> (\<forall>z \<in> set zs. pl_hash z \<in> c_hash ` set (chunks w')))"
proof -
  let ?F = "\<lambda>v. cas_inv x U v \<and> tx_frame w v \<and> versions v = versions w \<and> manifests v = manifests w \<and>
    (\<exists>cs. chunks v = chunks w @ cs)"
  have "case r of Inl e \<Rightarrow> ?F w'
      | Inr b \<Rightarrow> ?F w' \<and> (\<forall>z \<in> set zs. pl_hash z \<in> c_hash ` set (chunks w'))"
    using run unfolding upsert_chunks_def
  proof (rule foldM_run)
    show "?F w \<and> (\<forall>z \<in> set []. pl_hash z \<in> c_hash ` set (chunks w))" using inv by simp
  next
    fix ys z zs' b v q v'
    assume split: "zs = ys @ z # zs'" and J: "?F v \<and> (\<forall>z \<in> set ys. pl_hash z \<in> c_hash ` set (chunks v))"
      and step: "thenM (wrapM ''record chunk'' (insert_chunk (pl_hash z) (pl_size z) (pl_stored z)
        (pl_comp z) (StorageKey (pl_hash z)))) (ret ()) v = (q, v')"
    obtain p off where p: "p \<in> U" "stored x w p" "z = placed_of x p off"
      using zs split by auto
    have "stored x v p" using J p(2) stored_frame by metis
    with step wrap_insert_run [OF _ p(1) _ p(3), of v] J
    have "?F v' \<and> (\<forall>b. q = Inr b \<longrightarrow> (\<forall>y \<in> set (ys @ [z]). pl_hash y \<in> c_hash ` set (chunks v')))"
      by (fastforce elim!: thenM_cases simp: run_iffs intro: tx_frame_trans)
    then show "case q of Inl e \<Rightarrow> ?F v'
        | Inr b' \<Rightarrow> ?F v' \<and> (\<forall>y \<in> set (ys @ [z]). pl_hash y \<in> c_hash ` set (chunks v'))"
      by (cases q) auto
  qed
  then show ?thesis by (cases r) auto
qed


text \<open>The chunks a manifest's rows name.\<close>

definition manifest_refs :: "world \<Rightarrow> nat \<Rightarrow> string set" where
  "manifest_refs w i = mc_hash ` {r \<in> set (mchunks w). mc_manifest r = i}"

lemma manifest_refs_faults [simp]: "manifest_refs (w\<lparr>faults := bs\<rparr>) i = manifest_refs w i"
  by (simp add: manifest_refs_def)

text \<open>Recording a manifest over chunks whose contents are known.\<close>

lemma record_run:
  assumes inv: "cas_inv x U w"
    and ps: "map (content x (dget w) (chunks w)) hashes = map Some ps"
    and run: "record_manifest (int (length (concat ps))) (int (length ps)) (blake3 x (concat ps))
        (zip hashes (offsets 0 ps)) w = (r, w')"
  shows "tx_frame w w'" and "versions w' = versions w"
    and "r = Inr i \<Longrightarrow> cas_inv x U w' \<and> stands_for x w' i (concat ps)"
    and "r = Inr i \<Longrightarrow> set hashes \<subseteq> manifest_refs w' i"
proof -
  let ?n = "next_id w"
  let ?rs = "manifest_rows ?n (zip hashes (offsets 0 ps))"
  let ?m = "\<lparr>mf_id = ?n, mf_total = int (length (concat ps)), mf_count = int (length ps),
    mf_hash = blake3 x (concat ps), mf_created = now w\<rparr>"
  have cases: "tx_frame w w' \<and> versions w' = versions w \<and> (\<forall>i. r = Inr i \<longrightarrow> i = ?n \<and>
      next_id w' = Suc ?n \<and> manifests w' = manifests w @ [?m] \<and> mchunks w' = mchunks w @ ?rs \<and>
      chunks w' = chunk_refcount_bump 1 ?rs (chunks w))"
    using run unfolding record_manifest_def insert_manifest_def copy_mchunks_def
    by (auto elim!: thenM_cases bindM_cases dbM_run wrapM_run simp: run_iffs fresh_id_def
        tx_frame_def dget_def [abs_def] split: if_splits)
  then show "tx_frame w w'" "versions w' = versions w" by auto
  have len: "length hashes = length (offsets 0 ps)" using arg_cong [OF ps, of length] by simp
  show "set hashes \<subseteq> manifest_refs w' i" if "r = Inr i"
  proof -
    have "i = ?n" "mchunks w' = mchunks w @ ?rs" using cases that by auto
    moreover have "set hashes = mc_hash ` set ?rs"
      using manifest_rows_facts(3) [of ?n "zip hashes (offsets 0 ps)"] len by (metis list.set_map map_fst_zip)
    ultimately show ?thesis by (auto simp: manifest_refs_def dest: manifest_rows_facts(5))
  qed
  assume "r = Inr i"
  with cases have i: "i = ?n" and d: "dget w' = dget w" and w': "next_id w' = Suc ?n"
      "manifests w' = manifests w @ [?m]" "mchunks w' = mchunks w @ ?rs"
      "chunks w' = chunk_refcount_bump 1 ?rs (chunks w)"
    by (auto simp: tx_frame_def)
  have ok: "cas_ok x U (dget w) (chunks w) (manifests w) (mchunks w) ?n"
    using inv by (simp add: cas_inv_def)
  have "cas_ok x U (dget w) (chunk_refcount_bump 1 ?rs (chunks w)) (manifests w @ [?m])
      (mchunks w @ ?rs) (Suc ?n)"
    using cas_ok_add_manifest(1) [OF ok, of ?m "Suc ?n" hashes ps] ps by simp
  moreover have "those (map (\<lambda>r. content x (dget w) (chunks w) (mc_hash r))
      (rows_of (mchunks w @ ?rs) ?n)) = Some ps"
    using cas_ok_add_manifest(2) [OF ok, of ?m "Suc ?n" hashes ps] ps by simp
  ultimately show "cas_inv x U w' \<and> stands_for x w' i (concat ps)"
    using inv by (simp add: cas_inv_def stands_for_def manifest_content_def d i w')
qed

lemma find_live_run:
  assumes run: "find_live_manifest h t k w = (r, w')"
  obtains bs where "w' = w\<lparr>faults := bs\<rparr>" "\<And>i. r = Inr (Some i) \<Longrightarrow> manifest_live w i \<and>
    (\<exists>m \<in> set (manifests w). mf_id m = i \<and> mf_hash m = h \<and> mf_total m = t \<and> mf_count m = k)"
proof -
  have *: "\<exists>m \<in> set ms. mf_id m = i \<and> mf_hash m = h \<and> mf_total m = t \<and> mf_count m = k \<and> manifest_live w i"
    if "map_option mf_id (find (\<lambda>m. mf_hash m = h \<and> mf_total m = t \<and> mf_count m = k
          \<and> manifest_live w (mf_id m)) ms) = Some i" for ms i
    using that by (auto dest!: find_Some_set)
  have live: "manifest_live (w\<lparr>faults := bs\<rparr>) = manifest_live w" for bs
    by (rule ext) (simp add: manifest_live_def)
  from run show ?thesis
    unfolding find_live_manifest_def
    by (elim wrapM_run selectM_run) (rule that; auto simp: live dest!: * [OF sym])+
qed

lemma manifest_content_of:
  assumes "cas_inv x U w" "m \<in> set (manifests w)"
  obtains ps where "manifest_content x w (mf_id m) = Some (concat ps)"
    "mf_hash m = blake3 x (concat ps)" "mf_total m = int (length (concat ps))"
    "mf_count m = int (length ps)"
    "map (\<lambda>r. content x (dget w) (chunks w) (mc_hash r)) (rows_of (mchunks w) (mf_id m)) = map Some ps"
    "map mc_offset (rows_of (mchunks w) (mf_id m)) = offsets 0 ps"
proof -
  have "manifest_ok x (dget w) (chunks w) (mchunks w) m"
    using assms by (simp add: cas_inv_def cas_ok_def)
  then show ?thesis
    by (auto simp: manifest_ok_def Let_def manifest_content_def those_Some_iff split: option.splits
        intro!: that dest: arg_cong [where f = length])
qed

section \<open>Streaming writes\<close>

text \<open>What the callback of \<open>Write\<close> has collected after the pieces \<open>ps\<close>.\<close>

definition acc_ok :: "ext \<Rightarrow> world \<Rightarrow> string list \<Rightarrow> int \<times> string \<times> write_acc \<Rightarrow> bool" where
  "acc_ok x w ps st \<longleftrightarrow> (case st of (off, whole, a) \<Rightarrow>
     off = int (length (concat ps)) \<and> whole = concat ps \<and> wa_total a = int (length (concat ps)) \<and>
     wa_chunks a = map2 (placed_of x) ps (offsets 0 ps) \<and> (\<forall>p \<in> set ps. stored x w p))"

lemma split_emit_run:
  assumes inv: "cas_inv x U w" and p: "p \<in> U" and acc: "acc_ok x w ps st"
    and run: "split_emit x write_chunk st p w = (r, w')"
  shows "cas_inv x U w'" "db_view w' = db_view w" "r = Inr st' \<Longrightarrow> acc_ok x w' (ps @ [p]) st'"
proof -
  obtain off whole a where st: "st = (off, whole, a)" by (cases st)
  obtain q where put: "fs_PutKeyed (StorageKey (blake3 x p)) (fst (compressChunk x p), False) w = (q, w')"
    and res: "\<forall>st'. r = Inr st' \<longrightarrow> (\<exists>b a'. q = Inr b \<and>
        st' = (off + int (length p), whole @ p, a') \<and>
        wa_chunks a' = wa_chunks a @ [placed_of x p off] \<and> wa_total a' = wa_total a + int (length p))"
    using run unfolding split_emit_def write_chunk_def st
    by (auto elim!: bindM_cases wrapM_run simp: run_iffs Let_def placed_of_def split: if_splits)
  note 1 = PutKeyed_cas [OF inv p put]
  show "cas_inv x U w'" "db_view w' = db_view w" by (fact 1)+
  assume "r = Inr st'"
  with res acc 1(2,3) st show "acc_ok x w' (ps @ [p]) st'"
    by (fastforce simp: acc_ok_def offsets_append zip_append1)
qed

lemma split_fold_run:
  assumes run: "foldM (split_emit x write_chunk) st qs w = (r, w')"
    and inv: "cas_inv x U w" and U: "set qs \<subseteq> U" and acc: "acc_ok x w ps st"
  shows "cas_inv x U w' \<and> db_view w' = db_view w \<and> (\<forall>st'. r = Inr st' \<longrightarrow> acc_ok x w' (ps @ qs) st')"
proof -
  let ?F = "\<lambda>v. cas_inv x U v \<and> db_view v = db_view w"
  have "case r of Inl e \<Rightarrow> ?F w' | Inr st' \<Rightarrow> ?F w' \<and> acc_ok x w' (ps @ qs) st'"
    using run
  proof (rule foldM_run)
    show "?F w \<and> acc_ok x w (ps @ []) st" using inv acc by simp
  next
    fix ys y zs st1 v q v'
    assume "qs = ys @ y # zs" "?F v \<and> acc_ok x v (ps @ ys) st1"
      "split_emit x write_chunk st1 y v = (q, v')"
    with split_emit_run [of x U v y "ps @ ys" st1 q v'] U
    show "case q of Inl e \<Rightarrow> ?F v' | Inr st' \<Rightarrow> ?F v' \<and> acc_ok x v' (ps @ ys @ [y]) st'"
      by (cases q) auto
  qed
  then show ?thesis by (cases r) auto
qed

definition pieces :: "ext \<Rightarrow> reader \<Rightarrow> string list" where
  "pieces x r = cdc_split x r @ cdc_final x r"

lemma db_view_same:
  "db_view w' = db_view w \<Longrightarrow> versions w' = versions w \<and> manifests w' = manifests w \<and>
   chunks w' = chunks w \<and> mchunks w' = mchunks w \<and> next_id w' = next_id w \<and> now w' = now w"
  by (simp add: db_view_def)

lemma ioAll_cas: "ioAll es w = (r, w') \<Longrightarrow> cas_inv x U w \<Longrightarrow> cas_inv x U w' \<and> db_view w' = db_view w"
  by (rule keepsD [of "\<lambda>v. cas_inv x U v \<and> db_view v = db_view w" "ioAll es" w r w'])
    (simp_all add: keeps_ioAll fault_free_def)

lemma Split_run:
  assumes inv: "cas_inv x U w" and U: "set (pieces x rd) \<subseteq> U"
    and run: "Split x rd write_chunk write_acc0 w = (r, w')"
  shows "cas_inv x U w' \<and> db_view w' = db_view w \<and> (\<forall>h a. r = Inr (h, a) \<longrightarrow>
    h = blake3 x (concat (pieces x rd)) \<and>
    acc_ok x w' (pieces x rd) (int (length (concat (pieces x rd))), concat (pieces x rd), a))"
proof -
  have 0: "acc_ok x v [] (0, [], write_acc0)" for v
    by (simp add: acc_ok_def write_acc0_def)
  have U1: "set (cdc_split x rd) \<subseteq> U" and U2: "set (cdc_final x rd) \<subseteq> U"
    using U by (simp_all add: pieces_def)
  note fold1 = split_fold_run [OF _ _ U1 0] and fold2 = split_fold_run [OF _ _ U2]
  from run show ?thesis
    unfolding Split_def
  proof (cases rule: thenM_cases)
    case (1 e)
    then show ?thesis using ioAll_cas inv by blast
  next
    case (2 u t)
    have t: "cas_inv x U t" "db_view t = db_view w" using ioAll_cas [OF 2(1) inv] by auto
    from 2(2) show ?thesis
      by (elim bindM_cases wrapM_run thenM_cases)
        (auto simp: run_iffs pieces_def acc_ok_def t split: if_splits prod.splits
          dest!: fold1 [OF _ t(1)] dest: fold2)
  qed
qed


lemma content_of_hash:
  assumes inv: "cas_inv x U w" and p: "p \<in> U" and row: "blake3 x p \<in> c_hash ` set (chunks w)"
  shows "content x (dget w) (chunks w) (blake3 x p) = Some p"
proof -
  have cr: "inj_on (blake3 x) U" "zstd_ok x U" using inv by (simp_all add: cas_inv_def crypto_ok_def)
  obtain c where c: "chunk_of (chunks w) (blake3 x p) = Some c"
    using row chunk_of_None by fastforce
  have "chunk_ok x U (dget w) c"
    using inv chunk_of_Some [OF c] cas_ok_chunk by (auto simp: cas_inv_def)
  then obtain q where "q \<in> U" "content x (dget w) (chunks w) (blake3 x p) = Some q"
    "blake3 x q = blake3 x p"
    using content_chunk [OF cr(2) c] by metis
  then show ?thesis using cr p by (auto dest: inj_onD)
qed

lemma cas_inv_tx:
  "cas_inv x U w \<Longrightarrow> tx_frame w w' \<Longrightarrow> cas_inv x U (rollback w (w'\<lparr>faults := bs\<rparr>))"
  by (rule cas_inv_rollback) (auto simp: tx_frame_def)

text \<open>The transaction of \<open>Write\<close>.\<close>

lemma write_tx_body:
  assumes inv: "cas_inv x U w" and U: "set ps \<subseteq> U" and st: "\<forall>p \<in> set ps. stored x w p"
    and run: "thenM (upsert_chunks (map2 (placed_of x) ps (offsets 0 ps)))
        (record_manifest (int (length (concat ps))) (int (length ps)) (blake3 x (concat ps))
          (map (\<lambda>p. (pl_hash p, pl_offset p)) (map2 (placed_of x) ps (offsets 0 ps)))) w = (r, w')"
  shows "tx_frame w w'"
    and "r = Inr i \<Longrightarrow> cas_inv x U w' \<and> stands_for x w' i (concat ps) \<and>
      blake3 x ` set ps \<subseteq> manifest_refs w' i"
proof -
  let ?zs = "map2 (placed_of x) ps (offsets 0 ps)"
  have zs: "\<forall>z \<in> set ?zs. \<exists>p off. p \<in> U \<and> stored x w p \<and> z = placed_of x p off"
    using U st by (fastforce dest: set_zip_leftD)
  have ho: "map (\<lambda>p. (pl_hash p, pl_offset p)) ?zs = zip (map (blake3 x) ps) (offsets 0 ps)"
    by (auto simp: placed_of_def intro!: nth_equalityI)
  have hs: "pl_hash ` set ?zs = blake3 x ` set ps"
  proof -
    have "map pl_hash ?zs = map (blake3 x) ps"
      by (auto simp: placed_of_def intro!: nth_equalityI)
    then show ?thesis by (metis list.set_map)
  qed
  have both: "tx_frame w w' \<and> (\<forall>i. r = Inr i \<longrightarrow> cas_inv x U w' \<and> stands_for x w' i (concat ps) \<and>
      blake3 x ` set ps \<subseteq> manifest_refs w' i)"
    using run
  proof (cases rule: thenM_cases)
    case (1 e)
    with upsert_run [OF inv zs 1(1)] show ?thesis by auto
  next
    case (2 u t)
    have t: "cas_inv x U t" "tx_frame w t" and "\<forall>z \<in> set ?zs. pl_hash z \<in> c_hash ` set (chunks t)"
      using upsert_run [OF inv zs 2(1)] by simp_all
    then have "pl_hash ` set ?zs \<subseteq> c_hash ` set (chunks t)" by blast
    then have t3: "\<forall>p \<in> set ps. blake3 x p \<in> c_hash ` set (chunks t)" unfolding hs by blast
    have "map (content x (dget t) (chunks t)) (map (blake3 x) ps) = map Some ps"
      using content_of_hash [OF t(1)] t3 U by auto
    from record_run [OF t(1) this 2(2) [unfolded ho]] t(2) show ?thesis
      by (auto intro: tx_frame_trans)
  qed
  then show "tx_frame w w'"
    and "r = Inr i \<Longrightarrow> cas_inv x U w' \<and> stands_for x w' i (concat ps) \<and>
      blake3 x ` set ps \<subseteq> manifest_refs w' i" by auto
qed

lemma manifest_content_faults [simp]:
  "manifest_content x (w\<lparr>faults := bs\<rparr>) i = manifest_content x w i"
  "stands_for x (w\<lparr>faults := bs\<rparr>) i file = stands_for x w i file"
  by (simp_all add: manifest_content_def stands_for_def)

lemma withTx_cas:
  assumes inv: "cas_inv x U w" and run: "withTx c w = (r, w')"
    and body: "\<And>bs r t. c (w\<lparr>faults := bs\<rparr>) = (r, t) \<Longrightarrow> tx_frame w t \<and>
      (\<forall>i. r = Inr i \<longrightarrow> cas_inv x U t \<and> Q i t)"
    and Q: "\<And>i t bs. Q i t \<Longrightarrow> Q i (t\<lparr>faults := bs\<rparr>)"
  shows "cas_inv x U w' \<and> (\<forall>i. r = Inr i \<longrightarrow> Q i w')"
  using run
proof (cases rule: withTx_cases)
  case (1 bs)
  then show ?thesis using inv by simp
next
  case (2 bs e w1)
  then show ?thesis using body [OF 2(1)] inv cas_inv_rollback by auto
next
  case (3 bs y w1 bs')
  then show ?thesis using body [OF 3(1)] inv cas_inv_tx by auto
next
  case (4 bs y w1 bs')
  then show ?thesis using body [OF 4(1)] Q by auto
qed


text \<open>
  Collision freedom for whole files: no manifest stands for a different file with the same hash.
\<close>

definition no_clash :: "ext \<Rightarrow> world \<Rightarrow> string \<Rightarrow> bool" where
  "no_clash x w file \<longleftrightarrow> list_all (\<lambda>m. mf_hash m = blake3 x file \<longrightarrow>
     manifest_content x w (mf_id m) = Some file) (manifests w)"

lemma no_clash_cong:
  "db_view w' = db_view w \<Longrightarrow> (\<And>m. m \<in> set (manifests w) \<Longrightarrow>
     manifest_content x w' (mf_id m) = manifest_content x w (mf_id m)) \<Longrightarrow>
   no_clash x w' file = no_clash x w file"
  by (auto simp: no_clash_def list_all_iff db_view_def)

lemma manifest_content_grow:
  assumes inv: "cas_inv x U w" "cas_inv x U w'" and same: "db_view w' = db_view w"
    and m: "m \<in> set (manifests w)" "m \<in> set (manifests w')"
  shows "manifest_content x w' (mf_id m) = manifest_content x w (mf_id m)"
proof -
  have "content x (dget w') (chunks w) (mc_hash r) = content x (dget w) (chunks w) (mc_hash r)"
    if "r \<in> set (mchunks w)" for r
  proof -
    have row: "mc_hash r \<in> c_hash ` set (chunks w)"
      using inv(1) that by (simp add: cas_inv_def cas_ok_def)
    then obtain c where c: "chunk_of (chunks w) (mc_hash r) = Some c" using chunk_of_None by fastforce
    then obtain p where "p \<in> U" "mc_hash r = blake3 x p"
      using inv(1) chunk_of_Some [OF c] unfolding cas_inv_def cas_ok_def chunk_ok_def by metis
    with content_of_hash [OF inv(1)] content_of_hash [OF inv(2)] row db_view_same [OF same]
    show ?thesis by simp
  qed
  then have "map (\<lambda>r. content x (dget w') (chunks w) (mc_hash r)) (rows_of (mchunks w) (mf_id m)) =
      map (\<lambda>r. content x (dget w) (chunks w) (mc_hash r)) (rows_of (mchunks w) (mf_id m))" by simp
  then show ?thesis
    using db_view_same [OF same] unfolding manifest_content_def by metis
qed

lemma no_clash_grow:
  "cas_inv x U w \<Longrightarrow> cas_inv x U w' \<Longrightarrow> db_view w' = db_view w \<Longrightarrow>
   no_clash x w' file = no_clash x w file"
  using db_view_same [of w' w] by (intro no_clash_cong manifest_content_grow) auto

lemma reuse_content:
  assumes "no_clash x w file" "m \<in> set (manifests w)" "mf_hash m = blake3 x file"
  shows "stands_for x w (mf_id m) file"
  using assms by (simp add: no_clash_def list_all_iff stands_for_def)

lemma Write_rows_run:
  assumes t: "cas_inv x U t" and U: "set ps \<subseteq> U" and acc: "acc_ok x t ps (off, whole, a)"
    and run: "Write_rows (blake3 x (concat ps), a) t = (r, w')"
  shows "cas_inv x U w'"
    and "r = Inr wr \<Longrightarrow> no_clash x t (concat ps) \<Longrightarrow> stands_for x w' (M_ID (wr_Manifest wr)) (concat ps)"
    and "r = Inr wr \<Longrightarrow> \<not> wr_ReusedManifest wr \<Longrightarrow>
      blake3 x ` set ps \<subseteq> manifest_refs w' (M_ID (wr_Manifest wr))"
    and "r = Inr wr \<Longrightarrow> wr_ReusedManifest wr \<Longrightarrow> \<exists>m \<in> set (manifests t). mf_hash m = blake3 x (concat ps)"
proof -
  let ?h = "blake3 x (concat ps)"
  let ?Q = "\<lambda>i v. stands_for x v i (concat ps) \<and> blake3 x ` set ps \<subseteq> manifest_refs v i"
  let ?tx = "thenM (upsert_chunks (wa_chunks a)) (record_manifest (wa_total a)
          (int (length (wa_chunks a))) ?h (map (\<lambda>p. (pl_hash p, pl_offset p)) (wa_chunks a)))"
  have acc: "wa_total a = int (length (concat ps))"
    "wa_chunks a = map2 (placed_of x) ps (offsets 0 ps)" "\<forall>p \<in> set ps. stored x t p"
    using acc by (simp_all add: acc_ok_def)
  have len: "int (length (wa_chunks a)) = int (length ps)" by (simp add: acc(2))
  have body: "tx_frame t1 t2 \<and> (\<forall>i. q = Inr i \<longrightarrow> cas_inv x U t2 \<and> ?Q i t2)"
    if "?tx t1 = (q, t2)" "cas_inv x U t1" "\<forall>p \<in> set ps. stored x t1 p" for t1 q t2
    using write_tx_body [OF that(2) U that(3)] that(1) unfolding len unfolding acc by blast
  have all: "cas_inv x U w' \<and> (\<forall>wr. r = Inr wr \<longrightarrow>
      (no_clash x t (concat ps) \<longrightarrow> stands_for x w' (M_ID (wr_Manifest wr)) (concat ps)) \<and>
      (if wr_ReusedManifest wr then \<exists>m \<in> set (manifests t). mf_hash m = ?h
       else blake3 x ` set ps \<subseteq> manifest_refs w' (M_ID (wr_Manifest wr))))"
    using run unfolding Write_rows_def fst_conv snd_conv Let_def
  proof (elim bindM_cases find_live_run, goal_cases)
    case (1 e bs)
    then show ?case using t by simp
  next
    case (2 existing t1 bs)
    show ?case
    proof (cases existing)
      case (Some i)
      with 2 obtain m where m: "m \<in> set (manifests t)" "mf_id m = i" "mf_hash m = ?h" by blast
      with reuse_content [of x t "concat ps" m] 2 Some t show ?thesis by (auto simp: run_iffs)
    next
      case None
      with 2(1) have "bindM (withTx ?tx)
          (\<lambda>i. ret \<lparr>wr_Manifest = \<lparr>M_ID = i, M_TotalSize = wa_total a,
              M_ChunkCount = int (length (wa_chunks a)), M_ContentHash = ?h\<rparr>,
            wr_LogicalSize = wa_total a, wr_NewBytes = wa_newBytes a,
            wr_DedupedChunks = wa_deduped a, wr_NewChunks = wa_new a,
            wr_ReusedManifest = False\<rparr>) t1 = (r, w')" by simp
      moreover have t1: "cas_inv x U t1" "\<forall>p \<in> set ps. stored x t1 p"
        using 2 t acc(3) by (simp_all add: stored_def)
      moreover have "cas_inv x U v \<and> (\<forall>i. q = Inr i \<longrightarrow> ?Q i v)"
        if "withTx ?tx t1 = (q, v)" for q v
        using t1(1) that
      proof (rule withTx_cas)
        fix bs q t2 assume "?tx (t1\<lparr>faults := bs\<rparr>) = (q, t2)"
        from body [OF this] t1 show "tx_frame t1 t2 \<and> (\<forall>i. q = Inr i \<longrightarrow> cas_inv x U t2 \<and> ?Q i t2)"
          by (simp add: stored_def tx_frame_def)
      qed simp
      ultimately show ?thesis by (elim bindM_cases) (auto simp: run_iffs)
    qed
  qed
  then show "cas_inv x U w'" by blast
  show "r = Inr wr \<Longrightarrow> no_clash x t (concat ps) \<Longrightarrow> stands_for x w' (M_ID (wr_Manifest wr)) (concat ps)"
    and "r = Inr wr \<Longrightarrow> \<not> wr_ReusedManifest wr \<Longrightarrow>
      blake3 x ` set ps \<subseteq> manifest_refs w' (M_ID (wr_Manifest wr))"
    and "r = Inr wr \<Longrightarrow> wr_ReusedManifest wr \<Longrightarrow> \<exists>m \<in> set (manifests t). mf_hash m = ?h"
    using all by (auto split: if_splits)
qed

lemma Write_run:
  assumes inv: "cas_inv x U w" and U: "set (pieces x rd) \<subseteq> U" and run: "Write x rd w = (r, w')"
  shows "cas_inv x U w'"
    and "r = Inr wr \<Longrightarrow> no_clash x w (concat (pieces x rd)) \<Longrightarrow>
      stands_for x w' (M_ID (wr_Manifest wr)) (concat (pieces x rd))"
proof -
  have "cas_inv x U w' \<and> (\<forall>wr. r = Inr wr \<longrightarrow> no_clash x w (concat (pieces x rd)) \<longrightarrow>
      stands_for x w' (M_ID (wr_Manifest wr)) (concat (pieces x rd)))"
    using run unfolding Write_def
  proof (cases rule: bindM_cases)
    case (1 e)
    then show ?thesis using Split_run [OF inv U 1(1)] by simp
  next
    case (2 ha t)
    obtain h a where ha: "ha = (h, a)" by (cases ha)
    from Split_run [OF inv U 2(1)] have t: "cas_inv x U t" "db_view t = db_view w"
      "h = blake3 x (concat (pieces x rd))" "acc_ok x t (pieces x rd)
        (int (length (concat (pieces x rd))), concat (pieces x rd), a)" by (simp_all add: ha)
    have "no_clash x t f = no_clash x w f" for f by (rule no_clash_grow [OF inv t(1,2)])
    with Write_rows_run [OF t(1) U t(4)] 2(2) show ?thesis by (auto simp: ha t(3))
  qed
  then show "cas_inv x U w'"
    and "r = Inr wr \<Longrightarrow> no_clash x w (concat (pieces x rd)) \<Longrightarrow>
      stands_for x w' (M_ID (wr_Manifest wr)) (concat (pieces x rd))" by auto
qed

end
