(* ===== verification/CasDelta.thy ===== *)
theory CasDelta
  imports CasOps
begin

text \<open>
  The delta protocol and the garbage collector's statements: what a chunk upload and a manifest
  commit accept, and that each of them, and each delete, keeps \<open>cas_inv\<close>.
\<close>

section \<open>Chunk uploads\<close>

lemma PutChunk_cas:
  assumes inv: "cas_inv x U w" and p: "plain \<in> U" and run: "PutChunk x expected plain w = (r, w')"
  shows "cas_inv x U w'"
proof (cases "length plain = 0 \<or> MaxChunkSize < int (length plain) \<or> blake3 x plain \<noteq> expected")
  case True
  then show ?thesis using run inv by (auto simp: PutChunk_def run_iffs split: if_splits)
next
  case False
  then have run': "thenM (wrapM ''store chunk'' (fs_PutKeyed (StorageKey (blake3 x plain))
       (fst (compressChunk x plain), False)))
     (wrapM ''record chunk'' (insert_chunk (blake3 x plain) (int (length plain))
       (int (length (fst (compressChunk x plain)))) (snd (compressChunk x plain))
       (StorageKey (blake3 x plain)))) w = (r, w')"
    using run by (auto simp: PutChunk_def Let_def split_beta)
  then show ?thesis
  proof (cases rule: thenM_cases)
    case (1 e)
    then show ?thesis using PutKeyed_cas(1) [OF inv p] by (auto elim!: wrapM_run)
  next
    case (2 b t)
    then have put: "fs_PutKeyed (StorageKey (blake3 x plain)) (fst (compressChunk x plain), False) w
        = (Inr b, t)" by (auto elim!: wrapM_run)
    note t = PutKeyed_cas(1,3) [OF inv p put]
    from 2(2) show ?thesis
      by (elim wrapM_run) (use insert_chunk_run [OF t(1) p t(2)] in auto)
  qed
qed

text \<open>A chunk is never stored under an address that is not its own.\<close>

lemma PutChunk_checks:
  assumes "PutChunk x expected plain w = (Inr fresh, w')"
  shows "blake3 x plain = expected" "plain \<noteq> []" "int (length plain) \<le> MaxChunkSize"
  using assms by (auto simp: PutChunk_def run_iffs split: if_splits)

section \<open>Reading chunks\<close>

lemma ioM_run:
  assumes "ioM e (w :: world) = (r, w')"
  obtains bs where "w' = w\<lparr>faults := bs\<rparr>" "r = Inr () \<or> r = Inl e"
proof -
  have "(\<exists>bs. w' = w\<lparr>faults := bs\<rparr>) \<and> (r = Inr () \<or> r = Inl e)"
    using assms by (cases "faults w") (auto simp: ioM_def intro!: exI [of _ "faults w'"] split: if_splits)
  then show ?thesis using that by blast
qed

lemma fs_Open_run:
  assumes "fs_Open k w = (r, w')"
  obtains bs where "w' = w\<lparr>faults := bs\<rparr>" "\<And>b. r = Inr b \<Longrightarrow> dget w k = Some b"
proof -
  have "(\<exists>bs. w' = w\<lparr>faults := bs\<rparr>) \<and> (\<forall>b. r = Inr b \<longrightarrow> dget w k = Some b)"
  proof (cases "goodKey k \<and> dget w k \<noteq> None")
    case True
    with assms show ?thesis
      by (auto simp: fs_Open_def pathFor_good bindM_def ret_def getM_def run_iffs elim!: thenM_cases ioM_run)
  next
    case False
    with assms have "w' = w \<and> (\<forall>b. r \<noteq> Inr b)"
      by (auto simp: fs_Open_def pathFor_good_iff run_iffs split: if_splits elim!: bindM_cases)
    then show ?thesis by (auto intro: exI [of _ "faults w"])
  qed
  then show ?thesis using that by blast
qed

lemma OpenChunkStored_run:
  assumes run: "OpenChunkStored h w = (r, w')"
  obtains bs where "w' = w\<lparr>faults := bs\<rparr>" "\<And>st cmp n. r = Inr (st, cmp, n) \<Longrightarrow>
    (\<exists>c. chunk_of (chunks w) h = Some c \<and> dget w (c_key c) = Some st \<and> cmp = c_comp c \<and> n = c_size c)"
  using run unfolding OpenChunkStored_def
proof (elim bindM_cases selectM_run, goal_cases)
  case (1 e bs)
  then show ?case by auto
next
  case (2 row t bs)
  show ?case
  proof (cases row)
    case None
    with 2 show ?thesis by (auto simp: run_iffs)
  next
    case (Some c)
    with 2 have c: "chunk_of (chunks w) h = Some c" by auto
    from 2 Some have "bindM (catchM (fs_Open (c_key c)) (\<lambda>e. if errors_Is e ErrBlobNotFound
        then raise ErrChunkNotFound else raise e)) (\<lambda>f. ret (f, c_comp c, c_size c)) t = (r, w')"
      by simp
    then obtain q where o: "fs_Open (c_key c) t = (q, w')"
      and r: "\<forall>st cmp n. r = Inr (st, cmp, n) \<longrightarrow> q = Inr st \<and> cmp = c_comp c \<and> n = c_size c"
      by (elim bindM_cases catchM_run) (auto simp: run_iffs split: if_splits)
    from o obtain bs' where "w' = t\<lparr>faults := bs'\<rparr>" "\<And>b. q = Inr b \<Longrightarrow> dget t (c_key c) = Some b"
      by (rule fs_Open_run) blast
    with 2 r c show ?thesis by auto
  qed
qed

lemma ReadChunkStored_run:
  assumes run: "ReadChunkStored h w = (r, w')"
  obtains bs where "w' = w\<lparr>faults := bs\<rparr>" "\<And>st cmp n. r = Inr (st, cmp, n) \<Longrightarrow>
    (\<exists>c. chunk_of (chunks w) h = Some c \<and> dget w (c_key c) = Some st \<and> cmp = c_comp c \<and> n = c_size c)"
  using run unfolding ReadChunkStored_def
proof (elim bindM_cases OpenChunkStored_run, goal_cases)
  case (1 e bs)
  then show ?case by auto
next
  case (2 y t bs)
  then obtain st cmp n where y: "y = (st, cmp, n)" by (cases y)
  with 2 have "thenM (ioM (Io ''read chunk'')) (ret (st, cmp, n)) t = (r, w')" by simp
  then obtain bs' where "w' = t\<lparr>faults := bs'\<rparr>" "\<And>z. r = Inr z \<Longrightarrow> z = (st, cmp, n)"
    by (auto elim!: thenM_cases ioM_run simp: run_iffs)
  with 2 y show ?case by auto
qed

section \<open>Manifest commits\<close>

text \<open>
  The verification succeeds only on chunks that are stored, hash to their own address, and compose a
  file with the declared hash.
\<close>

lemma verify_run:
  assumes run: "verifyContentHash x expected hashes w = (r, w')"
  shows "\<exists>bs. w' = w\<lparr>faults := bs\<rparr>"
    and "r = Inr u \<Longrightarrow> \<exists>ps. map (content x (dget w) (chunks w)) hashes = map Some ps
      \<and> map (blake3 x) ps = hashes \<and> expected = blake3 x (concat ps)"
proof -
  let ?J = "\<lambda>hs whole v. (\<exists>bs. v = w\<lparr>faults := bs\<rparr>) \<and>
     (\<exists>ps. map (content x (dget w) (chunks w)) hs = map Some ps \<and> map (blake3 x) ps = hs
       \<and> whole = concat ps)"
  have fold: "case q of Inl e \<Rightarrow> (\<exists>bs. v = w\<lparr>faults := bs\<rparr>) | Inr whole \<Rightarrow> ?J hashes whole v"
    if "foldM (verify_step x) [] hashes w = (q, v)" for q v
    using that
  proof (rule foldM_run)
    show "?J [] [] w" by (auto intro: exI [of _ "faults w"])
  next
    fix ys h zs whole t q v
    assume J: "?J ys whole t" and step: "verify_step x whole h t = (q, v)"
    then obtain bs ps where t: "t = w\<lparr>faults := bs\<rparr>" and ps: "map (content x (dget w) (chunks w)) ys = map Some ps"
      "map (blake3 x) ps = ys" "whole = concat ps" by blast
    from step obtain s where read: "ReadChunkStored h t = (s, v)"
      and q: "\<forall>whole'. q = Inr whole' \<longrightarrow> (\<exists>st cmp n plain. s = Inr (st, cmp, n) \<and>
          Decompress x st cmp n = Inr plain \<and> blake3 x plain = h \<and> whole' = whole @ plain)"
      unfolding verify_step_def
      by (auto elim!: bindM_cases simp: run_iffs split: sum.splits if_splits)
    from read obtain bs' where v: "v = t\<lparr>faults := bs'\<rparr>" "\<And>st cmp n. s = Inr (st, cmp, n) \<Longrightarrow>
        (\<exists>c. chunk_of (chunks t) h = Some c \<and> dget t (c_key c) = Some st \<and> cmp = c_comp c \<and> n = c_size c)"
      by (rule ReadChunkStored_run) blast
    show "case q of Inl e \<Rightarrow> (\<exists>bs. v = w\<lparr>faults := bs\<rparr>) | Inr whole \<Rightarrow> ?J (ys @ [h]) whole v"
    proof (cases q)
      case (Inl e)
      then show ?thesis using v t by auto
    next
      case (Inr whole')
      with q obtain st cmp n plain where s: "s = Inr (st, cmp, n)"
        "Decompress x st cmp n = Inr plain" "blake3 x plain = h" "whole' = whole @ plain" by blast
      from v(2) [OF s(1)] s(2) t have "content x (dget w) (chunks w) h = Some plain"
        by (auto simp: content_def)
      with ps s have "map (content x (dget w) (chunks w)) (ys @ [h]) = map Some (ps @ [plain]) \<and>
          map (blake3 x) (ps @ [plain]) = ys @ [h] \<and> whole' = concat (ps @ [plain])" by simp
      then have "\<exists>ps. map (content x (dget w) (chunks w)) (ys @ [h]) = map Some ps \<and>
          map (blake3 x) ps = ys @ [h] \<and> whole' = concat ps" by blast
      with Inr v(1) t show ?thesis by simp
    qed
  qed
  from run show "\<exists>bs. w' = w\<lparr>faults := bs\<rparr>"
    unfolding verifyContentHash_def
    by (elim bindM_cases) (auto simp: run_iffs dest!: fold)
  assume "r = Inr u"
  with run show "\<exists>ps. map (content x (dget w) (chunks w)) hashes = map Some ps
      \<and> map (blake3 x) ps = hashes \<and> expected = blake3 x (concat ps)"
    unfolding verifyContentHash_def
    by (elim bindM_cases) (auto simp: run_iffs dest!: fold split: if_splits)
qed

lemma layout_offsets:
  assumes "list_all2 (\<lambda>h p. sizes h = Some (int (length p))) hs ps"
  shows "layout sizes n hs = Some (offsets n ps, n + int (length (concat ps)))"
  using assms by (induction hs ps arbitrary: n rule: list_all2_induct) auto

lemma map_of_rev_distinct: "distinct (map fst kv) \<Longrightarrow> map_of (rev kv) = map_of kv"
  by (rule map_of_inject_set [THEN iffD2]) (simp_all add: rev_map [symmetric])

lemma map_of_sizes:
  "h \<in> H \<Longrightarrow> map_of (map (\<lambda>c. (c_hash c, c_size c)) (filter (\<lambda>c. c_hash c \<in> H) cs)) h
     = map_option c_size (chunk_of cs h)"
  unfolding chunk_of_def by (induction cs) auto

lemma size_lookup:
  assumes inv: "cas_inv x U w" and h: "h \<in> H"
  shows "map_of (rev (map (\<lambda>c. (copy32 (c_hash c), c_size c)) (filter (\<lambda>c. c_hash c \<in> H) (chunks w)))) h
    = map_option c_size (chunk_of (chunks w) h)"
proof -
  have len: "c \<in> set (chunks w) \<Longrightarrow> length (c_hash c) = 32" for c
    using inv unfolding cas_inv_def cas_ok_def chunk_ok_def crypto_ok_def by metis
  have d: "distinct (map c_hash (chunks w))" using inv by (simp add: cas_inv_def cas_ok_def)
  let ?kv = "map (\<lambda>c. (copy32 (c_hash c), c_size c)) (filter (\<lambda>c. c_hash c \<in> H) (chunks w))"
  have kv: "?kv = map (\<lambda>c. (c_hash c, c_size c)) (filter (\<lambda>c. c_hash c \<in> H) (chunks w))"
    using len by simp
  have dk: "distinct (map fst ?kv)" unfolding kv using d by (simp add: comp_def distinct_map_filter)
  have "map_of (rev ?kv) h = map_of ?kv h"
    by (simp only: map_of_rev_distinct [OF dk])
  also have "\<dots> = map_option c_size (chunk_of (chunks w) h)"
    unfolding kv using h by (rule map_of_sizes)
  finally show ?thesis .
qed


lemma content_size:
  assumes inv: "cas_inv x U w" and c: "content x (dget w) (chunks w) h = Some p"
  shows "map_option c_size (chunk_of (chunks w) h) = Some (int (length p))"
proof -
  obtain c where c1: "chunk_of (chunks w) h = Some c" using c
    by (auto simp: content_def split: option.splits)
  have "zstd_ok x U" "chunk_ok x U (dget w) c"
    using inv chunk_of_Some [OF c1] cas_ok_chunk by (auto simp: cas_inv_def crypto_ok_def)
  from content_chunk [OF this(1) c1 this(2)] obtain q where "content x (dget w) (chunks w) h = Some q"
    "c_size c = int (length q)" by metis
  with c c1 show ?thesis by simp
qed

lemma commit_layout:
  assumes inv: "cas_inv x U w" and ps: "map (content x (dget w) (chunks w)) hashes = map Some ps"
  shows "layout (map_of (rev (map (\<lambda>c. (copy32 (c_hash c), c_size c))
      (filter (\<lambda>c. c_hash c \<in> set hashes) (chunks w))))) 0 hashes
    = Some (offsets 0 ps, int (length (concat ps)))"
proof -
  have "list_all2 (\<lambda>h p. map_option c_size (chunk_of (chunks w) h) = Some (int (length p))) hashes ps"
    using ps content_size [OF inv] by (auto simp: list_all2_conv_all_nth map_equality_iff)
  then have "list_all2 (\<lambda>h p. map_of (rev (map (\<lambda>c. (copy32 (c_hash c), c_size c))
      (filter (\<lambda>c. c_hash c \<in> set hashes) (chunks w)))) h = Some (int (length p))) hashes ps"
    using size_lookup [OF inv] by (auto simp: list_all2_conv_all_nth)
  from layout_offsets [OF this, of 0] show ?thesis by simp
qed

text \<open>The lookup and the transaction both upload paths end with.\<close>

lemma reuse_or_record:
  assumes inv: "cas_inv x U t" and ps: "map (content x (dget t) (chunks t)) hashes = map Some ps"
    and run: "bindM (find_live_manifest (blake3 x (concat ps)) (int (length (concat ps))) (int (length ps)))
       (\<lambda>existing. case existing of
          Some mid \<Rightarrow> ret (f mid, True)
        | None \<Rightarrow> bindM (withTx (record_manifest (int (length (concat ps))) (int (length ps))
            (blake3 x (concat ps)) (zip hashes (offsets 0 ps)))) (\<lambda>i. ret (f i, False))) t = (r, w')"
  shows "cas_inv x U w' \<and> (\<forall>v. r = Inr v \<longrightarrow> (\<exists>i b. v = (f i, b) \<and>
    (no_clash x t (concat ps) \<longrightarrow> stands_for x w' i (concat ps))))"
  using run
proof (elim bindM_cases find_live_run, goal_cases)
  case (1 e bs)
  then show ?case using inv by simp
next
  case (2 existing t1 bs)
  show ?case
  proof (cases existing)
    case (Some i)
    with 2 obtain m where "m \<in> set (manifests t)" "mf_id m = i" "mf_hash m = blake3 x (concat ps)"
      by blast
    with reuse_content [of x t "concat ps" m] 2 Some inv show ?thesis by (auto simp: run_iffs)
  next
    case None
    have t1: "cas_inv x U t1" using 2 inv by simp
    have tx: "cas_inv x U v \<and> (\<forall>i. q = Inr i \<longrightarrow> stands_for x v i (concat ps))"
      if "withTx (record_manifest (int (length (concat ps))) (int (length ps))
        (blake3 x (concat ps)) (zip hashes (offsets 0 ps))) t1 = (q, v)" for q v
      using t1 that
    proof (rule withTx_cas)
      fix bs' q t2 assume rec: "record_manifest (int (length (concat ps))) (int (length ps))
        (blake3 x (concat ps)) (zip hashes (offsets 0 ps)) (t1\<lparr>faults := bs'\<rparr>) = (q, t2)"
      have "cas_inv x U (t1\<lparr>faults := bs'\<rparr>)"
        "map (content x (dget (t1\<lparr>faults := bs'\<rparr>)) (chunks (t1\<lparr>faults := bs'\<rparr>))) hashes = map Some ps"
        using t1 2 ps by simp_all
      from record_run [OF this rec] show "tx_frame t1 t2 \<and> (\<forall>i. q = Inr i \<longrightarrow> cas_inv x U t2 \<and>
          stands_for x t2 i (concat ps))"
        by (auto simp: tx_frame_def)
    qed simp
    from 2(1) None have "bindM (withTx (record_manifest (int (length (concat ps))) (int (length ps))
        (blake3 x (concat ps)) (zip hashes (offsets 0 ps)))) (\<lambda>i. ret (f i, False)) t1 = (r, w')"
      by simp
    then show ?thesis by (cases rule: bindM_cases) (auto simp: run_iffs dest!: tx)
  qed
qed

text \<open>
  What a committed manifest is: the chunks the caller named are all stored, compose a file with the
  declared hash, and the manifest that comes back stands for that file.
\<close>

lemma CommitManifest_run:
  assumes inv: "cas_inv x U w" and run: "CommitManifest x contentHash hashes w = (r, w')"
  shows "cas_inv x U w'"
    and "r = Inr (mf, reused) \<Longrightarrow> \<exists>ps. map (content x (dget w) (chunks w)) hashes = map Some ps \<and>
      contentHash = blake3 x (concat ps) \<and> M_TotalSize mf = int (length (concat ps)) \<and>
      M_ChunkCount mf = int (length hashes) \<and>
      (no_clash x w (concat ps) \<longrightarrow> stands_for x w' (M_ID mf) (concat ps))"
proof -
  let ?C = "\<lambda>ps. map (content x (dget w) (chunks w)) hashes = map Some ps \<and>
      contentHash = blake3 x (concat ps)"
  let ?Q = "\<lambda>v. \<forall>mf reused. r = Inr (mf, reused) \<longrightarrow> (\<exists>ps. ?C ps \<and>
      M_TotalSize mf = int (length (concat ps)) \<and> M_ChunkCount mf = int (length hashes) \<and>
      (no_clash x w (concat ps) \<longrightarrow> stands_for x v (M_ID mf) (concat ps)))"
  have "cas_inv x U w' \<and> ?Q w'"
  proof (cases "length hashes = 0")
    case True
    then show ?thesis using run inv by (simp add: CommitManifest_def run_iffs)
  next
    case False
    from run [unfolded CommitManifest_def if_not_P [OF False]] show ?thesis
    proof (elim bindM_cases selectM_run, goal_cases)
      case (1 e bs)
      then show ?case using inv by auto
    next
      case (2 sizes t bs)
      then have sizes: "sizes = map (\<lambda>c. (copy32 (c_hash c), c_size c))
          (filter (\<lambda>c. c_hash c \<in> set hashes) (chunks w))" by simp
      have t: "cas_inv x U t" "t = w\<lparr>faults := bs\<rparr>" using inv 2 by simp_all
      show ?case
      proof (cases "layout (map_of (rev sizes)) 0 hashes")
        case None
        with 2 t show ?thesis by (auto simp: run_iffs)
      next
        case (Some ot)
        obtain offs tot where ot: "ot = (offs, tot)" by (cases ot)
        note tail = 2(1) [unfolded Some ot option.case prod.case Let_def]
        from tail show ?thesis
        proof (cases rule: thenM_cases)
          case (1 e)
          with verify_run(1) [OF 1(1)] t show ?thesis by auto
        next
          case (2 u v)
          from verify_run(2) [OF 2(1)] t(2) obtain ps where ps: "?C ps" by auto
          from verify_run(1) [OF 2(1)] t(2) obtain bs' where v: "v = w\<lparr>faults := bs'\<rparr>" by auto
          have len: "length hashes = length ps" using ps by (metis length_map)
          have "Some (offs, tot) = Some (offsets 0 ps, int (length (concat ps)))"
            using commit_layout [OF t(1), of hashes ps] ps Some sizes t(2) ot by simp
          then have ot': "offs = offsets 0 ps" "tot = int (length (concat ps))" by simp_all
          have "cas_inv x U v" "map (content x (dget v) (chunks v)) hashes = map Some ps"
            using inv ps v by simp_all
          note fin = reuse_or_record [OF this, where r = r and w' = w']
          have "no_clash x v = no_clash x w" by (rule ext) (simp add: no_clash_def v)
          with fin 2(2) ps len ot' show ?thesis by (fastforce simp: len)
        qed
      qed
    qed
  qed
  then show "cas_inv x U w'" and "r = Inr (mf, reused) \<Longrightarrow>
      \<exists>ps. map (content x (dget w) (chunks w)) hashes = map Some ps \<and>
      contentHash = blake3 x (concat ps) \<and> M_TotalSize mf = int (length (concat ps)) \<and>
      M_ChunkCount mf = int (length hashes) \<and>
      (no_clash x w (concat ps) \<longrightarrow> stands_for x w' (M_ID mf) (concat ps))" by auto
qed

end
