(* ===== verification/CasReader.thy ===== *)
theory CasReader
  imports CasDelta
begin

text \<open>
  The seekable reader over a manifest, \<open>server/internal/cas/reader.go\<close>: a window of one
  decompressed chunk, a lazily loaded list of chunk references, and the verification of every chunk
  against its address before a byte of it is served.
\<close>

section \<open>The reader\<close>

record mreader =
  r_manifest :: manifest
  r_pos :: int
  r_window :: string
  r_windowStart :: int
  r_windowValid :: bool
  r_refs :: "chunkRef list"
  r_refsFrom :: int
  r_refsValid :: bool
  r_closed :: bool

type_synonym rstate = "world \<times> mreader"

text \<open>A call that works on the server, and one that updates the reader.\<close>

definition onWorld :: "(world, 'a) m \<Rightarrow> (rstate, 'a) m" where
  "onWorld c = (\<lambda>(w, rd). case c w of (r, w') \<Rightarrow> (r, (w', rd)))"

definition setR :: "(mreader \<Rightarrow> mreader) \<Rightarrow> (rstate, unit) m" where
  "setR f = modM (\<lambda>(w, rd). (w, f rd))"

definition io_EOF :: goerr where
  "io_EOF = Sentinel ''EOF''"

definition cas_Open :: "nat \<Rightarrow> (world, mreader) m" where
  "cas_Open manifestID =
     bindM (GetManifest manifestID) (\<lambda>m.
     ret \<lparr>r_manifest = m, r_pos = 0, r_window = [], r_windowStart = 0, r_windowValid = False,
          r_refs = [], r_refsFrom = 0, r_refsValid = False, r_closed = False\<rparr>)"

definition load_refs :: "int \<Rightarrow> (rstate, unit) m" where
  "load_refs offset =
     bindM (getM snd) (\<lambda>r.
     bindM (wrapM ''load manifest chunks'' (onWorld (chunksFrom (M_ID (r_manifest r)) offset))) (\<lambda>refs.
     if refs = [] then raise io_EOF
     else setR (\<lambda>r. r\<lparr>r_refs := refs, r_refsFrom := offset, r_refsValid := True\<rparr>)))"

definition loadWindowFor :: "ext \<Rightarrow> int \<Rightarrow> (rstate, unit) m" where
  "loadWindowFor x offset =
     bindM (getM snd) (\<lambda>r.
     thenM (if \<not> r_refsValid r \<or> offset < r_refsFrom r \<or> r_refs r = [] then load_refs offset
            else ret ())
     (bindM (getM snd) (\<lambda>r.
      bindM (case find (\<lambda>c. offset \<ge> cr_offset c \<and> offset < cr_offset c + cr_size c) (r_refs r) of
               Some c \<Rightarrow> ret c
             | None \<Rightarrow> thenM (load_refs offset) (getM (\<lambda>(_, r). hd (r_refs r)))) (\<lambda>target.
      bindM (wrapM ''chunk is missing from storage'' (onWorld (fs_Open (cr_storageKey target)))) (\<lambda>stored.
      thenM (onWorld (ioM (Io ''read chunk'')))
      (case Decompress x stored (cr_compression target) (cr_size target) of
         Inl e \<Rightarrow> raise e
       | Inr plain \<Rightarrow>
           if int (length plain) \<noteq> cr_size target then raise (Msg ''unexpected decompressed size'')
           else if blake3 x plain \<noteq> cr_hash target then raise (Msg ''chunk failed verification'')
           else setR (\<lambda>r. r\<lparr>r_window := plain, r_windowStart := cr_offset target,
                              r_windowValid := True\<rparr>)))))))"

text \<open>\<open>Read(p)\<close> for a buffer of \<open>n\<close> bytes; the result is what was copied into it.\<close>

definition mr_Read :: "ext \<Rightarrow> nat \<Rightarrow> (rstate, string) m" where
  "mr_Read x n =
     bindM (getM snd) (\<lambda>r.
     if r_closed r then raise (Msg ''read after close'')
     else if r_pos r \<ge> M_TotalSize (r_manifest r) then raise io_EOF
     else
       thenM (onWorld (ioM (Io ''context canceled'')))
       (thenM (if \<not> r_windowValid r \<or> r_pos r < r_windowStart r
                  \<or> r_pos r \<ge> r_windowStart r + int (length (r_window r))
               then loadWindowFor x (r_pos r) else ret ())
       (bindM (getM snd) (\<lambda>r.
        let out = take n (drop (nat (r_pos r - r_windowStart r)) (r_window r))
        in thenM (setR (\<lambda>r. r\<lparr>r_pos := r_pos r + int (length out)\<rparr>)) (ret out)))))"

datatype whence = SeekStart | SeekCurrent | SeekEnd | SeekOther

definition mr_Seek :: "int \<Rightarrow> whence \<Rightarrow> (rstate, int) m" where
  "mr_Seek offset wh =
     bindM (getM snd) (\<lambda>r.
     if r_closed r then raise (Msg ''seek after close'')
     else bindM (case wh of
            SeekStart \<Rightarrow> ret offset
          | SeekCurrent \<Rightarrow> ret (r_pos r + offset)
          | SeekEnd \<Rightarrow> ret (M_TotalSize (r_manifest r) + offset)
          | SeekOther \<Rightarrow> raise (Msg ''invalid whence'')) (\<lambda>pos.
        if pos < 0 then raise (Msg ''negative position'')
        else thenM (setR (\<lambda>r. r\<lparr>r_pos := pos\<rparr>)) (ret pos)))"

definition mr_Close :: "(rstate, unit) m" where
  "mr_Close = setR (\<lambda>r. r\<lparr>r_closed := True, r_window := [], r_refs := []\<rparr>)"

text \<open>
  How \<open>io.Copy\<close> and \<open>http.ServeContent\<close> use it: reads until the end of the file, with a bound on
  the number of reads.
\<close>

fun read_all :: "ext \<Rightarrow> nat \<Rightarrow> nat \<Rightarrow> (rstate, string) m" where
  "read_all x n 0 = raise (Msg ''out of fuel'')"
| "read_all x n (Suc k) =
     bindM (tryM (mr_Read x n)) (\<lambda>r. case r of
       Inl e \<Rightarrow> (if e = io_EOF then ret [] else raise e)
     | Inr out \<Rightarrow> bindM (read_all x n k) (\<lambda>rest. ret (out @ rest)))"

section \<open>Chunk lists and files\<close>

lemma offsets_nth: "k < length ps \<Longrightarrow> offsets n ps ! k = n + int (length (concat (take k ps)))"
proof (induction ps arbitrary: n k)
  case (Cons p ps)
  then show ?case by (cases k) auto
qed simp

text \<open>Every position of a file lies in one of its chunks.\<close>

lemma cover:
  assumes "n < length (concat ps)"
  obtains k where "k < length ps" "length (concat (take k ps)) \<le> n"
    "n < length (concat (take k ps)) + length (ps ! k)"
proof -
  have "\<exists>k < length ps. length (concat (take k ps)) \<le> n \<and> n < length (concat (take k ps)) + length (ps ! k)"
    using assms
  proof (induction ps arbitrary: n)
    case (Cons p ps)
    show ?case
    proof (cases "n < length p")
      case True
      then show ?thesis by (intro exI [of _ 0]) simp
    next
      case False
      with Cons.prems have "n - length p < length (concat ps)" by simp
      with Cons.IH obtain k where "k < length ps" "length (concat (take k ps)) \<le> n - length p"
        "n - length p < length (concat (take k ps)) + length (ps ! k)" by blast
      with False show ?thesis by (intro exI [of _ "Suc k"]) auto
    qed
  qed simp
  then show ?thesis using that by blast
qed

lemma drop_in_chunk:
  assumes "k < length ps" "length (concat (take k ps)) \<le> n"
    "n \<le> length (concat (take k ps)) + length (ps ! k)"
  shows "drop n (concat ps) = drop (n - length (concat (take k ps))) (ps ! k) @ concat (drop (Suc k) ps)"
proof -
  have "concat ps = concat (take k ps) @ ps ! k @ concat (drop (Suc k) ps)"
    using assms(1) by (metis append_take_drop_id concat.simps(2) concat_append Cons_nth_drop_Suc)
  then show ?thesis using assms by simp
qed

section \<open>What the tables say about a manifest\<close>

definition ref_of :: "mchunk_row \<times> chunk_row \<Rightarrow> chunkRef" where
  "ref_of mc = \<lparr>cr_hash = copy32 (c_hash (snd mc)), cr_storageKey = c_key (snd mc),
     cr_size = c_size (snd mc), cr_compression = c_comp (snd mc), cr_offset = mc_offset (fst mc)\<rparr>"

text \<open>
  The rows of manifest \<open>i\<close> describe the pieces \<open>ps\<close> (hash, size and position of each), whatever is
  on the disk; and what the disk holds in place of a piece is not a BLAKE3 collision with it.
\<close>

definition describes :: "ext \<Rightarrow> world \<Rightarrow> nat \<Rightarrow> string list \<Rightarrow> bool" where
  "describes x w i ps \<longleftrightarrow>
     list_all2 (\<lambda>r p. cr_hash r = blake3 x p \<and> cr_size r = int (length p) \<and> p \<noteq> [])
       (map ref_of (joined w i)) ps \<and>
     map cr_offset (map ref_of (joined w i)) = offsets 0 ps"

definition no_collision :: "ext \<Rightarrow> world \<Rightarrow> nat \<Rightarrow> string list \<Rightarrow> bool" where
  "no_collision x w i ps \<longleftrightarrow> list_all2 (\<lambda>r p.
     (case dget w (cr_storageKey r) of
        None \<Rightarrow> True
      | Some bs \<Rightarrow>
          (case Decompress x bs (cr_compression r) (cr_size r) of
             Inl _ \<Rightarrow> True
           | Inr q \<Rightarrow> blake3 x q = blake3 x p \<longrightarrow> q = p)))
     (map ref_of (joined w i)) ps"

lemma joined_faults [simp]: "joined (w\<lparr>faults := bs\<rparr>) i = joined w i"
  by (simp add: joined_def)

lemma describes_faults [simp]: "describes x (w\<lparr>faults := bs\<rparr>) i ps = describes x w i ps"
  by (simp add: describes_def)

lemma no_collision_faults [simp]: "no_collision x (w\<lparr>faults := bs\<rparr>) i ps = no_collision x w i ps"
  by (simp add: no_collision_def)

lemma onWorld_run:
  assumes "onWorld c (w, rd) = (r, s')"
  obtains w' where "c w = (r, w')" "s' = (w', rd)"
  using assms by (auto simp: onWorld_def split: prod.splits)

text \<open>
  What a reader over the pieces \<open>ps\<close> knows: its window is one of them, and its references are those
  of the chunks that end after \<open>r_refsFrom\<close>.
\<close>

definition reader_ok :: "world \<Rightarrow> nat \<Rightarrow> string list \<Rightarrow> mreader \<Rightarrow> bool" where
  "reader_ok w i ps r \<longleftrightarrow>
     M_ID (r_manifest r) = i \<and> M_TotalSize (r_manifest r) = int (length (concat ps)) \<and> 0 \<le> r_pos r \<and>
     (r_windowValid r \<longrightarrow> (\<exists>k < length ps. r_window r = ps ! k \<and>
        r_windowStart r = int (length (concat (take k ps))))) \<and>
     (r_refsValid r \<longrightarrow> r_refs r = filter (\<lambda>c. cr_offset c + cr_size c > r_refsFrom r)
        (map ref_of (joined w i)))"

lemma reader_ok_faults [simp]: "reader_ok (w\<lparr>faults := bs\<rparr>) i ps r = reader_ok w i ps r"
  by (simp add: reader_ok_def)

lemma chunksFrom_run:
  assumes "chunksFrom i start w = (r, w')"
  obtains bs where "w' = w\<lparr>faults := bs\<rparr>"
    "r = Inr (filter (\<lambda>c. cr_offset c + cr_size c > start) (map ref_of (joined w i))) \<or> r = Inl db_err"
proof -
  have "map (\<lambda>(m, c). \<lparr>cr_hash = copy32 (c_hash c), cr_storageKey = c_key c,
         cr_size = c_size c, cr_compression = c_comp c, cr_offset = mc_offset m\<rparr>)
       (filter (\<lambda>(m, c). mc_offset m + c_size c > start) js) =
     filter (\<lambda>c. cr_offset c + cr_size c > start) (map ref_of js)" for js
    by (induction js) (auto simp: ref_of_def)
  then show ?thesis
    using assms that unfolding chunksFrom_def by (elim selectM_run) auto
qed

lemma ref_nth:
  assumes "describes x w i ps" "k < length ps"
  shows "cr_hash (map ref_of (joined w i) ! k) = blake3 x (ps ! k)"
    "cr_size (map ref_of (joined w i) ! k) = int (length (ps ! k))"
    "cr_offset (map ref_of (joined w i) ! k) = int (length (concat (take k ps)))"
proof -
  have l: "length (map ref_of (joined w i)) = length ps"
    using assms(1) unfolding describes_def by (blast dest: list_all2_lengthD)
  show "cr_hash (map ref_of (joined w i) ! k) = blake3 x (ps ! k)"
    "cr_size (map ref_of (joined w i) ! k) = int (length (ps ! k))"
    using assms l unfolding describes_def by (blast dest: list_all2_nthD2)+
  have "cr_offset (map ref_of (joined w i) ! k) = map cr_offset (map ref_of (joined w i)) ! k"
    using l assms(2) by simp
  also have "\<dots> = int (length (concat (take k ps)))"
    using assms unfolding describes_def by (simp add: offsets_nth)
  finally show "cr_offset (map ref_of (joined w i) ! k) = int (length (concat (take k ps)))" .
qed

text \<open>A reference that covers a position is that of the chunk the position lies in.\<close>

lemma covering_ref:
  assumes d: "describes x w i ps" and c: "c \<in> set (map ref_of (joined w i))"
    and nc: "no_collision x w i ps"
  obtains k where "k < length ps" "cr_hash c = blake3 x (ps ! k)" "cr_size c = int (length (ps ! k))"
    "cr_offset c = int (length (concat (take k ps)))"
    "\<forall>bs q. dget w (cr_storageKey c) = Some bs \<longrightarrow> Decompress x bs (cr_compression c) (cr_size c) = Inr q
      \<longrightarrow> blake3 x q = blake3 x (ps ! k) \<longrightarrow> q = ps ! k"
proof -
  have l: "length (map ref_of (joined w i)) = length ps"
    using d unfolding describes_def by (blast dest: list_all2_lengthD)
  from c obtain k where k: "k < length ps" "map ref_of (joined w i) ! k = c"
    unfolding in_set_conv_nth l by blast
  have "q = ps ! k" if "dget w (cr_storageKey c) = Some bs"
      "Decompress x bs (cr_compression c) (cr_size c) = Inr q" "blake3 x q = blake3 x (ps ! k)" for bs q
    using list_all2_nthD2 [OF nc [unfolded no_collision_def] k(1)] that k(2) by simp
  with ref_nth [OF d k(1)] k(1) show ?thesis unfolding k(2) by (intro that [of k]) blast+
qed


section \<open>One read\<close>

lemma load_refs_run:
  assumes ok: "reader_ok w i ps rd" and run: "load_refs off (w, rd) = (r, s')"
  obtains bs rd' where "s' = (w\<lparr>faults := bs\<rparr>, rd')" "reader_ok w i ps rd'" "r_pos rd' = r_pos rd"
    "r_closed rd' = r_closed rd"
    "\<And>u. r = Inr u \<Longrightarrow> r_refs rd' = filter (\<lambda>c. cr_offset c + cr_size c > off) (map ref_of (joined w i))"
    "r = Inl io_EOF \<Longrightarrow> filter (\<lambda>c. cr_offset c + cr_size c > off) (map ref_of (joined w i)) = []"
proof -
  have i: "M_ID (r_manifest rd) = i" using ok by (simp add: reader_ok_def)
  let ?refs = "filter (\<lambda>c. cr_offset c + cr_size c > off) (map ref_of (joined w i))"
  let ?rd = "rd\<lparr>r_refs := ?refs, r_refsFrom := off, r_refsValid := True\<rparr>"
  have ok': "reader_ok w i ps ?rd" using ok by (simp add: reader_ok_def)
  from run consider e where "r = Inl (Wrap ''load manifest chunks'' e)" "\<exists>bs. s' = (w\<lparr>faults := bs\<rparr>, rd)"
    | "r = Inl io_EOF" "\<exists>bs. s' = (w\<lparr>faults := bs\<rparr>, rd)" "?refs = []"
    | u where "r = Inr u" "\<exists>bs. s' = (w\<lparr>faults := bs\<rparr>, ?rd)"
    unfolding load_refs_def bindM_getM snd_conv i
    by (elim bindM_cases) (auto simp: wrap_iffs setR_def run_iffs elim!: onWorld_run chunksFrom_run
        split: if_splits dest: sym [of "[]"])
  then show ?thesis
    by cases (use that ok ok' in \<open>auto simp: io_EOF_def\<close>)
qed

lemma find_covering:
  assumes d: "describes x w i ps" and off: "0 \<le> off" "off < int (length (concat ps))"
    and from_le: "start \<le> off"
  obtains c where "find (\<lambda>c. off \<ge> cr_offset c \<and> off < cr_offset c + cr_size c)
      (filter (\<lambda>c. cr_offset c + cr_size c > start) (map ref_of (joined w i))) = Some c"
    "c \<in> set (map ref_of (joined w i))" "cr_offset c \<le> off" "off < cr_offset c + cr_size c"
proof -
  let ?refs = "filter (\<lambda>c. cr_offset c + cr_size c > start) (map ref_of (joined w i))"
  have l: "length (map ref_of (joined w i)) = length ps"
    using d unfolding describes_def by (blast dest: list_all2_lengthD)
  obtain k where k: "k < length ps" "length (concat (take k ps)) \<le> nat off"
    "nat off < length (concat (take k ps)) + length (ps ! k)"
    using off by (auto intro: cover [of "nat off" ps])
  let ?c = "map ref_of (joined w i) ! k"
  have "?c \<in> set (map ref_of (joined w i))" using l k(1) by (metis nth_mem)
  moreover have cov: "cr_offset ?c \<le> off" "off < cr_offset ?c + cr_size ?c"
    using ref_nth [OF d k(1)] k off by simp_all
  ultimately have "?c \<in> set ?refs" using from_le by simp
  then have "find (\<lambda>c. off \<ge> cr_offset c \<and> off < cr_offset c + cr_size c) ?refs \<noteq> None"
    using cov unfolding find_None_all by blast
  then obtain c where c: "find (\<lambda>c. off \<ge> cr_offset c \<and> off < cr_offset c + cr_size c) ?refs = Some c"
    by blast
  from find_Some_set [OF c] c show ?thesis by (intro that [of c]) auto
qed

lemma Decompress_not_EOF: "Decompress x st cmp n \<noteq> Inl io_EOF"
  by (auto simp: Decompress_def io_EOF_def split: option.splits)

lemma loadWindowFor_run:
  assumes d: "describes x w i ps" and nc: "no_collision x w i ps" and ok: "reader_ok w i ps rd"
    and off: "0 \<le> off" "off < int (length (concat ps))"
    and run: "loadWindowFor x off (w, rd) = (r, s')"
  obtains bs rd' where "s' = (w\<lparr>faults := bs\<rparr>, rd')" "reader_ok w i ps rd'" "r_pos rd' = r_pos rd"
    "r_closed rd' = r_closed rd" "r \<noteq> Inl io_EOF"
    "\<And>u. r = Inr u \<Longrightarrow> r_windowValid rd' \<and> r_windowStart rd' \<le> off
       \<and> off < r_windowStart rd' + int (length (r_window rd'))"
proof -
  let ?refs = "\<lambda>st. filter (\<lambda>c. cr_offset c + cr_size c > st) (map ref_of (joined w i))"
  have ne: "?refs off \<noteq> []"
    using find_covering [OF d off order.refl] by (metis find.simps(1) option.distinct(1))
  let ?tail = "bindM (getM snd) (\<lambda>r.
      bindM (case find (\<lambda>c. off \<ge> cr_offset c \<and> off < cr_offset c + cr_size c) (r_refs r) of
               Some c \<Rightarrow> ret c
             | None \<Rightarrow> thenM (load_refs off) (getM (\<lambda>(_, r). hd (r_refs r)))) (\<lambda>target.
      bindM (wrapM ''chunk is missing from storage'' (onWorld (fs_Open (cr_storageKey target)))) (\<lambda>stored.
      thenM (onWorld (ioM (Io ''read chunk'')))
      (case Decompress x stored (cr_compression target) (cr_size target) of
         Inl e \<Rightarrow> raise e
       | Inr plain \<Rightarrow>
           if int (length plain) \<noteq> cr_size target then raise (Msg ''unexpected decompressed size'')
           else if blake3 x plain \<noteq> cr_hash target then raise (Msg ''chunk failed verification'')
           else setR (\<lambda>r. r\<lparr>r_window := plain, r_windowStart := cr_offset target,
                              r_windowValid := True\<rparr>)))))"
  have tail: "\<exists>bs rd'. s' = (w\<lparr>faults := bs\<rparr>, rd') \<and> reader_ok w i ps rd' \<and> r_pos rd' = r_pos rd1 \<and>
      r_closed rd' = r_closed rd1 \<and> r \<noteq> Inl io_EOF \<and> (\<forall>u. r = Inr u \<longrightarrow> r_windowValid rd' \<and>
        r_windowStart rd' \<le> off \<and> off < r_windowStart rd' + int (length (r_window rd')))"
    if t: "?tail (w\<lparr>faults := bs1\<rparr>, rd1) = (r, s')" and ok1: "reader_ok w i ps rd1"
      and refs: "r_refs rd1 = ?refs st" and st: "st \<le> off" for bs1 rd1 st
  proof -
    obtain c where c: "find (\<lambda>c. off \<ge> cr_offset c \<and> off < cr_offset c + cr_size c) (r_refs rd1) = Some c"
      "c \<in> set (map ref_of (joined w i))" "cr_offset c \<le> off" "off < cr_offset c + cr_size c"
      unfolding refs by (rule find_covering [OF d off st])
    obtain k where k: "k < length ps" "cr_hash c = blake3 x (ps ! k)" "cr_size c = int (length (ps ! k))"
      "cr_offset c = int (length (concat (take k ps)))" and hon: "\<forall>bs q. dget w (cr_storageKey c) = Some bs \<longrightarrow>
        Decompress x bs (cr_compression c) (cr_size c) = Inr q \<longrightarrow> blake3 x q = blake3 x (ps ! k) \<longrightarrow> q = ps ! k"
      by (rule covering_ref [OF d c(2) nc])
    let ?rd = "rd1\<lparr>r_window := ps ! k, r_windowStart := cr_offset c, r_windowValid := True\<rparr>"
    have ok2: "reader_ok w i ps ?rd" using ok1 k by (auto simp: reader_ok_def)
    from t have "bindM (wrapM ''chunk is missing from storage'' (onWorld (fs_Open (cr_storageKey c)))) (\<lambda>stored.
      thenM (onWorld (ioM (Io ''read chunk'')))
      (case Decompress x stored (cr_compression c) (cr_size c) of
         Inl e \<Rightarrow> raise e
       | Inr plain \<Rightarrow>
           if int (length plain) \<noteq> cr_size c then raise (Msg ''unexpected decompressed size'')
           else if blake3 x plain \<noteq> cr_hash c then raise (Msg ''chunk failed verification'')
           else setR (\<lambda>r. r\<lparr>r_window := plain, r_windowStart := cr_offset c,
                              r_windowValid := True\<rparr>))) (w\<lparr>faults := bs1\<rparr>, rd1) = (r, s')"
      by (simp only: bindM_getM snd_conv c(1) option.case bindM_ret)
    then have "(\<exists>bs. s' = (w\<lparr>faults := bs\<rparr>, rd1) \<and> (\<exists>e. r = Inl e \<and> e \<noteq> io_EOF)) \<or>
        (\<exists>bs. s' = (w\<lparr>faults := bs\<rparr>, ?rd) \<and> r = Inr ())"
    proof (cases rule: bindM_cases)
      case (1 e)
      then show ?thesis
        by (auto simp: wrap_iffs io_EOF_def elim!: onWorld_run fs_Open_run)
    next
      case (2 stored v)
      then obtain bs2 where v: "v = (w\<lparr>faults := bs2\<rparr>, rd1)" and bs: "dget w (cr_storageKey c) = Some stored"
        by (auto simp: wrap_iffs elim!: onWorld_run fs_Open_run)
      from 2(2) hon bs k(2) show ?thesis
        unfolding v
        by (elim thenM_cases onWorld_run ioM_run)
          (auto simp: run_iffs setR_def io_EOF_def Decompress_not_EOF [unfolded io_EOF_def]
            split: sum.splits if_splits)
    qed
    then show ?thesis using ok1 ok2 c k by auto
  qed
  from run have split: "thenM (if \<not> r_refsValid rd \<or> off < r_refsFrom rd \<or> r_refs rd = []
      then load_refs off else ret ()) ?tail (w, rd) = (r, s')"
    unfolding loadWindowFor_def bindM_getM snd_conv .
  show ?thesis
  proof (cases "\<not> r_refsValid rd \<or> off < r_refsFrom rd \<or> r_refs rd = []")
    case True
    from split [unfolded if_P [OF True]] show ?thesis
    proof (cases rule: thenM_cases)
      case (1 e)
      from ok 1(1) show ?thesis
        by (rule load_refs_run) (use that 1(2) ne in auto)
    next
      case (2 u t)
      from ok 2(1) obtain bs1 rd1 where "t = (w\<lparr>faults := bs1\<rparr>, rd1)" "reader_ok w i ps rd1"
        "r_pos rd1 = r_pos rd" "r_closed rd1 = r_closed rd" "r_refs rd1 = ?refs off"
        by (rule load_refs_run) blast
      with tail [of bs1 rd1 off] 2(2) that show ?thesis by auto
    qed
  next
    case False
    then have "r_refs rd = ?refs (r_refsFrom rd)" "r_refsFrom rd \<le> off"
      using ok by (auto simp: reader_ok_def)
    moreover from split [unfolded if_not_P [OF False] thenM_ret]
    have "?tail (w\<lparr>faults := faults w\<rparr>, rd) = (r, s')" by simp
    ultimately show ?thesis using tail [of "faults w" rd] ok that by auto
  qed
qed


lemma onWorld_ioM_run:
  assumes "onWorld (ioM e) (w, rd) = (r, s')"
  obtains bs where "s' = (w\<lparr>faults := bs\<rparr>, rd)" "r = Inr () \<or> r = Inl e"
  using assms by (auto elim!: onWorld_run ioM_run)

lemma mr_Read_run:
  assumes d: "describes x w i ps" and nc: "no_collision x w i ps" and ok: "reader_ok w i ps rd"
    and n: "0 < n" and run: "mr_Read x n (w, rd) = (r, s')"
  obtains bs rd' where "s' = (w\<lparr>faults := bs\<rparr>, rd')" "reader_ok w i ps rd'"
    "r_closed rd' = r_closed rd"
    "\<And>out. r = Inr out \<Longrightarrow> out \<noteq> [] \<and> length out \<le> n \<and>
       prefix out (drop (nat (r_pos rd)) (concat ps)) \<and> r_pos rd' = r_pos rd + int (length out)"
    "\<And>e. r = Inl e \<Longrightarrow> r_pos rd' = r_pos rd"
    "r = Inl io_EOF \<Longrightarrow> int (length (concat ps)) \<le> r_pos rd"
proof -
  note goal = that
  have tot: "M_TotalSize (r_manifest rd) = int (length (concat ps))" and pos: "0 \<le> r_pos rd"
    using ok by (simp_all add: reader_ok_def)
  consider "r_closed rd" | "\<not> r_closed rd" "int (length (concat ps)) \<le> r_pos rd"
    | "\<not> r_closed rd" "r_pos rd < int (length (concat ps))" by fastforce
  then show ?thesis
  proof cases
    case 1
    with run have "s' = (w, rd)" "r = Inl (Msg ''read after close'')"
      by (simp_all add: mr_Read_def bindM_getM run_iffs)
    then show ?thesis using ok by (intro that [of "faults w" rd]) (auto simp: io_EOF_def)
  next
    case 2
    with run tot have "s' = (w, rd)" "r = Inl io_EOF"
      by (simp_all add: mr_Read_def bindM_getM run_iffs)
    then show ?thesis using ok 2 by (intro that [of "faults w" rd]) auto
  next
    case 3
    let ?fin = "bindM (getM snd) (\<lambda>r.
        let out = take n (drop (nat (r_pos r - r_windowStart r)) (r_window r))
        in thenM (setR (\<lambda>r. r\<lparr>r_pos := r_pos r + int (length out)\<rparr>)) (ret out))"
    have fin: ?thesis if f: "?fin (w\<lparr>faults := bs1\<rparr>, rd1) = (r, s')" and ok1: "reader_ok w i ps rd1"
      and same: "r_pos rd1 = r_pos rd" "r_closed rd1 = r_closed rd"
      and win: "r_windowValid rd1" "r_windowStart rd1 \<le> r_pos rd"
        "r_pos rd < r_windowStart rd1 + int (length (r_window rd1))" for bs1 rd1
    proof -
      obtain k where k: "k < length ps" "r_window rd1 = ps ! k"
        "r_windowStart rd1 = int (length (concat (take k ps)))"
        using ok1 win(1) by (auto simp: reader_ok_def)
      let ?st = "length (concat (take k ps))"
      let ?d = "drop (nat (r_pos rd) - ?st) (ps ! k)"
      have nat: "nat (r_pos rd1 - r_windowStart rd1) = nat (r_pos rd) - ?st"
        using k same by (simp add: nat_diff_distrib)
      have dn: "drop (nat (r_pos rd)) (concat ps) = ?d @ concat (drop (Suc k) ps)"
        using win k pos by (intro drop_in_chunk) auto
      have "?d \<noteq> []" using win k pos by auto
      then have out: "take n ?d \<noteq> []" using n by simp
      have pre: "prefix (take n ?d) (drop (nat (r_pos rd)) (concat ps))"
        unfolding dn by (rule prefix_order.trans [OF take_is_prefix]) simp
      let ?rd = "rd1\<lparr>r_pos := r_pos rd1 + int (length (take n ?d))\<rparr>"
      have r: "r = Inr (take n ?d)" "s' = (w\<lparr>faults := bs1\<rparr>, ?rd)"
        using f by (auto simp: bindM_getM Let_def setR_def thenM_modM ret_def nat k(2))
      have "reader_ok w i ps ?rd" using ok1 by (auto simp: reader_ok_def)
      then show ?thesis
        by (intro goal [of bs1 ?rd]) (use r same pre out in auto)
    qed
    let ?c = "\<not> r_windowValid rd \<or> r_pos rd < r_windowStart rd
        \<or> r_windowStart rd + int (length (r_window rd)) \<le> r_pos rd"
    from run 3 tot have "thenM (onWorld (ioM (Io ''context canceled'')))
       (thenM (if ?c then loadWindowFor x (r_pos rd) else ret ()) ?fin) (w, rd) = (r, s')"
      by (simp only: mr_Read_def bindM_getM snd_conv if_False not_le [symmetric])
    then show ?thesis
    proof (cases rule: thenM_cases)
      case (1 e)
      from 1(1) show ?thesis
        by (rule onWorld_ioM_run) (use 1(2) ok in \<open>auto intro!: that simp: io_EOF_def\<close>)
    next
      case (2 u t)
      from 2(1) obtain bs1 where t: "t = (w\<lparr>faults := bs1\<rparr>, rd)" by (rule onWorld_ioM_run) blast
      show ?thesis
      proof (cases ?c)
        case False
        from 2(2) [unfolded if_not_P [OF False] thenM_ret] show ?thesis
          using fin [of bs1 rd] ok False t by auto
      next
        case True
        have pre: "describes x (w\<lparr>faults := bs1\<rparr>) i ps" "no_collision x (w\<lparr>faults := bs1\<rparr>) i ps"
          "reader_ok (w\<lparr>faults := bs1\<rparr>) i ps rd" using d nc ok by simp_all
        note load = loadWindowFor_run [OF pre pos 3(2)]
        from 2(2) [unfolded if_P [OF True] t] show ?thesis
        proof (cases rule: thenM_cases)
          case (1 e)
          from 1(1) show ?thesis
            by (rule load) (use 1(2) in \<open>auto intro!: that\<close>)
        next
          case (2 u t)
          from 2(1) obtain bs2 rd2 where "t = (w\<lparr>faults := bs2\<rparr>, rd2)" "reader_ok w i ps rd2"
            "r_pos rd2 = r_pos rd" "r_closed rd2 = r_closed rd" "r_windowValid rd2"
            "r_windowStart rd2 \<le> r_pos rd" "r_pos rd < r_windowStart rd2 + int (length (r_window rd2))"
            by (rule load) auto
          with fin [of bs2 rd2] 2(2) show ?thesis by auto
        qed
      qed
    qed
  qed
qed

text \<open>Reading to the end: whatever was returned is the rest of the file.\<close>

lemma read_all_run:
  assumes "describes x w i ps" "no_collision x w i ps" "reader_ok w i ps rd" "0 < n"
    and "read_all x n k (w, rd) = (Inr out, s')"
  shows "out = drop (nat (r_pos rd)) (concat ps)"
  using assms
proof (induction k arbitrary: w rd out)
  case 0
  then show ?case by (simp add: run_iffs)
next
  case (Suc k)
  from Suc.prems(5) obtain q t where q: "mr_Read x n (w, rd) = (q, t)"
    and rest: "(case q of Inl e \<Rightarrow> (if e = io_EOF then ret [] else raise e)
     | Inr o1 \<Rightarrow> bindM (read_all x n k) (\<lambda>rest. ret (o1 @ rest))) t = (Inr out, s')"
    by (auto elim!: bindM_cases tryM_run)
  from Suc.prems(1-4) q show ?case
  proof (rule mr_Read_run)
    fix bs rd'
    assume t: "t = (w\<lparr>faults := bs\<rparr>, rd')" "reader_ok w i ps rd'"
      and ok: "\<And>out. q = Inr out \<Longrightarrow> out \<noteq> [] \<and> length out \<le> n \<and>
       prefix out (drop (nat (r_pos rd)) (concat ps)) \<and> r_pos rd' = r_pos rd + int (length out)"
      and eof: "q = Inl io_EOF \<Longrightarrow> int (length (concat ps)) \<le> r_pos rd"
    show ?case
    proof (cases q)
      case (Inl e)
      with rest eof show ?thesis by (auto simp: run_iffs split: if_splits)
    next
      case (Inr o1)
      from ok [OF Inr] have o1: "prefix o1 (drop (nat (r_pos rd)) (concat ps))"
        "r_pos rd' = r_pos rd + int (length o1)" by simp_all
      from rest Inr t obtain o2 where o2: "out = o1 @ o2"
        "read_all x n k (w\<lparr>faults := bs\<rparr>, rd') = (Inr o2, s')"
        by (auto elim!: bindM_cases simp: run_iffs)
      have "o2 = drop (nat (r_pos rd')) (concat ps)"
        by (rule Suc.IH [OF _ _ _ Suc.prems(4) o2(2)]) (use Suc.prems t in simp_all)
      moreover have "0 \<le> r_pos rd" using Suc.prems(3) by (simp add: reader_ok_def)
      ultimately have "o2 = drop (length o1) (drop (nat (r_pos rd)) (concat ps))"
        using o1(2) by (simp add: nat_add_distrib add.commute)
      then show ?thesis using o1(1) o2(1) by (auto simp: prefix_def simp del: drop_drop)
    qed
  qed
qed


section \<open>The reader makes progress\<close>

text \<open>Every chunk of the manifest can be read and decompresses to the piece the rows describe.\<close>

definition intact :: "ext \<Rightarrow> world \<Rightarrow> nat \<Rightarrow> string list \<Rightarrow> bool" where
  "intact x w i ps \<longleftrightarrow> list_all2 (\<lambda>r p. goodKey (cr_storageKey r) \<and>
     (case dget w (cr_storageKey r) of
        None \<Rightarrow> False
      | Some bs \<Rightarrow> Decompress x bs (cr_compression r) (cr_size r) = Inr p))
     (map ref_of (joined w i)) ps"

lemma intact_no_collision: "intact x w i ps \<Longrightarrow> no_collision x w i ps"
  unfolding intact_def no_collision_def
  by (erule list_all2_mono) (auto split: option.splits)

lemma joined_of_inv:
  assumes inv: "cas_inv x U w" and m: "m \<in> set (manifests w)"
    and ps: "map (\<lambda>r. content x (dget w) (chunks w) (mc_hash r)) (rows_of (mchunks w) (mf_id m)) = map Some ps"
    and off: "map mc_offset (rows_of (mchunks w) (mf_id m)) = offsets 0 ps"
  shows "describes x w (mf_id m) ps \<and> intact x w (mf_id m) ps"
proof -
  let ?rs = "rows_of (mchunks w) (mf_id m)"
  have cr: "inj_on (blake3 x) U" "zstd_ok x U" "\<And>p. length (blake3 x p) = 32"
    using inv by (simp_all add: cas_inv_def crypto_ok_def)
  have row: "\<exists>c. chunk_of (chunks w) (mc_hash r) = Some c \<and> chunk_ok x U (dget w) c"
    if "r \<in> set ?rs" for r
  proof -
    from that have "mc_hash r \<in> c_hash ` set (chunks w)"
      using inv by (simp add: cas_inv_def cas_ok_def)
    then obtain c where c: "chunk_of (chunks w) (mc_hash r) = Some c"
      using chunk_of_None by fastforce
    then show ?thesis using chunk_of_Some [OF c] inv cas_ok_chunk by (auto simp: cas_inv_def)
  qed
  define f where "f r = (r, the (chunk_of (chunks w) (mc_hash r)))" for r :: mchunk_row
  have "List.map_filter (\<lambda>m. case chunk_of (chunks w) (mc_hash m) of None \<Rightarrow> None | Some c \<Rightarrow> Some (m, c)) rs
      = map f rs" if "set rs \<subseteq> set ?rs" for rs
    using that by (induction rs) (auto simp: map_filter_simps f_def simp del: set_rows_of dest!: row)
  then have j: "joined w (mf_id m) = map f ?rs" by (simp add: joined_def)
  have one: "cr_hash (ref_of (f r)) = blake3 x p \<and> cr_size (ref_of (f r)) = int (length p) \<and> p \<noteq> [] \<and>
      goodKey (cr_storageKey (ref_of (f r))) \<and> (\<exists>bs. dget w (cr_storageKey (ref_of (f r))) = Some bs \<and>
      Decompress x bs (cr_compression (ref_of (f r))) (cr_size (ref_of (f r))) = Inr p)"
    if "r \<in> set ?rs" "content x (dget w) (chunks w) (mc_hash r) = Some p" for r p
  proof -
    from row [OF that(1)] obtain c where c: "chunk_of (chunks w) (mc_hash r) = Some c"
      "chunk_ok x U (dget w) c" by blast
    then obtain q where q: "q \<in> U" "c_hash c = blake3 x q" "c_size c = int (length q)" "q \<noteq> []"
      "c_comp c = snd (compressChunk x q)" "c_key c = StorageKey (c_hash c)"
      "dget w (c_key c) = Some (fst (compressChunk x q))" unfolding chunk_ok_def by blast
    have "p = q" using that(2) q c Decompress_compressChunk [OF cr(2) q(1)] by (simp add: content_def)
    with q c cr(3) Decompress_compressChunk [OF cr(2) q(1)] show ?thesis
      by (simp add: f_def ref_of_def goodKey_StorageKey)
  qed
  have at: "content x (dget w) (chunks w) (mc_hash (?rs ! k)) = Some (ps ! k)" "?rs ! k \<in> set ?rs"
    if "k < length ps" for k
    using arg_cong [OF ps, of "\<lambda>l. l ! k"] arg_cong [OF ps, of length] that
    by (simp_all del: set_rows_of)
  have len: "length ?rs = length ps" using arg_cong [OF ps, of length] by simp
  have "map cr_offset (map ref_of (joined w (mf_id m))) = map mc_offset ?rs"
    by (simp add: j f_def ref_of_def)
  with off one [OF at(2) at(1)] len show ?thesis
    by (force simp: describes_def intact_def list_all2_conv_all_nth j split: option.splits)
qed


lemma describes_length: "describes x w i ps \<Longrightarrow> length (map ref_of (joined w i)) = length ps"
  unfolding describes_def by (blast dest: list_all2_lengthD)

lemma load_refs_ok:
  assumes "faults w = []" "filter (\<lambda>c. cr_offset c + cr_size c > off) (map ref_of (joined w i)) \<noteq> []"
    and "M_ID (r_manifest rd) = i"
  shows "load_refs off (w, rd) = (Inr (), (w, rd\<lparr>r_refs := filter (\<lambda>c. cr_offset c + cr_size c > off)
     (map ref_of (joined w i)), r_refsFrom := off, r_refsValid := True\<rparr>))"
proof -
  obtain r v where run: "chunksFrom i off w = (r, v)" by fastforce
  have r: "v = w" "r = Inr (filter (\<lambda>c. cr_offset c + cr_size c > off) (map ref_of (joined w i)))"
  proof -
    have "fst (chunksFrom i off w) \<noteq> Inl db_err \<and> snd (chunksFrom i off w) = w"
      using assms(1) by (simp add: chunksFrom_def selectM_def dbM_def monad_defs)
    with run show "v = w" "r = Inr (filter (\<lambda>c. cr_offset c + cr_size c > off) (map ref_of (joined w i)))"
      by (auto elim!: chunksFrom_run)
  qed
  with run assms(2,3) show ?thesis
    by (simp add: load_refs_def bindM_getM) (simp add: monad_defs onWorld_def setR_def)
qed

lemma loadWindow_ok:
  assumes d: "describes x w i ps" and good: "intact x w i ps" and ok: "reader_ok w i ps rd"
    and off: "0 \<le> off" "off < int (length (concat ps))" and nf: "faults w = []"
  shows "\<exists>rd'. loadWindowFor x off (w, rd) = (Inr (), (w, rd'))"
proof -
  let ?refs = "\<lambda>st. filter (\<lambda>c. cr_offset c + cr_size c > st) (map ref_of (joined w i))"
  have ne: "?refs off \<noteq> []"
    using find_covering [OF d off order.refl] by (metis find.simps(1) option.distinct(1))
  have i: "M_ID (r_manifest rd) = i" using ok by (simp add: reader_ok_def)
  define rd1 where "rd1 = (if \<not> r_refsValid rd \<or> off < r_refsFrom rd \<or> r_refs rd = []
    then rd\<lparr>r_refs := ?refs off, r_refsFrom := off, r_refsValid := True\<rparr> else rd)"
  have first: "(if \<not> r_refsValid rd \<or> off < r_refsFrom rd \<or> r_refs rd = [] then load_refs off else ret ())
      (w, rd) = (Inr (), (w, rd1))"
    using load_refs_ok [OF nf ne i] by (auto simp: rd1_def ret_def)
  obtain st where st: "r_refs rd1 = ?refs st" "st \<le> off"
  proof (cases "\<not> r_refsValid rd \<or> off < r_refsFrom rd \<or> r_refs rd = []")
    case True
    then show ?thesis using that [of off] by (simp add: rd1_def)
  next
    case False
    then show ?thesis using that [of "r_refsFrom rd"] ok by (simp add: rd1_def reader_ok_def)
  qed
  obtain c where c: "find (\<lambda>c. off \<ge> cr_offset c \<and> off < cr_offset c + cr_size c) (r_refs rd1) = Some c"
    "c \<in> set (map ref_of (joined w i))"
    unfolding st(1) by (rule find_covering [OF d off st(2)])
  obtain k where k: "k < length ps" "map ref_of (joined w i) ! k = c"
    using c(2) unfolding in_set_conv_nth describes_length [OF d] by blast
  have "goodKey (cr_storageKey c) \<and> (case dget w (cr_storageKey c) of None \<Rightarrow> False
      | Some bs \<Rightarrow> Decompress x bs (cr_compression c) (cr_size c) = Inr (ps ! k))"
    using list_all2_nthD2 [OF good [unfolded intact_def] k(1)] unfolding k(2) .
  then obtain bs where bs: "goodKey (cr_storageKey c)" "dget w (cr_storageKey c) = Some bs"
    "Decompress x bs (cr_compression c) (cr_size c) = Inr (ps ! k)" by (auto split: option.splits)
  have hash: "cr_hash c = blake3 x (ps ! k)" "cr_size c = int (length (ps ! k))"
    using ref_nth [OF d k(1)] unfolding k(2) by simp_all
  have opn: "fs_Open (cr_storageKey c) w = (Inr bs, w)"
    using bs nf by (simp add: fs_Open_def pathFor_good monad_defs)
  have "loadWindowFor x off (w, rd) = (Inr (), (w, rd1\<lparr>r_window := ps ! k,
      r_windowStart := cr_offset c, r_windowValid := True\<rparr>))"
    unfolding loadWindowFor_def bindM_getM snd_conv thenM_Inr [where c = "if \<not> r_refsValid rd \<or>
      off < r_refsFrom rd \<or> r_refs rd = [] then load_refs off else ret ()" and s = "(w, rd)", OF first]
    using c(1) opn nf bs(3) hash
    by (simp add: bindM_ret) (simp add: onWorld_def monad_defs setR_def)
  then show ?thesis by blast
qed

lemma mr_Read_ok:
  assumes d: "describes x w i ps" and good: "intact x w i ps" and ok: "reader_ok w i ps rd"
    and nf: "faults w = []" and op: "\<not> r_closed rd" and pos: "r_pos rd < int (length (concat ps))"
  obtains out rd' where "mr_Read x n (w, rd) = (Inr out, (w, rd'))"
proof -
  have p: "0 \<le> r_pos rd" "M_TotalSize (r_manifest rd) = int (length (concat ps))"
    using ok by (simp_all add: reader_ok_def)
  obtain rd1 where "loadWindowFor x (r_pos rd) (w, rd) = (Inr (), (w, rd1))"
    using loadWindow_ok [OF d good ok p(1) pos nf] by blast
  with op pos p(2) nf have "\<exists>out rd'. mr_Read x n (w, rd) = (Inr out, (w, rd'))"
    by (simp add: mr_Read_def monad_defs onWorld_def setR_def Let_def)
  then show ?thesis using that by blast
qed

lemma read_all_ok:
  assumes d: "describes x w i ps" and good: "intact x w i ps" and nf: "faults w = []" and n: "0 < n"
    and "reader_ok w i ps rd" "\<not> r_closed rd" "length (concat ps) < nat (r_pos rd) + k" "0 < k"
  shows "\<exists>s'. read_all x n k (w, rd) = (Inr (drop (nat (r_pos rd)) (concat ps)), s')"
  using assms(5-)
proof (induction k arbitrary: rd)
  case 0
  then show ?case by simp
next
  case (Suc k)
  show ?case
  proof (cases "r_pos rd < int (length (concat ps))")
    case False
    then have "mr_Read x n (w, rd) = (Inl io_EOF, (w, rd))"
      using Suc.prems(1,2) by (simp add: mr_Read_def bindM_getM run_iffs reader_ok_def)
    moreover have "drop (nat (r_pos rd)) (concat ps) = []" using False by auto
    ultimately show ?thesis by (simp add: tryM_def bindM_def ret_def)
  next
    case True
    obtain out rd' where q: "mr_Read x n (w, rd) = (Inr out, (w, rd'))"
      by (rule mr_Read_ok [OF d good Suc.prems(1) nf Suc.prems(2) True])
    have r: "reader_ok w i ps rd'" "r_closed rd' = r_closed rd" "out \<noteq> []"
      "prefix out (drop (nat (r_pos rd)) (concat ps))" "r_pos rd' = r_pos rd + int (length out)"
      by (rule mr_Read_run [OF d intact_no_collision [OF good] Suc.prems(1) n q]; simp)+
    have pos: "0 \<le> r_pos rd" using Suc.prems(1) by (simp add: reader_ok_def)
    then have np: "nat (r_pos rd') = nat (r_pos rd) + length out" using r(5) by simp
    have fuel: "length (concat ps) < nat (r_pos rd') + k"
      using Suc.prems(3) r(3) unfolding np by (cases out) simp_all
    have "nat (r_pos rd') \<le> length (concat ps)"
      using prefix_length_le [OF r(4)] True pos unfolding np by simp
    with fuel have "0 < k" by simp
    from Suc.IH [OF r(1) _ fuel this] r(2) Suc.prems(2) obtain s' where
      "read_all x n k (w, rd') = (Inr (drop (nat (r_pos rd')) (concat ps)), s')" by auto
    moreover have "out @ drop (nat (r_pos rd')) (concat ps) = drop (nat (r_pos rd)) (concat ps)"
    proof -
      have "drop (nat (r_pos rd')) (concat ps) = drop (length out) (drop (nat (r_pos rd)) (concat ps))"
        unfolding np by (simp add: add.commute)
      then show ?thesis using r(4) by (auto simp: prefix_def simp del: drop_drop)
    qed
    ultimately show ?thesis using q by (simp add: tryM_def bindM_def ret_def)
  qed
qed

end
