(* ===== verification/CasGc.thy ===== *)
theory CasGc
  imports CasDelta
begin

text \<open>
  Reclaiming content: the passes of \<open>server/internal/files/service.go\<close> that delete manifests nobody
  references and then chunks no manifest references, and what they leave alone.
\<close>

section \<open>The passes\<close>

definition BlobGCGrace :: int where
  "BlobGCGrace = 24 * 3600 * 1000000000"

definition collectManifests :: "int \<Rightarrow> (world, int) m" where
  "collectManifests grace =
     bindM (wrapM ''list unreferenced manifests'' (UnreferencedManifests grace 1000)) (\<lambda>candidates.
     foldM (\<lambda>freed id.
       bindM (wrapM ''delete manifest row'' (DeleteManifestRow id)) (\<lambda>deleted.
       ret (if deleted then freed + 1 else freed))) 0 candidates)"

definition collect_chunk :: "int \<times> int \<Rightarrow> ChunkRef \<Rightarrow> (world, int \<times> int) m" where
  "collect_chunk st c =
     bindM (wrapM ''delete chunk row'' (DeleteChunkRow (CR_Hash c))) (\<lambda>deleted.
     if \<not> deleted then ret st
     else bindM (tryM (fs_Delete (CR_StorageKey c))) (\<lambda>err. case err of
            Inl _ \<Rightarrow> ret st
          | Inr _ \<Rightarrow> ret (fst st + 1, snd st + CR_StoredSize c)))"

definition collectChunks :: "int \<Rightarrow> (world, int \<times> int) m" where
  "collectChunks grace =
     bindM (wrapM ''list unreferenced chunks'' (UnreferencedChunks grace 1000)) (\<lambda>candidates.
     foldM collect_chunk (0, 0) candidates)"

section \<open>The delete statements\<close>

lemma DeleteChunkRow_run:
  assumes inv: "cas_inv x U w" and run: "DeleteChunkRow h w = (r, w')"
  shows "cas_inv x U w'" and "manifests w' = manifests w" and "mchunks w' = mchunks w"
    and "versions w' = versions w" and "dget w' = dget w"
    and "r = Inr True \<Longrightarrow> h \<notin> c_hash ` set (chunks w')"
proof -
  let ?cs = "filter (\<lambda>c. \<not> (c_hash c = h \<and> c_ref c = 0)) (chunks w)"
  have cases: "cas_inv x U w' \<and> manifests w' = manifests w \<and> mchunks w' = mchunks w \<and>
      versions w' = versions w \<and> dget w' = dget w \<and>
      (r = Inr True \<longrightarrow> chunks w' = ?cs \<and> (\<exists>c \<in> set (chunks w). c_hash c = h \<and> c_ref c = 0))"
  proof (cases "r = Inr True")
    case True
    then obtain bs where w': "w' = w\<lparr>faults := bs, chunks := ?cs\<rparr>"
      and un: "\<forall>m \<in> set (mchunks w). mc_hash m \<noteq> h"
      and hit: "\<exists>c \<in> set (chunks w). c_hash c = h \<and> c_ref c = 0"
      using run unfolding DeleteChunkRow_def Let_def
      by (auto elim!: thenM_cases bindM_cases dbM_run simp: run_iffs list_ex_iff split: if_splits)
    then show ?thesis
      using inv cas_ok_drop_chunk [OF _ un, of _ _ _ _ _ _ "\<lambda>c. c_ref c = 0"] True
      by (simp add: cas_inv_def dget_def [abs_def])
  next
    case False
    then show ?thesis
      using run inv unfolding DeleteChunkRow_def Let_def
      by (auto elim!: thenM_cases bindM_cases dbM_run simp: run_iffs split: if_splits)
  qed
  then show "cas_inv x U w'" "manifests w' = manifests w" "mchunks w' = mchunks w"
    "versions w' = versions w" "dget w' = dget w" by auto
  assume "r = Inr True"
  with cases obtain c where c: "chunks w' = ?cs" "c \<in> set (chunks w)" "c_hash c = h" "c_ref c = 0"
    by auto
  have d: "distinct (map c_hash (chunks w))" using inv by (simp add: cas_inv_def cas_ok_def)
  have same: "c' = c" if "c' \<in> set (chunks w)" "c_hash c' = h" for c'
  proof -
    have "chunk_of (chunks w) h = Some c'" using chunk_of_mem [OF d that(1)] unfolding that(2) .
    moreover have "chunk_of (chunks w) h = Some c" using chunk_of_mem [OF d c(2)] unfolding c(3) .
    ultimately show ?thesis by simp
  qed
  show "h \<notin> c_hash ` set (chunks w')"
  proof
    assume "h \<in> c_hash ` set (chunks w')"
    then obtain c' where c': "c' \<in> set ?cs" "c_hash c' = h" unfolding c(1) by auto
    then have "c' = c" by (intro same) auto
    with c' c show False by simp
  qed
qed

lemma DeleteManifestRow_run:
  assumes inv: "cas_inv x U w" and run: "DeleteManifestRow mid w = (r, w')"
  shows "cas_inv x U w'" and "versions w' = versions w" and "dget w' = dget w"
    and "i \<noteq> mid \<or> manifest_live w i \<Longrightarrow> rows_of (mchunks w') i = rows_of (mchunks w) i"
    and "i \<noteq> mid \<or> manifest_live w i \<Longrightarrow> i \<in> mf_id ` set (manifests w) \<Longrightarrow> i \<in> mf_id ` set (manifests w')"
    and "c_hash ` set (chunks w') = c_hash ` set (chunks w)"
proof -
  let ?P = "\<lambda>m. mc_manifest m = mid"
  have "(\<exists>bs. w' = w\<lparr>faults := bs\<rparr>) \<or> (\<not> manifest_live w mid \<and> (\<exists>bs. w' = w\<lparr>faults := bs,
      manifests := filter (\<lambda>m. mf_id m \<noteq> mid) (manifests w), mchunks := filter (\<lambda>m. \<not> ?P m) (mchunks w),
      chunks := chunk_refcount_bump (-1) (filter ?P (mchunks w)) (chunks w)\<rparr>))"
    using run unfolding DeleteManifestRow_def Let_def
    by (elim thenM_cases bindM_cases dbM_run)
      (auto elim!: thenM_cases bindM_cases simp: run_iffs manifest_live_def split: if_splits)
  then consider bs where "w' = w\<lparr>faults := bs\<rparr>"
    | bs where "\<not> manifest_live w mid" "w' = w\<lparr>faults := bs,
      manifests := filter (\<lambda>m. mf_id m \<noteq> mid) (manifests w), mchunks := filter (\<lambda>m. \<not> ?P m) (mchunks w),
      chunks := chunk_refcount_bump (-1) (filter ?P (mchunks w)) (chunks w)\<rparr>"
    by blast
  note cases = this
  show "cas_inv x U w'"
    using cases
  proof cases
    case 2
    with inv cas_ok_drop_manifest [of x U "dget w" "chunks w" "manifests w" "mchunks w" "next_id w" mid]
    show ?thesis by (simp add: cas_inv_def dget_def [abs_def])
  qed (use inv in simp)
  show "versions w' = versions w" using cases by cases simp_all
  show "dget w' = dget w" using cases by cases (simp_all add: dget_def [abs_def])
  show "c_hash ` set (chunks w') = c_hash ` set (chunks w)" using cases by cases simp_all
  have rows: "rows_of (filter (\<lambda>m. \<not> ?P m) (mchunks w)) i = rows_of (mchunks w) i" if "i \<noteq> mid"
  proof -
    have "filter (\<lambda>r. mc_manifest r = i) (filter (\<lambda>m. \<not> ?P m) (mchunks w))
        = filter (\<lambda>r. mc_manifest r = i) (mchunks w)"
      unfolding filter_filter by (rule filter_cong) (use that in auto)
    then show ?thesis by (simp add: rows_of_def)
  qed
  show "i \<noteq> mid \<or> manifest_live w i \<Longrightarrow> rows_of (mchunks w') i = rows_of (mchunks w) i"
    using cases rows by cases auto
  show "i \<noteq> mid \<or> manifest_live w i \<Longrightarrow> i \<in> mf_id ` set (manifests w) \<Longrightarrow>
      i \<in> mf_id ` set (manifests w')"
    using cases by cases auto
qed

text \<open>Deleting the bytes of a chunk without a row.\<close>

lemma fs_Delete_cas:
  assumes inv: "cas_inv x U w" and h: "length h = 32" "h \<notin> c_hash ` set (chunks w)"
    and run: "fs_Delete (StorageKey h) w = (r, w')"
  shows "cas_inv x U w'" and "db_view w' = db_view w"
proof -
  show same: "db_view w' = db_view w" using keepsD [OF fs_db_view(3) refl run] .
  have ok: "cas_ok x U (dget w) (chunks w) (manifests w) (mchunks w) (next_id w)"
    and len: "\<forall>p. length (blake3 x p) = 32" and cr: "crypto_ok x U"
    using inv by (simp_all add: cas_inv_def crypto_ok_def)
  from fs.del_view [OF run] cas_ok_del_bytes [OF ok len h] ok cr db_view_same [OF same]
  show "cas_inv x U w'" by (auto simp: cas_inv_def)
qed

section \<open>What the passes leave alone\<close>

text \<open>
  Two states that satisfy the invariant agree on every chunk both have a row for, so a manifest
  whose rows did not change stands for the same file.
\<close>

lemma manifest_content_stable:
  assumes inv: "cas_inv x U w" "cas_inv x U w'" and rows: "rows_of (mchunks w') i = rows_of (mchunks w) i"
  shows "manifest_content x w' i = manifest_content x w i"
proof -
  have "content x (dget w') (chunks w') (mc_hash r) = content x (dget w) (chunks w) (mc_hash r)"
    if r: "r \<in> set (rows_of (mchunks w) i)" for r
  proof -
    from r have "r \<in> set (mchunks w)" by simp
    then have row: "mc_hash r \<in> c_hash ` set (chunks w)"
      using inv(1) by (simp add: cas_inv_def cas_ok_def)
    from r have "r \<in> set (mchunks w')" unfolding rows [symmetric] by simp
    then have row': "mc_hash r \<in> c_hash ` set (chunks w')"
      using inv(2) by (simp add: cas_inv_def cas_ok_def)
    from row obtain c where "c \<in> set (chunks w)" "mc_hash r = c_hash c" by auto
    then obtain p where "p \<in> U" "mc_hash r = blake3 x p"
      using inv(1) unfolding cas_inv_def cas_ok_def chunk_ok_def by metis
    with content_of_hash [OF inv(1)] content_of_hash [OF inv(2)] row row' show ?thesis by simp
  qed
  then have "map (\<lambda>r. content x (dget w') (chunks w') (mc_hash r)) (rows_of (mchunks w) i) =
      map (\<lambda>r. content x (dget w) (chunks w) (mc_hash r)) (rows_of (mchunks w) i)" by simp
  then show ?thesis unfolding manifest_content_def rows by metis
qed

lemma UnreferencedChunks_run:
  assumes inv: "cas_inv x U w" and run: "UnreferencedChunks grace n w = (r, w')"
  obtains bs where "w' = w\<lparr>faults := bs\<rparr>"
    "\<And>cs c. r = Inr cs \<Longrightarrow> c \<in> set cs \<Longrightarrow> length (CR_Hash c) = 32 \<and> CR_StorageKey c = StorageKey (CR_Hash c)"
proof -
  have row: "length (c_hash c) = 32 \<and> c_key c = StorageKey (c_hash c)" if "c \<in> set (chunks w)" for c
    using inv that unfolding cas_inv_def cas_ok_def chunk_ok_def crypto_ok_def by metis
  from run show ?thesis
    unfolding UnreferencedChunks_def
    by (elim selectM_run) (rule that; auto dest!: in_set_takeD row)
qed

lemma collect_chunk_run:
  assumes inv: "cas_inv x U w" and c: "length (CR_Hash c) = 32" "CR_StorageKey c = StorageKey (CR_Hash c)"
    and run: "collect_chunk st c w = (r, w')"
  shows "cas_inv x U w' \<and> manifests w' = manifests w \<and> mchunks w' = mchunks w \<and> versions w' = versions w"
  using run unfolding collect_chunk_def
proof (cases rule: bindM_cases)
  case (1 e)
  then show ?thesis using DeleteChunkRow_run(1-4) [OF inv] by (auto simp: wrap_iffs)
next
  case (2 deleted t)
  note del = DeleteChunkRow_run [OF inv, of "CR_Hash c" "Inr deleted" t]
  have d: "DeleteChunkRow (CR_Hash c) w = (Inr deleted, t)" using 2 by (simp add: wrap_iffs)
  show ?thesis
  proof (cases deleted)
    case False
    with 2 del [OF d] show ?thesis by (auto simp: run_iffs)
  next
    case True
    with 2 obtain q where q: "fs_Delete (StorageKey (CR_Hash c)) t = (q, w')"
      by (auto elim!: bindM_cases tryM_run simp: run_iffs c split: sum.splits)
    have "CR_Hash c \<notin> c_hash ` set (chunks t)" using del(6) [OF d] True by simp
    from fs_Delete_cas [OF del(1) [OF d] c(1) this q] del(2-4) [OF d] show ?thesis
      using db_view_same [of w' t] by simp
  qed
qed

lemma collectChunks_run:
  assumes inv: "cas_inv x U w" and run: "collectChunks grace w = (r, w')"
  shows "cas_inv x U w' \<and> manifests w' = manifests w \<and> mchunks w' = mchunks w \<and> versions w' = versions w"
    (is "?F w'")
  using run unfolding collectChunks_def
proof (cases rule: bindM_cases)
  case (1 e)
  then show ?thesis using inv by (auto simp: wrap_iffs elim!: UnreferencedChunks_run [OF inv])
next
  case (2 cands t)
  then have u: "UnreferencedChunks grace 1000 w = (Inr cands, t)" by (simp add: wrap_iffs)
  from inv u obtain bs where t: "t = w\<lparr>faults := bs\<rparr>" and c: "\<And>c. c \<in> set cands \<Longrightarrow>
      length (CR_Hash c) = 32 \<and> CR_StorageKey c = StorageKey (CR_Hash c)"
    by (rule UnreferencedChunks_run) blast
  have "case r of Inl e \<Rightarrow> ?F w' | Inr st \<Rightarrow> ?F w'"
    using 2(2)
  proof (rule foldM_run)
    show "?F t" using inv t by simp
  next
    fix ys y zs b s q s' assume "cands = ys @ y # zs" "?F s" "collect_chunk b y s = (q, s')"
    with c [of y] collect_chunk_run [of x U s y b q s'] show "case q of Inl e \<Rightarrow> ?F s' | Inr st \<Rightarrow> ?F s'"
      by (cases q) auto
  qed
  then show ?thesis by (cases r) auto
qed

lemma collectManifests_run:
  assumes inv: "cas_inv x U w" and run: "collectManifests grace w = (r, w')"
  shows "cas_inv x U w' \<and> versions w' = versions w \<and>
    (\<forall>i. manifest_live w i \<longrightarrow> rows_of (mchunks w') i = rows_of (mchunks w) i \<and>
       (i \<in> mf_id ` set (manifests w) \<longrightarrow> i \<in> mf_id ` set (manifests w')))" (is "?F w'")
  using run unfolding collectManifests_def UnreferencedManifests_def
proof (cases rule: bindM_cases)
  case (1 e)
  then show ?thesis using inv by (auto simp: wrap_iffs elim!: selectM_run)
next
  case (2 cands t)
  then obtain bs where t: "t = w\<lparr>faults := bs\<rparr>" by (auto simp: wrap_iffs elim!: selectM_run)
  have "case r of Inl e \<Rightarrow> ?F w' | Inr st \<Rightarrow> ?F w'"
    using 2(2)
  proof (rule foldM_run)
    show "?F t" using inv t by (simp add: manifest_live_def)
  next
    fix ys y zs b s q s' assume F: "?F s" and step: "bindM (wrapM ''delete manifest row''
      (DeleteManifestRow y)) (\<lambda>deleted. ret (if deleted then b + 1 else b)) s = (q, s')"
    have live: "manifest_live s i = manifest_live w i" for i using F by (simp add: manifest_live_def)
    from step obtain q' where "DeleteManifestRow y s = (q', s')"
      by (elim bindM_cases wrapM_run) (auto simp: run_iffs)
    from DeleteManifestRow_run(1,2,4,5) [OF _ this, of x U] F live have "?F s'" by metis
    then show "case q of Inl e \<Rightarrow> ?F s' | Inr st \<Rightarrow> ?F s'" by (cases q) auto
  qed
  then show ?thesis by (cases r) auto
qed

end
