(* ===== verification/CasTotal.thy ===== *)
theory CasTotal
  imports CasReader CasGc
begin

text \<open>
  When the environment does not fail, the operations do not fail either: a write always ends with a
  manifest.  Also what a second write of the same file costs.
\<close>

lemma ioM_ok: "faults w = [] \<Longrightarrow> ioM e w = (Inr (), w)"
  by simp

lemma fs_PutKeyed_ok:
  assumes "faults w = []" "goodKey k"
  shows "fs_PutKeyed k (bs, False) w =
    (if dget w k \<noteq> None then (Inr True, w) else (Inr False, dput k bs w))"
  using assms by (simp add: fs_PutKeyed_def pathFor_good monad_defs)

lemma chunk_keys:
  assumes inv: "cas_inv x U w" and len: "length h = 32" and new: "h \<notin> c_hash ` set (chunks w)"
  shows "StorageKey h \<notin> c_key ` set (chunks w)"
proof
  assume "StorageKey h \<in> c_key ` set (chunks w)"
  then obtain c where c: "c \<in> set (chunks w)" "c_key c = StorageKey h" by auto
  have "c_key c = StorageKey (c_hash c)" "length (c_hash c) = 32"
    using inv c(1) unfolding cas_inv_def cas_ok_def chunk_ok_def crypto_ok_def by metis+
  with c(2) len have "c_hash c = h" using StorageKey_inj by metis
  with c(1) new show False by auto
qed

text \<open>Compression never produces an empty chunk.\<close>

definition zstd_pos :: "ext \<Rightarrow> string set \<Rightarrow> bool" where
  "zstd_pos x U \<longleftrightarrow> (\<forall>p \<in> U. p \<noteq> [] \<and> zstd_enc x p \<noteq> [])"

lemma zstd_pos_stored: "zstd_pos x U \<Longrightarrow> p \<in> U \<Longrightarrow> fst (compressChunk x p) \<noteq> []"
  by (auto simp: zstd_pos_def compressChunk_def Let_def)

lemma insert_chunk_ok:
  assumes inv: "cas_inv x U w" and nf: "faults w = []" and z: "zstd_pos x U" "p \<in> U"
  obtains b w' where "insert_chunk (blake3 x p) (int (length p)) (int (length (fst (compressChunk x p))))
    (snd (compressChunk x p)) (StorageKey (blake3 x p)) w = (Inr b, w')" "faults w' = []"
proof -
  have len: "length (blake3 x p) = 32" using inv by (simp add: cas_inv_def crypto_ok_def)
  have "p \<noteq> []" "fst (compressChunk x p) \<noteq> []"
    using z zstd_pos_stored [OF z] by (auto simp: zstd_pos_def)
  then have "chunk_check \<lparr>c_hash = blake3 x p, c_size = int (length p),
      c_stored = int (length (fst (compressChunk x p))), c_comp = snd (compressChunk x p),
      c_key = StorageKey (blake3 x p), c_ref = 0, c_created = now w, c_tier = ''hot''\<rparr>"
    using len compressChunk_comp [of x p]
    by (auto simp: chunk_check_def CompressionNone_def CompressionZstd_def)
  then show ?thesis
    using that nf chunk_keys [OF inv len]
    by (cases "blake3 x p \<in> c_hash ` set (chunks w)")
      (auto simp: insert_chunk_def Let_def dbM_def monad_defs)
qed

lemma split_fold_ok:
  assumes inv: "cas_inv x U w" and U: "set qs \<subseteq> U" and acc: "acc_ok x w ps st" and nf: "faults w = []"
  shows "\<exists>st' w'. foldM (split_emit x write_chunk) st qs w = (Inr st', w') \<and> faults w' = [] \<and>
    cas_inv x U w' \<and> acc_ok x w' (ps @ qs) st' \<and> db_view w' = db_view w"
proof -
  have len: "length (blake3 x p) = 32" for p using inv by (simp add: cas_inv_def crypto_ok_def)
  have "\<exists>st' w'. foldM (split_emit x write_chunk) st qs w = (Inr st', w') \<and>
      (faults w' = [] \<and> cas_inv x U w' \<and> acc_ok x w' (ps @ qs) st' \<and> db_view w' = db_view w)"
  proof (rule foldM_ok)
    show "faults w = [] \<and> cas_inv x U w \<and> acc_ok x w (ps @ []) st \<and> db_view w = db_view w"
      using assms by simp
  next
    fix ys y zs st v
    assume q: "qs = ys @ y # zs"
      and J: "faults v = [] \<and> cas_inv x U v \<and> acc_ok x v (ps @ ys) st \<and> db_view v = db_view w"
    have "\<exists>st' v'. split_emit x write_chunk st y v = (Inr st', v') \<and> faults v' = []"
      using J fs_PutKeyed_ok [of v "StorageKey (blake3 x y)" "fst (compressChunk x y)"]
        goodKey_StorageKey [OF len, of y]
      by (cases st) (auto simp: split_emit_def write_chunk_def monad_defs Let_def)
    then obtain st' v' where r: "split_emit x write_chunk st y v = (Inr st', v')" "faults v' = []"
      by blast
    from J split_emit_run [OF _ _ _ r(1), of U "ps @ ys"] q U r
    show "\<exists>st' v'. split_emit x write_chunk st y v = (Inr st', v') \<and>
        (faults v' = [] \<and> cas_inv x U v' \<and> acc_ok x v' (ps @ ys @ [y]) st' \<and> db_view v' = db_view w)"
      by auto
  qed
  then show ?thesis by simp
qed

lemma Split_ok:
  assumes inv: "cas_inv x U w" and U: "set (pieces x (s, False)) \<subseteq> U" and nf: "faults w = []"
  shows "\<exists>ha w'. Split x (s, False) write_chunk write_acc0 w = (Inr ha, w') \<and> faults w' = []"
proof -
  have U1: "set (cdc_split x (s, False)) \<subseteq> U" and U2: "set (cdc_final x (s, False)) \<subseteq> U"
    using U by (simp_all add: pieces_def)
  have 0: "acc_ok x w [] (0, [], write_acc0)" by (simp add: acc_ok_def write_acc0_def)
  from split_fold_ok [OF inv U1 0 nf] obtain st v where
    1: "foldM (split_emit x write_chunk) (0, [], write_acc0) (cdc_split x (s, False)) w = (Inr st, v)"
      "faults v = []" "cas_inv x U v" "acc_ok x v (cdc_split x (s, False)) st" by auto
  from split_fold_ok [OF 1(3) U2 1(4) 1(2)] obtain st' v' where
    2: "foldM (split_emit x write_chunk) st (cdc_final x (s, False)) v = (Inr st', v')" "faults v' = []"
    by auto
  show ?thesis
    using nf 1 2 unfolding Split_def
    by (cases st') (simp add: monad_defs)
qed

lemma upsert_ok:
  assumes inv: "cas_inv x U w" and z: "zstd_pos x U" and nf: "faults w = []"
    and zs: "\<forall>z \<in> set zs. \<exists>p off. p \<in> U \<and> stored x w p \<and> z = placed_of x p off"
  obtains u w' where "upsert_chunks zs w = (Inr u, w')" "faults w' = []"
proof -
  have "\<exists>u w'. upsert_chunks zs w = (Inr u, w') \<and> (faults w' = [] \<and> cas_inv x U w' \<and> tx_frame w w')"
    unfolding upsert_chunks_def
  proof (rule foldM_ok)
    show "faults w = [] \<and> cas_inv x U w \<and> tx_frame w w" using inv nf by simp
  next
    fix ys y zs' b v
    assume q: "zs = ys @ y # zs'" and J: "faults v = [] \<and> cas_inv x U v \<and> tx_frame w v"
    obtain p off where p: "p \<in> U" "stored x w p" "y = placed_of x p off" using zs q by auto
    have st: "stored x v p" using J p(2) stored_frame by metis
    from J have "cas_inv x U v" "faults v = []" by auto
    then obtain c v' where c: "insert_chunk (pl_hash y) (pl_size y) (pl_stored y) (pl_comp y)
        (StorageKey (pl_hash y)) v = (Inr c, v')" "faults v' = []"
      using insert_chunk_ok [OF _ _ z p(1), of v] by (auto simp: p(3) placed_of_def)
    have "cas_inv x U v' \<and> tx_frame v v'"
      using wrap_insert_run [OF \<open>cas_inv x U v\<close> p(1) st p(3), of "[]" "Inr c" v'] c
      by (simp add: wrap_iffs)
    with J c show "\<exists>b' v'. thenM (wrapM ''record chunk'' (insert_chunk (pl_hash y) (pl_size y)
        (pl_stored y) (pl_comp y) (StorageKey (pl_hash y)))) (ret ()) v = (Inr b', v') \<and>
        (faults v' = [] \<and> cas_inv x U v' \<and> tx_frame w v')"
      by (auto simp: monad_defs intro: tx_frame_trans)
  qed
  then show ?thesis using that by blast
qed

lemma record_ok:
  assumes inv: "cas_inv x U w" and nf: "faults w = []"
    and hs: "set hashes \<subseteq> c_hash ` set (chunks w)" "length hashes = length ps"
  obtains i w' where "record_manifest (int (length (concat ps))) (int (length ps)) (blake3 x (concat ps))
     (zip hashes (offsets 0 ps)) w = (Inr i, w')" "faults w' = []"
proof -
  let ?n = "next_id w"
  let ?rs = "manifest_rows ?n (zip hashes (offsets 0 ps))"
  have len: "length (blake3 x (concat ps)) = 32" using inv by (simp add: cas_inv_def crypto_ok_def)
  have facts: "map mc_hash ?rs = hashes" "map mc_offset ?rs = offsets 0 ps"
    "map mc_seq ?rs = map int [0 ..< length ps]"
    using hs(2) by (simp_all add: manifest_rows_facts)
  have "\<not> list_ex (\<lambda>m. mc_offset m < 0) ?rs"
  proof -
    have "mc_offset m \<in> set (offsets 0 ps)" if "m \<in> set ?rs" for m
      using that facts(2) by (metis image_eqI list.set_map)
    then show ?thesis using offsets_nonneg [of 0 _ ps] by (force simp: list_ex_iff)
  qed
  moreover have "distinct (map (\<lambda>m. (mc_manifest m, mc_seq m)) ?rs)"
  proof -
    have "distinct (map mc_seq ?rs)" unfolding facts(3) by (simp add: distinct_map)
    then show ?thesis by (auto simp: distinct_map inj_on_def)
  qed
  moreover have "\<forall>m \<in> set (mchunks w). mc_manifest m \<noteq> ?n"
    using inv unfolding cas_inv_def cas_ok_def by fastforce
  then have "list_all (\<lambda>m. (mc_manifest m, mc_seq m)
      \<notin> set (map (\<lambda>m. (mc_manifest m, mc_seq m)) (mchunks w))) ?rs"
    by (auto simp: list_all_iff dest!: manifest_rows_facts(5))
  moreover have "mc_hash m \<in> c_hash ` set (chunks w)" if "m \<in> set ?rs" for m
    using that facts(1) hs(1) by (metis image_eqI list.set_map subsetD)
  then have "list_all (\<lambda>m. mc_manifest m \<in> set (map mf_id (manifests w @
      [\<lparr>mf_id = ?n, mf_total = int (length (concat ps)), mf_count = int (length ps),
        mf_hash = blake3 x (concat ps), mf_created = now w\<rparr>])) \<and> mc_hash m \<in> set (map c_hash (chunks w))) ?rs"
    by (auto simp: list_all_iff dest: manifest_rows_facts(5))
  ultimately have "\<exists>i w'. record_manifest (int (length (concat ps))) (int (length ps)) (blake3 x (concat ps))
     (zip hashes (offsets 0 ps)) w = (Inr i, w') \<and> faults w' = []"
    using nf len by (simp add: record_manifest_def insert_manifest_def copy_mchunks_def fresh_id_def
        dbM_def monad_defs)
  then show ?thesis using that by blast
qed


lemma withTx_ok:
  assumes "faults w = []" "c w = (Inr v, w')" "faults w' = []"
  shows "withTx c w = (Inr v, w')"
  using assms by (simp add: withTx_def txM_def dbM_def monad_defs)

lemma selectM_ok: "faults w = [] \<Longrightarrow> selectM f w = (Inr (f w), w)"
  by (simp add: selectM_def dbM_def monad_defs)

lemma Write_rows_ok:
  assumes inv: "cas_inv x U w" and z: "zstd_pos x U" and nf: "faults w = []" and U: "set ps \<subseteq> U"
    and acc: "acc_ok x w ps (off, whole, a)"
  shows "\<exists>wr w'. Write_rows (blake3 x (concat ps), a) w = (Inr wr, w') \<and> faults w' = []"
proof -
  let ?zs = "map2 (placed_of x) ps (offsets 0 ps)"
  have a: "wa_total a = int (length (concat ps))" "wa_chunks a = ?zs" "\<forall>p \<in> set ps. stored x w p"
    using acc by (simp_all add: acc_ok_def)
  have zs: "\<forall>z \<in> set ?zs. \<exists>p off. p \<in> U \<and> stored x w p \<and> z = placed_of x p off"
    using U a(3) by (fastforce dest: set_zip_leftD)
  have ho: "map (\<lambda>p. (pl_hash p, pl_offset p)) ?zs = zip (map (blake3 x) ps) (offsets 0 ps)"
    by (auto simp: placed_of_def intro!: nth_equalityI)
  have hs: "map pl_hash ?zs = map (blake3 x) ps"
    by (auto simp: placed_of_def intro!: nth_equalityI)
  obtain u v where up: "upsert_chunks ?zs w = (Inr u, v)" "faults v = []"
    by (rule upsert_ok [OF inv z nf zs])
  have v: "cas_inv x U v" "\<forall>z \<in> set ?zs. pl_hash z \<in> c_hash ` set (chunks v)"
    using upsert_run [OF inv zs up(1)] by simp_all
  then have "set (map pl_hash ?zs) \<subseteq> c_hash ` set (chunks v)" by auto
  then have "set (map (blake3 x) ps) \<subseteq> c_hash ` set (chunks v)" unfolding hs .
  from record_ok [OF v(1) up(2) this, of ps] obtain i v' where rec:
    "record_manifest (int (length (concat ps))) (int (length ps)) (blake3 x (concat ps))
     (zip (map (blake3 x) ps) (offsets 0 ps)) v = (Inr i, v')" "faults v' = []" by auto
  have body: "thenM (upsert_chunks ?zs) (record_manifest (int (length (concat ps))) (int (length ps))
      (blake3 x (concat ps)) (zip (map (blake3 x) ps) (offsets 0 ps))) w = (Inr i, v')"
    using up(1) rec(1) by (simp add: monad_defs)
  obtain ex where ex: "find_live_manifest (blake3 x (concat ps)) (int (length (concat ps)))
      (int (length ps)) w = (Inr ex, w)"
    unfolding find_live_manifest_def wrap_iffs selectM_ok [OF nf] by blast
  have tx: "withTx (thenM (upsert_chunks ?zs) (record_manifest (int (length (concat ps)))
      (int (length ps)) (blake3 x (concat ps)) (zip (map (blake3 x) ps) (offsets 0 ps)))) w = (Inr i, v')"
    using nf body rec(2) by (rule withTx_ok)
  have len: "length ?zs = length ps" by simp
  show ?thesis
  proof (cases ex)
    case (Some j)
    then show ?thesis
      using ex nf by (simp add: Write_rows_def Let_def a(1) a(2) len del: length_map) (simp add: monad_defs)
  next
    case None
    then show ?thesis
      using ex tx rec(2) unfolding Write_rows_def Let_def fst_conv snd_conv a(1) a(2) len ho
      by (simp add: monad_defs)
  qed
qed

lemma Write_ok:
  assumes inv: "cas_inv x U w" and U: "set (pieces x (s, False)) \<subseteq> U" and z: "zstd_pos x U"
    and nf: "faults w = []"
  obtains wr w' where "Write x (s, False) w = (Inr wr, w')" "faults w' = []"
proof -
  obtain ha v where sp: "Split x (s, False) write_chunk write_acc0 w = (Inr ha, v)" "faults v = []"
    using Split_ok [OF inv U nf] by blast
  obtain h a where ha: "ha = (h, a)" by (cases ha)
  have v: "cas_inv x U v" "h = blake3 x (concat (pieces x (s, False)))"
    "acc_ok x v (pieces x (s, False)) (int (length (concat (pieces x (s, False)))),
       concat (pieces x (s, False)), a)"
    using Split_run [OF inv U sp(1)] by (auto simp: ha)
  from Write_rows_ok [OF v(1) z sp(2) U v(3)] obtain wr w' where
    "Write_rows ha v = (Inr wr, w')" "faults w' = []" by (auto simp: ha v(2))
  with sp that show ?thesis by (simp add: Write_def bindM_Inr)
qed

section \<open>A second write of the same file\<close>

lemma keeps_disk_statements:
  "keeps (\<lambda>w. disk w = D) (insert_chunk h n k c y)"
  "keeps (\<lambda>w. disk w = D) (insert_manifest t k h)"
  "keeps (\<lambda>w. disk w = D) (copy_mchunks rs)"
proof -
  have ff: "fault_free (\<lambda>w. disk w = D)" by (simp add: fault_free_def)
  have id: "keeps (\<lambda>w. disk w = D) fresh_id" by (simp add: keeps_def fresh_id_def)
  show "keeps (\<lambda>w. disk w = D) (insert_chunk h n k c y)" "keeps (\<lambda>w. disk w = D) (insert_manifest t k h)"
    "keeps (\<lambda>w. disk w = D) (copy_mchunks rs)"
    unfolding insert_chunk_def insert_manifest_def copy_mchunks_def Let_def
    by (intro keeps_intros ff id; simp)+
qed

lemma Write_rows_disk:
  assumes run: "Write_rows ha w = (r, w')"
  shows "dget w' = dget w"
proof -
  have ff: "fault_free (\<lambda>v. disk v = disk w)" by (simp add: fault_free_def)
  have "keeps (\<lambda>v. disk v = disk w) (Write_rows ha)"
    unfolding Write_rows_def find_live_manifest_def upsert_chunks_def record_manifest_def Let_def
    by (intro keeps_intros keeps_withTx ff keeps_disk_statements) simp_all
  from keepsD [OF this refl run] show ?thesis by (simp add: dget_def fun_eq_iff)
qed

lemma Write_rows_counts:
  "Write_rows (h, a) w = (Inr wr, w') \<Longrightarrow> wr_NewBytes wr = wa_newBytes a \<and> wr_NewChunks wr = wa_new a
     \<and> wr_DedupedChunks wr = wa_deduped a"
  unfolding Write_rows_def Let_def
  by (auto elim!: bindM_cases simp: run_iffs split: option.splits)

lemma split_fold_dedup:
  assumes run: "foldM (split_emit x write_chunk) st qs w = (Inr st', w')"
    and old: "\<forall>p \<in> set qs. dget w (StorageKey (blake3 x p)) \<noteq> None"
  shows "dget w' = dget w \<and> wa_new (snd (snd st')) = wa_new (snd (snd st)) \<and>
    wa_newBytes (snd (snd st')) = wa_newBytes (snd (snd st)) \<and>
    wa_deduped (snd (snd st')) = wa_deduped (snd (snd st)) + int (length qs)"
proof -
  let ?J = "\<lambda>ys st' w'. dget w' = dget w \<and> wa_new (snd (snd st')) = wa_new (snd (snd st)) \<and>
    wa_newBytes (snd (snd st')) = wa_newBytes (snd (snd st)) \<and>
    wa_deduped (snd (snd st')) = wa_deduped (snd (snd st)) + int (length ys)"
  have "case r of Inl e \<Rightarrow> True | Inr st' \<Rightarrow> ?J qs st' w'"
    if "foldM (split_emit x write_chunk) st qs w = (r, w')" for r
    using that
  proof (rule foldM_run)
    show "?J [] st w" by simp
  next
    fix ys y zs st1 v q v'
    assume q: "qs = ys @ y # zs" and J: "?J ys st1 v" and step: "split_emit x write_chunk st1 y v = (q, v')"
    show "case q of Inl e \<Rightarrow> True | Inr st' \<Rightarrow> ?J (ys @ [y]) st' v'"
    proof (cases q)
      case (Inr st2)
      with step obtain b where put: "fs_PutKeyed (StorageKey (blake3 x y)) (fst (compressChunk x y), False) v
          = (Inr b, v')" and st2: "wa_new (snd (snd st2)) = wa_new (snd (snd st1)) + (if b then 0 else 1)"
          "b \<longrightarrow> wa_newBytes (snd (snd st2)) = wa_newBytes (snd (snd st1))"
          "b \<longrightarrow> wa_deduped (snd (snd st2)) = wa_deduped (snd (snd st1)) + 1"
        by (cases st1) (auto simp: split_emit_def write_chunk_def run_iffs wrap_iffs Let_def
            elim!: bindM_cases split: if_splits)
      have "b" using fs.put_present [OF put] J old q by auto
      moreover have "dget v' = dget v"
        using fs.put_view [OF put] fs.put_present [OF put] \<open>b\<close> by auto
      ultimately show ?thesis using J st2 Inr by simp
    qed simp
  qed
  from this [OF run] show ?thesis by simp
qed

lemma Split_dedup:
  assumes run: "Split x rd write_chunk write_acc0 w = (Inr (h, a), w')"
    and old: "\<forall>p \<in> set (pieces x rd). dget w (StorageKey (blake3 x p)) \<noteq> None"
  shows "dget w' = dget w \<and> wa_new a = 0 \<and> wa_newBytes a = 0 \<and> wa_deduped a = int (length (pieces x rd))"
proof -
  from run obtain st v v1 off whole
    where io: "ioAll [Io ''create chunker'', Io ''create zstd encoder''] w = (Inr (), v)"
    and 1: "foldM (split_emit x write_chunk) (0, [], write_acc0) (cdc_split x rd) v = (Inr st, v1)"
    and 2: "foldM (split_emit x write_chunk) st (cdc_final x rd) v1 = (Inr (off, whole, a), w')"
    unfolding Split_def
    by (elim thenM_cases bindM_cases) (auto simp: run_iffs wrap_iffs split: if_splits prod.splits
      elim!: thenM_cases bindM_cases)
  have v: "dget v = dget w" using ioAll_disk [OF io] .
  from split_fold_dedup [OF 1] v old have 3: "dget v1 = dget w" "wa_new (snd (snd st)) = 0"
    "wa_newBytes (snd (snd st)) = 0" "wa_deduped (snd (snd st)) = int (length (cdc_split x rd))"
    by (auto simp: pieces_def write_acc0_def)
  from split_fold_dedup [OF 2] 3 old show ?thesis by (auto simp: pieces_def)
qed

lemma rewrite_costs_nothing:
  assumes inv: "cas_inv x U w" and U: "set (pieces x rd) \<subseteq> U"
    and 1: "Write x rd w = (Inr wr1, w1)" and 2: "Write x rd w1 = (Inr wr2, w2)"
  shows "wr_NewChunks wr2 = 0 \<and> wr_NewBytes wr2 = 0 \<and>
    wr_DedupedChunks wr2 = int (length (pieces x rd)) \<and> dget w2 = dget w1"
proof -
  obtain ha v where sp: "Split x rd write_chunk write_acc0 w = (Inr ha, v)" "Write_rows ha v = (Inr wr1, w1)"
    using 1 by (auto simp: Write_def elim!: bindM_cases)
  obtain h a where ha: "ha = (h, a)" by (cases ha)
  have "\<forall>p \<in> set (pieces x rd). stored x v p"
    using Split_run [OF inv U sp(1)] by (auto simp: ha acc_ok_def)
  then have old: "\<forall>p \<in> set (pieces x rd). dget w1 (StorageKey (blake3 x p)) \<noteq> None"
    using Write_rows_disk [OF sp(2)] by (simp add: stored_def)
  obtain h2 a2 v2 where sp2: "Split x rd write_chunk write_acc0 w1 = (Inr (h2, a2), v2)"
    "Write_rows (h2, a2) v2 = (Inr wr2, w2)"
    using 2 by (auto simp: Write_def elim!: bindM_cases)
  from Split_dedup [OF sp2(1) old] Write_rows_counts [OF sp2(2)] Write_rows_disk [OF sp2(2)]
  show ?thesis by simp
qed

section \<open>Losing a chunk's bytes\<close>

lemma DeleteChunkRow_ok:
  assumes inv: "cas_inv x U w" and nf: "faults w = []" and c: "c \<in> set (chunks w)" "c_ref c = 0"
  obtains w' where "DeleteChunkRow (c_hash c) w = (Inr True, w')" "faults w' = []"
    "manifests w' = manifests w"
proof -
  have "mc_count (c_hash c) (mchunks w) = 0" using inv c by (simp add: cas_inv_def cas_ok_def)
  then have "\<not> list_ex (\<lambda>m. mc_hash m = c_hash c) (mchunks w)" by (auto simp: mc_count_zero list_ex_iff)
  moreover have "list_ex (\<lambda>d. c_hash d = c_hash c \<and> c_ref d = 0) (chunks w)"
    using c by (auto simp: list_ex_iff)
  ultimately show ?thesis
    using nf that by (auto simp: DeleteChunkRow_def dbM_def monad_defs)
qed

lemma those_None: "None \<in> set xs \<Longrightarrow> those xs = None"
  by (induction xs) (auto split: option.splits)

lemma content_gone:
  assumes inv: "cas_inv x U w" and ref: "h \<in> manifest_refs w i"
  shows "manifest_content x (ddel (StorageKey h) w) i = None"
proof -
  from ref obtain r where r: "r \<in> set (mchunks w)" "mc_manifest r = i" "mc_hash r = h"
    by (auto simp: manifest_refs_def)
  have "content x (dget (ddel (StorageKey h) w)) (chunks w) h = None"
  proof (cases "chunk_of (chunks w) h")
    case (Some c)
    then have "chunk_ok x U (dget w) c"
      using inv chunk_of_Some [OF Some] cas_ok_chunk by (auto simp: cas_inv_def)
    then have "c_key c = StorageKey h" using chunk_of_Some [OF Some] by (auto simp: chunk_ok_def)
    with Some show ?thesis by (simp add: content_def)
  qed (simp add: content_def)
  then have "None \<in> set (map (\<lambda>r. content x (dget (ddel (StorageKey h) w)) (chunks w) (mc_hash r))
      (rows_of (mchunks w) i))"
    using r by (auto intro!: rev_image_eqI [of r])
  then show ?thesis unfolding manifest_content_def by (simp add: those_None)
qed

end
