(* ===== verification/Demo.thy ===== *)
theory Demo
  imports World
begin

text \<open>
  A concrete instance of the external code, small enough to evaluate: a digest that pads or cuts to
  32 bytes (injective on the short inputs of the examples), a codec that stores its input, and a
  splitter that cuts after three bytes.  It shows that the hypotheses the theorems put on the
  external code can hold together, and is what the concrete instances of the theorems run on.
\<close>

definition demo_digest :: "string \<Rightarrow> string" where
  "demo_digest s = take 32 (s @ replicate 32 (CHR 0x00))"

definition demo_ext :: ext where
  "demo_ext = \<lparr>blake3 = demo_digest, sha256 = demo_digest, zstd_enc = (\<lambda>s. s), zstd_dec = Some,
     cdc_split = (\<lambda>r. filter (\<lambda>p. p \<noteq> []) [take 3 (fst r)]),
     cdc_final = (\<lambda>r. filter (\<lambda>p. p \<noteq> []) [drop 3 (fst r)]), uni_lower = (\<lambda>s. s), uni_upper = (\<lambda>s. s)\<rparr>"

end
