(* ===== verification/CasSpec.thy ===== *)
theory CasSpec
  imports CasTotal Demo
begin

text \<open>
  What content-addressed storage promises: the invariant on every reachable state, the round trip
  from a write to a read, the checks of the delta protocol, what the collector may delete, and the
  interleaving of an upload with the collector that breaks the promise.
\<close>

section \<open>Concrete instances\<close>

definition demo_U :: "string set" where
  "demo_U = {''hel'', ''lo''}"

lemma demo_digest_length: "length (demo_digest s) = 32"
  by (simp add: demo_digest_def)

lemma demo_crypto: "crypto_ok demo_ext demo_U"
  by (simp add: crypto_ok_def demo_ext_def demo_U_def demo_digest_length zstd_ok_def)
    (simp add: inj_on_def demo_digest_def)

lemma demo_inv: "cas_inv demo_ext demo_U empty_world"
  by (rule cas_inv_empty) (rule demo_crypto)

lemma demo_pieces: "pieces demo_ext (''hello'', False) = [''hel'', ''lo'']"
  by (simp add: pieces_def demo_ext_def)

lemma demo_pos: "zstd_pos demo_ext demo_U"
  by (simp add: zstd_pos_def demo_ext_def demo_U_def)

lemma demo_pieces_U: "set (pieces demo_ext (''hello'', False)) \<subseteq> demo_U"
  by (simp add: demo_pieces demo_U_def)

lemma demo_write: "\<exists>wr w'. Write demo_ext (''hello'', False) empty_world = (Inr wr, w') \<and> faults w' = []"
proof -
  have "faults empty_world = []" by (simp add: empty_world_def)
  from Write_ok [OF demo_inv demo_pieces_U demo_pos this] show ?thesis by metis
qed

text \<open>The state after one chunk was uploaded.\<close>

definition demo_stored :: world where
  "demo_stored = empty_world\<lparr>disk := [(StorageKey (demo_digest ''lo''), ''lo'')],
     chunks := [\<lparr>c_hash = demo_digest ''lo'', c_size = 2, c_stored = 2, c_comp = ''none'',
       c_key = StorageKey (demo_digest ''lo''), c_ref = 0, c_created = 0, c_tier = ''hot''\<rparr>]\<rparr>"

lemma demo_fields:
  "blake3 demo_ext = demo_digest" "zstd_enc demo_ext = (\<lambda>s. s)" "zstd_dec demo_ext = Some"
  by (simp_all add: demo_ext_def)

lemma demo_put: "PutChunk demo_ext (demo_digest ''lo'') ''lo'' empty_world = (Inr True, demo_stored)"
  by (simp add: PutChunk_def Let_def demo_fields compressChunk_def fs_PutKeyed_ok goodKey_StorageKey
      demo_digest_length insert_chunk_def chunk_check_def CompressionNone_def empty_world_def
      demo_stored_def MaxChunkSize_def dget_def dput_def run_eval db_eval cong: run_cong)

lemma demo_commit:
  "\<exists>mf w'. CommitManifest demo_ext (demo_digest ''lo'') [demo_digest ''lo''] demo_stored
     = (Inr (mf, False), w')"
  by (simp add: CommitManifest_def demo_stored_def empty_world_def verifyContentHash_def
      verify_step_def ReadChunkStored_def OpenChunkStored_def fs_Open_def pathFor_good
      goodKey_StorageKey demo_digest_length demo_fields Decompress_def CompressionNone_def
      find_live_manifest_def record_manifest_def insert_manifest_def copy_mchunks_def fresh_id_def
      manifest_rows_def chunk_of_def dget_def enumerate_eq_zip Let_def withTx_def
      run_eval db_eval cong: run_cong)

section \<open>Reachable states\<close>

text \<open>
  One step of the system as content-addressed storage sees it: one of its operations, run against an
  arbitrary fault schedule and whether it succeeds or fails, the clock, or another component
  changing the version rows that keep manifests alive.
\<close>

inductive cas_step :: "ext \<Rightarrow> string set \<Rightarrow> world \<Rightarrow> world \<Rightarrow> bool" for x U where
  upload: "set (pieces x r) \<subseteq> U \<Longrightarrow> cas_step x U w (snd (Write x r w))"
| put: "plain \<in> U \<Longrightarrow> cas_step x U w (snd (PutChunk x expected plain w))"
| commit: "cas_step x U w (snd (CommitManifest x contentHash hashes w))"
| gc_manifests: "cas_step x U w (snd (collectManifests grace w))"
| gc_chunks: "cas_step x U w (snd (collectChunks grace w))"
| drop_manifest: "cas_step x U w (snd (DeleteManifestRow mid w))"
| tick: "cas_step x U w (w\<lparr>now := t\<rparr>)"
| env: "cas_step x U w (w\<lparr>faults := bs\<rparr>)"
| other: "cas_step x U w (w\<lparr>versions := vs\<rparr>)"

inductive cas_reachable :: "ext \<Rightarrow> string set \<Rightarrow> world \<Rightarrow> bool" for x U where
  init: "cas_reachable x U empty_world"
| step: "cas_reachable x U w \<Longrightarrow> cas_step x U w w' \<Longrightarrow> cas_reachable x U w'"

lemma cas_step_inv: "cas_step x U w w' \<Longrightarrow> cas_inv x U w \<Longrightarrow> cas_inv x U w'"
proof (induction rule: cas_step.induct)
  case (upload r w)
  then show ?case using Write_run(1) prod.collapse by metis
next
  case (put plain w expected)
  then show ?case using PutChunk_cas prod.collapse by metis
next
  case (commit w contentHash hashes)
  then show ?case using CommitManifest_run(1) prod.collapse by metis
next
  case (gc_manifests w grace)
  then show ?case using collectManifests_run prod.collapse by metis
next
  case (gc_chunks w grace)
  then show ?case using collectChunks_run prod.collapse by metis
next
  case (drop_manifest w mid)
  then show ?case using DeleteManifestRow_run(1) prod.collapse by metis
qed (simp_all add: cas_inv_def dget_def [abs_def])

text \<open>C1: in every reachable state, under every schedule of failures, each chunk row's bytes are on
  disk and hash to its address, each reference count is the number of references, and each manifest
  lists its chunks at consecutive offsets with the size and hash of the file they compose.\<close>

theorem reachable_cas_inv:
  assumes "crypto_ok x U" and "cas_reachable x U w"
  shows "cas_inv x U w"
  using assms(2)
  by (induction rule: cas_reachable.induct) (auto intro: cas_inv_empty assms(1) cas_step_inv)

theorem reachable_cas_inv_witness:
  "cas_inv demo_ext demo_U (snd (PutChunk demo_ext (demo_digest ''lo'') ''lo'' empty_world))"
  by (rule reachable_cas_inv [OF demo_crypto])
    (rule cas_reachable.step [OF cas_reachable.init], rule cas_step.put, simp add: demo_U_def)

section \<open>Writing and reading\<close>

lemma stands_for_reader:
  assumes inv: "cas_inv x U w" and st: "stands_for x w i file" and nf: "faults w = []"
  obtains rd ps where "cas_Open i w = (Inr rd, w)" "concat ps = file" "describes x w i ps"
    "intact x w i ps" "reader_ok w i ps rd" "\<not> r_closed rd" "r_pos rd = 0"
proof -
  from st obtain m where m: "m \<in> set (manifests w)" "mf_id m = i" "manifest_content x w i = Some file"
    by (auto simp: stands_for_def)
  from manifest_content_of [OF inv m(1)] m(2,3) obtain ps where ps: "concat ps = file"
    "mf_total m = int (length (concat ps))"
    "map (\<lambda>r. content x (dget w) (chunks w) (mc_hash r)) (rows_of (mchunks w) i) = map Some ps"
    "map mc_offset (rows_of (mchunks w) i) = offsets 0 ps" by auto
  have d: "describes x w i ps" "intact x w i ps" using joined_of_inv [OF inv m(1)] ps m(2) by auto
  have "distinct (map mf_id (manifests w))" using inv by (simp add: cas_inv_def cas_ok_def)
  from find_unique [OF this m(1)] m(2) have f: "find (\<lambda>k. mf_id k = i) (manifests w) = Some m" by simp
  define rd where "rd = \<lparr>r_manifest = \<lparr>M_ID = i, M_TotalSize = mf_total m, M_ChunkCount = mf_count m,
      M_ContentHash = copy32 (mf_hash m)\<rparr>, r_pos = 0, r_window = [], r_windowStart = 0,
      r_windowValid = False, r_refs = [], r_refsFrom = 0, r_refsValid = False, r_closed = False\<rparr>"
  have "cas_Open i w = (Inr rd, w)"
    using f by (simp add: cas_Open_def GetManifest_def selectM_ok [OF nf] monad_defs rd_def)
  moreover have "reader_ok w i ps rd" using ps(2) by (simp add: rd_def reader_ok_def)
  ultimately show ?thesis using that ps(1) d by (simp add: rd_def)
qed

text \<open>C2: what was written is what is read.  If a write succeeds, under any schedule of failures on
  the way, the manifest it returns (a new one, or a reused one) opens and reads back to exactly the
  bytes that were written, for every read buffer size.\<close>

theorem write_then_read:
  assumes "cas_inv x U w" and "set (pieces x (s, False)) \<subseteq> U" and "concat (pieces x (s, False)) = s"
    and "no_clash x w s" and "Write x (s, False) w = (Inr wr, w')"
    and "0 < n" and "length s < k"
  shows "\<exists>rd s'. cas_Open (M_ID (wr_Manifest wr)) (w'\<lparr>faults := []\<rparr>) = (Inr rd, w'\<lparr>faults := []\<rparr>)
    \<and> read_all x n k (w'\<lparr>faults := []\<rparr>, rd) = (Inr s, s')"
proof -
  let ?v = "w'\<lparr>faults := []\<rparr>" and ?i = "M_ID (wr_Manifest wr)"
  have "cas_inv x U ?v" "stands_for x ?v ?i s"
    using Write_run [OF assms(1,2,5)] assms(3,4) by simp_all
  then obtain rd ps where r: "cas_Open ?i ?v = (Inr rd, ?v)" "concat ps = s" "describes x ?v ?i ps"
    "intact x ?v ?i ps" "reader_ok ?v ?i ps rd" "\<not> r_closed rd" "r_pos rd = 0"
    by (rule stands_for_reader) simp
  with read_all_ok [OF r(3,4) _ assms(6) r(5,6)] assms(7) show ?thesis by auto
qed

theorem write_then_read_witness:
  "\<exists>wr w' rd s'. Write demo_ext (''hello'', False) empty_world = (Inr wr, w') \<and>
    read_all demo_ext 2 9 (w'\<lparr>faults := []\<rparr>, rd) = (Inr ''hello'', s')"
proof -
  obtain wr w' where w: "Write demo_ext (''hello'', False) empty_world = (Inr wr, w')"
    using demo_write by blast
  from write_then_read [OF demo_inv _ _ _ w, of 2 9] w show ?thesis
    by (auto simp: demo_pieces demo_U_def no_clash_def empty_world_def)
qed

text \<open>C3: a write fails only when its environment does: with no failures left in the schedule it
  returns a manifest.\<close>

theorem write_succeeds:
  assumes "cas_inv x U w" and "set (pieces x (s, False)) \<subseteq> U" and "zstd_pos x U" and "faults w = []"
  shows "\<exists>wr w'. Write x (s, False) w = (Inr wr, w')"
  using Write_ok [OF assms] by metis

theorem write_succeeds_witness:
  "\<exists>wr w'. Write demo_ext (''hello'', False) empty_world = (Inr wr, w')"
  by (rule write_succeeds [OF demo_inv _ demo_pos])
    (simp_all add: demo_pieces demo_U_def empty_world_def)

text \<open>Storing the same file again costs nothing: no new chunk, no new byte, every piece counted
  as deduplicated, and the disk left as it was.\<close>

theorem rewrite_is_free:
  assumes "cas_inv x U w" and "set (pieces x r) \<subseteq> U"
    and "Write x r w = (Inr wr1, w1)" and "Write x r w1 = (Inr wr2, w2)"
  shows "wr_NewChunks wr2 = 0 \<and> wr_NewBytes wr2 = 0 \<and>
    wr_DedupedChunks wr2 = int (length (pieces x r)) \<and> dget w2 = dget w1"
  using assms by (rule rewrite_costs_nothing)

theorem rewrite_is_free_witness:
  "\<exists>wr1 w1 wr2 w2. Write demo_ext (''hello'', False) empty_world = (Inr wr1, w1) \<and>
    Write demo_ext (''hello'', False) w1 = (Inr wr2, w2) \<and> wr_NewChunks wr2 = 0"
proof -
  obtain wr1 w1 where w1: "Write demo_ext (''hello'', False) empty_world = (Inr wr1, w1)" "faults w1 = []"
    using demo_write by blast
  obtain wr2 w2 where w2: "Write demo_ext (''hello'', False) w1 = (Inr wr2, w2)"
    using Write_ok [OF Write_run(1) [OF demo_inv demo_pieces_U w1(1)] demo_pieces_U demo_pos w1(2)] by metis
  from rewrite_is_free [OF demo_inv demo_pieces_U w1(1) w2] w1(1) w2 show ?thesis by blast
qed


definition demo_rotten :: world where
  "demo_rotten = empty_world\<lparr>disk := [(StorageKey (demo_digest ''lo''), ''xx'')],
     chunks := [\<lparr>c_hash = demo_digest ''lo'', c_size = 2, c_stored = 2, c_comp = ''none'',
       c_key = StorageKey (demo_digest ''lo''), c_ref = 1, c_created = 0, c_tier = ''hot''\<rparr>],
     manifests := [\<lparr>mf_id = 7, mf_total = 2, mf_count = 1, mf_hash = demo_digest ''lo'', mf_created = 0\<rparr>],
     mchunks := [\<lparr>mc_manifest = 7, mc_seq = 0, mc_hash = demo_digest ''lo'', mc_offset = 0\<rparr>]\<rparr>"

definition demo_reader :: mreader where
  "demo_reader = \<lparr>r_manifest = \<lparr>M_ID = 7, M_TotalSize = 2, M_ChunkCount = 1,
       M_ContentHash = demo_digest ''lo''\<rparr>, r_pos = 0, r_window = [], r_windowStart = 0,
     r_windowValid = False, r_refs = [], r_refsFrom = 0, r_refsValid = False, r_closed = False\<rparr>"




text \<open>C6: a manifest commit hands out a file only to a caller who named that file's chunks: when it
  succeeds, every named chunk is stored, the declared hash is the hash of what they compose, and
  the manifest (new or reused) stands for exactly those bytes.\<close>

theorem commit_needs_the_content:
  assumes "cas_inv x U w" and "CommitManifest x contentHash hashes w = (Inr (mf, reused), w')"
  shows "\<exists>ps. map (content x (dget w) (chunks w)) hashes = map Some ps \<and>
    contentHash = blake3 x (concat ps) \<and> M_TotalSize mf = int (length (concat ps)) \<and>
    M_ChunkCount mf = int (length hashes) \<and>
    (no_clash x w (concat ps) \<longrightarrow> stands_for x w' (M_ID mf) (concat ps))"
  using CommitManifest_run(2) [OF assms refl] .

theorem commit_needs_the_content_witness:
  "\<exists>mf w' ps. CommitManifest demo_ext (demo_digest ''lo'') [demo_digest ''lo''] demo_stored
      = (Inr (mf, False), w') \<and> stands_for demo_ext w' (M_ID mf) (concat ps) \<and>
    demo_digest ''lo'' = demo_digest (concat ps)"
proof -
  have inv: "cas_inv demo_ext demo_U demo_stored"
    using PutChunk_cas [OF demo_inv] demo_put by (metis demo_U_def insertI1 insertI2)
  obtain mf w' where run: "CommitManifest demo_ext (demo_digest ''lo'') [demo_digest ''lo''] demo_stored
      = (Inr (mf, False), w')" using demo_commit by blast
  from commit_needs_the_content [OF inv run] run show ?thesis
    by (auto simp: no_clash_def demo_stored_def demo_ext_def empty_world_def)
qed

section \<open>Reclaiming\<close>

text \<open>C7: garbage collection never takes content from a live file: after both passes, however they
  fail, every manifest a version references is still there and stands for the same file, and the
  invariant holds.\<close>

theorem gc_keeps_live_files:
  assumes "cas_inv x U w" and "manifest_live w i" and "stands_for x w i file"
    and "collectManifests grace w = (r1, w1)" and "collectChunks grace' w1 = (r2, w2)"
  shows "cas_inv x U w2 \<and> stands_for x w2 i file"
proof -
  have 1: "cas_inv x U w1" "rows_of (mchunks w1) i = rows_of (mchunks w) i"
    "i \<in> mf_id ` set (manifests w1)"
    using collectManifests_run [OF assms(1,4)] assms(2,3) by (auto simp: stands_for_def)
  have 2: "cas_inv x U w2" "manifests w2 = manifests w1" "mchunks w2 = mchunks w1"
    using collectChunks_run [OF 1(1) assms(5)] by auto
  have "manifest_content x w2 i = manifest_content x w i"
    by (rule manifest_content_stable [OF assms(1) 2(1)]) (simp add: 1 2)
  with assms(3) 1 2 show ?thesis by (simp add: stands_for_def)
qed

theorem gc_keeps_live_files_witness:
  "\<exists>w i w1 w2. manifest_live w i \<and> manifest_content demo_ext w i = Some ''hello'' \<and>
    w1 = snd (collectManifests 0 w) \<and> w2 = snd (collectChunks 0 w1) \<and>
    manifest_content demo_ext w2 i = Some ''hello''"
proof -
  obtain wr v where v: "Write demo_ext (''hello'', False) empty_world = (Inr wr, v)"
    using demo_write by blast
  let ?i = "M_ID (wr_Manifest wr)"
  let ?w = "v\<lparr>versions := [\<lparr>v_id = 1, v_node = 1, v_blob = None, v_manifest = Some ?i, v_size = 5,
    v_mime = [], v_created = 0, v_by = None\<rparr>]\<rparr>"
  have "cas_inv demo_ext demo_U v" "stands_for demo_ext v ?i ''hello''"
    using Write_run [OF demo_inv demo_pieces_U v] by (simp_all add: demo_pieces no_clash_def empty_world_def)
  then have w: "cas_inv demo_ext demo_U ?w" "stands_for demo_ext ?w ?i ''hello''" "manifest_live ?w ?i"
    by (simp_all add: cas_inv_def stands_for_def manifest_content_def manifest_live_def dget_def [abs_def])
  obtain r1 w1 r2 w2 where gc: "collectManifests 0 ?w = (r1, w1)" "collectChunks 0 w1 = (r2, w2)"
    by (metis surj_pair)
  from gc_keeps_live_files [OF w(1,3,2) gc] have "manifest_content demo_ext w2 ?i = Some ''hello''"
    by (simp add: stands_for_def)
  then show ?thesis using w(2,3) gc
    by (intro exI [of _ ?w] exI [of _ ?i] exI [of _ w1] exI [of _ w2]) (simp add: stands_for_def)
qed



section \<open>The collector and an upload, interleaved\<close>

text \<open>An upload that deduplicates against a chunk the collector is deleting loses its content.
  The collector listed an unreferenced chunk; the upload finds its bytes on disk and keeps them; the
  collector deletes the row (its count is still zero); the upload commits a fresh row and manifest
  and reports success; the collector deletes the bytes.  The row re-check the collector relies on
  guards its first statement but not the second.\<close>

theorem gc_race_loses_content:
  assumes inv: "cas_inv x U w" and z: "zstd_pos x U" and nf: "faults w = []"
    and p: "p \<in> U" "pieces x (p, False) = [p]" and c: "c \<in> set (chunks w)" "c_hash c = blake3 x p" "c_ref c = 0"
    and fresh: "\<forall>m \<in> set (manifests w). mf_hash m \<noteq> blake3 x p"
  shows "\<exists>ha w1 w2 wr w3 w4. Split x (p, False) write_chunk write_acc0 w = (Inr ha, w1) \<and>
    DeleteChunkRow (c_hash c) w1 = (Inr True, w2) \<and> Write_rows ha w2 = (Inr wr, w3) \<and>
    fs_Delete (c_key c) w3 = (Inr (), w4) \<and>
    manifest_content x w3 (M_ID (wr_Manifest wr)) = Some p \<and>
    manifest_content x w4 (M_ID (wr_Manifest wr)) = None"
proof -
  have U: "set (pieces x (p, False)) \<subseteq> U" using p by simp
  obtain h a w1 where s: "Split x (p, False) write_chunk write_acc0 w = (Inr (h, a), w1)" "faults w1 = []"
    using Split_ok [OF inv U nf] by auto
  have 1: "cas_inv x U w1" "db_view w1 = db_view w" "h = blake3 x p" "acc_ok x w1 [p] (int (length p), p, a)"
    using Split_run [OF inv U s(1)] p(2) by auto
  obtain w2 where d: "DeleteChunkRow (c_hash c) w1 = (Inr True, w2)" "faults w2 = []"
    "manifests w2 = manifests w"
    using DeleteChunkRow_ok [OF 1(1) s(2), of c] c db_view_same [OF 1(2)] by auto
  note del = DeleteChunkRow_run [OF 1(1) d(1)]
  have acc2: "acc_ok x w2 [p] (int (length p), p, a)" using 1(4) del(5) by (simp add: acc_ok_def stored_def)
  have U2: "set [p] \<subseteq> U" using p by simp
  obtain wr w3 where r: "Write_rows (h, a) w2 = (Inr wr, w3)" "faults w3 = []"
    using Write_rows_ok [OF del(1) z d(2) U2 acc2] 1(3) by auto
  have "Write_rows (blake3 x (concat [p]), a) w2 = (Inr wr, w3)" using r(1) 1(3) by simp
  note rows = Write_rows_run [OF del(1) U2 acc2 this]
  have new: "\<not> wr_ReusedManifest wr" using rows(4) fresh d(3) by auto
  have "no_clash x w2 p" using fresh d(3) by (simp add: no_clash_def list_all_iff)
  then have st: "stands_for x w3 (M_ID (wr_Manifest wr)) p" using rows(2) by simp
  have key: "c_key c = StorageKey (blake3 x p)" "goodKey (StorageKey (blake3 x p))"
  proof -
    have "chunk_ok x U (dget w) c" using inv c(1) cas_ok_chunk by (auto simp: cas_inv_def)
    then show "c_key c = StorageKey (blake3 x p)" using c(2) by (auto simp: chunk_ok_def)
    show "goodKey (StorageKey (blake3 x p))"
      using inv by (intro goodKey_StorageKey) (simp add: cas_inv_def crypto_ok_def)
  qed
  have "dget w3 = dget w2" using Write_rows_disk [OF r(1)] .
  then have "dget w3 (c_key c) \<noteq> None" using acc2 key by (simp add: acc_ok_def stored_def)
  then have f: "fs_Delete (c_key c) w3 = (Inr (), ddel (c_key c) w3)"
    using r(2) key by (auto simp: fs_Delete_def pathFor_good monad_defs)
  have "blake3 x p \<in> manifest_refs w3 (M_ID (wr_Manifest wr))" using rows(3) new by simp
  then have gone: "manifest_content x (ddel (c_key c) w3) (M_ID (wr_Manifest wr)) = None"
    using content_gone [OF rows(1)] key by simp
  show ?thesis
    using s(1) d(1) r(1) f st gone
    by (intro exI [of _ "(h, a)"] exI [of _ w1] exI [of _ w2] exI [of _ wr] exI [of _ w3]
        exI [of _ "ddel (c_key c) w3"]) (simp add: stands_for_def)
qed

theorem gc_race_loses_content_witness:
  "\<exists>wr w3 w4. manifest_content demo_ext w3 (M_ID (wr_Manifest (wr :: write_result))) = Some ''lo'' \<and>
    manifest_content demo_ext w4 (M_ID (wr_Manifest wr)) = None"
proof -
  obtain c where c: "c \<in> set (chunks demo_stored)" "c_hash c = blake3 demo_ext ''lo''" "c_ref c = 0"
    by (simp add: demo_stored_def demo_fields)
  have inv: "cas_inv demo_ext demo_U demo_stored"
    using PutChunk_cas [OF demo_inv _ demo_put] by (simp add: demo_U_def)
  have "pieces demo_ext (''lo'', False) = [''lo'']" by (simp add: pieces_def demo_ext_def)
  from gc_race_loses_content [OF inv demo_pos _ _ this c] show ?thesis
    by (fastforce simp: demo_stored_def demo_U_def empty_world_def)
qed

end
