(* ===== verification/TreeSql.thy ===== *)
theory TreeSql
  imports World "HOL-Library.AList"
begin

text \<open>
  The SQL side of the file tree (migrations 00003, 00007, 00008 and 00010): the constraints and
  unique indexes of \<open>nodes\<close>, \<open>file_versions\<close> and \<open>blobs\<close>, the cascades of a delete, the trigger that
  keeps \<open>blobs.refcount\<close> and the trigger that writes the sync journal, and the text functions the
  queries use (\<open>LIKE\<close>, \<open>substring\<close>, \<open>starts_with\<close>).
\<close>

section \<open>Text functions\<close>

text \<open>
  \<open>LIKE\<close>: \<open>%\<close> matches any sequence, \<open>_\<close> any character, a backslash makes the next character literal
  (and a pattern must not end in one, which is an error; it never matches here).
\<close>

function like :: "string \<Rightarrow> string \<Rightarrow> bool" where
  "like [] s = (s = [])"
| "like (c # p) s =
     (if c = CHR ''%'' then like p s \<or> (if s = [] then False else like (c # p) (tl s))
      else if c = CHR 0x5C then
        (case p of [] \<Rightarrow> False | d # q \<Rightarrow> s \<noteq> [] \<and> hd s = d \<and> like q (tl s))
      else if c = CHR ''_'' then s \<noteq> [] \<and> like p (drop (rune_len s) s)
      else s \<noteq> [] \<and> hd s = c \<and> like p (tl s))"
  by pat_completeness auto
termination
  by (relation "measure (\<lambda>(p, s). length p + length s)") (auto simp: neq_Nil_conv)

declare like.simps(2) [simp del]

text \<open>\<open>substring(s from k)\<close> counts characters, from 1.\<close>

definition pg_substring_from :: "string \<Rightarrow> int \<Rightarrow> string" where
  "pg_substring_from s k = concat (drop (nat (k - 1)) (runes s))"

definition starts_with :: "string \<Rightarrow> string \<Rightarrow> bool" where
  "starts_with s p \<longleftrightarrow> prefix p s"

section \<open>The journal\<close>

definition journal_append :: "nat \<Rightarrow> nat \<Rightarrow> string \<Rightarrow> world \<Rightarrow> world" where
  "journal_append ow nd op w =
     (let s = (case map_of (sync_state w) ow of None \<Rightarrow> 1 | Some k \<Rightarrow> k + 1)
      in w\<lparr>sync_state := AList.update ow s (sync_state w),
           changes := changes w @ [\<lparr>chg_owner = ow, chg_seq = s, chg_node = nd, chg_kind = op,
                                     chg_at = now w\<rparr>]\<rparr>)"

definition journal_node_change :: "node_row option \<Rightarrow> node_row option \<Rightarrow> world \<Rightarrow> world" where
  "journal_node_change old new w =
     (case new of
        None \<Rightarrow> (case old of None \<Rightarrow> w | Some n \<Rightarrow> journal_append (n_owner n) (n_id n) ''delete'' w)
      | Some n \<Rightarrow>
          (if (case old of None \<Rightarrow> False
               | Some m \<Rightarrow> n_path n = n_path m \<and> n_head n = n_head m \<and> n_trashed n = n_trashed m)
           then w
           else journal_append (n_owner n) (n_id n)
                  (if n_trashed n = None then ''upsert'' else ''delete'') w))"

section \<open>nodes\<close>

definition nodes_name_check :: "node_row \<Rightarrow> bool" where
  "nodes_name_check n \<longleftrightarrow>
     (n_parent n = None \<and> n_name n = [] \<and> n_path n = ''/'') \<or>
     (n_parent n \<noteq> None \<and> n_name n \<noteq> [] \<and> CHR ''/'' \<notin> set (n_name n))"

definition nodes_kind_head_check :: "node_row \<Rightarrow> bool" where
  "nodes_kind_head_check n \<longleftrightarrow> (n_kind n = KindFolder \<and> n_head n = None) \<or> n_kind n = KindFile"

text \<open>The unique indexes: live siblings by folded name, and one live root per owner.\<close>

definition live :: "node_row \<Rightarrow> bool" where
  "live n \<longleftrightarrow> n_trashed n = None"

definition nodes_unique :: "node_row list \<Rightarrow> bool" where
  "nodes_unique ns \<longleftrightarrow>
     distinct (map (\<lambda>n. (n_parent n, n_fold n)) (filter (\<lambda>n. live n \<and> n_parent n \<noteq> None) ns)) \<and>
     distinct (map n_owner (filter (\<lambda>n. live n \<and> n_parent n = None) ns))"

definition node_fks :: "world \<Rightarrow> node_row list \<Rightarrow> node_row \<Rightarrow> bool" where
  "node_fks w ns n \<longleftrightarrow>
     (case n_parent n of None \<Rightarrow> True | Some p \<Rightarrow> p \<in> set (map n_id ns)) \<and>
     (case n_head n of None \<Rightarrow> True | Some v \<Rightarrow> v \<in> set (map v_id (versions w))) \<and>
     n_owner n \<in> set (map u_id (users w))"

definition node_errors :: "world \<Rightarrow> node_row list \<Rightarrow> node_row list \<Rightarrow> goerr option" where
  "node_errors w ns changed =
     (if \<not> list_all (\<lambda>n. nodes_name_check n \<and> nodes_kind_head_check n) changed then Some check_violation
      else if \<not> nodes_unique ns then Some unique_violation
      else if \<not> list_all (node_fks w ns) changed then Some fk_violation
      else None)"

definition insert_node :: "(nat \<Rightarrow> int \<Rightarrow> node_row) \<Rightarrow> (world, nat) m" where
  "insert_node mk =
     thenM dbM
     (bindM fresh_id (\<lambda>i.
      bindM (getM (\<lambda>w. w)) (\<lambda>w.
      let row = mk i (now w)
      in case node_errors w (nodes w @ [row]) [row] of
           Some e \<Rightarrow> raise e
         | None \<Rightarrow> thenM (modM (\<lambda>v. journal_node_change None (Some row) (v\<lparr>nodes := nodes v @ [row]\<rparr>)))
                     (ret i))))"

text \<open>\<open>UPDATE nodes SET ... WHERE ...\<close>; the result is the number of rows it touched.\<close>

definition update_rows :: "(node_row \<Rightarrow> bool) \<Rightarrow> (node_row \<Rightarrow> node_row) \<Rightarrow> node_row list \<Rightarrow> node_row list" where
  "update_rows p f ns = map (\<lambda>n. if p n then f n else n) ns"

definition update_nodes :: "(node_row \<Rightarrow> bool) \<Rightarrow> (int \<Rightarrow> node_row \<Rightarrow> node_row) \<Rightarrow> (world, int) m" where
  "update_nodes p g =
     thenM dbM
     (bindM (getM (\<lambda>w. w)) (\<lambda>w.
      let f = g (now w); hit = filter p (nodes w); ns = update_rows p f (nodes w)
      in case node_errors w ns (map f hit) of
           Some e \<Rightarrow> raise e
         | None \<Rightarrow>
             thenM (modM (\<lambda>v. fold (\<lambda>n. journal_node_change (Some n) (Some (f n))) hit (v\<lparr>nodes := ns\<rparr>)))
             (ret (int (length hit)))))"

section \<open>blobs and file_versions\<close>

definition blob_bump :: "int \<Rightarrow> nat option \<Rightarrow> blob_row list \<Rightarrow> blob_row list" where
  "blob_bump d bid bs =
     (case bid of None \<Rightarrow> bs
      | Some i \<Rightarrow> map (\<lambda>b. if b_id b = i then b\<lparr>b_ref := b_ref b + d\<rparr> else b) bs)"

text \<open>The trigger \<open>file_versions_refcount\<close>, for an insert, a delete or an update of one row.\<close>

definition blob_refcount_bump :: "version_row option \<Rightarrow> version_row option \<Rightarrow> blob_row list \<Rightarrow> blob_row list" where
  "blob_refcount_bump old new bs =
     (case (old, new) of
        (None, Some v) \<Rightarrow> blob_bump 1 (v_blob v) bs
      | (Some v, None) \<Rightarrow> blob_bump (-1) (v_blob v) bs
      | (Some v, Some v') \<Rightarrow>
          (if v_blob v \<noteq> v_blob v' then blob_bump 1 (v_blob v') (blob_bump (-1) (v_blob v) bs) else bs)
      | (None, None) \<Rightarrow> bs)"

definition blob_check :: "blob_row \<Rightarrow> bool" where
  "blob_check b \<longleftrightarrow> 0 \<le> b_size b \<and> 0 \<le> b_ref b"

definition insert_blob :: "string \<Rightarrow> int \<Rightarrow> string \<Rightarrow> (world, nat) m" where
  "insert_blob key sz sha =
     thenM dbM
     (bindM fresh_id (\<lambda>i.
      bindM (getM (\<lambda>w. w)) (\<lambda>w.
      let row = \<lparr>b_id = i, b_key = key, b_size = sz, b_sha256 = sha, b_ref = 0, b_created = now w,
                 b_tier = ''hot''\<rparr>
      in if \<not> blob_check row then raise check_violation
         else if key \<in> set (map b_key (blobs w)) then raise unique_violation
         else thenM (modM (\<lambda>v. v\<lparr>blobs := blobs v @ [row]\<rparr>)) (ret i))))"

definition version_check :: "version_row \<Rightarrow> bool" where
  "version_check v \<longleftrightarrow> 0 \<le> v_size v \<and> (v_blob v = None) \<noteq> (v_manifest v = None)"

definition version_fks :: "world \<Rightarrow> version_row \<Rightarrow> bool" where
  "version_fks w v \<longleftrightarrow>
     v_node v \<in> set (map n_id (nodes w)) \<and>
     (case v_blob v of None \<Rightarrow> True | Some b \<Rightarrow> b \<in> set (map b_id (blobs w))) \<and>
     (case v_manifest v of None \<Rightarrow> True | Some k \<Rightarrow> k \<in> set (map mf_id (manifests w)))"

definition insert_version ::
  "nat \<Rightarrow> nat option \<Rightarrow> nat option \<Rightarrow> int \<Rightarrow> string \<Rightarrow> nat option \<Rightarrow> (world, nat) m" where
  "insert_version nd bid mid sz mime by_user =
     thenM dbM
     (bindM fresh_id (\<lambda>i.
      bindM (getM (\<lambda>w. w)) (\<lambda>w.
      let row = \<lparr>v_id = i, v_node = nd, v_blob = bid, v_manifest = mid, v_size = sz, v_mime = mime,
                 v_created = now w, v_by = by_user\<rparr>
      in if \<not> version_check row then raise check_violation
         else if \<not> version_fks w row then raise fk_violation
         else thenM (modM (\<lambda>v. v\<lparr>versions := versions v @ [row],
                                 blobs := blob_refcount_bump None (Some row) (blobs v)\<rparr>)) (ret i))))"

text \<open>
  Deleting versions: the blob trigger runs per row, a head that pointed at a deleted version becomes
  NULL (\<open>ON DELETE SET NULL\<close>), and that update of \<open>nodes\<close> is journaled like any other.
\<close>

definition drop_versions :: "(version_row \<Rightarrow> bool) \<Rightarrow> world \<Rightarrow> world" where
  "drop_versions p w =
     (let gone = filter p (versions w); ids = map v_id gone;
          loses = (\<lambda>n. case n_head n of None \<Rightarrow> False | Some v \<Rightarrow> v \<in> set ids);
          hit = filter loses (nodes w); f = (\<lambda>n. n\<lparr>n_head := None\<rparr>)
      in fold (\<lambda>n. journal_node_change (Some n) (Some (f n))) hit
           (w\<lparr>versions := filter (\<lambda>v. \<not> p v) (versions w),
              blobs := fold (\<lambda>v. blob_refcount_bump (Some v) None) gone (blobs w),
              nodes := update_rows loses f (nodes w)\<rparr>))"

definition delete_versions :: "(version_row \<Rightarrow> bool) \<Rightarrow> (world, int) m" where
  "delete_versions p =
     thenM dbM
     (bindM (getM (\<lambda>w. w)) (\<lambda>w.
      if list_ex (\<lambda>b. b_ref b < 0) (blobs (drop_versions p w)) then raise check_violation
      else thenM (modM (drop_versions p)) (ret (int (length (filter p (versions w)))))))"

text \<open>
  Deleting nodes cascades to their descendants, and from each of those to its versions, the grants
  on it and the upload sessions into it.
\<close>

fun descend :: "nat \<Rightarrow> node_row list \<Rightarrow> nat list \<Rightarrow> nat list" where
  "descend 0 ns ids = ids"
| "descend (Suc k) ns ids = descend k ns
     (ids @ map n_id (filter (\<lambda>n. n_id n \<notin> set ids \<and>
        (case n_parent n of None \<Rightarrow> False | Some p \<Rightarrow> p \<in> set ids)) ns))"

definition drop_nodes :: "(node_row \<Rightarrow> bool) \<Rightarrow> world \<Rightarrow> world" where
  "drop_nodes p w =
     (let ids = set (descend (length (nodes w)) (nodes w) (map n_id (filter p (nodes w))));
          gone = filter (\<lambda>n. n_id n \<in> ids) (nodes w);
          vs = filter (\<lambda>v. v_node v \<in> ids) (versions w)
      in fold (\<lambda>n. journal_node_change (Some n) None) gone
           (w\<lparr>nodes := filter (\<lambda>n. n_id n \<notin> ids) (nodes w),
              versions := filter (\<lambda>v. v_node v \<notin> ids) (versions w),
              blobs := fold (\<lambda>v. blob_refcount_bump (Some v) None) vs (blobs w),
              grants := filter (\<lambda>g. g_node g \<notin> ids) (grants w),
              uploads := filter (\<lambda>u. up_parent u \<notin> ids) (uploads w)\<rparr>))"

definition delete_nodes :: "(node_row \<Rightarrow> bool) \<Rightarrow> (world, int) m" where
  "delete_nodes p =
     thenM dbM
     (bindM (getM (\<lambda>w. w)) (\<lambda>w.
      if list_ex (\<lambda>b. b_ref b < 0) (blobs (drop_nodes p w)) then raise check_violation
      else thenM (modM (drop_nodes p)) (ret (int (length (filter p (nodes w)))))))"

end
