(* ===== verification/Tree.thy ===== *)
theory Tree
  imports TreeSql Cas
begin

text \<open>
  The file tree, \<open>server/internal/files/models.go\<close>, \<open>store.go\<close>, \<open>versions.go\<close>, \<open>changes.go\<close> and
  \<open>delta.go\<close>: names, the queries and statements of the tree, the trash, quota accounting, version
  history, the sync journal's reads, and the blob lifecycle.
\<close>

section \<open>models.go\<close>

definition ErrNotFound :: goerr where "ErrNotFound = Sentinel ''node not found''"
definition ErrNotAFolder :: goerr where "ErrNotAFolder = Sentinel ''parent is not a folder''"
definition ErrNotAFile :: goerr where "ErrNotAFile = Sentinel ''node is not a file''"
definition ErrNameTaken :: goerr where
  "ErrNameTaken = Sentinel ''a node with that name already exists here''"
definition ErrInvalidName :: goerr where "ErrInvalidName = Sentinel ''invalid name''"
definition ErrCycle :: goerr where "ErrCycle = Sentinel ''cannot move a folder into itself''"
definition ErrQuota :: goerr where "ErrQuota = Sentinel ''quota exceeded''"
definition ErrRootReserved :: goerr where
  "ErrRootReserved = Sentinel ''the root folder cannot be renamed, moved or trashed''"
definition ErrNotTrashed :: goerr where "ErrNotTrashed = Sentinel ''node is not in the trash''"

text \<open>\<open>pgx.ErrNoRows\<close>, where the code does not translate it.\<close>

definition ErrNoRows :: goerr where "ErrNoRows = Sentinel ''no rows in result set''"

record node =
  N_ID :: nat
  N_OwnerID :: nat
  N_ParentID :: "nat option"
  N_Kind :: kind
  N_Name :: string
  N_Path :: string
  N_HeadVersionID :: "nat option"
  N_TrashedAt :: "int option"
  N_TrashedRootID :: "nat option"
  N_CreatedAt :: int
  N_UpdatedAt :: int
  N_Size :: int
  N_MIME :: string
  N_ContentHash :: string
  N_BlobKey :: string
  N_ManifestID :: "nat option"

definition IsFolder :: "node \<Rightarrow> bool" where "IsFolder n \<longleftrightarrow> N_Kind n = KindFolder"
definition IsFile :: "node \<Rightarrow> bool" where "IsFile n \<longleftrightarrow> N_Kind n = KindFile"
definition IsTrashed :: "node \<Rightarrow> bool" where "IsTrashed n \<longleftrightarrow> N_TrashedAt n \<noteq> None"
definition IsRoot :: "node \<Rightarrow> bool" where "IsRoot n \<longleftrightarrow> N_ParentID n = None"

record usage =
  Us_LiveBytes :: int
  Us_TrashBytes :: int
  Us_VersionBytes :: int
  Us_FileCount :: int
  Us_QuotaBytes :: "int option"

definition TotalBytes :: "usage \<Rightarrow> int" where
  "TotalBytes u = Us_LiveBytes u + Us_TrashBytes u + Us_VersionBytes u"

definition maxNameLen :: nat where "maxNameLen = 255"

text \<open>\<open>unicode.IsControl\<close> of an encoded character: the C0 and C1 controls and DEL.\<close>

definition IsControl :: "string \<Rightarrow> bool" where
  "IsControl ch \<longleftrightarrow>
     (case map byte ch of
        [b] \<Rightarrow> b < 32 \<or> b = 127
      | [a, b] \<Rightarrow> a = 194 \<and> b < 160
      | _ \<Rightarrow> False)"

definition ToUpper :: "(string \<Rightarrow> string) \<Rightarrow> string \<Rightarrow> string" where
  "ToUpper u s = concat (map (\<lambda>ch. if ascii ch then map upper_byte ch else u ch) (runes s))"

definition isWindowsReserved :: "ext \<Rightarrow> string \<Rightarrow> bool" where
  "isWindowsReserved x name =
     (let base = (case IndexByte name (CHR ''.'') of
                    Some i \<Rightarrow> if i > 0 then take i name else name
                  | None \<Rightarrow> name);
          upper = ToUpper (uni_upper x) base
      in if upper \<in> {''CON'', ''PRN'', ''AUX'', ''NUL''} then True
         else length upper = 4 \<and> take 3 upper \<in> {''COM'', ''LPT''}
              \<and> byte (upper ! 3) \<ge> 49 \<and> byte (upper ! 3) \<le> 57)"

definition ValidateName :: "ext \<Rightarrow> string \<Rightarrow> goerr option" where
  "ValidateName x name =
     (if name = [] then Some ErrInvalidName
      else if length name > maxNameLen then Some ErrInvalidName
      else if name = ''.'' \<or> name = ''..'' then Some ErrInvalidName
      else if ContainsAny name [CHR ''/'', CHR 0x5C] then Some ErrInvalidName
      else if list_ex IsControl (runes name) then Some ErrInvalidName
      else if HasSuffix name '' '' \<or> HasSuffix name ''.'' then Some ErrInvalidName
      else if ContainsAny name [CHR ''<'', CHR ''>'', CHR '':'', CHR 0x22, CHR ''|'', CHR ''?'', CHR ''*'']
        then Some ErrInvalidName
      else if isWindowsReserved x name then Some ErrInvalidName
      else None)"

definition Fold :: "ext \<Rightarrow> string \<Rightarrow> string" where
  "Fold x name = ToLower (uni_lower x) name"

definition JoinPath :: "string \<Rightarrow> string \<Rightarrow> string" where
  "JoinPath parent name = (if parent = ''/'' then ''/'' @ name else parent @ ''/'' @ name)"

section \<open>Reads (store.go)\<close>

text \<open>\<open>nodeCols\<close> and \<open>nodeFrom\<close>: the node joined with its head version and that version's storage.\<close>

definition by_id :: "('r \<Rightarrow> nat) \<Rightarrow> 'r list \<Rightarrow> nat option \<Rightarrow> 'r option" where
  "by_id k rs i = (case i of None \<Rightarrow> None | Some j \<Rightarrow> find (\<lambda>r. k r = j) rs)"

definition version_hash :: "world \<Rightarrow> version_row \<Rightarrow> string option" where
  "version_hash w v =
     (case by_id b_id (blobs w) (v_blob v) of
        Some b \<Rightarrow> Some (b_sha256 b)
      | None \<Rightarrow> map_option mf_hash (by_id mf_id (manifests w) (v_manifest v)))"

definition scanNode :: "world \<Rightarrow> node_row \<Rightarrow> node" where
  "scanNode w n =
     (let v = by_id v_id (versions w) (n_head n) in
      \<lparr>N_ID = n_id n, N_OwnerID = n_owner n, N_ParentID = n_parent n, N_Kind = n_kind n,
       N_Name = n_name n, N_Path = n_path n, N_HeadVersionID = n_head n, N_TrashedAt = n_trashed n,
       N_TrashedRootID = n_troot n, N_CreatedAt = n_created n, N_UpdatedAt = n_updated n,
       N_Size = (case v of None \<Rightarrow> 0 | Some v \<Rightarrow> v_size v),
       N_MIME = (case v of None \<Rightarrow> [] | Some v \<Rightarrow> v_mime v),
       N_ContentHash = (case v of None \<Rightarrow> []
          | Some v \<Rightarrow> (case version_hash w v of None \<Rightarrow> [] | Some h \<Rightarrow> h)),
       N_BlobKey = (case v of None \<Rightarrow> []
          | Some v \<Rightarrow> (case by_id b_id (blobs w) (v_blob v) of None \<Rightarrow> [] | Some b \<Rightarrow> b_key b)),
       N_ManifestID = (case v of None \<Rightarrow> None | Some v \<Rightarrow> v_manifest v)\<rparr>)"

definition query_node :: "(node_row \<Rightarrow> bool) \<Rightarrow> (world, node) m" where
  "query_node p =
     bindM (selectM (\<lambda>w. map_option (scanNode w) (find p (nodes w)))) (\<lambda>r. case r of
       None \<Rightarrow> raise ErrNotFound
     | Some n \<Rightarrow> ret n)"

definition store_root :: "nat \<Rightarrow> (world, node) m" where
  "store_root ownerID = query_node (\<lambda>n. n_owner n = ownerID \<and> n_parent n = None \<and> n_trashed n = None)"

definition EnsureRoot :: "nat \<Rightarrow> (world, node) m" where
  "EnsureRoot ownerID =
     bindM (tryM (store_root ownerID)) (\<lambda>r. case r of
       Inr n \<Rightarrow> ret n
     | Inl e \<Rightarrow>
         if \<not> errors_Is e ErrNotFound then raise e
         else
           bindM (tryM (insert_node (\<lambda>i t. \<lparr>n_id = i, n_owner = ownerID, n_parent = None,
             n_kind = KindFolder, n_name = [], n_fold = [], n_path = ''/'', n_head = None,
             n_trashed = None, n_troot = None, n_created = t, n_updated = t\<rparr>))) (\<lambda>r. case r of
             Inl e \<Rightarrow> (if e = unique_violation then store_root ownerID
                       else raise (Wrap ''create root'' e))
           | Inr _ \<Rightarrow> store_root ownerID))"

definition store_Get :: "nat \<Rightarrow> nat \<Rightarrow> (world, node) m" where
  "store_Get ownerID i = query_node (\<lambda>n. n_id n = i \<and> n_owner n = ownerID)"

definition GetLive :: "nat \<Rightarrow> nat \<Rightarrow> (world, node) m" where
  "GetLive ownerID i = query_node (\<lambda>n. n_id n = i \<and> n_owner n = ownerID \<and> n_trashed n = None)"

definition GetByPath :: "nat \<Rightarrow> string \<Rightarrow> (world, node) m" where
  "GetByPath ownerID path =
     query_node (\<lambda>n. n_owner n = ownerID \<and> n_path n = path \<and> n_trashed n = None)"

text \<open>\<open>ORDER BY\<close> with a total preorder \<open>le\<close>: a stable insertion sort.\<close>

fun order_insert :: "('a \<Rightarrow> 'a \<Rightarrow> bool) \<Rightarrow> 'a \<Rightarrow> 'a list \<Rightarrow> 'a list" where
  "order_insert le y [] = [y]"
| "order_insert le y (z # zs) = (if le y z then y # z # zs else z # order_insert le y zs)"

definition order_by :: "('a \<Rightarrow> 'a \<Rightarrow> bool) \<Rightarrow> 'a list \<Rightarrow> 'a list" where
  "order_by le xs = foldr (order_insert le) xs []"

fun text_le :: "string \<Rightarrow> string \<Rightarrow> bool" where
  "text_le [] t = True"
| "text_le (c # s) [] = False"
| "text_le (c # s) (d # t) = (byte c < byte d \<or> (c = d \<and> text_le s t))"

definition children_le :: "node_row \<Rightarrow> node_row \<Rightarrow> bool" where
  "children_le a b \<longleftrightarrow>
     (if n_kind a = n_kind b then text_le (n_fold a) (n_fold b) else n_kind a = KindFolder)"

definition ListChildren :: "nat \<Rightarrow> nat \<Rightarrow> (world, node list) m" where
  "ListChildren ownerID parentID =
     selectM (\<lambda>w. map (scanNode w) (order_by children_le
       (filter (\<lambda>n. n_owner n = ownerID \<and> n_parent n = Some parentID \<and> n_trashed n = None) (nodes w))))"

definition ListTrash :: "nat \<Rightarrow> (world, node list) m" where
  "ListTrash ownerID =
     selectM (\<lambda>w. map (scanNode w) (order_by (\<lambda>a b. the (n_trashed a) \<ge> the (n_trashed b))
       (filter (\<lambda>n. n_owner n = ownerID \<and> n_troot n = Some (n_id n)) (nodes w))))"

text \<open>
  \<open>usageBytes\<close>.  \<open>DISTINCT ON\<close> keeps, per content hash, the first row in the order: a live head, then
  any head, then the rest; a comparison with a NULL head is NULL, which sorts first in \<open>DESC\<close> order
  and which \<open>FILTER (WHERE NOT ...)\<close> drops.
\<close>

definition null_rank :: "bool option \<Rightarrow> nat" where
  "null_rank b = (case b of None \<Rightarrow> 0 | Some True \<Rightarrow> 1 | Some False \<Rightarrow> 2)"

record usage_row =
  ur_hash :: "string option"
  ur_size :: int
  ur_head :: "bool option"
  ur_trashed :: bool

definition ur_live_head :: "usage_row \<Rightarrow> bool option" where
  "ur_live_head r = (if ur_trashed r then Some False else ur_head r)"

definition usage_rows :: "nat \<Rightarrow> world \<Rightarrow> usage_row list" where
  "usage_rows ownerID w = concat (map (\<lambda>n. map (\<lambda>v.
       \<lparr>ur_hash = version_hash w v, ur_size = v_size v, ur_head = map_option (\<lambda>h. v_id v = h) (n_head n),
        ur_trashed = (n_trashed n \<noteq> None)\<rparr>)
     (filter (\<lambda>v. v_node v = n_id n) (versions w)))
     (filter (\<lambda>n. n_owner n = ownerID \<and> n_kind n = KindFile) (nodes w)))"

definition usage_content :: "usage_row list \<Rightarrow> usage_row list" where
  "usage_content rs = map (\<lambda>h. hd (sort_key (\<lambda>r. null_rank (ur_head r))
     (sort_key (\<lambda>r. null_rank (ur_live_head r)) (filter (\<lambda>r. ur_hash r = h) rs))))
     (remdups (map ur_hash rs))"

definition usageBytes :: "nat \<Rightarrow> world \<Rightarrow> int \<times> int \<times> int" where
  "usageBytes ownerID w =
     (let c = usage_content (usage_rows ownerID w)
      in (sum_list (map ur_size (filter (\<lambda>r. ur_head r = Some True \<and> \<not> ur_trashed r) c)),
          sum_list (map ur_size (filter (\<lambda>r. ur_head r = Some True \<and> ur_trashed r) c)),
          sum_list (map ur_size (filter (\<lambda>r. ur_head r = Some False) c))))"

definition quota_of :: "nat \<Rightarrow> (world, int option) m" where
  "quota_of ownerID =
     bindM (selectM (\<lambda>w. map_option u_quota (find (\<lambda>u. u_id u = ownerID) (users w)))) (\<lambda>r. case r of
       None \<Rightarrow> raise ErrNoRows
     | Some q \<Rightarrow> ret q)"

definition Usage :: "nat \<Rightarrow> (world, usage) m" where
  "Usage ownerID =
     bindM (selectM (usageBytes ownerID)) (\<lambda>(lv, tr, vs).
     bindM (selectM (\<lambda>w. int (length (filter (\<lambda>n. n_owner n = ownerID \<and> n_kind n = KindFile
        \<and> n_trashed n = None) (nodes w))))) (\<lambda>files.
     bindM (quota_of ownerID) (\<lambda>q.
     ret \<lparr>Us_LiveBytes = lv, Us_TrashBytes = tr, Us_VersionBytes = vs, Us_FileCount = files,
          Us_QuotaBytes = q\<rparr>)))"

section \<open>Writes (store.go)\<close>

definition check_name :: "ext \<Rightarrow> string \<Rightarrow> (world, unit) m" where
  "check_name x name = (case ValidateName x name of None \<Rightarrow> ret () | Some e \<Rightarrow> raise e)"

definition CreateFolder :: "ext \<Rightarrow> nat \<Rightarrow> nat \<Rightarrow> string \<Rightarrow> (world, node) m" where
  "CreateFolder x ownerID parentID name =
     thenM (check_name x name)
     (bindM (GetLive ownerID parentID) (\<lambda>parent.
      if \<not> IsFolder parent then raise ErrNotAFolder
      else
        bindM (tryM (insert_node (\<lambda>i t. \<lparr>n_id = i, n_owner = ownerID, n_parent = Some parentID,
          n_kind = KindFolder, n_name = name, n_fold = Fold x name,
          n_path = JoinPath (N_Path parent) name, n_head = None, n_trashed = None, n_troot = None,
          n_created = t, n_updated = t\<rparr>))) (\<lambda>r. case r of
          Inl e \<Rightarrow> (if e = unique_violation then raise ErrNameTaken else raise (Wrap ''create folder'' e))
        | Inr i \<Rightarrow> store_Get ownerID i)))"

record put_file_input =
  pf_OwnerID :: nat
  pf_ParentID :: nat
  pf_Name :: string
  pf_BlobKey :: string
  pf_SHA256 :: string
  pf_ManifestID :: "nat option"
  pf_Size :: int
  pf_MIME :: string

definition checkQuota :: "nat \<Rightarrow> int \<Rightarrow> (world, unit) m" where
  "checkQuota ownerID adding =
     bindM (quota_of ownerID) (\<lambda>q. case q of
       None \<Rightarrow> ret ()
     | Some quota \<Rightarrow>
         bindM (selectM (usageBytes ownerID)) (\<lambda>(lv, tr, vs).
         if lv + tr + vs + adding > quota then raise ErrQuota else ret ()))"

text \<open>\<open>SELECT path, kind FROM nodes WHERE id = $1 AND owner_id = $2 AND trashed_at IS NULL\<close>, checked.\<close>

definition live_folder_path :: "nat \<Rightarrow> nat \<Rightarrow> (world, string) m" where
  "live_folder_path ownerID i =
     bindM (selectM (\<lambda>w. find (\<lambda>n. n_id n = i \<and> n_owner n = ownerID \<and> n_trashed n = None) (nodes w)))
       (\<lambda>r. case r of
          None \<Rightarrow> raise ErrNotFound
        | Some n \<Rightarrow> if n_kind n \<noteq> KindFolder then raise ErrNotAFolder else ret (n_path n))"

definition file_slot :: "ext \<Rightarrow> put_file_input \<Rightarrow> string \<Rightarrow> (world, nat) m" where
  "file_slot x inp parentPath =
     bindM (selectM (\<lambda>w. find (\<lambda>n. n_parent n = Some (pf_ParentID inp) \<and> n_fold n = Fold x (pf_Name inp)
        \<and> n_trashed n = None) (nodes w))) (\<lambda>r. case r of
       Some n \<Rightarrow> if n_kind n \<noteq> KindFile then raise ErrNameTaken else ret (n_id n)
     | None \<Rightarrow>
         bindM (tryM (insert_node (\<lambda>i t. \<lparr>n_id = i, n_owner = pf_OwnerID inp,
           n_parent = Some (pf_ParentID inp), n_kind = KindFile, n_name = pf_Name inp,
           n_fold = Fold x (pf_Name inp), n_path = JoinPath parentPath (pf_Name inp), n_head = None,
           n_trashed = None, n_troot = None, n_created = t, n_updated = t\<rparr>))) (\<lambda>r. case r of
           Inl e \<Rightarrow> (if e = unique_violation then raise ErrNameTaken
                     else raise (Wrap ''create file node'' e))
         | Inr i \<Rightarrow> ret i))"

definition PutFile :: "ext \<Rightarrow> put_file_input \<Rightarrow> (world, node) m" where
  "PutFile x inp =
     thenM (check_name x (pf_Name inp))
     (if (pf_BlobKey inp = []) = (pf_ManifestID inp = None)
      then raise (Msg ''PutFile requires exactly one of BlobKey or ManifestID'')
      else
        (let mime = (if pf_MIME inp = [] then ''application/octet-stream'' else pf_MIME inp) in
         bindM (withTx
           (bindM (live_folder_path (pf_OwnerID inp) (pf_ParentID inp)) (\<lambda>parentPath.
            thenM (checkQuota (pf_OwnerID inp) (pf_Size inp))
            (bindM (if pf_BlobKey inp \<noteq> []
                    then bindM (wrapM ''record blob'' (insert_blob (pf_BlobKey inp) (pf_Size inp) (pf_SHA256 inp)))
                           (\<lambda>b. ret (Some b))
                    else ret None) (\<lambda>blobID.
             bindM (file_slot x inp parentPath) (\<lambda>nodeID.
             bindM (wrapM ''create version'' (insert_version nodeID blobID (pf_ManifestID inp)
                      (pf_Size inp) mime (Some (pf_OwnerID inp)))) (\<lambda>versionID.
             thenM (wrapM ''set head version'' (update_nodes (\<lambda>n. n_id n = nodeID)
                      (\<lambda>t n. n\<lparr>n_head := Some versionID, n_name := pf_Name inp, n_updated := t\<rparr>)))
             (ret nodeID))))))))
           (\<lambda>nodeID. store_Get (pf_OwnerID inp) nodeID)))"

definition likePrefix :: "string \<Rightarrow> string" where
  "likePrefix p = concat (map (\<lambda>c. if c = CHR 0x5C then [CHR 0x5C, CHR 0x5C]
     else if c = CHR ''%'' then [CHR 0x5C, CHR ''%'']
     else if c = CHR ''_'' then [CHR 0x5C, CHR ''_''] else [c]) p)"

definition rewrite_descendants :: "nat \<Rightarrow> string \<Rightarrow> string \<Rightarrow> (world, int) m" where
  "rewrite_descendants ownerID oldPath newPath =
     update_nodes (\<lambda>n. n_owner n = ownerID \<and> like (likePrefix oldPath @ ''/%'') (n_path n))
       (\<lambda>t n. n\<lparr>n_path := newPath @ pg_substring_from (n_path n) (int (length oldPath) + 1),
               n_updated := t\<rparr>)"

definition MoveOrRename :: "ext \<Rightarrow> nat \<Rightarrow> nat \<Rightarrow> nat option \<Rightarrow> string \<Rightarrow> (world, node) m" where
  "MoveOrRename x ownerID i newParentID newName =
     bindM (GetLive ownerID i) (\<lambda>node. case N_ParentID node of
       None \<Rightarrow> raise ErrRootReserved
     | Some oldParent \<Rightarrow>
         thenM (if newName \<noteq> [] then check_name x newName else ret ())
         (let name = (if newName \<noteq> [] then newName else N_Name node);
              parentID = (case newParentID of Some p \<Rightarrow> p | None \<Rightarrow> oldParent)
          in bindM (withTx
               (bindM (live_folder_path ownerID parentID) (\<lambda>parentPath.
                if IsFolder node \<and> (parentID = N_ID node \<or> HasPrefix (parentPath @ ''/'') (N_Path node @ ''/''))
                then raise ErrCycle
                else
                  (let newPath = JoinPath parentPath name
                   in if newPath = N_Path node \<and> parentID = oldParent then ret (Some node)
                      else
                        bindM (tryM (update_nodes (\<lambda>n. n_id n = i)
                           (\<lambda>t n. n\<lparr>n_parent := Some parentID, n_name := name, n_fold := Fold x name,
                                   n_path := newPath, n_updated := t\<rparr>))) (\<lambda>r. case r of
                          Inl e \<Rightarrow> (if e = unique_violation then raise ErrNameTaken
                                    else raise (Wrap ''move node'' e))
                        | Inr _ \<Rightarrow>
                            thenM (if IsFolder node
                                   then wrapM ''rewrite descendant paths''
                                          (rewrite_descendants ownerID (N_Path node) newPath)
                                   else ret 0)
                            (ret None))))))
               (\<lambda>same. case same of Some n \<Rightarrow> ret n | None \<Rightarrow> store_Get ownerID i)))"

definition Trash :: "nat \<Rightarrow> nat \<Rightarrow> (world, int) m" where
  "Trash ownerID i =
     bindM (GetLive ownerID i) (\<lambda>node.
     if IsRoot node then raise ErrRootReserved
     else withTx
       (bindM (update_nodes (\<lambda>n. n_id n = i \<and> n_owner n = ownerID \<and> n_trashed n = None)
          (\<lambda>t n. n\<lparr>n_trashed := Some t, n_troot := Some i, n_updated := t\<rparr>)) (\<lambda>affected.
        if affected = 0 then raise ErrNotFound
        else if IsFolder node then
          bindM (update_nodes (\<lambda>n. n_owner n = ownerID \<and> like (likePrefix (N_Path node) @ ''/%'') (n_path n)
                   \<and> n_trashed n = None)
             (\<lambda>t n. n\<lparr>n_trashed := Some t, n_troot := Some i, n_updated := t\<rparr>)) (\<lambda>more.
          ret (affected + more))
        else ret affected)))"

definition Restore :: "nat \<Rightarrow> nat \<Rightarrow> (world, node) m" where
  "Restore ownerID i =
     bindM (store_Get ownerID i) (\<lambda>node.
     if \<not> IsTrashed node then raise ErrNotTrashed
     else if N_TrashedRootID node \<noteq> Some (N_ID node)
       then raise (Wrap ''restore the folder it was deleted with instead'' ErrNotTrashed)
     else
       thenM (withTx
         (bindM (selectM (\<lambda>w. map_option n_trashed
            (find (\<lambda>n. Some (n_id n) = N_ParentID node \<and> n_owner n = ownerID) (nodes w)))) (\<lambda>r. case r of
            None \<Rightarrow> raise (Wrap ''the folder it lived in no longer exists'' ErrNotFound)
          | Some (Some _) \<Rightarrow> raise (Wrap ''restore its parent folder first'' ErrNotTrashed)
          | Some None \<Rightarrow>
              bindM (tryM (update_nodes (\<lambda>n. n_troot n = Some i \<and> n_owner n = ownerID)
                 (\<lambda>t n. n\<lparr>n_trashed := None, n_troot := None, n_updated := t\<rparr>))) (\<lambda>r. case r of
                Inl e \<Rightarrow> (if e = unique_violation then raise ErrNameTaken else raise (Wrap ''restore'' e))
              | Inr k \<Rightarrow> ret k))))
       (store_Get ownerID i))"

definition Purge :: "nat \<Rightarrow> nat \<Rightarrow> (world, unit) m" where
  "Purge ownerID i =
     bindM (store_Get ownerID i) (\<lambda>node.
     if \<not> IsTrashed node then raise ErrNotTrashed
     else thenM (delete_nodes (\<lambda>n. n_id n = i \<and> n_owner n = ownerID)) (ret ()))"

definition EmptyTrash :: "nat \<Rightarrow> (world, int) m" where
  "EmptyTrash ownerID = delete_nodes (\<lambda>n. n_owner n = ownerID \<and> n_troot n = Some (n_id n))"

definition AutoPurgeTrash :: "int \<Rightarrow> (world, int) m" where
  "AutoPurgeTrash olderThan =
     bindM (getM now) (\<lambda>t.
     delete_nodes (\<lambda>n. n_troot n = Some (n_id n) \<and>
       (case n_trashed n of None \<Rightarrow> False | Some at \<Rightarrow> at < t - olderThan)))"

section \<open>Blob lifecycle (store.go)\<close>

record BlobRef =
  BR_ID :: nat
  BR_StorageKey :: string
  BR_Size :: int
  BR_SHA256 :: string
  BR_Tier :: string

definition UnreferencedBlobs :: "int \<Rightarrow> nat \<Rightarrow> (world, BlobRef list) m" where
  "UnreferencedBlobs grace limit =
     selectM (\<lambda>w. map (\<lambda>b. \<lparr>BR_ID = b_id b, BR_StorageKey = b_key b, BR_Size = b_size b,
         BR_SHA256 = b_sha256 b, BR_Tier = []\<rparr>)
       (take limit (sort_key b_created (filter (\<lambda>b. b_ref b = 0 \<and> b_created b < now w - grace) (blobs w)))))"

text \<open>The foreign key of \<open>file_versions.blob_id\<close> is RESTRICT.\<close>

definition DeleteBlobRow :: "nat \<Rightarrow> (world, bool) m" where
  "DeleteBlobRow i =
     thenM dbM
     (bindM (getM (\<lambda>w. w)) (\<lambda>w.
      let hit = (\<lambda>b. b_id b = i \<and> b_ref b = 0)
      in if \<not> list_ex hit (blobs w) then ret False
         else if list_ex (\<lambda>v. v_blob v = Some i) (versions w) then raise fk_violation
         else thenM (modM (\<lambda>v. v\<lparr>blobs := filter (\<lambda>b. \<not> hit b) (blobs v)\<rparr>)) (ret True)))"

definition AllBlobKeys :: "(world, (string \<times> BlobRef) list) m" where
  "AllBlobKeys = selectM (\<lambda>w. fold (\<lambda>b m. AList.update (b_key b)
     \<lparr>BR_ID = b_id b, BR_StorageKey = b_key b, BR_Size = b_size b, BR_SHA256 = b_sha256 b,
      BR_Tier = b_tier b\<rparr> m) (blobs w) [])"

record MigratableVersion =
  MV_VersionID :: nat
  MV_BlobID :: nat
  MV_StorageKey :: string
  MV_Size :: int

definition MigratableVersions :: "int \<Rightarrow> nat \<Rightarrow> (world, MigratableVersion list) m" where
  "MigratableVersions minSize limit =
     selectM (\<lambda>w. take limit (List.map_filter
       (\<lambda>v. case by_id b_id (blobs w) (v_blob v) of
          None \<Rightarrow> None
        | Some b \<Rightarrow> Some \<lparr>MV_VersionID = v_id v, MV_BlobID = b_id b, MV_StorageKey = b_key b,
                         MV_Size = v_size v\<rparr>)
       (sort_key v_created (filter (\<lambda>v. v_manifest v = None \<and> v_size v \<ge> minSize) (versions w)))))"

definition SwitchToManifest :: "nat \<Rightarrow> nat \<Rightarrow> nat \<Rightarrow> (world, bool) m" where
  "SwitchToManifest versionID blobID manifestID =
     thenM dbM
     (bindM (getM (\<lambda>w. w)) (\<lambda>w.
      let hit = (\<lambda>v. v_id v = versionID \<and> v_blob v = Some blobID \<and> v_manifest v = None);
          f = (\<lambda>v. v\<lparr>v_blob := None, v_manifest := Some manifestID\<rparr>);
          bs = fold (\<lambda>v. blob_refcount_bump (Some v) (Some (f v))) (filter hit (versions w)) (blobs w)
      in if \<not> list_ex hit (versions w) then ret False
         else if manifestID \<notin> set (map mf_id (manifests w)) then raise fk_violation
         else if list_ex (\<lambda>b. b_ref b < 0) bs then raise check_violation
         else thenM (modM (\<lambda>u. u\<lparr>versions := map (\<lambda>v. if hit v then f v else v) (versions u),
                                 blobs := bs\<rparr>)) (ret True)))"

section \<open>versions.go\<close>

record Version =
  V_ID :: nat
  V_Size :: int
  V_MIME :: string
  V_CreatedAt :: int
  V_CreatedBy :: "nat option"
  V_IsHead :: bool
  V_ContentHash :: string
  V_ManifestID :: "nat option"

definition version_newer :: "version_row \<Rightarrow> version_row \<Rightarrow> bool" where
  "version_newer a b \<longleftrightarrow> v_created a > v_created b \<or> (v_created a = v_created b \<and> v_id a \<ge> v_id b)"

definition ListVersions :: "nat \<Rightarrow> nat \<Rightarrow> (world, Version list) m" where
  "ListVersions ownerID nodeID =
     bindM (selectM (\<lambda>w.
       case find (\<lambda>n. n_id n = nodeID \<and> n_owner n = ownerID \<and> n_trashed n = None) (nodes w) of
         None \<Rightarrow> []
       | Some n \<Rightarrow> map (\<lambda>v. \<lparr>V_ID = v_id v, V_Size = v_size v, V_MIME = v_mime v,
             V_CreatedAt = v_created v, V_CreatedBy = v_by v, V_IsHead = (n_head n = Some (v_id v)),
             V_ContentHash = (case version_hash w v of None \<Rightarrow> [] | Some h \<Rightarrow> h),
             V_ManifestID = v_manifest v\<rparr>)
           (order_by version_newer (filter (\<lambda>v. v_node v = nodeID) (versions w))))) (\<lambda>out.
     if out = [] then raise ErrNotFound else ret out)"

record VersionContent =
  VC_BlobKey :: string
  VC_ManifestID :: "nat option"
  VC_MIME :: string
  VC_Size :: int
  VC_ContentHash :: string
  VC_CreatedAt :: int
  VC_Name :: string

definition FindVersionContent :: "nat \<Rightarrow> nat \<Rightarrow> nat \<Rightarrow> (world, VersionContent) m" where
  "FindVersionContent ownerID nodeID versionID =
     bindM (selectM (\<lambda>w.
       case find (\<lambda>n. n_id n = nodeID \<and> n_owner n = ownerID \<and> n_trashed n = None) (nodes w) of
         None \<Rightarrow> None
       | Some n \<Rightarrow>
           (case find (\<lambda>v. v_id v = versionID \<and> v_node v = nodeID) (versions w) of
              None \<Rightarrow> None
            | Some v \<Rightarrow> Some \<lparr>VC_BlobKey =
                  (case by_id b_id (blobs w) (v_blob v) of None \<Rightarrow> [] | Some b \<Rightarrow> b_key b),
                VC_ManifestID = v_manifest v, VC_MIME = v_mime v, VC_Size = v_size v,
                VC_ContentHash = (case version_hash w v of None \<Rightarrow> [] | Some h \<Rightarrow> h),
                VC_CreatedAt = v_created v, VC_Name = n_name n\<rparr>))) (\<lambda>r. case r of
       None \<Rightarrow> raise ErrNotFound
     | Some vc \<Rightarrow> ret vc)"

definition RestoreVersion :: "nat \<Rightarrow> nat \<Rightarrow> nat \<Rightarrow> (world, node) m" where
  "RestoreVersion ownerID nodeID versionID =
     thenM (withTx
       (bindM (selectM (\<lambda>w. map_option (\<lambda>n. (n_kind n,
            case by_id v_id (versions w) (n_head n) of None \<Rightarrow> 0 | Some v \<Rightarrow> v_size v))
          (find (\<lambda>n. n_id n = nodeID \<and> n_owner n = ownerID \<and> n_trashed n = None) (nodes w)))) (\<lambda>r. case r of
          None \<Rightarrow> raise ErrNotFound
        | Some (k, headSize) \<Rightarrow>
            if k \<noteq> KindFile then raise ErrNotAFile
            else
              bindM (selectM (\<lambda>w. find (\<lambda>v. v_id v = versionID \<and> v_node v = nodeID) (versions w))) (\<lambda>r. case r of
                None \<Rightarrow> raise ErrNotFound
              | Some v \<Rightarrow>
                  thenM (if v_size v > headSize then checkQuota ownerID (v_size v - headSize) else ret ())
                  (bindM (wrapM ''create restore version'' (insert_version nodeID (v_blob v) (v_manifest v)
                           (v_size v) (v_mime v) (Some ownerID))) (\<lambda>newVersionID.
                   wrapM ''set head version'' (update_nodes (\<lambda>n. n_id n = nodeID)
                     (\<lambda>t n. n\<lparr>n_head := Some newVersionID, n_updated := t\<rparr>))))))))
     (store_Get ownerID nodeID)"

definition version_rank :: "version_row list \<Rightarrow> version_row \<Rightarrow> nat" where
  "version_rank vs v = length (filter (\<lambda>u. v_node u = v_node v \<and> version_newer u v) vs)"

definition prunable :: "nat \<Rightarrow> int \<Rightarrow> world \<Rightarrow> version_row \<Rightarrow> bool" where
  "prunable keepN retention w v \<longleftrightarrow>
     (case find (\<lambda>n. n_id n = v_node v) (nodes w) of
        None \<Rightarrow> False
      | Some n \<Rightarrow> (case n_head n of None \<Rightarrow> False | Some h \<Rightarrow> v_id v \<noteq> h)) \<and>
     version_rank (versions w) v > keepN \<and> v_created v < now w - retention"

definition PruneVersions :: "nat \<Rightarrow> int \<Rightarrow> nat \<Rightarrow> (world, int) m" where
  "PruneVersions keepN retention limit =
     bindM (getM (\<lambda>w. map v_id (take limit (sort_key v_created
       (filter (prunable keepN retention w) (versions w)))))) (\<lambda>ids.
     delete_versions (\<lambda>v. v_id v \<in> set ids))"

section \<open>changes.go and delta.go\<close>

definition LatestSeq :: "nat \<Rightarrow> (world, int) m" where
  "LatestSeq ownerID = selectM (\<lambda>w. case map_of (sync_state w) ownerID of None \<Rightarrow> 0 | Some s \<Rightarrow> s)"

definition EarliestSeq :: "nat \<Rightarrow> (world, int) m" where
  "EarliestSeq ownerID =
     selectM (\<lambda>w. case map chg_seq (filter (\<lambda>c. chg_owner c = ownerID) (changes w)) of
       [] \<Rightarrow> 0 | s # ss \<Rightarrow> fold min ss s)"

definition ChangesSince :: "nat \<Rightarrow> int \<Rightarrow> nat \<Rightarrow> (world, change_row list) m" where
  "ChangesSince ownerID since limit =
     selectM (\<lambda>w. take limit (sort_key chg_seq
       (filter (\<lambda>c. chg_owner c = ownerID \<and> chg_seq c > since) (changes w))))"

definition PruneChanges :: "int \<Rightarrow> nat \<Rightarrow> (world, int) m" where
  "PruneChanges retention limit =
     thenM dbM
     (bindM (getM (\<lambda>w. w)) (\<lambda>w.
      let gone = take limit (sort_key chg_at (filter (\<lambda>c. chg_at c < now w - retention) (changes w)));
          is_gone = (\<lambda>c. (chg_owner c, chg_seq c) \<in> set (map (\<lambda>g. (chg_owner g, chg_seq g)) gone))
      in thenM (modM (\<lambda>v. v\<lparr>changes := filter (\<lambda>c. \<not> is_gone c) (changes v)\<rparr>))
         (ret (int (length gone)))))"

definition references_chunk :: "world \<Rightarrow> nat \<Rightarrow> string \<Rightarrow> bool" where
  "references_chunk w ownerID hash \<longleftrightarrow> list_ex (\<lambda>mc. mc_hash mc = hash \<and>
     list_ex (\<lambda>v. v_manifest v = Some (mc_manifest mc) \<and>
       list_ex (\<lambda>n. n_id n = v_node v \<and> n_owner n = ownerID \<and> n_trashed n = None) (nodes w))
     (versions w)) (mchunks w)"

definition UserReferencesChunk :: "nat \<Rightarrow> string \<Rightarrow> (world, bool) m" where
  "UserReferencesChunk ownerID hash = selectM (\<lambda>w. references_chunk w ownerID hash)"

definition UserReferencesChunks :: "nat \<Rightarrow> string list \<Rightarrow> (world, string list) m" where
  "UserReferencesChunks ownerID hashes =
     selectM (\<lambda>w. remdups (map copy32 (filter (\<lambda>h. h \<in> set hashes \<and> references_chunk w ownerID h)
       (map mc_hash (mchunks w)))))"

end
