(* ===== verification/TreeInv.thy ===== *)
theory TreeInv
  imports Tree
begin

text \<open>
  The shape of the file tree as a property of the \<open>nodes\<close> rows: every node but a root hangs below a
  folder of its owner, its path is its folder's path and a name that folds to its folded name, the
  live nodes are closed upwards and a subtree that was trashed as one is marked as one.  The
  lemmas say what the code's path queries find in such a tree and which changes keep its shape.
\<close>

section \<open>Text\<close>

lemma like_percent: "like [CHR ''%''] s"
  by (induction s) (auto simp: like.simps(2))

lemma like_slash_percent: "like ''/%'' s \<longleftrightarrow> prefix ''/'' s"
  by (cases s) (auto simp: like.simps(2) [of "CHR ''/''"] like_percent)

lemma like_likePrefix: "like (likePrefix p @ q) s \<longleftrightarrow> (\<exists>t. s = p @ t \<and> like q t)"
proof (induction p arbitrary: s)
  case Nil
  show ?case by (simp add: likePrefix_def)
next
  case (Cons c p)
  have eq: "likePrefix (c # p) = likePrefix [c] @ likePrefix p" by (simp add: likePrefix_def)
  have "like (likePrefix [c] @ r) s \<longleftrightarrow> s \<noteq> [] \<and> hd s = c \<and> like r (tl s)" for r
    by (auto simp: likePrefix_def like.simps(2))
  then show ?case by (cases s) (auto simp: eq Cons.IH)
qed

lemma like_below: "like (likePrefix p @ ''/%'') s \<longleftrightarrow> prefix (p @ ''/'') s"
  by (auto simp: like_likePrefix like_slash_percent prefix_def)

lemma four_cases:
  obtains "xs = []" | a where "xs = [a]" | a b where "xs = [a, b]" | a b c ys where "xs = a # b # c # ys"
  by (metis list.exhaust)

lemma rune_len_slash: "cs \<noteq> [] \<Longrightarrow> rune_len (cs @ CHR ''/'' # r) = rune_len cs"
proof (cases cs)
  case (Cons c xs)
  show ?thesis
    by (rule four_cases [of xs]) (simp_all add: Cons rune_len.simps Let_def cont_byte_def)
qed simp

lemma rune_len_le: "rune_len s \<le> length s"
proof (cases s)
  case (Cons c xs)
  show ?thesis
    by (rule four_cases [of xs]) (simp_all add: Cons rune_len.simps Let_def cont_byte_def)
qed (simp add: rune_len.simps)

lemma runes_slash: "runes (s @ CHR ''/'' # r) = runes s @ runes (CHR ''/'' # r)"
proof (induction s rule: length_induct)
  case (1 s)
  show ?case
  proof (cases s)
    case (Cons c cs)
    let ?n = "rune_len s"
    have n: "rune_len (s @ CHR ''/'' # r) = ?n" "?n \<le> length s" "0 < ?n"
      using Cons rune_len_slash [of s] rune_len_le [of s] rune_len_pos [of s] by auto
    have "runes (drop ?n s @ CHR ''/'' # r) = runes (drop ?n s) @ runes (CHR ''/'' # r)"
      using 1 n Cons by (simp del: drop_append)
    moreover have "runes (s @ CHR ''/'' # r)
        = take ?n (s @ CHR ''/'' # r) # runes (drop ?n (s @ CHR ''/'' # r))"
      using n(1) Cons by (metis append_Cons runes.simps(2))
    moreover have "runes s = take ?n s # runes (drop ?n s)" using Cons by simp
    ultimately show ?thesis using n by simp
  qed simp
qed

text \<open>What \<open>substring(path from len(old)+1)\<close> yields for a path below \<open>old\<close>.\<close>

definition spliced :: "string \<Rightarrow> string \<Rightarrow> string" where
  "spliced old rest = concat (drop (length old - length (runes old)) (runes rest))"

lemma substring_below:
  assumes "prefix ''/'' rest"
  shows "pg_substring_from (old @ rest) (int (length old) + 1) = spliced old rest"
proof -
  obtain r where r: "rest = CHR ''/'' # r" using assms by (auto simp: prefix_def)
  show ?thesis
    using length_runes_le [of old] by (simp add: pg_substring_from_def spliced_def r runes_slash)
qed

lemma spliced_ascii: "ascii old \<Longrightarrow> spliced old rest = rest"
  by (simp add: spliced_def runes_ascii)

section \<open>The shape of the tree\<close>

definition child_path :: "ext \<Rightarrow> node_row \<Rightarrow> node_row \<Rightarrow> bool" where
  "child_path x m n \<longleftrightarrow> (\<exists>nm. n_path n = JoinPath (n_path m) nm \<and> nm \<noteq> [] \<and> CHR ''/'' \<notin> set nm
     \<and> Fold x nm = n_fold n)"

definition links :: "ext \<Rightarrow> node_row \<Rightarrow> node_row \<Rightarrow> bool" where
  "links x m n \<longleftrightarrow> n_parent n = Some (n_id m) \<and> n_owner n = n_owner m \<and> n_kind m = KindFolder \<and>
     child_path x m n \<and> (live n \<longrightarrow> live m) \<and>
     (\<forall>r. n_troot n = Some r \<longrightarrow> r = n_id n \<or> n_troot m = Some r)"

definition node_ok :: "ext \<Rightarrow> node_row list \<Rightarrow> node_row \<Rightarrow> bool" where
  "node_ok x ns n \<longleftrightarrow> nodes_name_check n \<and> (n_trashed n = None \<longleftrightarrow> n_troot n = None) \<and>
     (case n_parent n of None \<Rightarrow> live n \<and> n_kind n = KindFolder
      | Some _ \<Rightarrow> \<exists>m \<in> set ns. links x m n)"

definition tree_inv :: "ext \<Rightarrow> node_row list \<Rightarrow> bool" where
  "tree_inv x ns \<longleftrightarrow> distinct (map n_id ns) \<and> nodes_unique ns \<and> (\<forall>n \<in> set ns. node_ok x ns n)"

lemma same_id: "distinct (map n_id ns) \<Longrightarrow> m \<in> set ns \<Longrightarrow> n \<in> set ns \<Longrightarrow> n_id m = n_id n \<Longrightarrow> m = n"
  by (metis inj_on_def distinct_map)

text \<open>A path is its folder's path, a slash and a last name; the root's path counts as empty.\<close>

definition base :: "string \<Rightarrow> string" where
  "base p = (if p = ''/'' then [] else p)"

lemma JoinPath_base: "JoinPath p nm = base p @ CHR ''/'' # nm"
  by (simp add: JoinPath_def base_def)

lemma last_name: "CHR ''/'' \<notin> set nm \<Longrightarrow> after_slash (p @ CHR ''/'' # nm) = nm"
proof -
  assume "CHR ''/'' \<notin> set nm"
  then have "takeWhile (\<lambda>c. c \<noteq> CHR ''/'') (rev nm @ CHR ''/'' # rev p) = rev nm"
    by (subst takeWhile_append2) auto
  then show ?thesis by (simp add: after_slash_def)
qed

lemma split_path:
  "CHR ''/'' \<notin> set nm \<Longrightarrow> CHR ''/'' \<notin> set nm' \<Longrightarrow> p @ CHR ''/'' # nm = q @ CHR ''/'' # nm' \<longleftrightarrow> p = q \<and> nm = nm'"
  by (metis last_name append_same_eq)

lemma base_child [simp]: "nm \<noteq> [] \<Longrightarrow> base (p @ CHR ''/'' # nm) = p @ CHR ''/'' # nm"
  by (cases p) (auto simp: base_def)

lemma prefix_path:
  assumes "CHR ''/'' \<notin> set nm"
  shows "prefix (q @ ''/'') (p @ CHR ''/'' # nm) \<longleftrightarrow> p = q \<or> prefix (q @ ''/'') p"
proof
  assume "prefix (q @ ''/'') (p @ CHR ''/'' # nm)"
  then obtain t where t: "p @ CHR ''/'' # nm = (q @ ''/'') @ t" by (auto simp: prefix_def)
  show "p = q \<or> prefix (q @ ''/'') p"
  proof (cases "CHR ''/'' \<in> set t")
    case False
    with t assms show ?thesis by (simp add: split_path)
  next
    case True
    then obtain u v where uv: "t = u @ CHR ''/'' # v" "CHR ''/'' \<notin> set v" by (meson split_list_last)
    with t have "p @ CHR ''/'' # nm = (q @ CHR ''/'' # u) @ CHR ''/'' # v" by simp
    with split_path [OF assms uv(2), of p "q @ CHR ''/'' # u"] have "p = q @ CHR ''/'' # u" by simp
    then show ?thesis by simp
  qed
next
  assume "p = q \<or> prefix (q @ ''/'') p"
  then show "prefix (q @ ''/'') (p @ CHR ''/'' # nm)" by (auto simp: prefix_def)
qed

lemma node_okD:
  assumes "tree_inv x ns" "n \<in> set ns"
  shows "nodes_name_check n" "n_trashed n = None \<longleftrightarrow> n_troot n = None"
    "n_parent n = None \<Longrightarrow> live n \<and> n_kind n = KindFolder \<and> n_path n = ''/''"
proof -
  have ok: "node_ok x ns n" using assms by (simp add: tree_inv_def)
  then show "nodes_name_check n" "n_trashed n = None \<longleftrightarrow> n_troot n = None"
    by (simp_all only: node_ok_def)
  assume "n_parent n = None"
  with ok show "live n \<and> n_kind n = KindFolder \<and> n_path n = ''/''"
    by (simp add: node_ok_def nodes_name_check_def)
qed

lemma linksD:
  assumes "links x m n"
  shows "n_parent n = Some (n_id m)" "n_owner m = n_owner n" "n_kind m = KindFolder"
    "live n \<Longrightarrow> live m" "n_troot n = Some r \<Longrightarrow> r = n_id n \<or> n_troot m = Some r"
  using assms by (simp_all add: links_def)

lemma parentE:
  assumes "tree_inv x ns" "n \<in> set ns" "n_parent n = Some p"
  obtains m nm where "m \<in> set ns" "n_id m = p" "n_owner m = n_owner n" "n_kind m = KindFolder"
    "n_path n = base (n_path m) @ CHR ''/'' # nm" "nm \<noteq> []" "CHR ''/'' \<notin> set nm" "Fold x nm = n_fold n"
    "live n \<Longrightarrow> live m" "\<And>r. n_troot n = Some r \<Longrightarrow> r = n_id n \<or> n_troot m = Some r"
    "links x m n"
proof -
  from assms obtain m where m: "m \<in> set ns" "links x m n"
    by (fastforce simp: tree_inv_def node_ok_def)
  then obtain nm where nm: "n_path n = base (n_path m) @ CHR ''/'' # nm" "nm \<noteq> []" "CHR ''/'' \<notin> set nm"
    "Fold x nm = n_fold n"
    by (auto simp: links_def child_path_def JoinPath_base)
  have "n_id m = p" using linksD(1) [OF m(2)] assms(3) by simp
  from that [OF m(1) this linksD(2,3) [OF m(2)] nm linksD(4,5) [OF m(2)] m(2)] show ?thesis by blast
qed

text \<open>Two live nodes of an owner with the same path are the same node.\<close>

lemma live_path_inj:
  assumes inv: "tree_inv x ns"
  shows "m \<in> set ns \<Longrightarrow> n \<in> set ns \<Longrightarrow> live m \<Longrightarrow> live n \<Longrightarrow> n_owner m = n_owner n \<Longrightarrow>
    n_path m = n_path n \<Longrightarrow> m = n"
proof (induction "length (n_path m)" arbitrary: m n rule: less_induct)
  case less
  note u = inv [unfolded tree_inv_def, THEN conjunct2, THEN conjunct1, unfolded nodes_unique_def]
  show ?case
  proof (cases "n_parent m")
    case None
    have "n_parent n = None"
    proof (rule ccontr)
      assume "n_parent n \<noteq> None"
      then obtain p where "n_parent n = Some p" by auto
      from parentE [OF inv less.prems(2) this] obtain q nm where "n_path n = q @ CHR ''/'' # nm" "nm \<noteq> []"
        by metis
      moreover have "n_path n = ''/''" using node_okD(3) [OF inv less.prems(1)] None less.prems(6) by simp
      ultimately show False by (cases q) auto
    qed
    with None u less.prems have "m \<in> set (filter (\<lambda>n. live n \<and> n_parent n = None) ns)"
      "n \<in> set (filter (\<lambda>n. live n \<and> n_parent n = None) ns)" by auto
    with u less.prems(5) show ?thesis by (metis (no_types, lifting) distinct_map inj_onD)
  next
    case (Some p)
    obtain a nm where a: "a \<in> set ns" "n_id a = p" "n_owner a = n_owner m" "live a"
      "n_path m = base (n_path a) @ CHR ''/'' # nm" "nm \<noteq> []" "CHR ''/'' \<notin> set nm" "Fold x nm = n_fold m"
      "n_kind a = KindFolder"
      using parentE [OF inv less.prems(1) Some] less.prems(3) by metis
    have "n_parent n \<noteq> None"
    proof
      assume "n_parent n = None"
      then have "n_path n = ''/''" using node_okD(3) [OF inv less.prems(2)] by simp
      with less.prems(6) a(5,6) show False by (cases "base (n_path a)") auto
    qed
    then obtain q where q: "n_parent n = Some q" by auto
    obtain b nm' where b: "b \<in> set ns" "n_id b = q" "n_owner b = n_owner n" "live b"
      "n_path n = base (n_path b) @ CHR ''/'' # nm'" "nm' \<noteq> []" "CHR ''/'' \<notin> set nm'" "Fold x nm' = n_fold n"
      using parentE [OF inv less.prems(2) q] less.prems(4) by metis
    from a b less.prems(6) have eq: "base (n_path a) = base (n_path b)" "nm = nm'"
      by (auto simp: split_path)
    have nonempty: "c \<in> set ns \<Longrightarrow> n_path c \<noteq> []" for c
      using parentE [OF inv, of c] node_okD(3) [OF inv, of c]
      by (metis Nil_is_append_conv list.distinct(1) not_None_eq)
    with eq nonempty [OF a(1)] nonempty [OF b(1)] have "n_path a = n_path b" by (auto simp: base_def split: if_splits)
    moreover have "length (n_path a) < length (n_path m)"
      using a(5,6) by (auto simp: base_def split: if_splits)
    ultimately have "a = b" using less.hyps a b less.prems(5) by metis
    with a b q Some eq have "n_parent m = n_parent n" "n_fold m = n_fold n" by auto
    moreover have "m \<in> set (filter (\<lambda>n. live n \<and> n_parent n \<noteq> None) ns)"
      "n \<in> set (filter (\<lambda>n. live n \<and> n_parent n \<noteq> None) ns)" using less.prems Some q by auto
    ultimately show ?thesis using u by (metis (no_types, lifting) distinct_map inj_onD)
  qed
qed

text \<open>Whatever lies below a path has an ancestor at that path.\<close>

lemma ancestor_at:
  assumes inv: "tree_inv x ns"
  shows "n \<in> set ns \<Longrightarrow> prefix (q @ ''/'') (n_path n) \<Longrightarrow> q \<noteq> [] \<Longrightarrow>
    \<exists>a \<in> set ns. n_path a = q \<and> n_owner a = n_owner n \<and> n_kind a = KindFolder \<and> (live n \<longrightarrow> live a)"
proof (induction "length (n_path n)" arbitrary: n rule: less_induct)
  case less
  show ?case
  proof (cases "n_parent n")
    case None
    then have "n_path n = ''/''" using node_okD(3) [OF inv less.prems(1)] by simp
    with less.prems show ?thesis by (cases q) auto
  next
    case (Some p)
    obtain a nm where a: "a \<in> set ns" "n_owner a = n_owner n" "n_kind a = KindFolder"
      "n_path n = base (n_path a) @ CHR ''/'' # nm" "nm \<noteq> []" "CHR ''/'' \<notin> set nm" "live n \<longrightarrow> live a"
      using parentE [OF inv less.prems(1) Some] by metis
    from less.prems(2) a have "base (n_path a) = q \<or> prefix (q @ ''/'') (base (n_path a))"
      by (simp add: prefix_path)
    then show ?thesis
    proof
      assume "base (n_path a) = q"
      with less.prems(3) a show ?thesis by (auto simp: base_def split: if_splits)
    next
      assume pr: "prefix (q @ ''/'') (base (n_path a))"
      then have "prefix (q @ ''/'') (n_path a)" by (auto simp: base_def split: if_splits)
      moreover have "length (n_path a) < length (n_path n)"
        using a(4,5) by (auto simp: base_def split: if_splits)
      ultimately show ?thesis using less.hyps [OF _ a(1)] a less.prems(3) by metis
    qed
  qed
qed

text \<open>So the live nodes the code finds under a live folder's path are those below that folder.\<close>

lemma live_below:
  assumes inv: "tree_inv x ns" and i: "i \<in> set ns" "live i" and n: "n \<in> set ns" "live n"
    and own: "n_owner n = n_owner i" and pre: "prefix (n_path i @ ''/'') (n_path n)" and ne: "n_path i \<noteq> []"
  obtains m where "m \<in> set ns" "links x m n" "m = i \<or> prefix (n_path i @ ''/'') (n_path m)"
proof -
  have "n_path n \<noteq> ''/''" using pre ne by (cases "n_path i") (auto simp: prefix_Cons)
  then have "n_parent n \<noteq> None" using node_okD(3) [OF inv n(1)] by blast
  then obtain p where p: "n_parent n = Some p" by auto
  obtain m nm where m: "m \<in> set ns" "n_owner m = n_owner n" "links x m n" "live n \<longrightarrow> live m"
    "n_path n = base (n_path m) @ CHR ''/'' # nm" "CHR ''/'' \<notin> set nm"
    using parentE [OF inv n(1) p] by metis
  with pre have "base (n_path m) = n_path i \<or> prefix (n_path i @ ''/'') (base (n_path m))"
    by (simp add: prefix_path)
  then have "m = i \<or> prefix (n_path i @ ''/'') (n_path m)"
    using live_path_inj [OF inv m(1) i(1)] m n i own ne by (auto simp: base_def split: if_splits)
  with that m show ?thesis by metis
qed

section \<open>Changes to the tree\<close>

lemma tree_inv_map:
  assumes inv: "tree_inv x ns" and u: "nodes_unique (map g ns)"
    and keep: "\<And>n. n \<in> set ns \<Longrightarrow> n_id (g n) = n_id n \<and> nodes_name_check (g n) \<and>
      (n_trashed (g n) = None \<longleftrightarrow> n_troot (g n) = None)"
    and root: "\<And>n. n \<in> set ns \<Longrightarrow> n_parent n = None \<Longrightarrow> g n = n \<or>
      (n_parent (g n) = None \<and> live (g n) \<and> n_kind (g n) = KindFolder)"
    and link: "\<And>n m. n \<in> set ns \<Longrightarrow> m \<in> set ns \<Longrightarrow> links x m n \<Longrightarrow>
      \<exists>m' \<in> set ns. links x (g m') (g n)"
  shows "tree_inv x (map g ns)"
proof -
  have "map n_id (map g ns) = map n_id ns" using keep by simp
  with inv have "distinct (map n_id (map g ns))" by (simp only: tree_inv_def)
  moreover have "node_ok x (map g ns) (g n)" if n: "n \<in> set ns" for n
  proof (cases "n_parent n")
    case None
    with root [OF n None] node_okD(3) [OF inv n] keep [OF n]
    show ?thesis by (auto simp: node_ok_def)
  next
    case (Some p)
    obtain m where m: "m \<in> set ns" "links x m n" using parentE [OF inv n Some] by metis
    obtain m' where m': "m' \<in> set ns" "links x (g m') (g n)" using link [OF n m] by blast
    with linksD(1) [OF m'(2)] keep [OF n] show ?thesis by (auto simp: node_ok_def)
  qed
  ultimately show ?thesis using u by (auto simp: tree_inv_def)
qed

lemma tree_inv_append:
  assumes inv: "tree_inv x ns" and u: "nodes_unique (ns @ [k])" and new: "n_id k \<notin> n_id ` set ns"
    and check: "nodes_name_check k" "live k" "n_troot k = None"
    and link: "n_parent k = None \<and> n_kind k = KindFolder \<or> (\<exists>m \<in> set ns. links x m k)"
  shows "tree_inv x (ns @ [k])"
proof -
  have "node_ok x (ns @ [k]) n" if "n \<in> set ns" for n
    using inv that by (auto simp: tree_inv_def node_ok_def split: option.splits)
  moreover have "node_ok x (ns @ [k]) k"
    using check link by (auto simp: node_ok_def live_def links_def)
  ultimately show ?thesis using inv u new by (auto simp: tree_inv_def)
qed

lemma nodes_unique_filter: "nodes_unique ns \<Longrightarrow> nodes_unique (filter q ns)"
  by (auto simp: nodes_unique_def filter_filter conj_commute intro: distinct_map_filter
      dest: distinct_map_filter [where P = q])

lemma tree_inv_filter:
  assumes inv: "tree_inv x ns"
    and up: "\<And>n m. n \<in> set ns \<Longrightarrow> m \<in> set ns \<Longrightarrow> q n \<Longrightarrow> n_parent n = Some (n_id m) \<Longrightarrow> q m"
  shows "tree_inv x (filter q ns)"
proof -
  have "node_ok x (filter q ns) n" if n: "n \<in> set ns" "q n" for n
  proof (cases "n_parent n")
    case None
    with inv n(1) show ?thesis by (auto simp: tree_inv_def node_ok_def)
  next
    case (Some p)
    obtain m where m: "m \<in> set ns" "links x m n" using parentE [OF inv n(1) Some] by metis
    with up [OF n(1) m(1) n(2) linksD(1) [OF m(2)]] have "m \<in> set (filter q ns)" by simp
    with m(2) inv n(1) Some show ?thesis by (auto simp: tree_inv_def node_ok_def)
  qed
  with inv show ?thesis
    by (auto simp: tree_inv_def distinct_map_filter nodes_unique_filter)
qed

text \<open>The cascade: \<open>descend\<close> reaches everything below the ids it starts from, and nothing else.\<close>

definition kids :: "node_row list \<Rightarrow> nat set \<Rightarrow> nat set" where
  "kids ns S = {n_id n | n. n \<in> set ns \<and> n_id n \<notin> S \<and> (\<exists>p \<in> S. n_parent n = Some p)}"

lemma descend_step: "set (descend (Suc k) ns ids) = set (descend k ns (ids @ map n_id (filter (\<lambda>n. n_id n \<notin> set ids \<and>
    (case n_parent n of None \<Rightarrow> False | Some p \<Rightarrow> p \<in> set ids)) ns)))"
  by simp

lemma set_kids: "set (map n_id (filter (\<lambda>n. n_id n \<notin> set ids \<and>
    (case n_parent n of None \<Rightarrow> False | Some p \<Rightarrow> p \<in> set ids)) ns)) = kids ns (set ids)"
  by (auto simp: kids_def split: option.splits)

lemma descend_closed:
  "card (n_id ` set ns - set ids) \<le> k \<Longrightarrow> kids ns (set (descend k ns ids)) = {}"
proof (induction k arbitrary: ids)
  case 0
  then have "n_id ` set ns - set ids = {}" by simp
  then show ?case by (auto simp: kids_def)
next
  case (Suc k)
  let ?new = "map n_id (filter (\<lambda>n. n_id n \<notin> set ids \<and>
    (case n_parent n of None \<Rightarrow> False | Some p \<Rightarrow> p \<in> set ids)) ns)"
  show ?case
  proof (cases "?new = []")
    case True
    have stable: "descend j ns ids = ids" for j
      by (induction j) (simp_all add: True [simplified])
    from True have "kids ns (set ids) = {}" by (simp only: set_kids [symmetric] list.set(1))
    with stable [of "Suc k"] show ?thesis by simp
  next
    case False
    then obtain j where j: "j \<in> set ?new" by (meson list.set_sel(1))
    then have "j \<in> n_id ` set ns - set ids" by auto
    with j have "n_id ` set ns - set (ids @ ?new) \<subset> n_id ` set ns - set ids" by auto
    then have "card (n_id ` set ns - set (ids @ ?new)) < card (n_id ` set ns - set ids)"
      by (simp add: psubset_card_mono)
    with Suc.prems have "card (n_id ` set ns - set (ids @ ?new)) \<le> k" by linarith
    from Suc.IH [OF this] show ?thesis by simp
  qed
qed

lemma descend_mono: "set ids \<subseteq> set (descend k ns ids)"
  by (induction k arbitrary: ids) force+

lemma descend_all: "kids ns (set (descend (length ns) ns ids)) = {}"
proof (rule descend_closed)
  have "card (n_id ` set ns - set ids) \<le> card (n_id ` set ns)" by (simp add: card_mono)
  also have "\<dots> \<le> length ns" by (metis card_image_le card_length finite_set le_trans)
  finally show "card (n_id ` set ns - set ids) \<le> length ns" .
qed

lemma descend_induct:
  assumes "\<And>i. i \<in> set ids \<Longrightarrow> Q i"
    and "\<And>n p. n \<in> set ns \<Longrightarrow> n_parent n = Some p \<Longrightarrow> Q p \<Longrightarrow> Q (n_id n)"
  shows "i \<in> set (descend k ns ids) \<Longrightarrow> Q i"
  using assms(1)
proof (induction k arbitrary: ids)
  case (Suc k)
  show ?case
  proof (rule Suc.IH)
    show "i \<in> set (descend k ns (ids @ map n_id (filter (\<lambda>n. n_id n \<notin> set ids \<and>
        (case n_parent n of None \<Rightarrow> False | Some p \<Rightarrow> p \<in> set ids)) ns)))" using Suc.prems(1) by simp
  next
    fix j assume "j \<in> set (ids @ map n_id (filter (\<lambda>n. n_id n \<notin> set ids \<and>
        (case n_parent n of None \<Rightarrow> False | Some p \<Rightarrow> p \<in> set ids)) ns))"
    then show "Q j" using Suc.prems(2) assms(2) by (auto split: option.splits)
  qed
qed simp

section \<open>The three moves: trash, restore, rename\<close>

definition below :: "node_row \<Rightarrow> node_row \<Rightarrow> bool" where
  "below i n \<longleftrightarrow> n_owner n = n_owner i \<and> prefix (n_path i @ ''/'') (n_path n)"

lemma tree_path_nonempty: "tree_inv x ns \<Longrightarrow> n \<in> set ns \<Longrightarrow> n_path n \<noteq> []"
  using parentE [of x ns n] node_okD(3) [of x ns n]
  by (metis Nil_is_append_conv list.distinct(1) not_None_eq)

lemma below_child:
  assumes l: "links x m n" and m: "m = i \<or> below i m" and ne: "n_path i \<noteq> ''/''" "n_path i \<noteq> []"
  shows "below i n"
proof -
  from l obtain nm where "n_path n = base (n_path m) @ CHR ''/'' # nm"
    by (auto simp: links_def child_path_def JoinPath_base)
  with m ne linksD(2) [OF l] show ?thesis
    by (cases "n_path i") (auto simp: below_def base_def prefix_def split: if_splits)
qed

text \<open>\<open>Trash\<close> stamps a live node and the live nodes below it.\<close>

definition trash_row :: "int \<Rightarrow> nat \<Rightarrow> node_row \<Rightarrow> node_row" where
  "trash_row t i n = n\<lparr>n_trashed := Some t, n_troot := Some i, n_updated := t\<rparr>"

lemma trash_row_simps [simp]:
  "n_id (trash_row t i n) = n_id n" "n_owner (trash_row t i n) = n_owner n"
  "n_parent (trash_row t i n) = n_parent n" "n_kind (trash_row t i n) = n_kind n"
  "n_name (trash_row t i n) = n_name n" "n_fold (trash_row t i n) = n_fold n"
  "n_path (trash_row t i n) = n_path n" "n_head (trash_row t i n) = n_head n"
  "n_trashed (trash_row t i n) = Some t" "n_troot (trash_row t i n) = Some i"
  by (simp_all add: trash_row_def)

lemma filter_map_keep:
  "(\<And>n. n \<in> set ns \<Longrightarrow> q (g n) \<Longrightarrow> g n = n) \<Longrightarrow> \<exists>r. filter q (map g ns) = filter r (filter q ns)"
proof -
  assume k: "\<And>n. n \<in> set ns \<Longrightarrow> q (g n) \<Longrightarrow> g n = n"
  then have "filter q (map g ns) = filter (\<lambda>n. q (g n)) (filter q ns)"
  proof (induction ns)
    case (Cons a ns)
    have "q (g a) \<Longrightarrow> g a = a \<and> q a" using Cons.prems [of a] by (metis list.set_intros(1))
    with Cons show ?case by (cases "q (g a)") auto
  qed simp
  then show ?thesis by blast
qed

lemma nodes_unique_shrink:
  assumes u: "nodes_unique ns" and k: "\<And>n. n \<in> set ns \<Longrightarrow> live (g n) \<Longrightarrow> g n = n"
  shows "nodes_unique (map g ns)"
proof -
  obtain r where "filter (\<lambda>n. live n \<and> n_parent n \<noteq> None) (map g ns)
      = filter r (filter (\<lambda>n. live n \<and> n_parent n \<noteq> None) ns)"
    using filter_map_keep [of ns "\<lambda>n. live n \<and> n_parent n \<noteq> None" g] k by auto
  moreover obtain r' where "filter (\<lambda>n. live n \<and> n_parent n = None) (map g ns)
      = filter r' (filter (\<lambda>n. live n \<and> n_parent n = None) ns)"
    using filter_map_keep [of ns "\<lambda>n. live n \<and> n_parent n = None" g] k by auto
  ultimately show ?thesis using u by (simp add: nodes_unique_def distinct_map_filter del: filter_filter not_None_eq)
qed

lemma tree_inv_trash:
  assumes inv: "tree_inv x ns" and i: "i \<in> set ns" "live i" "n_parent i \<noteq> None" "n_path i \<noteq> ''/''"
  shows "tree_inv x (map (\<lambda>n. if n = i \<or> below i n \<and> live n then trash_row t (n_id i) n else n) ns)"
    (is "tree_inv x (map ?g ns)")
proof (rule tree_inv_map [OF inv])
  show "nodes_unique (map ?g ns)"
    by (rule nodes_unique_shrink) (use inv in \<open>auto simp: tree_inv_def live_def split: if_splits\<close>)
next
  fix n assume n: "n \<in> set ns"
  then show "n_id (?g n) = n_id n \<and> nodes_name_check (?g n) \<and> (n_trashed (?g n) = None \<longleftrightarrow> n_troot (?g n) = None)"
    using node_okD(1,2) [OF inv n] by (simp add: nodes_name_check_def)
  assume p: "n_parent n = None"
  with node_okD(3) [OF inv n] tree_path_nonempty [OF inv i(1)] have "\<not> below i n"
    by (cases "n_path i") (auto simp: below_def prefix_Cons)
  with p i(3) show "?g n = n \<or> n_parent (?g n) = None \<and> live (?g n) \<and> n_kind (?g n) = KindFolder" by auto
next
  fix n m assume n: "n \<in> set ns" and m: "m \<in> set ns" and l: "links x m n"
  show "\<exists>m' \<in> set ns. links x (?g m') (?g n)"
  proof (cases "m = i \<or> below i m \<and> live m")
    case True
    then have b: "below i n" using below_child [OF l _ i(4) tree_path_nonempty [OF inv i(1)]] by blast
    have gm: "?g m = trash_row t (n_id i) m" using True by auto
    have "links x (?g m) (?g n)"
    proof (cases "live n")
      case True
      with b have gn: "?g n = trash_row t (n_id i) n" by simp
      from l have "links x (trash_row t (n_id i) m) (trash_row t (n_id i) n)"
        by (simp add: links_def child_path_def live_def)
      then show ?thesis by (simp only: gm gn)
    next
      case False
      with i(2) have gn: "?g n = n" by auto
      have "live m" using True i(2) by blast
      with node_okD(2) [OF inv m] have "n_troot m = None" by (simp add: live_def)
      with l False have "links x (trash_row t (n_id i) m) n" by (simp add: links_def child_path_def)
      then show ?thesis by (simp only: gm gn)
    qed
    with m show ?thesis by blast
  next
    case False
    have "n_id n = n_id i \<Longrightarrow> n = i" using inv n i(1) by (auto simp: tree_inv_def intro: same_id)
    then have "links x (?g m) (?g n)"
    proof (cases "n = i \<or> below i n \<and> live n")
      case True
      show ?thesis
      proof (cases "n = i")
        case True
        with False l show ?thesis by (auto simp: links_def child_path_def live_def)
      next
        case ni: False
        with True have bn: "below i n" "live n" by auto
        have own: "n_owner n = n_owner i" and pre: "prefix (n_path i @ ''/'') (n_path n)"
          using bn(1) by (simp_all add: below_def)
        obtain m' where m': "m' \<in> set ns" "links x m' n" "m' = i \<or> prefix (n_path i @ ''/'') (n_path m')"
          using live_below [OF inv i(1,2) n bn(2) own pre tree_path_nonempty [OF inv i(1)]] .
        have "n_id m' = n_id m" using linksD(1) [OF l] linksD(1) [OF m'(2)] by simp
        with inv m m'(1) have "m' = m" by (auto simp: tree_inv_def intro: same_id)
        with m' False linksD(2,4) [OF l] bn show ?thesis by (auto simp: below_def)
      qed
    next
      case nn: False
      with False l show ?thesis by (auto simp: links_def)
    qed
    with m show ?thesis by blast
  qed
qed

text \<open>\<open>Restore\<close> takes the mark off every row of one trashed subtree.\<close>

definition restore_row :: "int \<Rightarrow> node_row \<Rightarrow> node_row" where
  "restore_row t n = n\<lparr>n_trashed := None, n_troot := None, n_updated := t\<rparr>"

lemma restore_row_simps [simp]:
  "n_id (restore_row t n) = n_id n" "n_owner (restore_row t n) = n_owner n"
  "n_parent (restore_row t n) = n_parent n" "n_kind (restore_row t n) = n_kind n"
  "n_name (restore_row t n) = n_name n" "n_fold (restore_row t n) = n_fold n"
  "n_path (restore_row t n) = n_path n" "n_head (restore_row t n) = n_head n"
  "n_trashed (restore_row t n) = None" "n_troot (restore_row t n) = None"
  by (simp_all add: restore_row_def)

lemma links_restored:
  assumes l: "links x m n"
    and live: "n_trashed n = None \<longleftrightarrow> n_troot n = None" "n_trashed m = None \<longleftrightarrow> n_troot m = None"
    and top: "n_troot n = Some r \<Longrightarrow> n_id n = r \<Longrightarrow> n_owner n = own \<Longrightarrow> live m"
    and g: "\<And>k. g k = (if n_troot k = Some r \<and> n_owner k = own then restore_row t k else k)"
  shows "links x (g m) (g n)"
proof (cases "n_troot n = Some r \<and> n_owner n = own")
  case True
  with linksD(5) [OF l, of r] top linksD(2) [OF l] show ?thesis
    using l by (auto simp: g links_def child_path_def live_def)
next
  case False
  then have gn: "g n = n" by (auto simp: g)
  show ?thesis
  proof (cases "n_troot m = Some r \<and> n_owner m = own")
    case True
    with False linksD(2,5) [OF l] have "n_troot n = Some k \<Longrightarrow> k = n_id n" for k by auto
    with l True gn show ?thesis by (simp add: g links_def child_path_def live_def)
  next
    case False
    then have "g m = m" by (auto simp: g)
    with gn l show ?thesis by simp
  qed
qed

lemma tree_inv_restore:
  assumes inv: "tree_inv x ns" and top: "\<And>m n. n \<in> set ns \<Longrightarrow> n_id n = r \<Longrightarrow> m \<in> set ns \<Longrightarrow> links x m n \<Longrightarrow> live m"
    and u: "nodes_unique (map (\<lambda>n. if n_troot n = Some r \<and> n_owner n = own then restore_row t n else n) ns)"
  shows "tree_inv x (map (\<lambda>n. if n_troot n = Some r \<and> n_owner n = own then restore_row t n else n) ns)"
    (is "tree_inv x (map ?g ns)")
proof (rule tree_inv_map [OF inv u])
  fix n assume n: "n \<in> set ns"
  show "n_id (?g n) = n_id n \<and> nodes_name_check (?g n) \<and> (n_trashed (?g n) = None \<longleftrightarrow> n_troot (?g n) = None)"
    using node_okD(1,2) [OF inv n] by (simp add: nodes_name_check_def)
  assume "n_parent n = None"
  with node_okD(2,3) [OF inv n] have "n_troot n = None" by (simp add: live_def)
  then show "?g n = n \<or> n_parent (?g n) = None \<and> live (?g n) \<and> n_kind (?g n) = KindFolder" by simp
next
  fix n m assume n: "n \<in> set ns" and m: "m \<in> set ns" and l: "links x m n"
  have "links x (?g m) (?g n)"
    by (rule links_restored [OF l node_okD(2) [OF inv n] node_okD(2) [OF inv m]])
       (use top n m l in auto)
  with m show "\<exists>m' \<in> set ns. links x (?g m') (?g n)" by blast
qed

text \<open>
  A rename or move rewrites one row and splices the paths below it.  It keeps the tree in shape if
  the old path is ASCII (the splice then cuts where it should) and no other node of the owner, in
  the trash, has the old path.
\<close>

definition moved_row :: "int \<Rightarrow> nat \<Rightarrow> string \<Rightarrow> string \<Rightarrow> string \<Rightarrow> node_row \<Rightarrow> node_row" where
  "moved_row t p nm fd path n = n\<lparr>n_parent := Some p, n_name := nm, n_fold := fd, n_path := path, n_updated := t\<rparr>"

definition spliced_row :: "int \<Rightarrow> string \<Rightarrow> string \<Rightarrow> node_row \<Rightarrow> node_row" where
  "spliced_row t old new n =
     n\<lparr>n_path := new @ spliced old (drop (length old) (n_path n)), n_updated := t\<rparr>"

lemma moved_row_simps [simp]:
  "n_id (moved_row t p nm fd q n) = n_id n" "n_owner (moved_row t p nm fd q n) = n_owner n"
  "n_parent (moved_row t p nm fd q n) = Some p" "n_kind (moved_row t p nm fd q n) = n_kind n"
  "n_name (moved_row t p nm fd q n) = nm" "n_fold (moved_row t p nm fd q n) = fd"
  "n_path (moved_row t p nm fd q n) = q" "n_head (moved_row t p nm fd q n) = n_head n"
  "n_trashed (moved_row t p nm fd q n) = n_trashed n" "n_troot (moved_row t p nm fd q n) = n_troot n"
  by (simp_all add: moved_row_def)

lemma spliced_row_simps [simp]:
  "n_id (spliced_row t old q n) = n_id n" "n_owner (spliced_row t old q n) = n_owner n"
  "n_parent (spliced_row t old q n) = n_parent n" "n_kind (spliced_row t old q n) = n_kind n"
  "n_name (spliced_row t old q n) = n_name n" "n_fold (spliced_row t old q n) = n_fold n"
  "n_path (spliced_row t old q n) = q @ spliced old (drop (length old) (n_path n))"
  "n_head (spliced_row t old q n) = n_head n"
  "n_trashed (spliced_row t old q n) = n_trashed n" "n_troot (spliced_row t old q n) = n_troot n"
  by (simp_all add: spliced_row_def)

lemma child_moved:
  assumes l: "links x m n" and asc: "ascii (n_path i)" and ne: "n_path i \<noteq> ''/''" "n_path i \<noteq> []"
    and new: "q \<noteq> ''/''" "q \<noteq> []" and m: "m = i \<or> below i m"
  shows "child_path x (moved_row t p nm fd q i) (spliced_row t (n_path i) q n) \<or> m \<noteq> i"
    and "child_path x (spliced_row t (n_path i) q m) (spliced_row t (n_path i) q n) \<or> m = i"
proof -
  from l obtain last where last: "n_path n = base (n_path m) @ CHR ''/'' # last" "last \<noteq> []"
    "CHR ''/'' \<notin> set last" "Fold x last = n_fold n"
    by (auto simp: links_def child_path_def JoinPath_base)
  show "child_path x (moved_row t p nm fd q i) (spliced_row t (n_path i) q n) \<or> m \<noteq> i"
  proof (cases "m = i")
    case True
    with last ne have "n_path n = n_path i @ CHR ''/'' # last" by (simp add: base_def)
    with last new asc show ?thesis
      by (auto simp: child_path_def JoinPath_base base_def spliced_ascii)
  qed simp
  show "child_path x (spliced_row t (n_path i) q m) (spliced_row t (n_path i) q n) \<or> m = i"
  proof (cases "m = i")
    case False
    with m obtain s where s: "n_path m = n_path i @ CHR ''/'' # s" by (auto simp: below_def prefix_def)
    with ne have "n_path m \<noteq> ''/''" by (cases "n_path i") auto
    with last s have "n_path n = n_path i @ CHR ''/'' # s @ CHR ''/'' # last" by (simp add: base_def)
    moreover have "q @ CHR ''/'' # s \<noteq> ''/''" using new by (cases q) auto
    ultimately show ?thesis
      using last s asc by (auto simp: child_path_def JoinPath_base base_def spliced_ascii)
  qed simp
qed


lemma tree_inv_move:
  assumes inv: "tree_inv x ns" and i: "i \<in> set ns" "live i" "n_parent i \<noteq> None" "n_path i \<noteq> ''/''"
    and p: "p \<in> set ns" "live p" "n_kind p = KindFolder" "n_owner p = n_owner i" "p \<noteq> i" "\<not> below i p"
    and name: "nm \<noteq> []" "CHR ''/'' \<notin> set nm" and q: "q = JoinPath (n_path p) nm"
    and asc: "n_kind i = KindFolder \<Longrightarrow> ascii (n_path i)"
    and alone: "\<And>n. n_kind i = KindFolder \<Longrightarrow> n \<in> set ns \<Longrightarrow> n_owner n = n_owner i \<Longrightarrow> n_path n = n_path i \<Longrightarrow> n = i"
    and g: "\<And>n. g n = (if n = i then moved_row t (n_id p) nm (Fold x nm) q n
        else if n_kind i = KindFolder \<and> below i n then spliced_row t (n_path i) q n else n)"
    and u: "nodes_unique (map g ns)"
  shows "tree_inv x (map g ns)"
proof (rule tree_inv_map [OF inv u])
  have ne: "n_path i \<noteq> []" "n_path p \<noteq> []" using tree_path_nonempty [OF inv] i(1) p(1) by auto
  have new: "q \<noteq> ''/''" "q \<noteq> []"
    using name by (auto simp: q JoinPath_base append_eq_Cons_conv)
  fix n assume n: "n \<in> set ns"
  have trash: "n_trashed n = None \<longleftrightarrow> n_troot n = None" by (rule node_okD(2) [OF inv n])
  have root: "n_parent n = None \<Longrightarrow> \<not> below i n"
    using node_okD(3) [OF inv n] ne by (cases "n_path i") (auto simp: below_def prefix_Cons)
  then have check: "nodes_name_check (g n)"
    using node_okD(1) [OF inv n] name by (auto simp: g nodes_name_check_def)
  with trash show "n_id (g n) = n_id n \<and> nodes_name_check (g n) \<and> (n_trashed (g n) = None \<longleftrightarrow> n_troot (g n) = None)"
    by (auto simp: g)
  assume "n_parent n = None"
  with root i(3) show "g n = n \<or> n_parent (g n) = None \<and> live (g n) \<and> n_kind (g n) = KindFolder"
    by (auto simp: g)
next
  have ne: "n_path i \<noteq> []" using tree_path_nonempty [OF inv] i(1) by auto
  have new: "q \<noteq> ''/''" "q \<noteq> []"
    using name by (auto simp: q JoinPath_base append_eq_Cons_conv)
  fix n m assume n: "n \<in> set ns" and m: "m \<in> set ns" and l: "links x m n"
  have keep: "n_id (g k) = n_id k" "n_owner (g k) = n_owner k" "n_kind (g k) = n_kind k"
    "live (g k) = live k" "n_troot (g k) = n_troot k" for k by (simp_all add: g live_def)
  show "\<exists>m' \<in> set ns. links x (g m') (g n)"
  proof (cases "n = i")
    case True
    have "g p = p" using p(5,6) by (simp add: g)
    moreover have "n_troot i = None" using i(2) node_okD(2) [OF inv i(1)] by (simp add: live_def)
    then have "links x p (g i)"
      using p(2-4) name by (auto simp: links_def g q child_path_def live_def)
    ultimately show ?thesis using True p(1) by metis
  next
    case ni: False
    have others: "n_parent (g n) = Some (n_id (g m))" "n_fold (g n) = n_fold n"
      using linksD(1) [OF l] ni keep(1) by (simp_all add: g)
    have "child_path x (g m) (g n)"
    proof (cases "m = i \<or> below i m")
      case True
      then have b: "below i n" by (rule below_child [OF l _ i(4) ne])
      show ?thesis
      proof (cases "n_kind i = KindFolder")
        case True
        with child_moved [OF l asc [OF True] i(4) ne new \<open>m = i \<or> below i m\<close>] b ni \<open>m = i \<or> below i m\<close>
        show ?thesis by (auto simp: g)
      next
        case False
        with linksD(3) [OF l] have "m \<noteq> i" by auto
        with False ni l show ?thesis by (simp add: g links_def)
      qed
    next
      case False
      have "\<not> below i n" if k: "n_kind i = KindFolder"
      proof
        assume b: "below i n"
        from l obtain last where last: "n_path n = base (n_path m) @ CHR ''/'' # last" "CHR ''/'' \<notin> set last"
          by (auto simp: links_def child_path_def JoinPath_base)
        with b have "base (n_path m) = n_path i \<or> prefix (n_path i @ ''/'') (base (n_path m))"
          by (simp add: below_def prefix_path)
        with False b linksD(2) [OF l] have "n_path m = n_path i"
          using ne by (auto simp: below_def base_def split: if_splits)
        with alone [OF k m] False b linksD(2) [OF l] show False by (simp add: below_def)
      qed
      with False ni l show ?thesis by (auto simp: g links_def)
    qed
    with l m keep others show ?thesis by (auto simp: links_def)
  qed
qed

end
