(* ===== verification/TreeOps.thy ===== *)
theory TreeOps
  imports TreeInv CasOps
begin

text \<open>
  The operations of the file tree, one run at a time: what each statement and each transaction
  body leaves behind, and that every operation keeps the shape of the tree (\<open>tree_ok\<close>), whatever
  fails on the way.  Renames and moves of folders need the two conditions of \<open>plain_move\<close>.
\<close>

section \<open>What a statement leaves behind\<close>

lemma fold_journal_keeps [simp]:
  "nodes (fold (\<lambda>n. journal_node_change (a n) (b n)) ns w) = nodes w"
  "versions (fold (\<lambda>n. journal_node_change (a n) (b n)) ns w) = versions w"
  "blobs (fold (\<lambda>n. journal_node_change (a n) (b n)) ns w) = blobs w"
  "users (fold (\<lambda>n. journal_node_change (a n) (b n)) ns w) = users w"
  "manifests (fold (\<lambda>n. journal_node_change (a n) (b n)) ns w) = manifests w"
  "mchunks (fold (\<lambda>n. journal_node_change (a n) (b n)) ns w) = mchunks w"
  "chunks (fold (\<lambda>n. journal_node_change (a n) (b n)) ns w) = chunks w"
  "grants (fold (\<lambda>n. journal_node_change (a n) (b n)) ns w) = grants w"
  "uploads (fold (\<lambda>n. journal_node_change (a n) (b n)) ns w) = uploads w"
  "next_id (fold (\<lambda>n. journal_node_change (a n) (b n)) ns w) = next_id w"
  "now (fold (\<lambda>n. journal_node_change (a n) (b n)) ns w) = now w"
  "disk (fold (\<lambda>n. journal_node_change (a n) (b n)) ns w) = disk w"
  "faults (fold (\<lambda>n. journal_node_change (a n) (b n)) ns w) = faults w"
  by (induction ns arbitrary: w) (simp_all add: journal_node_change_def journal_append_def Let_def split: option.splits)

lemma journal_keeps [simp]:
  "nodes (journal_node_change a b w) = nodes w" "versions (journal_node_change a b w) = versions w"
  "blobs (journal_node_change a b w) = blobs w" "users (journal_node_change a b w) = users w"
  "manifests (journal_node_change a b w) = manifests w" "mchunks (journal_node_change a b w) = mchunks w"
  "chunks (journal_node_change a b w) = chunks w" "grants (journal_node_change a b w) = grants w"
  "uploads (journal_node_change a b w) = uploads w" "next_id (journal_node_change a b w) = next_id w"
  "now (journal_node_change a b w) = now w" "disk (journal_node_change a b w) = disk w"
  "faults (journal_node_change a b w) = faults w"
  by (simp_all add: journal_node_change_def journal_append_def Let_def split: option.splits)

lemma node_errors_frame [simp]:
  "node_errors (w\<lparr>faults := bs\<rparr>) ns hit = node_errors w ns hit"
  "node_errors (w\<lparr>faults := bs, next_id := j\<rparr>) ns hit = node_errors w ns hit"
proof -
  have "node_fks (w\<lparr>faults := bs\<rparr>) ns = node_fks w ns" "node_fks (w\<lparr>faults := bs, next_id := j\<rparr>) ns = node_fks w ns"
    by (simp_all add: fun_eq_iff node_fks_def split: option.splits)
  then show "node_errors (w\<lparr>faults := bs\<rparr>) ns hit = node_errors w ns hit"
    "node_errors (w\<lparr>faults := bs, next_id := j\<rparr>) ns hit = node_errors w ns hit"
    by (simp_all add: node_errors_def)
qed

lemma update_nodes_run:
  assumes "update_nodes q g w = (r, w')"
  obtains bs e where "r = Inl e" "w' = w\<lparr>faults := bs\<rparr>"
  | bs where "r = Inr (int (length (filter q (nodes w))))"
      "node_errors w (update_rows q (g (now w)) (nodes w)) (map (g (now w)) (filter q (nodes w))) = None"
      "w' = fold (\<lambda>n. journal_node_change (Some n) (Some (g (now w) n))) (filter q (nodes w))
              (w\<lparr>faults := bs, nodes := update_rows q (g (now w)) (nodes w)\<rparr>)"
  using assms that unfolding update_nodes_def
  by (elim thenM_cases bindM_cases dbM_run)
     (auto simp: run_iffs run_eval Let_def split: option.splits)

lemma insert_node_run:
  assumes "insert_node mk w = (r, w')"
  obtains bs where "r = Inl db_err" "w' = w\<lparr>faults := bs\<rparr>"
  | bs e where "r = Inl e" "w' = w\<lparr>faults := bs, next_id := Suc (next_id w)\<rparr>"
  | bs where "r = Inr (next_id w)"
      "node_errors w (nodes w @ [mk (next_id w) (now w)]) [mk (next_id w) (now w)] = None"
      "w' = journal_node_change None (Some (mk (next_id w) (now w)))
              (w\<lparr>faults := bs, next_id := Suc (next_id w), nodes := nodes w @ [mk (next_id w) (now w)]\<rparr>)"
  using assms that unfolding insert_node_def
  by (elim thenM_cases bindM_cases dbM_run)
     (auto simp: run_iffs run_eval fresh_id_def Let_def split: option.splits)

section \<open>The invariant of the tree\<close>

definition tree_ok :: "ext \<Rightarrow> world \<Rightarrow> bool" where
  "tree_ok x w \<longleftrightarrow> tree_inv x (nodes w) \<and> (\<forall>n \<in> set (nodes w). n_id n < next_id w)"

lemma tree_ok_frame: "tree_ok x w \<Longrightarrow> nodes w' = nodes w \<Longrightarrow> next_id w \<le> next_id w' \<Longrightarrow> tree_ok x w'"
  by (auto simp: tree_ok_def)

lemma tree_ok_faults [simp]: "tree_ok x (w\<lparr>faults := bs\<rparr>) = tree_ok x w"
  by (simp add: tree_ok_def)

lemma tree_ok_empty: "tree_ok x empty_world"
  by (simp add: tree_ok_def empty_world_def tree_inv_def nodes_unique_def)

text \<open>Ids are only ever drawn, never given back, not even by a rollback.\<close>

definition drew :: "nat \<Rightarrow> world \<Rightarrow> bool" where
  "drew k w \<longleftrightarrow> k \<le> next_id w"

lemma drew_fault_free [simp]: "fault_free (drew k)"
  by (simp add: fault_free_def drew_def)

lemma keepsI: "(\<And>s r s'. I s \<Longrightarrow> c s = (r, s') \<Longrightarrow> I s') \<Longrightarrow> keeps I c"
  unfolding keeps_def by (metis surj_pair snd_conv)

lemma drew_update_nodes [keeps_intros]: "keeps (drew k) (update_nodes q g)"
  by (rule keepsI, erule update_nodes_run) (simp_all add: drew_def)

lemma drew_insert_node [keeps_intros]: "keeps (drew k) (insert_node mk)"
  by (rule keepsI, erule insert_node_run) (simp_all add: drew_def)

lemma drew_fresh_id [keeps_intros]: "keeps (drew k) fresh_id"
  by (simp add: keeps_def fresh_id_def drew_def)

lemma drew_inserts [keeps_intros]:
  "keeps (drew k) (insert_version nd bid mid sz mime by_user)" "keeps (drew k) (insert_blob key sz sha)"
  unfolding insert_version_def insert_blob_def Let_def
  by (intro keeps_intros drew_fault_free; simp add: drew_def)+

lemma drew_deletes [keeps_intros]: "keeps (drew k) (delete_versions p)" "keeps (drew k) (delete_nodes q)"
  unfolding delete_versions_def delete_nodes_def
  by (intro keeps_intros drew_fault_free; simp add: drew_def drop_versions_def drop_nodes_def Let_def)+

lemma drew_queries [keeps_intros]:
  "keeps (drew k) (query_node p)" "keeps (drew k) (quota_of own)" "keeps (drew k) (checkQuota own n)"
  "keeps (drew k) (live_folder_path own i)" "keeps (drew k) (check_name x nm)"
  unfolding query_node_def quota_of_def checkQuota_def live_folder_path_def check_name_def
  by (intro keeps_intros drew_fault_free; simp add: keeps_intros split: option.splits prod.splits)+

lemma drew_rollback: "drew k w \<Longrightarrow> drew k w' \<Longrightarrow> drew k (rollback w w')"
  by (simp add: drew_def)

lemma drew_withTx [keeps_intros]: "keeps (drew k) c \<Longrightarrow> keeps (drew k) (withTx c)"
  by (rule keeps_withTx) (simp_all add: drew_rollback)

lemma withTx_tree:
  assumes run: "withTx c w = (r, w')" and ok: "tree_ok x w" and mono: "keeps (drew (next_id w)) c"
    and body: "\<And>bs q w1. c (w\<lparr>faults := bs\<rparr>) = (Inr q, w1) \<Longrightarrow> tree_ok x w1"
  shows "tree_ok x w'"
  using run
proof (cases rule: withTx_cases)
  case (2 bs e w1)
  with keepsD [OF mono _ 2(1)] ok show ?thesis
    by (auto simp: drew_def intro: tree_ok_frame)
next
  case (3 bs q w1 bs')
  with keepsD [OF mono _ 3(1)] ok show ?thesis
    by (auto simp: drew_def intro: tree_ok_frame)
qed (use ok body in auto)

lemma scanNode_faults [simp]: "scanNode (w\<lparr>faults := bs\<rparr>) n = scanNode w n"
  by (simp add: scanNode_def version_hash_def cong: option.case_cong)

lemma query_node_run:
  assumes "query_node q w = (r, w')"
  obtains bs e where "w' = w\<lparr>faults := bs\<rparr>" "r = Inl e"
  | bs n where "w' = w\<lparr>faults := bs\<rparr>" "r = Inr (scanNode w n)" "find q (nodes w) = Some n" "n \<in> set (nodes w)" "q n"
  using assms unfolding query_node_def
  by (elim bindM_cases selectM_run) (auto simp: run_iffs split: option.splits dest: find_Some_set)

lemma folder_path_run:
  assumes "live_folder_path own i w = (r, w')"
  obtains bs e where "w' = w\<lparr>faults := bs\<rparr>" "r = Inl e"
  | bs n where "w' = w\<lparr>faults := bs\<rparr>" "r = Inr (n_path n)" "n \<in> set (nodes w)"
      "n_id n = i" "n_owner n = own" "live n" "n_kind n = KindFolder"
  using assms unfolding live_folder_path_def
  by (elim bindM_cases selectM_run)
     (auto simp: run_iffs run_eval live_def split: option.splits if_splits dest: find_Some_set)

lemma check_name_run:
  assumes "check_name x nm w = (r, w')"
  obtains e where "w' = w" "r = Inl e" "ValidateName x nm = Some e" | "w' = w" "r = Inr ()" "ValidateName x nm = None"
  using assms by (auto simp: check_name_def run_iffs split: option.splits)

lemma node_errors_None:
  assumes "node_errors w ns hit = None"
  shows "nodes_unique ns" "n \<in> set hit \<Longrightarrow> nodes_name_check n" "n \<in> set hit \<Longrightarrow> nodes_kind_head_check n"
    "n \<in> set hit \<Longrightarrow> node_fks w ns n"
  using assms by (auto simp: node_errors_def list_all_iff split: if_splits)

text \<open>Updates of everything but a node's place keep the shape.\<close>

definition same_place :: "node_row \<Rightarrow> node_row \<Rightarrow> bool" where
  "same_place m n \<longleftrightarrow> n_id m = n_id n \<and> n_owner m = n_owner n \<and> n_parent m = n_parent n \<and>
     n_kind m = n_kind n \<and> n_fold m = n_fold n \<and> n_path m = n_path n \<and> n_trashed m = n_trashed n \<and>
     n_troot m = n_troot n"

lemma tree_inv_same_place:
  assumes inv: "tree_inv x ns" and same: "\<And>n. n \<in> set ns \<Longrightarrow> same_place (g n) n"
    and chk: "\<And>n. n \<in> set ns \<Longrightarrow> nodes_name_check (g n)"
  shows "tree_inv x (map g ns)"
proof (rule tree_inv_map [OF inv])
  have "map n_id (map g ns) = map n_id ns"
    "map (\<lambda>n. (n_parent n, n_fold n)) (filter (\<lambda>n. live n \<and> n_parent n \<noteq> None) (map g ns))
       = map (\<lambda>n. (n_parent n, n_fold n)) (filter (\<lambda>n. live n \<and> n_parent n \<noteq> None) ns)"
    "map n_owner (filter (\<lambda>n. live n \<and> n_parent n = None) (map g ns))
       = map n_owner (filter (\<lambda>n. live n \<and> n_parent n = None) ns)"
    using same by (induction ns) (simp_all add: same_place_def live_def)
  with inv show "nodes_unique (map g ns)" by (simp add: tree_inv_def nodes_unique_def)
next
  fix n assume n: "n \<in> set ns"
  with same chk node_okD [OF inv n]
  show "n_id (g n) = n_id n \<and> nodes_name_check (g n) \<and> (n_trashed (g n) = None \<longleftrightarrow> n_troot (g n) = None)"
    by (simp add: same_place_def)
  assume "n_parent n = None"
  with same [OF n] node_okD(3) [OF inv n]
  show "g n = n \<or> n_parent (g n) = None \<and> live (g n) \<and> n_kind (g n) = KindFolder"
    by (simp add: same_place_def live_def)
next
  fix n m assume "n \<in> set ns" "m \<in> set ns" "links x m n"
  moreover from this have "links x (g m) (g n)"
    using same [of m] same [of n] by (simp add: same_place_def links_def child_path_def live_def)
  ultimately show "\<exists>m' \<in> set ns. links x (g m') (g n)" by blast
qed

section \<open>Statements keep the tree\<close>

lemma tree_fault_free [simp]: "fault_free (tree_ok x)"
  by (simp add: fault_free_def)

lemma tree_rollback: "tree_ok x w \<Longrightarrow> next_id w \<le> next_id w' \<Longrightarrow> tree_ok x (rollback w w')"
  by (rule tree_ok_frame) simp_all

lemma update_rows_map: "update_rows q f ns = map (\<lambda>n. if q n then f n else n) ns"
  by (simp add: update_rows_def)

lemma update_same_tree:
  assumes run: "update_nodes q g w = (r, w')" and ok: "tree_ok x w"
    and same: "\<And>n. n \<in> set (nodes w) \<Longrightarrow> q n \<Longrightarrow> same_place (g (now w) n) n"
  shows "tree_ok x w'"
  using run
proof (cases rule: update_nodes_run)
  case (2 bs)
  have "tree_inv x (map (\<lambda>n. if q n then g (now w) n else n) (nodes w))"
  proof (rule tree_inv_same_place)
    fix n assume n: "n \<in> set (nodes w)"
    show "same_place (if q n then g (now w) n else n) n"
      using same [OF n] by (simp add: same_place_def)
    show "nodes_name_check (if q n then g (now w) n else n)"
      using node_errors_None(2) [OF 2(2)] n ok node_okD(1) by (auto simp: tree_ok_def)
  qed (use ok in \<open>simp add: tree_ok_def\<close>)
  moreover have "\<forall>n \<in> set (map (\<lambda>n. if q n then g (now w) n else n) (nodes w)). n_id n < next_id w"
    using same ok by (fastforce simp: same_place_def tree_ok_def)
  ultimately show ?thesis by (simp only: tree_ok_def 2(3) update_rows_map fold_journal_keeps) simp
qed (use ok in simp)

lemma tree_head_update [keeps_intros]:
  "keeps (tree_ok x) (update_nodes q (\<lambda>t n. n\<lparr>n_head := h, n_updated := t\<rparr>))"
  "keeps (tree_ok x) (update_nodes q (\<lambda>t n. n\<lparr>n_head := h, n_name := nm, n_updated := t\<rparr>))"
  by (rule keepsI, erule update_same_tree, assumption, simp add: same_place_def)+

lemma tree_fresh_id [keeps_intros]: "keeps (tree_ok x) fresh_id"
  by (auto simp: keeps_def fresh_id_def tree_ok_def)

lemma tree_modM [keeps_intros]:
  "(\<And>w. nodes (f w) = nodes w \<and> next_id (f w) = next_id w) \<Longrightarrow> keeps (tree_ok x) (modM f)"
  by (auto simp: keeps_def modM_def intro: tree_ok_frame)

lemma tree_other_tables [keeps_intros]:
  "keeps (tree_ok x) (insert_version nd bid mid sz mime by_user)" "keeps (tree_ok x) (insert_blob key sz sha)"
  "keeps (tree_ok x) (SwitchToManifest vid blb mnf)" "keeps (tree_ok x) (DeleteBlobRow i)"
  "keeps (tree_ok x) (PruneChanges keep lim)"
  unfolding insert_version_def insert_blob_def SwitchToManifest_def DeleteBlobRow_def PruneChanges_def Let_def
  by ((rule keeps_thenM keeps_bindM keeps_if keeps_ret keeps_raise keeps_dbM keeps_getM tree_fresh_id tree_fault_free
        tree_modM)+; simp)+

lemma tree_delete_versions [keeps_intros]: "keeps (tree_ok x) (delete_versions p)"
proof -
  have "tree_ok x (drop_versions p w)" if ok: "tree_ok x w" for w
  proof -
    have "nodes (drop_versions p w) = map (\<lambda>n. if (case n_head n of None \<Rightarrow> False
        | Some v \<Rightarrow> v \<in> set (map v_id (filter p (versions w)))) then n\<lparr>n_head := None\<rparr> else n) (nodes w)"
      by (simp add: drop_versions_def Let_def update_rows_map)
    moreover have "tree_inv x \<dots>"
    proof (rule tree_inv_same_place)
      show inv: "tree_inv x (nodes w)" using ok by (simp add: tree_ok_def)
      fix n assume "n \<in> set (nodes w)"
      then have "nodes_name_check n" by (rule node_okD(1) [OF inv])
      then show "nodes_name_check (if (case n_head n of None \<Rightarrow> False
        | Some v \<Rightarrow> v \<in> set (map v_id (filter p (versions w)))) then n\<lparr>n_head := None\<rparr> else n)"
        by (simp add: nodes_name_check_def)
    qed (simp add: same_place_def)
    ultimately show ?thesis using ok by (auto simp: tree_ok_def drop_versions_def Let_def)
  qed
  then show ?thesis unfolding delete_versions_def by (intro keeps_intros tree_fault_free)
qed

lemma tree_delete_nodes [keeps_intros]: "keeps (tree_ok x) (delete_nodes q)"
proof -
  have "tree_ok x (drop_nodes q w)" if ok: "tree_ok x w" for w
  proof -
    let ?ids = "set (descend (length (nodes w)) (nodes w) (map n_id (filter q (nodes w))))"
    have eq: "nodes (drop_nodes q w) = filter (\<lambda>n. n_id n \<notin> ?ids) (nodes w)"
      by (simp add: drop_nodes_def Let_def)
    have "tree_inv x (filter (\<lambda>n. n_id n \<notin> ?ids) (nodes w))"
    proof (rule tree_inv_filter)
      show "tree_inv x (nodes w)" using ok by (simp add: tree_ok_def)
      fix n m assume n: "n \<in> set (nodes w)" "n_id n \<notin> ?ids" "n_parent n = Some (n_id m)"
      show "n_id m \<notin> ?ids"
      proof
        assume "n_id m \<in> ?ids"
        with n have "n_id n \<in> kids (nodes w) ?ids" by (auto simp: kids_def)
        then show False by (simp add: descend_all)
      qed
    qed
    with ok eq show ?thesis by (auto simp: tree_ok_def drop_nodes_def Let_def)
  qed
  then show ?thesis unfolding delete_nodes_def by (intro keeps_intros tree_fault_free)
qed

lemma tree_queries [keeps_intros]:
  "keeps (tree_ok x) (query_node p)" "keeps (tree_ok x) (quota_of own)" "keeps (tree_ok x) (checkQuota own n)"
  "keeps (tree_ok x) (live_folder_path own i)" "keeps (tree_ok x) (check_name y nm)"
  unfolding query_node_def quota_of_def checkQuota_def live_folder_path_def check_name_def
  by (intro keeps_intros tree_fault_free; simp add: keeps_intros split: option.splits prod.splits)+

lemma insert_node_tree:
  assumes run: "insert_node mk w = (r, w')" and ok: "tree_ok x w"
    and id: "\<And>i t. n_id (mk i t) = i \<and> live (mk i t) \<and> n_troot (mk i t) = None"
    and link: "\<And>i t. n_parent (mk i t) = None \<and> n_kind (mk i t) = KindFolder \<or>
      (nodes_name_check (mk i t) \<longrightarrow> (\<exists>m \<in> set (nodes w). links x m (mk i t)))"
  shows "tree_ok x w'"
  using run
proof (cases rule: insert_node_run)
  case (3 bs)
  let ?k = "mk (next_id w) (now w)"
  have chk: "nodes_name_check ?k" using node_errors_None(2) [OF 3(2)] by simp
  have "tree_inv x (nodes w @ [?k])"
  proof (rule tree_inv_append)
    show "n_id ?k \<notin> n_id ` set (nodes w)" using ok id by (auto simp: tree_ok_def)
    show "nodes_unique (nodes w @ [?k])" by (rule node_errors_None [OF 3(2)])
  qed (use ok id chk link in \<open>auto simp: tree_ok_def\<close>)
  with ok id show ?thesis by (auto simp: tree_ok_def 3(3))
qed (use ok in \<open>auto intro: tree_ok_frame\<close>)

section \<open>Operations keep the tree\<close>

lemma tree_EnsureRoot: "keeps (tree_ok x) (EnsureRoot own)"
proof -
  have ins: "keeps (tree_ok x) (insert_node (\<lambda>i t. \<lparr>n_id = i, n_owner = own, n_parent = None,
      n_kind = KindFolder, n_name = [], n_fold = [], n_path = ''/'', n_head = None,
      n_trashed = None, n_troot = None, n_created = t, n_updated = t\<rparr>))"
    by (rule keepsI, erule insert_node_tree) (simp_all add: live_def)
  show ?thesis
    unfolding EnsureRoot_def store_root_def
    by (intro keeps_intros ins tree_fault_free)
qed

text \<open>A new node below a live folder hangs together with it.\<close>

lemma new_child_links:
  assumes "n_parent k = Some (n_id m)" "n_owner k = n_owner m" "n_kind m = KindFolder" "live m"
    "n_path k = JoinPath (n_path m) (n_name k)" "n_fold k = Fold x (n_name k)" "n_troot k = None"
    "nodes_name_check k"
  shows "links x m k"
  using assms by (auto simp: links_def child_path_def nodes_name_check_def)

lemma tree_CreateFolder:
  assumes run: "CreateFolder x own p nm w = (r, w')" and ok: "tree_ok x w"
  shows "tree_ok x w'"
  using run unfolding CreateFolder_def GetLive_def
proof (elim thenM_cases bindM_cases check_name_run query_node_run; (simp add: ok; fail)?; goal_cases)
  case (1 u t parent v bs n)
  then have n: "n \<in> set (nodes w)" "n_id n = p" "n_owner n = own" "live n" "v = w\<lparr>faults := bs\<rparr>"
    "N_Path parent = n_path n" "N_Kind parent = n_kind n"
    by (auto simp: live_def scanNode_def Let_def)
  show ?case
  proof (cases "IsFolder parent")
    case False
    with 1 n ok show ?thesis by (auto simp: raise_iff)
  next
    case True
    let ?mk = "\<lambda>i t. \<lparr>n_id = i, n_owner = own, n_parent = Some p, n_kind = KindFolder, n_name = nm,
      n_fold = Fold x nm, n_path = JoinPath (N_Path parent) nm, n_head = None, n_trashed = None,
      n_troot = None, n_created = t, n_updated = t\<rparr>"
    have ins: "insert_node ?mk v = (q, v') \<Longrightarrow> tree_ok x v'" for q v'
      by (rule insert_node_tree [of ?mk v q v' x])
         (use n ok True in \<open>auto simp: live_def IsFolder_def intro!: bexI [of _ n] new_child_links\<close>)
    from 1(1) True show ?thesis
      by (auto elim!: bindM_cases tryM_run query_node_run split: sum.splits if_splits
          simp: store_Get_def raise_iff dest!: ins)
  qed
qed

text \<open>Inside a transaction only a successful end has to have the shape.\<close>

lemma keepsT: "keeps I c \<Longrightarrow> triple I c (\<lambda>_. I) (\<lambda>_ _. True)"
  by (fastforce simp: keeps_def triple_def split: prod.splits sum.splits)

lemma triple_case_option:
  "(x = None \<Longrightarrow> triple P c Q E) \<Longrightarrow> (\<And>y. x = Some y \<Longrightarrow> triple P (d y) Q E) \<Longrightarrow>
   triple P (case x of None \<Rightarrow> c | Some y \<Rightarrow> d y) Q E"
  by (cases x) auto

lemma withTx_triple:
  assumes body: "triple (tree_ok x) c (\<lambda>_. tree_ok x) (\<lambda>_ _. True)" and mono: "\<And>k. keeps (drew k) c"
  shows "keeps (tree_ok x) (withTx c)"
proof (rule keepsI)
  fix w r w' assume ok: "tree_ok x w" and run: "withTx c w = (r, w')"
  show "tree_ok x w'"
    by (rule withTx_tree [OF run ok mono]) (rule tripleD(1) [OF body], simp_all add: ok)
qed

definition folder_at :: "ext \<Rightarrow> nat \<Rightarrow> nat \<Rightarrow> string \<Rightarrow> world \<Rightarrow> bool" where
  "folder_at x own i pp w \<longleftrightarrow> tree_ok x w \<and> (\<exists>n \<in> set (nodes w). n_id n = i \<and> n_owner n = own \<and>
     live n \<and> n_kind n = KindFolder \<and> n_path n = pp)"

lemma folder_at_fault_free [simp]: "fault_free (folder_at x own i pp)"
  by (simp add: fault_free_def folder_at_def)

lemma folder_at_modM [keeps_intros]:
  "(\<And>w. nodes (f w) = nodes w \<and> next_id (f w) = next_id w) \<Longrightarrow> keeps (folder_at x own i pp) (modM f)"
  by (auto simp: keeps_def modM_def folder_at_def intro: tree_ok_frame)

lemma folder_at_fresh_id [keeps_intros]: "keeps (folder_at x own i pp) fresh_id"
  by (auto simp: keeps_def fresh_id_def folder_at_def tree_ok_def)

lemma folder_at_keeps [keeps_intros]:
  "keeps (folder_at x own i pp) (insert_blob key sz sha)" "keeps (folder_at x own i pp) (checkQuota o2 n)"
  unfolding insert_blob_def checkQuota_def quota_of_def Let_def
  by ((rule keeps_intros folder_at_fault_free; (simp; fail)?)+)

lemma folder_lookup: "triple (tree_ok x) (live_folder_path own i) (\<lambda>pp. folder_at x own i pp) (\<lambda>_ _. True)"
  by (rule tripleI) (auto simp: folder_at_def elim!: folder_path_run)

lemma file_slot_tree:
  "triple (folder_at x (pf_OwnerID inp) (pf_ParentID inp) pp) (file_slot x inp pp) (\<lambda>_. tree_ok x) (\<lambda>_ _. True)"
proof -
  let ?mk = "\<lambda>i t. \<lparr>n_id = i, n_owner = pf_OwnerID inp, n_parent = Some (pf_ParentID inp),
    n_kind = KindFile, n_name = pf_Name inp, n_fold = Fold x (pf_Name inp),
    n_path = JoinPath pp (pf_Name inp), n_head = None, n_trashed = None, n_troot = None,
    n_created = t, n_updated = t\<rparr>"
  have ins: "tree_ok x v'" if "folder_at x (pf_OwnerID inp) (pf_ParentID inp) pp v"
    "insert_node ?mk v = (q, v')" for v q v'
  proof -
    from that(1) obtain n where n: "n \<in> set (nodes v)" "n_id n = pf_ParentID inp" "n_owner n = pf_OwnerID inp"
      "live n" "n_kind n = KindFolder" "n_path n = pp" and ok: "tree_ok x v"
      by (auto simp: folder_at_def)
    show ?thesis
      by (rule insert_node_tree [OF that(2) ok])
         (use n in \<open>auto simp: live_def intro!: bexI [of _ n] new_child_links\<close>)
  qed
  then have "triple (folder_at x (pf_OwnerID inp) (pf_ParentID inp) pp) (tryM (insert_node ?mk))
      (\<lambda>_. tree_ok x) (\<lambda>_ _. True)"
    by (intro tripleI) (auto elim!: tryM_run)
  moreover have "triple (tree_ok x) (case r of
       Inl e \<Rightarrow> if e = unique_violation then raise ErrNameTaken else raise (Wrap l e)
     | Inr i \<Rightarrow> ret i) (\<lambda>_. tree_ok x) (\<lambda>_ _. True)" for r :: "goerr + nat" and l
    by (rule keepsT) (intro keeps_intros)
  moreover have "triple (folder_at x (pf_OwnerID inp) (pf_ParentID inp) pp)
      (if n_kind n \<noteq> KindFile then raise ErrNameTaken else ret (n_id n)) (\<lambda>_. tree_ok x) (\<lambda>_ _. True)" for n
    by (simp add: triple_def raise_def ret_def folder_at_def)
  ultimately show ?thesis
    unfolding file_slot_def
    by (intro triple_bindM [OF keepsT] keeps_intros folder_at_fault_free triple_case_option triple_bindM)
qed

lemma drew_file_slot [keeps_intros]: "keeps (drew k) (file_slot x inp pp)"
  unfolding file_slot_def by (intro keeps_intros drew_fault_free)

lemma tree_PutFile: "keeps (tree_ok x) (PutFile x inp)"
  unfolding PutFile_def Let_def store_Get_def
  apply (intro keeps_intros withTx_triple)
   apply (rule triple_bindM [OF folder_lookup])
   apply (rule triple_thenM [OF keepsT], intro keeps_intros)
   apply (rule triple_bindM [OF keepsT], intro keeps_intros)
   apply (rule triple_bindM [OF file_slot_tree])
   apply (rule keepsT, intro keeps_intros)
  done

lemma update_nodes_Inr:
  assumes "update_nodes q g w = (Inr k, w')"
  shows "nodes w' = map (\<lambda>n. if q n then g (now w) n else n) (nodes w)" "now w' = now w"
    "next_id w' = next_id w" "k = int (length (filter q (nodes w)))" "nodes_unique (nodes w')"
  using assms node_errors_None(1) by (auto elim!: update_nodes_run simp: update_rows_map)

text \<open>The first statement of \<open>Trash\<close> and \<open>MoveOrRename\<close> hits exactly the node that was looked up.\<close>

lemma only_this:
  "distinct (map n_id ns) \<Longrightarrow> i0 \<in> set ns \<Longrightarrow>
   map (\<lambda>n. if n_id n = n_id i0 then f n else n) ns = map (\<lambda>n. if n = i0 then f n else n) ns"
  by (auto dest: same_id)

lemma trash_rows:
  assumes inv: "tree_inv x ns" and i0: "i0 \<in> set ns" "live i0"
    and ns1: "ns1 = map (\<lambda>n. if n_id n = n_id i0 \<and> n_owner n = n_owner i0 \<and> n_trashed n = None
        then trash_row t (n_id i0) n else n) ns"
    and ns2: "ns2 = (if n_kind i0 = KindFolder then map (\<lambda>n. if n_owner n = n_owner i0 \<and>
        like (likePrefix (n_path i0) @ ''/%'') (n_path n) \<and> n_trashed n = None
        then trash_row t (n_id i0) n else n) ns1 else ns1)"
  shows "ns2 = map (\<lambda>n. if n = i0 \<or> below i0 n \<and> live n then trash_row t (n_id i0) n else n) ns"
proof -
  have first: "(n_id n = n_id i0 \<and> n_owner n = n_owner i0 \<and> n_trashed n = None) = (n = i0)"
    if "n \<in> set ns" for n
    using inv i0 that by (auto simp: tree_inv_def live_def dest: same_id)
  have leaf: "\<not> (below i0 n \<and> live n)" if n: "n \<in> set ns" and k: "n_kind i0 \<noteq> KindFolder" for n
  proof
    assume b: "below i0 n \<and> live n"
    obtain a where "a \<in> set ns" "n_path a = n_path i0" "n_owner a = n_owner n" "n_kind a = KindFolder" "live a"
      using ancestor_at [OF inv n, of "n_path i0"] b tree_path_nonempty [OF inv i0(1)]
      by (auto simp: below_def)
    with live_path_inj [OF inv _ i0(1)] i0 b k show False by (auto simp: below_def)
  qed
  have "ns1 = map (\<lambda>n. if n = i0 then trash_row t (n_id i0) n else n) ns"
    unfolding ns1 by (rule map_cong) (simp_all only: first)
  note ns1' = this
  show ?thesis
  proof (cases "n_kind i0 = KindFolder")
    case True
    then show ?thesis unfolding ns2 ns1' by (auto simp: below_def like_below live_def)
  next
    case False
    then have "ns2 = ns1" by (simp add: ns2)
    also have "\<dots> = map (\<lambda>n. if n = i0 \<or> below i0 n \<and> live n then trash_row t (n_id i0) n else n) ns"
      unfolding ns1' by (rule map_cong) (use leaf False in \<open>simp_all only: simp_thms refl\<close>)
    finally show ?thesis .
  qed
qed

lemma scanNode_simps [simp]:
  "N_ID (scanNode w n) = n_id n" "N_OwnerID (scanNode w n) = n_owner n" "N_ParentID (scanNode w n) = n_parent n"
  "N_Kind (scanNode w n) = n_kind n" "N_Name (scanNode w n) = n_name n" "N_Path (scanNode w n) = n_path n"
  "N_HeadVersionID (scanNode w n) = n_head n" "N_TrashedAt (scanNode w n) = n_trashed n"
  "N_TrashedRootID (scanNode w n) = n_troot n"
  by (simp_all add: scanNode_def Let_def)

lemma nonroot_path:
  assumes "tree_inv x ns" "n \<in> set ns" "n_parent n \<noteq> None"
  shows "n_path n \<noteq> ''/''"
proof -
  obtain p where "n_parent n = Some p" using assms(3) by auto
  from parentE [OF assms(1,2) this] obtain q nm where "n_path n = q @ CHR ''/'' # nm" "nm \<noteq> []" by metis
  then show ?thesis by (cases q) auto
qed

text \<open>What a successful \<open>Trash\<close> did, when nothing else ran in between.\<close>

definition trash_body :: "nat \<Rightarrow> nat \<Rightarrow> node \<Rightarrow> (world, int) m" where
  "trash_body own i node =
       (bindM (update_nodes (\<lambda>n. n_id n = i \<and> n_owner n = own \<and> n_trashed n = None)
          (\<lambda>t n. n\<lparr>n_trashed := Some t, n_troot := Some i, n_updated := t\<rparr>)) (\<lambda>affected.
        if affected = 0 then raise ErrNotFound
        else if IsFolder node then
          bindM (update_nodes (\<lambda>n. n_owner n = own \<and> like (likePrefix (N_Path node) @ ''/%'') (n_path n)
                   \<and> n_trashed n = None)
             (\<lambda>t n. n\<lparr>n_trashed := Some t, n_troot := Some i, n_updated := t\<rparr>)) (\<lambda>more.
          ret (affected + more))
        else ret affected))"

lemma trash_body_run:
  assumes run: "trash_body own i node w = (Inr k, w')" and inv: "tree_inv x (nodes w)"
    and i0: "i0 \<in> set (nodes w)" "live i0" "n_id i0 = i" "n_owner i0 = own"
    and node: "N_Path node = n_path i0" "N_Kind node = n_kind i0"
  shows "nodes w' = map (\<lambda>n. if n = i0 \<or> below i0 n \<and> live n then trash_row (now w) i n else n) (nodes w)"
    "next_id w' = next_id w"
proof -
  let ?q = "\<lambda>n. n_id n = i \<and> n_owner n = own \<and> n_trashed n = None"
  let ?g = "\<lambda>t n. n\<lparr>n_trashed := Some t, n_troot := Some i, n_updated := t\<rparr>"
  let ?q2 = "\<lambda>n. n_owner n = own \<and> like (likePrefix (N_Path node) @ ''/%'') (n_path n) \<and> n_trashed n = None"
  from run obtain k1 w1 where 1: "update_nodes ?q ?g w = (Inr k1, w1)"
    and 2: "if n_kind i0 = KindFolder then \<exists>k2. update_nodes ?q2 ?g w1 = (Inr k2, w') else w' = w1"
    unfolding trash_body_def
    by (auto elim!: bindM_cases simp: run_iffs IsFolder_def node split: if_splits)
  note u1 = update_nodes_Inr [OF 1]
  have ns2: "nodes w' = (if n_kind i0 = KindFolder then map (\<lambda>n. if n_owner n = n_owner i0 \<and>
        like (likePrefix (n_path i0) @ ''/%'') (n_path n) \<and> n_trashed n = None
        then trash_row (now w) (n_id i0) n else n) (nodes w1) else nodes w1)"
    using 2 u1(2) i0(3,4) node(1) update_nodes_Inr(1) [of ?q2 ?g w1 _ w'] by (auto simp: trash_row_def)
  have ns1: "nodes w1 = map (\<lambda>n. if n_id n = n_id i0 \<and> n_owner n = n_owner i0 \<and> n_trashed n = None
        then trash_row (now w) (n_id i0) n else n) (nodes w)"
    using u1(1) i0(3,4) by (simp add: trash_row_def)
  show "nodes w' = map (\<lambda>n. if n = i0 \<or> below i0 n \<and> live n then trash_row (now w) i n else n) (nodes w)"
    using trash_rows [OF inv i0(1,2) ns1 ns2] i0(3) by simp
  show "next_id w' = next_id w"
    using 2 u1(3) update_nodes_Inr(3) [of ?q2 ?g w1 _ w'] by (auto split: if_splits)
qed

lemma tree_Trash: "keeps (tree_ok x) (Trash own i)"
proof (rule keepsI)
  fix w r w' assume ok: "tree_ok x w" and run: "Trash own i w = (r, w')"
  have def: "Trash own i = bindM (GetLive own i) (\<lambda>node. if IsRoot node then raise ErrRootReserved
      else withTx (trash_body own i node))" unfolding Trash_def trash_body_def by (rule refl)
  have mono: "keeps (drew k) (trash_body own i node)" for k node
    unfolding trash_body_def by (intro keeps_intros)
  from run show "tree_ok x w'"
    unfolding def GetLive_def
  proof (elim bindM_cases query_node_run; (simp add: ok; fail)?; goal_cases)
    case (1 node v bs n)
    then have n: "n \<in> set (nodes w)" "live n" "n_id n = i" "n_owner n = own" and v: "v = w\<lparr>faults := bs\<rparr>"
      and node: "node = scanNode w n" by (auto simp: live_def)
    have inv: "tree_inv x (nodes w)" using ok by (simp add: tree_ok_def)
    show ?case
    proof (cases "IsRoot node")
      case True
      with 1 ok v show ?thesis by (simp add: raise_iff)
    next
      case False
      with 1 have "withTx (trash_body own i node) v = (r, w')" by simp
      then show ?thesis
      proof (rule withTx_tree)
        fix bs q w1 assume b: "trash_body own i node (v\<lparr>faults := bs\<rparr>) = (Inr q, w1)"
        note t = trash_body_run [OF b, of x n]
        have "n_parent n \<noteq> None" using False node by (simp add: IsRoot_def)
        with tree_inv_trash [OF inv n(1,2), of "now (v\<lparr>faults := bs\<rparr>)"] nonroot_path [OF inv n(1)]
        show "tree_ok x w1" using t ok n v node by (auto simp: tree_ok_def)
      qed (use ok v mono in simp_all)
    qed
  qed
qed

definition restore_body :: "nat \<Rightarrow> nat \<Rightarrow> node \<Rightarrow> (world, int) m" where
  "restore_body own i node =
         (bindM (selectM (\<lambda>w. map_option n_trashed
            (find (\<lambda>n. Some (n_id n) = N_ParentID node \<and> n_owner n = own) (nodes w)))) (\<lambda>r. case r of
            None \<Rightarrow> raise (Wrap ''the folder it lived in no longer exists'' ErrNotFound)
          | Some (Some _) \<Rightarrow> raise (Wrap ''restore its parent folder first'' ErrNotTrashed)
          | Some None \<Rightarrow>
              bindM (tryM (update_nodes (\<lambda>n. n_troot n = Some i \<and> n_owner n = own)
                 (\<lambda>t n. n\<lparr>n_trashed := None, n_troot := None, n_updated := t\<rparr>))) (\<lambda>r. case r of
                Inl e \<Rightarrow> (if e = unique_violation then raise ErrNameTaken else raise (Wrap ''restore'' e))
              | Inr k \<Rightarrow> ret k)))"

lemma Restore_eq: "Restore own i =
     bindM (store_Get own i) (\<lambda>node.
     if \<not> IsTrashed node then raise ErrNotTrashed
     else if N_TrashedRootID node \<noteq> Some (N_ID node)
       then raise (Wrap ''restore the folder it was deleted with instead'' ErrNotTrashed)
     else thenM (withTx (restore_body own i node)) (store_Get own i))"
  unfolding Restore_def restore_body_def by (rule refl)

lemma restore_body_run:
  assumes run: "restore_body own i node w = (Inr k, w')"
  obtains p where "p \<in> set (nodes w)" "Some (n_id p) = N_ParentID node" "n_owner p = own" "live p"
    "nodes w' = map (\<lambda>n. if n_troot n = Some i \<and> n_owner n = own then restore_row (now w) n else n) (nodes w)"
    "nodes_unique (nodes w')" "next_id w' = next_id w"
    "k = int (length (filter (\<lambda>n. n_troot n = Some i \<and> n_owner n = own) (nodes w)))"
proof -
  let ?q = "\<lambda>n. n_troot n = Some i \<and> n_owner n = own"
  let ?g = "\<lambda>t n. n\<lparr>n_trashed := None, n_troot := None, n_updated := t\<rparr>"
  from run obtain bs p where p: "find (\<lambda>n. Some (n_id n) = N_ParentID node \<and> n_owner n = own) (nodes w) = Some p"
      "n_trashed p = None" and u: "update_nodes ?q ?g (w\<lparr>faults := bs\<rparr>) = (Inr k, w')"
    unfolding restore_body_def
    by (auto elim!: bindM_cases selectM_run tryM_run simp: run_iffs split: option.splits sum.splits if_splits)
  note n = update_nodes_Inr [OF u]
  show ?thesis
    using find_Some_set [OF p(1)] p(2) n
    by (intro that [of p]) (simp_all add: live_def restore_row_def)
qed

lemma tree_Restore: "keeps (tree_ok x) (Restore own i)"
proof (rule keepsI)
  fix w r w' assume ok: "tree_ok x w" and run: "Restore own i w = (r, w')"
  then have inv: "tree_inv x (nodes w)" by (simp add: tree_ok_def)
  have mono: "keeps (drew k) (restore_body own i node)" for k own i node
    unfolding restore_body_def by (intro keeps_intros drew_fault_free)
  have tx: "tree_ok x v'" if v: "v = w\<lparr>faults := bs\<rparr>" and n: "n \<in> set (nodes w)" "n_id n = j"
      and t: "withTx (restore_body o2 j (scanNode w n)) v = (q, v')" for v bs n q v' j o2
    using t
  proof (rule withTx_tree)
    fix bs' q w1 assume b: "restore_body o2 j (scanNode w n) (v\<lparr>faults := bs'\<rparr>) = (Inr q, w1)"
    obtain p where p: "p \<in> set (nodes w)" "n_parent n = Some (n_id p)" "live p"
      and w1: "nodes w1 = map (\<lambda>n. if n_troot n = Some j \<and> n_owner n = o2 then restore_row (now w) n else n) (nodes w)"
        "nodes_unique (nodes w1)" "next_id w1 = next_id w"
      by (rule restore_body_run [OF b]) (use v in auto)
    have "tree_inv x (nodes w1)"
      unfolding w1(1)
    proof (rule tree_inv_restore [OF inv])
      fix m k assume k: "k \<in> set (nodes w)" "n_id k = j" and m: "m \<in> set (nodes w)" "links x m k"
      have d: "distinct (map n_id (nodes w))" using inv by (simp add: tree_inv_def)
      have "k = n" by (rule same_id [OF d k(1) n(1)]) (simp add: k n)
      with linksD(1) [OF m(2)] p(2) have "m = p" by (intro same_id [OF d m(1) p(1)]) simp
      with p show "live m" by simp
    qed (use w1(1,2) in simp)
    with ok w1 show "tree_ok x w1" by (auto simp: tree_ok_def)
  qed (use ok v mono in simp_all)
  have tx': "withTx (restore_body (n_owner n) (n_id n) (scanNode w n)) (w\<lparr>faults := bs\<rparr>) = (q, v') \<Longrightarrow>
      n \<in> set (nodes w) \<Longrightarrow> tree_ok x v'" for n bs q v' by (rule tx [OF refl _ refl])
  from run show "tree_ok x w'"
    unfolding Restore_eq
  proof (elim bindM_cases, goal_cases)
    case (1 e)
    then show ?case by (auto simp: store_Get_def ok elim!: query_node_run)
  next
    case (2 node v)
    then obtain bs n where v: "v = w\<lparr>faults := bs\<rparr>" and n: "n \<in> set (nodes w)" "n_id n = i" "n_owner n = own"
      and node: "node = scanNode w n" by (auto simp: store_Get_def elim!: query_node_run)
    have tx'': "withTx (restore_body own i node) v = (q, v') \<Longrightarrow> tree_ok x v'" for q v'
      unfolding node by (rule tx [OF v n(1,2)])
    from 2(2) show ?case
      by (auto simp: store_Get_def run_iffs ok v split: if_splits elim!: thenM_cases query_node_run
          dest!: tx'' [unfolded v])
  qed
qed

lemma tree_deletes:
  "keeps (tree_ok x) (Purge own i)" "keeps (tree_ok x) (EmptyTrash own)" "keeps (tree_ok x) (AutoPurgeTrash d)"
  "keeps (tree_ok x) (PruneVersions n d lim)"
  unfolding Purge_def EmptyTrash_def AutoPurgeTrash_def PruneVersions_def store_Get_def
  by (intro keeps_intros)+

lemma drew_RestoreVersion_parts [keeps_intros]: "keeps (drew k) (selectM f)"
  by (intro keeps_selectM drew_fault_free)

lemma tree_RestoreVersion: "keeps (tree_ok x) (RestoreVersion own nd vid)"
proof -
  have tx: "keeps (tree_ok x) (withTx c)" if "keeps (tree_ok x) c" "\<And>k. keeps (drew k) c" for c :: "(world, int) m"
    by (rule withTx_triple) (rule keepsT, rule that, rule that)
  show ?thesis
    unfolding RestoreVersion_def store_Get_def
    by (intro keeps_intros tx tree_fault_free drew_fault_free)
qed

text \<open>Moves.\<close>

definition move_body :: "ext \<Rightarrow> nat \<Rightarrow> nat \<Rightarrow> node \<Rightarrow> nat \<Rightarrow> nat \<Rightarrow> string \<Rightarrow> (world, node option) m" where
  "move_body x own i node oldParent parentID name =
               (bindM (live_folder_path own parentID) (\<lambda>parentPath.
                if IsFolder node \<and> (parentID = N_ID node \<or> HasPrefix (parentPath @ ''/'') (N_Path node @ ''/''))
                then raise ErrCycle
                else
                  (let newPath = JoinPath parentPath name
                   in if newPath = N_Path node \<and> parentID = oldParent then ret (Some node)
                      else
                        bindM (tryM (update_nodes (\<lambda>n. n_id n = i)
                           (\<lambda>t n. n\<lparr>n_parent := Some parentID, n_name := name, n_fold := Fold x name,
                                   n_path := newPath, n_updated := t\<rparr>))) (\<lambda>r. case r of
                          Inl e \<Rightarrow> (if e = unique_violation then raise ErrNameTaken
                                    else raise (Wrap ''move node'' e))
                        | Inr _ \<Rightarrow>
                            thenM (if IsFolder node
                                   then wrapM ''rewrite descendant paths''
                                          (rewrite_descendants own (N_Path node) newPath)
                                   else ret 0)
                            (ret None)))))"

lemma MoveOrRename_eq: "MoveOrRename x own i newParentID newName =
     bindM (GetLive own i) (\<lambda>node. case N_ParentID node of
       None \<Rightarrow> raise ErrRootReserved
     | Some oldParent \<Rightarrow>
         thenM (if newName \<noteq> [] then check_name x newName else ret ())
         (let name = (if newName \<noteq> [] then newName else N_Name node);
              parentID = (case newParentID of Some p \<Rightarrow> p | None \<Rightarrow> oldParent)
          in bindM (withTx (move_body x own i node oldParent parentID name))
               (\<lambda>same. case same of Some n \<Rightarrow> ret n | None \<Rightarrow> store_Get own i)))"
  unfolding MoveOrRename_def move_body_def by (rule refl)

text \<open>The row change as a whole.\<close>

definition move_rows :: "ext \<Rightarrow> int \<Rightarrow> node_row \<Rightarrow> nat \<Rightarrow> string \<Rightarrow> string \<Rightarrow> node_row \<Rightarrow> node_row" where
  "move_rows x t i0 p nm q n = (if n = i0 then moved_row t p nm (Fold x nm) q n
        else if n_kind i0 = KindFolder \<and> below i0 n then spliced_row t (n_path i0) q n else n)"

lemma splice_row:
  assumes "prefix (old @ ''/'') (n_path n)"
  shows "n\<lparr>n_path := q @ pg_substring_from (n_path n) (int (length old) + 1), n_updated := t\<rparr> = spliced_row t old q n"
proof -
  from assms obtain r where r: "n_path n = old @ CHR ''/'' # r" by (auto simp: prefix_def)
  have "pg_substring_from (n_path n) (int (length old) + 1) = spliced old (CHR ''/'' # r)"
    unfolding r by (rule substring_below) simp
  with r show ?thesis by (simp add: spliced_row_def)
qed

lemma move_rows_eq:
  assumes inv: "tree_inv x ns" and i0: "i0 \<in> set ns"
    and cyc: "n_kind i0 = KindFolder \<Longrightarrow> \<not> prefix (n_path i0 @ ''/'') q"
    and ns1: "ns1 = map (\<lambda>n. if n_id n = n_id i0 then moved_row t p nm (Fold x nm) q n else n) ns"
    and ns2: "ns2 = (if n_kind i0 = KindFolder then map (\<lambda>n. if n_owner n = n_owner i0 \<and>
        like (likePrefix (n_path i0) @ ''/%'') (n_path n)
        then n\<lparr>n_path := q @ pg_substring_from (n_path n) (int (length (n_path i0)) + 1), n_updated := t\<rparr>
        else n) ns1 else ns1)"
  shows "ns2 = map (move_rows x t i0 p nm q) ns"
proof -
  have d: "distinct (map n_id ns)" using inv by (simp add: tree_inv_def)
  have ns1': "ns1 = map (\<lambda>n. if n = i0 then moved_row t p nm (Fold x nm) q n else n) ns"
    unfolding ns1 by (rule only_this [OF d i0])
  show ?thesis
  proof (cases "n_kind i0 = KindFolder")
    case True
    have "(if n_owner k = n_owner i0 \<and> like (likePrefix (n_path i0) @ ''/%'') (n_path k)
        then k\<lparr>n_path := q @ pg_substring_from (n_path k) (int (length (n_path i0)) + 1), n_updated := t\<rparr>
        else k) = move_rows x t i0 p nm q n"
      if k: "k = (if n = i0 then moved_row t p nm (Fold x nm) q n else n)" for k n
    proof (cases "n = i0")
      case True
      with k cyc [OF \<open>n_kind i0 = KindFolder\<close>] show ?thesis by (simp add: like_below move_rows_def)
    next
      case False
      with k True show ?thesis
        by (cases "below i0 n") (auto simp: like_below move_rows_def below_def splice_row)
    qed
    with True show ?thesis unfolding ns2 ns1' by simp
  next
    case False
    then show ?thesis unfolding ns2 ns1' by (simp add: move_rows_def)
  qed
qed

lemma move_body_run:
  assumes run: "move_body x own i node oldParent parentID name w = (Inr k, w')" and inv: "tree_inv x (nodes w)"
    and i0: "i0 \<in> set (nodes w)" "n_id i0 = i" "n_owner i0 = own"
    and node: "N_Path node = n_path i0" "N_Kind node = n_kind i0" "N_ID node = n_id i0"
  obtains "nodes w' = nodes w" "next_id w' = next_id w" "k = Some node"
  | p where "p \<in> set (nodes w)" "live p" "n_kind p = KindFolder" "n_owner p = own" "n_id p = parentID"
      "n_kind i0 = KindFolder \<Longrightarrow> p \<noteq> i0 \<and> \<not> below i0 p"
      "nodes w' = map (move_rows x (now w) i0 parentID name (JoinPath (n_path p) name)) (nodes w)"
      "nodes_unique (nodes w')" "next_id w' = next_id w" "name \<noteq> []" "CHR ''/'' \<notin> set name" "k = None"
proof -
  let ?q = "\<lambda>n. n_id n = i"
  from run obtain pp w0 where 0: "live_folder_path own parentID w = (Inr pp, w0)"
    and rest: "(if IsFolder node \<and> (parentID = N_ID node \<or> HasPrefix (pp @ ''/'') (N_Path node @ ''/''))
                then raise ErrCycle
                else
                  (let newPath = JoinPath pp name
                   in if newPath = N_Path node \<and> parentID = oldParent then ret (Some node)
                      else
                        bindM (tryM (update_nodes (\<lambda>n. n_id n = i)
                           (\<lambda>t n. n\<lparr>n_parent := Some parentID, n_name := name, n_fold := Fold x name,
                                   n_path := newPath, n_updated := t\<rparr>))) (\<lambda>r. case r of
                          Inl e \<Rightarrow> (if e = unique_violation then raise ErrNameTaken
                                    else raise (Wrap ''move node'' e))
                        | Inr _ \<Rightarrow>
                            thenM (if IsFolder node
                                   then wrapM ''rewrite descendant paths''
                                          (rewrite_descendants own (N_Path node) newPath)
                                   else ret 0)
                            (ret None)))) w0 = (Inr k, w')"
    unfolding move_body_def by (rule bindM_cases) auto
  from 0 obtain bs p where w0: "w0 = w\<lparr>faults := bs\<rparr>" and p: "p \<in> set (nodes w)" "n_id p = parentID"
    "n_owner p = own" "live p" "n_kind p = KindFolder" "pp = n_path p"
    by (rule folder_path_run) auto
  let ?np = "JoinPath (n_path p) name"
  let ?g = "\<lambda>t n. n\<lparr>n_parent := Some parentID, n_name := name, n_fold := Fold x name, n_path := ?np, n_updated := t\<rparr>"
  have cyc: "n_kind i0 = KindFolder \<Longrightarrow> parentID \<noteq> i \<and> \<not> prefix (n_path i0 @ ''/'') (n_path p @ ''/'')"
    using rest p(6) i0(2) node by (auto simp: IsFolder_def raise_iff split: if_splits)
  then have away: "n_kind i0 = KindFolder \<Longrightarrow> p \<noteq> i0 \<and> \<not> below i0 p"
    using p i0 by (auto simp: below_def prefix_def)
  consider "w' = w0" "k = Some node" | k1 w1 where "update_nodes ?q ?g w0 = (Inr k1, w1)" "k = None"
      "if n_kind i0 = KindFolder then \<exists>k2. rewrite_descendants own (n_path i0) ?np w1 = (Inr k2, w') else w' = w1"
    using rest p(6) node
    by (auto simp: IsFolder_def run_iffs wrap_iffs Let_def split: if_splits sum.splits
        elim!: bindM_cases thenM_cases tryM_run)
  then show ?thesis
  proof cases
    case 1
    with w0 that(1) show ?thesis by simp
  next
    case 2
    note u1 = update_nodes_Inr [OF 2(1)]
    have "node_errors w0 (update_rows ?q (?g (now w0)) (nodes w0)) (map (?g (now w0)) (filter ?q (nodes w0))) = None"
      using 2(1) by (rule update_nodes_run) auto
    then have "nodes_name_check (?g (now w0) i0)"
      by (rule node_errors_None(2)) (use i0 w0 in auto)
    then have name: "name \<noteq> []" "CHR ''/'' \<notin> set name" by (auto simp: nodes_name_check_def)
    have notbelow: "\<not> prefix (n_path i0 @ ''/'') ?np" if "n_kind i0 = KindFolder"
    proof
      assume pre: "prefix (n_path i0 @ ''/'') ?np"
      have "base (n_path p) = n_path i0 \<or> prefix (n_path i0 @ ''/'') (base (n_path p))"
        using pre name by (simp add: JoinPath_base prefix_path)
      with cyc [OF that] tree_path_nonempty [OF inv i0(1)] show False
        by (auto simp: base_def prefix_def split: if_splits)
    qed
    have ns1: "nodes w1 = map (\<lambda>n. if n_id n = n_id i0 then moved_row (now w) parentID name (Fold x name) ?np n else n) (nodes w)"
      using u1(1) i0(2) w0 by (simp add: moved_row_def)
    have ns2: "nodes w' = (if n_kind i0 = KindFolder then map (\<lambda>n. if n_owner n = n_owner i0 \<and>
        like (likePrefix (n_path i0) @ ''/%'') (n_path n)
        then n\<lparr>n_path := ?np @ pg_substring_from (n_path n) (int (length (n_path i0)) + 1), n_updated := now w\<rparr>
        else n) (nodes w1) else nodes w1)"
      using 2(3) u1(2) i0(3) w0 update_nodes_Inr(1) unfolding rewrite_descendants_def by fastforce
    have "nodes_unique (nodes w')" "next_id w' = next_id w"
      using 2(3) u1(3,5) w0 update_nodes_Inr(3,5) unfolding rewrite_descendants_def
      by (fastforce split: if_splits)+
    then show ?thesis
      using that(2) [OF p(1,4,5,3,2) away] move_rows_eq [OF inv i0(1) notbelow ns1 ns2] name 2(2) by blast
  qed
qed

text \<open>
  The two conditions under which a rename or move of a folder keeps the tree in shape: its path is
  ASCII, and no other row of the owner (in the trash) has that path.
\<close>

definition plain_move :: "nat \<Rightarrow> nat \<Rightarrow> world \<Rightarrow> bool" where
  "plain_move own i w \<longleftrightarrow> (\<forall>k \<in> set (nodes w). n_id k = i \<and> n_owner k = own \<and> n_kind k = KindFolder \<longrightarrow>
     ascii (n_path k) \<and> (\<forall>n \<in> set (nodes w). n_owner n = own \<and> n_path n = n_path k \<longrightarrow> n = k))"

lemma move_body_tree:
  assumes run: "move_body x own i (scanNode v i0) oldParent parentID name w = (Inr k, w')" and ok: "tree_ok x w"
    and i0: "i0 \<in> set (nodes w)" "n_id i0 = i" "n_owner i0 = own" "live i0" "n_parent i0 \<noteq> None"
    and plain: "plain_move own i w"
  shows "tree_ok x w'"
proof -
  have inv: "tree_inv x (nodes w)" using ok by (simp add: tree_ok_def)
  show ?thesis
  proof (rule move_body_run [OF run inv i0(1-3)])
    fix p assume p: "p \<in> set (nodes w)" "live p" "n_kind p = KindFolder" "n_owner p = own" "n_id p = parentID"
      and away: "n_kind i0 = KindFolder \<Longrightarrow> p \<noteq> i0 \<and> \<not> below i0 p"
      and rows: "nodes w' = map (move_rows x (now w) i0 parentID name (JoinPath (n_path p) name)) (nodes w)"
      and u: "nodes_unique (nodes w')" and nid: "next_id w' = next_id w"
      and name: "name \<noteq> []" "CHR ''/'' \<notin> set name"
    have away': "p \<noteq> i0 \<and> \<not> below i0 p"
    proof (cases "n_kind i0 = KindFolder")
      case True
      then show ?thesis by (rule away)
    next
      case False
      have "\<not> below i0 p"
      proof
        assume b: "below i0 p"
        obtain a where "a \<in> set (nodes w)" "n_path a = n_path i0" "n_owner a = n_owner p" "n_kind a = KindFolder" "live a"
          using ancestor_at [OF inv p(1), of "n_path i0"] b p(2) tree_path_nonempty [OF inv i0(1)]
          by (auto simp: below_def)
        with live_path_inj [OF inv _ i0(1)] i0 b False show False by (auto simp: below_def)
      qed
      with False p(3) show ?thesis by auto
    qed
    have "tree_inv x (nodes w')"
      unfolding rows
    proof (rule tree_inv_move [OF inv i0(1,4,5) nonroot_path [OF inv i0(1,5)], of p name])
      show "p \<in> set (nodes w)" "live p" "n_kind p = KindFolder" by fact+
      show "n_owner p = n_owner i0" using p i0 by simp
      show "p \<noteq> i0" "\<not> below i0 p" using away' by blast+
      show "JoinPath (n_path p) name = JoinPath (n_path p) name" ..
      show "n_kind i0 = KindFolder \<Longrightarrow> ascii (n_path i0)" using plain i0 by (auto simp: plain_move_def)
      show "\<And>n. n_kind i0 = KindFolder \<Longrightarrow> n \<in> set (nodes w) \<Longrightarrow> n_owner n = n_owner i0 \<Longrightarrow>
          n_path n = n_path i0 \<Longrightarrow> n = i0" using plain i0 by (auto simp: plain_move_def)
      show "\<And>n. move_rows x (now w) i0 parentID name (JoinPath (n_path p) name) n =
          (if n = i0 then moved_row (now w) (n_id p) name (Fold x name) (JoinPath (n_path p) name) n
           else if n_kind i0 = KindFolder \<and> below i0 n
             then spliced_row (now w) (n_path i0) (JoinPath (n_path p) name) n else n)"
        by (simp add: move_rows_def p(5))
      show "nodes_unique (map (move_rows x (now w) i0 parentID name (JoinPath (n_path p) name)) (nodes w))"
        using u rows by simp
    qed (use name in simp_all)
    moreover have "\<forall>n \<in> set (nodes w'). n_id n < next_id w'"
      using ok by (auto simp: rows nid tree_ok_def move_rows_def)
    ultimately show "tree_ok x w'" by (simp add: tree_ok_def)
  qed (use ok in \<open>auto intro: tree_ok_frame\<close>)
qed

lemma tree_MoveOrRename:
  assumes run: "MoveOrRename x own i np nm w = (r, w')" and ok: "tree_ok x w" and plain: "plain_move own i w"
  shows "tree_ok x w'"
proof -
  have mono: "keeps (drew k) (move_body x o2 j node op p name)" for k o2 j node op p name
    unfolding move_body_def rewrite_descendants_def Let_def by (intro keeps_intros)
  have tx: "tree_ok x v'" if t: "withTx (move_body x own i (scanNode w n) op p name) (w\<lparr>faults := bs\<rparr>) = (q, v')"
    and n: "n \<in> set (nodes w)" "n_id n = i" "n_owner n = own" "live n" "n_parent n \<noteq> None" for bs n op p name q v'
    using t
  proof (rule withTx_tree)
    fix bs' q w1
    assume b: "move_body x own i (scanNode w n) op p name (w\<lparr>faults := bs, faults := bs'\<rparr>) = (Inr q, w1)"
    show "tree_ok x w1" by (rule move_body_tree [OF b]) (use ok n plain in \<open>simp_all add: plain_move_def\<close>)
  qed (use ok mono in simp_all)
  from run show ?thesis
    unfolding MoveOrRename_eq
  proof (elim bindM_cases, goal_cases)
    case (1 e)
    then show ?case by (auto simp: GetLive_def ok elim!: query_node_run)
  next
    case (2 node v)
    then obtain bs n where v: "v = w\<lparr>faults := bs\<rparr>" and n: "n \<in> set (nodes w)" "n_id n = i" "n_owner n = own" "live n"
      and node: "node = scanNode w n" by (auto simp: GetLive_def live_def elim!: query_node_run)
    show ?case
    proof (cases "n_parent n")
      case None
      with 2(2) node v ok show ?thesis by (auto simp: raise_iff)
    next
      case (Some op)
      have tx': "withTx (move_body x own i node op p name) v = (q, v') \<Longrightarrow> tree_ok x v'" for p name q v'
        using tx [of n op p name bs q v'] n Some v node by simp
      from 2(2) Some node show ?thesis
        by (auto simp: store_Get_def run_iffs ok v Let_def split: if_splits option.splits
            elim!: thenM_cases bindM_cases check_name_run query_node_run dest!: tx' [unfolded v node])
    qed
  qed
qed

end
