(* ===== verification/Journal.thy ===== *)
theory Journal
  imports TreeOps
begin

text \<open>
  The sync journal: whatever an operation of the tree does, and however it fails, every node whose
  path, content or trash state an owner sees change is named in a new row of that owner's journal,
  and the rows of an owner carry ascending numbers above every number given out before.
\<close>

section \<open>What the journal promises\<close>

definition latest :: "world \<Rightarrow> nat \<Rightarrow> int" where
  "latest w ow = (case map_of (sync_state w) ow of None \<Rightarrow> 0 | Some s \<Rightarrow> s)"

text \<open>What a client sees of a node: where it is, what it holds and whether it is in the trash.\<close>

definition seen :: "nat \<Rightarrow> nat \<Rightarrow> node_row list \<Rightarrow> (string \<times> nat option \<times> int option) option" where
  "seen ow i ns = map_option (\<lambda>n. (n_path n, n_head n, n_trashed n))
     (find (\<lambda>n. n_id n = i \<and> n_owner n = ow) ns)"

definition appended :: "world \<Rightarrow> world \<Rightarrow> change_row list \<Rightarrow> bool" where
  "appended w w' cs \<longleftrightarrow> changes w' = changes w @ cs \<and> (\<forall>ow. latest w ow \<le> latest w' ow) \<and>
     (\<forall>c \<in> set cs. latest w (chg_owner c) < chg_seq c \<and> chg_seq c \<le> latest w' (chg_owner c)) \<and>
     (\<forall>ow. sorted_wrt (<) (map chg_seq (filter (\<lambda>c. chg_owner c = ow) cs)))"

lemma appended_refl: "changes w' = changes w \<Longrightarrow> sync_state w' = sync_state w \<Longrightarrow> appended w w' []"
  by (simp add: appended_def latest_def)

lemma appended_trans:
  assumes a: "appended w w1 c1" and b: "appended w1 w2 c2"
  shows "appended w w2 (c1 @ c2)"
proof -
  have le: "latest w ow \<le> latest w1 ow" "latest w1 ow \<le> latest w2 ow" for ow
    using a b by (simp_all add: appended_def)
  have c1: "latest w (chg_owner c) < chg_seq c \<and> chg_seq c \<le> latest w1 (chg_owner c)" if "c \<in> set c1" for c
    using a that by (simp add: appended_def)
  have c2: "latest w1 (chg_owner c) < chg_seq c \<and> chg_seq c \<le> latest w2 (chg_owner c)" if "c \<in> set c2" for c
    using b that by (simp add: appended_def)
  have "sorted_wrt (<) (map chg_seq (filter (\<lambda>c. chg_owner c = ow) (c1 @ c2)))" for ow
    using a b c1 c2 by (fastforce simp: appended_def sorted_wrt_append)
  moreover have "latest w ow \<le> latest w2 ow" for ow using le [of ow] by linarith
  moreover have "latest w (chg_owner c) < chg_seq c \<and> chg_seq c \<le> latest w2 (chg_owner c)"
    if "c \<in> set (c1 @ c2)" for c
    using that c1 [of c] c2 [of c] le [of "chg_owner c"] by auto
  ultimately show ?thesis using a b by (simp add: appended_def)
qed

lemma appended_journal: "\<exists>c. appended w (journal_append ow nd op w) [c] \<and> chg_owner c = ow \<and> chg_node c = nd"
  by (simp add: journal_append_def appended_def latest_def Let_def update_conv' split: option.splits)

definition noticed :: "change_row list \<Rightarrow> node_row \<Rightarrow> bool" where
  "noticed cs n \<longleftrightarrow> (\<exists>c \<in> set cs. chg_owner c = n_owner n \<and> chg_node c = n_id n)"

lemma journal_change_appends:
  "\<exists>cs. appended w (journal_node_change a b w) cs \<and>
     (\<forall>n. b = Some n \<longrightarrow> (\<forall>m. a = Some m \<longrightarrow> (n_path n, n_head n, n_trashed n) \<noteq> (n_path m, n_head m, n_trashed m)) \<longrightarrow> noticed cs n) \<and>
     (\<forall>m. b = None \<longrightarrow> a = Some m \<longrightarrow> noticed cs m)"
proof (cases b)
  case None
  show ?thesis
  proof (cases a)
    case None
    with \<open>b = None\<close> show ?thesis
      by (intro exI [of _ "[]"]) (simp add: journal_node_change_def appended_refl)
  next
    case (Some m)
    obtain c where "appended w (journal_append (n_owner m) (n_id m) ''delete'' w) [c]"
      "chg_owner c = n_owner m" "chg_node c = n_id m" using appended_journal by blast
    with Some \<open>b = None\<close> show ?thesis
      by (intro exI [of _ "[c]"]) (simp add: journal_node_change_def noticed_def)
  qed
next
  case (Some n)
  obtain c where c: "appended w (journal_append (n_owner n) (n_id n) (if n_trashed n = None then ''upsert'' else ''delete'') w) [c]"
    "chg_owner c = n_owner n" "chg_node c = n_id n" using appended_journal by blast
  show ?thesis
  proof (cases "case a of None \<Rightarrow> False | Some m \<Rightarrow> n_path n = n_path m \<and> n_head n = n_head m \<and> n_trashed n = n_trashed m")
    case True
    with Some show ?thesis
      by (intro exI [of _ "[]"]) (auto simp: journal_node_change_def appended_refl split: option.splits)
  next
    case False
    with Some c show ?thesis
      by (intro exI [of _ "[c]"]) (auto simp: journal_node_change_def noticed_def split: option.splits)
  qed
qed


definition alters :: "node_row option \<Rightarrow> node_row \<Rightarrow> bool" where
  "alters k n \<longleftrightarrow> (case k of None \<Rightarrow> True
     | Some k \<Rightarrow> n_id k = n_id n \<and> n_owner k = n_owner n \<and>
         (n_path k, n_head k, n_trashed k) \<noteq> (n_path n, n_head n, n_trashed n))"

lemma noticed_append: "noticed (c1 @ c2) n \<longleftrightarrow> noticed c1 n \<or> noticed c2 n"
  by (auto simp: noticed_def)

lemma fold_change_appends:
  "\<exists>cs. appended w (fold (\<lambda>n. journal_node_change (Some n) (f n)) ns w) cs \<and>
     (\<forall>n \<in> set ns. alters (f n) n \<longrightarrow> noticed cs n)"
proof (induction ns arbitrary: w)
  case Nil
  show ?case by (intro exI [of _ "[]"]) (simp add: appended_refl)
next
  case (Cons m ns)
  obtain c1 where c1: "appended w (journal_node_change (Some m) (f m) w) c1"
    "\<And>n. f m = Some n \<Longrightarrow> (n_path n, n_head n, n_trashed n) \<noteq> (n_path m, n_head m, n_trashed m) \<Longrightarrow> noticed c1 n"
    "f m = None \<Longrightarrow> noticed c1 m"
    using journal_change_appends [of w "Some m" "f m"] by auto
  have m: "alters (f m) m \<Longrightarrow> noticed c1 m"
    using c1(2,3) by (cases "f m") (auto simp: alters_def noticed_def)
  obtain c2 where c2: "appended (journal_node_change (Some m) (f m) w)
      (fold (\<lambda>n. journal_node_change (Some n) (f n)) ns (journal_node_change (Some m) (f m) w)) c2"
    "\<forall>n \<in> set ns. alters (f n) n \<longrightarrow> noticed c2 n"
    using Cons.IH by blast
  show ?case
  proof (intro exI [of _ "c1 @ c2"] conjI)
    show "appended w (fold (\<lambda>n. journal_node_change (Some n) (f n)) (m # ns) w) (c1 @ c2)"
      using appended_trans [OF c1(1) c2(1)] by simp
    show "\<forall>n \<in> set (m # ns). alters (f n) n \<longrightarrow> noticed (c1 @ c2) n"
      using m c2(2) by (auto simp: noticed_append)
  qed
qed

text \<open>
  From \<open>w\<close> to \<open>w'\<close> the journal only grew, with fresh ascending numbers per owner, and every node an
  owner sees differently is named in what was added for that owner.
\<close>

definition journaled :: "world \<Rightarrow> world \<Rightarrow> bool" where
  "journaled w w' \<longleftrightarrow> (\<exists>cs. appended w w' cs \<and>
     (\<forall>ow i. seen ow i (nodes w') \<noteq> seen ow i (nodes w) \<longrightarrow> (\<exists>c \<in> set cs. chg_owner c = ow \<and> chg_node c = i)))"

lemma journaled_frame:
  "nodes w' = nodes w \<Longrightarrow> changes w' = changes w \<Longrightarrow> sync_state w' = sync_state w \<Longrightarrow> journaled w w'"
  by (auto simp: journaled_def intro!: exI [of _ "[]"] appended_refl)

lemma journaled_trans:
  assumes "journaled w w1" "journaled w1 w2"
  shows "journaled w w2"
proof -
  from assms obtain c1 c2 where a: "appended w w1 c1" "appended w1 w2 c2"
    and s: "\<And>ow i. seen ow i (nodes w1) \<noteq> seen ow i (nodes w) \<Longrightarrow> \<exists>c \<in> set c1. chg_owner c = ow \<and> chg_node c = i"
      "\<And>ow i. seen ow i (nodes w2) \<noteq> seen ow i (nodes w1) \<Longrightarrow> \<exists>c \<in> set c2. chg_owner c = ow \<and> chg_node c = i"
    unfolding journaled_def by blast
  have "\<exists>c \<in> set (c1 @ c2). chg_owner c = ow \<and> chg_node c = i" if "seen ow i (nodes w2) \<noteq> seen ow i (nodes w)" for ow i
    using s [of ow i] that by (cases "seen ow i (nodes w1) = seen ow i (nodes w)") auto
  with appended_trans [OF a] show ?thesis unfolding journaled_def by blast
qed

lemma find_map_keep:
  "(\<And>n. P (g n) = P n) \<Longrightarrow> find P (map g ns) = map_option g (find P ns)"
  by (induction ns) auto

lemma find_filter_diff:
  "find P (filter q ns) \<noteq> find P ns \<Longrightarrow> \<exists>n \<in> set ns. P n \<and> \<not> q n"
  by (induction ns) (auto split: if_splits)

lemma journaled_update:
  assumes g: "\<And>n. n_id (g n) = n_id n \<and> n_owner (g n) = n_owner n"
    and w': "nodes w' = update_rows q g (nodes w)"
    and f: "w' = fold (\<lambda>n. journal_node_change (Some n) (Some (g n))) (filter q (nodes w)) v"
    and v: "changes v = changes w" "sync_state v = sync_state w"
  shows "journaled w w'"
proof -
  obtain cs where a: "appended v w' cs" and n: "\<forall>n \<in> set (filter q (nodes w)).
      (n_path (g n), n_head (g n), n_trashed (g n)) \<noteq> (n_path n, n_head n, n_trashed n) \<longrightarrow> noticed cs n"
    using fold_change_appends [of v "\<lambda>n. Some (g n)" "filter q (nodes w)"] g f by (auto simp: alters_def)
  have "appended w w' cs" using a v by (simp add: appended_def latest_def)
  moreover have "\<exists>c \<in> set cs. chg_owner c = ow \<and> chg_node c = i"
    if d: "seen ow i (nodes w') \<noteq> seen ow i (nodes w)" for ow i
  proof -
    let ?P = "\<lambda>n. n_id n = i \<and> n_owner n = ow"
    have "find ?P (nodes w') = map_option (\<lambda>n. if q n then g n else n) (find ?P (nodes w))"
      unfolding w' update_rows_def by (rule find_map_keep) (simp add: g)
    with d obtain n where n': "find ?P (nodes w) = Some n" "q n"
      "(n_path (g n), n_head (g n), n_trashed (g n)) \<noteq> (n_path n, n_head n, n_trashed n)"
      by (cases "find ?P (nodes w)") (auto simp: seen_def split: if_splits)
    with find_Some_set [OF n'(1)] n have "noticed cs n" by auto
    with find_Some_set [OF n'(1)] show ?thesis by (auto simp: noticed_def)
  qed
  ultimately show ?thesis unfolding journaled_def by blast
qed

lemma keeps_journaled: "(\<And>w r w'. c w = (r, w') \<Longrightarrow> journaled w w') \<Longrightarrow> keeps (journaled w0) c"
  by (rule keepsI) (blast intro: journaled_trans)

lemma journaled_fault_free [simp]: "fault_free (journaled w0)"
  by (simp add: fault_free_def journaled_def appended_def latest_def)

lemma journaled_rollback: "journaled w0 w \<Longrightarrow> journaled w0 w' \<Longrightarrow> journaled w0 (rollback w w')"
  by (rule journaled_trans, assumption) (rule journaled_frame, simp_all)

lemma journaled_withTx [keeps_intros]: "keeps (journaled w0) c \<Longrightarrow> keeps (journaled w0) (withTx c)"
  by (rule keeps_withTx) (simp_all add: journaled_rollback)

lemma journaled_modM [keeps_intros]:
  "(\<And>w. nodes (f w) = nodes w \<and> changes (f w) = changes w \<and> sync_state (f w) = sync_state w) \<Longrightarrow>
   keeps (journaled w0) (modM f)"
  by (rule keeps_journaled) (auto simp: modM_def intro: journaled_frame)

lemma journaled_fresh_id [keeps_intros]: "keeps (journaled w0) fresh_id"
  by (rule keeps_journaled) (auto simp: fresh_id_def intro: journaled_frame)

lemma journaled_update_nodes [keeps_intros]:
  "(\<And>t n. n_id (g t n) = n_id n \<and> n_owner (g t n) = n_owner n) \<Longrightarrow> keeps (journaled w0) (update_nodes q g)"
proof (rule keeps_journaled, erule update_nodes_run)
  fix w w' bs
  assume g: "\<And>t n. n_id (g t n) = n_id n \<and> n_owner (g t n) = n_owner n"
    and w': "w' = fold (\<lambda>n. journal_node_change (Some n) (Some (g (now w) n))) (filter q (nodes w))
              (w\<lparr>faults := bs, nodes := update_rows q (g (now w)) (nodes w)\<rparr>)"
  show "journaled w w'" by (rule journaled_update [OF g _ w']) (simp_all add: w')
qed (auto intro: journaled_frame)

lemma find_snoc: "find P (ns @ [k]) = (case find P ns of None \<Rightarrow> (if P k then Some k else None) | Some n \<Rightarrow> Some n)"
  by (induction ns) auto

lemma journaled_insert_node [keeps_intros]:
  assumes mk: "\<And>i t. n_id (mk i t) = i"
  shows "keeps (journaled w0) (insert_node mk)"
proof (rule keeps_journaled, erule insert_node_run)
  fix w w' bs
  assume w': "w' = journal_node_change None (Some (mk (next_id w) (now w)))
      (w\<lparr>faults := bs, next_id := Suc (next_id w), nodes := nodes w @ [mk (next_id w) (now w)]\<rparr>)"
    (is "_ = journal_node_change None (Some ?k) ?v")
  obtain cs where cs: "appended ?v w' cs" "noticed cs ?k"
    using journal_change_appends [of ?v None "Some ?k"] w' by auto
  then have "appended w w' cs" by (simp add: appended_def latest_def)
  moreover have "\<exists>c \<in> set cs. chg_owner c = ow \<and> chg_node c = i"
    if d: "seen ow i (nodes w') \<noteq> seen ow i (nodes w)" for ow i
  proof -
    have "n_id ?k = i \<and> n_owner ?k = ow"
      using d by (auto simp: w' seen_def find_snoc split: option.splits if_splits)
    with cs(2) show ?thesis by (auto simp: noticed_def)
  qed
  ultimately show "journaled w w'" unfolding journaled_def by blast
qed (auto intro: journaled_frame)

lemma journaled_drop_nodes: "journaled w (drop_nodes p w)"
proof -
  let ?ids = "set (descend (length (nodes w)) (nodes w) (map n_id (filter p (nodes w))))"
  let ?gone = "filter (\<lambda>n. n_id n \<in> ?ids) (nodes w)"
  let ?v = "w\<lparr>nodes := filter (\<lambda>n. n_id n \<notin> ?ids) (nodes w),
              versions := filter (\<lambda>v. v_node v \<notin> ?ids) (versions w),
              blobs := fold (\<lambda>v. blob_refcount_bump (Some v) None) (filter (\<lambda>v. v_node v \<in> ?ids) (versions w)) (blobs w),
              grants := filter (\<lambda>g. g_node g \<notin> ?ids) (grants w),
              uploads := filter (\<lambda>u. up_parent u \<notin> ?ids) (uploads w)\<rparr>"
  have eq: "drop_nodes p w = fold (\<lambda>n. journal_node_change (Some n) None) ?gone ?v"
    by (simp add: drop_nodes_def Let_def)
  obtain cs where a: "appended ?v (drop_nodes p w) cs" and n: "\<forall>n \<in> set ?gone. noticed cs n"
    using fold_change_appends [of ?v "\<lambda>n. None" ?gone] unfolding eq by (auto simp: alters_def)
  have "appended w (drop_nodes p w) cs" using a by (simp add: appended_def latest_def)
  moreover have "\<exists>c \<in> set cs. chg_owner c = ow \<and> chg_node c = i"
    if d: "seen ow i (nodes (drop_nodes p w)) \<noteq> seen ow i (nodes w)" for ow i
  proof -
    have "find (\<lambda>n. n_id n = i \<and> n_owner n = ow) (filter (\<lambda>n. n_id n \<notin> ?ids) (nodes w))
        \<noteq> find (\<lambda>n. n_id n = i \<and> n_owner n = ow) (nodes w)"
      using d by (auto simp: eq seen_def)
    from find_filter_diff [OF this] n show ?thesis by (auto simp: noticed_def)
  qed
  ultimately show ?thesis unfolding journaled_def by blast
qed

lemma journaled_drop_versions: "journaled w (drop_versions p w)"
proof -
  let ?loses = "\<lambda>n. case n_head n of None \<Rightarrow> False | Some v \<Rightarrow> v \<in> set (map v_id (filter p (versions w)))"
  have eq: "drop_versions p w = fold (\<lambda>n. journal_node_change (Some n) (Some (n\<lparr>n_head := None\<rparr>)))
      (filter ?loses (nodes w)) (w\<lparr>versions := filter (\<lambda>v. \<not> p v) (versions w),
              blobs := fold (\<lambda>v. blob_refcount_bump (Some v) None) (filter p (versions w)) (blobs w),
              nodes := update_rows ?loses (\<lambda>n. n\<lparr>n_head := None\<rparr>) (nodes w)\<rparr>)"
    by (simp add: drop_versions_def Let_def)
  show ?thesis by (rule journaled_update [OF _ _ eq]) (simp_all add: eq)
qed

lemma journaled_deletes [keeps_intros]:
  "keeps (journaled w0) (delete_nodes q)" "keeps (journaled w0) (delete_versions p)"
proof -
  have m: "(\<And>w. journaled w (f w)) \<Longrightarrow> keeps (journaled w0) (modM f)" for f
    by (rule keeps_journaled) (auto simp: modM_def)
  show "keeps (journaled w0) (delete_nodes q)" "keeps (journaled w0) (delete_versions p)"
    unfolding delete_nodes_def delete_versions_def
    by (intro keeps_intros journaled_fault_free m journaled_drop_nodes journaled_drop_versions)+
qed

section \<open>Operations are journaled\<close>

lemma journaled_inserts [keeps_intros]:
  "keeps (journaled w0) (insert_version nd bid mid sz mime by_user)" "keeps (journaled w0) (insert_blob key sz sha)"
  unfolding insert_version_def insert_blob_def Let_def
  by (intro keeps_intros journaled_fault_free; simp)+

lemma journaled_queries [keeps_intros]:
  "keeps (journaled w0) (query_node p)" "keeps (journaled w0) (checkQuota own k)"
  "keeps (journaled w0) (live_folder_path own i)" "keeps (journaled w0) (check_name y nm)"
  "keeps (journaled w0) (store_Get own i)" "keeps (journaled w0) (GetLive own i)"
  unfolding query_node_def checkQuota_def quota_of_def live_folder_path_def check_name_def store_Get_def GetLive_def
  by (intro keeps_intros journaled_fault_free)+

lemma journaled_operations [keeps_intros]:
  "keeps (journaled w0) (EnsureRoot own)" "keeps (journaled w0) (CreateFolder x own i nm)"
  "keeps (journaled w0) (PutFile x inp)" "keeps (journaled w0) (MoveOrRename x own i np nm)"
  "keeps (journaled w0) (Trash own i)" "keeps (journaled w0) (Restore own i)"
  "keeps (journaled w0) (Purge own i)" "keeps (journaled w0) (EmptyTrash own)"
  "keeps (journaled w0) (AutoPurgeTrash d)" "keeps (journaled w0) (RestoreVersion own i vid)"
  "keeps (journaled w0) (PruneVersions n d lim)" "keeps (journaled w0) (SwitchToManifest vid blb mnf)"
  "keeps (journaled w0) (DeleteBlobRow i)"
  unfolding EnsureRoot_def CreateFolder_def PutFile_def MoveOrRename_def Trash_def Restore_def Purge_def
    EmptyTrash_def AutoPurgeTrash_def RestoreVersion_def PruneVersions_def SwitchToManifest_def
    DeleteBlobRow_def file_slot_def rewrite_descendants_def store_root_def Let_def
  by (intro keeps_intros journaled_fault_free; simp)+

end
