(* ===== verification/BlobRefs.thy ===== *)
theory BlobRefs
  imports Journal
begin

text \<open>
  The reference counts of whole-file blobs: the trigger keeps \<open>refcount\<close> equal to the number of
  versions that name a blob through every operation of the tree, so the collector's test
  \<open>refcount = 0\<close> means what it says.
\<close>

section \<open>Blob reference counts\<close>

definition refs :: "version_row list \<Rightarrow> nat \<Rightarrow> int" where
  "refs vs i = int (length (filter (\<lambda>v. v_blob v = Some i) vs))"

definition blobs_ok :: "world \<Rightarrow> bool" where
  "blobs_ok w \<longleftrightarrow> distinct (map b_id (blobs w)) \<and> (\<forall>b \<in> set (blobs w). b_id b < next_id w \<and>
       b_ref b = refs (versions w) (b_id b)) \<and>
     (\<forall>v \<in> set (versions w). \<forall>i. v_blob v = Some i \<longrightarrow> i \<in> set (map b_id (blobs w)))"

lemma blobs_ok_frame:
  "blobs_ok w \<Longrightarrow> blobs w' = blobs w \<Longrightarrow> versions w' = versions w \<Longrightarrow> next_id w \<le> next_id w' \<Longrightarrow> blobs_ok w'"
  by (auto simp: blobs_ok_def)

lemma blobs_ok_fault_free [simp]: "fault_free blobs_ok"
  by (auto simp: fault_free_def intro: blobs_ok_frame)

text \<open>The trigger, over a list of rows that change from \<open>v\<close> to \<open>f v\<close>.\<close>

definition bump_of :: "nat \<Rightarrow> version_row option \<Rightarrow> int" where
  "bump_of i r = (case r of None \<Rightarrow> 0 | Some v \<Rightarrow> if v_blob v = Some i then 1 else 0)"

lemma blob_refcount_bump_map:
  "blob_refcount_bump old new bs = map (\<lambda>b. b\<lparr>b_ref := b_ref b + bump_of (b_id b) new - bump_of (b_id b) old\<rparr>) bs"
  by (auto simp: blob_refcount_bump_def blob_bump_def bump_of_def split: option.splits prod.splits)

lemma fold_bumps:
  "fold (\<lambda>v. blob_refcount_bump (Some v) (f v)) vs bs =
     map (\<lambda>b. b\<lparr>b_ref := b_ref b + (\<Sum>v\<leftarrow>vs. bump_of (b_id b) (f v) - bump_of (b_id b) (Some v))\<rparr>) bs"
  by (induction vs arbitrary: bs) (simp_all add: blob_refcount_bump_map algebra_simps)

lemma refs_sum: "refs vs i = (\<Sum>v\<leftarrow>vs. bump_of i (Some v))"
  by (induction vs) (auto simp: refs_def bump_of_def)

lemma refs_append [simp]: "refs (vs @ us) i = refs vs i + refs us i"
  by (simp add: refs_def)

lemma refs_split: "refs vs i = refs (filter p vs) i + refs (filter (\<lambda>v. \<not> p v) vs) i"
  by (induction vs) (auto simp: refs_def)

lemma refs_nonneg: "0 \<le> refs vs i"
  by (simp add: refs_def)

lemma refs_zero: "refs vs i = 0 \<longleftrightarrow> (\<forall>v \<in> set vs. v_blob v \<noteq> Some i)"
  by (auto simp: refs_def filter_empty_conv)

lemma blobs_ok_drop:
  assumes ok: "blobs_ok w" and vs: "versions w' = filter (\<lambda>v. \<not> p v) (versions w)"
    and bs: "blobs w' = fold (\<lambda>v. blob_refcount_bump (Some v) None) (filter p (versions w)) (blobs w)"
    and nid: "next_id w' = next_id w"
  shows "blobs_ok w'"
proof -
  have bs': "blobs w' = map (\<lambda>b. b\<lparr>b_ref := b_ref b - refs (filter p (versions w)) (b_id b)\<rparr>) (blobs w)"
    unfolding bs fold_bumps refs_sum by (simp add: bump_of_def sum_list_subtractf [of "\<lambda>_. 0", simplified])
  have "b_ref b - refs (filter p (versions w)) (b_id b) = refs (filter (\<lambda>v. \<not> p v) (versions w)) (b_id b)"
    if "b \<in> set (blobs w)" for b
    using ok that refs_split [of "versions w" "b_id b" p] by (simp add: blobs_ok_def)
  then have "\<forall>b \<in> set (blobs w'). b_id b < next_id w' \<and> b_ref b = refs (versions w') (b_id b)"
    using ok by (auto simp: bs' vs nid blobs_ok_def)
  moreover have ids: "map b_id (blobs w') = map b_id (blobs w)" by (simp add: bs')
  ultimately show ?thesis
    using ok unfolding blobs_ok_def ids by (auto simp: vs)
qed


lemma blobs_ok_modM [keeps_intros]:
  "(\<And>w. blobs (f w) = blobs w \<and> versions (f w) = versions w \<and> next_id (f w) = next_id w) \<Longrightarrow> keeps blobs_ok (modM f)"
  by (auto simp: keeps_def modM_def intro: blobs_ok_frame)

lemma blobs_ok_fresh_id [keeps_intros]: "keeps blobs_ok fresh_id"
  by (auto simp: keeps_def fresh_id_def intro: blobs_ok_frame)

lemma blobs_ok_nodes [keeps_intros]: "keeps blobs_ok (update_nodes q g)" "keeps blobs_ok (insert_node mk)"
  by (rule keepsI, erule update_nodes_run insert_node_run; (erule blobs_ok_frame; simp))+

lemma blobs_ok_deletes [keeps_intros]: "keeps blobs_ok (delete_versions p)" "keeps blobs_ok (delete_nodes q)"
proof -
  have v: "blobs_ok (drop_versions p w)" if "blobs_ok w" for w
    by (rule blobs_ok_drop [OF that, of _ p]) (simp_all add: drop_versions_def Let_def)
  have n: "blobs_ok (drop_nodes q w)" if "blobs_ok w" for w
    by (rule blobs_ok_drop [OF that, of _ "\<lambda>v. v_node v \<in> set (descend (length (nodes w)) (nodes w)
          (map n_id (filter q (nodes w))))"]) (simp_all add: drop_nodes_def Let_def)
  have m: "(\<And>w. blobs_ok w \<Longrightarrow> blobs_ok (f w)) \<Longrightarrow> keeps blobs_ok (modM f)" for f
    by (auto simp: keeps_def modM_def)
  show "keeps blobs_ok (delete_versions p)" "keeps blobs_ok (delete_nodes q)"
    unfolding delete_versions_def delete_nodes_def
    by (intro m v n keeps_intros blobs_ok_fault_free; assumption?)+
qed

lemma blobs_ok_insert_blob [keeps_intros]: "keeps blobs_ok (insert_blob key sz sha)"
proof (rule keepsI)
  fix w r w' assume ok: "blobs_ok w" and run: "insert_blob key sz sha w = (r, w')"
  from run consider bs where "w' = w\<lparr>faults := bs\<rparr> \<or> w' = w\<lparr>faults := bs, next_id := Suc (next_id w)\<rparr>"
    | bs row where "w' = w\<lparr>faults := bs, next_id := Suc (next_id w), blobs := blobs w @ [row]\<rparr>"
        "b_id row = next_id w" "b_ref row = 0"
    unfolding insert_blob_def Let_def
    by (elim thenM_cases bindM_cases dbM_run)
       (auto simp: run_iffs run_eval fresh_id_def split: if_splits)
  then show "blobs_ok w'"
  proof cases
    case 1
    with ok show ?thesis by (auto intro: blobs_ok_frame)
  next
    case 2
    have "v_blob v \<noteq> Some (next_id w)" if "v \<in> set (versions w)" for v
      using ok that by (fastforce simp: blobs_ok_def)
    with 2 ok show ?thesis
      by (auto simp: blobs_ok_def refs_zero less_Suc_eq)
  qed
qed

lemma blobs_ok_insert_version [keeps_intros]: "keeps blobs_ok (insert_version nd bid mid sz mime by_user)"
proof (rule keepsI)
  fix w r w' assume ok: "blobs_ok w" and run: "insert_version nd bid mid sz mime by_user w = (r, w')"
  from run consider bs where "w' = w\<lparr>faults := bs\<rparr> \<or> w' = w\<lparr>faults := bs, next_id := Suc (next_id w)\<rparr>"
    | bs row where "w' = w\<lparr>faults := bs, next_id := Suc (next_id w), versions := versions w @ [row],
          blobs := blob_refcount_bump None (Some row) (blobs w)\<rparr>"
        "version_fks (w\<lparr>faults := bs, next_id := Suc (next_id w)\<rparr>) row"
    unfolding insert_version_def Let_def
    by (elim thenM_cases bindM_cases dbM_run) (auto simp: run_iffs run_eval fresh_id_def split: if_splits)
  then show "blobs_ok w'"
  proof cases
    case 1
    with ok show ?thesis by (auto intro: blobs_ok_frame)
  next
    case 2
    have ids: "map b_id (blobs w') = map b_id (blobs w)" by (simp add: 2(1) blob_refcount_bump_map)
    have fk: "\<forall>i. v_blob row = Some i \<longrightarrow> i \<in> set (map b_id (blobs w))"
      using 2(2) by (auto simp: version_fks_def split: option.splits)
    have "\<forall>b \<in> set (blobs w'). b_id b < next_id w' \<and> b_ref b = refs (versions w') (b_id b)"
      using ok by (auto simp: 2(1) blob_refcount_bump_map blobs_ok_def bump_of_def refs_def less_Suc_eq)
    then show ?thesis using ok fk unfolding blobs_ok_def ids by (auto simp: 2(1))
  qed
qed

lemma statement_run:
  assumes "thenM dbM (bindM (getM (\<lambda>w. w)) f) w = (r, w')"
  obtains bs where "w' = w\<lparr>faults := bs\<rparr>" | bs where "f (w\<lparr>faults := bs\<rparr>) (w\<lparr>faults := bs\<rparr>) = (r, w')"
  using assms by (elim thenM_cases dbM_run) (auto simp: bindM_getM)

lemma blobs_ok_SwitchToManifest [keeps_intros]: "keeps blobs_ok (SwitchToManifest vid blb mnf)"
proof (rule keepsI)
  fix w r w' assume ok: "blobs_ok w" and run: "SwitchToManifest vid blb mnf w = (r, w')"
  let ?hit = "\<lambda>v. v_id v = vid \<and> v_blob v = Some blb \<and> v_manifest v = None"
  let ?f = "\<lambda>v. v\<lparr>v_blob := None, v_manifest := Some mnf\<rparr>"
  from run consider bs where "w' = w\<lparr>faults := bs\<rparr>"
    | bs where "w' = w\<lparr>faults := bs, versions := map (\<lambda>v. if ?hit v then ?f v else v) (versions w),
        blobs := fold (\<lambda>v. blob_refcount_bump (Some v) (Some (?f v))) (filter ?hit (versions w)) (blobs w)\<rparr>"
    unfolding SwitchToManifest_def Let_def
    by (rule statement_run) (simp_all add: run_iffs thenM_modM that split: if_splits)
  then show "blobs_ok w'"
  proof cases
    case 1
    with ok show ?thesis by (auto intro: blobs_ok_frame)
  next
    case 2
    have refs: "refs (map (\<lambda>v. if ?hit v then ?f v else v) vs) i = refs vs i - refs (filter ?hit vs) i" for vs i
      unfolding refs_sum by (induction vs) (auto simp: bump_of_def)
    have bs: "blobs w' = map (\<lambda>b. b\<lparr>b_ref := b_ref b - refs (filter ?hit (versions w)) (b_id b)\<rparr>) (blobs w)"
      unfolding 2 fold_bumps refs_sum by (simp add: bump_of_def sum_list_subtractf [of "\<lambda>_. 0", simplified])
    have ids: "map b_id (blobs w') = map b_id (blobs w)" by (simp add: bs)
    have vs: "versions w' = map (\<lambda>v. if ?hit v then ?f v else v) (versions w)" "next_id w' = next_id w"
      by (simp_all add: 2)
    have "\<forall>b \<in> set (blobs w'). b_id b < next_id w' \<and> b_ref b = refs (versions w') (b_id b)"
      using ok by (simp add: bs vs refs blobs_ok_def)
    moreover have "v_blob v = Some k \<Longrightarrow> \<exists>u \<in> set (versions w). v_blob u = Some k" if "v \<in> set (versions w')" for v k
      using that by (auto simp: vs split: if_splits)
    ultimately show ?thesis using ok unfolding blobs_ok_def ids by blast
  qed
qed

lemma blobs_ok_DeleteBlobRow [keeps_intros]: "keeps blobs_ok (DeleteBlobRow i)"
proof (rule keepsI)
  fix w r w' assume ok: "blobs_ok w" and run: "DeleteBlobRow i w = (r, w')"
  from run consider bs where "w' = w\<lparr>faults := bs\<rparr>"
    | bs where "w' = w\<lparr>faults := bs, blobs := filter (\<lambda>b. \<not> (b_id b = i \<and> b_ref b = 0)) (blobs w)\<rparr>"
        "\<forall>v \<in> set (versions w). v_blob v \<noteq> Some i"
    unfolding DeleteBlobRow_def Let_def
    by (rule statement_run) (simp_all add: run_iffs thenM_modM list_ex_iff that split: if_splits)
  then show "blobs_ok w'"
  proof cases
    case 1
    with ok show ?thesis by (auto intro: blobs_ok_frame)
  next
    case 2
    have "distinct (map b_id (blobs w'))" using ok 2(1) by (simp add: blobs_ok_def distinct_map_filter)
    moreover have "\<forall>b \<in> set (blobs w'). b_id b < next_id w' \<and> b_ref b = refs (versions w') (b_id b)"
      using ok 2(1) by (simp add: blobs_ok_def)
    moreover have "k \<in> set (map b_id (blobs w'))" if "v \<in> set (versions w)" "v_blob v = Some k" for v k
    proof -
      from ok that obtain b where "b \<in> set (blobs w)" "b_id b = k" by (fastforce simp: blobs_ok_def)
      moreover from that 2(2) have "k \<noteq> i" by auto
      ultimately show ?thesis by (auto simp: 2(1))
    qed
    moreover have "versions w' = versions w" by (simp add: 2(1))
    ultimately show ?thesis unfolding blobs_ok_def by simp
  qed
qed

lemma blobs_ok_rollback: "blobs_ok w \<Longrightarrow> next_id w \<le> next_id w' \<Longrightarrow> blobs_ok (rollback w w')"
  by (rule blobs_ok_frame) simp_all

lemma blobs_ok_withTx [keeps_intros]:
  assumes c: "keeps blobs_ok c" and mono: "\<And>k. keeps (drew k) c"
  shows "keeps blobs_ok (withTx c)"
proof (rule keepsI)
  fix w r w' assume ok: "blobs_ok w" and run: "withTx c w = (r, w')"
  have ok': "blobs_ok (w\<lparr>faults := bs\<rparr>)" for bs using ok by (auto intro: blobs_ok_frame)
  have undone: "blobs_ok (rollback w w1)" if "c (w\<lparr>faults := bs\<rparr>) = (q, w1)" for bs q w1
    using keepsD [OF mono [of "next_id w"] _ that] ok by (auto simp: drew_def intro: blobs_ok_rollback)
  from run show "blobs_ok w'"
  proof (cases rule: withTx_cases)
    case (3 bs q w1 bs')
    have "rollback w (w1\<lparr>faults := bs'\<rparr>) = (rollback w w1)\<lparr>faults := bs'\<rparr>" by (simp add: rollback_def)
    with undone [OF 3(1)] 3 show ?thesis by (auto intro: blobs_ok_frame)
  next
    case (4 bs q w1 bs')
    with keepsD [OF c ok' 4(1)] show ?thesis by (auto intro: blobs_ok_frame)
  qed (use ok' undone in auto)
qed

lemma blobs_ok_queries [keeps_intros]:
  "keeps blobs_ok (query_node p)" "keeps blobs_ok (checkQuota own k)" "keeps blobs_ok (live_folder_path own i)"
  "keeps blobs_ok (check_name y nm)" "keeps blobs_ok (store_Get own i)" "keeps blobs_ok (GetLive own i)"
  unfolding query_node_def checkQuota_def quota_of_def live_folder_path_def check_name_def store_Get_def GetLive_def
  by (intro keeps_intros blobs_ok_fault_free)+

lemma blobs_ok_operations:
  "keeps blobs_ok (EnsureRoot own)" "keeps blobs_ok (CreateFolder x own i nm)"
  "keeps blobs_ok (PutFile x inp)" "keeps blobs_ok (MoveOrRename x own i np nm)"
  "keeps blobs_ok (Trash own i)" "keeps blobs_ok (Restore own i)" "keeps blobs_ok (Purge own i)"
  "keeps blobs_ok (EmptyTrash own)" "keeps blobs_ok (AutoPurgeTrash d)"
  "keeps blobs_ok (RestoreVersion own i vid)" "keeps blobs_ok (PruneVersions n d lim)"
  unfolding EnsureRoot_def CreateFolder_def PutFile_def MoveOrRename_def Trash_def Restore_def Purge_def
    EmptyTrash_def AutoPurgeTrash_def RestoreVersion_def PruneVersions_def
    file_slot_def rewrite_descendants_def store_root_def Let_def
  by (intro keeps_intros blobs_ok_fault_free drew_fault_free)+

end
