(* ===== verification/Versions.thy ===== *)
theory Versions
  imports BlobRefs
begin

text \<open>
  Version pruning: the rank the query's window function gives a version, and what a pruning pass,
  however it ends, leaves of a file's history.
\<close>

section \<open>Pruning versions\<close>

text \<open>Ranks in a finite set ordered by \<open>le\<close>: exactly \<open>k\<close> elements have rank at most \<open>k\<close>.\<close>

lemma rank_inj:
  assumes fin: "finite A" and tot: "\<And>a b. a \<in> A \<Longrightarrow> b \<in> A \<Longrightarrow> le a b \<or> le b a"
    and trans: "\<And>a b c. le a b \<Longrightarrow> le b c \<Longrightarrow> le a c" and anti: "\<And>a b. a \<in> A \<Longrightarrow> b \<in> A \<Longrightarrow> le a b \<Longrightarrow> le b a \<Longrightarrow> a = b"
    and refl: "\<And>a. a \<in> A \<Longrightarrow> le a a"
  shows "inj_on (\<lambda>v. card {u \<in> A. le u v}) A"
proof (rule inj_onI, rule ccontr)
  have less: "card {u \<in> A. le u a} < card {u \<in> A. le u b}" if "a \<in> A" "b \<in> A" "le a b" "a \<noteq> b" for a b
    using that fin anti refl trans by (intro psubset_card_mono) (auto, blast+)
  fix a b assume "a \<in> A" "b \<in> A" "card {u \<in> A. le u a} = card {u \<in> A. le u b}" "a \<noteq> b"
  with tot [of a b] less [of a b] less [of b a] show False by auto
qed

lemma top_ranks:
  assumes fin: "finite A" and tot: "\<And>a b. a \<in> A \<Longrightarrow> b \<in> A \<Longrightarrow> le a b \<or> le b a"
    and trans: "\<And>a b c. le a b \<Longrightarrow> le b c \<Longrightarrow> le a c" and anti: "\<And>a b. a \<in> A \<Longrightarrow> b \<in> A \<Longrightarrow> le a b \<Longrightarrow> le b a \<Longrightarrow> a = b"
    and refl: "\<And>a. a \<in> A \<Longrightarrow> le a a" and k: "k \<le> card A"
  shows "card {v \<in> A. card {u \<in> A. le u v} \<le> k} = k"
proof -
  let ?r = "\<lambda>v. card {u \<in> A. le u v}"
  have inj: "inj_on ?r A" by (rule rank_inj [OF fin tot trans anti refl])
  have sub: "?r ` A \<subseteq> {1..card A}"
  proof
    fix n assume "n \<in> ?r ` A"
    then obtain v where v: "v \<in> A" "n = ?r v" by auto
    have "0 < ?r v" using v fin refl by (auto simp: card_gt_0_iff)
    moreover have "?r v \<le> card A" using fin by (auto intro: card_mono)
    ultimately show "n \<in> {1..card A}" using v by auto
  qed
  have "card (?r ` A) = card {1..card A}" using inj by (simp add: card_image)
  with sub have img: "?r ` A = {1..card A}" by (metis card_subset_eq finite_atLeastAtMost)
  have "card {v \<in> A. ?r v \<le> k} = card (?r ` {v \<in> A. ?r v \<le> k})"
    using inj by (intro card_image [symmetric]) (auto intro: inj_on_subset)
  also have "?r ` {v \<in> A. ?r v \<le> k} = {1..k}"
  proof -
    have "?r ` {v \<in> A. ?r v \<le> k} = {n \<in> ?r ` A. n \<le> k}" by auto
    also have "\<dots> = {1..k}" using k by (auto simp: img)
    finally show ?thesis .
  qed
  finally show ?thesis by simp
qed

lemma version_newer_order:
  "version_newer u v \<or> version_newer v u" "version_newer u v \<Longrightarrow> version_newer v z \<Longrightarrow> version_newer u z"
  "version_newer u u" "version_newer u v \<Longrightarrow> version_newer v u \<Longrightarrow> v_id u = v_id v"
  by (auto simp: version_newer_def)

lemma version_rank_card:
  "distinct vs \<Longrightarrow> version_rank vs v = card {u \<in> {u \<in> set vs. v_node u = v_node v}. version_newer u v}"
  by (simp add: version_rank_def distinct_length_filter Int_def conj_ac)

lemma delete_versions_run:
  assumes "delete_versions p w = (r, w')"
  shows "versions w' = versions w \<or> versions w' = filter (\<lambda>v. \<not> p v) (versions w)"
  using assms unfolding delete_versions_def
  by (rule statement_run) (auto simp: run_iffs thenM_modM drop_versions_def Let_def split: if_splits)

lemma prune_run:
  assumes d: "distinct (map v_id (versions w))" and run: "PruneVersions keepN keep limit w = (r, w')"
  shows "set (versions w') \<subseteq> set (versions w)"
    and "u \<in> set (versions w) \<Longrightarrow> u \<notin> set (versions w') \<Longrightarrow> prunable keepN keep w u"
proof -
  let ?ids = "map v_id (take limit (sort_key v_created (filter (prunable keepN keep w) (versions w))))"
  have "delete_versions (\<lambda>v. v_id v \<in> set ?ids) w = (r, w')"
    using run by (simp add: PruneVersions_def bindM_getM)
  note vs = delete_versions_run [OF this]
  then show "set (versions w') \<subseteq> set (versions w)" by auto
  assume u: "u \<in> set (versions w)" "u \<notin> set (versions w')"
  with vs have "v_id u \<in> set ?ids" by auto
  then obtain k where k: "k \<in> set (versions w)" "prunable keepN keep w k" "v_id k = v_id u"
    using take_sort_subset [of limit v_created "prunable keepN keep w" "versions w"] by auto
  with d u(1) have "k = u" by (metis distinct_map inj_onD)
  with k show "prunable keepN keep w u" by simp
qed

end
