(* ===== verification/TreeSpec.thy ===== *)
theory TreeSpec
  imports Versions Demo
begin

text \<open>
  The file tree as a whole: sequences of its calls from a fresh server, under any schedule of
  failures, and the properties that hold after them; and the runs in which renames, uploads and
  version restores do what they should not.
\<close>

section \<open>Runs of the tree\<close>

datatype tree_cmd =
    DoEnsureRoot nat
  | DoCreateFolder nat nat string
  | DoPutFile put_file_input
  | DoMoveOrRename nat nat "nat option" string
  | DoTrash nat nat
  | DoRestore nat nat
  | DoPurge nat nat
  | DoEmptyTrash nat
  | DoAutoPurgeTrash int
  | DoRestoreVersion nat nat nat
  | DoPruneVersions nat int nat
  | DoSwitchToManifest nat nat nat
  | DoDeleteBlobRow nat
  | DoTick nat

text \<open>
  One call, whatever it returns.  The schedule of failures is part of the world a run starts from.
\<close>

fun tree_call :: "ext \<Rightarrow> tree_cmd \<Rightarrow> world \<Rightarrow> world" where
  "tree_call x (DoEnsureRoot own) w = snd (EnsureRoot own w)"
| "tree_call x (DoCreateFolder own p nm) w = snd (CreateFolder x own p nm w)"
| "tree_call x (DoPutFile inp) w = snd (PutFile x inp w)"
| "tree_call x (DoMoveOrRename own i np nm) w = snd (MoveOrRename x own i np nm w)"
| "tree_call x (DoTrash own i) w = snd (Trash own i w)"
| "tree_call x (DoRestore own i) w = snd (Restore own i w)"
| "tree_call x (DoPurge own i) w = snd (Purge own i w)"
| "tree_call x (DoEmptyTrash own) w = snd (EmptyTrash own w)"
| "tree_call x (DoAutoPurgeTrash d) w = snd (AutoPurgeTrash d w)"
| "tree_call x (DoRestoreVersion own i v) w = snd (RestoreVersion own i v w)"
| "tree_call x (DoPruneVersions n d lim) w = snd (PruneVersions n d lim w)"
| "tree_call x (DoSwitchToManifest v b m) w = snd (SwitchToManifest v b m w)"
| "tree_call x (DoDeleteBlobRow i) w = snd (DeleteBlobRow i w)"
| "tree_call x (DoTick d) w = w\<lparr>now := now w + int d\<rparr>"

fun tree_run :: "ext \<Rightarrow> tree_cmd list \<Rightarrow> world \<Rightarrow> world" where
  "tree_run x [] w = w"
| "tree_run x (c # cs) w = tree_run x cs (tree_call x c w)"

text \<open>A server with accounts and no files yet.\<close>

definition fresh_server :: "user_row list \<Rightarrow> bool list \<Rightarrow> world" where
  "fresh_server us fs = empty_world\<lparr>users := us, faults := fs\<rparr>"

text \<open>Every move in a run meets the two conditions of \<open>plain_move\<close>.\<close>

fun plain_run :: "ext \<Rightarrow> tree_cmd list \<Rightarrow> world \<Rightarrow> bool" where
  "plain_run x [] w = True"
| "plain_run x (c # cs) w =
     ((case c of DoMoveOrRename own i np nm \<Rightarrow> plain_move own i w | _ \<Rightarrow> True)
      \<and> plain_run x cs (tree_call x c w))"

lemma keeps_snd: "keeps I c \<Longrightarrow> I w \<Longrightarrow> I (snd (c w))"
  by (simp add: keeps_def)

lemma tree_call_shape:
  assumes "tree_ok x w" "case c of DoMoveOrRename own i np nm \<Rightarrow> plain_move own i w | _ \<Rightarrow> True"
  shows "tree_ok x (tree_call x c w)"
proof (cases c)
  case (DoCreateFolder own p nm)
  with tree_CreateFolder [OF surjective_pairing assms(1)] show ?thesis by simp
next
  case (DoMoveOrRename own i np nm)
  with tree_MoveOrRename [OF surjective_pairing assms(1)] assms(2) show ?thesis by simp
next
  case (DoTick d)
  with assms(1) show ?thesis by (simp add: tree_ok_def)
qed (use assms(1) in \<open>simp_all add: keeps_snd tree_EnsureRoot tree_PutFile tree_Trash tree_Restore
       tree_deletes tree_RestoreVersion tree_other_tables\<close>)

lemma tree_run_shape: "tree_ok x w \<Longrightarrow> plain_run x cs w \<Longrightarrow> tree_ok x (tree_run x cs w)"
  by (induction cs arbitrary: w) (auto intro: tree_call_shape)

lemma fresh_server_ok: "tree_ok x (fresh_server us fs)" "blobs_ok (fresh_server us fs)"
  by (simp_all add: tree_ok_def fresh_server_def empty_world_def tree_inv_def nodes_unique_def blobs_ok_def)

lemma tree_call_journaled: "journaled w (tree_call x c w)"
proof (cases c)
  case (DoTick d)
  then show ?thesis by (auto intro: journaled_frame)
qed (simp_all add: keeps_snd journaled_operations journaled_frame)

lemma tree_run_journaled: "journaled w (tree_run x cs w)"
proof (induction cs arbitrary: w)
  case Nil
  show ?case by (auto intro: journaled_frame)
next
  case (Cons c cs)
  show ?case using journaled_trans [OF tree_call_journaled Cons.IH] by simp
qed

lemma tree_run_blobs: "blobs_ok w \<Longrightarrow> blobs_ok (tree_run x cs w)"
proof (induction cs arbitrary: w)
  case (Cons c cs)
  have "blobs_ok (tree_call x c w)"
  proof (cases c)
    case (DoTick d)
    with Cons.prems show ?thesis by (auto intro: blobs_ok_frame)
  qed (simp_all add: keeps_snd Cons.prems blobs_ok_operations blobs_ok_SwitchToManifest blobs_ok_DeleteBlobRow)
  with Cons.IH show ?case by simp
qed simp


section \<open>Concrete runs\<close>

text \<open>What the simplifier needs to run the operations of the tree on a concrete world.\<close>

lemmas tree_eval = run_eval db_eval EnsureRoot_def store_root_def query_node_def insert_node_def
  update_nodes_def fresh_id_def CreateFolder_def GetLive_def store_Get_def check_name_def
  MoveOrRename_def live_folder_path_def rewrite_descendants_def withTx_def Trash_def Restore_def
  node_errors_def nodes_unique_def nodes_name_check_def nodes_kind_head_check_def node_fks_def
  live_def errors_Is.simps ErrNotFound_def IsFolder_def IsRoot_def IsTrashed_def Let_def
  journal_node_change_def journal_append_def update_rows_def rollback_def

abbreviation e_acute :: string where
  "e_acute \<equiv> [CHR 0xC3, CHR 0xA9]"

definition alice :: user_row where
  "alice = \<lparr>u_id = 7, u_name = ''alice'', u_quota = None\<rparr>"

lemma e_acute_names: "ValidateName demo_ext e_acute = None" "Fold demo_ext e_acute = e_acute"
  "ValidateName demo_ext ''e'' = None" "Fold demo_ext ''e'' = ''e''" "ValidateName demo_ext ''x'' = None"
  "Fold demo_ext ''x'' = ''x''" "JoinPath ''/'' nm = CHR ''/'' # nm"
  "JoinPath (CHR ''/'' # e_acute) nm = CHR ''/'' # e_acute @ CHR ''/'' # nm"
  "pg_substring_from [CHR ''/'', CHR 0xC3, CHR 0xA9, CHR ''/'', CHR ''x''] 4 = ''x''"
  by (code_simp | simp add: JoinPath_def)+

lemmas eval_set = e_acute_names like_below fresh_server_def empty_world_def alice_def tree_eval

section \<open>The tree keeps its shape\<close>



section \<open>The journal\<close>




text \<open>The numbers an owner's journal carries ascend.\<close>

definition journal_sorted :: "world \<Rightarrow> bool" where
  "journal_sorted w \<longleftrightarrow> (\<forall>ow. sorted_wrt (<) (map chg_seq (filter (\<lambda>c. chg_owner c = ow) (changes w))) \<and>
     (\<forall>c \<in> set (changes w). chg_seq c \<le> latest w (chg_owner c)))"

lemma journal_sorted_step:
  assumes "journal_sorted w" "journaled w w'"
  shows "journal_sorted w'"
proof -
  obtain cs where a: "appended w w' cs" using assms(2) by (auto simp: journaled_def)
  have old: "chg_seq c \<le> latest w (chg_owner c)" if "c \<in> set (changes w)" for c
    using assms(1) that by (simp add: journal_sorted_def)
  have up: "latest w ow \<le> latest w' ow" for ow using a by (simp add: appended_def)
  have new: "latest w (chg_owner c) < chg_seq c \<and> chg_seq c \<le> latest w' (chg_owner c)" if "c \<in> set cs" for c
    using a that by (simp add: appended_def)
  have "sorted_wrt (<) (map chg_seq (filter (\<lambda>c. chg_owner c = ow) (changes w @ cs)))" for ow
    using assms(1) a old new by (fastforce simp: journal_sorted_def appended_def sorted_wrt_append)
  moreover have "chg_seq c \<le> latest w' (chg_owner c)" if "c \<in> set (changes w @ cs)" for c
    using that old [of c] new [of c] up [of "chg_owner c"] by auto
  ultimately show ?thesis using a by (simp add: journal_sorted_def appended_def)
qed

text \<open>A client that pages through the journal: \<open>k\<close> requests of \<open>limit\<close> rows, each from the last number seen.\<close>

fun page_through :: "nat \<Rightarrow> nat \<Rightarrow> int \<Rightarrow> nat \<Rightarrow> (world, change_row list) m" where
  "page_through own limit since 0 = ret []"
| "page_through own limit since (Suc k) =
     bindM (ChangesSince own since limit) (\<lambda>rows.
     if length rows < limit then ret rows
     else bindM (page_through own limit (chg_seq (last rows)) k) (\<lambda>more. ret (rows @ more)))"

definition after_seq :: "nat \<Rightarrow> int \<Rightarrow> world \<Rightarrow> change_row list" where
  "after_seq own s w = filter (\<lambda>c. chg_owner c = own \<and> chg_seq c > s) (changes w)"

lemma after_seq_sorted: "journal_sorted w \<Longrightarrow> sorted_wrt (<) (map chg_seq (after_seq own s w))"
proof -
  assume "journal_sorted w"
  then have "sorted_wrt (<) (map chg_seq (filter (\<lambda>c. chg_owner c = own) (changes w)))"
    by (simp add: journal_sorted_def)
  then have "sorted_wrt (<) (map chg_seq (filter (\<lambda>c. chg_seq c > s) (filter (\<lambda>c. chg_owner c = own) (changes w))))"
    by (simp add: sorted_wrt_map sorted_wrt_filter del: filter_filter)
  then show ?thesis by (simp add: after_seq_def conj_commute)
qed

lemma sort_key_sorted: "sorted_wrt (<) (map k xs) \<Longrightarrow> sort_key (k :: 'a \<Rightarrow> int) xs = xs"
  by (rule sort_key_id_if_sorted) (metis strict_sorted_imp_sorted)

lemma filter_sorted_suffix:
  assumes "sorted_wrt (<) (map k xs)" "xs = ys @ zs" "ys \<noteq> []"
  shows "filter (\<lambda>c. (k :: 'a \<Rightarrow> int) c > k (last ys)) xs = zs"
proof -
  obtain us l where ys: "ys = us @ [l]" using assms(3) by (cases ys rule: rev_cases) auto
  have "filter (\<lambda>c. k c > k l) us = []" "filter (\<lambda>c. k c > k l) zs = zs"
    using assms(1,2) ys by (fastforce simp: filter_empty_conv filter_id_conv sorted_wrt_append)+
  then show ?thesis using assms(2) ys by simp
qed

lemma page_through_all:
  assumes w: "journal_sorted w" "faults w = []" and limit: "0 < limit"
  shows "length (after_seq own s w) < k \<Longrightarrow> page_through own limit s k w = (Inr (after_seq own s w), w)"
proof (induction k arbitrary: s)
  case (Suc k)
  note srt = after_seq_sorted [OF w(1), of own s]
  have page: "ChangesSince own s limit w = (Inr (take limit (after_seq own s w)), w)"
    using w(2) sort_key_sorted [OF srt] by (simp add: ChangesSince_def after_seq_def db_eval)
  show ?case
  proof (cases "length (after_seq own s w) < limit")
    case True
    then show ?thesis by (simp add: page bindM_Inr ret_def)
  next
    case False
    let ?pg = "take limit (after_seq own s w)"
    have ne: "?pg \<noteq> []" using False limit by auto
    have "after_seq own (chg_seq (last ?pg)) w = filter (\<lambda>c. chg_seq c > chg_seq (last ?pg)) (after_seq own s w)"
    proof -
      have "last ?pg \<in> set (after_seq own s w)" using ne by (meson in_set_takeD last_in_set)
      then have "s < chg_seq (last ?pg)" by (simp add: after_seq_def)
      then show ?thesis by (auto simp: after_seq_def intro!: filter_cong)
    qed
    also have "\<dots> = drop limit (after_seq own s w)"
      by (rule filter_sorted_suffix [OF srt _ ne]) simp
    finally have rest: "after_seq own (chg_seq (last ?pg)) w = drop limit (after_seq own s w)" .
    then have "length (after_seq own (chg_seq (last ?pg)) w) < k" using Suc.prems False limit by simp
    from Suc.IH [OF this] rest False show ?thesis
      by (simp add: page bindM_Inr ret_def)
  qed
qed simp

text \<open>A client that keeps asking for pages of any positive size from where the last page ended
  gets, after finitely many requests, exactly its journal after the number it started from: every
  row once, in ascending order, whatever the calls that wrote it were.\<close>

theorem paging_is_complete:
  assumes "w = tree_run x cs (fresh_server us fs)" and "faults w = []" and "0 < limit"
  shows "(\<exists>k. page_through own limit s k w = (Inr (filter (\<lambda>c. chg_owner c = own \<and> chg_seq c > s) (changes w)), w)) \<and>
    sorted_wrt (<) (map chg_seq (filter (\<lambda>c. chg_owner c = own \<and> chg_seq c > s) (changes w)))"
proof -
  have "journal_sorted (fresh_server us fs)" by (simp add: journal_sorted_def fresh_server_def empty_world_def)
  then have j: "journal_sorted w" unfolding assms(1) by (rule journal_sorted_step) (rule tree_run_journaled)
  from page_through_all [OF j assms(2,3), of own s "Suc (length (after_seq own s w))"] after_seq_sorted [OF j, of own s]
  show ?thesis unfolding after_seq_def by blast
qed

theorem paging_is_complete_witness:
  "\<exists>k. page_through 7 1 0 k (tree_run demo_ext [DoEnsureRoot 7, DoCreateFolder 7 0 ''e''] (fresh_server [alice] []))
     = (Inr (filter (\<lambda>c. chg_owner c = 7 \<and> chg_seq c > 0) (changes (tree_run demo_ext
          [DoEnsureRoot 7, DoCreateFolder 7 0 ''e''] (fresh_server [alice] [])))),
        tree_run demo_ext [DoEnsureRoot 7, DoCreateFolder 7 0 ''e''] (fresh_server [alice] []))"
  by (rule paging_is_complete [OF refl, THEN conjunct1])
     (simp_all add: eval_set cong: run_cong del: set_filter list.set_map)

section \<open>Blobs\<close>

text \<open>C11: after any calls from a fresh server, with any failures, every blob's reference count is the
  number of versions that hold it and every version's blob exists; so the blobs \<open>UnreferencedBlobs\<close>
  offers to the collector are held by no version, and neither is one that \<open>DeleteBlobRow\<close> removes.\<close>

theorem blob_refcounts:
  assumes "w = tree_run x cs (fresh_server us fs)"
  shows "(\<forall>b \<in> set (blobs w). b_ref b = int (length (filter (\<lambda>v. v_blob v = Some (b_id b)) (versions w)))) \<and>
    (\<forall>v \<in> set (versions w). \<forall>i. v_blob v = Some i \<longrightarrow> (\<exists>b \<in> set (blobs w). b_id b = i)) \<and>
    (\<forall>grace limit refs w'. UnreferencedBlobs grace limit w = (Inr refs, w') \<longrightarrow>
       (\<forall>r \<in> set refs. \<forall>v \<in> set (versions w'). v_blob v \<noteq> Some (BR_ID r))) \<and>
    (\<forall>i w'. DeleteBlobRow i w = (Inr True, w') \<longrightarrow> (\<forall>v \<in> set (versions w'). v_blob v \<noteq> Some i))"
proof (intro conjI)
  have ok: "blobs_ok w" unfolding assms by (rule tree_run_blobs [OF fresh_server_ok(2)])
  then show counts: "\<forall>b \<in> set (blobs w). b_ref b = int (length (filter (\<lambda>v. v_blob v = Some (b_id b)) (versions w)))"
    by (simp add: blobs_ok_def refs_def)
  show "\<forall>v \<in> set (versions w). \<forall>i. v_blob v = Some i \<longrightarrow> (\<exists>b \<in> set (blobs w). b_id b = i)"
    using ok by (fastforce simp: blobs_ok_def)
  have free: False if "b \<in> set (blobs w)" "b_ref b = 0" "v \<in> set (versions w)" "v_blob v = Some (b_id b)" for b v
    using counts that by (auto simp: filter_empty_conv)
  show "\<forall>grace limit refs w'. UnreferencedBlobs grace limit w = (Inr refs, w') \<longrightarrow>
       (\<forall>r \<in> set refs. \<forall>v \<in> set (versions w'). v_blob v \<noteq> Some (BR_ID r))"
    unfolding UnreferencedBlobs_def
    by (auto elim!: selectM_run dest!: in_set_takeD) (erule (3) free)
  show "\<forall>i w'. DeleteBlobRow i w = (Inr True, w') \<longrightarrow> (\<forall>v \<in> set (versions w'). v_blob v \<noteq> Some i)"
    unfolding DeleteBlobRow_def Let_def
    by (auto simp: run_iffs thenM_modM list_ex_iff elim!: thenM_cases bindM_cases dbM_run split: if_splits)
qed

definition demo_put :: put_file_input where
  "demo_put = \<lparr>pf_OwnerID = 7, pf_ParentID = 0, pf_Name = ''e'', pf_BlobKey = ''k'', pf_SHA256 = ''h'',
     pf_ManifestID = None, pf_Size = 4, pf_MIME = []\<rparr>"

theorem blob_refcounts_witness:
  "let w = tree_run demo_ext [DoEnsureRoot 7, DoPutFile demo_put] (fresh_server [alice] [])
   in \<exists>b \<in> set (blobs w). b_key b = ''k'' \<and> b_ref b = int (length (filter (\<lambda>v. v_blob v = Some (b_id b)) (versions w)))"
proof -
  let ?w = "tree_run demo_ext [DoEnsureRoot 7, DoPutFile demo_put] (fresh_server [alice] [])"
  have "\<exists>b \<in> set (blobs ?w). b_key b = ''k''"
    by (simp add: PutFile_def demo_put_def checkQuota_def quota_of_def insert_blob_def file_slot_def
        insert_version_def version_check_def version_fks_def blob_refcount_bump_def blob_bump_def blob_check_def
        eval_set cong: run_cong del: set_filter list.set_map)
  with blob_refcounts [OF refl, of demo_ext "[DoEnsureRoot 7, DoPutFile demo_put]" "[alice]" "[]", THEN conjunct1]
  show ?thesis unfolding Let_def by blast
qed

section \<open>Renames and moves\<close>

text \<open>The pattern \<open>likePrefix(p) + "/%"\<close> of the subtree queries matches exactly the paths strictly
  below \<open>p\<close>, whatever wildcards and escapes the names in \<open>p\<close> contain.\<close>

theorem subtree_pattern: "like (likePrefix p @ ''/%'') s \<longleftrightarrow> prefix (p @ ''/'') s"
  by (rule like_below)



text \<open>Renaming a folder whose name is not ASCII leaves what is below it at a path that its folder's
  path is no prefix of: the path of \<open>x\<close> in a folder named by one accented letter becomes \<open>/ex\<close> when its folder becomes \<open>/e\<close>, and the file can no
  longer be found by path.\<close>

theorem rename_corrupts_non_ascii:
  "let w = tree_run demo_ext [DoEnsureRoot 7, DoCreateFolder 7 0 e_acute, DoCreateFolder 7 1 ''x'',
       DoMoveOrRename 7 1 None ''e''] (fresh_server [alice] [])
   in map (\<lambda>n. (n_parent n, n_path n)) (nodes w) = [(None, ''/''), (Some 0, ''/e''), (Some 1, ''/ex'')] \<and>
      fst (GetByPath 7 ''/e/x'' w) = Inl ErrNotFound"
  by (simp add: GetByPath_def eval_set cong: run_cong del: set_filter list.set_map)

lemma a_names: "ValidateName demo_ext ''a'' = None" "Fold demo_ext ''a'' = ''a''" "ValidateName demo_ext ''b'' = None"
  "Fold demo_ext ''b'' = ''b''" "JoinPath ''/a'' nm = CHR ''/'' # CHR ''a'' # CHR ''/'' # nm"
  "pg_substring_from ''/a/x'' 3 = ''/x''"
  by (code_simp | simp add: JoinPath_def)+

text \<open>Renaming a folder also rewrites the paths of a folder in the trash that once had its path.
  Restored, that folder is back at its old path while what is in it claims to be in the other one.\<close>

theorem rename_reaches_into_trash:
  "let w = tree_run demo_ext [DoEnsureRoot 7, DoCreateFolder 7 0 ''a'', DoCreateFolder 7 1 ''x'', DoTrash 7 1,
       DoCreateFolder 7 0 ''a'', DoMoveOrRename 7 3 None ''b'', DoRestore 7 1] (fresh_server [alice] [])
   in map (\<lambda>n. (n_parent n, n_path n, n_trashed n)) (nodes w) =
        [(None, ''/'', None), (Some 0, ''/a'', None), (Some 1, ''/b/x'', None), (Some 0, ''/b'', None)] \<and>
      fst (GetByPath 7 ''/a/x'' w) = Inl ErrNotFound"
  by (simp add: GetByPath_def a_names eval_set cong: run_cong del: set_filter list.set_map)


section \<open>Trash and restore\<close>

lemma no_stray_mark:
  assumes inv: "tree_inv x ns" and i0: "i0 \<in> set ns" "live i0"
  shows "n \<in> set ns \<Longrightarrow> n_troot n \<noteq> Some (n_id i0)"
proof (induction "length (n_path n)" arbitrary: n rule: less_induct)
  case less
  show ?case
  proof
    assume r: "n_troot n = Some (n_id i0)"
    have d: "distinct (map n_id ns)" using inv by (simp add: tree_inv_def)
    have trashed: "\<not> live n" using r node_okD(2) [OF inv less.prems] by (simp add: live_def)
    then obtain p where "n_parent n = Some p" using node_okD(3) [OF inv less.prems] by auto
    from parentE [OF inv less.prems this] obtain m nm where m: "m \<in> set ns"
      "n_path n = base (n_path m) @ CHR ''/'' # nm" "nm \<noteq> []" "n_id i0 = n_id n \<or> n_troot m = Some (n_id i0)"
      using r by metis
    have "n_id i0 \<noteq> n_id n" using same_id [OF d i0(1) less.prems] trashed i0(2) by auto
    with m less.hyps [OF _ m(1)] show False by (auto simp: base_def split: if_splits)
  qed
qed

text \<open>C12: restoring what \<open>Trash\<close> put away, with nothing in between, brings every row of the tree back
  as it was, up to the time of its last update, and none of what was in the trash before.\<close>

theorem trash_then_restore:
  assumes ok: "tree_ok x w" and trash: "Trash own i w = (Inr k, w1)" and restore: "Restore own i w1 = (Inr n', w2)"
  shows "map (\<lambda>n. n\<lparr>n_updated := 0\<rparr>) (nodes w2) = map (\<lambda>n. n\<lparr>n_updated := 0\<rparr>) (nodes w)"
proof -
  have inv: "tree_inv x (nodes w)" using ok by (simp add: tree_ok_def)
  have def: "Trash own i = bindM (GetLive own i) (\<lambda>node. if IsRoot node then raise ErrRootReserved
      else withTx (trash_body own i node))" unfolding Trash_def trash_body_def by (rule refl)
  from trash obtain bs i0 where i0: "i0 \<in> set (nodes w)" "live i0" "n_id i0 = i" "n_owner i0 = own"
      and t: "withTx (trash_body own i (scanNode w i0)) (w\<lparr>faults := bs\<rparr>) = (Inr k, w1)"
    unfolding def GetLive_def
    by (auto elim!: bindM_cases query_node_run simp: run_iffs live_def split: if_splits)
  from t obtain bs' v1 where b: "trash_body own i (scanNode w i0) (w\<lparr>faults := bs'\<rparr>) = (Inr k, v1)" "nodes w1 = nodes v1"
    by (rule withTx_cases) auto
  let ?hit = "\<lambda>n. n = i0 \<or> below i0 n \<and> live n"
  have rows1: "nodes w1 = map (\<lambda>n. if ?hit n then trash_row (now (w\<lparr>faults := bs'\<rparr>)) i n else n) (nodes w)"
    using trash_body_run(1) [OF b(1), of x i0] inv i0 b(2) by simp
  from restore obtain bs2 m u v where m: "withTx (restore_body own i m) (w1\<lparr>faults := bs2\<rparr>) = (Inr u, v)"
      "nodes w2 = nodes v"
    unfolding Restore_eq store_Get_def
    by (auto elim!: bindM_cases thenM_cases query_node_run simp: run_iffs split: if_splits)
  from m(1) obtain bs3 v2 where r: "restore_body own i m (w1\<lparr>faults := bs3\<rparr>) = (Inr u, v2)" "nodes v = nodes v2"
    by (rule withTx_cases) auto
  have rows2: "nodes w2 = map (\<lambda>n. if n_troot n = Some i \<and> n_owner n = own
      then restore_row (now (w1\<lparr>faults := bs3\<rparr>)) n else n) (nodes w1)"
    using m(2) r(2) by (rule_tac restore_body_run [OF r(1)]) simp
  have "(restore_row t (trash_row t' i n))\<lparr>n_updated := 0\<rparr> = n\<lparr>n_updated := 0\<rparr>"
    if n: "n \<in> set (nodes w)" "?hit n" for n t t'
  proof -
    have "n_trashed n = None" "n_troot n = None" using n i0(2) node_okD(2) [OF inv n(1)] by (auto simp: live_def)
    then show ?thesis by (simp add: restore_row_def trash_row_def)
  qed
  moreover have "n_troot n \<noteq> Some i" if "n \<in> set (nodes w)" for n
    using no_stray_mark [OF inv i0(1,2) that] i0(3) by simp
  moreover have "n_owner n = own" if "?hit n" for n using that i0(4) by (auto simp: below_def)
  ultimately show ?thesis by (simp add: rows1 rows2)
qed

theorem trash_then_restore_witness:
  "let w = tree_run demo_ext [DoEnsureRoot 7, DoCreateFolder 7 0 ''a'', DoCreateFolder 7 1 ''x''] (fresh_server [alice] [])
   in \<exists>k w1 n' w2. Trash 7 1 w = (Inr k, w1) \<and> Restore 7 1 w1 = (Inr n', w2) \<and>
        map (\<lambda>n. n\<lparr>n_updated := 0\<rparr>) (nodes w2) = map (\<lambda>n. n\<lparr>n_updated := 0\<rparr>) (nodes w)"
proof -
  let ?w = "tree_run demo_ext [DoEnsureRoot 7, DoCreateFolder 7 0 ''a'', DoCreateFolder 7 1 ''x''] (fresh_server [alice] [])"
  have ok: "tree_ok demo_ext ?w" by (intro tree_run_shape fresh_server_ok) simp
  have "\<exists>k w1 n' w2. Trash 7 1 ?w = (Inr k, w1) \<and> Restore 7 1 w1 = (Inr n', w2)"
    by (simp add: eval_set a_names cong: run_cong del: set_filter list.set_map)
  then obtain k w1 n' w2 where r: "Trash 7 1 ?w = (Inr k, w1)" "Restore 7 1 w1 = (Inr n', w2)" by blast
  from r trash_then_restore [OF ok r] show ?thesis unfolding Let_def by blast
qed

section \<open>Names\<close>

lemma ValidateName_None: "ValidateName x name = None \<Longrightarrow>
    name \<noteq> [] \<and> length name \<le> 255 \<and> name \<noteq> ''.'' \<and> name \<noteq> ''..'' \<and> \<not> ContainsAny name [CHR ''/'', CHR 0x5C]"
  unfolding ValidateName_def maxNameLen_def by (simp only: split: if_splits) simp_all

text \<open>A name \<open>ValidateName\<close> accepts is not empty, has at most 255 bytes and no slash, is not a
  dot name, and is the last element of the path it is joined to; two accepted names give the same
  path only if they are equal.\<close>

theorem accepted_names:
  assumes "ValidateName x name = None" and "ValidateName x other = None"
  shows "name \<noteq> [] \<and> length name \<le> 255 \<and> CHR ''/'' \<notin> set name \<and> CHR 0x5C \<notin> set name \<and>
    name \<noteq> ''.'' \<and> name \<noteq> ''..'' \<and> after_slash (JoinPath p name) = name \<and>
    (JoinPath p name = JoinPath q other \<longrightarrow> name = other \<and> base p = base q)"
proof -
  have ok: "name \<noteq> []" "length name \<le> 255" "CHR ''/'' \<notin> set name" "CHR 0x5C \<notin> set name" "name \<noteq> ''.''" "name \<noteq> ''..''"
    "CHR ''/'' \<notin> set other"
    using assms [THEN ValidateName_None] by (auto simp: ContainsAny_def list_ex_iff)
  then show ?thesis by (simp add: JoinPath_base last_name split_path)
qed

theorem accepted_names_witness: "after_slash (JoinPath ''/a'' e_acute) = e_acute"
  using accepted_names [OF e_acute_names(1) e_acute_names(1)] by blast


section \<open>Files\<close>

definition put_of :: "string \<Rightarrow> string \<Rightarrow> string \<Rightarrow> int \<Rightarrow> put_file_input" where
  "put_of nm key sha sz = \<lparr>pf_OwnerID = 7, pf_ParentID = 0, pf_Name = nm, pf_BlobKey = key, pf_SHA256 = sha,
     pf_ManifestID = None, pf_Size = sz, pf_MIME = ''text/plain''\<rparr>"

lemmas put_eval = PutFile_def put_of_def checkQuota_def quota_of_def insert_blob_def file_slot_def
  insert_version_def version_check_def version_fks_def blob_refcount_bump_def blob_bump_def blob_check_def
  usageBytes_def usage_content_def usage_rows_def version_hash_def by_id_def ur_live_head_def null_rank_def
  scanNode_def ErrQuota_def

lemma ab_names: "ValidateName demo_ext ''B'' = None" "Fold demo_ext ''B'' = ''b''"
  by code_simp+

text \<open>Uploading a file over one whose name differs only in case renames it but leaves its path:
  the name a listing shows is then not found at the path it makes.\<close>

theorem upload_case_detaches_path:
  "let w = tree_run demo_ext [DoEnsureRoot 7, DoPutFile (put_of ''b'' ''k1'' ''h1'' 3), DoPutFile (put_of ''B'' ''k2'' ''h2'' 4)]
       (fresh_server [alice] [])
   in map (\<lambda>n. (n_name n, n_path n)) (nodes w) = [([], ''/''), (''B'', ''/b'')] \<and>
      fst (GetByPath 7 ''/B'' w) = Inl ErrNotFound"
  by (simp add: GetByPath_def a_names ab_names put_eval eval_set cong: run_cong del: set_filter list.set_map)

definition bob :: user_row where
  "bob = \<lparr>u_id = 7, u_name = ''bob'', u_quota = Some 10\<rparr>"

text \<open>A file with two versions, of 8 bytes and then of 1 byte.\<close>

definition two_versions :: "user_row list \<Rightarrow> world" where
  "two_versions us = \<lparr>faults = [], now = 0, next_id = 6, entropy = [], disk = [], users = us,
     nodes = [\<lparr>n_id = 0, n_owner = 7, n_parent = None, n_kind = KindFolder, n_name = [], n_fold = [],
                n_path = ''/'', n_head = None, n_trashed = None, n_troot = None, n_created = 0, n_updated = 0\<rparr>,
              \<lparr>n_id = 2, n_owner = 7, n_parent = Some 0, n_kind = KindFile, n_name = ''b'', n_fold = ''b'',
                n_path = ''/b'', n_head = Some 5, n_trashed = None, n_troot = None, n_created = 0, n_updated = 0\<rparr>],
     versions = [\<lparr>v_id = 3, v_node = 2, v_blob = Some 1, v_manifest = None, v_size = 8,
                   v_mime = ''text/plain'', v_created = 0, v_by = Some 7\<rparr>,
                 \<lparr>v_id = 5, v_node = 2, v_blob = Some 4, v_manifest = None, v_size = 1,
                   v_mime = ''text/plain'', v_created = 0, v_by = Some 7\<rparr>],
     blobs = [\<lparr>b_id = 1, b_key = ''k1'', b_size = 8, b_sha256 = ''h1'', b_ref = 1, b_created = 0, b_tier = ''hot''\<rparr>,
              \<lparr>b_id = 4, b_key = ''k2'', b_size = 1, b_sha256 = ''h2'', b_ref = 1, b_created = 0, b_tier = ''hot''\<rparr>],
     chunks = [], manifests = [], mchunks = [], grants = [], uploads = [], sync_state = [(7, 4)],
     changes = map (\<lambda>(s, i). \<lparr>chg_owner = 7, chg_seq = s, chg_node = i, chg_kind = ''upsert'', chg_at = 0\<rparr>)
       [(1, 0), (2, 2), (3, 2), (4, 2)]\<rparr>"

lemma two_versions_run:
  "tree_run demo_ext [DoEnsureRoot 7, DoPutFile (put_of ''b'' ''k1'' ''h1'' 8), DoPutFile (put_of ''b'' ''k2'' ''h2'' 1)]
     (fresh_server [bob] []) = two_versions [bob]"
  by (simp add: two_versions_def bob_def a_names ab_names put_eval eval_set eval_nat_numeral cong: run_cong
      del: set_filter list.set_map)

lemma two_versions_usage: "usageBytes 7 (two_versions us) = (1, 0, 8)"
  by (simp add: two_versions_def put_eval)

text \<open>Restoring an old version is refused for quota when nothing would be charged: the content of
  every retained version already counts, once, so bringing it back changes no byte of usage (the
  second part runs the same restore with the limit lifted), yet the code charges the difference of
  the two heads' sizes.\<close>

theorem restore_charges_counted_bytes:
  "let w = tree_run demo_ext [DoEnsureRoot 7, DoPutFile (put_of ''b'' ''k1'' ''h1'' 8), DoPutFile (put_of ''b'' ''k2'' ''h2'' 1)]
       (fresh_server [bob] []);
       (r, w') = RestoreVersion 7 2 3 (w\<lparr>users := [bob\<lparr>u_quota := None\<rparr>]\<rparr>)
   in fst (RestoreVersion 7 2 3 w) = Inl ErrQuota \<and> (\<exists>n. r = Inr n \<and> N_Size n = 8) \<and>
      usageBytes 7 w = (1, 0, 8) \<and> usageBytes 7 w' = (8, 0, 1)"
proof -
  let ?u = "two_versions [bob\<lparr>u_quota := None\<rparr>]"
  have users: "(two_versions us)\<lparr>users := vs\<rparr> = two_versions vs" for us vs by (simp add: two_versions_def)
  have refused: "fst (RestoreVersion 7 2 3 (two_versions [bob])) = Inl ErrQuota"
    by (simp add: RestoreVersion_def two_versions_def bob_def put_eval eval_set cong: run_cong
        del: set_filter list.set_map)
  have "\<exists>n. fst (RestoreVersion 7 2 3 ?u) = Inr n \<and> N_Size n = 8"
    by (simp add: RestoreVersion_def two_versions_def bob_def put_eval eval_set cong: run_cong
        del: set_filter list.set_map)
  moreover have "usageBytes 7 (snd (RestoreVersion 7 2 3 ?u)) = (8, 0, 1)"
    by (simp add: RestoreVersion_def two_versions_def bob_def put_eval eval_set cong: run_cong
        del: set_filter list.set_map)
  ultimately show ?thesis
    unfolding two_versions_run Let_def users
    by (cases "RestoreVersion 7 2 3 ?u") (simp add: refused two_versions_usage)
qed


text \<open>C13: pruning never removes a file's current version, nor one younger than the retention, nor one
  for which fewer than \<open>keepN\<close> newer versions of the same file remain.\<close>

theorem prune_keeps:
  assumes d: "distinct (map v_id (versions w))" and run: "PruneVersions keepN keep limit w = (r, w')"
    and v: "v \<in> set (versions w)" "v \<notin> set (versions w')"
  shows "(\<exists>n \<in> set (nodes w). n_id n = v_node v \<and> n_head n \<noteq> Some (v_id v)) \<and> v_created v < now w - keep \<and>
    keepN \<le> card {u \<in> set (versions w'). v_node u = v_node v \<and> version_newer u v}"
proof -
  let ?A = "{u \<in> set (versions w). v_node u = v_node v}"
  let ?r = "\<lambda>u. card {z \<in> ?A. version_newer z u}"
  have dv: "distinct (versions w)" using d by (simp add: distinct_map)
  have p: "prunable keepN keep w v" by (rule prune_run(2) [OF d run v])
  then have head: "\<exists>n \<in> set (nodes w). n_id n = v_node v \<and> n_head n \<noteq> Some (v_id v)" and age: "v_created v < now w - keep"
    by (auto simp: prunable_def split: option.splits dest!: find_Some_set)
  have rank: "keepN < ?r v" using p version_rank_card [OF dv, of v] by (simp add: prunable_def)
  moreover have "?r v \<le> card ?A" by (intro card_mono) auto
  ultimately have "keepN \<le> card ?A" by linarith
  have same: "\<And>a b. a \<in> ?A \<Longrightarrow> b \<in> ?A \<Longrightarrow> version_newer a b \<Longrightarrow> version_newer b a \<Longrightarrow> a = b"
  proof -
    fix a b assume "a \<in> ?A" "b \<in> ?A" "version_newer a b" "version_newer b a"
    then have "v_id a = v_id b" "a \<in> set (versions w)" "b \<in> set (versions w)" using version_newer_order(4) by blast+
    with d show "a = b" by (metis distinct_map inj_onD)
  qed
  have "card {u \<in> ?A. ?r u \<le> keepN} = keepN"
    by (rule top_ranks [OF _ version_newer_order(1) version_newer_order(2) same version_newer_order(3) \<open>keepN \<le> card ?A\<close>]) simp
  then have "keepN = card {u \<in> ?A. ?r u \<le> keepN}" ..
  also have "\<dots> \<le> card {u \<in> set (versions w'). v_node u = v_node v \<and> version_newer u v}"
  proof (rule card_mono)
    show "{u \<in> ?A. ?r u \<le> keepN} \<subseteq> {u \<in> set (versions w'). v_node u = v_node v \<and> version_newer u v}"
    proof safe
      fix u assume u: "u \<in> set (versions w)" "v_node u = v_node v" "?r u \<le> keepN"
      have "\<not> prunable keepN keep w u" using u version_rank_card [OF dv, of u] by (simp add: prunable_def)
      with prune_run(2) [OF d run u(1)] show "u \<in> set (versions w')" by blast
      show "version_newer u v"
      proof (rule ccontr)
        assume "\<not> version_newer u v"
        then have "version_newer v u" using version_newer_order(1) by blast
        then have "?r v \<le> ?r u" by (intro card_mono) (auto intro: version_newer_order(2))
        with rank u(3) show False by linarith
      qed
    qed
  qed simp
  finally show ?thesis using head age by blast
qed

theorem prune_keeps_witness:
  "\<exists>w'. 1 \<le> card {u \<in> set (versions (w' :: world)). v_node u = 2 \<and> v_id u \<noteq> 3}"
proof -
  let ?w = "(two_versions [bob])\<lparr>now := 100\<rparr>"
  obtain r w' where run: "PruneVersions 1 10 5 ?w = (r, w')" by fastforce
  have w': "versions w' = filter (\<lambda>v. v_id v \<noteq> 3) (versions ?w)"
    using run by (simp add: PruneVersions_def delete_versions_def two_versions_def prunable_def version_rank_def
        version_newer_def drop_versions_def put_eval eval_set cong: run_cong del: set_filter list.set_map) (auto simp: update_rows_def)
  obtain v where v: "v \<in> set (versions ?w)" "v \<notin> set (versions w')" "v_id v = 3" "v_node v = 2"
    unfolding w' by (simp add: two_versions_def)
  have "distinct (map v_id (versions ?w))" by (simp add: two_versions_def)
  from prune_keeps [OF this run v(1,2)]
  have "1 \<le> card {u \<in> set (versions w'). v_node u = 2 \<and> version_newer u v}" by (simp add: v)
  also have "\<dots> \<le> card {u \<in> set (versions w'). v_node u = 2 \<and> v_id u \<noteq> 3}"
    by (intro card_mono) (auto simp: w')
  finally show ?thesis by blast
qed

end
