(* ===== verification/Grants.thy ===== *)
theory Grants
  imports Versions
begin

text \<open>
  User-to-user access, \<open>server/internal/files/grants.go\<close> with migration 00022: roles, the
  authorisation question every shared read goes through (\<open>AccessFor\<close>), the predicate shared by the
  widened listings (\<open>VisibleNodes\<close>), and creating, changing and revoking grants.  Listing tags for a
  caller and resolving a user name are left out with the tables they read.
\<close>

section \<open>Roles\<close>

definition RoleViewer :: string where "RoleViewer = ''viewer''"
definition RoleEditor :: string where "RoleEditor = ''editor''"
definition RoleOwner :: string where "RoleOwner = ''owner''"

definition GrantableRoles :: "string list" where
  "GrantableRoles = [RoleViewer, RoleEditor]"

definition ErrGrantNotFound :: goerr where "ErrGrantNotFound = Sentinel ''grant not found''"
definition ErrInvalidRole :: goerr where
  "ErrInvalidRole = Sentinel ''role must be one of: viewer, editor''"
definition ErrCannotGrantToSelf :: goerr where
  "ErrCannotGrantToSelf = Sentinel ''cannot grant to yourself''"

definition ValidRole :: "string \<Rightarrow> bool" where
  "ValidRole role \<longleftrightarrow> role \<in> set GrantableRoles"

record Grant =
  Gr_ID :: nat
  Gr_NodeID :: nat
  Gr_Path :: string
  Gr_OwnerID :: nat
  Gr_Owner :: string
  Gr_GranteeID :: nat
  Gr_Grantee :: string
  Gr_Role :: string
  Gr_InheritedFrom :: "nat option"
  Gr_CreatedAt :: int

record Access =
  Acc_Role :: string
  Acc_Owner :: string
  Acc_Shared :: bool

definition CanWrite :: "Access \<Rightarrow> bool" where
  "CanWrite a \<longleftrightarrow> Acc_Role a = RoleOwner \<or> Acc_Role a = RoleEditor"

section \<open>Reading\<close>

definition user_of :: "world \<Rightarrow> nat \<Rightarrow> user_row option" where
  "user_of w i = find (\<lambda>u. u_id u = i) (users w)"

definition node_of :: "world \<Rightarrow> nat \<Rightarrow> node_row option" where
  "node_of w i = find (\<lambda>n. n_id n = i) (nodes w)"

text \<open>\<open>grantCols\<close> over \<open>grantFrom\<close>: a grant joined with its node and the two users.\<close>

definition scanGrant :: "world \<Rightarrow> nat option \<Rightarrow> grant_row \<Rightarrow> Grant option" where
  "scanGrant w inherited g =
     (case (node_of w (g_node g), user_of w (g_owner g), user_of w (g_grantee g)) of
        (Some n, Some ow, Some gu) \<Rightarrow>
          Some \<lparr>Gr_ID = g_id g, Gr_NodeID = g_node g, Gr_Path = n_path n, Gr_OwnerID = g_owner g,
                Gr_Owner = u_name ow, Gr_GranteeID = g_grantee g, Gr_Grantee = u_name gu,
                Gr_Role = g_role g, Gr_InheritedFrom = inherited, Gr_CreatedAt = g_created g\<rparr>
      | _ \<Rightarrow> None)"

text \<open>\<open>path = gn.path OR starts_with(path, gn.path || '/')\<close>.\<close>

definition covers :: "string \<Rightarrow> string \<Rightarrow> bool" where
  "covers gpath path \<longleftrightarrow> path = gpath \<or> starts_with path (gpath @ ''/'')"

text \<open>The grants through which a user reaches a path of an owner's tree.\<close>

definition reaching :: "world \<Rightarrow> nat \<Rightarrow> nat \<Rightarrow> string \<Rightarrow> grant_row list" where
  "reaching w userID ownerID path = filter (\<lambda>g. g_grantee g = userID \<and>
     (case node_of w (g_node g) of None \<Rightarrow> False
      | Some gn \<Rightarrow> n_owner gn = ownerID \<and> n_trashed gn = None \<and> covers (n_path gn) path)) (grants w)"

text \<open>\<open>ORDER BY (g.role = 'editor') DESC LIMIT 1\<close>.\<close>

definition best_role :: "grant_row list \<Rightarrow> string option" where
  "best_role gs = map_option g_role
     (case find (\<lambda>g. g_role g = ''editor'') gs of Some g \<Rightarrow> Some g
      | None \<Rightarrow> (case gs of [] \<Rightarrow> None | g # _ \<Rightarrow> Some g))"

definition AccessFor :: "nat \<Rightarrow> nat \<Rightarrow> (world, Access) m" where
  "AccessFor userID nodeID =
     bindM (selectM (\<lambda>w. case find (\<lambda>n. n_id n = nodeID \<and> n_trashed n = None) (nodes w) of
         None \<Rightarrow> None
       | Some n \<Rightarrow> map_option (\<lambda>u. (n_owner n, u_name u, n_path n)) (user_of w (n_owner n)))) (\<lambda>r. case r of
       None \<Rightarrow> raise ErrNotFound
     | Some (ownerID, ownerName, path) \<Rightarrow>
         if ownerID = userID then ret \<lparr>Acc_Role = RoleOwner, Acc_Owner = ownerName, Acc_Shared = False\<rparr>
         else
           bindM (selectM (\<lambda>w. best_role (reaching w userID ownerID path))) (\<lambda>r. case r of
             None \<Rightarrow> raise ErrNotFound
           | Some role \<Rightarrow> ret \<lparr>Acc_Role = role, Acc_Owner = ownerName, Acc_Shared = True\<rparr>))"

text \<open>
  \<open>AccessForNodes\<close>: the listing's variant, which joins on the grant's own owner column and is keyed by
  node id.
\<close>

definition AccessForNodes :: "nat \<Rightarrow> node list \<Rightarrow> (world, (nat \<times> Access) list) m" where
  "AccessForNodes userID ns =
     (let ids = map N_ID (filter (\<lambda>n. N_OwnerID n \<noteq> userID) ns) in
      if ids = [] then ret []
      else selectM (\<lambda>w. List.map_filter (\<lambda>n. case user_of w (n_owner n) of
          None \<Rightarrow> None
        | Some ow \<Rightarrow> map_option (\<lambda>role. (n_id n, \<lparr>Acc_Role = role, Acc_Owner = u_name ow, Acc_Shared = True\<rparr>))
            (best_role (filter (\<lambda>g. g_grantee g = userID \<and> g_owner g = n_owner n \<and>
               (case node_of w (g_node g) of None \<Rightarrow> False
                | Some gn \<Rightarrow> n_trashed gn = None \<and> covers (n_path gn) (n_path n))) (grants w))))
        (filter (\<lambda>n. n_id n \<in> set ids) (nodes w))))"

definition SharedRoots :: "nat \<Rightarrow> (world, node list \<times> Grant list) m" where
  "SharedRoots userID =
     bindM (selectM (\<lambda>w. map (scanNode w) (order_by (\<lambda>a b. text_le (n_name a) (n_name b))
       (List.map_filter (\<lambda>g. case node_of w (g_node g) of
          None \<Rightarrow> None | Some n \<Rightarrow> if n_trashed n = None then Some n else None)
        (filter (\<lambda>g. g_grantee g = userID) (grants w)))))) (\<lambda>ns.
     bindM (selectM (\<lambda>w. map snd (order_by (\<lambda>a b. text_le (fst a) (fst b))
       (List.map_filter (\<lambda>g. case node_of w (g_node g) of
          None \<Rightarrow> None
        | Some n \<Rightarrow> if n_trashed n = None then map_option (\<lambda>r. (n_name n, r)) (scanGrant w None g) else None)
        (filter (\<lambda>g. g_grantee g = userID) (grants w)))))) (\<lambda>gs.
     ret (ns, gs)))"

text \<open>\<open>ORDER BY gu.username, (g.node_id = $1) DESC, length(n.path) DESC\<close>.\<close>

definition grants_for_node_le :: "nat \<Rightarrow> Grant \<Rightarrow> Grant \<Rightarrow> bool" where
  "grants_for_node_le nodeID a b \<longleftrightarrow>
     (if Gr_Grantee a = Gr_Grantee b
      then (if (Gr_NodeID a = nodeID) = (Gr_NodeID b = nodeID)
            then length (runes (Gr_Path a)) \<ge> length (runes (Gr_Path b)) else Gr_NodeID a = nodeID)
      else text_le (Gr_Grantee a) (Gr_Grantee b))"

definition GrantsForNode :: "nat \<Rightarrow> nat \<Rightarrow> (world, Grant list) m" where
  "GrantsForNode ownerID nodeID =
     selectM (\<lambda>w. case node_of w nodeID of
       None \<Rightarrow> []
     | Some target \<Rightarrow> order_by (grants_for_node_le nodeID)
         (List.map_filter (\<lambda>g. case node_of w (g_node g) of
            None \<Rightarrow> None
          | Some n \<Rightarrow> if n_trashed n = None \<and> covers (n_path n) (n_path target)
                     then scanGrant w (if g_node g = nodeID then None else Some (g_node g)) g else None)
          (filter (\<lambda>g. g_owner g = ownerID) (grants w))))"

definition newest_first :: "Grant \<Rightarrow> Grant \<Rightarrow> bool" where
  "newest_first a b \<longleftrightarrow> Gr_CreatedAt a \<ge> Gr_CreatedAt b"

definition ListGrants :: "nat \<Rightarrow> (world, Grant list \<times> Grant list) m" where
  "ListGrants userID =
     bindM (selectM (\<lambda>w. order_by newest_first
       (List.map_filter (scanGrant w None) (filter (\<lambda>g. g_owner g = userID) (grants w))))) (\<lambda>granted.
     bindM (selectM (\<lambda>w. order_by newest_first
       (List.map_filter (scanGrant w None) (filter (\<lambda>g. g_grantee g = userID) (grants w))))) (\<lambda>received.
     ret (granted, received)))"

section \<open>Writing\<close>

definition grant_check :: "grant_row \<Rightarrow> bool" where
  "grant_check g \<longleftrightarrow> g_role g \<in> {''viewer'', ''editor''} \<and> g_owner g \<noteq> g_grantee g"

definition grant_fks :: "world \<Rightarrow> grant_row \<Rightarrow> bool" where
  "grant_fks w g \<longleftrightarrow> g_node g \<in> set (map n_id (nodes w)) \<and> g_owner g \<in> set (map u_id (users w)) \<and>
     g_grantee g \<in> set (map u_id (users w))"

definition assertOwnedLive :: "nat \<Rightarrow> nat \<Rightarrow> (world, unit) m" where
  "assertOwnedLive ownerID nodeID =
     bindM (selectM (\<lambda>w. list_ex (\<lambda>n. n_id n = nodeID \<and> n_owner n = ownerID \<and> n_trashed n = None) (nodes w)))
       (\<lambda>ok. if ok then ret () else raise ErrNotFound)"

text \<open>The row a statement with \<open>RETURNING\<close> made, as \<open>scanGrant\<close> reads it.\<close>

definition return_grant :: "grant_row \<Rightarrow> (world, Grant) m" where
  "return_grant g = bindM (getM (\<lambda>w. scanGrant w None g)) (\<lambda>r. case r of
     None \<Rightarrow> raise ErrGrantNotFound | Some gr \<Rightarrow> ret gr)"

text \<open>\<open>INSERT ... ON CONFLICT (node_id, grantee_id) DO UPDATE SET role\<close>.\<close>

definition upsert_grant :: "nat \<Rightarrow> nat \<Rightarrow> nat \<Rightarrow> string \<Rightarrow> (world, Grant) m" where
  "upsert_grant nodeID ownerID granteeID role =
     thenM dbM
     (bindM fresh_id (\<lambda>i.
      bindM (getM (\<lambda>w. w)) (\<lambda>w.
      let hit = (\<lambda>g. g_node g = nodeID \<and> g_grantee g = granteeID);
          new = \<lparr>g_id = i, g_node = nodeID, g_owner = ownerID, g_grantee = granteeID, g_role = role,
                 g_created = now w\<rparr>
      in if \<not> grant_check new then raise check_violation
         else (case find hit (grants w) of
            Some g \<Rightarrow> thenM (modM (\<lambda>v. v\<lparr>grants := map (\<lambda>g. if hit g then g\<lparr>g_role := role\<rparr> else g) (grants v)\<rparr>))
                      (return_grant (g\<lparr>g_role := role\<rparr>))
          | None \<Rightarrow>
              if \<not> grant_fks w new then raise fk_violation
              else thenM (modM (\<lambda>v. v\<lparr>grants := grants v @ [new]\<rparr>)) (return_grant new)))))"

definition CreateGrant :: "nat \<Rightarrow> nat \<Rightarrow> nat \<Rightarrow> string \<Rightarrow> (world, Grant) m" where
  "CreateGrant ownerID nodeID granteeID role =
     (if \<not> ValidRole role then raise ErrInvalidRole
      else if ownerID = granteeID then raise ErrCannotGrantToSelf
      else thenM (assertOwnedLive ownerID nodeID) (upsert_grant nodeID ownerID granteeID role))"

definition UpdateGrant :: "nat \<Rightarrow> nat \<Rightarrow> string \<Rightarrow> (world, Grant) m" where
  "UpdateGrant ownerID grantID role =
     (if \<not> ValidRole role then raise ErrInvalidRole
      else
        thenM dbM
        (bindM (getM (\<lambda>w. w)) (\<lambda>w.
         let hit = (\<lambda>g. g_id g = grantID \<and> g_owner g = ownerID)
         in case find hit (grants w) of
              None \<Rightarrow> raise ErrGrantNotFound
            | Some g \<Rightarrow> thenM (modM (\<lambda>v. v\<lparr>grants := map (\<lambda>g. if hit g then g\<lparr>g_role := role\<rparr> else g) (grants v)\<rparr>))
                        (return_grant (g\<lparr>g_role := role\<rparr>)))))"

definition DeleteGrant :: "nat \<Rightarrow> nat \<Rightarrow> (world, unit) m" where
  "DeleteGrant userID grantID =
     thenM dbM
     (bindM (getM (\<lambda>w. w)) (\<lambda>w.
      let hit = (\<lambda>g. g_id g = grantID \<and> (g_owner g = userID \<or> g_grantee g = userID))
      in thenM (modM (\<lambda>v. v\<lparr>grants := filter (\<lambda>g. \<not> hit g) (grants v)\<rparr>))
         (if \<not> list_ex hit (grants w) then raise ErrGrantNotFound else ret ())))"

section \<open>The widened reads\<close>

definition VisibleNodes :: "nat \<Rightarrow> world \<Rightarrow> node_row \<Rightarrow> bool" where
  "VisibleNodes userID w n \<longleftrightarrow> n_owner n = userID \<or> reaching w userID (n_owner n) (n_path n) \<noteq> []"

definition OwnedNodes :: "nat \<Rightarrow> world \<Rightarrow> node_row \<Rightarrow> bool" where
  "OwnedNodes userID w n \<longleftrightarrow> n_owner n = userID"

definition Visibility :: "bool \<Rightarrow> nat \<Rightarrow> world \<Rightarrow> node_row \<Rightarrow> bool" where
  "Visibility includeShared = (if includeShared then VisibleNodes else OwnedNodes)"

definition WriteOwnerFor :: "nat \<Rightarrow> nat \<Rightarrow> (world, nat) m" where
  "WriteOwnerFor userID nodeID =
     bindM (AccessFor userID nodeID) (\<lambda>acc.
     if \<not> CanWrite acc then raise ErrNotFound
     else if Acc_Role acc = RoleOwner then ret userID
     else
       bindM (selectM (\<lambda>w. map_option n_owner (find (\<lambda>n. n_id n = nodeID \<and> n_trashed n = None) (nodes w)))) (\<lambda>r. case r of
         None \<Rightarrow> raise ErrNotFound
       | Some ownerID \<Rightarrow> ret ownerID))"

definition GetVisible :: "nat \<Rightarrow> nat \<Rightarrow> (world, node \<times> Access) m" where
  "GetVisible userID nodeID =
     bindM (AccessFor userID nodeID) (\<lambda>acc.
     bindM (query_node (\<lambda>n. n_id n = nodeID \<and> n_trashed n = None)) (\<lambda>nd. ret (nd, acc)))"

definition ListChildrenVisible :: "nat \<Rightarrow> nat \<Rightarrow> bool \<Rightarrow> (world, node list) m" where
  "ListChildrenVisible userID parentID includeShared =
     selectM (\<lambda>w. map (scanNode w) (order_by children_le (filter (\<lambda>n.
       Visibility includeShared userID w n \<and> n_parent n = Some parentID \<and> n_trashed n = None) (nodes w))))"

end
