(* ===== verification/TreeFrame.thy ===== *)
theory TreeFrame
  imports Journal
begin

text \<open>
  What a property of the tables around the tree (nodes, users, grants, upload sessions) has to meet
  so that every operation of the file tree keeps it: \<open>owner_tables\<close> states it as four conditions on
  the rows and derives the statements and the operations from them.
\<close>

section \<open>The contract\<close>

locale owner_tables =
  fixes I :: "world \<Rightarrow> bool"
  assumes frame: "I w \<Longrightarrow> nodes w' = nodes w \<Longrightarrow> users w' = users w \<Longrightarrow> grants w' = grants w \<Longrightarrow>
      uploads w' = uploads w \<Longrightarrow> next_id w \<le> next_id w' \<Longrightarrow> I w'"
    and update: "I w \<Longrightarrow> nodes w' = map f (nodes w) \<Longrightarrow>
      (\<And>n. n_id (f n) = n_id n \<and> n_owner (f n) = n_owner n \<and> n_kind (f n) = n_kind n) \<Longrightarrow> users w' = users w \<Longrightarrow>
      grants w' = grants w \<Longrightarrow> uploads w' = uploads w \<Longrightarrow> next_id w \<le> next_id w' \<Longrightarrow> I w'"
    and insert: "I w \<Longrightarrow> nodes w' = nodes w @ [n] \<Longrightarrow> n_id n = next_id w \<Longrightarrow> next_id w < next_id w' \<Longrightarrow>
      n_owner n \<in> set (map u_id (users w)) \<Longrightarrow> users w' = users w \<Longrightarrow> grants w' = grants w \<Longrightarrow>
      uploads w' = uploads w \<Longrightarrow> I w'"
    and delete: "I w \<Longrightarrow> nodes w' = filter (\<lambda>n. n_id n \<notin> ids) (nodes w) \<Longrightarrow>
      grants w' = filter (\<lambda>g. g_node g \<notin> ids) (grants w) \<Longrightarrow>
      uploads w' = filter (\<lambda>u. up_parent u \<notin> ids) (uploads w) \<Longrightarrow> users w' = users w \<Longrightarrow>
      next_id w \<le> next_id w' \<Longrightarrow> I w'"
begin

lemma faultless: "fault_free I"
  by (auto simp: fault_free_def intro: frame)

lemma on_modM:
  "(\<And>w. nodes (f w) = nodes w \<and> users (f w) = users w \<and> grants (f w) = grants w \<and> uploads (f w) = uploads w \<and>
     next_id (f w) = next_id w) \<Longrightarrow> keeps I (modM f)"
  by (auto simp: keeps_def modM_def intro: frame)

lemma on_fresh_id: "keeps I fresh_id"
  by (auto simp: keeps_def fresh_id_def intro: frame)

lemma on_update_nodes:
  "(\<And>t n. n_id (g t n) = n_id n \<and> n_owner (g t n) = n_owner n \<and> n_kind (g t n) = n_kind n) \<Longrightarrow> keeps I (update_nodes q g)"
proof (rule keepsI, erule update_nodes_run)
  fix w r w' bs assume g: "\<And>t n. n_id (g t n) = n_id n \<and> n_owner (g t n) = n_owner n \<and> n_kind (g t n) = n_kind n"
    and "I w" and w': "w' = fold (\<lambda>n. journal_node_change (Some n) (Some (g (now w) n))) (filter q (nodes w))
              (w\<lparr>faults := bs, nodes := update_rows q (g (now w)) (nodes w)\<rparr>)"
  show "I w'"
    by (rule update [OF \<open>I w\<close>, of _ "\<lambda>n. if q n then g (now w) n else n"]) (simp_all add: w' update_rows_map g)
qed (auto intro: frame)

lemma on_insert_node: "(\<And>i t. n_id (mk i t) = i) \<Longrightarrow> keeps I (insert_node mk)"
proof (rule keepsI, erule insert_node_run)
  fix w r w' bs assume mk: "\<And>i t. n_id (mk i t) = i" and "I w"
    and ok: "node_errors w (nodes w @ [mk (next_id w) (now w)]) [mk (next_id w) (now w)] = None"
    and w': "w' = journal_node_change None (Some (mk (next_id w) (now w)))
              (w\<lparr>faults := bs, next_id := Suc (next_id w), nodes := nodes w @ [mk (next_id w) (now w)]\<rparr>)"
  have "n_owner (mk (next_id w) (now w)) \<in> set (map u_id (users w))"
    using ok by (simp add: node_errors_def node_fks_def split: if_splits)
  then show "I w'"
    by (intro insert [OF \<open>I w\<close>, of _ "mk (next_id w) (now w)"]) (simp_all add: w' mk)
qed (auto intro: frame)

lemma on_inserts: "keeps I (insert_version nd bid mid sz mime by_user)" "keeps I (insert_blob key sz sha)"
  unfolding insert_version_def insert_blob_def Let_def
  by (intro on_modM on_fresh_id keeps_intros faultless; simp)+

lemma on_deletes: "keeps I (delete_versions p)" "keeps I (delete_nodes q)"
proof -
  have v: "I (drop_versions p w)" if "I w" for w
    by (rule update [OF that, of _ "\<lambda>n. if case n_head n of None \<Rightarrow> False | Some v \<Rightarrow> v \<in> set (map v_id (filter p (versions w)))
          then n\<lparr>n_head := None\<rparr> else n"]) (simp_all add: drop_versions_def Let_def update_rows_map)
  have n: "I (drop_nodes q w)" if "I w" for w
    by (rule delete [OF that, of _ "set (descend (length (nodes w)) (nodes w) (map n_id (filter q (nodes w))))"])
      (simp_all add: drop_nodes_def Let_def)
  have m: "(\<And>w. I w \<Longrightarrow> I (f w)) \<Longrightarrow> keeps I (modM f)" for f
    by (auto simp: keeps_def modM_def)
  show "keeps I (delete_versions p)" "keeps I (delete_nodes q)"
    unfolding delete_versions_def delete_nodes_def
    by (intro m v n keeps_intros faultless; assumption?)+
qed

lemma on_withTx:
  assumes c: "keeps I c" and mono: "\<And>k. keeps (drew k) c"
  shows "keeps I (withTx c)"
proof (rule keepsI)
  fix w r w' assume ok: "I w" and run: "withTx c w = (r, w')"
  have ok': "I (w\<lparr>faults := bs\<rparr>)" for bs using ok by (auto intro: frame)
  have undone: "I (rollback w w1)" if "c (w\<lparr>faults := bs\<rparr>) = (q, w1)" for bs q w1
    using keepsD [OF mono [of "next_id w"] _ that] ok by (auto simp: drew_def intro: frame)
  from run show "I w'"
  proof (cases rule: withTx_cases)
    case (3 bs q w1 bs')
    have "rollback w (w1\<lparr>faults := bs'\<rparr>) = (rollback w w1)\<lparr>faults := bs'\<rparr>" by (simp add: rollback_def)
    with undone [OF 3(1)] 3 show ?thesis by (auto intro: frame)
  next
    case (4 bs q w1 bs')
    with keepsD [OF c ok' 4(1)] show ?thesis by (auto intro: frame)
  qed (use ok' undone in auto)
qed

lemma on_queries:
  "keeps I (query_node p)" "keeps I (checkQuota own k)" "keeps I (live_folder_path own i)"
  "keeps I (check_name y nm)" "keeps I (store_Get own i)" "keeps I (GetLive own i)"
  unfolding query_node_def checkQuota_def quota_of_def live_folder_path_def check_name_def store_Get_def GetLive_def
  by (intro keeps_intros faultless)+

lemmas on_statements = on_update_nodes on_insert_node on_inserts on_deletes on_fresh_id on_modM on_queries on_withTx

lemma on_operations:
  "keeps I (EnsureRoot own)" "keeps I (CreateFolder x own i nm)"
  "keeps I (PutFile x inp)" "keeps I (MoveOrRename x own i np nm)"
  "keeps I (Trash own i)" "keeps I (Restore own i)" "keeps I (Purge own i)"
  "keeps I (EmptyTrash own)" "keeps I (AutoPurgeTrash d)"
  "keeps I (RestoreVersion own i vid)" "keeps I (PruneVersions n d lim)"
  unfolding EnsureRoot_def CreateFolder_def PutFile_def MoveOrRename_def Trash_def Restore_def Purge_def
    EmptyTrash_def AutoPurgeTrash_def RestoreVersion_def PruneVersions_def
    file_slot_def rewrite_descendants_def store_root_def Let_def
  by (intro on_statements keeps_intros faultless drew_fault_free; simp)+

end
end
