(* ===== verification/GrantsInv.thy ===== *)
theory GrantsInv
  imports Grants TreeFrame
begin

text \<open>
  The grants table under every operation of the tree and of \<open>server/internal/files/grants.go\<close>: what
  each call that writes it leaves behind, and the invariant that every grant sits on a node of the
  user who made it.
\<close>

section \<open>The grants table\<close>

definition grants_ok :: "world \<Rightarrow> bool" where
  "grants_ok w \<longleftrightarrow> distinct (map n_id (nodes w)) \<and>
     (\<forall>n \<in> set (nodes w). n_id n < next_id w \<and> n_owner n \<in> set (map u_id (users w))) \<and>
     (\<forall>g \<in> set (grants w). grant_check g \<and> g_id g < next_id w \<and> g_grantee g \<in> set (map u_id (users w)) \<and>
        (\<exists>n \<in> set (nodes w). n_id n = g_node g \<and> n_owner n = g_owner g)) \<and>
     distinct (map g_id (grants w)) \<and> distinct (map (\<lambda>g. (g_node g, g_grantee g)) (grants w))"

interpretation shares: owner_tables grants_ok
proof
  fix w w' :: world and f
  assume *: "grants_ok w" "nodes w' = map f (nodes w)" "users w' = users w" "grants w' = grants w" "next_id w \<le> next_id w'"
    and f: "\<And>n. n_id (f n) = n_id n \<and> n_owner (f n) = n_owner n \<and> n_kind (f n) = n_kind n"
  then have nw: "nodes w' = map f (nodes w)" by simp
  have ids: "map n_id (nodes w') = map n_id (nodes w)" using f by (simp add: nw)
  have "distinct (map n_id (nodes w'))" using * unfolding ids by (simp add: grants_ok_def)
  moreover have "\<forall>n \<in> set (nodes w'). n_id n < next_id w' \<and> n_owner n \<in> set (map u_id (users w'))"
    using * f by (auto simp: grants_ok_def intro: less_le_trans)
  moreover have "\<forall>g \<in> set (grants w'). grant_check g \<and> g_id g < next_id w' \<and> g_grantee g \<in> set (map u_id (users w')) \<and>
        (\<exists>n \<in> set (nodes w'). n_id n = g_node g \<and> n_owner n = g_owner g)"
    using * f by (auto simp: grants_ok_def intro: less_le_trans)
  ultimately show "grants_ok w'" using * by (simp add: grants_ok_def)
next
  fix w w' :: world and n
  assume a: "grants_ok w" "nodes w' = nodes w @ [n]" "users w' = users w" "grants w' = grants w" "next_id w < next_id w'"
    "n_id n = next_id w" "n_owner n \<in> set (map u_id (users w))"
  have "n_id m \<noteq> n_id n" if "m \<in> set (nodes w)" for m using a that by (fastforce simp: grants_ok_def)
  then have "distinct (map n_id (nodes w'))" using a by (auto simp: grants_ok_def)
  moreover have "\<forall>n \<in> set (nodes w'). n_id n < next_id w' \<and> n_owner n \<in> set (map u_id (users w'))"
    using a by (auto simp: grants_ok_def)
  moreover have "\<forall>g \<in> set (grants w'). grant_check g \<and> g_id g < next_id w' \<and> g_grantee g \<in> set (map u_id (users w')) \<and>
        (\<exists>n \<in> set (nodes w'). n_id n = g_node g \<and> n_owner n = g_owner g)"
    using a by (fastforce simp: grants_ok_def)
  ultimately show "grants_ok w'" using a by (simp add: grants_ok_def)
next
  fix w w' :: world and ids
  assume a: "grants_ok w" "nodes w' = filter (\<lambda>n. n_id n \<notin> ids) (nodes w)" "users w' = users w"
    "grants w' = filter (\<lambda>g. g_node g \<notin> ids) (grants w)" "next_id w \<le> next_id w'"
  then show "grants_ok w'" by (fastforce simp: grants_ok_def distinct_map_filter)
qed (fastforce simp: grants_ok_def)

text \<open>What a call that writes the table can leave behind.\<close>

lemma bind_fresh_id: "bindM fresh_id f w = f (next_id w) (w\<lparr>next_id := Suc (next_id w)\<rparr>)"
  by (simp add: bindM_def fresh_id_def)

lemma dbM_first:
  assumes "thenM dbM c w = (r, w')"
  obtains bs where "r = Inl db_err" "w' = w\<lparr>faults := bs\<rparr>" | bs where "c (w\<lparr>faults := bs\<rparr>) = (r, w')"
  using assms by (elim thenM_cases dbM_run) auto

lemma return_grant_iff: "return_grant g w = (r, w') \<longleftrightarrow>
    w' = w \<and> r = (case scanGrant w None g of None \<Rightarrow> Inl ErrGrantNotFound | Some gr \<Rightarrow> Inr gr)"
  by (auto simp: return_grant_def bindM_getM run_iffs split: option.splits)

lemma upsert_grant_run:
  assumes "upsert_grant nodeID ownerID granteeID role w = (r, w')"
  obtains bs k e where "r = Inl e" "w' = w\<lparr>faults := bs, next_id := k\<rparr>" "next_id w \<le> k"
  | bs g where "w' = w\<lparr>faults := bs, next_id := Suc (next_id w), grants := map (\<lambda>g. if g_node g = nodeID \<and>
        g_grantee g = granteeID then g\<lparr>g_role := role\<rparr> else g) (grants w)\<rparr>"
      "g \<in> set (grants w)" "g_node g = nodeID" "g_grantee g = granteeID"
      "r = (case scanGrant w' None (g\<lparr>g_role := role\<rparr>) of None \<Rightarrow> Inl ErrGrantNotFound | Some gr \<Rightarrow> Inr gr)"
      "role \<in> {''viewer'', ''editor''}"
  | bs new where "w' = w\<lparr>faults := bs, next_id := Suc (next_id w), grants := grants w @ [new]\<rparr>"
      "new = \<lparr>g_id = next_id w, g_node = nodeID, g_owner = ownerID, g_grantee = granteeID, g_role = role,
                 g_created = now w\<rparr>"
      "\<forall>g \<in> set (grants w). \<not> (g_node g = nodeID \<and> g_grantee g = granteeID)"
      "grant_check new" "grant_fks w new"
      "r = (case scanGrant w' None new of None \<Rightarrow> Inl ErrGrantNotFound | Some gr \<Rightarrow> Inr gr)"
proof -
  let ?hit = "\<lambda>g. g_node g = nodeID \<and> g_grantee g = granteeID"
  let ?new = "\<lparr>g_id = next_id w, g_node = nodeID, g_owner = ownerID, g_grantee = granteeID, g_role = role,
                 g_created = now w\<rparr>"
  from assms consider bs where "r = Inl db_err" "w' = w\<lparr>faults := bs\<rparr>"
    | (go) bs where "(if \<not> grant_check ?new then raise check_violation
         else (case find ?hit (grants w) of
            Some g \<Rightarrow> thenM (modM (\<lambda>v. v\<lparr>grants := map (\<lambda>g. if ?hit g then g\<lparr>g_role := role\<rparr> else g) (grants v)\<rparr>))
                      (return_grant (g\<lparr>g_role := role\<rparr>))
          | None \<Rightarrow>
              if \<not> grant_fks (w\<lparr>faults := bs, next_id := Suc (next_id w)\<rparr>) ?new then raise fk_violation
              else thenM (modM (\<lambda>v. v\<lparr>grants := grants v @ [?new]\<rparr>)) (return_grant ?new)))
        (w\<lparr>faults := bs, next_id := Suc (next_id w)\<rparr>) = (r, w')"
    unfolding upsert_grant_def Let_def
    by (rule dbM_first) (auto simp: bindM_getM bind_fresh_id cong: if_cong option.case_cong)
  then show ?thesis
  proof cases
    case 1
    then show ?thesis using that(1) [where e = db_err and bs = bs and k = "next_id w"] by simp
  next
    case (go bs)
    show ?thesis
    proof (cases "grant_check ?new")
      case False
      with go that(1) [where e = check_violation and bs = bs and k = "Suc (next_id w)"] show ?thesis by (simp add: raise_iff)
    next
      case chk: True
      show ?thesis
      proof (cases "find ?hit (grants w)")
        case (Some g)
        then have g: "g \<in> set (grants w)" "g_node g = nodeID" "g_grantee g = granteeID"
          by (auto simp: find_Some_iff)
        have role: "role \<in> {''viewer'', ''editor''}" using chk by (simp add: grant_check_def)
        from go chk Some have "w' = w\<lparr>faults := bs, next_id := Suc (next_id w), grants := map (\<lambda>g. if ?hit g then g\<lparr>g_role := role\<rparr> else g) (grants w)\<rparr>"
          "r = (case scanGrant w' None (g\<lparr>g_role := role\<rparr>) of None \<Rightarrow> Inl ErrGrantNotFound | Some gr \<Rightarrow> Inr gr)"
          by (simp_all add: return_grant_iff thenM_modM)
        with g role show ?thesis by (intro that(2))
      next
        case None
        then have no: "\<forall>g \<in> set (grants w). \<not> ?hit g" by (simp add: find_None_iff)
        show ?thesis
        proof (cases "grant_fks w ?new")
          case True
          with go chk None no show ?thesis
            by (intro that(3) [where bs = bs, OF _ refl])
               (simp_all add: return_grant_iff thenM_modM grant_fks_def)
        next
          case False
          with go chk None that(1) [where e = fk_violation and bs = bs and k = "Suc (next_id w)"] show ?thesis
            by (simp add: run_iffs grant_fks_def)
        qed
      qed
    qed
  qed
qed

lemma assertOwnedLive_run:
  assumes "assertOwnedLive own i w = (r, w')"
  obtains bs e where "r = Inl e" "w' = w\<lparr>faults := bs\<rparr>"
  | bs n where "r = Inr ()" "w' = w\<lparr>faults := bs\<rparr>" "n \<in> set (nodes w)" "n_id n = i" "n_owner n = own" "live n"
  using assms that unfolding assertOwnedLive_def
  by (elim bindM_cases selectM_run) (auto simp: run_iffs list_ex_iff live_def split: if_splits)

lemma CreateGrant_grants:
  assumes run: "CreateGrant own i gu role w = (r, w')" and ok: "grants_ok w"
  shows "grants_ok w'"
proof -
  have fr: "grants_ok (w\<lparr>faults := bs, next_id := k\<rparr>)" if "next_id w \<le> k" for bs k
    using ok that by (auto intro: shares.frame)
  consider (same) bs where "w' = w\<lparr>faults := bs\<rparr>"
    | (go) bs n where "own \<noteq> gu" "n \<in> set (nodes w)" "n_id n = i" "n_owner n = own" "live n"
        "upsert_grant i own gu role (w\<lparr>faults := bs\<rparr>) = (r, w')"
    using run unfolding CreateGrant_def
    by (auto simp: run_iffs elim!: thenM_cases assertOwnedLive_run split: if_splits intro: that(1) [of "faults w"])
  then show ?thesis
  proof cases
    case (same bs)
    with fr [of "next_id w" bs] show ?thesis by simp
  next
    case (go bs n)
    from go(6) show ?thesis
    proof (cases rule: upsert_grant_run)
      case (1 bs k e)
      with fr show ?thesis by simp
    next
      case (2 bs' g)
      let ?f = "\<lambda>g. if g_node g = i \<and> g_grantee g = gu then g\<lparr>g_role := role\<rparr> else g"
      have eq: "map g_id (map ?f gs) = map g_id gs"
        "map (\<lambda>g. (g_node g, g_grantee g)) (map ?f gs) = map (\<lambda>g. (g_node g, g_grantee g)) gs" for gs
        by simp_all
      have "\<forall>g \<in> set (grants w). grant_check (?f g)"
        using ok 2(6) by (auto simp: grants_ok_def grant_check_def)
      with ok show ?thesis unfolding 2(1) grants_ok_def
        by (simp add: eq del: map_map) fastforce
    next
      case (3 bs' new)
      have "g_id g \<noteq> next_id w" if "g \<in> set (grants w)" for g
        using ok that by (auto simp: grants_ok_def)
      then have ids: "distinct (map g_id (grants w'))" using ok 3 by (auto simp: grants_ok_def)
      have pairs: "distinct (map (\<lambda>g. (g_node g, g_grantee g)) (grants w'))" using ok 3 by (auto simp: grants_ok_def)
      have "\<forall>g \<in> set (grants w'). grant_check g \<and> g_id g < next_id w' \<and> g_grantee g \<in> set (map u_id (users w')) \<and>
        (\<exists>n \<in> set (nodes w'). n_id n = g_node g \<and> n_owner n = g_owner g)"
        using ok 3 go by (auto simp: grants_ok_def grant_fks_def less_SucI)
      then show ?thesis using ok ids pairs 3 by (auto simp: grants_ok_def less_SucI)
    qed
  qed
qed

lemma UpdateGrant_grants:
  assumes run: "UpdateGrant own i role w = (r, w')" and ok: "grants_ok w"
  shows "grants_ok w'"
proof -
  consider (same) bs where "w' = w\<lparr>faults := bs\<rparr>"
    | (go) bs where "ValidRole role" "w' = w\<lparr>faults := bs, grants := map (\<lambda>g. if g_id g = i \<and> g_owner g = own then g\<lparr>g_role := role\<rparr> else g) (grants w)\<rparr>"
    using run unfolding UpdateGrant_def Let_def
    by (auto simp: run_iffs bindM_getM thenM_modM return_grant_iff elim!: dbM_first split: if_splits option.splits
        intro: that(1) [of "faults w"])
  then show ?thesis
  proof cases
    case (same bs)
    with ok show ?thesis by (auto intro: shares.frame)
  next
    case (go bs)
    let ?f = "\<lambda>g. if g_id g = i \<and> g_owner g = own then g\<lparr>g_role := role\<rparr> else g"
    have eq: "map g_id (map ?f gs) = map g_id gs"
      "map (\<lambda>g. (g_node g, g_grantee g)) (map ?f gs) = map (\<lambda>g. (g_node g, g_grantee g)) gs" for gs
      by simp_all
    have "role \<in> {''viewer'', ''editor''}"
      using go(1) by (simp add: ValidRole_def GrantableRoles_def RoleViewer_def RoleEditor_def)
    with ok have "\<forall>g \<in> set (grants w). grant_check (?f g)"
      by (auto simp: grants_ok_def grant_check_def)
    with ok show ?thesis unfolding go(2) grants_ok_def
      by (simp add: eq del: map_map) fastforce
  qed
qed

lemma DeleteGrant_run:
  assumes "DeleteGrant u i w = (r, w')"
  obtains bs where "r = Inl db_err" "w' = w\<lparr>faults := bs\<rparr>"
  | bs where "w' = w\<lparr>faults := bs, grants := filter (\<lambda>g. \<not> (g_id g = i \<and> (g_owner g = u \<or> g_grantee g = u))) (grants w)\<rparr>"
      "r = (if list_ex (\<lambda>g. g_id g = i \<and> (g_owner g = u \<or> g_grantee g = u)) (grants w) then Inr () else Inl ErrGrantNotFound)"
  using assms unfolding DeleteGrant_def Let_def
proof (rule dbM_first)
  fix bs assume "r = Inl db_err" "w' = w\<lparr>faults := bs\<rparr>"
  then show thesis by (rule that(1))
next
  let ?hit = "\<lambda>g. g_id g = i \<and> (g_owner g = u \<or> g_grantee g = u)"
  fix bs assume "bindM (getM (\<lambda>w. w)) (\<lambda>w. thenM (modM (\<lambda>v. v\<lparr>grants := filter (\<lambda>g. \<not> ?hit g) (grants v)\<rparr>))
         (if \<not> list_ex ?hit (grants w) then raise ErrGrantNotFound else ret ())) (w\<lparr>faults := bs\<rparr>) = (r, w')"
  then show thesis
    by (cases "list_ex ?hit (grants w)") (simp_all add: bindM_getM thenM_modM run_iffs that(2) [of bs])
qed

lemma DeleteGrant_grants:
  assumes run: "DeleteGrant u i w = (r, w')" and ok: "grants_ok w"
  shows "grants_ok w'"
  using run
proof (cases rule: DeleteGrant_run)
  case (1 bs)
  with ok show ?thesis by (auto intro: shares.frame)
next
  case (2 bs)
  then have w': "nodes w' = nodes w" "users w' = users w" "next_id w' = next_id w"
    "grants w' = filter (\<lambda>g. \<not> (g_id g = i \<and> (g_owner g = u \<or> g_grantee g = u))) (grants w)" by simp_all
  show ?thesis using ok unfolding grants_ok_def w' by (auto simp: distinct_map_filter)
qed

end
