(* ===== verification/GrantsSpec.thy ===== *)
theory GrantsSpec
  imports TreeSpec GrantsInv
begin

text \<open>
  Sharing as a whole: runs that mix the calls of the tree with those of \<open>grants.go\<close>, who may see and
  write what in a world they lead to, and two ways in which access differs from what was granted.
\<close>

section \<open>Runs with sharing\<close>

datatype share_cmd =
    DoTree tree_cmd
  | DoCreateGrant nat nat nat string
  | DoUpdateGrant nat nat string
  | DoDeleteGrant nat nat

fun share_call :: "ext \<Rightarrow> share_cmd \<Rightarrow> world \<Rightarrow> world" where
  "share_call x (DoTree c) w = tree_call x c w"
| "share_call x (DoCreateGrant own i gu role) w = snd (CreateGrant own i gu role w)"
| "share_call x (DoUpdateGrant own i role) w = snd (UpdateGrant own i role w)"
| "share_call x (DoDeleteGrant u i) w = snd (DeleteGrant u i w)"

fun share_run :: "ext \<Rightarrow> share_cmd list \<Rightarrow> world \<Rightarrow> world" where
  "share_run x [] w = w"
| "share_run x (c # cs) w = share_run x cs (share_call x c w)"

lemma tree_call_grants: "grants_ok w \<Longrightarrow> grants_ok (tree_call x c w)"
proof (cases c)
  case (DoTick d)
  assume "grants_ok w"
  with DoTick show ?thesis by (auto intro: shares.frame)
next
  case (DoSwitchToManifest v b mf)
  assume "grants_ok w"
  moreover have "keeps grants_ok (SwitchToManifest v b mf)"
    unfolding SwitchToManifest_def Let_def
    by (intro shares.on_modM keeps_intros shares.faultless; simp)
  ultimately show ?thesis using DoSwitchToManifest by (simp add: keeps_snd)
next
  case (DoDeleteBlobRow i)
  assume "grants_ok w"
  moreover have "keeps grants_ok (DeleteBlobRow i)"
    unfolding DeleteBlobRow_def Let_def
    by (intro shares.on_modM keeps_intros shares.faultless; simp)
  ultimately show ?thesis using DoDeleteBlobRow by (simp add: keeps_snd)
qed (simp_all add: keeps_snd shares.on_operations)

lemma share_call_grants: "grants_ok w \<Longrightarrow> grants_ok (share_call x c w)"
  by (cases c) (auto intro: tree_call_grants CreateGrant_grants [OF surjective_pairing]
      UpdateGrant_grants [OF surjective_pairing] DeleteGrant_grants [OF surjective_pairing])

lemma share_run_grants: "grants_ok w \<Longrightarrow> grants_ok (share_run x cs w)"
  by (induction cs arbitrary: w) (auto intro: share_call_grants)

lemma fresh_server_grants: "grants_ok (fresh_server us fs)"
  by (simp add: grants_ok_def fresh_server_def empty_world_def)

text \<open>C18: after any calls of the tree and of the grants, under any failures, every grant has a grantable
  role, is not for the user who made it, and sits on an existing node of that user; a node has at
  most one grant per grantee.\<close>

theorem grants_stay_valid:
  assumes "w = share_run x cs (fresh_server us fs)"
  shows "(\<forall>g \<in> set (grants w). ValidRole (g_role g) \<and> g_role g \<noteq> RoleOwner \<and> g_owner g \<noteq> g_grantee g \<and>
        (\<exists>n \<in> set (nodes w). n_id n = g_node g \<and> n_owner n = g_owner g)) \<and>
    (\<forall>g \<in> set (grants w). \<forall>h \<in> set (grants w). g_node g = g_node h \<and> g_grantee g = g_grantee h \<longrightarrow> g = h)"
proof -
  have ok: "grants_ok w" unfolding assms by (rule share_run_grants [OF fresh_server_grants])
  have "g = h" if "g \<in> set (grants w)" "h \<in> set (grants w)" "g_node g = g_node h" "g_grantee g = g_grantee h" for g h
    using ok that by (auto simp: grants_ok_def distinct_map inj_on_def)
  moreover have "\<forall>g \<in> set (grants w). grant_check g \<and> (\<exists>n \<in> set (nodes w). n_id n = g_node g \<and> n_owner n = g_owner g)"
    using ok by (simp add: grants_ok_def)
  ultimately show ?thesis
    by (auto simp: grant_check_def ValidRole_def GrantableRoles_def RoleViewer_def RoleEditor_def RoleOwner_def)
qed

section \<open>Inheritance\<close>

text \<open>The node itself and the folders above it, by parent pointers.\<close>

inductive lineage :: "node_row list \<Rightarrow> node_row \<Rightarrow> node_row \<Rightarrow> bool" for ns where
  self: "n \<in> set ns \<Longrightarrow> lineage ns n n"
| up: "lineage ns n m \<Longrightarrow> a \<in> set ns \<Longrightarrow> n_parent m = Some (n_id a) \<Longrightarrow> lineage ns n a"

lemma lineage_in: "lineage ns n a \<Longrightarrow> n \<in> set ns \<and> a \<in> set ns"
  by (induction rule: lineage.induct) auto

lemma lineage_below:
  "lineage ns m a \<Longrightarrow> n \<in> set ns \<Longrightarrow> n_parent n = Some (n_id m) \<Longrightarrow> lineage ns n a"
  by (induction rule: lineage.induct) (blast intro: lineage.intros)+

lemma lineage_up:
  assumes inv: "tree_inv x ns"
  shows "lineage ns n a \<Longrightarrow> (a = n \<or> n_path a = ''/'' \<or> prefix (n_path a @ ''/'') (n_path n)) \<and>
    n_owner a = n_owner n \<and> (live n \<longrightarrow> live a)"
proof (induction rule: lineage.induct)
  case (up n m a)
  from lineage_in [OF up.hyps(1)] have m: "m \<in> set ns" by simp
  obtain b nm where b: "b \<in> set ns" "n_id b = n_id a" "n_owner b = n_owner m"
    "n_path m = base (n_path b) @ CHR ''/'' # nm" "nm \<noteq> []" "live m \<Longrightarrow> live b"
    by (rule parentE [OF inv m up.hyps(3)]) blast
  have "b = a" using same_id [of ns b a] inv b up.hyps(2) by (simp add: tree_inv_def)
  with b have a: "n_owner a = n_owner m" "live m \<longrightarrow> live a" "n_path a = ''/'' \<or> prefix (n_path a @ ''/'') (n_path m)"
    and root: "n_path m \<noteq> ''/''"
    by (auto simp: base_def append_eq_Cons_conv split: if_splits)
  from up.IH root have "m = n \<or> prefix (n_path m) (n_path n)" by (auto dest: append_prefixD)
  with a up.IH show ?case by (auto dest: prefix_order.trans)
qed simp

lemma links_longer: "links x m n \<Longrightarrow> length (n_path m) < length (n_path n)"
  by (auto simp: links_def child_path_def JoinPath_base base_def)

lemma no_double_slash:
  assumes inv: "tree_inv x ns"
  shows "n \<in> set ns \<Longrightarrow> \<not> prefix (''/'' @ ''/'') (n_path n)"
proof (induction "length (n_path n)" arbitrary: n rule: less_induct)
  case less
  show ?case
  proof (cases "n_parent n")
    case None
    then show ?thesis using node_okD(3) [OF inv less.prems] by auto
  next
    case (Some p)
    obtain m nm where m: "m \<in> set ns" "n_path n = base (n_path m) @ CHR ''/'' # nm" "CHR ''/'' \<notin> set nm" "links x m n"
      by (rule parentE [OF inv less.prems Some]) blast
    have "\<not> prefix (''/'' @ ''/'') (n_path m)" using less.hyps links_longer [OF m(4)] m(1) by blast
    then have "base (n_path m) \<noteq> ''/''" "\<not> prefix (''/'' @ ''/'') (base (n_path m))"
      by (auto simp: base_def split: if_splits)
    then show ?thesis unfolding m(2) prefix_path [OF m(3)] by simp
  qed
qed

text \<open>A live node's path is covered by a live node of its owner exactly when that is the node itself or a
  folder above it other than the root.\<close>

lemma covers_lineage:
  assumes inv: "tree_inv x ns" and a: "a \<in> set ns" "live a" and n: "n \<in> set ns" "live n" and own: "n_owner a = n_owner n"
  shows "covers (n_path a) (n_path n) \<longleftrightarrow> lineage ns n a \<and> (a = n \<or> n_parent a \<noteq> None)"
proof
  assume c: "covers (n_path a) (n_path n)"
  have ne: "n_path a \<noteq> []" by (rule tree_path_nonempty [OF inv a(1)])
  show "lineage ns n a \<and> (a = n \<or> n_parent a \<noteq> None)"
  proof (cases "n_path n = n_path a")
    case True
    with live_path_inj [OF inv n(1) a(1) n(2) a(2)] own n(1) show ?thesis by (simp add: lineage.self)
  next
    case False
    with c have pre: "prefix (n_path a @ ''/'') (n_path n)" by (simp add: covers_def starts_with_def)
    have "lineage ns k a" if "k \<in> set ns" "live k" "n_owner k = n_owner a" "prefix (n_path a @ ''/'') (n_path k)" for k
      using that
    proof (induction "length (n_path k)" arbitrary: k rule: less_induct)
      case less
      obtain m where m: "m \<in> set ns" "links x m k" "m = a \<or> prefix (n_path a @ ''/'') (n_path m)"
        by (rule live_below [OF inv a less.prems(1,2,3,4) ne])
      have par: "n_parent k = Some (n_id m)" "n_owner m = n_owner k" "live m" using linksD [OF m(2)] less.prems by auto
      from m(3) show ?case
      proof
        assume "m = a"
        with par a(1) lineage.self lineage_below less.prems(1) show ?thesis by metis
      next
        assume pre: "prefix (n_path a @ ''/'') (n_path m)"
        with less.hyps [OF links_longer [OF m(2)] m(1)] par less.prems show ?thesis by (metis lineage_below)
      qed
    qed
    from this [OF n _ pre] own have "lineage ns n a" by simp
    moreover have "n_parent a \<noteq> None"
    proof
      assume "n_parent a = None"
      then have "n_path a = ''/''" using node_okD(3) [OF inv a(1)] by simp
      with pre no_double_slash [OF inv n(1)] show False by simp
    qed
    ultimately show ?thesis by blast
  qed
next
  assume l: "lineage ns n a \<and> (a = n \<or> n_parent a \<noteq> None)"
  then have "a = n \<or> prefix (n_path a @ ''/'') (n_path n)"
  proof (cases "a = n")
    case False
    with l have "n_path a \<noteq> ''/''" using nonroot_path [OF inv a(1)] by blast
    moreover have "a = n \<or> n_path a = ''/'' \<or> prefix (n_path a @ ''/'') (n_path n)"
      using lineage_up [OF inv, of n a] l by simp
    ultimately show ?thesis by simp
  qed simp
  then show "covers (n_path a) (n_path n)" by (auto simp: covers_def starts_with_def)
qed

text \<open>The user has a grant of this role on the node or on a folder above it, the root excepted.\<close>

definition inherited :: "world \<Rightarrow> nat \<Rightarrow> node_row \<Rightarrow> string \<Rightarrow> bool" where
  "inherited w u n role \<longleftrightarrow> (\<exists>g \<in> set (grants w). \<exists>a. lineage (nodes w) n a \<and> (a = n \<or> n_parent a \<noteq> None) \<and>
     g_node g = n_id a \<and> g_grantee g = u \<and> g_role g = role)"

lemma find_by_id:
  assumes "distinct (map n_id ns)" "n \<in> set ns" "Q n"
  shows "find (\<lambda>m. n_id m = n_id n \<and> Q m) ns = Some n"
  using assms(1,2) by (induction ns) (use assms(3) in auto)

lemma node_of_iff: "distinct (map n_id (nodes w)) \<Longrightarrow> node_of w i = Some n \<longleftrightarrow> n \<in> set (nodes w) \<and> n_id n = i"
proof -
  assume d: "distinct (map n_id (nodes w))"
  show ?thesis
  proof
    assume "node_of w i = Some n"
    then show "n \<in> set (nodes w) \<and> n_id n = i" by (auto simp: node_of_def find_Some_iff)
  next
    assume "n \<in> set (nodes w) \<and> n_id n = i"
    with find_by_id [OF d, of n "\<lambda>_. True"] show "node_of w i = Some n" by (auto simp: node_of_def)
  qed
qed

lemma reaching_inherited:
  assumes "tree_ok x w" "grants_ok w" "n \<in> set (nodes w)" "live n"
  shows "(\<exists>g \<in> set (reaching w u (n_owner n) (n_path n)). g_role g = role) \<longleftrightarrow> inherited w u n role"
proof -
  have inv: "tree_inv x (nodes w)" and d: "distinct (map n_id (nodes w))"
    using assms by (auto simp: tree_ok_def tree_inv_def)
  have "(case node_of w (g_node g) of None \<Rightarrow> False
      | Some gn \<Rightarrow> n_owner gn = n_owner n \<and> n_trashed gn = None \<and> covers (n_path gn) (n_path n)) \<longleftrightarrow>
     (\<exists>a. lineage (nodes w) n a \<and> (a = n \<or> n_parent a \<noteq> None) \<and> g_node g = n_id a)" (is "?l \<longleftrightarrow> ?r") for g
  proof
    assume ?l
    then obtain a where "node_of w (g_node g) = Some a" "n_owner a = n_owner n" "live a" "covers (n_path a) (n_path n)"
      by (auto simp: live_def split: option.splits)
    with covers_lineage [OF inv _ _ assms(3,4)] node_of_iff [OF d] show ?r by metis
  next
    assume ?r
    then obtain a where a: "lineage (nodes w) n a" "a = n \<or> n_parent a \<noteq> None" "g_node g = n_id a" by blast
    with lineage_up [OF inv a(1)] lineage_in [OF a(1)] assms(4)
    have "node_of w (g_node g) = Some a" "n_owner a = n_owner n" "live a" "a \<in> set (nodes w)"
      by (simp_all add: node_of_iff [OF d])
    with covers_lineage [OF inv _ _ assms(3,4), of a] a show ?l by (simp add: live_def)
  qed
  then show ?thesis unfolding reaching_def inherited_def by (simp del: split_paired_Ex) blast
qed

text \<open>What \<open>AccessFor\<close> returns when the database answers.\<close>

definition access_of :: "world \<Rightarrow> nat \<Rightarrow> node_row \<Rightarrow> goerr + Access" where
  "access_of w u n =
     (let name = u_name (the (user_of w (n_owner n))) in
      if n_owner n = u then Inr \<lparr>Acc_Role = RoleOwner, Acc_Owner = name, Acc_Shared = False\<rparr>
      else case best_role (reaching w u (n_owner n) (n_path n)) of
             None \<Rightarrow> Inl ErrNotFound
           | Some role \<Rightarrow> Inr \<lparr>Acc_Role = role, Acc_Owner = name, Acc_Shared = True\<rparr>)"

lemma AccessFor_run:
  assumes run: "AccessFor u i w = (r, w')" and ok: "grants_ok w"
  obtains bs where "r = Inl db_err" "w' = w\<lparr>faults := bs\<rparr>"
  | bs where "r = Inl ErrNotFound" "w' = w\<lparr>faults := bs\<rparr>" "\<forall>n \<in> set (nodes w). n_id n = i \<longrightarrow> \<not> live n"
  | bs n where "n \<in> set (nodes w)" "n_id n = i" "live n" "r = access_of w u n" "w' = w\<lparr>faults := bs\<rparr>"
proof -
  from ok have d: "distinct (map n_id (nodes w))" by (simp add: grants_ok_def)
  let ?q = "\<lambda>n. n_id n = i \<and> n_trashed n = None"
  show ?thesis
  proof (cases "find ?q (nodes w)")
    case None
    then have "\<forall>n \<in> set (nodes w). n_id n = i \<longrightarrow> \<not> live n" by (auto simp: find_None_iff live_def)
    with run None that(1,2) show ?thesis
      unfolding AccessFor_def by (auto simp: run_iffs elim!: bindM_cases selectM_run)
  next
    case (Some n)
    then have n: "n \<in> set (nodes w)" "n_id n = i" "live n" by (auto simp: find_Some_iff live_def)
    with ok obtain ow where ow: "user_of w (n_owner n) = Some ow"
      by (fastforce simp: grants_ok_def user_of_def find_None_iff dest: bspec)
    have view: "user_of (w\<lparr>faults := bs\<rparr>) = user_of w" "reaching (w\<lparr>faults := bs\<rparr>) = reaching w" for bs
      by (simp_all add: fun_eq_iff user_of_def reaching_def node_of_def)
    from run Some ow consider bs where "r = Inl db_err" "w' = w\<lparr>faults := bs\<rparr>"
      | bs where "r = access_of w u n" "w' = w\<lparr>faults := bs\<rparr>"
      unfolding AccessFor_def access_of_def
      by (cases "n_owner n = u"; cases "best_role (reaching w u (n_owner n) (n_path n))")
        (auto simp: run_iffs view elim!: bindM_cases selectM_run)
    then show ?thesis using that(1,3) n by metis
  qed
qed

lemma best_role_roles:
  assumes "\<forall>g \<in> set gs. g_role g = ''viewer'' \<or> g_role g = ''editor''"
  shows "best_role gs = (if \<exists>g \<in> set gs. g_role g = ''editor'' then Some ''editor''
     else if \<exists>g \<in> set gs. g_role g = ''viewer'' then Some ''viewer'' else None)"
proof (cases "find (\<lambda>g. g_role g = ''editor'') gs")
  case None
  with assms show ?thesis by (cases gs) (auto simp: best_role_def find_None_iff)
next
  case (Some g)
  then have "g \<in> set gs" "g_role g = ''editor''" by (auto simp: find_Some_iff)
  with Some show ?thesis by (auto simp: best_role_def)
qed

lemma access_of_inherited:
  assumes "tree_ok x w" "grants_ok w" "n \<in> set (nodes w)" "live n"
  shows "access_of w u n =
     (let name = u_name (the (user_of w (n_owner n))) in
      if n_owner n = u then Inr \<lparr>Acc_Role = ''owner'', Acc_Owner = name, Acc_Shared = False\<rparr>
      else if inherited w u n ''editor'' then Inr \<lparr>Acc_Role = ''editor'', Acc_Owner = name, Acc_Shared = True\<rparr>
      else if inherited w u n ''viewer'' then Inr \<lparr>Acc_Role = ''viewer'', Acc_Owner = name, Acc_Shared = True\<rparr>
      else Inl ErrNotFound)"
proof -
  have "\<forall>g \<in> set (reaching w u (n_owner n) (n_path n)). g_role g = ''viewer'' \<or> g_role g = ''editor''"
    using assms(2) by (auto simp: reaching_def grants_ok_def grant_check_def)
  from best_role_roles [OF this] reaching_inherited [OF assms, of u "''editor''"] reaching_inherited [OF assms, of u "''viewer''"]
  show ?thesis by (simp add: access_of_def RoleOwner_def Let_def)
qed


text \<open>A tree with a shared folder: alice (7) shares \<open>/e\<close> with carol (8); \<open>/e/x\<close> is below it.\<close>

definition carol :: user_row where
  "carol = \<lparr>u_id = 8, u_name = ''carol'', u_quota = None\<rparr>"

definition shared_tree :: "string \<Rightarrow> share_cmd list" where
  "shared_tree role = [DoTree (DoEnsureRoot 7), DoTree (DoCreateFolder 7 0 ''e''), DoTree (DoCreateFolder 7 1 ''x''),
     DoCreateGrant 7 1 8 role]"

lemmas grant_eval = CreateGrant_def assertOwnedLive_def upsert_grant_def return_grant_def scanGrant_def grant_check_def
  grant_fks_def ValidRole_def GrantableRoles_def RoleViewer_def RoleEditor_def RoleOwner_def node_of_def user_of_def
  shared_tree_def carol_def

definition shared_world :: world where
  "shared_world = share_run demo_ext (shared_tree ''viewer'') (fresh_server [alice, carol] [])"

definition folder_row :: "nat \<Rightarrow> nat option \<Rightarrow> string \<Rightarrow> string \<Rightarrow> node_row" where
  "folder_row i p nm pth = \<lparr>n_id = i, n_owner = 7, n_parent = p, n_kind = KindFolder, n_name = nm, n_fold = nm,
      n_path = pth, n_head = None, n_trashed = None, n_troot = None, n_created = 0, n_updated = 0\<rparr>"

lemma e_x_path: "JoinPath ''/e'' ''x'' = ''/e/x''"
  by (simp add: JoinPath_def)

lemma shared_world_rows:
  "nodes shared_world = [folder_row 0 None [] ''/'', folder_row 1 (Some 0) ''e'' ''/e'', folder_row 2 (Some 1) ''x'' ''/e/x'']"
  "users shared_world = [alice, carol]" "faults shared_world = []" "next_id shared_world = 4"
  "grants shared_world = [\<lparr>g_id = 3, g_node = 1, g_owner = 7, g_grantee = 8, g_role = ''viewer'', g_created = 0\<rparr>]"
  unfolding shared_world_def
  by (simp_all add: grant_eval eval_set folder_row_def e_x_path cong: run_cong del: set_filter list.set_map)

lemma shared_world_ok: "tree_ok demo_ext shared_world" "grants_ok shared_world"
proof -
  let ?cs = "[DoEnsureRoot 7, DoCreateFolder 7 0 ''e'', DoCreateFolder 7 1 ''x'']"
  let ?w = "tree_run demo_ext ?cs (fresh_server [alice, carol] [])"
  have "nodes ?w = nodes shared_world" "next_id ?w = 3" unfolding shared_world_rows
    by (simp_all add: carol_def eval_set folder_row_def e_x_path cong: run_cong del: set_filter list.set_map)
  moreover have "tree_ok demo_ext ?w" by (rule tree_run_shape [OF fresh_server_ok(1)]) simp
  ultimately show "tree_ok demo_ext shared_world" using shared_world_rows(4) by (auto intro: tree_ok_frame)
  show "grants_ok shared_world"
    unfolding shared_world_def by (rule share_run_grants [OF fresh_server_grants])
qed

theorem grants_stay_valid_witness: "ValidRole (g_role (hd (grants shared_world)))"
  using grants_stay_valid [OF shared_world_def] shared_world_rows(5) by simp

lemma carol_access:
  "AccessFor 8 2 shared_world = (Inr \<lparr>Acc_Role = ''viewer'', Acc_Owner = ''alice'', Acc_Shared = True\<rparr>, shared_world)"
  by (simp add: AccessFor_def db_eval run_eval shared_world_rows folder_row_def grant_eval alice_def reaching_def
      covers_def starts_with_def best_role_def)



lemma AccessFor_now:
  assumes "grants_ok w" "faults w = []" "n \<in> set (nodes w)" "live n"
  shows "fst (AccessFor u (n_id n) w) = access_of w u n"
proof -
  obtain r w' where run: "AccessFor u (n_id n) w = (r, w')" by (cases "AccessFor u (n_id n) w")
  have d: "distinct (map n_id (nodes w))" using assms(1) by (simp add: grants_ok_def)
  have nodb: "r \<noteq> Inl db_err"
    using run assms(2) unfolding AccessFor_def
    by (auto simp: db_eval run_eval ErrNotFound_def db_err_def split: option.splits if_splits)
  from run assms(1) have "r = access_of w u n"
  proof (cases rule: AccessFor_run)
    case (3 bs m)
    with same_id [OF d, of m n] assms(3) show ?thesis by simp
  qed (use nodb assms(3,4) in auto)
  with run show ?thesis by simp
qed

lemma access_of_visible: "VisibleNodes u w n \<longleftrightarrow> (\<exists>acc. access_of w u n = Inr acc)"
  by (cases "reaching w u (n_owner n) (n_path n)")
    (auto simp: VisibleNodes_def access_of_def best_role_def Let_def split: option.splits)

text \<open>The two ways the queries tell whose tree a grant is in agree.\<close>

lemma listing_grants:
  assumes "grants_ok w"
  shows "filter (\<lambda>g. g_grantee g = u \<and> g_owner g = n_owner n \<and>
       (case node_of w (g_node g) of None \<Rightarrow> False
        | Some gn \<Rightarrow> n_trashed gn = None \<and> covers (n_path gn) (n_path n))) (grants w)
    = reaching w u (n_owner n) (n_path n)"
  unfolding reaching_def
proof (rule filter_cong [OF refl])
  fix g assume "g \<in> set (grants w)"
  with assms obtain m where "m \<in> set (nodes w)" "n_id m = g_node g" "n_owner m = g_owner g" "distinct (map n_id (nodes w))"
    by (auto simp: grants_ok_def)
  then have "node_of w (g_node g) = Some m" "n_owner m = g_owner g" by (auto simp: node_of_iff)
  then show "(g_grantee g = u \<and> g_owner g = n_owner n \<and>
       (case node_of w (g_node g) of None \<Rightarrow> False
        | Some gn \<Rightarrow> n_trashed gn = None \<and> covers (n_path gn) (n_path n))) =
    (g_grantee g = u \<and> (case node_of w (g_node g) of None \<Rightarrow> False
      | Some gn \<Rightarrow> n_owner gn = n_owner n \<and> n_trashed gn = None \<and> covers (n_path gn) (n_path n)))"
    by auto
qed

lemma map_of_filtered:
  assumes "distinct (map n_id ns)" "n \<in> set ns"
  shows "map_of (List.map_filter (\<lambda>m. map_option (\<lambda>v. (n_id m, v)) (h m)) (filter q ns)) (n_id n) =
    (if q n then h n else None)"
  using assms
proof (induction ns)
  case (Cons m ns)
  have gone: "map_of (List.map_filter (\<lambda>m. map_option (\<lambda>v. (n_id m, v)) (h m)) (filter q ms)) k = None"
    if "k \<notin> n_id ` set ms" for k ms
    using that by (induction ms) (auto simp: List.map_filter_simps split: option.splits)
  show ?case
  proof (cases "n = m")
    case True
    with Cons.prems show ?thesis by (auto simp: List.map_filter_simps gone split: option.splits)
  next
    case False
    with Cons.prems have "n_id m \<noteq> n_id n" "n \<in> set ns" by auto
    with Cons show ?thesis by (auto simp: List.map_filter_simps split: option.splits)
  qed
qed simp

lemma owner_known: "grants_ok w \<Longrightarrow> n \<in> set (nodes w) \<Longrightarrow> user_of w (n_owner n) \<noteq> None"
  by (cases "user_of w (n_owner n)") (force simp: grants_ok_def user_of_def find_None_iff)+

lemma AccessForNodes_now:
  assumes "grants_ok w" "faults w = []" "set rows \<subseteq> set (nodes w)" "n \<in> set rows"
  obtains am where "AccessForNodes u (map (scanNode w) rows) w = (Inr am, w)"
    "map_of am (n_id n) = (if n_owner n = u then None else case access_of w u n of Inl _ \<Rightarrow> None | Inr acc \<Rightarrow> Some acc)"
proof -
  have d: "distinct (map n_id (nodes w))" using assms(1) by (simp add: grants_ok_def)
  let ?ids = "map N_ID (filter (\<lambda>n. N_OwnerID n \<noteq> u) (map (scanNode w) rows))"
  have n: "n \<in> set (nodes w)" using assms by auto
  have ids: "n_id n \<in> set ?ids \<longleftrightarrow> n_owner n \<noteq> u"
  proof
    assume "n_id n \<in> set ?ids"
    then obtain m where "m \<in> set rows" "n_owner m \<noteq> u" "n_id m = n_id n" by auto
    with same_id [OF d, of m n] assms(3) n show "n_owner n \<noteq> u" by auto
  qed (use assms(4) in force)
  let ?h = "\<lambda>n. case user_of w (n_owner n) of None \<Rightarrow> None | Some ow \<Rightarrow>
      map_option (\<lambda>role. \<lparr>Acc_Role = role, Acc_Owner = u_name ow, Acc_Shared = True\<rparr>)
        (best_role (reaching w u (n_owner n) (n_path n)))"
  let ?am = "List.map_filter (\<lambda>m. map_option (\<lambda>v. (n_id m, v)) (?h m)) (filter (\<lambda>m. n_id m \<in> set ?ids) (nodes w))"
  have body: "(case user_of w (n_owner m) of None \<Rightarrow> None
        | Some ow \<Rightarrow> map_option (\<lambda>role. (n_id m, \<lparr>Acc_Role = role, Acc_Owner = u_name ow, Acc_Shared = True\<rparr>))
            (best_role (reaching w u (n_owner m) (n_path m)))) = map_option (\<lambda>v. (n_id m, v)) (?h m)" for m
    by (simp add: option.map_comp comp_def split: option.split)
  have run: "AccessForNodes u (map (scanNode w) rows) w = (Inr (if ?ids = [] then [] else ?am), w)"
    unfolding AccessForNodes_def Let_def
    by (cases "?ids = []") (simp_all only: simp_thms if_True if_False db_eval(2) [OF assms(2)] ret_def listing_grants [OF assms(1)] body)
  have "user_of w (n_owner n) \<noteq> None" by (rule owner_known [OF assms(1) n])
  then have h: "n_owner n \<noteq> u \<Longrightarrow> ?h n = (case access_of w u n of Inl _ \<Rightarrow> None | Inr acc \<Rightarrow> Some acc)"
    by (auto simp: access_of_def Let_def split: option.splits)
  have "map_of (if ?ids = [] then [] else ?am) (n_id n) = (if n_owner n = u then None else ?h n)"
  proof (cases "?ids = []")
    case True
    then have "n_owner n = u" using ids by simp
    with True show ?thesis by simp
  next
    case False
    with map_of_filtered [OF d n, of ?h "\<lambda>m. n_id m \<in> set ?ids"] ids show ?thesis by simp
  qed
  with that [OF run] h show ?thesis by simp
qed

lemma set_order_by [simp]: "set (order_by le xs) = set xs"
proof (induction xs)
  case (Cons y xs)
  have "set (order_insert le y ys) = insert y (set ys)" for ys
    by (induction ys) auto
  with Cons show ?case by (simp add: order_by_def)
qed (simp add: order_by_def)

lemma find_SomeD: "find P xs = Some y \<Longrightarrow> y \<in> set xs \<and> P y"
  by (auto simp: find_Some_iff)

text \<open>C16: the three places that decide who sees a node agree: the predicate spliced into the listings,
  the question asked for one node, and the question asked for a page of nodes.\<close>

theorem visible_means_access:
  assumes "grants_ok w" and "faults w = []" and "n \<in> set (nodes w)" and "live n"
  shows "(VisibleNodes u w n \<longleftrightarrow> (\<exists>acc. fst (AccessFor u (n_id n) w) = Inr acc)) \<and>
    (\<exists>cs. ListChildrenVisible u p True w = (Inr cs, w) \<and>
       (n_id n \<in> set (map N_ID cs) \<longleftrightarrow> n_parent n = Some p \<and> (\<exists>acc. fst (AccessFor u (n_id n) w) = Inr acc))) \<and>
    (set rows \<subseteq> set (nodes w) \<longrightarrow> n \<in> set rows \<longrightarrow>
       (\<exists>am. AccessForNodes u (map (scanNode w) rows) w = (Inr am, w) \<and>
         map_of am (n_id n) = (if n_owner n = u then None
           else case fst (AccessFor u (n_id n) w) of Inl e \<Rightarrow> None | Inr acc \<Rightarrow> Some acc)))"
proof -
  note acc = AccessFor_now [OF assms, of u]
  have d: "distinct (map n_id (nodes w))" using assms(1) by (simp add: grants_ok_def)
  let ?sel = "filter (\<lambda>n. VisibleNodes u w n \<and> n_parent n = Some p \<and> n_trashed n = None) (nodes w)"
  have list: "ListChildrenVisible u p True w = (Inr (map (scanNode w) (order_by children_le ?sel)), w)"
    using assms(2) by (simp add: ListChildrenVisible_def Visibility_def db_eval)
  have "n_id n \<in> set (map n_id ?sel) \<longleftrightarrow> VisibleNodes u w n \<and> n_parent n = Some p"
  proof
    assume "n_id n \<in> set (map n_id ?sel)"
    then obtain m where "m \<in> set ?sel" "n_id m = n_id n" by auto
    with same_id [OF d, of m n] assms(3) show "VisibleNodes u w n \<and> n_parent n = Some p" by auto
  qed (use assms(3,4) in \<open>auto simp: live_def\<close>)
  moreover have "set (map N_ID (map (scanNode w) (order_by children_le ?sel))) = set (map n_id ?sel)"
    by (simp add: image_image del: set_filter)
  ultimately have mem: "n_id n \<in> set (map N_ID (map (scanNode w) (order_by children_le ?sel))) \<longleftrightarrow>
      n_parent n = Some p \<and> (\<exists>acc. access_of w u n = Inr acc)"
    using access_of_visible [of u w n] by blast
  show ?thesis
    unfolding acc
  proof (intro conjI impI)
    show "VisibleNodes u w n \<longleftrightarrow> (\<exists>acc. access_of w u n = Inr acc)" by (rule access_of_visible)
    show "\<exists>cs. ListChildrenVisible u p True w = (Inr cs, w) \<and>
       (n_id n \<in> set (map N_ID cs) \<longleftrightarrow> n_parent n = Some p \<and> (\<exists>acc. access_of w u n = Inr acc))"
      using list mem by blast
    assume "set rows \<subseteq> set (nodes w)" "n \<in> set rows"
    from AccessForNodes_now [OF assms(1,2) this, of u]
    show "\<exists>am. AccessForNodes u (map (scanNode w) rows) w = (Inr am, w) \<and>
         map_of am (n_id n) = (if n_owner n = u then None
           else case access_of w u n of Inl e \<Rightarrow> None | Inr acc \<Rightarrow> Some acc)" by blast
  qed
qed

theorem visible_means_access_witness:
  "VisibleNodes 8 shared_world (folder_row 2 (Some 1) ''x'' ''/e/x'') \<and>
   (\<exists>acc. fst (AccessFor 8 2 shared_world) = Inr acc)"
  using visible_means_access [OF shared_world_ok(2) shared_world_rows(3), of "folder_row 2 (Some 1) ''x'' ''/e/x''" 8 0 "[]"]
    carol_access
  by (simp add: shared_world_rows folder_row_def live_def)


definition editor_world :: world where
  "editor_world = share_call demo_ext (DoUpdateGrant 7 3 ''editor'') shared_world"

lemma editor_world_ok: "tree_ok demo_ext editor_world" "grants_ok editor_world"
  "nodes editor_world = nodes shared_world" "users editor_world = users shared_world" "faults editor_world = []"
  "grants editor_world = [\<lparr>g_id = 3, g_node = 1, g_owner = 7, g_grantee = 8, g_role = ''editor'', g_created = 0\<rparr>]"
proof -
  show rows: "nodes editor_world = nodes shared_world" "users editor_world = users shared_world" "faults editor_world = []"
    "grants editor_world = [\<lparr>g_id = 3, g_node = 1, g_owner = 7, g_grantee = 8, g_role = ''editor'', g_created = 0\<rparr>]"
    by (simp_all add: editor_world_def UpdateGrant_def shared_world_rows folder_row_def grant_eval alice_def tree_eval
      cong: run_cong)
  have "next_id editor_world = next_id shared_world"
    by (simp add: editor_world_def UpdateGrant_def shared_world_rows folder_row_def grant_eval alice_def tree_eval
      cong: run_cong)
  with rows(1) shared_world_ok(1) show "tree_ok demo_ext editor_world" by (auto intro: tree_ok_frame)
  show "grants_ok editor_world" unfolding editor_world_def by (rule share_call_grants [OF shared_world_ok(2)])
qed


text \<open>Revoking takes effect with the next question: a grant can be deleted by its owner or its grantee,
  after that the grantee is told \<open>ErrNotFound\<close> for every node that only this grant reached, and
  nobody else's access changes.\<close>

theorem revoked_at_once:
  assumes "grants_ok w" and "g \<in> set (grants w)" and "DeleteGrant u (g_id g) w = (Inr (), w')" and "faults w' = []"
    and "n \<in> set (nodes w)" and "live n"
  shows "(u = g_owner g \<or> u = g_grantee g) \<and>
    (reaching w (g_grantee g) (n_owner n) (n_path n) = [g] \<longrightarrow> n_owner n \<noteq> g_grantee g \<longrightarrow>
       fst (AccessFor (g_grantee g) (n_id n) w') = Inl ErrNotFound) \<and>
    (v \<noteq> g_grantee g \<longrightarrow> fst (AccessFor v (n_id n) w') = fst (AccessFor v (n_id n) (w\<lparr>faults := []\<rparr>)))"
proof -
  have ok': "grants_ok w'" by (rule DeleteGrant_grants [OF assms(3,1)])
  have ids: "h = g" if "h \<in> set (grants w)" "g_id h = g_id g" for h
    using assms(1,2) that by (auto simp: grants_ok_def distinct_map inj_on_def)
  from assms(3) have may: "u = g_owner g \<or> u = g_grantee g"
    and gs: "grants w' = filter (\<lambda>h. h \<noteq> g) (grants w)" and fr: "nodes w' = nodes w" "users w' = users w"
  proof (atomize(full), cases rule: DeleteGrant_run)
    case (2 bs)
    then obtain h where "h \<in> set (grants w)" "g_id h = g_id g" "g_owner h = u \<or> g_grantee h = u"
      by (auto simp: list_ex_iff split: if_splits)
    with ids have "u = g_owner g \<or> u = g_grantee g" by auto
    moreover from this have "filter (\<lambda>h. \<not> (g_id h = g_id g \<and> (g_owner h = u \<or> g_grantee h = u))) (grants w)
        = filter (\<lambda>h. h \<noteq> g) (grants w)"
      by (intro filter_cong) (use ids in auto)
    ultimately show "(u = g_owner g \<or> u = g_grantee g) \<and> grants w' = filter (\<lambda>h. h \<noteq> g) (grants w) \<and>
        nodes w' = nodes w \<and> users w' = users w" using 2(1) by simp
  qed simp
  have reach: "reaching w' v' ow p = filter (\<lambda>h. h \<noteq> g) (reaching w v' ow p)" for v' ow p
    by (simp add: reaching_def gs fr node_of_def conj_commute)
  have "n \<in> set (nodes w')" using assms(5) fr by simp
  note acc' = AccessFor_now [OF ok' assms(4) this assms(6)]
  have ok0: "grants_ok (w\<lparr>faults := []\<rparr>)" using assms(1) by (auto intro: shares.frame)
  have acc: "fst (AccessFor v (n_id n) (w\<lparr>faults := []\<rparr>)) = access_of (w\<lparr>faults := []\<rparr>) v n"
    using AccessFor_now [OF ok0] assms(5,6) by simp
  have view: "user_of w' = user_of (w\<lparr>faults := []\<rparr>)" "reaching (w\<lparr>faults := []\<rparr>) = reaching w"
    by (simp_all add: fun_eq_iff user_of_def reaching_def node_of_def fr)
  have "filter (\<lambda>h. h \<noteq> g) (reaching w v (n_owner n) (n_path n)) = reaching w v (n_owner n) (n_path n)" if "v \<noteq> g_grantee g"
    by (rule filter_True) (use that in \<open>auto simp: reaching_def\<close>)
  with may show ?thesis
    by (simp add: acc' acc access_of_def view reach best_role_def Let_def)
qed

theorem revoked_at_once_witness:
  "fst (AccessFor 8 2 (snd (DeleteGrant 8 3 shared_world))) = Inl ErrNotFound"
proof -
  let ?g = "\<lparr>g_id = 3, g_node = 1, g_owner = 7, g_grantee = 8, g_role = ''viewer'', g_created = 0\<rparr> :: grant_row"
  have run: "DeleteGrant 8 (g_id ?g) shared_world = (Inr (), shared_world\<lparr>grants := []\<rparr>)"
    by (simp add: DeleteGrant_def db_eval run_eval shared_world_rows)
  have "fst (AccessFor 8 2 (shared_world\<lparr>grants := []\<rparr>)) = Inl ErrNotFound"
    using revoked_at_once [OF shared_world_ok(2) _ run, of "folder_row 2 (Some 1) ''x'' ''/e/x''"]
    by (simp add: shared_world_rows folder_row_def live_def reaching_def node_of_def covers_def starts_with_def)
  with run show ?thesis by simp
qed

section \<open>Where sharing goes wrong\<close>

text \<open>
  Alice keeps a folder with an accented name, with \<open>x/y\<close> in it, to herself, and shares the unrelated,
  empty folder \<open>/ex\<close> with carol.
\<close>

definition private_tree :: world where
  "private_tree = share_run demo_ext [DoTree (DoEnsureRoot 7), DoTree (DoCreateFolder 7 0 e_acute),
     DoTree (DoCreateFolder 7 1 ''x''), DoTree (DoCreateFolder 7 2 ''y''), DoTree (DoCreateFolder 7 0 ''ex''),
     DoCreateGrant 7 4 8 ''viewer''] (fresh_server [alice, carol] [])"

lemma ex_names: "ValidateName demo_ext ''ex'' = None" "Fold demo_ext ''ex'' = ''ex''"
  "ValidateName demo_ext ''y'' = None" "Fold demo_ext ''y'' = ''y''"
  "JoinPath (CHR ''/'' # CHR 0xC3 # CHR 0xA9 # r) nm = CHR ''/'' # CHR 0xC3 # CHR 0xA9 # r @ CHR ''/'' # nm"
  "pg_substring_from [CHR ''/'', CHR 0xC3, CHR 0xA9, CHR ''/'', CHR ''x'', CHR ''/'', CHR ''y''] 4 = ''x/y''"
  by (code_simp | simp add: JoinPath_def)+

lemma private_tree_rows:
  "nodes private_tree = [folder_row 0 None [] ''/'', folder_row 1 (Some 0) e_acute (CHR ''/'' # e_acute),
     folder_row 2 (Some 1) ''x'' (CHR ''/'' # e_acute @ ''/x''), folder_row 3 (Some 2) ''y'' (CHR ''/'' # e_acute @ ''/x/y''),
     folder_row 4 (Some 0) ''ex'' ''/ex'']"
  "users private_tree = [alice, carol]" "faults private_tree = []" "next_id private_tree = 6" "now private_tree = 0"
  "grants private_tree = [\<lparr>g_id = 5, g_node = 4, g_owner = 7, g_grantee = 8, g_role = ''viewer'', g_created = 0\<rparr>]"
  unfolding private_tree_def
  by (simp_all add: grant_eval eval_set folder_row_def ex_names cong: run_cong del: set_filter list.set_map)

lemmas access_eval = AccessFor_def reaching_def covers_def starts_with_def best_role_def

text \<open>Renaming a folder with an accented name gives others access to what is in it.  Before, carol has no
  access to \<open>y\<close>; after alice renames the accented folder to \<open>e\<close>, the mangled path of \<open>y\<close> is below
  \<open>/ex\<close> and \<open>AccessFor\<close> lets carol in, without any change to the grants.\<close>

theorem rename_leaks_access:
  "let w = share_call demo_ext (DoTree (DoMoveOrRename 7 1 None ''e'')) private_tree
   in fst (AccessFor 8 3 private_tree) = Inl ErrNotFound \<and> grants w = grants private_tree \<and>
      map (\<lambda>n. (n_id n, n_parent n, n_path n)) (filter (\<lambda>n. n_id n = 3) (nodes w)) = [(3, Some 2, ''/ex/y'')] \<and>
      fst (AccessFor 8 3 w) = Inr \<lparr>Acc_Role = ''viewer'', Acc_Owner = ''alice'', Acc_Shared = True\<rparr>"
proof -
  let ?w = "share_call demo_ext (DoTree (DoMoveOrRename 7 1 None ''e'')) private_tree"
  have "fst (AccessFor 8 3 private_tree) = Inl ErrNotFound"
    by (simp add: access_eval private_tree_rows folder_row_def grant_eval alice_def tree_eval cong: run_cong
        del: set_filter list.set_map)
  moreover have "grants ?w = grants private_tree" "users ?w = users private_tree" "faults ?w = []"
    "nodes ?w = [folder_row 0 None [] ''/'', folder_row 1 (Some 0) ''e'' ''/e'', folder_row 2 (Some 1) ''x'' ''/ex'',
       folder_row 3 (Some 2) ''y'' ''/ex/y'', folder_row 4 (Some 0) ''ex'' ''/ex'']"
    by (simp_all add: private_tree_rows folder_row_def ex_names eval_set cong: run_cong del: set_filter list.set_map)
  moreover from this have "fst (AccessFor 8 3 ?w) = Inr \<lparr>Acc_Role = ''viewer'', Acc_Owner = ''alice'', Acc_Shared = True\<rparr>"
    by (simp del: share_call.simps add: access_eval private_tree_rows folder_row_def grant_eval alice_def tree_eval cong: run_cong)
  ultimately show ?thesis
    by (simp del: share_call.simps add: Let_def folder_row_def)
qed

text \<open>A grant on the root folder, which \<open>CreateGrant\<close> accepts, gives access to the root alone and to nothing
  in it.\<close>

theorem root_grant_reaches_nothing:
  "let w = share_run demo_ext [DoTree (DoEnsureRoot 7), DoTree (DoCreateFolder 7 0 ''e''), DoCreateGrant 7 0 8 ''viewer'']
       (fresh_server [alice, carol] [])
   in map g_node (grants w) = [0] \<and>
      fst (AccessFor 8 0 w) = Inr \<lparr>Acc_Role = ''viewer'', Acc_Owner = ''alice'', Acc_Shared = True\<rparr> \<and>
      map (\<lambda>n. (n_id n, n_parent n)) (nodes w) = [(0, None), (1, Some 0)] \<and>
      fst (AccessFor 8 1 w) = Inl ErrNotFound"
  unfolding Let_def
  by (intro conjI; simp add: access_eval grant_eval eval_set cong: run_cong del: set_filter list.set_map)

end
