(* ===== verification/Service.thy ===== *)
theory Service
  imports CasReader Grants
begin

text \<open>
  The service that joins the file tree to the bytes, \<open>server/internal/files/service.go\<close>: uploads in
  one request, opening what was stored, turning a staging file into a file, moving whole-file blobs
  into chunks, and the choice of a content type.  The blob store is the local one, so
  \<open>WarmManifest\<close> returns at once and staging is available.
\<close>

section \<open>Configuration\<close>

text \<open>
  \<open>sv_enqueue\<close> is the optional \<open>Enqueuer\<close>: two calls that return no error.  \<open>sv_type_by_ext\<close> and
  \<open>sv_media_type_ok\<close> are what \<open>mime.TypeByExtension\<close> (a table of the operating system) and
  \<open>mime.ParseMediaType\<close> say.
\<close>

record enqueuer =
  EnqueueExtract :: "nat \<Rightarrow> nat \<Rightarrow> world \<Rightarrow> world"
  EnqueueMedia :: "nat \<Rightarrow> nat \<Rightarrow> world \<Rightarrow> world"

record service =
  sv_cas :: bool
  sv_stager :: bool
  sv_UploadTTL :: int
  sv_enqueue :: "enqueuer option"
  sv_type_by_ext :: "string \<Rightarrow> string"
  sv_media_type_ok :: "string \<Rightarrow> bool"

section \<open>Content types\<close>

definition builtinTypes :: "(string \<times> string) list" where
  "builtinTypes = [
     (''.txt'', ''text/plain; charset=utf-8''), (''.md'', ''text/markdown; charset=utf-8''),
     (''.csv'', ''text/csv; charset=utf-8''), (''.log'', ''text/plain; charset=utf-8''),
     (''.json'', ''application/json''), (''.xml'', ''application/xml''),
     (''.yaml'', ''application/yaml''), (''.yml'', ''application/yaml''),
     (''.pdf'', ''application/pdf''), (''.rtf'', ''application/rtf''),
     (''.zip'', ''application/zip''), (''.gz'', ''application/gzip''),
     (''.tar'', ''application/x-tar''), (''.7z'', ''application/x-7z-compressed''),
     (''.png'', ''image/png''), (''.jpg'', ''image/jpeg''), (''.jpeg'', ''image/jpeg''),
     (''.gif'', ''image/gif''), (''.webp'', ''image/webp''), (''.avif'', ''image/avif''),
     (''.bmp'', ''image/bmp''), (''.ico'', ''image/x-icon''), (''.heic'', ''image/heic''),
     (''.svg'', ''image/svg+xml''), (''.tif'', ''image/tiff''), (''.tiff'', ''image/tiff''),
     (''.mp3'', ''audio/mpeg''), (''.m4a'', ''audio/mp4''), (''.flac'', ''audio/flac''),
     (''.wav'', ''audio/wav''), (''.ogg'', ''audio/ogg''), (''.opus'', ''audio/opus''),
     (''.mp4'', ''video/mp4''), (''.m4v'', ''video/mp4''), (''.mov'', ''video/quicktime''),
     (''.webm'', ''video/webm''), (''.mkv'', ''video/x-matroska''), (''.avi'', ''video/x-msvideo''),
     (''.doc'', ''application/msword''), (''.xls'', ''application/vnd.ms-excel''),
     (''.ppt'', ''application/vnd.ms-powerpoint''),
     (''.docx'', ''application/vnd.openxmlformats-officedocument.wordprocessingml.document''),
     (''.xlsx'', ''application/vnd.openxmlformats-officedocument.spreadsheetml.sheet''),
     (''.pptx'', ''application/vnd.openxmlformats-officedocument.presentationml.presentation''),
     (''.odt'', ''application/vnd.oasis.opendocument.text''),
     (''.ods'', ''application/vnd.oasis.opendocument.spreadsheet''),
     (''.epub'', ''application/epub+zip'')]"

definition octet_stream :: string where
  "octet_stream = ''application/octet-stream''"

definition claimed_type :: "service \<Rightarrow> string \<Rightarrow> string" where
  "claimed_type sv declared =
     (let d = TrimSpace declared in
      if d = [] \<or> d = octet_stream then octet_stream
      else if \<not> sv_media_type_ok sv d then octet_stream
      else d)"

definition DetectMIME :: "service \<Rightarrow> ext \<Rightarrow> string \<Rightarrow> string \<Rightarrow> string" where
  "DetectMIME sv x name declared =
     (let e = ToLower (uni_lower x) (path_Ext name) in
      if e \<noteq> [] then
        (case map_of builtinTypes e of
           Some t \<Rightarrow> t
         | None \<Rightarrow> if sv_type_by_ext sv e \<noteq> [] then sv_type_by_ext sv e else claimed_type sv declared)
      else claimed_type sv declared)"

text \<open>\<open>server/internal/media/media.go\<close>.\<close>

definition mediaType :: "ext \<Rightarrow> string \<Rightarrow> string" where
  "mediaType x contentType =
     (let c = (case IndexByte contentType (CHR '';'') of None \<Rightarrow> contentType | Some i \<Rightarrow> take i contentType)
      in ToLower (uni_lower x) (TrimSpace c))"

definition isImage :: "ext \<Rightarrow> string \<Rightarrow> bool" where
  "isImage x contentType \<longleftrightarrow> mediaType x contentType \<in> {''image/jpeg'', ''image/jpg'', ''image/png'', ''image/gif''}"

definition isVideo :: "ext \<Rightarrow> string \<Rightarrow> bool" where
  "isVideo x contentType \<longleftrightarrow> HasPrefix (mediaType x contentType) ''video/''"

definition IsMedia :: "ext \<Rightarrow> string \<Rightarrow> bool" where
  "IsMedia x contentType \<longleftrightarrow> isImage x contentType \<or> isVideo x contentType"

definition scheduleExtract :: "service \<Rightarrow> ext \<Rightarrow> node \<Rightarrow> (world, unit) m" where
  "scheduleExtract sv x nd =
     (case sv_enqueue sv of
        None \<Rightarrow> ret ()
      | Some q \<Rightarrow>
          if \<not> IsFile nd then ret ()
          else thenM (modM (EnqueueExtract q (N_ID nd) (N_OwnerID nd)))
               (if IsMedia x (N_MIME nd) then modM (EnqueueMedia q (N_ID nd) (N_OwnerID nd)) else ret ()))"

section \<open>Uploads in one request\<close>

definition checkQuotaFor :: "nat \<Rightarrow> int \<Rightarrow> (world, unit) m" where
  "checkQuotaFor ownerID adding = thenM dbM (checkQuota ownerID adding)"

definition dropOrphanManifest :: "write_result \<Rightarrow> (world, unit) m" where
  "dropOrphanManifest res =
     (if wr_ReusedManifest res then ret ()
      else bindM (tryM (DeleteManifestRow (M_ID (wr_Manifest res)))) (\<lambda>_. ret ()))"

definition manifest_input :: "nat \<Rightarrow> nat \<Rightarrow> string \<Rightarrow> write_result \<Rightarrow> string \<Rightarrow> put_file_input" where
  "manifest_input ownerID parentID name res mime =
     \<lparr>pf_OwnerID = ownerID, pf_ParentID = parentID, pf_Name = name, pf_BlobKey = [], pf_SHA256 = [],
      pf_ManifestID = Some (M_ID (wr_Manifest res)), pf_Size = wr_LogicalSize res, pf_MIME = mime\<rparr>"

definition blob_input :: "nat \<Rightarrow> nat \<Rightarrow> string \<Rightarrow> string \<Rightarrow> string \<Rightarrow> int \<Rightarrow> string \<Rightarrow> put_file_input" where
  "blob_input ownerID parentID name key sha sz mime =
     \<lparr>pf_OwnerID = ownerID, pf_ParentID = parentID, pf_Name = name, pf_BlobKey = key, pf_SHA256 = sha,
      pf_ManifestID = None, pf_Size = sz, pf_MIME = mime\<rparr>"

text \<open>A write to the tree whose content is taken back if the write fails.\<close>

definition put_or_undo :: "ext \<Rightarrow> put_file_input \<Rightarrow> (world, unit) m \<Rightarrow> (world, node) m" where
  "put_or_undo x inp undo =
     catchM (PutFile x inp) (\<lambda>e. bindM (tryM undo) (\<lambda>_. raise e))"

definition uploadViaCAS :: "service \<Rightarrow> ext \<Rightarrow> nat \<Rightarrow> nat \<Rightarrow> string \<Rightarrow> reader \<Rightarrow> string \<Rightarrow> (world, node) m" where
  "uploadViaCAS sv x ownerID parentID name r declaredMIME =
     bindM (wrapM ''store content'' (Write x r)) (\<lambda>res.
     bindM (put_or_undo x (manifest_input ownerID parentID name res (DetectMIME sv x name declaredMIME))
              (dropOrphanManifest res)) (\<lambda>nd.
     thenM (scheduleExtract sv x nd) (ret nd)))"

text \<open>
  \<open>early\<close> says that the failure of the reader, if it fails, is \<open>io.ErrUnexpectedEOF\<close>, which is what
  \<open>net/http\<close> reports for a body that ends before its declared length.
\<close>

definition Upload ::
  "service \<Rightarrow> ext \<Rightarrow> nat \<Rightarrow> nat \<Rightarrow> string \<Rightarrow> reader \<Rightarrow> bool \<Rightarrow> string \<Rightarrow> (world, node) m" where
  "Upload sv x ownerID parentID name r early declaredMIME =
     thenM (check_name x name)
     (thenM (checkQuotaFor ownerID 0)
     (let whole = (\<lambda>r.
        bindM (wrapM ''store content'' (fs_Put x r)) (\<lambda>(key, sz, sha).
        bindM (put_or_undo x (blob_input ownerID parentID name key sha sz (DetectMIME sv x name declaredMIME))
                 (fs_Delete key)) (\<lambda>nd.
        thenM (scheduleExtract sv x nd) (ret nd))))
      in if sv_cas sv then
           (if int (length (fst r)) < WholeFileThreshold then
              (if snd r \<and> \<not> early then raise (Wrap ''read upload'' copy_err)
               else whole (fst r, False))
            else uploadViaCAS sv x ownerID parentID name r declaredMIME)
         else whole r))"

section \<open>Opening\<close>

datatype content_reader = WholeContent string | ChunkedContent mreader

definition openNode :: "service \<Rightarrow> node \<Rightarrow> (world, node \<times> content_reader) m" where
  "openNode sv nd =
     (if \<not> IsFile nd then raise ErrNotAFile
      else case N_ManifestID nd of
        Some mid \<Rightarrow>
          (if \<not> sv_cas sv then raise (Msg ''file is content-addressed but CAS is not configured'')
           else bindM (cas_Open mid) (\<lambda>rd. ret (nd, ChunkedContent rd)))
      | None \<Rightarrow>
          (if N_BlobKey nd = [] then raise (Msg ''file has no content'')
           else bindM (tryM (fs_Open (N_BlobKey nd))) (\<lambda>r. case r of
             Inl e \<Rightarrow> (if errors_Is e ErrBlobNotFound then raise (Msg ''content is missing from storage'')
                      else raise e)
           | Inr bs \<Rightarrow> ret (nd, WholeContent bs))))"

definition svc_Open :: "service \<Rightarrow> nat \<Rightarrow> nat \<Rightarrow> (world, node \<times> content_reader) m" where
  "svc_Open sv ownerID i = bindM (GetLive ownerID i) (openNode sv)"

definition OpenVisible :: "service \<Rightarrow> nat \<Rightarrow> nat \<Rightarrow> (world, node \<times> Access \<times> content_reader) m" where
  "OpenVisible sv userID i =
     bindM (GetVisible userID i) (\<lambda>(nd, acc).
     bindM (openNode sv nd) (\<lambda>(n, rc). ret (n, acc, rc)))"

definition OpenVersion :: "service \<Rightarrow> nat \<Rightarrow> nat \<Rightarrow> nat \<Rightarrow> (world, VersionContent \<times> content_reader) m" where
  "OpenVersion sv ownerID nodeID versionID =
     bindM (FindVersionContent ownerID nodeID versionID) (\<lambda>vc.
     case VC_ManifestID vc of
       Some mid \<Rightarrow>
         (if \<not> sv_cas sv then raise (Msg ''version is content-addressed but CAS is not configured'')
          else bindM (cas_Open mid) (\<lambda>rd. ret (vc, ChunkedContent rd)))
     | None \<Rightarrow>
         (if VC_BlobKey vc = [] then raise (Msg ''version has no content'')
          else bindM (tryM (fs_Open (VC_BlobKey vc))) (\<lambda>r. case r of
            Inl e \<Rightarrow> (if errors_Is e ErrBlobNotFound then raise (Msg ''content is missing from storage'')
                     else raise e)
          | Inr bs \<Rightarrow> ret (vc, WholeContent bs))))"

section \<open>Staging files become files\<close>

definition finishStaged ::
  "service \<Rightarrow> ext \<Rightarrow> nat \<Rightarrow> nat \<Rightarrow> string \<Rightarrow> string \<Rightarrow> int \<Rightarrow> string \<Rightarrow> string \<Rightarrow> (world, node) m" where
  "finishStaged sv x ownerID parentID name stagingKey sz sha mime =
     (if \<not> sv_stager sv then raise (Msg ''the configured storage backend does not support staged writes'')
      else if sv_cas sv \<and> sz \<ge> WholeFileThreshold then
        bindM (wrapM ''open staged upload'' (fs_Open stagingKey)) (\<lambda>bs.
        bindM (wrapM ''store content'' (Write x (bs, False))) (\<lambda>res.
        bindM (put_or_undo x (manifest_input ownerID parentID name res mime) (dropOrphanManifest res)) (\<lambda>nd.
        bindM (tryM (fs_RemovePartial stagingKey)) (\<lambda>_. ret nd))))
      else
        bindM (fs_CommitPartial stagingKey) (\<lambda>blobKey.
        put_or_undo x (blob_input ownerID parentID name blobKey sha sz mime) (fs_Delete blobKey)))"

definition FinishStaged ::
  "service \<Rightarrow> ext \<Rightarrow> nat \<Rightarrow> nat \<Rightarrow> string \<Rightarrow> string \<Rightarrow> int \<Rightarrow> string \<Rightarrow> string \<Rightarrow> (world, node) m" where
  "FinishStaged sv x ownerID parentID name stagingKey sz sha mime =
     bindM (finishStaged sv x ownerID parentID name stagingKey sz sha mime) (\<lambda>nd.
     thenM (scheduleExtract sv x nd) (ret nd))"

section \<open>Migration of whole-file blobs\<close>

record MigrateResult =
  MR_VersionsMigrated :: int
  MR_BytesWritten :: int
  MR_Deduped :: int
  MR_Skipped :: int
  MR_Failed :: int

definition migrateOne :: "ext \<Rightarrow> MigratableVersion \<Rightarrow> MigrateResult \<Rightarrow> (world, MigrateResult) m" where
  "migrateOne x v res =
     bindM (tryM (fs_Open (MV_StorageKey v))) (\<lambda>r. case r of
       Inl e \<Rightarrow> (if errors_Is e ErrBlobNotFound then ret (res\<lparr>MR_Failed := MR_Failed res + 1\<rparr>)
                else raise (Wrap ''open blob'' e))
     | Inr bs \<Rightarrow>
         bindM (wrapM ''chunk blob'' (Write x (bs, False))) (\<lambda>wr.
         if wr_LogicalSize wr \<noteq> MV_Size v then
           thenM (dropOrphanManifest wr) (ret (res\<lparr>MR_Failed := MR_Failed res + 1\<rparr>))
         else
           bindM (catchM (SwitchToManifest (MV_VersionID v) (MV_BlobID v) (M_ID (wr_Manifest wr)))
                    (\<lambda>e. thenM (dropOrphanManifest wr) (raise (Wrap ''repoint version'' e)))) (\<lambda>switched.
           if \<not> switched then
             thenM (dropOrphanManifest wr) (ret (res\<lparr>MR_Skipped := MR_Skipped res + 1\<rparr>))
           else ret (res\<lparr>MR_VersionsMigrated := MR_VersionsMigrated res + 1,
                         MR_BytesWritten := MR_BytesWritten res + wr_NewBytes wr,
                         MR_Deduped := MR_Deduped res + (if wr_ReusedManifest wr then 1 else 0)\<rparr>))))"

definition MigrateBlobs :: "service \<Rightarrow> ext \<Rightarrow> nat \<Rightarrow> (world, MigrateResult) m" where
  "MigrateBlobs sv x limit =
     (let res0 = \<lparr>MR_VersionsMigrated = 0, MR_BytesWritten = 0, MR_Deduped = 0, MR_Skipped = 0, MR_Failed = 0\<rparr>
      in if \<not> sv_cas sv then ret res0
         else bindM (wrapM ''list migratable versions'' (MigratableVersions WholeFileThreshold limit)) (\<lambda>candidates.
              foldM (\<lambda>res v. migrateOne x v res) res0 candidates))"

end
