(* ===== verification/Uploads.thy ===== *)
theory Uploads
  imports Service
begin

text \<open>
  Resumable uploads, \<open>server/internal/files/uploads.go\<close> with migration 00004: a session row that is
  the only authority on progress, a staging file, a running hash committed with the offset, and a
  timestamp lock.  A suspended SHA-256 state is the bytes it has taken.
\<close>

section \<open>Sessions\<close>

definition ErrUploadNotFound :: goerr where
  "ErrUploadNotFound = Sentinel ''upload session not found or expired''"
definition ErrOffsetMismatch :: goerr where "ErrOffsetMismatch = Sentinel ''upload offset does not match''"
definition ErrUploadLocked :: goerr where
  "ErrUploadLocked = Sentinel ''another request is writing to this upload''"
definition ErrUploadTooLarge :: goerr where
  "ErrUploadTooLarge = Sentinel ''upload exceeds the declared length''"

record upload_session =
  US_ID :: nat
  US_OwnerID :: nat
  US_ParentID :: nat
  US_Name :: string
  US_MIME :: string
  US_Size :: int
  US_Offset :: int
  US_StagingKey :: string
  US_ExpiresAt :: int
  US_CreatedAt :: int

definition Complete :: "upload_session \<Rightarrow> bool" where
  "Complete u \<longleftrightarrow> US_Offset u \<ge> US_Size u"

definition lockWindow :: int where
  "lockWindow = 2 * 60 * 1000000000"

definition defaultUploadTTL :: int where
  "defaultUploadTTL = 24 * 3600 * 1000000000"

definition scanUpload :: "upload_row \<Rightarrow> upload_session" where
  "scanUpload r = \<lparr>US_ID = up_id r, US_OwnerID = up_owner r, US_ParentID = up_parent r, US_Name = up_name r,
     US_MIME = up_mime r, US_Size = up_size r, US_Offset = up_offset r, US_StagingKey = up_key r,
     US_ExpiresAt = up_expires r, US_CreatedAt = up_created r\<rparr>"

definition restoreHash :: "string option \<Rightarrow> string" where
  "restoreHash state = (case state of None \<Rightarrow> [] | Some s \<Rightarrow> s)"

definition marshalHash :: "string \<Rightarrow> string option" where
  "marshalHash h = Some h"

section \<open>The store\<close>

definition upload_check :: "upload_row \<Rightarrow> bool" where
  "upload_check r \<longleftrightarrow> 0 \<le> up_size r \<and> 0 \<le> up_offset r \<and> up_offset r \<le> up_size r"

definition upload_fks :: "world \<Rightarrow> upload_row \<Rightarrow> bool" where
  "upload_fks w r \<longleftrightarrow> up_owner r \<in> set (map u_id (users w)) \<and> up_parent r \<in> set (map n_id (nodes w))"

text \<open>\<open>UPDATE upload_sessions SET ... WHERE ...\<close>; the result is the rows it touched, as they are now.\<close>

definition update_uploads :: "(world \<Rightarrow> upload_row \<Rightarrow> bool) \<Rightarrow> (world \<Rightarrow> upload_row \<Rightarrow> upload_row) \<Rightarrow>
    (world, upload_row list) m" where
  "update_uploads p f =
     thenM dbM
     (bindM (getM (\<lambda>w. w)) (\<lambda>w.
      let hit = map (f w) (filter (p w) (uploads w))
      in if \<not> list_all upload_check hit then raise check_violation
         else thenM (modM (\<lambda>v. v\<lparr>uploads := map (\<lambda>r. if p w r then f w r else r) (uploads v)\<rparr>)) (ret hit)))"

definition insert_upload :: "nat \<Rightarrow> nat \<Rightarrow> string \<Rightarrow> string \<Rightarrow> int \<Rightarrow> string \<Rightarrow> int \<Rightarrow> (world, upload_session) m" where
  "insert_upload owner parent name mime sz key ttl =
     thenM dbM
     (bindM fresh_id (\<lambda>i.
      bindM (getM (\<lambda>w. w)) (\<lambda>w.
      let row = \<lparr>up_id = i, up_owner = owner, up_parent = parent, up_name = name, up_mime = mime, up_size = sz,
                 up_offset = 0, up_key = key, up_hash = None, up_locked = None, up_created = now w,
                 up_expires = now w + ttl\<rparr>
      in if \<not> upload_check row then raise check_violation
         else if \<not> upload_fks w row then raise fk_violation
         else thenM (modM (\<lambda>v. v\<lparr>uploads := uploads v @ [row]\<rparr>)) (ret (scanUpload row)))))"

definition store_CreateUpload :: "nat \<Rightarrow> nat \<Rightarrow> string \<Rightarrow> string \<Rightarrow> int \<Rightarrow> string \<Rightarrow> int \<Rightarrow> (world, upload_session) m" where
  "store_CreateUpload owner parent name mime sz key ttl =
     thenM (WriteOwnerFor owner parent)
     (bindM (selectM (\<lambda>w. map_option n_kind (find (\<lambda>n. n_id n = parent \<and> n_trashed n = None) (nodes w)))) (\<lambda>k. case k of
        None \<Rightarrow> raise ErrNotFound
      | Some kd \<Rightarrow>
          if kd \<noteq> KindFolder then raise ErrNotAFolder
          else wrapM ''create upload session'' (insert_upload owner parent name mime sz key ttl)))"

definition GetUpload :: "nat \<Rightarrow> nat \<Rightarrow> (world, upload_session) m" where
  "GetUpload ownerID i =
     bindM (selectM (\<lambda>w. find (\<lambda>r. up_id r = i \<and> up_owner r = ownerID \<and> up_expires r > now w) (uploads w))) (\<lambda>r. case r of
       None \<Rightarrow> raise ErrUploadNotFound
     | Some row \<Rightarrow> ret (scanUpload row))"

definition lockable :: "nat \<Rightarrow> nat \<Rightarrow> world \<Rightarrow> upload_row \<Rightarrow> bool" where
  "lockable ownerID i w r \<longleftrightarrow> up_id r = i \<and> up_owner r = ownerID \<and> up_expires r > now w \<and>
     (case up_locked r of None \<Rightarrow> True | Some t \<Rightarrow> t < now w)"

definition LockUpload :: "nat \<Rightarrow> nat \<Rightarrow> (world, upload_session \<times> string) m" where
  "LockUpload ownerID i =
     bindM (update_uploads (lockable ownerID i) (\<lambda>w r. r\<lparr>up_locked := Some (now w + lockWindow)\<rparr>)) (\<lambda>rows. case rows of
       [] \<Rightarrow> bindM (tryM (GetUpload ownerID i)) (\<lambda>g. case g of
               Inr _ \<Rightarrow> raise ErrUploadLocked | Inl _ \<Rightarrow> raise ErrUploadNotFound)
     | row # _ \<Rightarrow> ret (scanUpload row, restoreHash (up_hash row)))"

definition RefreshUploadLock :: "nat \<Rightarrow> (world, unit) m" where
  "RefreshUploadLock i =
     thenM (update_uploads (\<lambda>w r. up_id r = i) (\<lambda>w r. r\<lparr>up_locked := Some (now w + lockWindow)\<rparr>)) (ret ())"

definition CommitUploadProgress :: "nat \<Rightarrow> int \<Rightarrow> string \<Rightarrow> (world, unit) m" where
  "CommitUploadProgress i offset hasher =
     thenM (update_uploads (\<lambda>w r. up_id r = i)
       (\<lambda>w r. r\<lparr>up_offset := offset, up_hash := marshalHash hasher, up_locked := None\<rparr>)) (ret ())"

definition UnlockUpload :: "nat \<Rightarrow> (world, unit) m" where
  "UnlockUpload i = thenM (update_uploads (\<lambda>w r. up_id r = i) (\<lambda>w r. r\<lparr>up_locked := None\<rparr>)) (ret ())"

definition DeleteUpload :: "nat \<Rightarrow> nat \<Rightarrow> (world, unit) m" where
  "DeleteUpload ownerID i =
     thenM dbM
     (bindM (getM (\<lambda>w. w)) (\<lambda>w.
      let hit = (\<lambda>r. up_id r = i \<and> up_owner r = ownerID)
      in thenM (modM (\<lambda>v. v\<lparr>uploads := filter (\<lambda>r. \<not> hit r) (uploads v)\<rparr>))
         (if \<not> list_ex hit (uploads w) then raise ErrUploadNotFound else ret ())))"

definition ExpiredUploads :: "nat \<Rightarrow> (world, (nat \<times> nat \<times> string) list) m" where
  "ExpiredUploads limit =
     selectM (\<lambda>w. map (\<lambda>r. (up_id r, up_owner r, up_key r))
       (take limit (sort_key up_expires (filter (\<lambda>r. up_expires r < now w) (uploads w)))))"

definition AllStagingKeys :: "(world, string list) m" where
  "AllStagingKeys = selectM (\<lambda>w. map up_key (uploads w))"

section \<open>The service\<close>

definition CreateUpload :: "service \<Rightarrow> ext \<Rightarrow> nat \<Rightarrow> nat \<Rightarrow> string \<Rightarrow> int \<Rightarrow> string \<Rightarrow> (world, upload_session) m" where
  "CreateUpload sv x ownerID parentID name sz declaredMIME =
     thenM (check_name x name)
     (if sz < 0 then raise ErrUploadTooLarge
      else
        thenM (checkQuotaFor ownerID sz)
        (bindM fs_CreatePartial (\<lambda>key.
         catchM (store_CreateUpload ownerID parentID name (DetectMIME sv x name declaredMIME) sz key (sv_UploadTTL sv))
           (\<lambda>e. bindM (tryM (fs_RemovePartial key)) (\<lambda>_. raise e)))))"

text \<open>
  What happens around one chunk: the body, how often the lock is refreshed while it arrives (a third
  of the window passes before each refresh) and, on a full disk, how much of the body is taken.
\<close>

record transfer =
  tr_body :: reader
  tr_ticks :: nat
  tr_full :: "(nat \<times> nat) option"

fun refreshLock :: "nat \<Rightarrow> nat \<Rightarrow> (world, unit) m" where
  "refreshLock i 0 = ret ()"
| "refreshLock i (Suc k) =
     thenM (modM (\<lambda>w. w\<lparr>now := now w + lockWindow div 3\<rparr>))
     (bindM (tryM (RefreshUploadLock i)) (\<lambda>r. case r of Inl _ \<Rightarrow> ret () | Inr _ \<Rightarrow> refreshLock i k))"

text \<open>\<open>io.LimitReader\<close>: reading stops, without an error, after \<open>n\<close> bytes.\<close>

definition LimitReader :: "reader \<Rightarrow> int \<Rightarrow> reader" where
  "LimitReader r n =
     (if int (length (fst r)) < n then r else (take (nat n) (fst r), False))"

definition AppendChunk :: "nat \<Rightarrow> nat \<Rightarrow> int \<Rightarrow> transfer \<Rightarrow> (world, upload_session) m" where
  "AppendChunk ownerID i offset tr =
     bindM (LockUpload ownerID i) (\<lambda>(sess, hasher).
     if offset \<noteq> US_Offset sess then
       bindM (tryM (UnlockUpload i)) (\<lambda>_. raise (Wrap ''server is elsewhere'' ErrOffsetMismatch))
     else
       (let remaining = US_Size sess - US_Offset sess;
            limited = LimitReader (tr_body tr) (remaining + 1)
        in thenM (refreshLock i (tr_ticks tr))
           (bindM (fs_AppendPartial (US_StagingKey sess) (US_Offset sess) hasher limited (tr_full tr))
             (\<lambda>(written, hasher', copyErr).
              if written > remaining then bindM (tryM (UnlockUpload i)) (\<lambda>_. raise ErrUploadTooLarge)
              else
                (let newOffset = US_Offset sess + written in
                 thenM (CommitUploadProgress i newOffset hasher')
                 (ret (sess\<lparr>US_Offset := newOffset\<rparr>)))))))"

definition FinishUpload :: "service \<Rightarrow> ext \<Rightarrow> nat \<Rightarrow> nat \<Rightarrow> (world, node) m" where
  "FinishUpload sv x ownerID i =
     bindM (LockUpload ownerID i) (\<lambda>(sess, hasher).
     if \<not> Complete sess then
       bindM (tryM (UnlockUpload i)) (\<lambda>_. raise (Wrap ''bytes received'' ErrOffsetMismatch))
     else
       bindM (wrapM ''stat staged upload'' (fs_StatPartial (US_StagingKey sess))) (\<lambda>onDisk.
       if onDisk \<noteq> US_Size sess then raise (Msg ''staged upload has another size'')
       else
         bindM (WriteOwnerFor (US_OwnerID sess) (US_ParentID sess)) (\<lambda>fileOwner.
         bindM (FinishStaged sv x fileOwner (US_ParentID sess) (US_Name sess) (US_StagingKey sess)
                  (US_Size sess) (sha256 x hasher) (US_MIME sess)) (\<lambda>nd.
         bindM (tryM (DeleteUpload ownerID i)) (\<lambda>_. ret nd)))))"

definition CancelUpload :: "nat \<Rightarrow> nat \<Rightarrow> (world, unit) m" where
  "CancelUpload ownerID i =
     bindM (GetUpload ownerID i) (\<lambda>sess.
     thenM (DeleteUpload ownerID i)
     (bindM (tryM (fs_RemovePartial (US_StagingKey sess))) (\<lambda>_. ret ())))"

section \<open>Reclaiming abandoned uploads\<close>

definition staged_keys :: "world \<Rightarrow> string list" where
  "staged_keys w = filter (\<lambda>k. HasPrefix k (stagingDir @ ''/'') \<and> CHR ''/'' \<notin> set (drop (length stagingDir + 1) k))
     (map fst (disk w))"

definition fs_WalkStaging :: "(string \<Rightarrow> 'a \<Rightarrow> 'a) \<Rightarrow> 'a \<Rightarrow> (world, 'a) m" where
  "fs_WalkStaging f a =
     thenM (ioM (Io ''read staging directory''))
     (bindM (getM staged_keys) (\<lambda>ks. foldM (\<lambda>a k. thenM (ioM (Io ''stat staging file'')) (ret (f k a))) a ks))"

definition collectExpiredUploads :: "service \<Rightarrow> (world, int \<times> int) m" where
  "collectExpiredUploads sv =
     (if \<not> sv_stager sv then ret (0, 0)
      else
        bindM (wrapM ''list expired uploads'' (ExpiredUploads 500)) (\<lambda>sessions.
        bindM (foldM (\<lambda>n (i, ow, key). bindM (tryM (DeleteUpload ow i)) (\<lambda>r. case r of
                 Inl _ \<Rightarrow> ret n | Inr _ \<Rightarrow> ret (n + 1))) 0 sessions) (\<lambda>expired.
        bindM (wrapM ''list staging keys'' AllStagingKeys) (\<lambda>known.
        bindM (wrapM ''walk staging area'' (fs_WalkStaging (\<lambda>k ks. if k \<notin> set known then ks @ [k] else ks) [])) (\<lambda>orphans.
        bindM (foldM (\<lambda>n k. bindM (tryM (fs_RemovePartial k)) (\<lambda>r. case r of
                 Inl _ \<Rightarrow> ret n | Inr _ \<Rightarrow> ret (n + 1))) 0 orphans) (\<lambda>swept.
        ret (expired, swept)))))))"

end
