(* ===== verification/UploadsInv.thy ===== *)
theory UploadsInv
  imports Uploads GrantsInv
begin

text \<open>
  What the statements and the append of a resumable upload leave behind, one run at a time, and the
  invariant that a session's row, its staging file and its suspended hash describe the same bytes.
\<close>

section \<open>Runs\<close>

lemma update_uploads_run:
  assumes "update_uploads p f w = (r, w')"
  obtains bs e where "r = Inl e" "w' = w\<lparr>faults := bs\<rparr>"
  | bs where "r = Inr (map (f (w\<lparr>faults := bs\<rparr>)) (filter (p (w\<lparr>faults := bs\<rparr>)) (uploads w)))"
      "w' = w\<lparr>faults := bs, uploads := map (\<lambda>r. if p (w\<lparr>faults := bs\<rparr>) r then f (w\<lparr>faults := bs\<rparr>) r else r) (uploads w)\<rparr>"
      "\<forall>r \<in> set (uploads w). p (w\<lparr>faults := bs\<rparr>) r \<longrightarrow> upload_check (f (w\<lparr>faults := bs\<rparr>) r)"
  using assms unfolding update_uploads_def Let_def
proof (rule dbM_first)
  fix bs assume "r = Inl db_err" "w' = w\<lparr>faults := bs\<rparr>"
  then show thesis by (rule that(1))
next
  fix bs
  let ?w = "w\<lparr>faults := bs\<rparr>"
  assume run: "bindM (getM (\<lambda>w. w)) (\<lambda>w. if \<not> list_all upload_check (map (f w) (filter (p w) (uploads w))) then raise check_violation
         else thenM (modM (\<lambda>v. v\<lparr>uploads := map (\<lambda>r. if p w r then f w r else r) (uploads v)\<rparr>))
           (ret (map (f w) (filter (p w) (uploads w))))) ?w = (r, w')"
  show thesis
  proof (cases "list_all upload_check (map (f ?w) (filter (p ?w) (uploads w)))")
    case True
    then have ok: "\<forall>r \<in> set (uploads w). p ?w r \<longrightarrow> upload_check (f ?w r)" by (auto simp: list_all_iff)
    from run True have "r = Inr (map (f ?w) (filter (p ?w) (uploads w)))"
      "w' = w\<lparr>faults := bs, uploads := map (\<lambda>r. if p ?w r then f ?w r else r) (uploads w)\<rparr>"
      by (simp_all add: bindM_getM thenM_modM run_iffs)
    from that(2) [OF this ok] show thesis .
  next
    case False
    with run have "r = Inl check_violation" "w' = ?w"
      by (simp_all add: bindM_getM run_iffs)
    from that(1) [OF this] show thesis .
  qed
qed

section \<open>The invariant\<close>

text \<open>The bytes a session stands for: as many of its staging file as its row accounts for.\<close>

definition received :: "world \<Rightarrow> upload_row \<Rightarrow> string" where
  "received w r = (case dget w (up_key r) of None \<Rightarrow> [] | Some bs \<Rightarrow> take (nat (up_offset r)) bs)"

definition upload_ok :: "world \<Rightarrow> upload_row \<Rightarrow> bool" where
  "upload_ok w r \<longleftrightarrow> upload_check r \<and> goodKey (up_key r) \<and> restoreHash (up_hash r) = received w r \<and>
     (\<exists>bs. dget w (up_key r) = Some bs \<and> nat (up_offset r) \<le> length bs)"

definition uploads_ok :: "world \<Rightarrow> bool" where
  "uploads_ok w \<longleftrightarrow> distinct (map up_id (uploads w)) \<and> distinct (map up_key (uploads w)) \<and>
     (\<forall>r \<in> set (uploads w). up_id r < next_id w \<and> upload_ok w r)"

lemma received_locked [simp]: "received w (r\<lparr>up_locked := t\<rparr>) = received w r"
  by (simp add: received_def split: option.splits)

lemma upload_ok_locked [simp]: "upload_ok w (r\<lparr>up_locked := t\<rparr>) = upload_ok w r"
  by (simp add: upload_ok_def upload_check_def)

lemma received_frame: "dget w' (up_key r) = dget w (up_key r) \<Longrightarrow> received w' r = received w r"
  by (simp add: received_def)

lemma uploads_ok_frame:
  "uploads_ok w \<Longrightarrow> uploads w' = uploads w \<Longrightarrow> dget w' = dget w \<Longrightarrow> next_id w \<le> next_id w' \<Longrightarrow> uploads_ok w'"
  by (auto simp: uploads_ok_def upload_ok_def received_def)

lemma uploads_ok_fault_free [simp]: "fault_free uploads_ok"
  by (auto simp: fault_free_def dget_def [abs_def] intro: uploads_ok_frame)

text \<open>Locking, unlocking and refreshing leave progress alone.\<close>

definition same_progress :: "world \<Rightarrow> world \<Rightarrow> bool" where
  "same_progress w w' \<longleftrightarrow> (\<exists>f. uploads w' = map (\<lambda>r. r\<lparr>up_locked := f r\<rparr>) (uploads w)) \<and> dget w' = dget w \<and>
     next_id w' = next_id w"

lemma same_progress_refl: "uploads w' = uploads w \<Longrightarrow> dget w' = dget w \<Longrightarrow> next_id w' = next_id w \<Longrightarrow> same_progress w w'"
  by (auto simp: same_progress_def intro!: exI [of _ up_locked] map_idI [symmetric])

lemma same_progress_trans: "same_progress a b \<Longrightarrow> same_progress b c \<Longrightarrow> same_progress a c"
  by (fastforce simp: same_progress_def)

lemma upload_ok_frame: "dget w' = dget w \<Longrightarrow> upload_ok w' r = upload_ok w r"
  by (simp add: upload_ok_def received_def)

lemma same_progress_ok:
  assumes "same_progress w w'" "uploads_ok w"
  shows "uploads_ok w'"
proof -
  obtain f where f: "uploads w' = map (\<lambda>r. r\<lparr>up_locked := f r\<rparr>) (uploads w)" "dget w' = dget w" "next_id w' = next_id w"
    using assms(1) by (auto simp: same_progress_def)
  have "map up_id (uploads w') = map up_id (uploads w)" "map up_key (uploads w') = map up_key (uploads w)"
    by (simp_all add: f(1))
  moreover have "up_id r < next_id w' \<and> upload_ok w' r" if "r \<in> set (uploads w')" for r
    using that assms(2) upload_ok_frame [OF f(2)] by (auto simp: f(1,3) uploads_ok_def)
  ultimately show ?thesis using assms(2) by (simp add: uploads_ok_def)
qed

lemma update_locks:
  assumes "update_uploads p (\<lambda>w r. r\<lparr>up_locked := g w r\<rparr>) w = (r, w')"
  shows "same_progress w w'"
  using assms
proof (cases rule: update_uploads_run)
  case (2 bs)
  then show ?thesis
    by (auto simp: same_progress_def dget_def [abs_def]
        intro!: exI [of _ "\<lambda>r. if p (w\<lparr>faults := bs\<rparr>) r then g (w\<lparr>faults := bs\<rparr>) r else up_locked r"])
qed (auto intro: same_progress_refl simp: dget_def [abs_def])

lemma onlyM: "thenM c (ret ()) w = (r, w') \<Longrightarrow> \<exists>q. c w = (q, w')"
  by (auto simp: run_iffs elim!: thenM_cases)

lemma lock_statements:
  "UnlockUpload i w = (r, w') \<Longrightarrow> same_progress w w'" "RefreshUploadLock i w = (r, w') \<Longrightarrow> same_progress w w'"
  unfolding UnlockUpload_def RefreshUploadLock_def
  by (drule onlyM, elim exE, rule update_locks, assumption)+

lemma refreshLock_run: "refreshLock i k w = (r, w') \<Longrightarrow> same_progress w w' \<and> r = Inr ()"
proof (induction k arbitrary: w)
  case 0
  then show ?case by (simp add: run_iffs same_progress_refl)
next
  case (Suc k)
  have t: "same_progress w (w\<lparr>now := now w + lockWindow div 3\<rparr>)"
    by (rule same_progress_refl) (simp_all add: dget_def [abs_def])
  from Suc.prems obtain q w1 where 1: "RefreshUploadLock i (w\<lparr>now := now w + lockWindow div 3\<rparr>) = (q, w1)"
    and 2: "(case q of Inl _ \<Rightarrow> ret () | Inr _ \<Rightarrow> refreshLock i k) w1 = (r, w')"
    by (auto simp: thenM_modM elim!: bindM_cases tryM_run)
  have "same_progress w w1" using same_progress_trans [OF t lock_statements(2) [OF 1]] .
  moreover have "same_progress w1 w' \<and> r = Inr ()"
    using 2 Suc.IH by (cases q) (auto simp: run_iffs intro: same_progress_refl)
  ultimately show ?case using same_progress_trans by blast
qed

lemma LockUpload_run:
  assumes "LockUpload own i w = (r, w')" and ok: "uploads_ok w"
  shows "same_progress w w'" and "r = Inr (sess, h) \<Longrightarrow> \<exists>row \<in> set (uploads w). up_id row = i \<and> up_owner row = own \<and>
      sess = scanUpload row \<and> h = restoreHash (up_hash row)"
proof -
  from assms(1) obtain q w1 where 1: "update_uploads (lockable own i) (\<lambda>w r. r\<lparr>up_locked := Some (now w + lockWindow)\<rparr>) w = (q, w1)"
    and 2: "(case q of Inl e \<Rightarrow> raise e | Inr rows \<Rightarrow> (case rows of
       [] \<Rightarrow> bindM (tryM (GetUpload own i)) (\<lambda>g. case g of
               Inr _ \<Rightarrow> raise ErrUploadLocked | Inl _ \<Rightarrow> raise ErrUploadNotFound)
     | row # _ \<Rightarrow> ret (scanUpload row, restoreHash (up_hash row)))) w1 = (r, w')"
    unfolding LockUpload_def by (auto simp: run_iffs elim!: bindM_cases split: sum.splits)
  have prog: "same_progress w w1" by (rule update_locks [OF 1])
  have get: "\<exists>bs. v' = v\<lparr>faults := bs\<rparr>" if "GetUpload own i v = (g, v')" for g v v'
    using that unfolding GetUpload_def
    by (auto simp: run_iffs split: option.splits elim!: bindM_cases selectM_run)
  have same: "same_progress w1 w'"
    using 2 by (auto simp: run_iffs dget_def [abs_def] split: list.splits sum.splits
        elim!: bindM_cases tryM_run dest!: get intro!: same_progress_refl)
  show "same_progress w w'" using same_progress_trans [OF prog same] .
  assume r: "r = Inr (sess, h)"
  from 1 show "\<exists>row \<in> set (uploads w). up_id row = i \<and> up_owner row = own \<and>
      sess = scanUpload row \<and> h = restoreHash (up_hash row)"
  proof (cases rule: update_uploads_run)
    case (2 bs)
    let ?hit = "filter (lockable own i (w\<lparr>faults := bs\<rparr>)) (uploads w)"
    show ?thesis
    proof (cases ?hit)
      case Nil
      with \<open>(case q of Inl e \<Rightarrow> _ e | Inr rows \<Rightarrow> _ rows) w1 = (r, w')\<close> 2 r show ?thesis
        by (auto simp: run_iffs elim!: bindM_cases split: sum.splits)
    next
      case (Cons row rest)
      then have "row \<in> set ?hit" by simp
      then have row: "row \<in> set (uploads w)" "up_id row = i" "up_owner row = own" by (simp_all add: lockable_def)
      with \<open>(case q of Inl e \<Rightarrow> _ e | Inr rows \<Rightarrow> _ rows) w1 = (r, w')\<close> 2 r Cons
      show ?thesis by (intro bexI [of _ row]) (auto simp: run_iffs scanUpload_def)
    qed
  next
    case (1 bs e)
    with \<open>(case q of Inl e \<Rightarrow> _ e | Inr rows \<Rightarrow> _ rows) w1 = (r, w')\<close> r show ?thesis by (simp add: run_iffs)
  qed
qed

text \<open>What an append left in the staging file, and what it says it did.\<close>

definition rows_kept :: "world \<Rightarrow> world \<Rightarrow> bool" where
  "rows_kept w w' \<longleftrightarrow> uploads w' = uploads w \<and> next_id w' = next_id w"

lemma ioM_kept: "ioM e w = (q, w') \<Longrightarrow> dget w' = dget w \<and> rows_kept w w' \<and> (q = Inr () \<or> q = Inl e)"
  by (auto simp: ioM_def rows_kept_def dget_def [abs_def] split: list.splits)

lemma rows_kept_trans: "rows_kept a b \<Longrightarrow> rows_kept b c \<Longrightarrow> rows_kept a c"
  by (simp add: rows_kept_def)

lemma rows_kept_dput [simp]: "rows_kept w (dput k v w)"
  by (simp add: rows_kept_def)

definition truncated :: "string \<Rightarrow> int \<Rightarrow> (world, string \<times> string) m" where
  "truncated key off = bindM (pathFor key) (\<lambda>path.
        bindM (getM (\<lambda>w. dget w path)) (\<lambda>d. case d of
          None \<Rightarrow> raise ErrBlobNotFound
        | Some bs \<Rightarrow>
            thenM (ioM (Io ''open''))
            (thenM (guardM (0 \<le> off) (Io ''truncate staging file''))
            (thenM (ioM (Io ''truncate staging file''))
            (thenM (modM (dput path (truncate_to (nat off) bs)))
            (thenM (ioM (Io ''seek''))
            (ret (path, truncate_to (nat off) bs))))))))"

lemma truncated_run:
  assumes "truncated key off w = (q, w')"
  shows "rows_kept w w' \<and> (dget w' = dget w \<or> (\<exists>bs. dget w key = Some bs \<and> dget w' = (dget w)(key \<mapsto> truncate_to (nat off) bs)))"
    and "q = Inr (path, left) \<Longrightarrow> path = key \<and> 0 \<le> off \<and> (\<exists>bs. dget w key = Some bs \<and> left = truncate_to (nat off) bs \<and>
      dget w' = (dget w)(key \<mapsto> left))"
  using assms unfolding truncated_def
  by (auto simp: pathFor_good_iff run_iffs rows_kept_def elim!: bindM_cases thenM_cases
        split: if_splits option.splits dest!: ioM_kept)

lemma fs_AppendPartial_eq: "fs_AppendPartial key off h r None =
   bindM (tryM (truncated key off)) (\<lambda>opened. case opened of
       Inl e \<Rightarrow> ret (0, h, Some e)
     | Inr (path, bs) \<Rightarrow>
         thenM (modM (dput path (bs @ fst r)))
             (bindM (tryM (ioM (Io ''sync staging file''))) (\<lambda>synced. case synced of
                Inl e \<Rightarrow> ret (0, h @ fst r, Some e)
              | Inr _ \<Rightarrow> ret (int (length (fst r)), h @ fst r, if snd r then Some copy_err else None))))"
  by (simp add: fs_AppendPartial_def truncated_def Let_def cong: if_cong)

lemma fs_AppendPartial_run:
  assumes "fs_AppendPartial key off h r None w = (q, w')"
  shows "rows_kept w w'" and "\<exists>n h' e. q = Inr (n, h', e) \<and>
    (n = 0 \<and> h' = h \<and> (dget w' = dget w \<or> (\<exists>bs. dget w key = Some bs \<and> dget w' = (dget w)(key \<mapsto> truncate_to (nat off) bs))) \<or>
     0 \<le> off \<and> (\<exists>bs. dget w key = Some bs \<and> dget w' = (dget w)(key \<mapsto> truncate_to (nat off) bs @ fst r)) \<and>
       h' = h @ fst r \<and> (n = int (length (fst r)) \<or> n = 0))"
proof -
  from assms obtain o1 w1 where 1: "truncated key off w = (o1, w1)"
    and 2: "(case o1 of Inl e \<Rightarrow> ret (0, h, Some e)
     | Inr (path, bs) \<Rightarrow>
         thenM (modM (dput path (bs @ fst r)))
             (bindM (tryM (ioM (Io ''sync staging file''))) (\<lambda>synced. case synced of
                Inl e \<Rightarrow> ret (0, h @ fst r, Some e)
              | Inr _ \<Rightarrow> ret (int (length (fst r)), h @ fst r, if snd r then Some copy_err else None)))) w1 = (q, w')"
    unfolding fs_AppendPartial_eq by (auto elim!: bindM_cases tryM_run)
  have "rows_kept w w' \<and> (\<exists>n h' e. q = Inr (n, h', e) \<and>
    (n = 0 \<and> h' = h \<and> (dget w' = dget w \<or> (\<exists>bs. dget w key = Some bs \<and> dget w' = (dget w)(key \<mapsto> truncate_to (nat off) bs))) \<or>
     0 \<le> off \<and> (\<exists>bs. dget w key = Some bs \<and> dget w' = (dget w)(key \<mapsto> truncate_to (nat off) bs @ fst r)) \<and>
       h' = h @ fst r \<and> (n = int (length (fst r)) \<or> n = 0)))"
  proof (cases o1)
    case (Inl e)
    with 2 truncated_run(1) [OF 1] show ?thesis by (auto simp: run_iffs)
  next
    case (Inr pb)
    obtain path left where pb: "pb = (path, left)" by (cases pb)
    from truncated_run(2) [OF 1, of path left] Inr pb obtain bs where t: "path = key" "0 \<le> off" "dget w key = Some bs"
      "left = truncate_to (nat off) bs" "dget w1 = (dget w)(key \<mapsto> left)" by auto
    from 2 Inr pb obtain s w2 where s: "ioM (Io ''sync staging file'') (dput path (left @ fst r) w1) = (s, w2)"
      "(case s of Inl e \<Rightarrow> ret (0, h @ fst r, Some e)
          | Inr _ \<Rightarrow> ret (int (length (fst r)), h @ fst r, if snd r then Some copy_err else None)) w2 = (q, w')"
      by (auto simp: thenM_modM elim!: bindM_cases tryM_run)
    from ioM_kept [OF s(1)] s(2) have "w2 = w'" "dget w' = (dget w1)(key \<mapsto> left @ fst r)" "rows_kept w1 w'"
      "q = Inr (0, h @ fst r, Some (Io ''sync staging file'')) \<or>
       q = Inr (int (length (fst r)), h @ fst r, if snd r then Some copy_err else None)"
      by (auto simp: run_iffs t(1) rows_kept_def split: sum.splits)
    with t truncated_run(1) [OF 1] show ?thesis by (auto intro: rows_kept_trans)
  qed
  then show "rows_kept w w'" and "\<exists>n h' e. q = Inr (n, h', e) \<and>
    (n = 0 \<and> h' = h \<and> (dget w' = dget w \<or> (\<exists>bs. dget w key = Some bs \<and> dget w' = (dget w)(key \<mapsto> truncate_to (nat off) bs))) \<or>
     0 \<le> off \<and> (\<exists>bs. dget w key = Some bs \<and> dget w' = (dget w)(key \<mapsto> truncate_to (nat off) bs @ fst r)) \<and>
       h' = h @ fst r \<and> (n = int (length (fst r)) \<or> n = 0))" by auto
qed

text \<open>Every session is still there; \<open>i\<close> has received \<open>news\<close> as new bytes and the others the same as before.\<close>

definition advances :: "world \<Rightarrow> world \<Rightarrow> nat \<Rightarrow> string \<Rightarrow> bool" where
  "advances w w' i news \<longleftrightarrow> (\<exists>f. uploads w' = map f (uploads w) \<and> (\<forall>r \<in> set (uploads w). up_id (f r) = up_id r \<and>
     up_key (f r) = up_key r \<and> up_size (f r) = up_size r \<and> up_owner (f r) = up_owner r \<and>
     received w' (f r) = received w r @ (if up_id r = i then news else [])))"

lemma same_progress_advances: "same_progress w w' \<Longrightarrow> advances w w' i []"
  unfolding same_progress_def advances_def by (force intro: received_frame)

lemma advances_any: "advances w w' i [] \<Longrightarrow> advances w w' j []"
  by (simp add: advances_def)

lemma advances_trans: "advances a b i [] \<Longrightarrow> advances b c i news \<Longrightarrow> advances a c i news"
proof -
  assume ab: "advances a b i []" and bc: "advances b c i news"
  from ab obtain f where f: "uploads b = map f (uploads a)" "\<forall>r \<in> set (uploads a). up_id (f r) = up_id r \<and>
     up_key (f r) = up_key r \<and> up_size (f r) = up_size r \<and> up_owner (f r) = up_owner r \<and> received b (f r) = received a r"
    unfolding advances_def by auto
  from bc obtain g where g: "uploads c = map g (uploads b)" "\<forall>r \<in> set (uploads b). up_id (g r) = up_id r \<and>
     up_key (g r) = up_key r \<and> up_size (g r) = up_size r \<and> up_owner (g r) = up_owner r \<and>
     received c (g r) = received b r @ (if up_id r = i then news else [])"
    unfolding advances_def by auto
  have "uploads c = map (g \<circ> f) (uploads a)" by (simp add: f(1) g(1))
  moreover have "\<forall>r \<in> set (uploads a). up_id ((g \<circ> f) r) = up_id r \<and>
     up_key ((g \<circ> f) r) = up_key r \<and> up_size ((g \<circ> f) r) = up_size r \<and> up_owner ((g \<circ> f) r) = up_owner r \<and>
     received c ((g \<circ> f) r) = received a r @ (if up_id r = i then news else [])"
    using f g by (simp add: f(1))
  ultimately show ?thesis unfolding advances_def by blast
qed

lemma nat_off: "upload_check r \<Longrightarrow> int (nat (up_offset r)) = up_offset r"
  by (simp add: upload_check_def)

text \<open>Writing behind the accounted part of a staging file.\<close>

lemma staged_write:
  assumes ok: "uploads_ok w" and row: "row \<in> set (uploads w)" and kept: "rows_kept w w'"
    and d: "dget w (up_key row) = Some bs" "dget w' = (dget w)(up_key row \<mapsto> truncate_to (nat (up_offset row)) bs @ news)"
  shows "uploads_ok w'" "advances w w' i []" "dget w' (up_key row) = Some (received w row @ news)"
proof -
  have off: "nat (up_offset row) \<le> length bs" using ok row d(1) by (auto simp: uploads_ok_def upload_ok_def)
  then have tr: "truncate_to (nat (up_offset row)) bs = take (nat (up_offset row)) bs" by (simp add: truncate_to_def)
  then show own: "dget w' (up_key row) = Some (received w row @ news)" using d by (simp add: received_def)
  have rec: "received w' r = received w r \<and> upload_ok w' r" if r: "r \<in> set (uploads w)" for r
  proof (cases "r = row")
    case True
    with ok row d off tr show ?thesis by (auto simp: uploads_ok_def upload_ok_def received_def)
  next
    case False
    then have "up_key r \<noteq> up_key row" using ok row r by (auto simp: uploads_ok_def distinct_map inj_on_def)
    then have "dget w' (up_key r) = dget w (up_key r)" using d(2) by simp
    with ok r show ?thesis by (auto simp: uploads_ok_def upload_ok_def received_def)
  qed
  show "uploads_ok w'" using ok kept rec by (simp add: uploads_ok_def rows_kept_def)
  show "advances w w' i []"
    unfolding advances_def using kept rec by (intro exI [of _ "\<lambda>r. r"]) (simp add: rows_kept_def)
qed

lemma ball_map: "(\<forall>y \<in> set (map f xs). P y) \<longleftrightarrow> (\<forall>z \<in> set xs. P (f z))"
  by simp

lemma Commit_run:
  assumes run: "CommitUploadProgress i off h w = (r, w')" and ok: "uploads_ok w"
    and row: "row \<in> set (uploads w)" "up_id row = i"
    and d: "dget w (up_key row) = Some file" "take (nat off) file = received w row @ news" "nat off \<le> length file"
    and off: "off = up_offset row + int (length news)"
    and h: "h = received w row @ news" and le: "off \<le> up_size row"
  shows "uploads_ok w' \<and> advances w w' i (if r = Inr () then news else []) \<and> (r = Inr () \<or> (\<exists>e. r = Inl e))"
proof -
  obtain q where q: "update_uploads (\<lambda>w r. up_id r = i) (\<lambda>w r. r\<lparr>up_offset := off, up_hash := marshalHash h, up_locked := None\<rparr>) w = (q, w')"
    "r = (case q of Inl e \<Rightarrow> Inl e | Inr _ \<Rightarrow> Inr ())"
    using run unfolding CommitUploadProgress_def by (auto simp: run_iffs elim!: thenM_cases)
  have chk: "upload_check row" using ok row(1) by (simp add: uploads_ok_def upload_ok_def)
  from q(1) show ?thesis
  proof (cases rule: update_uploads_run)
    case (1 bs e)
    then have "same_progress w w'" by (auto intro: same_progress_refl simp: dget_def [abs_def])
    with same_progress_ok [OF _ ok] same_progress_advances 1 q(2) show ?thesis by simp
  next
    case (2 bs)
    let ?f = "\<lambda>r. if up_id r = i then r\<lparr>up_offset := off, up_hash := marshalHash h, up_locked := None\<rparr> else r"
    have ups: "uploads w' = map ?f (uploads w)" "next_id w' = next_id w" "dget w' = dget w"
      using 2 by (simp_all add: dget_def [abs_def])
    have only: "r = row" if "r \<in> set (uploads w)" "up_id r = i" for r
      using ok row that by (auto simp: uploads_ok_def distinct_map inj_on_def)
    have rec: "received w' (?f r) = received w r @ (if up_id r = i then news else [])" if "r \<in> set (uploads w)" for r
    proof (cases "up_id r = i")
      case True
      with only that have "r = row" by simp
      with d True show ?thesis by (simp add: received_def [of w'] ups(3))
    qed (simp add: received_def ups(3))
    have uok: "upload_ok w' (?f r)" if "r \<in> set (uploads w)" for r
    proof (cases "up_id r = i")
      case True
      with only that have r: "r = row" by simp
      have "goodKey (up_key row)" using ok row(1) by (simp add: uploads_ok_def upload_ok_def)
      moreover have "upload_check (?f row)" using chk le off row(2) by (simp add: upload_check_def)
      moreover have "restoreHash (up_hash (?f row)) = received w' (?f row)"
        using rec [OF row(1)] h row(2) by (simp add: restoreHash_def marshalHash_def)
      moreover have "\<exists>bs. dget w' (up_key (?f row)) = Some bs \<and> nat (up_offset (?f row)) \<le> length bs"
        using d row(2) by (simp add: ups(3))
      ultimately show ?thesis unfolding r upload_ok_def by simp
    next
      case False
      with ok that show ?thesis by (simp add: uploads_ok_def upload_ok_frame [OF ups(3)])
    qed
    have keys: "map up_id (uploads w') = map up_id (uploads w)" "map up_key (uploads w') = map up_key (uploads w)"
      by (simp_all add: ups(1))
    have "\<forall>r \<in> set (uploads w'). upload_ok w' r" unfolding ups(1) ball_map using uok by blast
    moreover have "\<forall>r \<in> set (uploads w'). up_id r < next_id w" using ok by (auto simp: ups(1) uploads_ok_def)
    ultimately have "uploads_ok w'" using ok unfolding uploads_ok_def keys ups(2) by blast
    moreover have "advances w w' i news"
      unfolding advances_def using rec by (intro exI [of _ ?f]) (simp add: ups(1))
    ultimately show ?thesis using q(2) 2(1) by simp
  qed
qed

lemma Commit_error:
  assumes "CommitUploadProgress i off h w = (Inl e, w')"
  shows "same_progress w w'"
proof -
  have "update_uploads (\<lambda>w r. up_id r = i) (\<lambda>w r. r\<lparr>up_offset := off, up_hash := marshalHash h, up_locked := None\<rparr>) w = (Inl e, w')"
    using assms unfolding CommitUploadProgress_def by (auto simp: run_iffs elim!: thenM_cases)
  then show ?thesis
    by (cases rule: update_uploads_run) (auto intro: same_progress_refl simp: dget_def [abs_def])
qed

lemma LimitReader_run:
  "int (length (fst (LimitReader rd (n + 1)))) \<le> n \<Longrightarrow> 0 \<le> n \<Longrightarrow> fst (LimitReader rd (n + 1)) = fst rd"
  by (auto simp: LimitReader_def split: if_splits)

lemma append_staged:
  assumes ok: "uploads_ok w" and row: "row \<in> set (uploads w)"
    and run: "fs_AppendPartial (up_key row) (up_offset row) h rd None w = (q, w')"
  shows "uploads_ok w' \<and> advances w w' i []"
proof -
  note ap = fs_AppendPartial_run [OF run]
  from ap(2) consider "dget w' = dget w"
    | bs where "dget w (up_key row) = Some bs" "dget w' = (dget w)(up_key row \<mapsto> truncate_to (nat (up_offset row)) bs @ [])"
    | bs where "dget w (up_key row) = Some bs" "dget w' = (dget w)(up_key row \<mapsto> truncate_to (nat (up_offset row)) bs @ fst rd)"
    by auto
  then show ?thesis
  proof cases
    case 1
    with ap(1) have "same_progress w w'" by (auto intro: same_progress_refl simp: rows_kept_def)
    with same_progress_ok [OF _ ok] same_progress_advances show ?thesis by blast
  next
    case 2
    from staged_write [OF ok row ap(1) 2] show ?thesis using advances_any by blast
  next
    case 3
    from staged_write [OF ok row ap(1) 3] show ?thesis using advances_any by blast
  qed
qed

lemma AppendChunk_run:
  assumes run: "AppendChunk own i off tr w = (r, w')" and ok: "uploads_ok w" and full: "tr_full tr = None"
    and moved: "\<And>s. r = Inr s \<Longrightarrow> US_Offset s \<noteq> off \<or> fst (tr_body tr) = []"
  shows "uploads_ok w' \<and> advances w w' i (case r of Inl e \<Rightarrow> [] | Inr s \<Rightarrow> fst (tr_body tr)) \<and>
    (\<forall>s. r = Inr s \<longrightarrow> US_Offset s = off + int (length (fst (tr_body tr))))"
proof -
  let ?rest = "\<lambda>(sess, hasher).
     if off \<noteq> US_Offset sess then
       bindM (tryM (UnlockUpload i)) (\<lambda>_. raise (Wrap ''server is elsewhere'' ErrOffsetMismatch))
     else
       (let remaining = US_Size sess - US_Offset sess;
            limited = LimitReader (tr_body tr) (remaining + 1)
        in thenM (refreshLock i (tr_ticks tr))
           (bindM (fs_AppendPartial (US_StagingKey sess) (US_Offset sess) hasher limited (tr_full tr))
             (\<lambda>(written, hasher', copyErr).
              if written > remaining then bindM (tryM (UnlockUpload i)) (\<lambda>_. raise ErrUploadTooLarge)
              else
                (let newOffset = US_Offset sess + written in
                 thenM (CommitUploadProgress i newOffset hasher')
                 (ret (sess\<lparr>US_Offset := newOffset\<rparr>))))))"
  from run consider (lost) e where "LockUpload own i w = (Inl e, w')" "r = Inl e"
    | (locked) sess h w1 where "LockUpload own i w = (Inr (sess, h), w1)" "?rest (sess, h) w1 = (r, w')"
    unfolding AppendChunk_def by (auto elim!: bindM_cases)
  then show ?thesis
  proof cases
    case lost
    from LockUpload_run(1) [OF lost(1) ok] lost(2) show ?thesis
      by (simp add: same_progress_ok [OF _ ok] same_progress_advances)
  next
    case (locked sess h w1)
    note lk = LockUpload_run [OF locked(1) ok]
    obtain row where row: "row \<in> set (uploads w)" "up_id row = i" "sess = scanUpload row" "h = restoreHash (up_hash row)"
      using lk(2) by blast
    show ?thesis
    proof (cases "off = US_Offset sess")
      case False
      with locked(2) obtain q where "UnlockUpload i w1 = (q, w')" "r = Inl (Wrap ''server is elsewhere'' ErrOffsetMismatch)"
        by (auto simp: run_iffs elim!: bindM_cases tryM_run)
      then have "same_progress w w'" using same_progress_trans [OF lk(1) lock_statements(1)] by blast
      then show ?thesis using \<open>r = _\<close> by (simp add: same_progress_ok [OF _ ok] same_progress_advances)
    next
      case True
      let ?rem = "US_Size sess - off"
      let ?lim = "LimitReader (tr_body tr) (?rem + 1)"
      from locked(2) True obtain w2 n h' e w3 where
        2: "refreshLock i (tr_ticks tr) w1 = (Inr (), w2)" and
        3: "fs_AppendPartial (US_StagingKey sess) off h ?lim None w2 = (Inr (n, h', e), w3)" and
        4: "(if n > ?rem then bindM (tryM (UnlockUpload i)) (\<lambda>_. raise ErrUploadTooLarge)
              else thenM (CommitUploadProgress i (off + n) h') (ret (sess\<lparr>US_Offset := off + n\<rparr>))) w3 = (r, w')"
      proof -
        from locked(2) True obtain q w2 where rf: "refreshLock i (tr_ticks tr) w1 = (q, w2)"
          and rest: "q = Inr () \<Longrightarrow> bindM (fs_AppendPartial (US_StagingKey sess) off h ?lim None)
             (\<lambda>(written, hasher', copyErr).
              if written > ?rem then bindM (tryM (UnlockUpload i)) (\<lambda>_. raise ErrUploadTooLarge)
              else thenM (CommitUploadProgress i (off + written) hasher') (ret (sess\<lparr>US_Offset := off + written\<rparr>))) w2 = (r, w')"
          by (auto simp: Let_def full cong: if_cong elim!: thenM_cases)
        have q: "q = Inr ()" using refreshLock_run [OF rf] by simp
        obtain a w3 where ap: "fs_AppendPartial (US_StagingKey sess) off h ?lim None w2 = (a, w3)"
          by (cases "fs_AppendPartial (US_StagingKey sess) off h ?lim None w2")
        obtain n h' e where a: "a = Inr (n, h', e)" using fs_AppendPartial_run(2) [OF ap] by blast
        from rest [OF q] have "(if n > ?rem then bindM (tryM (UnlockUpload i)) (\<lambda>_. raise ErrUploadTooLarge)
              else thenM (CommitUploadProgress i (off + n) h') (ret (sess\<lparr>US_Offset := off + n\<rparr>))) w3 = (r, w')"
          by (simp add: bindM_Inr [where c = "fs_AppendPartial (US_StagingKey sess) off h ?lim None", OF ap [unfolded a]])
        with that rf q ap a show ?thesis by blast
      qed
      have prog: "same_progress w w2" using same_progress_trans [OF lk(1)] refreshLock_run [OF 2] by blast
      note ok2 = same_progress_ok [OF prog ok] and adv2 = same_progress_advances [OF prog]
      obtain f where f: "uploads w2 = map (\<lambda>r. r\<lparr>up_locked := f r\<rparr>) (uploads w)" "dget w2 = dget w"
        using prog by (auto simp: same_progress_def)
      define row2 where "row2 = row\<lparr>up_locked := f row\<rparr>"
      have row2: "row2 \<in> set (uploads w2)" "up_id row2 = i" "US_StagingKey sess = up_key row2" "off = up_offset row2"
        "US_Size sess = up_size row2" "h = restoreHash (up_hash row2)"
        using row True by (auto simp: row2_def f(1) scanUpload_def)
      have uok2: "upload_ok w2 row2" using ok2 row2(1) by (simp add: uploads_ok_def)
      then obtain kept where st: "dget w2 (up_key row2) = Some kept" "nat off \<le> length kept" "h = received w2 row2"
        "0 \<le> off" "off \<le> up_size row2"
        using row2 by (auto simp: upload_ok_def upload_check_def)
      have same: "uploads_ok w3 \<and> advances w2 w3 i []"
        by (rule append_staged [OF ok2 row2(1) 3 [unfolded row2(3,4)]])
      from 4 consider (big) q where "n > ?rem" "UnlockUpload i w3 = (q, w')" "r = Inl ErrUploadTooLarge"
        | (fail) e where "CommitUploadProgress i (off + n) h' w3 = (Inl e, w')" "r = Inl e"
        | (done_) "n \<le> ?rem" "CommitUploadProgress i (off + n) h' w3 = (Inr (), w')" "r = Inr (sess\<lparr>US_Offset := off + n\<rparr>)"
        by (auto simp: run_iffs elim!: thenM_cases bindM_cases tryM_run split: if_splits)
      then show ?thesis
      proof cases
        case big
        from lock_statements(1) [OF big(2)] same adv2 big(3) show ?thesis
          by (auto intro: same_progress_ok same_progress_advances advances_trans)
      next
        case fail
        from Commit_error [OF fail(1)] same adv2 fail(2) show ?thesis
          by (auto intro: same_progress_ok same_progress_advances advances_trans)
      next
        case done_
        have keep: "uploads w3 = uploads w2" using fs_AppendPartial_run(1) [OF 3] by (simp add: rows_kept_def)
        with row2(1) have row3: "row2 \<in> set (uploads w3)" by simp
        then have uok3: "upload_ok w3 row2" using same by (simp add: uploads_ok_def)
        then obtain file3 where file3: "dget w3 (up_key row2) = Some file3" "nat off \<le> length file3" "h = received w3 row2"
          "take (nat off) file3 = received w3 row2"
          using row2 by (auto simp: upload_ok_def received_def)
        have goal: "uploads_ok w' \<and> advances w3 w' i (fst (tr_body tr)) \<and> n = int (length (fst (tr_body tr)))"
        proof (cases "fst (tr_body tr) = []")
          case True
          then have lim: "fst ?lim = []" by (simp add: LimitReader_def)
          then have "n = 0" "h' = h" using fs_AppendPartial_run(2) [OF 3] by auto
          with Commit_run [OF done_(2) conjunct1 [OF same] row3 row2(2) file3(1), of "[]"] file3 row2(4,5) st(5) True
          show ?thesis by simp
        next
          case False
          with moved [OF done_(3)] have "n \<noteq> 0" by simp
          then have n: "n = int (length (fst ?lim))" "h' = h @ fst ?lim" and
            "\<exists>bs. dget w2 (up_key row2) = Some bs \<and> dget w3 = (dget w2)(up_key row2 \<mapsto> truncate_to (nat off) bs @ fst ?lim)"
            using fs_AppendPartial_run(2) [OF 3] by (auto simp: row2(3))
          then obtain bs where bs: "dget w2 (up_key row2) = Some bs"
            "dget w3 = (dget w2)(up_key row2 \<mapsto> truncate_to (nat (up_offset row2)) bs @ fst ?lim)"
            by (auto simp: row2(4))
          have body: "fst ?lim = fst (tr_body tr)"
            by (rule LimitReader_run) (use done_(1) n(1) st(5) row2(5) in auto)
          have h3: "dget w3 (up_key row2) = Some (h @ fst ?lim)"
            using staged_write(3) [OF ok2 row2(1) fs_AppendPartial_run(1) [OF 3] bs] st(3) by simp
          have lh: "length h = nat off" using file3(2,3,4) by (metis length_take min.absorb2)
          have nn: "nat (off + n) = length (h @ fst ?lim)" using lh n(1) st(4) by (simp add: nat_add_distrib)
          show ?thesis
            using Commit_run [OF done_(2) conjunct1 [OF same] row3 row2(2) h3, of "fst ?lim"] file3(3) n nn row2(4,5) done_(1) body
            by simp
        qed
        then show ?thesis using same adv2 done_(3) by (auto intro: advances_trans)
      qed
    qed
  qed
qed
end
