(* ===== verification/UploadsSpec.thy ===== *)
theory UploadsSpec
  imports GrantsSpec UploadsInv
begin

text \<open>
  What resumable uploads promise: acknowledged bytes accumulate, a locked session is left alone, and a
  finished upload is the file that arrived; and four ways in which they, or the plain upload, lose
  or mistake bytes.  The examples run Alice's upload in the shared tree of \<open>GrantsSpec\<close>.
\<close>

section \<open>Progress\<close>


text \<open>Alice uploads six bytes into her root; nothing has arrived yet.\<close>

definition upload_row0 :: upload_row where
  "upload_row0 = \<lparr>up_id = 3, up_owner = 7, up_parent = 0, up_name = ''f'', up_mime = ''text/plain'', up_size = 6,
     up_offset = 0, up_key = ''.staging/ab'', up_hash = None, up_locked = None, up_created = 0, up_expires = 100\<rparr>"

definition upload_world :: "bool list \<Rightarrow> world" where
  "upload_world fs = shared_world\<lparr>uploads := [upload_row0], disk := [(''.staging/ab'', [])], faults := fs\<rparr>"

lemmas upload_eval = AppendChunk_def LockUpload_def update_uploads_def lockable_def lockWindow_def scanUpload_def
  restoreHash_def marshalHash_def upload_check_def refreshLock.simps fs_AppendPartial_def pathFor_good LimitReader_def
  truncate_to_def CommitUploadProgress_def dget_def dput_def

lemma staging_key: "goodKey ''.staging/ab''"
  by code_simp

definition body :: "string \<Rightarrow> transfer" where
  "body bs = \<lparr>tr_body = (bs, False), tr_ticks = 0, tr_full = None\<rparr>"

lemma upload_world_ok: "uploads_ok (upload_world fs)"
  by (simp add: upload_world_def upload_row0_def uploads_ok_def upload_ok_def upload_check_def received_def
      staging_key restoreHash_def dget_def shared_world_rows)

lemma shared_world_now: "now shared_world = 0"
  unfolding shared_world_def
  by (simp add: grant_eval eval_set folder_row_def e_x_path cong: run_cong del: set_filter list.set_map)

lemmas upload_world_eval = upload_world_def upload_row0_def shared_world_rows shared_world_now upload_eval staging_key
  body_def tree_eval

lemma first_chunk: "\<exists>s w'. AppendChunk 7 3 0 (body ''abc'') (upload_world []) = (Inr s, w') \<and> US_Offset s = 3 \<and>
    uploads w' = [upload_row0\<lparr>up_offset := 3, up_hash := Some ''abc''\<rparr>]"
  by (simp add: upload_world_eval cong: run_cong)


section \<open>The lock\<close>

lemma find_ex: "(\<exists>s. find P xs = Some s) = (\<exists>z \<in> set xs. P z)"
  by (induction xs) auto

lemma GetUpload_kept: "GetUpload own i v = (g, v') \<Longrightarrow> \<exists>bs. v' = v\<lparr>faults := bs\<rparr>"
  unfolding GetUpload_def by (auto simp: run_iffs split: option.splits elim!: bindM_cases selectM_run)

text \<open>While one request holds an upload, every other request to append or to finish is turned away and
  changes nothing: no row, no byte of any file.\<close>

theorem locked_upload_is_left_alone:
  assumes "uploads_ok w" and "row \<in> set (uploads w)" and "up_id row = i" and "up_locked row = Some t" and "now w \<le> t"
  shows "(\<exists>e w'. AppendChunk own i off tr w = (Inl e, w') \<and> uploads w' = uploads w \<and> disk w' = disk w \<and>
      (faults w = [] \<longrightarrow> e = (if own = up_owner row \<and> now w < up_expires row then ErrUploadLocked else ErrUploadNotFound))) \<and>
    (\<exists>e w'. FinishUpload sv x own i w = (Inl e, w') \<and> uploads w' = uploads w \<and> disk w' = disk w \<and> nodes w' = nodes w)"
proof -
  have only: "r = row" if "r \<in> set (uploads w)" "up_id r = i" for r
    using assms(1-3) that by (auto simp: uploads_ok_def distinct_map inj_on_def)
  have none: "filter (lockable own i (w\<lparr>faults := bs\<rparr>)) (uploads w) = []" for bs
    using only assms(4,5) by (auto simp: filter_empty_conv lockable_def)
  have rows: "map (\<lambda>r. if lockable own i (w\<lparr>faults := bs\<rparr>) r then g r else r) (uploads w) = uploads w" for bs g
    by (rule map_idI) (use none in \<open>auto simp: filter_empty_conv\<close>)
  let ?up = "update_uploads (lockable own i) (\<lambda>w r. r\<lparr>up_locked := Some (now w + lockWindow)\<rparr>)"
  let ?p = "\<lambda>r. up_id r = i \<and> up_owner r = own \<and> up_expires r > now w"
  have found: "(\<exists>s. find ?p (uploads w) = Some s) = (own = up_owner row \<and> now w < up_expires row)"
  proof -
    have "(\<exists>s. find ?p (uploads w) = Some s) = (\<exists>r \<in> set (uploads w). ?p r)"
      by (rule find_ex)
    also have "\<dots> = ?p row" using only assms(2,3) by blast
    finally show ?thesis using assms(3) by auto
  qed
  have get: "GetUpload own i (w\<lparr>faults := []\<rparr>) =
      (case find ?p (uploads w) of None \<Rightarrow> Inl ErrUploadNotFound | Some row \<Rightarrow> Inr (scanUpload row), w\<lparr>faults := []\<rparr>)"
    by (simp add: GetUpload_def db_eval run_eval split: option.splits)
  have idle: "?up w = (Inr [], w)" if "faults w = []"
  proof -
    have "w\<lparr>faults := faults w\<rparr> = w" by simp
    with that have eq: "w\<lparr>faults := []\<rparr> = w" by simp
    from that none [of "[]"] rows [of "[]"] show ?thesis
      by (simp add: update_uploads_def db_eval run_eval Let_def eq)
  qed
  have "\<exists>e bs. LockUpload own i w = (Inl e, w\<lparr>faults := bs\<rparr>) \<and>
     (faults w = [] \<longrightarrow> e = (if own = up_owner row \<and> now w < up_expires row then ErrUploadLocked else ErrUploadNotFound))"
  proof (cases "?up w")
    case (Pair q w1)
    from Pair show ?thesis
    proof (cases rule: update_uploads_run)
      case (1 bs e)
      have "faults w \<noteq> []"
      proof
        assume "faults w = []"
        with idle Pair 1 show False by simp
      qed
      with Pair 1 show ?thesis by (auto simp: LockUpload_def bindM_def)
    next
      case (2 bs)
      have q: "q = Inr []" "w1 = w\<lparr>faults := bs\<rparr>" using 2(1,2) none rows by simp_all
      show ?thesis
      proof (cases "bs = []")
        case True
        with Pair q get found show ?thesis
          by (cases "find ?p (uploads w)") (auto simp: LockUpload_def bindM_def tryM_def raise_def)
      next
        case False
        obtain g w2 where g: "GetUpload own i w1 = (g, w2)" by (cases "GetUpload own i w1")
        obtain bs' where "w2 = w1\<lparr>faults := bs'\<rparr>" using GetUpload_kept [OF g] by blast
        moreover have "faults w \<noteq> []"
        proof
          assume "faults w = []"
          with idle Pair q(2) have "faults (w\<lparr>faults := bs\<rparr>) = []" by simp
          with False show False by simp
        qed
        ultimately show ?thesis
          using Pair g q by (cases g) (auto simp: LockUpload_def bindM_def tryM_def raise_def)
      qed
    qed
  qed
  then obtain e bs where lock: "LockUpload own i w = (Inl e, w\<lparr>faults := bs\<rparr>)"
    "faults w = [] \<longrightarrow> e = (if own = up_owner row \<and> now w < up_expires row then ErrUploadLocked else ErrUploadNotFound)"
    by blast
  have "AppendChunk own i off tr w = (Inl e, w\<lparr>faults := bs\<rparr>)" "FinishUpload sv x own i w = (Inl e, w\<lparr>faults := bs\<rparr>)"
    unfolding AppendChunk_def FinishUpload_def by (simp_all add: bindM_def lock(1))
  with lock(2) show ?thesis by simp
qed

section \<open>Where uploads go wrong\<close>

definition demo_service :: service where
  "demo_service = \<lparr>sv_cas = False, sv_stager = True, sv_UploadTTL = defaultUploadTTL, sv_enqueue = None,
     sv_type_by_ext = (\<lambda>_. []), sv_media_type_ok = (\<lambda>_. True)\<rparr>"

text \<open>The suspended hash can come to describe other bytes than the file.  If \<open>fsync\<close> fails, the bytes of
  the chunk are in the hash but the offset does not count them, and the hash is committed all the
  same; if the disk fills in the middle of a piece, the offset counts bytes the hash never saw.  The
  client resumes where it is told to and nothing notices: after the retry the file is right and the
  digest is not.\<close>

theorem upload_hash_diverges:
  "(let (r1, w1) = AppendChunk 7 3 0 (body ''abc'') (upload_world [False, False, False, False, True]);
        (r2, w2) = AppendChunk 7 3 0 (body ''abc'') w1
    in map_sum id US_Offset r1 = Inr 0 \<and> map_sum id US_Offset r2 = Inr 3 \<and>
       disk w2 = [(''.staging/ab'', ''abc'')] \<and> map up_hash (uploads w2) = [Some ''abcabc'']) \<and>
   (let (r1, w1) = AppendChunk 7 3 0 ((body ''abc'')\<lparr>tr_full := Some (0, 2)\<rparr>) (upload_world []);
        (r2, w2) = AppendChunk 7 3 2 (body ''c'') w1
    in map_sum id US_Offset r1 = Inr 2 \<and> map_sum id US_Offset r2 = Inr 3 \<and>
       disk w2 = [(''.staging/ab'', ''abc'')] \<and> map up_hash (uploads w2) = [Some ''c''])"
  by (rule conjI; simp add: upload_world_eval dbM_def ioM_def cong: run_cong)

section \<open>What PutFile records\<close>

text \<open>The tree's statements leave the disk alone.\<close>

lemma disk_statements [keeps_intros]:
  "keeps (\<lambda>w. disk w = D) (update_nodes q g)" "keeps (\<lambda>w. disk w = D) (insert_node mk)"
  "keeps (\<lambda>w. disk w = D) fresh_id" "keeps (\<lambda>w. disk w = D) (insert_version nd bid mid sz mime by_user)"
  "keeps (\<lambda>w. disk w = D) (insert_blob key sz sha)" "keeps (\<lambda>w. disk w = D) (query_node p)"
  "keeps (\<lambda>w. disk w = D) (selectM f)" "keeps (\<lambda>w. disk w = D) dbM"
proof -
  have ff: "fault_free (\<lambda>w. disk w = D)" by (simp add: fault_free_def)
  have fr: "keeps (\<lambda>w. disk w = D) fresh_id" by (simp add: keeps_def fresh_id_def)
  show "keeps (\<lambda>w. disk w = D) (update_nodes q g)" "keeps (\<lambda>w. disk w = D) (insert_node mk)"
    by (rule keepsI, erule update_nodes_run insert_node_run; simp)+
  show "keeps (\<lambda>w. disk w = D) fresh_id" by (rule fr)
  show "keeps (\<lambda>w. disk w = D) (insert_version nd bid mid sz mime by_user)"
    "keeps (\<lambda>w. disk w = D) (insert_blob key sz sha)" "keeps (\<lambda>w. disk w = D) (query_node p)"
    "keeps (\<lambda>w. disk w = D) (selectM f)" "keeps (\<lambda>w. disk w = D) dbM"
    unfolding insert_version_def insert_blob_def query_node_def Let_def
    by (intro keeps_intros ff fr; simp)+
qed

lemma disk_PutFile: "keeps (\<lambda>w. disk w = D) (PutFile x inp)"
proof -
  have tx: "keeps (\<lambda>w. disk w = D) (withTx c)" if "keeps (\<lambda>w. disk w = D) c" for c :: "(world, 'a) m"
    using that by (intro keeps_withTx) (simp_all add: fault_free_def)
  show ?thesis
    unfolding PutFile_def file_slot_def live_folder_path_def checkQuota_def quota_of_def check_name_def store_Get_def Let_def
    by (intro tx keeps_intros; simp)
qed

text \<open>The blob a write records, the version that holds it and the head that points there.\<close>

definition has_blob :: "put_file_input \<Rightarrow> nat \<Rightarrow> world \<Rightarrow> bool" where
  "has_blob inp i w \<longleftrightarrow> (\<exists>b \<in> set (blobs w). b_id b = i \<and> b_key b = pf_BlobKey inp \<and> b_size b = pf_Size inp \<and>
     b_sha256 b = pf_SHA256 inp)"

definition has_version :: "put_file_input \<Rightarrow> nat \<Rightarrow> nat \<Rightarrow> world \<Rightarrow> bool" where
  "has_version inp i v w \<longleftrightarrow> has_blob inp i w \<and> (\<exists>r \<in> set (versions w). v_id r = v \<and> v_blob r = Some i)"

definition has_head :: "put_file_input \<Rightarrow> nat \<Rightarrow> nat \<Rightarrow> nat \<Rightarrow> world \<Rightarrow> bool" where
  "has_head inp i v nd w \<longleftrightarrow> has_version inp i v w \<and> (\<forall>n \<in> set (nodes w). n_id n = nd \<longrightarrow> n_head n = Some v)"

lemma has_fault_free [simp]: "fault_free (has_blob inp i)" "fault_free (has_version inp i v)" "fault_free (has_head inp i v nd)"
  by (simp_all add: fault_free_def has_blob_def has_version_def has_head_def)

lemma has_blob_keeps [keeps_intros]:
  "keeps (has_blob inp i) (insert_node mk)" "keeps (has_blob inp i) (selectM f)"
proof -
  show "keeps (has_blob inp i) (insert_node mk)"
    by (rule keepsI, erule insert_node_run) (simp_all add: has_blob_def)
qed (intro keeps_intros, simp)

lemma put_blob: "triple (\<lambda>_. True) (insert_blob (pf_BlobKey inp) (pf_Size inp) (pf_SHA256 inp)) (has_blob inp) (\<lambda>_ _. True)"
proof (rule tripleI)
  fix s bid s' assume "insert_blob (pf_BlobKey inp) (pf_Size inp) (pf_SHA256 inp) s = (Inr bid, s')"
  then show "has_blob inp bid s'"
    unfolding insert_blob_def Let_def has_blob_def
    by (elim thenM_cases bindM_cases dbM_run) (auto simp: run_iffs run_eval fresh_id_def split: if_splits)
qed simp

lemma put_version:
  "triple (has_blob inp i) (insert_version nd (Some i) mid sz mime u) (has_version inp i) (\<lambda>_ _. True)"
proof (rule tripleI)
  fix s v s' assume b: "has_blob inp i s" and run: "insert_version nd (Some i) mid sz mime u s = (Inr v, s')"
  from run obtain row where "blobs s' = blob_refcount_bump None (Some row) (blobs s)" "versions s' = versions s @ [row]"
    "v_id row = v" "v_blob row = Some i"
    unfolding insert_version_def Let_def
    by (elim thenM_cases bindM_cases dbM_run) (auto simp: run_iffs run_eval fresh_id_def split: if_splits)
  with b show "has_version inp i v s'"
    by (auto simp: has_version_def has_blob_def blob_refcount_bump_map)
qed simp

lemma put_head:
  "triple (has_version inp i v) (update_nodes (\<lambda>n. n_id n = nd) (\<lambda>t n. n\<lparr>n_head := Some v, n_name := nm, n_updated := t\<rparr>))
     (\<lambda>_. has_head inp i v nd) (\<lambda>_ _. True)"
proof (rule tripleI)
  fix s k s' assume v: "has_version inp i v s"
    and run: "update_nodes (\<lambda>n. n_id n = nd) (\<lambda>t n. n\<lparr>n_head := Some v, n_name := nm, n_updated := t\<rparr>) s = (Inr k, s')"
  from run show "has_head inp i v nd s'"
  proof (cases rule: update_nodes_run)
    case (2 bs)
    then have s': "blobs s' = blobs s" "versions s' = versions s"
      "nodes s' = map (\<lambda>n. if n_id n = nd then n\<lparr>n_head := Some v, n_name := nm, n_updated := now s\<rparr> else n) (nodes s)"
      by (simp_all add: update_rows_map)
    have "has_version inp i v s'" using v by (simp add: has_version_def has_blob_def s'(1,2))
    moreover have "\<forall>n \<in> set (nodes s'). n_id n = nd \<longrightarrow> n_head n = Some v" unfolding s'(3) ball_map by simp
    ultimately show ?thesis by (simp add: has_head_def)
  qed simp
qed simp

lemma wrapM_triple: "triple P c Q (\<lambda>_ _. True) \<Longrightarrow> triple P (wrapM l c) Q (\<lambda>_ _. True)"
  by (auto simp: triple_def wrapM_def catchM_def raise_def split: prod.splits sum.splits)

lemma PutFile_records:
  assumes run: "PutFile x inp w = (Inr nd, w')" and blob: "pf_BlobKey inp \<noteq> []"
  obtains b v where "b \<in> set (blobs w')" "b_key b = pf_BlobKey inp" "b_size b = pf_Size inp" "b_sha256 b = pf_SHA256 inp"
    "v \<in> set (versions w')" "v_blob v = Some (b_id b)" "N_HeadVersionID nd = Some (v_id v)"
proof -
  let ?mime = "if pf_MIME inp = [] then ''application/octet-stream'' else pf_MIME inp"
  let ?body = "bindM (live_folder_path (pf_OwnerID inp) (pf_ParentID inp)) (\<lambda>parentPath.
            thenM (checkQuota (pf_OwnerID inp) (pf_Size inp))
            (bindM (bindM (wrapM ''record blob'' (insert_blob (pf_BlobKey inp) (pf_Size inp) (pf_SHA256 inp)))
                           (\<lambda>b. ret (Some b))) (\<lambda>blobID.
             bindM (file_slot x inp parentPath) (\<lambda>nodeID.
             bindM (wrapM ''create version'' (insert_version nodeID blobID (pf_ManifestID inp)
                      (pf_Size inp) ?mime (Some (pf_OwnerID inp)))) (\<lambda>versionID.
             thenM (wrapM ''set head version'' (update_nodes (\<lambda>n. n_id n = nodeID)
                      (\<lambda>t n. n\<lparr>n_head := Some versionID, n_name := pf_Name inp, n_updated := t\<rparr>)))
             (ret nodeID))))))"
  have slot: "triple (has_blob inp i) (file_slot x inp p) (\<lambda>_. has_blob inp i) (\<lambda>_ _. True)" for i p
    unfolding file_slot_def by (intro keepsT keeps_intros; simp)
  have body: "triple (\<lambda>_. True) ?body (\<lambda>nodeID w. \<exists>i v. has_head inp i v nodeID w) (\<lambda>_ _. True)"
  proof (rule triple_bindM [OF keepsT [of "\<lambda>_. True"]])
    fix p
    show "triple (\<lambda>_. True) (thenM (checkQuota (pf_OwnerID inp) (pf_Size inp))
            (bindM (bindM (wrapM ''record blob'' (insert_blob (pf_BlobKey inp) (pf_Size inp) (pf_SHA256 inp)))
                           (\<lambda>b. ret (Some b))) (\<lambda>blobID.
             bindM (file_slot x inp p) (\<lambda>nodeID.
             bindM (wrapM ''create version'' (insert_version nodeID blobID (pf_ManifestID inp)
                      (pf_Size inp) ?mime (Some (pf_OwnerID inp)))) (\<lambda>versionID.
             thenM (wrapM ''set head version'' (update_nodes (\<lambda>n. n_id n = nodeID)
                      (\<lambda>t n. n\<lparr>n_head := Some versionID, n_name := pf_Name inp, n_updated := t\<rparr>)))
             (ret nodeID)))))) (\<lambda>nodeID w. \<exists>i v. has_head inp i v nodeID w) (\<lambda>_ _. True)"
    proof (rule triple_thenM [OF keepsT [of "\<lambda>_. True"]])
      have "triple (\<lambda>_. True) (bindM (wrapM ''record blob'' (insert_blob (pf_BlobKey inp) (pf_Size inp) (pf_SHA256 inp)))
              (\<lambda>b. ret (Some b))) (\<lambda>b w. \<exists>i. b = Some i \<and> has_blob inp i w) (\<lambda>_ _. True)"
        by (rule triple_bindM [OF wrapM_triple [OF put_blob]]) (auto intro: triple_ret)
      moreover have "triple (\<lambda>w. \<exists>i. b = Some i \<and> has_blob inp i w) (bindM (file_slot x inp p) (\<lambda>nodeID.
             bindM (wrapM ''create version'' (insert_version nodeID b (pf_ManifestID inp)
                      (pf_Size inp) ?mime (Some (pf_OwnerID inp)))) (\<lambda>versionID.
             thenM (wrapM ''set head version'' (update_nodes (\<lambda>n. n_id n = nodeID)
                      (\<lambda>t n. n\<lparr>n_head := Some versionID, n_name := pf_Name inp, n_updated := t\<rparr>)))
             (ret nodeID)))) (\<lambda>nodeID w. \<exists>i v. has_head inp i v nodeID w) (\<lambda>_ _. True)" for b
      proof (cases b)
        case None
        then show ?thesis by (simp add: triple_def)
      next
        case (Some i)
        have "triple (has_blob inp i) (bindM (file_slot x inp p) (\<lambda>nodeID.
             bindM (wrapM ''create version'' (insert_version nodeID b (pf_ManifestID inp)
                      (pf_Size inp) ?mime (Some (pf_OwnerID inp)))) (\<lambda>versionID.
             thenM (wrapM ''set head version'' (update_nodes (\<lambda>n. n_id n = nodeID)
                      (\<lambda>t n. n\<lparr>n_head := Some versionID, n_name := pf_Name inp, n_updated := t\<rparr>)))
             (ret nodeID)))) (\<lambda>nodeID w. \<exists>i v. has_head inp i v nodeID w) (\<lambda>_ _. True)"
          unfolding Some
          by (intro triple_bindM [OF slot] triple_bindM [OF wrapM_triple [OF put_version]]
              triple_thenM [OF wrapM_triple [OF put_head]] triple_ret) blast
        then show ?thesis using Some by (simp add: triple_def)
      qed
      ultimately show "triple (\<lambda>_. True) (bindM (bindM (wrapM ''record blob'' (insert_blob (pf_BlobKey inp) (pf_Size inp) (pf_SHA256 inp)))
              (\<lambda>b. ret (Some b))) (\<lambda>blobID. bindM (file_slot x inp p) (\<lambda>nodeID.
             bindM (wrapM ''create version'' (insert_version nodeID blobID (pf_ManifestID inp)
                      (pf_Size inp) ?mime (Some (pf_OwnerID inp)))) (\<lambda>versionID.
             thenM (wrapM ''set head version'' (update_nodes (\<lambda>n. n_id n = nodeID)
                      (\<lambda>t n. n\<lparr>n_head := Some versionID, n_name := pf_Name inp, n_updated := t\<rparr>)))
             (ret nodeID))))) (\<lambda>nodeID w. \<exists>i v. has_head inp i v nodeID w) (\<lambda>_ _. True)"
        by (rule triple_bindM)
    qed (simp add: keeps_def)
  qed (simp add: keeps_def)
  from run blob obtain nodeID w0 w1 where tx: "withTx ?body w0 = (Inr nodeID, w1)"
    and get: "store_Get (pf_OwnerID inp) nodeID w1 = (Inr nd, w')"
    unfolding PutFile_def Let_def
    by (auto simp: run_iffs elim!: thenM_cases bindM_cases split: if_splits)
  define c where "c = ?body"
  have run_c: "\<exists>i v. has_head inp i v q w2" if "c s = (Inr q, w2)" for q s w2
    using body [folded c_def] that unfolding triple_def by (auto split: prod.splits sum.splits)
  from tx [folded c_def] have "\<exists>i v. has_head inp i v nodeID w1"
  proof (cases rule: withTx_cases)
    case (4 bs q w2 bs')
    from 4(2) have "nodeID = q" by simp
    with run_c [OF 4(1)] obtain i v where "has_head inp i v nodeID w2" by blast
    then have "has_head inp i v nodeID (w2\<lparr>faults := bs'\<rparr>)" by (simp add: has_head_def has_version_def has_blob_def)
    then show ?thesis unfolding 4(3) by blast
  qed simp_all
  then obtain i v where h: "has_head inp i v nodeID w1" by blast
  from get show thesis
    unfolding store_Get_def
  proof (cases rule: query_node_run)
    case (2 bs n)
    with h obtain b r where "b \<in> set (blobs w1)" "b_id b = i" "b_key b = pf_BlobKey inp" "b_size b = pf_Size inp"
      "b_sha256 b = pf_SHA256 inp" "r \<in> set (versions w1)" "v_id r = v" "v_blob r = Some i" "n_head n = Some v"
      by (auto simp: has_head_def has_version_def has_blob_def)
    with 2 that [of b r] show ?thesis by auto
  qed simp
qed

lemma fs_CommitPartial_run:
  assumes "fs_CommitPartial key w = (Inr dst, w')"
  shows "\<exists>bs. dget w key = Some bs \<and> dget w' dst = Some bs \<and> dst \<noteq> []"
proof -
  have d: "dget w' = dget v \<and> q = Inr (fanout nm)" if "thenM (modM (\<lambda>w. v2)) (thenM (ioM e) (ret (fanout nm))) u = (q, w')"
    "q = Inr z" "v2 = v" for v2 v u e nm q w' z
    using that by (auto simp: thenM_modM run_iffs elim!: thenM_cases dest!: ioM_kept)
  have "pathFor k u = (Inr p, u') \<Longrightarrow> p = k \<and> u' = u" for k p and u u' :: world
    by (auto simp: pathFor_good_iff split: if_splits)
  note path = this
  have rnd: "randRead u = (q, u') \<Longrightarrow> dget u' = dget u" for u q u'
    by (auto simp: randRead_def dget_def [abs_def] split: list.splits)
  from assms show ?thesis
    unfolding fs_CommitPartial_def
    by (auto simp: run_iffs fanout_def thenM_modM elim!: bindM_cases thenM_cases split: option.splits
        dest!: path ioM_kept rnd)
qed

lemma fs_Stat_run:
  assumes "fs_Stat key w = (Inr n, w')"
  shows "\<exists>bs. dget w key = Some bs \<and> n = int (length bs)" and "dget w' = dget w"
  using assms unfolding fs_Stat_def
  by (auto simp: run_iffs pathFor_good_iff elim!: bindM_cases thenM_cases split: option.splits if_splits dest!: ioM_kept)

lemma disk_WriteOwnerFor: "keeps (\<lambda>w. disk w = D) (WriteOwnerFor u i)"
  unfolding WriteOwnerFor_def AccessFor_def
  by (intro keeps_intros; simp split: prod.split)

lemma DeleteUpload_rest:
  assumes "DeleteUpload own i w = (q, w')"
  shows "blobs w' = blobs w \<and> versions w' = versions w \<and> disk w' = disk w"
proof -
  have "keeps (\<lambda>v. blobs v = blobs w \<and> versions v = versions w \<and> disk v = disk w) (DeleteUpload own i)"
    unfolding DeleteUpload_def Let_def by (intro keeps_intros; simp add: fault_free_def)
  from keepsD [OF this _ assms] show ?thesis by simp
qed


theorem locked_upload_is_left_alone_witness:
  "(\<exists>w'. AppendChunk 7 3 0 (body ''abc'') (upload_world [] \<lparr>uploads := [upload_row0\<lparr>up_locked := Some 5\<rparr>]\<rparr>) = (Inl ErrUploadLocked, w'))"
proof -
  let ?row = "upload_row0\<lparr>up_locked := Some 5\<rparr>" and ?w = "upload_world [] \<lparr>uploads := [upload_row0\<lparr>up_locked := Some 5\<rparr>]\<rparr>"
  have "uploads_ok ?w"
    by (simp add: upload_world_def upload_row0_def uploads_ok_def upload_ok_def upload_check_def received_def
      staging_key restoreHash_def dget_def shared_world_rows)
  from locked_upload_is_left_alone [OF this, of ?row 3 5 7 0 "body ''abc''"] show ?thesis
    by (auto simp: upload_world_def upload_row0_def shared_world_rows shared_world_now)
qed

definition done_world :: world where
  "done_world = (upload_world [])\<lparr>uploads := [upload_row0\<lparr>up_offset := 6, up_hash := Some ''abcdef''\<rparr>],
     disk := [(''.staging/ab'', ''abcdef'')], entropy := [''raw'']\<rparr>"

lemma done_world_ok: "uploads_ok done_world"
  by (simp add: done_world_def upload_world_def upload_row0_def uploads_ok_def upload_ok_def upload_check_def received_def
      staging_key restoreHash_def dget_def shared_world_rows)

lemma raw_key: "fanout (hex_encode ''raw'') = ''72/61/726177''" "goodKey ''72/61/726177''"
  by code_simp+


lemma f_names: "ValidateName demo_ext ''f'' = None" "Fold demo_ext ''f'' = ''f''" "JoinPath ''/'' ''f'' = ''/f''"
  by code_simp+

lemma done_owner:
  "nodes w = [folder_row 0 None [] ''/'', folder_row 1 (Some 0) ''e'' ''/e'', folder_row 2 (Some 1) ''x'' ''/e/x''] \<Longrightarrow>
    users w = [alice, carol] \<Longrightarrow> faults w = [] \<Longrightarrow> WriteOwnerFor 7 0 w = (Inr 7, w)"
  by (simp add: WriteOwnerFor_def access_eval tree_eval folder_row_def alice_def user_of_def CanWrite_def cong: run_cong)


lemma done_commit:
  "faults w = [] \<Longrightarrow> entropy w = [''raw''] \<Longrightarrow> disk w = [(''.staging/ab'', ''abcdef'')] \<Longrightarrow>
    fs_CommitPartial ''.staging/ab'' w = (Inr ''72/61/726177'', w\<lparr>entropy := [], disk := [(''72/61/726177'', ''abcdef'')]\<rparr>)"
  by (simp add: fs_CommitPartial_def pathFor_good staging_key raw_key randRead_def dget_def dput_def ddel_def tree_eval cong: run_cong del: hex_encode.simps)

lemma done_put:
  "nodes w = [folder_row 0 None [] ''/'', folder_row 1 (Some 0) ''e'' ''/e'', folder_row 2 (Some 1) ''x'' ''/e/x''] \<Longrightarrow>
    users w = [alice, carol] \<Longrightarrow> faults w = [] \<Longrightarrow> blobs w = [] \<Longrightarrow> versions w = [] \<Longrightarrow> next_id w = 4 \<Longrightarrow> k \<noteq> [] \<Longrightarrow>
   \<exists>nd w'. PutFile demo_ext (put_of ''f'' k h 6) w = (Inr nd, w')"
  by (simp add: f_names put_eval folder_row_def alice_def carol_def eval_set cong: run_cong del: set_filter list.set_map)


lemma done_blobs: "blobs shared_world = []" "versions shared_world = []" "uploads shared_world = []" "disk shared_world = []"
  unfolding shared_world_def
  by (simp_all add: grant_eval eval_set folder_row_def e_x_path cong: run_cong del: set_filter list.set_map)

lemma FinishStaged_run:
  assumes "fs_CommitPartial stg w = (Inr k, w1)" "PutFile x (blob_input own p nm k sha sz mime) w1 = (Inr nd, w2)"
    "sv_stager sv" "\<not> sv_cas sv" "sv_enqueue sv = None"
  shows "FinishStaged sv x own p nm stg sz sha mime w = (Inr nd, w2)"
  using assms by (simp add: FinishStaged_def finishStaged_def put_or_undo_def scheduleExtract_def run_eval)

lemma done_run: "\<exists>nd w'. FinishUpload demo_service demo_ext 7 3 done_world = (Inr nd, w')"
proof -
  let ?d = "done_world\<lparr>uploads := [upload_row0\<lparr>up_offset := 6, up_hash := Some ''abcdef'', up_locked := Some lockWindow\<rparr>]\<rparr>"
  have lock: "LockUpload 7 3 done_world = (Inr (scanUpload (hd (uploads ?d)), ''abcdef''), ?d)"
    by (simp add: done_world_def upload_world_eval cong: run_cong)
  have d: "nodes ?d = nodes shared_world" "users ?d = users shared_world" "faults ?d = []" "entropy ?d = [''raw'']"
    "disk ?d = [(''.staging/ab'', ''abcdef'')]" "blobs ?d = []" "versions ?d = []" "next_id ?d = 4"
    by (simp_all add: done_world_def upload_world_def shared_world_rows done_blobs)
  let ?d2 = "?d\<lparr>entropy := [], disk := [(''72/61/726177'', ''abcdef'')]\<rparr>"
  have commit: "fs_CommitPartial ''.staging/ab'' ?d = (Inr ''72/61/726177'', ?d2)"
    by (rule done_commit) (use d in auto)
  obtain nd w2 where "PutFile demo_ext (put_of ''f'' ''72/61/726177'' (sha256 demo_ext ''abcdef'') 6) ?d2 = (Inr nd, w2)"
    using done_put [of ?d2 "''72/61/726177''" "sha256 demo_ext ''abcdef''"] d by (simp add: shared_world_rows) blast
  then have fin: "FinishStaged demo_service demo_ext 7 0 ''f'' ''.staging/ab'' 6 (sha256 demo_ext ''abcdef'') ''text/plain'' ?d = (Inr nd, w2)"
    by (intro FinishStaged_run [OF commit]) (simp_all add: blob_input_def put_of_def demo_service_def)
  have own: "WriteOwnerFor 7 0 ?d = (Inr 7, ?d)"
    by (rule done_owner) (use d in \<open>auto simp: shared_world_rows\<close>)
  have stat: "fs_Stat ''.staging/ab'' ?d = (Inr 6, ?d)"
    using d(3,5) by (simp add: fs_Stat_def pathFor_good staging_key dget_def tree_eval cong: run_cong)
  have "\<exists>s. scanUpload (hd (uploads ?d)) = s \<and> US_OwnerID s = 7 \<and> US_ParentID s = 0 \<and> US_Name s = ''f'' \<and>
      US_MIME s = ''text/plain'' \<and> US_Size s = 6 \<and> US_Offset s = 6 \<and> US_StagingKey s = ''.staging/ab''"
    by (simp add: scanUpload_def upload_row0_def)
  then obtain s where s: "scanUpload (hd (uploads ?d)) = s" "US_OwnerID s = 7" "US_ParentID s = 0" "US_Name s = ''f''"
      "US_MIME s = ''text/plain''" "US_Size s = 6" "US_Offset s = 6" "US_StagingKey s = ''.staging/ab''" by blast
  obtain q w3 where "DeleteUpload 7 3 w2 = (q, w3)" by fastforce
  then show ?thesis
    unfolding FinishUpload_def
    by (cases q) (simp_all add: lock [unfolded s(1)] s(2-) stat own fin run_eval wrapM_def Complete_def fs_StatPartial_def split: prod.splits)
qed


section \<open>Two more ways to lose bytes\<close>

text \<open>A body that ends before its announced length is an error to the chunked path, but below the threshold
  of the whole-file path it is taken for the end of the file: the cut-off file is stored as if it
  were whole.\<close>

theorem cut_off_upload_is_stored:
  assumes "sv_cas sv" and "int (length bs) < WholeFileThreshold"
  shows "Upload sv x own p nm (bs, True) True mime = Upload sv x own p nm (bs, False) early mime"
  using assms by (simp add: Upload_def)

text \<open>The sweep of the staging area takes every file no session names, but a session's file exists before
  the session's row: a sweep in between removes it, and the session is created all the same.  Its
  appends then succeed without storing a byte.\<close>

lemma raw_staging: "''.staging'' @ ''/'' @ hex_encode ''raw'' = ''.staging/726177''" "goodKey ''.staging/726177''"
  by code_simp+


abbreviation shared_nodes :: "node_row list" where
  "shared_nodes \<equiv> [folder_row 0 None [] ''/'', folder_row 1 (Some 0) ''e'' ''/e'', folder_row 2 (Some 1) ''x'' ''/e/x'']"

lemma race_create:
  "faults w = [] \<Longrightarrow> disk w = [] \<Longrightarrow> entropy w = [''raw''] \<Longrightarrow>
   fs_CreatePartial w = (Inr ''.staging/726177'', w\<lparr>entropy := [], disk := [(''.staging/726177'', [])]\<rparr>)"
  using raw_staging
  by (simp add: fs_CreatePartial_def stagingDir_def randRead_def pathFor_good dget_def dput_def tree_eval cong: run_cong del: hex_encode.simps)

lemma race_sweep:
  "faults w = [] \<Longrightarrow> disk w = [(''.staging/726177'', [])] \<Longrightarrow> uploads w = [] \<Longrightarrow>
   collectExpiredUploads demo_service w = (Inr (0, 1), w\<lparr>disk := []\<rparr>)"
  using raw_staging(2)
  by (simp add: collectExpiredUploads_def demo_service_def ExpiredUploads_def AllStagingKeys_def fs_WalkStaging_def staged_keys_def
    stagingDir_def HasPrefix_def fs_RemovePartial_def fs_Delete_def pathFor_good ddel_def dget_def tree_eval cong: run_cong)

lemma race_insert:
  "now w = 0 \<Longrightarrow> nodes w = shared_nodes \<Longrightarrow> users w = [alice, carol] \<Longrightarrow> faults w = [] \<Longrightarrow> uploads w = [] \<Longrightarrow> next_id w = 4 \<Longrightarrow>
   \<exists>s. US_ID s = 4 \<and> store_CreateUpload 7 0 ''f'' ''text/plain'' 6 ''.staging/726177'' 100 w =
     (Inr s, w\<lparr>next_id := 5, uploads := [upload_row0\<lparr>up_id := 4, up_key := ''.staging/726177'', up_created := 0, up_expires := 100\<rparr>]\<rparr>)"
  by (simp add: store_CreateUpload_def scanUpload_def done_owner insert_upload_def upload_check_def upload_fks_def folder_row_def upload_row0_def alice_def tree_eval cong: run_cong)

lemma race_append:
  "now w = 0 \<Longrightarrow> faults w = [] \<Longrightarrow> uploads w = [upload_row0\<lparr>up_id := 4, up_key := ''.staging/726177'', up_created := 0, up_expires := 100\<rparr>] \<Longrightarrow>
   disk w = [] \<Longrightarrow> \<exists>s w'. AppendChunk 7 4 0 (body ''abc'') w = (Inr s, w') \<and> US_Offset s = 0 \<and> disk w' = []"
  by (simp add: upload_row0_def upload_eval raw_staging body_def tree_eval cong: run_cong)

theorem sweep_races_create:
  "let (k, w1) = fs_CreatePartial (shared_world\<lparr>entropy := [''raw'']\<rparr>);
       (q, w2) = collectExpiredUploads demo_service w1;
       (s, w3) = store_CreateUpload 7 0 ''f'' ''text/plain'' 6 ''.staging/726177'' 100 w2;
       (r, w4) = AppendChunk 7 4 0 (body ''abc'') w3
   in k = Inr ''.staging/726177'' \<and> q = Inr (0, 1) \<and> map_sum id US_ID s = Inr 4 \<and> map_sum id US_Offset r = Inr 0 \<and> disk w4 = []"
proof -
  let ?w = "shared_world\<lparr>entropy := [''raw'']\<rparr>"
  let ?w1 = "?w\<lparr>entropy := [], disk := [(''.staging/726177'', [])]\<rparr>"
  let ?w2 = "?w1\<lparr>disk := []\<rparr>"
  let ?w3 = "?w2\<lparr>next_id := 5, uploads := [upload_row0\<lparr>up_id := 4, up_key := ''.staging/726177'', up_created := 0, up_expires := 100\<rparr>]\<rparr>"
  note base = shared_world_rows shared_world_now done_blobs
  have create: "fs_CreatePartial ?w = (Inr ''.staging/726177'', ?w1)"
    by (rule race_create) (simp_all add: base)
  have sweep: "collectExpiredUploads demo_service ?w1 = (Inr (0, 1), ?w2)"
    by (rule race_sweep) (simp_all add: base)
  obtain s where s: "US_ID s = 4" "store_CreateUpload 7 0 ''f'' ''text/plain'' 6 ''.staging/726177'' 100 ?w2 = (Inr s, ?w3)"
    using race_insert [of ?w2] by (auto simp: base)
  obtain r w4 where r: "AppendChunk 7 4 0 (body ''abc'') ?w3 = (Inr r, w4)" "US_Offset r = 0" "disk w4 = []"
    using race_append [of ?w3] by (auto simp: base)
  show ?thesis
    unfolding create sweep s(2) r(1) Let_def prod.case using s(1) r(2,3) by simp
qed
end
