(* ===== verification/Jobs.thy ===== *)
theory Jobs
  imports World
begin

text \<open>
  The work queue of \<open>server/internal/jobs\<close>: the table of migration 00011 with its partial unique
  index, the statements of \<open>store.go\<close>, and the worker loop of \<open>runner.go\<close>.  The queue lives beside
  the tables of \<open>World\<close>, whose \<open>nodes\<close> and \<open>file_versions\<close> the bulk enqueues read.
\<close>

section \<open>The table\<close>

datatype job_state = StateQueued | StateRunning | StateDone | StateFailed

record job_row =
  j_id :: nat
  j_kind :: string
  j_node :: "nat option"
  j_owner :: nat
  j_state :: job_state
  j_attempts :: int
  j_max :: int
  j_after :: int
  j_claimed :: "int option"
  j_error :: "string option"
  j_created :: int
  j_updated :: int

record jworld = world +
  jobs :: "job_row list"

definition ErrNoJob :: goerr where "ErrNoJob = Sentinel ''no runnable job''"
definition ErrOwnerQueueFull :: goerr where "ErrOwnerQueueFull = Sentinel ''owner has too many queued jobs''"
definition defaultMaxAttempts :: int where "defaultMaxAttempts = 5"

record Job =
  J_ID :: nat
  J_Kind :: string
  J_NodeID :: "nat option"
  J_OwnerID :: nat
  J_State :: job_state
  J_Attempts :: int
  J_MaxAttempts :: int
  J_RunAfter :: int
  J_LastError :: string
  J_CreatedAt :: int

definition scanJob :: "job_row \<Rightarrow> Job" where
  "scanJob j = \<lparr>J_ID = j_id j, J_Kind = j_kind j, J_NodeID = j_node j, J_OwnerID = j_owner j, J_State = j_state j,
     J_Attempts = j_attempts j, J_MaxAttempts = j_max j, J_RunAfter = j_after j,
     J_LastError = (case j_error j of None \<Rightarrow> [] | Some s \<Rightarrow> s), J_CreatedAt = j_created j\<rparr>"

text \<open>\<open>jobs_pending_unique\<close>: among the pending rows a kind and a (non-null) node occur together once.\<close>

definition pending :: "job_row \<Rightarrow> bool" where
  "pending j \<longleftrightarrow> j_state j = StateQueued \<or> j_state j = StateRunning"

definition pending_keys :: "job_row list \<Rightarrow> (string \<times> nat option) list" where
  "pending_keys js = map (\<lambda>j. (j_kind j, j_node j)) (filter (\<lambda>j. pending j \<and> j_node j \<noteq> None) js)"

section \<open>Statements\<close>

definition jdbM :: "(jworld, unit) m" where
  "jdbM = ioM db_err"

definition jselectM :: "(jworld \<Rightarrow> 'a) \<Rightarrow> (jworld, 'a) m" where
  "jselectM f = thenM jdbM (getM f)"

text \<open>\<open>UPDATE jobs SET ... WHERE ...\<close>; the result is the rows it touched, as they are now.\<close>

definition update_jobs :: "(jworld \<Rightarrow> job_row \<Rightarrow> bool) \<Rightarrow> (int \<Rightarrow> job_row \<Rightarrow> job_row) \<Rightarrow> (jworld, job_row list) m" where
  "update_jobs p f =
     thenM jdbM
     (bindM (getM id) (\<lambda>w.
      let js = map (\<lambda>j. if p w j then (f (now w) j)\<lparr>j_updated := now w\<rparr> else j) (jobs w)
      in if \<not> distinct (pending_keys js) then raise unique_violation
         else thenM (modM (\<lambda>v. v\<lparr>jobs := js\<rparr>))
              (ret (map (\<lambda>j. (f (now w) j)\<lparr>j_updated := now w\<rparr>) (filter (p w) (jobs w))))))"

definition delete_jobs :: "(jworld \<Rightarrow> job_row \<Rightarrow> bool) \<Rightarrow> (jworld, int) m" where
  "delete_jobs p =
     thenM jdbM
     (bindM (getM id) (\<lambda>w.
      thenM (modM (\<lambda>v. v\<lparr>jobs := filter (\<lambda>j. \<not> p w j) (jobs v)\<rparr>))
      (ret (int (length (filter (p w) (jobs w)))))))"

text \<open>
  The row of an \<open>INSERT ... ON CONFLICT ... DO NOTHING\<close>, which may come to nothing.  The foreign keys
  are those of the migration.
\<close>

definition new_job :: "int \<Rightarrow> nat \<Rightarrow> string \<Rightarrow> nat option \<Rightarrow> nat \<Rightarrow> job_row" where
  "new_job t i kind nd owner =
     \<lparr>j_id = i, j_kind = kind, j_node = nd, j_owner = owner, j_state = StateQueued, j_attempts = 0,
      j_max = defaultMaxAttempts, j_after = t, j_claimed = None, j_error = None, j_created = t, j_updated = t\<rparr>"

definition job_fks :: "jworld \<Rightarrow> nat option \<Rightarrow> nat \<Rightarrow> bool" where
  "job_fks w nd owner \<longleftrightarrow> (case nd of None \<Rightarrow> True | Some n \<Rightarrow> n \<in> set (map n_id (nodes w))) \<and>
     owner \<in> set (map u_id (users w))"

definition insert_job :: "string \<Rightarrow> nat option \<Rightarrow> nat \<Rightarrow> jworld \<Rightarrow> nat option \<times> jworld" where
  "insert_job kind nd owner w =
     (if nd \<noteq> None \<and> (kind, nd) \<in> set (pending_keys (jobs w)) then (None, w)
      else (Some (next_id w), w\<lparr>next_id := Suc (next_id w), jobs := jobs w @ [new_job (now w) (next_id w) kind nd owner]\<rparr>))"

section \<open>The store\<close>

definition Enqueue :: "string \<Rightarrow> nat option \<Rightarrow> nat \<Rightarrow> int \<Rightarrow> (jworld, nat option) m" where
  "Enqueue kind nd owner cap =
     thenM
       (if cap > 0 then
          bindM (jselectM (\<lambda>w. int (length (filter (\<lambda>j. j_owner j = owner \<and> j_state j = StateQueued) (jobs w))))) (\<lambda>queued.
          guardM (\<not> queued \<ge> cap) ErrOwnerQueueFull)
        else ret ())
       (wrapM ''enqueue''
         (thenM jdbM
          (bindM (getM id) (\<lambda>w. case insert_job kind nd owner w of
             (None, _) \<Rightarrow> ret None
           | (Some i, w') \<Rightarrow>
               if \<not> job_fks w nd owner then raise fk_violation
               else thenM (modM (\<lambda>_. w')) (ret (Some i))))))"

text \<open>
  \<open>locked\<close> are the rows other transactions hold at this moment, which \<open>SKIP LOCKED\<close> passes over.
\<close>

definition runnable :: "string list \<Rightarrow> nat list \<Rightarrow> jworld \<Rightarrow> job_row \<Rightarrow> bool" where
  "runnable kinds locked w j \<longleftrightarrow> j_state j = StateQueued \<and> j_after j \<le> now w \<and> j_kind j \<in> set kinds \<and> j_id j \<notin> set locked"

definition next_job :: "string list \<Rightarrow> nat list \<Rightarrow> jworld \<Rightarrow> nat option" where
  "next_job kinds locked w =
     (case sort_key j_after (filter (runnable kinds locked w) (jobs w)) of [] \<Rightarrow> None | j # _ \<Rightarrow> Some (j_id j))"

definition Claim :: "string list \<Rightarrow> nat list \<Rightarrow> (jworld, Job) m" where
  "Claim kinds locked =
     bindM (wrapM ''claim'' (update_jobs (\<lambda>w j. next_job kinds locked w = Some (j_id j))
       (\<lambda>t j. j\<lparr>j_state := StateRunning, j_attempts := j_attempts j + 1, j_claimed := Some t\<rparr>))) (\<lambda>rows. case rows of
       [] \<Rightarrow> raise ErrNoJob
     | j # _ \<Rightarrow> ret (scanJob j))"

definition job_Complete :: "nat \<Rightarrow> (jworld, unit) m" where
  "job_Complete i =
     thenM (update_jobs (\<lambda>w j. j_id j = i) (\<lambda>t j. j\<lparr>j_state := StateDone, j_error := None\<rparr>)) (ret ())"

text \<open>\<open>err.Error()\<close>, and what PostgreSQL takes as \<open>text\<close>: valid UTF-8 without a zero byte.\<close>

fun Error :: "goerr \<Rightarrow> string" where
  "Error (Sentinel s) = s"
| "Error (Msg s) = s"
| "Error (Io s) = s"
| "Error (Wrap w e) = w @ '': '' @ Error e"

definition errPanic :: goerr where "errPanic = Sentinel ''handler panicked''"

text \<open>
  Why a job failed: an error, or what \<open>dispatch\<close> makes of a recovered panic,
  \<open>fmt.Errorf("%w: %v", errPanic, rec)\<close>, which wraps \<open>errPanic\<close> and prints it first.
\<close>

datatype cause = Cause goerr | Panicked string

definition cause_text :: "cause \<Rightarrow> string" where
  "cause_text c = (case c of Cause e \<Rightarrow> Error e | Panicked v \<Rightarrow> Error errPanic @ '': '' @ v)"

definition panicked :: "cause \<Rightarrow> bool" where
  "panicked c = (case c of Cause e \<Rightarrow> errors_Is e errPanic | Panicked v \<Rightarrow> True)"

definition truncErr :: "cause option \<Rightarrow> string" where
  "truncErr err = (case err of None \<Rightarrow> [] | Some c \<Rightarrow> (let s = cause_text c in if length s > 2000 then take 2000 s else s))"

definition pg_text :: "string \<Rightarrow> bool" where
  "pg_text s \<longleftrightarrow> list_all (\<lambda>ch. 1 < length ch \<or> ascii ch) (runes s) \<and> CHR 0x00 \<notin> set s"

definition encoding_violation :: goerr where
  "encoding_violation = Sentinel ''22021''"

definition second :: int where "second = 1000000000"

definition job_backoff :: "int \<Rightarrow> int" where
  "job_backoff attempts = min (2 ^ nat attempts * second) (3600 * second)"

definition retry_or_bury :: "job_row \<Rightarrow> job_state" where
  "retry_or_bury j = (if j_attempts j \<ge> j_max j then StateFailed else StateQueued)"

definition job_Fail :: "nat \<Rightarrow> cause \<Rightarrow> (jworld, unit) m" where
  "job_Fail i cause =
     (let msg = truncErr (Some cause) in
      if \<not> pg_text msg then thenM jdbM (raise encoding_violation)
      else thenM (update_jobs (\<lambda>w j. j_id j = i)
        (\<lambda>t j. j\<lparr>j_state := retry_or_bury j, j_after := t + job_backoff (j_attempts j), j_error := Some msg\<rparr>)) (ret ()))"

definition ReapStale :: "int \<Rightarrow> (jworld, int) m" where
  "ReapStale lease =
     bindM (update_jobs (\<lambda>w j. j_state j = StateRunning \<and> (case j_claimed j of None \<Rightarrow> False | Some t \<Rightarrow> t < now w - lease))
       (\<lambda>t j. j\<lparr>j_state := retry_or_bury j, j_error := Some ''worker lease expired''\<rparr>)) (\<lambda>rows.
     ret (int (length rows)))"

definition DeleteFinished :: "int \<Rightarrow> (jworld, int) m" where
  "DeleteFinished retention =
     delete_jobs (\<lambda>w j. (j_state j = StateDone \<or> j_state j = StateFailed) \<and> j_updated j < now w - retention)"

definition DeleteStaleQueued :: "int \<Rightarrow> (jworld, int) m" where
  "DeleteStaleQueued ttl =
     delete_jobs (\<lambda>w j. j_state j = StateQueued \<and> j_attempts j = 0 \<and> j_created j < now w - ttl)"

text \<open>
  \<open>INSERT ... SELECT\<close>: each row in turn, so a later one can meet an earlier one in the index.  The
  foreign keys hold because the rows come from \<open>nodes\<close>.
\<close>

definition enqueue_all :: "string \<Rightarrow> (jworld \<Rightarrow> node_row \<Rightarrow> bool) \<Rightarrow> (jworld, int) m" where
  "enqueue_all kind p =
     thenM jdbM
     (bindM (getM id) (\<lambda>w.
      case fold (\<lambda>n (k, v). case insert_job kind (Some (n_id n)) (n_owner n) v of
                   (None, v') \<Rightarrow> (k, v') | (Some _, v') \<Rightarrow> (k + 1, v'))
             (filter (p w) (nodes w)) (0, w) of
        (k, w') \<Rightarrow>
          thenM (modM (\<lambda>_. w')) (ret k)))"

definition EnqueueForAllFiles :: "string \<Rightarrow> (jworld, int) m" where
  "EnqueueForAllFiles kind = enqueue_all kind (\<lambda>w n. n_kind n = KindFile \<and> n_trashed n = None)"

definition media_mime :: "string \<Rightarrow> bool" where
  "media_mime s \<longleftrightarrow> HasPrefix s ''image/'' \<or> HasPrefix s ''video/''"

definition EnqueueForAllMediaFiles :: "string \<Rightarrow> (jworld, int) m" where
  "EnqueueForAllMediaFiles kind =
     enqueue_all kind (\<lambda>w n. n_kind n = KindFile \<and> n_trashed n = None \<and>
       list_ex (\<lambda>v. n_head n = Some (v_id v) \<and> media_mime (v_mime v)) (versions w))"

definition ListFailed :: "int \<Rightarrow> (jworld, Job list) m" where
  "ListFailed limit =
     (let lim = (if limit \<le> 0 \<or> limit > 1000 then 100 else limit) in
      jselectM (\<lambda>w. map scanJob (take (nat lim)
        (sort_key (\<lambda>j. - j_updated j) (filter (\<lambda>j. j_state j = StateFailed) (jobs w))))))"

definition RetryFailed :: "string \<Rightarrow> (jworld, int) m" where
  "RetryFailed kind =
     bindM (update_jobs (\<lambda>w j. j_state j = StateFailed \<and> (kind = [] \<or> j_kind j = kind))
       (\<lambda>t j. j\<lparr>j_state := StateQueued, j_attempts := 0, j_after := t, j_error := None\<rparr>)) (\<lambda>rows.
     ret (int (length rows)))"

definition job_Stats :: "(jworld, (job_state \<times> int) list) m" where
  "job_Stats = jselectM (\<lambda>w. map (\<lambda>s. (s, int (length (filter (\<lambda>j. j_state j = s) (jobs w)))))
     (remdups (map j_state (jobs w))))"

section \<open>The runner\<close>

text \<open>
  A handler may change the state (it enqueues the jobs that follow from its own) and ends by
  returning nil, returning an error, or panicking with a value that is printed.
\<close>

datatype outcome = HandlerOk | HandlerErr goerr | HandlerPanics string

type_synonym handler = "Job \<Rightarrow> jworld \<Rightarrow> outcome \<times> jworld"

record runner =
  rn_handlers :: "(string \<times> handler) list"
  rn_idle :: int
  rn_lease :: int

definition NewRunner :: "int \<Rightarrow> int \<Rightarrow> runner" where
  "NewRunner idle lease = \<lparr>rn_handlers = [], rn_idle = (if idle \<le> 0 then 2 * second else idle),
     rn_lease = (if lease \<le> 0 then 600 * second else lease)\<rparr>"

definition Register :: "string \<Rightarrow> handler \<Rightarrow> runner \<Rightarrow> runner" where
  "Register kind h r = r\<lparr>rn_handlers := AList.update kind h (rn_handlers r)\<rparr>"

definition kinds :: "runner \<Rightarrow> string list" where
  "kinds r = map fst (rn_handlers r)"

definition dispatch :: "handler \<Rightarrow> Job \<Rightarrow> (jworld, cause option) m" where
  "dispatch h j = (\<lambda>w. case h j w of
      (HandlerOk, w') \<Rightarrow> (Inr None, w')
    | (HandlerErr e, w') \<Rightarrow> (Inr (Some (Cause e)), w')
    | (HandlerPanics v, w') \<Rightarrow> (Inr (Some (Panicked v)), w'))"

definition job_outcome :: "cause option \<Rightarrow> string" where
  "job_outcome herr = (case herr of None \<Rightarrow> ''done'' | Some e \<Rightarrow> if panicked e then ''panic'' else ''failed'')"

text \<open>The second result is what the \<open>observe\<close> hook is told.\<close>

definition run_step :: "runner \<Rightarrow> nat list \<Rightarrow> (jworld, bool \<times> (string \<times> string) option) m" where
  "run_step r locked =
     (if kinds r = [] then ret (False, None)
      else bindM (tryM (Claim (kinds r) locked)) (\<lambda>q. case q of
        Inl e \<Rightarrow> (if errors_Is e ErrNoJob then ret (False, None) else raise e)
      | Inr j \<Rightarrow>
          (case map_of (rn_handlers r) (J_Kind j) of
             None \<Rightarrow> thenM (job_Fail (J_ID j) (Cause (Msg (''no handler for kind '' @ J_Kind j)))) (ret (True, None))
           | Some h \<Rightarrow>
               bindM (dispatch h j) (\<lambda>herr.
               thenM (case herr of Some e \<Rightarrow> job_Fail (J_ID j) e | None \<Rightarrow> job_Complete (J_ID j))
               (ret (True, Some (J_Kind j, job_outcome herr)))))))"

text \<open>One turn of \<open>Run\<close>; the result says whether the loop goes on without waiting.\<close>

definition run_turn :: "runner \<Rightarrow> bool \<Rightarrow> nat list \<Rightarrow> (jworld, bool) m" where
  "run_turn r reaper_due locked =
     bindM (if reaper_due then tryM (ReapStale (rn_lease r)) else ret (Inr 0)) (\<lambda>_.
     bindM (tryM (run_step r locked)) (\<lambda>q. case q of Inl _ \<Rightarrow> ret False | Inr (worked, _) \<Rightarrow> ret worked))"

end
