(* ===== verification/JobsInv.thy ===== *)
theory JobsInv
  imports Jobs
begin

text \<open>
  How each statement of the queue changes the table, and the invariant every operation keeps: ids are
  distinct and used up, no kind and node are pending twice, and every row's attempts fit its state.
\<close>

section \<open>What a statement does\<close>

lemma jdbM_cases:
  assumes "jdbM w = (r, w')"
  obtains bs where "w' = w\<lparr>faults := bs\<rparr>" "r = Inr () \<or> r = Inl db_err \<and> faults w \<noteq> []"
  using assms unfolding jdbM_def ioM_def
  by (cases "faults w") (auto split: if_splits intro: that [of "faults w'"])

lemma stmt_cases:
  assumes "thenM jdbM c w = (r, w')"
  obtains bs where "r = Inl db_err" "w' = w\<lparr>faults := bs\<rparr>" | bs where "c (w\<lparr>faults := bs\<rparr>) = (r, w')"
  using assms
proof (cases rule: thenM_cases)
  case (1 e)
  then show ?thesis using that(1) by (elim jdbM_cases) auto
next
  case (2 x t)
  then show ?thesis using that(2) by (elim jdbM_cases) auto
qed

lemma update_jobs_run:
  assumes "update_jobs p f w = (r, w')"
  obtains bs e where "r = Inl e" "w' = w\<lparr>faults := bs\<rparr>"
  | bs where "r = Inr (map (\<lambda>j. (f (now w) j)\<lparr>j_updated := now w\<rparr>) (filter (p (w\<lparr>faults := bs\<rparr>)) (jobs w)))"
      "w' = w\<lparr>faults := bs, jobs := map (\<lambda>j. if p (w\<lparr>faults := bs\<rparr>) j then (f (now w) j)\<lparr>j_updated := now w\<rparr> else j) (jobs w)\<rparr>"
      "distinct (pending_keys (jobs w'))"
  using assms [unfolded update_jobs_def]
proof (cases rule: stmt_cases)
  case (1 bs)
  then show ?thesis by (rule that(1))
next
  case (2 bs)
  then show ?thesis
    using that by (auto simp: run_iffs Let_def id_def bindM_getM elim!: thenM_cases split: if_splits cong: if_cong)
qed

lemma delete_jobs_run:
  assumes "delete_jobs p w = (r, w')"
  obtains bs e where "r = Inl e" "w' = w\<lparr>faults := bs\<rparr>"
  | bs where "r = Inr (int (length (filter (p (w\<lparr>faults := bs\<rparr>)) (jobs w))))"
     "w' = w\<lparr>faults := bs, jobs := filter (\<lambda>j. \<not> p (w\<lparr>faults := bs\<rparr>) j) (jobs w)\<rparr>"
  using assms [unfolded delete_jobs_def]
proof (cases rule: stmt_cases)
  case (1 bs)
  then show ?thesis by (rule that(1))
next
  case (2 bs)
  then show ?thesis using that(2) by (auto simp: run_iffs id_def bindM_getM thenM_modM)
qed

section \<open>The shape of the queue\<close>

text \<open>
  A job never runs more often than it may, a queued one has an attempt left, and a running one knows
  when it was claimed.
\<close>

definition job_ok :: "job_row \<Rightarrow> bool" where
  "job_ok j \<longleftrightarrow> 0 \<le> j_attempts j \<and> j_attempts j \<le> j_max j \<and> j_max j = defaultMaxAttempts \<and>
     (j_state j = StateQueued \<longrightarrow> j_attempts j < j_max j) \<and>
     (j_state j = StateRunning \<longrightarrow> j_claimed j \<noteq> None \<and> 0 < j_attempts j)"

definition jobs_ok :: "jworld \<Rightarrow> bool" where
  "jobs_ok w \<longleftrightarrow> distinct (map j_id (jobs w)) \<and> distinct (pending_keys (jobs w)) \<and>
     (\<forall>j \<in> set (jobs w). j_id j < next_id w \<and> job_ok j)"

lemma jobs_ok_frame:
  "jobs_ok w \<Longrightarrow> jobs w' = jobs w \<Longrightarrow> next_id w \<le> next_id w' \<Longrightarrow> jobs_ok w'"
  by (auto simp: jobs_ok_def)

lemma jobs_ok_faults [simp]: "jobs_ok (w\<lparr>faults := bs\<rparr>) = jobs_ok w"
  by (simp add: jobs_ok_def)

lemma pending_keys_filter: "distinct (pending_keys js) \<Longrightarrow> distinct (pending_keys (filter p js))"
  unfolding pending_keys_def filter_filter
  by (subst conj_commute, subst filter_filter [symmetric]) (rule distinct_map_filter)

lemma update_jobs_ok:
  assumes "update_jobs p f w = (r, w')" and "jobs_ok w" and "\<And>t j. j_id (f t j) = j_id j"
    and "\<And>bs j. j \<in> set (jobs w) \<Longrightarrow> p (w\<lparr>faults := bs\<rparr>) j \<Longrightarrow> job_ok j \<Longrightarrow> job_ok (f (now w) j)"
  shows "jobs_ok w'"
  using assms(1)
proof (cases rule: update_jobs_run)
  case (1 bs e)
  with assms(2) show ?thesis by simp
next
  case (2 bs)
  define g where "g j = (if p (w\<lparr>faults := bs\<rparr>) j then (f (now w) j)\<lparr>j_updated := now w\<rparr> else j)" for j
  have jobs: "jobs w' = map g (jobs w)" "next_id w' = next_id w" using 2(2) by (simp_all add: g_def [abs_def])
  have id: "j_id (g j) = j_id j" for j by (simp add: assms(3) g_def)
  have ok: "job_ok (g j)" if "j \<in> set (jobs w)" for j
  proof -
    have "job_ok (j\<lparr>j_updated := t\<rparr>) = job_ok j" for j t by (simp add: job_ok_def)
    then show ?thesis using assms(2,4) that by (auto simp: jobs_ok_def g_def)
  qed
  have "j_id \<circ> g = j_id" using id by auto
  then show ?thesis using assms(2) 2(3) id ok unfolding jobs_ok_def jobs by auto
qed

lemma delete_jobs_ok:
  assumes "delete_jobs p w = (r, w')" and "jobs_ok w"
  shows "jobs_ok w'"
  using assms(1)
  by (cases rule: delete_jobs_run) (use assms(2) in \<open>auto simp: jobs_ok_def distinct_map_filter pending_keys_filter\<close>)

lemma insert_job_ok:
  assumes "insert_job kind nd owner w = (r, w')" and "jobs_ok w"
  shows "jobs_ok w'"
proof (cases "nd \<noteq> None \<and> (kind, nd) \<in> set (pending_keys (jobs w))")
  case True
  with assms show ?thesis by (simp add: insert_job_def)
next
  case False
  with assms(1) have w': "w' = w\<lparr>next_id := Suc (next_id w), jobs := jobs w @ [new_job (now w) (next_id w) kind nd owner]\<rparr>"
    by (auto simp: insert_job_def split: if_splits)
  have "pending_keys (jobs w') = pending_keys (jobs w) @ (if nd = None then [] else [(kind, nd)])"
    by (simp add: w' pending_keys_def new_job_def pending_def)
  with False assms(2) have "distinct (pending_keys (jobs w'))" by (cases nd) (auto simp: jobs_ok_def)
  with assms(2) show ?thesis
    by (auto simp: jobs_ok_def w' new_job_def job_ok_def defaultMaxAttempts_def)
qed

lemma keeps_jdbM: "keeps jobs_ok jdbM"
  unfolding jdbM_def by (intro keeps_intros) (simp add: fault_free_def)

lemma Enqueue_ok: "keeps jobs_ok (Enqueue kind nd owner cap)"
proof -
  have insert: "keeps jobs_ok (bindM (getM id) (\<lambda>w. case insert_job kind nd owner w of
             (None, _) \<Rightarrow> ret None
           | (Some i, w') \<Rightarrow> if \<not> job_fks w nd owner then raise fk_violation else thenM (modM (\<lambda>_. w')) (ret (Some i))))"
    unfolding keeps_def
  proof (intro allI impI)
    fix w assume "jobs_ok w"
    obtain q w' where q: "insert_job kind nd owner w = (q, w')" by fastforce
    with \<open>jobs_ok w\<close> have "jobs_ok w'" by (rule insert_job_ok [rotated])
    with \<open>jobs_ok w\<close> q show "jobs_ok (snd (bindM (getM id) (\<lambda>w. case insert_job kind nd owner w of
             (None, _) \<Rightarrow> ret None
           | (Some i, w') \<Rightarrow> if \<not> job_fks w nd owner then raise fk_violation else thenM (modM (\<lambda>_. w')) (ret (Some i))) w))"
      by (auto simp: bindM_getM id_def monad_defs split: option.split)
  qed
  show ?thesis
    unfolding Enqueue_def jselectM_def
    by (rule keeps_thenM, intro keeps_intros keeps_jdbM, rule keeps_wrapM, rule keeps_thenM, rule keeps_jdbM, rule insert)
qed

lemma enqueue_all_ok: "keeps jobs_ok (enqueue_all kind p)"
proof -
  let ?st = "\<lambda>n (k, v). case insert_job kind (Some (n_id n)) (n_owner n) v of
                   (None, v') \<Rightarrow> (k, v') | (Some _, v') \<Rightarrow> (k + 1, v')"
  have loop: "jobs_ok (snd (fold ?st ns (k, v)))" if "jobs_ok v" for ns and k :: int and v
    using that
  proof (induction ns arbitrary: k v)
    case (Cons n ns)
    obtain q v' where q: "insert_job kind (Some (n_id n)) (n_owner n) v = (q, v')" by fastforce
    with Cons.prems have "jobs_ok v'" by (rule insert_job_ok [rotated])
    with Cons.IH q show ?case by (cases q) auto
  qed simp
  have "keeps jobs_ok (bindM (getM id) (\<lambda>w. case fold ?st (filter (p w) (nodes w)) (0 :: int, w) of
        (k, w') \<Rightarrow> thenM (modM (\<lambda>_. w')) (ret k)))"
    unfolding keeps_def
  proof (intro allI impI)
    fix w assume "jobs_ok w"
    then have "jobs_ok (snd (fold ?st (filter (p w) (nodes w)) (0 :: int, w)))" by (rule loop)
    then show "jobs_ok (snd (bindM (getM id) (\<lambda>w. case fold ?st (filter (p w) (nodes w)) (0 :: int, w) of
        (k, w') \<Rightarrow> thenM (modM (\<lambda>_. w')) (ret k)) w))"
      by (simp add: bindM_getM id_def monad_defs split_beta)
  qed
  then show ?thesis unfolding enqueue_all_def by (rule keeps_thenM [OF keeps_jdbM])
qed

lemma keeps_update_jobs:
  assumes "\<And>t j. j_id (f t j) = j_id j"
    and "\<And>w j. jobs_ok w \<Longrightarrow> j \<in> set (jobs w) \<Longrightarrow> p w j \<Longrightarrow> job_ok j \<Longrightarrow> job_ok (f (now w) j)"
  shows "keeps jobs_ok (update_jobs p f)"
  unfolding keeps_def
proof (intro allI impI)
  fix w assume w: "jobs_ok w"
  obtain r w' where run: "update_jobs p f w = (r, w')" by fastforce
  have "jobs_ok w'"
  proof (rule update_jobs_ok [OF run w assms(1)])
    fix bs j assume "j \<in> set (jobs w)" "p (w\<lparr>faults := bs\<rparr>) j" "job_ok j"
    with w assms(2) [of "w\<lparr>faults := bs\<rparr>" j] show "job_ok (f (now w) j)" by simp
  qed
  with run show "jobs_ok (snd (update_jobs p f w))" by simp
qed

lemma keeps_delete_jobs: "keeps jobs_ok (delete_jobs p)"
  unfolding keeps_def by (metis delete_jobs_ok prod.collapse)

lemma runnable_next:
  assumes "next_job ks locked w = Some i"
  obtains j where "j \<in> set (jobs w)" "j_id j = i" "runnable ks locked w j"
    "\<forall>k \<in> set (jobs w). runnable ks locked w k \<longrightarrow> j_after j \<le> j_after k"
proof -
  let ?s = "sort_key j_after (filter (runnable ks locked w) (jobs w))"
  from assms obtain j rest where s: "?s = j # rest" "j_id j = i"
    by (auto simp: next_job_def split: list.splits)
  have "sorted (map j_after ?s)" by simp
  then have le: "\<forall>k \<in> set ?s. j_after j \<le> j_after k" by (simp add: s)
  have "j \<in> set ?s" by (simp add: s)
  with le s(2) show ?thesis by (intro that [of j]) auto
qed

lemma next_job_None: "next_job ks locked w = None \<longleftrightarrow> (\<forall>j \<in> set (jobs w). \<not> runnable ks locked w j)"
proof -
  have "sort_key j_after (filter (runnable ks locked w) (jobs w)) = [] \<longleftrightarrow> filter (runnable ks locked w) (jobs w) = []"
    by (metis length_0_conv length_sort)
  then show ?thesis by (auto simp: next_job_def filter_empty_conv split: list.splits)
qed

lemma same_job: "jobs_ok w \<Longrightarrow> j \<in> set (jobs w) \<Longrightarrow> k \<in> set (jobs w) \<Longrightarrow> j_id j = j_id k \<Longrightarrow> j = k"
  by (auto simp: jobs_ok_def distinct_map inj_on_def)

lemma Claim_ok: "keeps jobs_ok (Claim ks locked)"
proof -
  have "keeps jobs_ok (update_jobs (\<lambda>w j. next_job ks locked w = Some (j_id j))
       (\<lambda>t j. j\<lparr>j_state := StateRunning, j_attempts := j_attempts j + 1, j_claimed := Some t\<rparr>))"
  proof (rule keeps_update_jobs)
    fix w j assume w: "jobs_ok w" "j \<in> set (jobs w)" "next_job ks locked w = Some (j_id j)" "job_ok j"
    from w(3) obtain k where "k \<in> set (jobs w)" "j_id k = j_id j" "runnable ks locked w k" by (rule runnable_next)
    with w same_job have "j_state j = StateQueued" by (auto simp: runnable_def)
    with w(4) show "job_ok (j\<lparr>j_state := StateRunning, j_attempts := j_attempts j + 1, j_claimed := Some (now w)\<rparr>)"
      by (simp add: job_ok_def)
  qed simp
  then show ?thesis unfolding Claim_def by (intro keeps_intros) (auto intro: keeps_intros split: list.split)
qed

lemma job_updates_ok:
  "keeps jobs_ok (job_Complete i)" "keeps jobs_ok (job_Fail i c)" "keeps jobs_ok (ReapStale lease)"
  "keeps jobs_ok (RetryFailed kind)" "keeps jobs_ok (DeleteFinished t)" "keeps jobs_ok (DeleteStaleQueued t)"
  unfolding job_Complete_def job_Fail_def ReapStale_def RetryFailed_def DeleteFinished_def DeleteStaleQueued_def Let_def
  by (intro keeps_intros keeps_update_jobs keeps_jdbM keeps_delete_jobs;
      auto simp: job_ok_def retry_or_bury_def defaultMaxAttempts_def)+

lemma job_bulk_ok: "keeps jobs_ok (EnqueueForAllFiles kind)" "keeps jobs_ok (EnqueueForAllMediaFiles kind)"
  unfolding EnqueueForAllFiles_def EnqueueForAllMediaFiles_def by (rule enqueue_all_ok)+

lemmas queue_keeps = Enqueue_ok Claim_ok job_updates_ok job_bulk_ok
end
