(* ===== verification/JobsSpec.thy ===== *)
theory JobsSpec
  imports JobsInv
begin

text \<open>
  What the queue promises to a fleet of workers: it stays well formed, a job is claimed a bounded number
  of times and by one worker at a time while leases are kept, a claim takes the job that has waited
  longest, and a retry is all or nothing; and four ways in which work is lost or repeated.
\<close>

section \<open>Claiming\<close>

definition claimed_row :: "int \<Rightarrow> job_row \<Rightarrow> job_row" where
  "claimed_row t j = j\<lparr>j_state := StateRunning, j_attempts := j_attempts j + 1, j_claimed := Some t, j_updated := t\<rparr>"

lemma runnable_faults: "runnable ks locked (w\<lparr>faults := bs\<rparr>) = runnable ks locked w"
  by (simp add: runnable_def fun_eq_iff)

lemma next_job_faults: "next_job ks locked (w\<lparr>faults := bs\<rparr>) = next_job ks locked w"
  by (simp add: next_job_def runnable_faults)

lemma Claim_run:
  assumes "Claim ks locked w = (r, w')" and "jobs_ok w"
  obtains e bs where "r = Inl e" "w' = w\<lparr>faults := bs\<rparr>" "e = ErrNoJob \<longrightarrow> next_job ks locked w = None"
  | j bs where "j \<in> set (jobs w)" "runnable ks locked w j" "\<forall>k \<in> set (jobs w). runnable ks locked w k \<longrightarrow> j_after j \<le> j_after k"
      "r = Inr (scanJob (claimed_row (now w) j))"
      "w' = w\<lparr>faults := bs, jobs := map (\<lambda>k. if j_id k = j_id j then claimed_row (now w) k else k) (jobs w)\<rparr>"
proof -
  let ?p = "\<lambda>w j. next_job ks locked w = Some (j_id j)"
  let ?f = "\<lambda>t j. j\<lparr>j_state := StateRunning, j_attempts := j_attempts j + 1, j_claimed := Some t\<rparr>"
  have ent: "(?f t j)\<lparr>j_updated := t\<rparr> = claimed_row t j" for t j by (simp add: claimed_row_def)
  show ?thesis
    using assms(1) [unfolded Claim_def]
  proof (cases rule: bindM_cases)
    case (1 e)
    then obtain e' where e: "e = Wrap ''claim'' e'" "update_jobs ?p ?f w = (Inl e', w')" by (auto simp: wrap_iffs)
    from e(2) obtain bs where "w' = w\<lparr>faults := bs\<rparr>" by (cases rule: update_jobs_run) auto
    then show ?thesis using that(1) [of e bs] 1(2) e(1) by (simp add: ErrNoJob_def)
  next
    case (2 rows v)
    from 2(1) have run: "update_jobs ?p ?f w = (Inr rows, v)" by (simp add: wrap_iffs)
    from run obtain bs where u: "rows = map (\<lambda>j. claimed_row (now w) j) (filter (?p w) (jobs w))"
      "v = w\<lparr>faults := bs, jobs := map (\<lambda>j. if ?p w j then claimed_row (now w) j else j) (jobs w)\<rparr>"
    proof (cases rule: update_jobs_run)
      case (2 bs)
      from 2(1,2) show ?thesis using that unfolding ent next_job_faults by simp
    qed simp
    show ?thesis
    proof (cases "next_job ks locked w")
      case None
      with u have "rows = []" "v = w\<lparr>faults := bs, jobs := jobs w\<rparr>" by simp_all
      with 2(2) None show ?thesis using that(1) [of ErrNoJob bs] by (simp add: raise_iff)
    next
      case (Some i)
      then obtain j where j: "j \<in> set (jobs w)" "j_id j = i" "runnable ks locked w j"
        "\<forall>k \<in> set (jobs w). runnable ks locked w k \<longrightarrow> j_after j \<le> j_after k" by (rule runnable_next)
      have "distinct (map j_id (jobs w))" using assms(2) by (simp add: jobs_ok_def)
      from filter_unique [OF this j(1)] j(2) have "filter (\<lambda>k. i = j_id k) (jobs w) = [j]" by (simp add: eq_commute)
      with u(1) Some have "rows = [claimed_row (now w) j]" by simp
      with 2(2) have "r = Inr (scanJob (claimed_row (now w) j))" "w' = v" by (simp_all add: ret_iff)
      with u(2) Some j show ?thesis by (intro that(2) [of j bs]) (simp_all add: eq_commute)
    qed
  qed
qed

section \<open>A fleet of workers\<close>

text \<open>
  Any number of workers share the table.  \<open>held\<close> says which claim a worker is working on and when it
  was made; \<open>log\<close> remembers the claims, and forgets those of a job that \<open>RetryFailed\<close> puts back.
  Statements are atomic, as in the database; handlers take any time between them, may call the
  queue themselves, and may die.  With \<open>strict\<close>, no worker holds a claim for longer than the lease.
\<close>

datatype call = CallEnqueue string "nat option" nat int | CallAllFiles string | CallAllMedia string |
  CallReap | CallDeleteFinished int | CallDeleteStale int

record fleet =
  fl_db :: jworld
  fl_held :: "nat \<Rightarrow> (Job \<times> int) option"
  fl_log :: "nat list"

fun run_call :: "int \<Rightarrow> call \<Rightarrow> jworld \<Rightarrow> jworld" where
  "run_call lease (CallEnqueue k nd owner cap) w = snd (Enqueue k nd owner cap w)"
| "run_call lease (CallAllFiles k) w = snd (EnqueueForAllFiles k w)"
| "run_call lease (CallAllMedia k) w = snd (EnqueueForAllMediaFiles k w)"
| "run_call lease CallReap w = snd (ReapStale lease w)"
| "run_call lease (CallDeleteFinished t) w = snd (DeleteFinished t w)"
| "run_call lease (CallDeleteStale t) w = snd (DeleteStaleQueued t w)"

definition within_lease :: "int \<Rightarrow> fleet \<Rightarrow> bool" where
  "within_lease lease f \<longleftrightarrow> (\<forall>k j t. fl_held f k = Some (j, t) \<longrightarrow> now (fl_db f) \<le> t + lease)"

text \<open>What the rest of the server does to the state: rows of other tables, ids, the fault schedule.\<close>

definition elsewhere :: "jworld \<Rightarrow> jworld \<Rightarrow> bool" where
  "elsewhere w w' \<longleftrightarrow> jobs w' = jobs w \<and> now w' = now w \<and> next_id w \<le> next_id w'"

inductive fleet_step :: "int \<Rightarrow> fleet \<Rightarrow> fleet \<Rightarrow> bool" for lease where
  claim: "fl_held f k = None \<Longrightarrow> Claim ks locked (fl_db f) = (Inr j, w') \<Longrightarrow>
    fleet_step lease f (f\<lparr>fl_db := w', fl_held := (fl_held f)(k \<mapsto> (j, now w')), fl_log := J_ID j # fl_log f\<rparr>)"
| finish: "fl_held f k = Some (j, t) \<Longrightarrow>
    w' = snd ((case c of None \<Rightarrow> job_Complete (J_ID j) | Some e \<Rightarrow> job_Fail (J_ID j) e) (fl_db f)) \<Longrightarrow>
    fleet_step lease f (f\<lparr>fl_db := w', fl_held := (fl_held f)(k := None)\<rparr>)"
| crash: "fleet_step lease f (f\<lparr>fl_held := (fl_held f)(k := None)\<rparr>)"
| call: "fleet_step lease f (f\<lparr>fl_db := run_call lease c (fl_db f)\<rparr>)"
| retry: "RetryFailed kind (fl_db f) = (Inr n, w') \<Longrightarrow>
    fleet_step lease f (f\<lparr>fl_db := w', fl_log := filter (\<lambda>i. i \<notin> j_id ` {j \<in> set (jobs (fl_db f)).
      j_state j = StateFailed \<and> (kind = [] \<or> j_kind j = kind)}) (fl_log f)\<rparr>)"
| cascade: "fleet_step lease f (f\<lparr>fl_db := (fl_db f)\<lparr>jobs := filter (\<lambda>j. j_node j \<noteq> Some nd) (jobs (fl_db f))\<rparr>\<rparr>)"
| other: "elsewhere (fl_db f) w' \<Longrightarrow> fleet_step lease f (f\<lparr>fl_db := w'\<rparr>)"
| tick: "0 \<le> d \<Longrightarrow> fleet_step lease f (f\<lparr>fl_db := (fl_db f)\<lparr>now := now (fl_db f) + d\<rparr>\<rparr>)"

inductive fleet_reach :: "int \<Rightarrow> bool \<Rightarrow> fleet \<Rightarrow> bool" for lease strict where
  start: "jobs w = [] \<Longrightarrow> fleet_reach lease strict \<lparr>fl_db = w, fl_held = (\<lambda>_. None), fl_log = []\<rparr>"
| step: "fleet_reach lease strict f \<Longrightarrow> fleet_step lease f f' \<Longrightarrow> (strict \<longrightarrow> within_lease lease f') \<Longrightarrow>
    fleet_reach lease strict f'"

section \<open>The shape of the queue, whatever happens\<close>

lemma run_call_ok: "jobs_ok w \<Longrightarrow> jobs_ok (run_call lease c w)"
  using queue_keeps by (cases c) (auto simp: keeps_def)

lemma fleet_step_ok: "fleet_step lease f f' \<Longrightarrow> jobs_ok (fl_db f) \<Longrightarrow> jobs_ok (fl_db f')"
proof (induction rule: fleet_step.induct)
  case (claim f k ks locked j w')
  then show ?case using keepsD [OF Claim_ok] by simp
next
  case (finish f k j t w' c)
  have "keeps jobs_ok (case c of None \<Rightarrow> job_Complete (J_ID j) | Some e \<Rightarrow> job_Fail (J_ID j) e)"
    by (cases c) (simp_all add: job_updates_ok)
  with finish show ?case by (simp add: keeps_def)
next
  case (retry kind f n w')
  then show ?case using keepsD [OF job_updates_ok(4)] by simp
next
  case (cascade f nd)
  then show ?case by (auto simp: jobs_ok_def distinct_map_filter pending_keys_filter)
next
  case (other f w')
  then show ?case by (auto simp: elsewhere_def intro: jobs_ok_frame)
next
  case (call f c)
  then show ?case by (simp add: run_call_ok)
next
  case (tick d f)
  then show ?case by (auto intro: jobs_ok_frame)
qed simp

lemma fleet_ok: "fleet_reach lease strict f \<Longrightarrow> jobs_ok (fl_db f)"
proof (induction rule: fleet_reach.induct)
  case (start w)
  then show ?case by (simp add: jobs_ok_def pending_keys_def)
next
  case (step f f')
  then show ?case by (blast intro: fleet_step_ok)
qed

section \<open>What an operation leaves as it was\<close>

definition carried :: "(job_row \<Rightarrow> bool) \<Rightarrow> jworld \<Rightarrow> jworld \<Rightarrow> bool" where
  "carried touched w w' \<longleftrightarrow> next_id w \<le> next_id w' \<and> now w' = now w \<and>
     (\<forall>j \<in> set (jobs w'). next_id w \<le> j_id j \<or> (\<exists>k \<in> set (jobs w). j_id k = j_id j \<and> j_attempts k = j_attempts j \<and>
        (touched k \<or> j_state j = j_state k \<and> j_claimed j = j_claimed k)))"

lemma carried_refl [simp]: "carried p w (w\<lparr>faults := bs\<rparr>)" "carried p w w"
  by (auto simp: carried_def)

lemma carried_trans: "carried p w v \<Longrightarrow> carried p v u \<Longrightarrow> (\<And>j k. p k \<longleftrightarrow> p j) \<Longrightarrow> carried p w u"
  unfolding carried_def
  apply (intro conjI ballI)
    apply simp
   apply simp
  subgoal for j
    by (metis (no_types, lifting) le_trans)
  done

lemma carried_update:
  assumes "update_jobs p f w = (r, w')" "\<And>t j. j_id (f t j) = j_id j \<and> j_attempts (f t j) = j_attempts j"
    "\<And>bs j. p (w\<lparr>faults := bs\<rparr>) j \<longrightarrow> touched j"
  shows "carried touched w w'"
  using assms(1)
proof (cases rule: update_jobs_run)
  case (2 bs)
  have jobs: "jobs w' = map (\<lambda>j. if p (w\<lparr>faults := bs\<rparr>) j then (f (now w) j)\<lparr>j_updated := now w\<rparr> else j) (jobs w)"
    and id: "next_id w' = next_id w" "now w' = now w" by (simp_all add: 2(2))
  show ?thesis
    unfolding carried_def id jobs
  proof (intro conjI ballI disjI2)
    fix j assume "j \<in> set (map (\<lambda>j. if p (w\<lparr>faults := bs\<rparr>) j then (f (now w) j)\<lparr>j_updated := now w\<rparr> else j) (jobs w))"
    then obtain k where k: "k \<in> set (jobs w)" "j = (if p (w\<lparr>faults := bs\<rparr>) k then (f (now w) k)\<lparr>j_updated := now w\<rparr> else k)" by auto
    then show "\<exists>k \<in> set (jobs w). j_id k = j_id j \<and> j_attempts k = j_attempts j \<and>
        (touched k \<or> j_state j = j_state k \<and> j_claimed j = j_claimed k)"
      using assms(2,3) by (intro bexI [OF _ k(1)]) auto
  qed simp_all
qed simp

lemma carried_delete: "delete_jobs p w = (r, w') \<Longrightarrow> carried touched w w'"
  by (erule delete_jobs_run) (auto simp: carried_def)

lemma carried_insert: "insert_job kind nd owner w = (r, w') \<Longrightarrow> carried touched w w'"
  by (auto simp: insert_job_def carried_def new_job_def split: if_splits)

lemma carried_mono: "carried p w w' \<Longrightarrow> (\<And>j. p j \<Longrightarrow> q j) \<Longrightarrow> carried q w w'"
  unfolding carried_def by blast

lemma carried_faults: "carried p (w\<lparr>faults := bs\<rparr>) w' \<Longrightarrow> carried p w w'"
  by (simp add: carried_def)

lemma Enqueue_carried: "carried touched w (snd (Enqueue kind nd owner cap w))"
proof -
  have stmt: "carried touched w v" if "thenM jdbM
          (bindM (getM id) (\<lambda>w. case insert_job kind nd owner w of
             (None, _) \<Rightarrow> ret None
           | (Some i, w') \<Rightarrow> if \<not> job_fks w nd owner then raise fk_violation else thenM (modM (\<lambda>_. w')) (ret (Some i)))) w = (q, v)"
    for q v w
    using that
  proof (cases rule: stmt_cases)
    case (2 bs)
    obtain i v' where ins: "insert_job kind nd owner (w\<lparr>faults := bs\<rparr>) = (i, v')" by fastforce
    with 2 have "v = v' \<or> v = w\<lparr>faults := bs\<rparr>"
      by (auto simp: bindM_getM id_def run_iffs thenM_modM split: option.splits if_splits)
    with carried_insert [OF ins] show ?thesis by (auto intro: carried_faults)
  qed simp
  have sel: "\<exists>bs. v = w\<lparr>faults := bs\<rparr>" if "jselectM f w = (q, v)" for f q and w v :: jworld
    using that unfolding jselectM_def by (auto simp: run_iffs elim!: stmt_cases)
  obtain q v where run: "Enqueue kind nd owner cap w = (q, v)" by fastforce
  then have "carried touched w v"
    unfolding Enqueue_def
  proof (cases rule: thenM_cases)
    case (1 e)
    then show ?thesis by (auto simp: run_iffs elim!: bindM_cases split: if_splits dest!: sel)
  next
    case (2 u t)
    from 2(1) obtain bs where t: "t = w\<lparr>faults := bs\<rparr>"
    proof -
      have "\<exists>bs. w = w\<lparr>faults := bs\<rparr>" by (rule exI [of _ "faults w"]) simp
      with 2(1) that show ?thesis by (auto simp: run_iffs elim!: bindM_cases split: if_splits dest!: sel)
    qed
    from 2(2) obtain q' where "thenM jdbM
          (bindM (getM id) (\<lambda>w. case insert_job kind nd owner w of
             (None, _) \<Rightarrow> ret None
           | (Some i, w') \<Rightarrow> if \<not> job_fks w nd owner then raise fk_violation else thenM (modM (\<lambda>_. w')) (ret (Some i)))) t = (q', v)"
      by (cases q) (auto simp: wrap_iffs)
    from stmt [OF this] show ?thesis by (simp add: t carried_faults)
  qed
  with run show ?thesis by simp
qed

lemma enqueue_all_carried: "carried touched w (snd (enqueue_all kind p w))"
proof -
  let ?st = "\<lambda>n (k, v). case insert_job kind (Some (n_id n)) (n_owner n) v of
                   (None, v') \<Rightarrow> (k, v') | (Some _, v') \<Rightarrow> (k + 1, v')"
  have loop: "carried (\<lambda>_. False) v (snd (fold ?st ns (k, v)))" for ns and k :: int and v
  proof (induction ns arbitrary: k v)
    case (Cons n ns)
    obtain q v' where q: "insert_job kind (Some (n_id n)) (n_owner n) v = (q, v')" by fastforce
    have "carried (\<lambda>_. False) v (snd (fold ?st ns (k', v')))" for k' :: int
      by (rule carried_trans [OF carried_insert [OF q] Cons.IH]) simp
    with q show ?case by (cases q) auto
  qed simp
  obtain q v where run: "enqueue_all kind p w = (q, v)" by fastforce
  then have "carried touched w v"
    unfolding enqueue_all_def
  proof (cases rule: stmt_cases)
    case (2 bs)
    let ?u = "w\<lparr>faults := bs\<rparr>"
    from 2 have "v = snd (fold ?st (filter (p ?u) (nodes ?u)) (0 :: int, ?u))"
      by (auto simp: bindM_getM id_def run_iffs thenM_modM split: prod.splits)
    with loop [of ?u "filter (p ?u) (nodes ?u)" 0] show ?thesis by (auto intro: carried_faults carried_mono)
  qed simp
  with run show ?thesis by simp
qed

definition stale :: "int \<Rightarrow> int \<Rightarrow> job_row \<Rightarrow> bool" where
  "stale lease t j \<longleftrightarrow> j_state j = StateRunning \<and> (case j_claimed j of None \<Rightarrow> False | Some c \<Rightarrow> c < t - lease)"

lemma ReapStale_carried: "carried (stale lease (now w)) w (snd (ReapStale lease w))"
proof -
  obtain q v where run: "ReapStale lease w = (q, v)" by fastforce
  then obtain q' where "update_jobs (\<lambda>w j. j_state j = StateRunning \<and> (case j_claimed j of None \<Rightarrow> False | Some t \<Rightarrow> t < now w - lease))
       (\<lambda>t j. j\<lparr>j_state := retry_or_bury j, j_error := Some ''worker lease expired''\<rparr>) w = (q', v)"
    unfolding ReapStale_def by (auto simp: run_iffs elim!: bindM_cases)
  then have "carried (stale lease (now w)) w v"
    by (rule carried_update) (auto simp: stale_def split: option.splits)
  with run show ?thesis by simp
qed

lemma run_call_carried: "carried (stale lease (now w)) w (run_call lease c w)"
proof (cases c)
  case (CallDeleteFinished t)
  then show ?thesis by (auto simp: DeleteFinished_def intro: carried_delete [OF prod.collapse [symmetric]])
next
  case (CallDeleteStale t)
  then show ?thesis by (auto simp: DeleteStaleQueued_def intro: carried_delete [OF prod.collapse [symmetric]])
qed (simp_all add: Enqueue_carried EnqueueForAllFiles_def EnqueueForAllMediaFiles_def enqueue_all_carried ReapStale_carried)

lemma finish_carried:
  "carried (\<lambda>k. j_id k = i) w (snd ((case c of None \<Rightarrow> job_Complete i | Some e \<Rightarrow> job_Fail i e) w))"
proof -
  have complete: "carried (\<lambda>k. j_id k = i) w v" if "job_Complete i w = (q, v)" for q v
    using that unfolding job_Complete_def
    by (auto elim!: thenM_cases simp: run_iffs intro: carried_update [where p = "\<lambda>w j. j_id j = i"])
  have update: "carried (\<lambda>k. j_id k = i) w v" if "job_Fail i e w = (q, v)" for q v e
    using that unfolding job_Fail_def Let_def
    by (auto elim!: thenM_cases stmt_cases simp: run_iffs split: if_splits intro: carried_update [where p = "\<lambda>w j. j_id j = i"])
  show ?thesis using complete update by (cases c) (auto, metis prod.collapse, metis prod.collapse)
qed

section \<open>A bounded number of attempts\<close>

definition log_ok :: "fleet \<Rightarrow> bool" where
  "log_ok f \<longleftrightarrow> (\<forall>i \<in> set (fl_log f). i < next_id (fl_db f)) \<and>
     (\<forall>j \<in> set (jobs (fl_db f)). int (count_list (fl_log f) (j_id j)) \<le> j_attempts j) \<and>
     (\<forall>i. int (count_list (fl_log f) i) \<le> defaultMaxAttempts)"

lemma log_ok_carried:
  assumes "log_ok f" "carried p (fl_db f) (fl_db f')" "fl_log f' = fl_log f" "jobs_ok (fl_db f')"
  shows "log_ok f'"
  unfolding log_ok_def assms(3)
proof (intro conjI ballI allI)
  fix i assume "i \<in> set (fl_log f)"
  with assms(1,2) show "i < next_id (fl_db f')" by (fastforce simp: log_ok_def carried_def)
next
  fix j assume j: "j \<in> set (jobs (fl_db f'))"
  show "int (count_list (fl_log f) (j_id j)) \<le> j_attempts j"
  proof (cases "next_id (fl_db f) \<le> j_id j")
    case True
    with assms(1) have "j_id j \<notin> set (fl_log f)" by (fastforce simp: log_ok_def)
    moreover have "0 \<le> j_attempts j" using assms(4) j by (auto simp: jobs_ok_def job_ok_def)
    ultimately show ?thesis by (simp add: count_list_0_iff)
  next
    case False
    with assms(2) j obtain k where "k \<in> set (jobs (fl_db f))" "j_id k = j_id j" "j_attempts k = j_attempts j"
      by (auto simp: carried_def)
    with assms(1) show ?thesis by (metis log_ok_def)
  qed
next
  fix i show "int (count_list (fl_log f) i) \<le> defaultMaxAttempts" using assms(1) by (simp add: log_ok_def)
qed

lemma count_list_filter: "count_list (filter P xs) i = (if P i then count_list xs i else 0)"
  by (induction xs) auto

lemma log_ok_step:
  assumes "fleet_step lease f f'" and "log_ok f" and "jobs_ok (fl_db f)"
  shows "log_ok f'"
  using assms
proof (induction rule: fleet_step.induct)
  case (claim f k ks locked j w')
  from claim(2,4) show ?case
  proof (cases rule: Claim_run)
    case (2 row bs)
    have max: "j_attempts row < defaultMaxAttempts" "j_id row < next_id (fl_db f)" "0 \<le> j_attempts row"
      using 2(1,2) claim(4) by (auto simp: jobs_ok_def job_ok_def runnable_def)
    have id: "J_ID j = j_id row" using 2(4) by (simp add: scanJob_def claimed_row_def)
    have cnt: "int (count_list (fl_log f) (j_id row)) \<le> j_attempts row" using claim(3) 2(1) by (simp add: log_ok_def)
    have rows: "int (count_list (j_id row # fl_log f) (j_id k)) \<le> j_attempts k"
      if "k \<in> set (map (\<lambda>k. if j_id k = j_id row then claimed_row (now (fl_db f)) k else k) (jobs (fl_db f)))" for k
    proof -
      from that obtain k0 where k0: "k0 \<in> set (jobs (fl_db f))"
        "k = (if j_id k0 = j_id row then claimed_row (now (fl_db f)) k0 else k0)" by auto
      show ?thesis
      proof (cases "j_id k0 = j_id row")
        case True
        then have "k0 = row" using same_job [OF claim(4) k0(1) 2(1)] by simp
        with k0(2) cnt show ?thesis by (simp add: claimed_row_def)
      next
        case False
        with k0 claim(3) show ?thesis by (auto simp: log_ok_def)
      qed
    qed
    then show ?thesis using claim(3) max cnt by (auto simp: log_ok_def 2(5) id)
  qed simp
next
  case (finish f k j t w' c)
  have "carried (\<lambda>k. j_id k = J_ID j) (fl_db f) w'" using finish_carried finish(2) by blast
  moreover have "jobs_ok w'" using fleet_step_ok [OF fleet_step.finish [OF finish(1,2)] finish(4)] by simp
  ultimately show ?case by (intro log_ok_carried [OF finish(3)]) simp_all
next
  case (crash f k)
  then show ?case by (simp add: log_ok_def)
next
  case (call f c)
  have "carried (stale lease (now (fl_db f))) (fl_db f) (run_call lease c (fl_db f))" by (rule run_call_carried)
  then show ?case by (intro log_ok_carried [OF call(1)]) (simp_all add: run_call_ok call(2))
next
  case (retry kind f n w')
  let ?hit = "\<lambda>j. j_state j = StateFailed \<and> (kind = [] \<or> j_kind j = kind)"
  from retry(1) obtain rows where run: "update_jobs (\<lambda>w j. ?hit j)
       (\<lambda>t j. j\<lparr>j_state := StateQueued, j_attempts := 0, j_after := t, j_error := None\<rparr>) (fl_db f) = (Inr rows, w')"
    unfolding RetryFailed_def by (auto simp: run_iffs elim!: bindM_cases)
  then show ?case
  proof (cases rule: update_jobs_run)
    case (2 bs)
    let ?g = "\<lambda>j. if ?hit j then j\<lparr>j_state := StateQueued, j_attempts := 0, j_after := now (fl_db f), j_error := None,
        j_updated := now (fl_db f)\<rparr> else j"
    let ?ids = "j_id ` {j \<in> set (jobs (fl_db f)). ?hit j}"
    have jobs: "jobs w' = map ?g (jobs (fl_db f))" "next_id w' = next_id (fl_db f)" using 2(2) by (simp_all cong: if_cong)
    have rows: "int (count_list (filter (\<lambda>i. i \<notin> ?ids) (fl_log f)) (j_id k)) \<le> j_attempts k" if "k \<in> set (jobs w')" for k
    proof -
      from that obtain k0 where k0: "k0 \<in> set (jobs (fl_db f))" "k = ?g k0" by (auto simp: jobs)
      show ?thesis
      proof (cases "?hit k0")
        case True
        with k0 have "j_id k \<in> ?ids" "j_attempts k = 0" by auto
        then show ?thesis by (simp add: count_list_filter)
      next
        case False
        with k0 have "k = k0" by simp
        then have "int (count_list (fl_log f) (j_id k)) \<le> j_attempts k" using k0(1) retry(2) by (simp add: log_ok_def)
        moreover have "0 \<le> j_attempts k" using k0(1) \<open>k = k0\<close> retry(3) by (auto simp: jobs_ok_def job_ok_def)
        ultimately show ?thesis by (simp add: count_list_filter)
      qed
    qed
    have cnt: "int (count_list (filter (\<lambda>i. i \<notin> ?ids) (fl_log f)) i) \<le> defaultMaxAttempts" for i
      using retry(2) by (simp add: log_ok_def count_list_filter defaultMaxAttempts_def)
    show ?thesis unfolding log_ok_def using rows cnt retry(2) by (simp add: jobs(2) log_ok_def)
  qed simp
next
  case (cascade f nd)
  then show ?case by (simp add: log_ok_def)
next
  case (other f w')
  then show ?case by (auto simp: elsewhere_def log_ok_def)
next
  case (tick d f)
  then show ?case by (simp add: log_ok_def)
qed

lemma fleet_log: "fleet_reach lease strict f \<Longrightarrow> log_ok f"
proof (induction rule: fleet_reach.induct)
  case (start w)
  then show ?case by (simp add: log_ok_def defaultMaxAttempts_def)
next
  case (step f f')
  then show ?case using log_ok_step fleet_ok by blast
qed

section \<open>One worker per job\<close>

definition row_of :: "Job \<times> int \<Rightarrow> job_row \<Rightarrow> bool" where
  "row_of c r \<longleftrightarrow> j_state r = StateRunning \<and> j_claimed r = Some (snd c)"

definition held_ok :: "fleet \<Rightarrow> bool" where
  "held_ok f \<longleftrightarrow> (\<forall>k c. fl_held f k = Some c \<longrightarrow> J_ID (fst c) < next_id (fl_db f) \<and>
       (\<forall>r \<in> set (jobs (fl_db f)). j_id r = J_ID (fst c) \<longrightarrow> row_of c r) \<and>
       (\<forall>k' c'. k' \<noteq> k \<longrightarrow> fl_held f k' = Some c' \<longrightarrow> J_ID (fst c') \<noteq> J_ID (fst c)))"

lemma held_okD:
  assumes "held_ok f" "fl_held f k = Some c"
  shows "J_ID (fst c) < next_id (fl_db f)" and "r \<in> set (jobs (fl_db f)) \<Longrightarrow> j_id r = J_ID (fst c) \<Longrightarrow> row_of c r"
    and "k' \<noteq> k \<Longrightarrow> fl_held f k' = Some c' \<Longrightarrow> J_ID (fst c') \<noteq> J_ID (fst c)"
  using assms by (simp_all add: held_ok_def del: split_paired_All split_paired_all)

text \<open>Rows that are not touched, or whose claim is not held, keep what \<open>held_ok\<close> says.\<close>

lemma held_ok_carried:
  assumes "held_ok f" "carried touched (fl_db f) (fl_db f')" "\<And>k c. fl_held f' k = Some c \<Longrightarrow> fl_held f k = Some c"
    and "\<And>k c r. fl_held f' k = Some c \<Longrightarrow> r \<in> set (jobs (fl_db f)) \<Longrightarrow> j_id r = J_ID (fst c) \<Longrightarrow> row_of c r \<Longrightarrow> \<not> touched r"
  shows "held_ok f'"
  unfolding held_ok_def
proof (intro allI impI conjI ballI)
  fix k c assume c: "fl_held f' k = Some c"
  note old = assms(3) [OF c]
  have lt: "J_ID (fst c) < next_id (fl_db f)" using held_okD(1) [OF assms(1) old] .
  then show "J_ID (fst c) < next_id (fl_db f')" using assms(2) by (simp add: carried_def)
  show "row_of c r" if r: "r \<in> set (jobs (fl_db f'))" "j_id r = J_ID (fst c)" for r
  proof -
    from assms(2) r lt obtain r0 where r0: "r0 \<in> set (jobs (fl_db f))" "j_id r0 = j_id r"
      "touched r0 \<or> j_state r = j_state r0 \<and> j_claimed r = j_claimed r0"
      by (fastforce simp: carried_def)
    have "row_of c r0" using held_okD(2) [OF assms(1) old r0(1)] r0(2) r(2) by simp
    with assms(4) [OF c r0(1)] r0 r(2) show ?thesis by (simp add: row_of_def)
  qed
  show "J_ID (fst c') \<noteq> J_ID (fst c)" if "k' \<noteq> k" "fl_held f' k' = Some c'" for k' c'
    by (rule held_okD(3) [OF assms(1) old that(1) assms(3) [OF that(2)]])
qed

lemma held_ok_step:
  assumes "fleet_step lease f f'" and "held_ok f" and "jobs_ok (fl_db f)" and "within_lease lease f"
  shows "held_ok f'"
  using assms
proof (induction rule: fleet_step.induct)
  case (claim f k ks locked j w')
  from claim(2,4) show ?case
  proof (cases rule: Claim_run)
    case (2 row bs)
    have id: "J_ID j = j_id row" using 2(4) by (simp add: scanJob_def claimed_row_def)
    have lt: "j_id row < next_id (fl_db f)" using 2(1) claim(4) by (auto simp: jobs_ok_def)
    have queued: "j_state row = StateQueued" using 2(2) by (simp add: runnable_def)
    have free: "J_ID (fst c) \<noteq> j_id row" if "fl_held f k' = Some c" for k' c
    proof
      assume "J_ID (fst c) = j_id row"
      with that claim(3) 2(1) have "row_of c row" by (intro held_okD(2)) auto
      with queued show False by (simp add: row_of_def)
    qed
    have new: "row_of (j, now (fl_db f)) r" if "r \<in> set (jobs w')" "j_id r = j_id row" for r
      using that by (auto simp: 2(5) row_of_def claimed_row_def split: if_splits)
    have keep: "row_of c r" if c: "fl_held f k' = Some c" and "r \<in> set (jobs w')" "j_id r = J_ID (fst c)" for k' c r
    proof -
      from that(2) obtain r0 where "r0 \<in> set (jobs (fl_db f))"
        "r = (if j_id r0 = j_id row then claimed_row (now (fl_db f)) r0 else r0)" by (auto simp: 2(5))
      with free [OF c] that(3) held_okD(2) [OF claim(3) c] show ?thesis
        by (auto simp: claimed_row_def split: if_splits)
    qed
    have now: "now w' = now (fl_db f)" "next_id w' = next_id (fl_db f)" by (simp_all add: 2(5))
    show ?thesis
      unfolding held_ok_def
    proof (intro allI impI conjI ballI)
      fix k1 c assume c: "fl_held (f\<lparr>fl_db := w', fl_held := (fl_held f)(k \<mapsto> (j, now w')), fl_log := J_ID j # fl_log f\<rparr>) k1 = Some c"
      then have or: "k1 = k \<and> c = (j, now w') \<or> k1 \<noteq> k \<and> fl_held f k1 = Some c" by (auto split: if_splits)
      let ?f = "f\<lparr>fl_db := w', fl_held := (fl_held f)(k \<mapsto> (j, now w')), fl_log := J_ID j # fl_log f\<rparr>"
      show "J_ID (fst c) < next_id (fl_db ?f)" using or lt held_okD(1) [OF claim(3), of k1 c] by (cases "k1 = k") (simp_all add: id now)
      show "row_of c r" if "r \<in> set (jobs (fl_db ?f))" "j_id r = J_ID (fst c)" for r
        using or that new keep [of k1 c r] by (cases "k1 = k") (simp_all add: id now)
      show "J_ID (fst c') \<noteq> J_ID (fst c)" if "k' \<noteq> k1" "fl_held ?f k' = Some c'" for k' c'
      proof -
        from that(2) have or': "k' = k \<and> c' = (j, now w') \<or> k' \<noteq> k \<and> fl_held f k' = Some c'" by (auto split: if_splits)
        with or that(1) free held_okD(3) [OF claim(3)] show ?thesis by (fastforce simp: id)
      qed
    qed
  qed simp
next
  case (finish f k j t w' c)
  have "carried (\<lambda>r. j_id r = J_ID j) (fl_db f) w'" using finish_carried finish(2) by blast
  moreover have "J_ID (fst c') \<noteq> J_ID j" if "k' \<noteq> k" "fl_held f k' = Some c'" for k' c'
    using held_okD(3) [OF finish(3,1) that] by simp
  ultimately show ?case
    by (intro held_ok_carried [OF finish(3), of "\<lambda>r. j_id r = J_ID j"]) (auto split: if_splits)
next
  case (crash f k)
  show ?case by (rule held_ok_carried [OF crash(1), of "\<lambda>_. False"]) (auto split: if_splits)
next
  case (call f c)
  have "carried (stale lease (now (fl_db f))) (fl_db f) (run_call lease c (fl_db f))" by (rule run_call_carried)
  moreover have "\<not> stale lease (now (fl_db f)) r" if h: "fl_held f k = Some h" and "row_of h r" for k h r
  proof -
    have "now (fl_db f) \<le> snd h + lease" using call(3) h by (cases h) (auto simp: within_lease_def)
    with \<open>row_of h r\<close> show ?thesis by (simp add: row_of_def stale_def)
  qed
  ultimately show ?case by (intro held_ok_carried [OF call(1)]) auto
next
  case (retry kind f n w')
  let ?hit = "\<lambda>j. j_state j = StateFailed \<and> (kind = [] \<or> j_kind j = kind)"
  from retry(1) obtain rows where run: "update_jobs (\<lambda>w j. ?hit j)
       (\<lambda>t j. j\<lparr>j_state := StateQueued, j_attempts := 0, j_after := t, j_error := None\<rparr>) (fl_db f) = (Inr rows, w')"
    unfolding RetryFailed_def by (auto simp: run_iffs elim!: bindM_cases)
  then show ?case
  proof (cases rule: update_jobs_run)
    case (2 bs)
    have keep: "row_of h r" if h: "fl_held f k = Some h" and r: "r \<in> set (jobs w')" "j_id r = J_ID (fst h)" for k h r
    proof -
      from r(1) obtain r0 where r0: "r0 \<in> set (jobs (fl_db f))" "j_id r0 = j_id r" "r = r0 \<or> ?hit r0"
        by (auto simp: 2(2) split: if_splits)
      with h r(2) retry(2) have "row_of h r0" by (intro held_okD(2)) auto
      with r0(3) show ?thesis by (auto simp: row_of_def)
    qed
    have "next_id w' = next_id (fl_db f)" by (simp add: 2(2))
    with retry(2) keep show ?thesis by (simp add: held_ok_def)
  qed simp
next
  case (cascade f nd)
  then show ?case by (auto simp: held_ok_def)
next
  case (other f w')
  then show ?case by (fastforce simp: held_ok_def elsewhere_def)
next
  case (tick d f)
  then show ?case by (simp add: held_ok_def)
qed


lemma fleet_held: "fleet_reach lease strict f \<Longrightarrow> strict \<Longrightarrow> 0 \<le> lease \<Longrightarrow> held_ok f \<and> within_lease lease f"
proof (induction rule: fleet_reach.induct)
  case (start w)
  then show ?case by (simp add: held_ok_def within_lease_def)
next
  case (step f f')
  then show ?case using held_ok_step fleet_ok by blast
qed

section \<open>The properties\<close>

text \<open>C21: whatever the workers, the rest of the server and the clock do, the queue stays well formed: no kind
  and node are pending twice, a job has been attempted at most five times, a queued job has an
  attempt left, and a running one carries the time of its claim.\<close>

theorem queue_stays_well_formed:
  assumes "fleet_reach lease strict f"
  shows "distinct (pending_keys (jobs (fl_db f))) \<and>
    (\<forall>j \<in> set (jobs (fl_db f)). 0 \<le> j_attempts j \<and> j_attempts j \<le> 5 \<and>
       (j_state j = StateQueued \<longrightarrow> j_attempts j < 5) \<and> (j_state j = StateRunning \<longrightarrow> j_claimed j \<noteq> None))"
  using fleet_ok [OF assms] by (auto simp: jobs_ok_def job_ok_def defaultMaxAttempts_def)

text \<open>C22: between two uses of \<open>RetryFailed\<close> on it a job is claimed at most five times, so one that crashes its
  worker every time is buried and does not come back for ever.\<close>

theorem claims_are_bounded:
  assumes "fleet_reach lease strict f"
  shows "count_list (fl_log f) i \<le> 5 \<and>
    (\<forall>j \<in> set (jobs (fl_db f)). count_list (fl_log f) (j_id j) = 5 \<longrightarrow> j_state j \<noteq> StateQueued)"
proof -
  have log: "int (count_list (fl_log f) i) \<le> defaultMaxAttempts"
    "\<forall>j \<in> set (jobs (fl_db f)). int (count_list (fl_log f) (j_id j)) \<le> j_attempts j"
    using fleet_log [OF assms] by (simp_all add: log_ok_def)
  have "j_state j = StateQueued \<longrightarrow> j_attempts j < 5" if "j \<in> set (jobs (fl_db f))" for j
    using fleet_ok [OF assms] that by (auto simp: jobs_ok_def job_ok_def defaultMaxAttempts_def)
  with log show ?thesis by (fastforce simp: defaultMaxAttempts_def)
qed

text \<open>C23: as long as no worker keeps a job longer than its lease, no two workers run the same job: their jobs
  differ, and the row of each is running, with the time of that worker's claim.\<close>

theorem no_job_runs_twice:
  assumes "fleet_reach lease True f" and "0 \<le> lease" and "fl_held f k = Some (j, t)" and "fl_held f k' = Some (j', t')"
    and "k \<noteq> k'"
  shows "J_ID j \<noteq> J_ID j' \<and> (\<forall>r \<in> set (jobs (fl_db f)). j_id r = J_ID j \<longrightarrow> j_state r = StateRunning \<and> j_claimed r = Some t)"
proof -
  have ok: "held_ok f" using fleet_held assms(1,2) by blast
  show ?thesis
    using held_okD(2) [OF ok assms(3)] held_okD(3) [OF ok assms(4,5,3)] by (auto simp: row_of_def)
qed

text \<open>\<open>Claim\<close> takes a job that is queued, due, of a kind asked for and not locked, one that has waited
  longest; it starts the job and changes no other row.  It says that there is none only when there is
  none, and an error leaves the table alone.\<close>

theorem claim_takes_the_oldest:
  assumes "jobs_ok w" and "Claim ks locked w = (r, w')"
  shows "case r of
      Inr j \<Rightarrow> (\<exists>row \<in> set (jobs w). runnable ks locked w row \<and> J_ID j = j_id row \<and> J_Kind j = j_kind row \<and>
          J_State j = StateRunning \<and> J_Attempts j = j_attempts row + 1 \<and>
          (\<forall>k \<in> set (jobs w). runnable ks locked w k \<longrightarrow> j_after row \<le> j_after k) \<and>
          jobs w' = map (\<lambda>k. if j_id k = j_id row then claimed_row (now w) k else k) (jobs w))
    | Inl e \<Rightarrow> jobs w' = jobs w \<and> (e = ErrNoJob \<longrightarrow> \<not> list_ex (runnable ks locked w) (jobs w))"
  using assms(2,1)
proof (cases rule: Claim_run)
  case (1 e bs)
  then show ?thesis by (auto simp: next_job_None list_ex_iff)
next
  case (2 j bs)
  then show ?thesis by (auto simp: scanJob_def claimed_row_def [of _ j])
qed

definition retryable :: "string \<Rightarrow> job_row \<Rightarrow> bool" where
  "retryable kind j \<longleftrightarrow> j_state j = StateFailed \<and> (kind = [] \<or> j_kind j = kind)"

definition clash :: "string \<Rightarrow> jworld \<Rightarrow> bool" where
  "clash kind w \<longleftrightarrow> list_ex (\<lambda>j. list_ex (\<lambda>k. j_id j \<noteq> j_id k \<and> retryable kind j \<and> (retryable kind k \<or> pending k) \<and>
     j_node j \<noteq> None \<and> j_node j = j_node k \<and> j_kind j = j_kind k) (jobs w)) (jobs w)"

text \<open>\<open>RetryFailed\<close> is all or nothing: it puts every failed job of the kind back with a fresh budget,
  unless two of them, or one of them and a pending job, are for the same kind and node; then the
  index refuses the whole statement and no job is put back.\<close>

theorem retry_is_all_or_nothing:
  assumes "jobs_ok w" and "faults w = []"
  shows "if clash kind w then RetryFailed kind w = (Inl unique_violation, w)
    else \<exists>w'. RetryFailed kind w = (Inr (int (length (filter (retryable kind) (jobs w)))), w') \<and>
      jobs w' = map (\<lambda>j. if retryable kind j then j\<lparr>j_state := StateQueued, j_attempts := 0, j_after := now w,
        j_error := None, j_updated := now w\<rparr> else j) (jobs w)"
proof -
  define g where "g j = (if retryable kind j then j\<lparr>j_state := StateQueued, j_attempts := 0, j_after := now w,
        j_error := None, j_updated := now w\<rparr> else j)" for j
  have g: "j_kind (g j) = j_kind j" "j_node (g j) = j_node j" "pending (g j) \<longleftrightarrow> pending j \<or> retryable kind j" for j
    by (auto simp: g_def pending_def)
  let ?P = "\<lambda>j. (pending j \<or> retryable kind j) \<and> j_node j \<noteq> None"
  have keys: "pending_keys (map g (jobs w)) = map (\<lambda>j. (j_kind j, j_node j)) (filter ?P (jobs w))"
    by (simp add: pending_keys_def filter_map o_def g)
  have d: "distinct (map j_id (jobs w))" "distinct (pending_keys (jobs w))" using assms(1) by (simp_all add: jobs_ok_def)
  then have dj: "distinct (filter ?P (jobs w))" by (simp add: distinct_map)
  have "distinct (pending_keys (map g (jobs w))) \<longleftrightarrow> \<not> clash kind w"
  proof
    assume "distinct (pending_keys (map g (jobs w)))"
    then have inj: "inj_on (\<lambda>j. (j_kind j, j_node j)) {j \<in> set (jobs w). ?P j}" by (simp add: keys distinct_map)
    show "\<not> clash kind w"
    proof
      assume "clash kind w"
      then obtain j k where jk: "j \<in> set (jobs w)" "k \<in> set (jobs w)" "j_id j \<noteq> j_id k" "?P j" "?P k"
        "(j_kind j, j_node j) = (j_kind k, j_node k)" by (fastforce simp: clash_def list_ex_iff)
      then have "j = k" by (intro inj_onD [OF inj]) auto
      with jk(3) show False by simp
    qed
  next
    assume no: "\<not> clash kind w"
    have old: "j = k" if "j \<in> set (jobs w)" "k \<in> set (jobs w)" "pending j" "pending k" "j_node j \<noteq> None"
      "j_kind j = j_kind k" "j_node j = j_node k" for j k
      using d(2) that unfolding pending_keys_def distinct_map inj_on_def by auto
    have "inj_on (\<lambda>j. (j_kind j, j_node j)) {j \<in> set (jobs w). ?P j}"
    proof (rule inj_onI)
      fix j k assume jk: "j \<in> {j \<in> set (jobs w). ?P j}" "k \<in> {j \<in> set (jobs w). ?P j}"
        "(j_kind j, j_node j) = (j_kind k, j_node k)"
      show "j = k"
      proof (cases "pending j \<and> pending k")
        case True
        with jk old show ?thesis by auto
      next
        case False
        have apart: "j_id x = j_id y" if "x \<in> set (jobs w)" "y \<in> set (jobs w)" "retryable kind x" "retryable kind y \<or> pending y"
          "j_node x \<noteq> None" "j_node x = j_node y" "j_kind x = j_kind y" for x y
          using no that unfolding clash_def list_ex_iff by blast
        from False jk have "j_id j = j_id k" using apart [of j k] apart [of k j] by fastforce
        with same_job [OF assms(1)] jk show ?thesis by auto
      qed
    qed
    then show "distinct (pending_keys (map g (jobs w)))" using dj by (simp add: keys distinct_map)
  qed
  moreover have "RetryFailed kind w = (if distinct (pending_keys (map g (jobs w)))
      then (Inr (int (length (filter (retryable kind) (jobs w)))), w\<lparr>jobs := map g (jobs w)\<rparr>) else (Inl unique_violation, w))"
    using assms(2) by (simp add: RetryFailed_def update_jobs_def jdbM_def monad_defs Let_def g_def [abs_def] retryable_def [abs_def] id_def)
  ultimately show ?thesis by (auto simp: g_def [abs_def])
qed

section \<open>Two workers, and what goes wrong\<close>

definition demo_queue :: jworld where
  "demo_queue = \<lparr>faults = [], now = 0, next_id = 0, entropy = [], disk = [],
     users = [\<lparr>u_id = 7, u_name = ''alice'', u_quota = None\<rparr>],
     nodes = [], versions = [], blobs = [], chunks = [], manifests = [], mchunks = [],
     grants = [], uploads = [], sync_state = [], changes = [], jobs = []\<rparr>"

definition demo_row :: "nat \<Rightarrow> job_row" where
  "demo_row i = new_job 0 i ''extract'' None 7"

definition demo_jobs :: "job_row list \<Rightarrow> jworld" where
  "demo_jobs js = demo_queue\<lparr>next_id := length js, jobs := js\<rparr>"

lemmas queue_eval = Enqueue_def insert_job_def job_fks_def Claim_def next_job_def runnable_def update_jobs_def jselectM_def jdbM_def
  demo_jobs_def demo_queue_def demo_row_def new_job_def pending_keys_def pending_def claimed_row_def run_eval id_def Let_def
  defaultMaxAttempts_def

lemma demo_enqueue:
  "run_call 600 (CallEnqueue ''extract'' None 7 0) (demo_jobs []) = demo_jobs [demo_row 0]"
  "run_call 600 (CallEnqueue ''extract'' None 7 0) (demo_jobs [demo_row 0]) = demo_jobs [demo_row 0, demo_row 1]"
  by (simp_all add: queue_eval cong: run_cong)

lemma demo_claim:
  "Claim [''extract''] [] (demo_jobs [demo_row 0, demo_row 1]) =
     (Inr (scanJob (claimed_row 0 (demo_row 0))), demo_jobs [claimed_row 0 (demo_row 0), demo_row 1])"
  "Claim [''extract''] [] (demo_jobs [claimed_row 0 (demo_row 0), demo_row 1]) =
     (Inr (scanJob (claimed_row 0 (demo_row 1))), demo_jobs [claimed_row 0 (demo_row 0), claimed_row 0 (demo_row 1)])"
  by (simp_all add: queue_eval cong: run_cong)

definition demo_fleet :: fleet where
  "demo_fleet = \<lparr>fl_db = demo_jobs [claimed_row 0 (demo_row 0), claimed_row 0 (demo_row 1)],
     fl_held = [0 \<mapsto> (scanJob (claimed_row 0 (demo_row 0)), 0), 1 \<mapsto> (scanJob (claimed_row 0 (demo_row 1)), 0)],
     fl_log = [1, 0]\<rparr>"

lemma demo_fleet_reach: "fleet_reach 600 True demo_fleet"
proof -
  let ?f = "\<lambda>js. \<lparr>fl_db = demo_jobs js, fl_held = (\<lambda>_. None), fl_log = []\<rparr>"
  let ?f1 = "\<lparr>fl_db = demo_jobs [claimed_row 0 (demo_row 0), demo_row 1],
      fl_held = [0 \<mapsto> (scanJob (claimed_row 0 (demo_row 0)), 0)], fl_log = [0]\<rparr>"
  have lease: "within_lease 600 f" if "now (fl_db f) = 0" "\<forall>k c. fl_held f k = Some c \<longrightarrow> snd c = 0" for f
    using that by (fastforce simp: within_lease_def)
  have now: "now (demo_jobs js) = 0" for js by (simp add: demo_jobs_def demo_queue_def)
  have id: "J_ID (scanJob (claimed_row 0 (demo_row i))) = i" for i
    by (simp add: scanJob_def claimed_row_def demo_row_def new_job_def)
  have s0: "fleet_reach 600 True (?f [])"
    by (rule fleet_reach.start) (simp add: demo_jobs_def)
  have s1: "fleet_reach 600 True (?f [demo_row 0])"
    using fleet_reach.step [OF s0 fleet_step.call [of 600 _ "CallEnqueue ''extract'' None 7 0"]] lease
    by (simp only: fleet.simps demo_enqueue) (simp add: now)
  have s2: "fleet_reach 600 True (?f [demo_row 0, demo_row 1])"
    using fleet_reach.step [OF s1 fleet_step.call [of 600 _ "CallEnqueue ''extract'' None 7 0"]] lease
    by (simp only: fleet.simps demo_enqueue) (simp add: now)
  have s3: "fleet_reach 600 True ?f1"
    using fleet_reach.step [OF s2 fleet_step.claim [of _ 0 "[''extract'']" "[]"]] lease demo_claim(1)
    by (simp add: now id)
  show ?thesis
    using fleet_reach.step [OF s3 fleet_step.claim [of _ 1 "[''extract'']" "[]"]] lease demo_claim(2)
    by (simp add: now id demo_fleet_def)
qed

theorem queue_stays_well_formed_witness: "pending_keys (jobs (fl_db demo_fleet)) = [] \<and> distinct (pending_keys (jobs (fl_db demo_fleet)))"
  using queue_stays_well_formed [OF demo_fleet_reach] by (simp add: demo_fleet_def queue_eval)

theorem claims_are_bounded_witness: "count_list (fl_log demo_fleet) 0 \<le> 5"
  using claims_are_bounded [OF demo_fleet_reach] by blast

theorem no_job_runs_twice_witness:
  "J_ID (fst (the (fl_held demo_fleet 0))) \<noteq> J_ID (fst (the (fl_held demo_fleet 1)))"
  using no_job_runs_twice [OF demo_fleet_reach, of 0 _ _ 1] by (simp add: demo_fleet_def)

lemma demo_jobs_ok: "jobs_ok (demo_jobs [demo_row 0, demo_row 1])"
  by (simp add: jobs_ok_def job_ok_def queue_eval)

theorem claim_takes_the_oldest_witness:
  "\<exists>row \<in> set (jobs (demo_jobs [demo_row 0, demo_row 1])). runnable [''extract''] [] (demo_jobs [demo_row 0, demo_row 1]) row"
  using claim_takes_the_oldest [OF demo_jobs_ok demo_claim(1)] by auto

definition failed_twice :: jworld where
  "failed_twice = demo_queue\<lparr>next_id := 2, jobs := map (\<lambda>i. (new_job 0 i ''extract'' (Some 9) 7)\<lparr>j_state := StateFailed, j_attempts := 5\<rparr>) [0, 1]\<rparr>"

theorem retry_is_all_or_nothing_witness: "RetryFailed [] failed_twice = (Inl unique_violation, failed_twice)"
proof -
  have "jobs_ok failed_twice" "faults failed_twice = []" "clash [] failed_twice"
    by (simp_all add: failed_twice_def jobs_ok_def job_ok_def queue_eval clash_def retryable_def)
  then show ?thesis using retry_is_all_or_nothing [of failed_twice "[]"] by simp
qed

text \<open>
  \<open>Fail\<close> and \<open>Complete\<close> go by the id alone.  A worker that outlives its lease and then fails puts a job
  back that another worker has done in the meantime.
\<close>

theorem late_failure_revives:
  "let w1 = (demo_jobs [claimed_row 0 (demo_row 0)])\<lparr>now := 601 * second\<rparr>;
       w2 = snd (ReapStale (600 * second) w1);
       (c, w3) = Claim [''extract''] [] w2;
       w4 = snd (job_Complete 0 w3);
       w5 = snd (job_Fail 0 (Cause (Msg ''late'')) w4)
   in map_sum id J_ID c = Inr 0 \<and> map j_state (jobs w4) = [StateDone] \<and> map j_state (jobs w5) = [StateQueued]"
proof -
  have "pg_text ''late''" by code_simp
  then show ?thesis
    by (simp add: queue_eval ReapStale_def job_Complete_def job_Fail_def truncErr_def cause_text_def retry_or_bury_def
        scanJob_def second_def cong: run_cong)
qed

text \<open>
  The index that keeps duplicates out counts a running job as pending, so what changes in a file while
  its job runs is not queued again: when the job is done, nothing is left to do.
\<close>

theorem edit_while_running_is_dropped:
  "let w = demo_queue\<lparr>next_id := 1, jobs := [claimed_row 0 (new_job 0 0 ''extract'' (Some 9) 7)]\<rparr>;
       (r, w1) = Enqueue ''extract'' (Some 9) 7 0 w;
       w2 = snd (job_Complete 0 w1)
   in r = Inr None \<and> map j_state (jobs w2) = [StateDone]"
  by (simp add: queue_eval job_Complete_def cong: run_cong del: set_filter list.set_map)

text \<open>
  \<open>truncErr\<close> cuts at a byte, not at a character.  A long message that is cut inside a character is not
  text to the database, \<open>Fail\<close> fails, and the job stays running until its lease is over.
\<close>

lemma runes_ascii_append: "ascii s \<Longrightarrow> runes (s @ t) = map (\<lambda>c. [c]) s @ runes t"
proof (induction s)
  case (Cons c cs)
  then have "rune_len (c # cs @ t) = 1" by (simp add: ascii_def rune_len.simps Let_def)
  with Cons show ?case by (simp add: ascii_def)
qed simp

theorem cut_message_is_refused:
  assumes "ascii s" and "length s = 1999" and "faults w = []"
  shows "job_Fail i (Cause (Msg (s @ [CHR 0xC3, CHR 0xA9]))) w = (Inl encoding_violation, w)"
proof -
  have "truncErr (Some (Cause (Msg (s @ [CHR 0xC3, CHR 0xA9])))) = s @ [CHR 0xC3]"
    using assms(2) by (simp add: truncErr_def cause_text_def Let_def)
  moreover have "\<not> pg_text (s @ [CHR 0xC3])"
    using assms(1) by (simp add: pg_text_def runes_ascii_append rune_len.simps ascii_def)
  ultimately show ?thesis using assms(3) by (simp add: job_Fail_def jdbM_def monad_defs)
qed
end
