(* ===== verification/Containers.thy ===== *)
theory Containers
  imports Service "HOL-Library.Monad_Syntax"
begin

text \<open>
  The readers of untrusted media headers in \<open>server/internal/media\<close>: ISO boxes (\<open>mp4.go\<close>) and the EBML tree
  (\<open>mkv.go\<close>).  What they compute with is kept at its
  width: \<open>int64\<close> and \<open>uint64\<close> wrap a value as a conversion or an addition does.  The result is an
  option whose \<open>None\<close> is a run-time panic: an index or a slice outside its bounds.
\<close>

section \<open>Bytes\<close>

definition int64 :: "int \<Rightarrow> int" where
  "int64 i = (i + 2 ^ 63) mod 2 ^ 64 - 2 ^ 63"

definition uint64 :: "int \<Rightarrow> int" where
  "uint64 i = i mod 2 ^ 64"

definition int32 :: "int \<Rightarrow> int" where
  "int32 i = (i + 2 ^ 31) mod 2 ^ 32 - 2 ^ 31"

text \<open>\<open>b[lo:hi]\<close> and \<open>b[i]\<close>.  The spare capacity of a slice is not used by any caller here.\<close>

definition go_slice :: "string \<Rightarrow> int \<Rightarrow> int \<Rightarrow> string option" where
  "go_slice b lo hi =
     (if 0 \<le> lo \<and> lo \<le> hi \<and> hi \<le> int (length b) then Some (take (nat (hi - lo)) (drop (nat lo) b)) else None)"

definition go_at :: "string \<Rightarrow> int \<Rightarrow> int option" where
  "go_at b i = (if 0 \<le> i \<and> i < int (length b) then Some (int (byte (b ! nat i))) else None)"

definition big :: "string \<Rightarrow> int" where
  "big b = foldl (\<lambda>v c. 256 * v + int (byte c)) 0 b"

definition Uint16 :: "string \<Rightarrow> int \<Rightarrow> int option" where "Uint16 b i = map_option big (go_slice b i (i + 2))"
definition Uint32 :: "string \<Rightarrow> int \<Rightarrow> int option" where "Uint32 b i = map_option big (go_slice b i (i + 4))"
definition Uint64 :: "string \<Rightarrow> int \<Rightarrow> int option" where "Uint64 b i = map_option big (go_slice b i (i + 8))"

record Metadata =
  md_Width :: int
  md_Height :: int
  md_Orientation :: int
  md_TakenAt :: "int option"
  md_Camera :: string
  md_DurationMS :: "int option"
  md_Source :: string

definition no_metadata :: Metadata where
  "no_metadata = \<lparr>md_Width = 0, md_Height = 0, md_Orientation = 0, md_TakenAt = None, md_Camera = [],
     md_DurationMS = None, md_Source = []\<rparr>"

section \<open>MP4 and QuickTime\<close>

definition maxBoxDepth :: nat where "maxBoxDepth = 8"
definition mp4EpochOffset :: int where "mp4EpochOffset = 2082844800"
definition maxMoovBytes :: int where "maxMoovBytes = 64 * 2 ^ 20"
definition maxTopLevelBoxes :: nat where "maxTopLevelBoxes = 256"

definition looksLikeMP4 :: "string \<Rightarrow> bool option" where
  "looksLikeMP4 data =
     (if length data < 8 then Some False
      else do {
        typ \<leftarrow> go_slice data 4 8;
        Some (typ \<in> {''ftyp'', ''moov'', ''mdat'', ''free'', ''skip'', ''wide''})
      })"

text \<open>The boxes \<open>forEachBox\<close> hands to its callback, with their bodies.\<close>

function box_walk :: "string \<Rightarrow> int \<Rightarrow> (string \<times> string) list option" where
  "box_walk data off =
     (if off + 8 > int (length data) then Some []
      else do {
        sz \<leftarrow> Uint32 data off;
        typ \<leftarrow> go_slice data (off + 4) (off + 8);
        if sz = 0 then do { body \<leftarrow> go_slice data (off + 8) (int (length data)); Some [(typ, body)] }
        else if sz = 1 \<and> off + 16 > int (length data) then Some []
        else do {
          (bsize, header) \<leftarrow> (if sz = 1 then map_option (\<lambda>v. (int64 v, 16)) (Uint64 data (off + 8)) else Some (sz, 8));
          if bsize < header \<or> int64 (off + bsize) > int (length data) then Some []
          else do {
            body \<leftarrow> go_slice data (off + header) (int64 (off + bsize));
            rest \<leftarrow> box_walk data (int64 (off + bsize));
            Some ((typ, body) # rest)
          }
        }
      })"
  by pat_completeness auto
termination
  by (relation "measure (\<lambda>(data, off). nat (int (length data) - off))")
     (auto simp: go_slice_def split: if_splits)

declare box_walk.simps [simp del]

definition forEachBox :: "string \<Rightarrow> (string \<times> string) list option" where
  "forEachBox data = box_walk data 0"

function findBox :: "string \<Rightarrow> string \<Rightarrow> nat \<Rightarrow> string option option" where
  "findBox data want depth =
     (if depth > maxBoxDepth then Some None
      else do {
        bs \<leftarrow> forEachBox data;
        fold (\<lambda>(typ, body) acc. do {
          found \<leftarrow> acc;
          if found \<noteq> None then Some found
          else if typ = want then Some (Some body)
          else if typ \<in> {''trak'', ''mdia'', ''minf'', ''stbl'', ''edts''} then findBox body want (depth + 1)
          else Some None
        }) bs (Some None)
      })"
  by pat_completeness auto
termination
  by (relation "measure (\<lambda>(data, want, depth). Suc maxBoxDepth - depth)") auto

declare findBox.simps [simp del]

definition mp4Time :: "int \<Rightarrow> int option" where
  "mp4Time raw =
     (if raw = 0 \<or> raw < mp4EpochOffset then None else Some (int64 (int64 raw - mp4EpochOffset) * 1000000000))"

definition parseMVHD :: "string \<Rightarrow> (int \<times> int option \<times> bool) option" where
  "parseMVHD b =
     (if length b < 4 then Some (0, None, False)
      else do {
        version \<leftarrow> go_at b 0;
        fields \<leftarrow>
          (if version = 0 then
             (if length b < 20 then Some None
              else do { c \<leftarrow> Uint32 b 4; t \<leftarrow> Uint32 b 12; d \<leftarrow> Uint32 b 16; Some (Some (c, t, d)) })
           else if version = 1 then
             (if length b < 32 then Some None
              else do { c \<leftarrow> Uint64 b 4; t \<leftarrow> Uint32 b 20; d \<leftarrow> Uint64 b 24; Some (Some (c, t, d)) })
           else Some None);
        Some (case fields of
            None \<Rightarrow> (0, None, False)
          | Some (createdRaw, timescale, duration) \<Rightarrow>
              if timescale = 0 then (0, mp4Time createdRaw, True)
              else if duration = 0 \<or> duration = 0xFFFFFFFF then (0, mp4Time createdRaw, True)
              else (int64 (uint64 (duration * 1000) div timescale), mp4Time createdRaw, True))
      })"

definition matrixOrientation :: "string \<Rightarrow> int option" where
  "matrixOrientation m =
     (if length m < 36 then Some 1
      else do {
        a \<leftarrow> map_option int32 (Uint32 m 0);
        b \<leftarrow> map_option int32 (Uint32 m 4);
        c \<leftarrow> map_option int32 (Uint32 m 12);
        d \<leftarrow> map_option int32 (Uint32 m 16);
        let one = 2 ^ 16;
        Some (if a = one \<and> b = 0 \<and> c = 0 \<and> d = one then 1
              else if a = 0 \<and> b = one \<and> c = - one \<and> d = 0 then 6
              else if a = - one \<and> b = 0 \<and> c = 0 \<and> d = - one then 3
              else if a = 0 \<and> b = - one \<and> c = one \<and> d = 0 then 8
              else 1)
      })"

definition parseTKHD :: "string \<Rightarrow> (int \<times> int \<times> int \<times> bool) option" where
  "parseTKHD b =
     (if length b < 4 then Some (0, 0, 0, False)
      else do {
        v \<leftarrow> go_at b 0;
        if v \<noteq> 0 \<and> v \<noteq> 1 then Some (0, 0, 0, False)
        else do {
          let offset = (if v = 0 then 4 + 4 + 4 + 4 + 4 + 4 else 4 + 8 + 8 + 4 + 4 + 8) + 16;
          if offset + 36 + 8 > int (length b) then Some (0, 0, 0, False)
          else do {
            w \<leftarrow> Uint32 b (offset + 36);
            h \<leftarrow> Uint32 b (offset + 40);
            m \<leftarrow> go_slice b offset (offset + 36);
            o' \<leftarrow> matrixOrientation m;
            Some (w div 2 ^ 16, h div 2 ^ 16, o', True)
          }
        }
      })"

definition moov_header :: "string \<Rightarrow> (Metadata \<times> bool) option" where
  "moov_header moov = do {
     let m = no_metadata\<lparr>md_Orientation := 1, md_Source := ''video''\<rparr>;
     box \<leftarrow> findBox moov ''mvhd'' 0;
     case box of
       None \<Rightarrow> Some (m, False)
     | Some mvhd \<Rightarrow> do {
         (d, created, good) \<leftarrow> parseMVHD mvhd;
         Some (if \<not> good then (m, False)
               else (m\<lparr>md_DurationMS := (if d > 0 then Some d else None), md_TakenAt := created\<rparr>, True))
       }
   }"

definition moov_track :: "string \<times> string \<Rightarrow> Metadata \<times> bool \<times> int \<Rightarrow> (Metadata \<times> bool \<times> int) option" where
  "moov_track tb st =
     (case tb of (typ, body) \<Rightarrow> case st of (m, ok, best) \<Rightarrow>
      if typ \<noteq> ''trak'' then Some st
      else do {
        box \<leftarrow> findBox body ''tkhd'' 0;
        case box of
          None \<Rightarrow> Some st
        | Some tkhd \<Rightarrow> do {
            (w, h, o', good) \<leftarrow> parseTKHD tkhd;
            Some (if \<not> good \<or> w \<le> 0 \<or> h \<le> 0 \<or> w * h \<le> best then st
                  else (m\<lparr>md_Width := w, md_Height := h, md_Orientation := o'\<rparr>, True, w * h))
          }
      })"

definition parseMoov :: "string \<Rightarrow> (Metadata \<times> bool) option" where
  "parseMoov moov = do {
     (m, ok) \<leftarrow> moov_header moov;
     bs \<leftarrow> forEachBox moov;
     (m', ok', best) \<leftarrow> fold (\<lambda>tb acc. do { st \<leftarrow> acc; moov_track tb st }) bs (Some (m, ok, 0));
     Some (m', ok')
   }"

definition parseMP4 :: "string \<Rightarrow> (Metadata \<times> bool) option" where
  "parseMP4 data = do {
     box \<leftarrow> findBox data ''moov'' 0;
     case box of None \<Rightarrow> Some (no_metadata, False) | Some moov \<Rightarrow> parseMoov moov
   }"

text \<open>
  \<open>parseMP4Seek\<close> reads through an \<open>io.ReadSeeker\<close> that holds \<open>file\<close> and may fail at any call: the head of
  the schedule says whether the next \<open>Seek\<close> or \<open>ReadFull\<close> fails.  A \<open>Seek\<close> to a negative offset and
  a \<open>ReadFull\<close> beyond the end fail too.  \<open>None\<close> inside is \<open>ok = false\<close>.
\<close>

fun rs_ok :: "bool list \<Rightarrow> bool \<times> bool list" where
  "rs_ok [] = (True, [])"
| "rs_ok (b # bs) = (\<not> b, bs)"

definition rs_read :: "string \<Rightarrow> int \<Rightarrow> int \<Rightarrow> bool list \<Rightarrow> string option \<times> bool list" where
  "rs_read file off n bs =
     (case rs_ok bs of (ok, bs') \<Rightarrow> ((if ok then go_slice file off (off + n) else None), bs'))"

definition rs_seek :: "int \<Rightarrow> bool list \<Rightarrow> bool \<times> bool list" where
  "rs_seek off bs = (case rs_ok bs of (ok, bs') \<Rightarrow> (ok \<and> 0 \<le> off, bs'))"

definition rs_box :: "string \<Rightarrow> int \<Rightarrow> bool list \<Rightarrow> (int \<times> string \<times> int) option \<times> bool list" where
  "rs_box file off bs =
     (case rs_seek off bs of (False, bs') \<Rightarrow> (None, bs')
      | (True, bs') \<Rightarrow> (case rs_read file off 8 bs' of (None, bs'') \<Rightarrow> (None, bs'')
        | (Some hdr, bs'') \<Rightarrow>
            (let sz = big (take 4 hdr); typ = drop 4 hdr in
             if sz = 0 then (Some (int (length file) - off, typ, 8), bs'')
             else if sz = 1 then
               (case rs_read file (off + 8) 8 bs'' of (None, bs3) \<Rightarrow> (None, bs3)
                | (Some ext, bs3) \<Rightarrow> (Some (int64 (big ext), typ, 16), bs3))
             else (Some (sz, typ, 8), bs''))))"

fun seek_walk :: "string \<Rightarrow> nat \<Rightarrow> int \<Rightarrow> bool list \<Rightarrow> (string option) \<times> bool list" where
  "seek_walk file 0 off bs = (None, bs)"
| "seek_walk file (Suc i) off bs =
     (if int64 (off + 8) > int (length file) then (None, bs)
      else (case rs_box file off bs of (None, bs') \<Rightarrow> (None, bs')
        | (Some (boxSize, typ, header), bs') \<Rightarrow>
            if boxSize < header \<or> int64 (off + boxSize) > int (length file) then (None, bs')
            else if typ = ''moov'' then
              (if boxSize - header \<le> 0 \<or> boxSize - header > maxMoovBytes then (None, bs')
               else (case rs_seek (int64 (off + header)) bs' of (False, b2) \<Rightarrow> (None, b2)
                 | (True, b2) \<Rightarrow> rs_read file (int64 (off + header)) (boxSize - header) b2))
            else seek_walk file i (int64 (off + boxSize)) bs'))"

definition parseMP4Seek :: "string \<Rightarrow> bool list \<Rightarrow> (Metadata \<times> bool) option" where
  "parseMP4Seek file bs =
     (case rs_ok bs of (ok, bs') \<Rightarrow>
      if \<not> ok \<or> length file < 8 then Some (no_metadata, False)
      else (case fst (seek_walk file maxTopLevelBoxes 0 bs') of
          None \<Rightarrow> Some (no_metadata, False)
        | Some moov \<Rightarrow> parseMoov moov))"

section \<open>Matroska and WebM\<close>

definition idEBMLHeader :: int where "idEBMLHeader = 0x1A45DFA3"
definition idSegment :: int where "idSegment = 0x18538067"
definition idTracks :: int where "idTracks = 0x1654AE6B"
definition idTrackEntry :: int where "idTrackEntry = 0xAE"
definition idVideo :: int where "idVideo = 0xE0"
definition idProjection :: int where "idProjection = 0x7670"
definition maxEBMLDepth :: nat where "maxEBMLDepth = 8"
definition mkvEpochOffset :: int where "mkvEpochOffset = 978307200"

definition looksLikeMatroska :: "string \<Rightarrow> bool option" where
  "looksLikeMatroska data =
     (if length data < 4 then Some False else map_option (\<lambda>v. v = idEBMLHeader) (Uint32 data 0))"

text \<open>The width the first byte announces: the position of its highest set bit.\<close>

definition marker_width :: "nat \<Rightarrow> nat" where
  "marker_width b = (case find (\<lambda>w. 2 ^ (8 - w) \<le> b) [1 ..< 9] of Some w \<Rightarrow> w | None \<Rightarrow> 9)"

definition ebmlID :: "string \<Rightarrow> int \<times> nat \<times> bool" where
  "ebmlID data =
     (if data = [] \<or> byte (hd data) = 0 then (0, 0, False)
      else let width = marker_width (byte (hd data)) in
        if width > 4 \<or> length data < width then (0, 0, False)
        else (big (take width data), width, True))"

definition ebmlSize :: "string \<Rightarrow> int \<times> nat \<times> bool \<times> bool" where
  "ebmlSize data =
     (if data = [] \<or> byte (hd data) = 0 then (0, 0, False, False)
      else let width = marker_width (byte (hd data)); mask = 2 ^ (8 - width) in
        if width > 8 \<or> length data < width then (0, 0, False, False)
        else let first = byte (hd data) mod mask;
                 more = take (width - 1) (tl data);
                 val = foldl (\<lambda>v c. 256 * v + int (byte c)) (int first) more
             in if first = mask - 1 \<and> list_all (\<lambda>c. byte c = 255) more then (0, width, True, True)
                else if val > 2 ^ 31 - 1 then (0, width, False, False)
                else (val, width, False, True))"

function ebml_walk :: "string \<Rightarrow> int \<Rightarrow> (int \<times> string) list option" where
  "ebml_walk data off =
     (if off \<ge> int (length data) then Some []
      else do {
        front \<leftarrow> go_slice data off (int (length data));
        (case ebmlID front of (i, n, ok) \<Rightarrow>
           if \<not> ok then Some []
           else do {
             rest \<leftarrow> go_slice data (off + int n) (int (length data));
             (case ebmlSize rest of (esize, k, unknown, ok') \<Rightarrow>
                let off' = off + int n + int k in
                if \<not> ok' then Some []
                else if unknown then
                  (if i = idSegment then do { body \<leftarrow> go_slice data off' (int (length data)); Some [(i, body)] }
                   else Some [])
                else if esize < 0 \<or> off' + esize > int (length data) then Some []
                else do {
                  body \<leftarrow> go_slice data off' (off' + esize);
                  more \<leftarrow> ebml_walk data (off' + esize);
                  Some ((i, body) # more)
                })
           })
      })"
  by pat_completeness auto
termination
proof (relation "measure (\<lambda>(data, off). nat (int (length data) - off))", goal_cases)
  case (2 data off front i p n ok rest esize p' k p'' unknown ok' off' body)
  then have "0 < n" by (auto simp: ebmlID_def Let_def marker_width_def find_Some_iff split: if_splits option.splits)
  with 2 show ?case by (auto simp: go_slice_def split: if_splits)
qed simp

declare ebml_walk.simps [simp del]

definition forEachEBML :: "string \<Rightarrow> (int \<times> string) list option" where
  "forEachEBML data = ebml_walk data 0"

function findEBML :: "string \<Rightarrow> int \<Rightarrow> nat \<Rightarrow> string option option" where
  "findEBML data want depth =
     (if depth > maxEBMLDepth then Some None
      else do {
        es \<leftarrow> forEachEBML data;
        fold (\<lambda>(i, body) acc. do {
          found \<leftarrow> acc;
          if found \<noteq> None then Some found
          else if i = want then Some (Some body)
          else if i \<in> {idSegment, idTracks, idTrackEntry, idVideo, idProjection} then findEBML body want (depth + 1)
          else Some None
        }) es (Some None)
      })"
  by pat_completeness auto
termination
  by (relation "measure (\<lambda>(data, want, depth). Suc maxEBMLDepth - depth)") auto

declare findEBML.simps [simp del]

definition ebmlUint :: "string \<Rightarrow> int \<times> bool" where
  "ebmlUint body = (if length body > 8 then (0, False) else (big body, True))"

definition ebmlInt :: "string \<Rightarrow> int \<times> bool" where
  "ebmlInt body =
     (if body = [] \<or> length body > 8 then (0, False)
      else (foldl (\<lambda>v c. int64 (256 * v + int (byte c))) (if 128 \<le> byte (hd body) then -1 else 0) body, True))"

definition mkvTime :: "string \<Rightarrow> int option" where
  "mkvTime body =
     (case ebmlInt body of (ns, ok) \<Rightarrow> if \<not> ok \<or> ns = 0 then None else Some (mkvEpochOffset * 1000000000 + ns))"

definition clampDimension :: "int \<Rightarrow> int" where
  "clampDimension v = (if v = 0 \<or> v > 2 ^ 20 then 0 else v)"

end
