(* ===== verification/ContainersSpec.thy ===== *)
theory ContainersSpec
  imports Containers
begin

text \<open>
  What the readers of media headers guarantee.  The MP4 reader and the EBML reader return a value, that is
  neither panic nor run for ever, whatever the bytes, except where the length arithmetic of an MP4 box
  overflows; the length encoding of EBML round-trips.
\<close>

section \<open>Slices\<close>

lemma go_slice_sublist: "go_slice b lo hi = Some s \<Longrightarrow> sublist s b"
  by (auto simp: go_slice_def split: if_splits intro: sublist_order.order_trans [OF sublist_take sublist_drop])

lemma go_slice_length: "go_slice b lo hi = Some s \<Longrightarrow> int (length s) = hi - lo"
  by (auto simp: go_slice_def split: if_splits)

lemma go_slice_total: "0 \<le> lo \<Longrightarrow> lo \<le> hi \<Longrightarrow> hi \<le> int (length b) \<Longrightarrow> \<exists>s. go_slice b lo hi = Some s \<and> int (length s) = hi - lo"
  by (auto simp: go_slice_def)

lemma Uint_total:
  "0 \<le> i \<Longrightarrow> i + 4 \<le> int (length b) \<Longrightarrow> \<exists>v. Uint32 b i = Some v"
  "0 \<le> i \<Longrightarrow> i + 8 \<le> int (length b) \<Longrightarrow> \<exists>v. Uint64 b i = Some v"
  using go_slice_total [of i "i + 4" b] go_slice_total [of i "i + 8" b] by (auto simp: Uint32_def Uint64_def)

lemma go_at_total: "0 \<le> i \<Longrightarrow> i < int (length b) \<Longrightarrow> \<exists>v. go_at b i = Some v"
  by (simp add: go_at_def)

lemma big_snoc: "big (b @ [c]) = 256 * big b + int (byte c)"
  by (simp add: big_def)

lemma big_range: "0 \<le> big b \<and> big b < 256 ^ length b"
proof (induction b rule: rev_induct)
  case Nil
  then show ?case by (simp add: big_def)
next
  case (snoc c cs)
  have "int (byte c) < 256" by simp
  then have "256 * big cs + int (byte c) < 256 * (big cs + 1)" by simp
  also have "\<dots> \<le> 256 * 256 ^ length cs" using snoc by (intro mult_left_mono) auto
  finally show ?case using snoc by (simp add: big_snoc)
qed

lemma Uint32_range: "Uint32 b i = Some v \<Longrightarrow> 0 \<le> v \<and> v < 2 ^ 32"
proof -
  assume "Uint32 b i = Some v"
  then obtain s where "length s = 4" "v = big s" using go_slice_length by (fastforce simp: Uint32_def)
  with big_range [of s] show ?thesis by simp
qed

lemma Uint64_range: "Uint64 b i = Some v \<Longrightarrow> 0 \<le> v \<and> v < 2 ^ 64"
proof -
  assume "Uint64 b i = Some v"
  then obtain s where "length s = 8" "v = big s" using go_slice_length by (fastforce simp: Uint64_def)
  with big_range [of s] show ?thesis by simp
qed

section \<open>Boxes\<close>

text \<open>
  A header that declares a 64-bit length so close to the largest \<open>int64\<close> that adding the box's own
  offset leaves the range.
\<close>

definition huge_box :: "string \<Rightarrow> bool" where
  "huge_box data \<longleftrightarrow> list_ex (\<lambda>i. big (take 4 (drop i data)) = 1 \<and>
     2 ^ 63 - int (length data) \<le> big (take 8 (drop (i + 8) data)) \<and> big (take 8 (drop (i + 8) data)) < 2 ^ 63)
     [0 ..< length data - 15]"

lemma huge_boxI:
  "i + 16 \<le> length data \<Longrightarrow> big (take 4 (drop i data)) = 1 \<Longrightarrow> 2 ^ 63 - int (length data) \<le> big (take 8 (drop (i + 8) data)) \<Longrightarrow>
   big (take 8 (drop (i + 8) data)) < 2 ^ 63 \<Longrightarrow> huge_box data"
  by (auto simp: huge_box_def list_ex_iff intro!: bexI [of _ i])

lemma huge_box_sublist: "sublist b data \<Longrightarrow> huge_box b \<Longrightarrow> huge_box data"
proof -
  assume "sublist b data" "huge_box b"
  then obtain p q where data: "data = p @ b @ q" by (auto simp: sublist_def)
  from \<open>huge_box b\<close> obtain i where "i < length b - 15" and i': "big (take 4 (drop i b)) = 1"
    "2 ^ 63 - int (length b) \<le> big (take 8 (drop (i + 8) b))" "big (take 8 (drop (i + 8) b)) < 2 ^ 63"
    by (auto simp: huge_box_def list_ex_iff)
  then have i: "i + 16 \<le> length b" by simp
  have "take 4 (drop (length p + i) data) = take 4 (drop i b)" "take 8 (drop (length p + i + 8) data) = take 8 (drop (i + 8) b)"
    using i by (simp_all add: data)
  with i i' show ?thesis by (intro huge_boxI [of "length p + i"]) (auto simp: data)
qed

lemma int64_id: "- (2 ^ 63) \<le> i \<Longrightarrow> i < 2 ^ 63 \<Longrightarrow> int64 i = i"
  by (simp add: int64_def)

lemma int64_neg: "2 ^ 63 \<le> i \<Longrightarrow> i < 2 ^ 64 \<Longrightarrow> int64 i < 0"
proof -
  assume "2 ^ 63 \<le> i" "i < 2 ^ 64"
  moreover have "(i - 2 ^ 63 + 2 ^ 64) mod 2 ^ 64 = (i - 2 ^ 63) mod (2 ^ 64 :: int)" by (rule mod_add_self2)
  ultimately show ?thesis by (simp add: int64_def add.commute)
qed

lemma box_walk_total:
  assumes "\<not> huge_box data" and "int (length data) < 2 ^ 62" and "0 \<le> off"
  shows "\<exists>bs. box_walk data off = Some bs \<and> (\<forall>(t, b) \<in> set bs. sublist b data)"
  using assms
proof (induction data off rule: box_walk.induct)
  case (1 data off)
  show ?case
  proof (cases "off + 8 > int (length data)")
    case True
    then show ?thesis by (subst box_walk.simps) simp
  next
    case False
    from False 1(4) obtain sz where sz: "Uint32 data off = Some sz" using Uint_total(1) [of off data] by auto
    from False 1(4) obtain ty where ty: "go_slice data (off + 4) (off + 8) = Some ty"
      using go_slice_total [of "off + 4" "off + 8" data] by auto
    from False 1(4) obtain tail where tail: "go_slice data (off + 8) (int (length data)) = Some tail"
      using go_slice_total [of "off + 8" "int (length data)" data] by auto
    have szr: "0 \<le> sz" "sz < 2 ^ 32" using Uint32_range [OF sz] by auto
    show ?thesis
    proof (cases "sz = 0")
      case True
      with False sz ty tail go_slice_sublist [OF tail] show ?thesis by (subst box_walk.simps) simp
    next
      case nz: False
      show ?thesis
      proof (cases "sz = 1 \<and> off + 16 > int (length data)")
        case True
        with False sz ty show ?thesis by (subst box_walk.simps) simp
      next
        case full: False
        obtain bsize header where sh: "(if sz = 1 then map_option (\<lambda>v. (int64 v, 16)) (Uint64 data (off + 8)) else Some (sz, 8)) = Some (bsize, header)"
          "0 < header" "header \<le> bsize \<Longrightarrow> off + bsize < 2 ^ 63"
        proof (cases "sz = 1")
          case True
          with full 1(4) obtain v where v: "Uint64 data (off + 8) = Some v" using Uint_total(2) [of "off + 8" data] by auto
          have vr: "0 \<le> v" "v < 2 ^ 64" using Uint64_range [OF v] by auto
          have "off + int64 v < 2 ^ 63" if "16 \<le> int64 v"
          proof -
            have lt: "v < 2 ^ 63" using that int64_neg [of v] vr by (cases "v < 2 ^ 63") auto
            then have id: "int64 v = v" using vr by (simp add: int64_id)
            have at: "big (take 4 (drop (nat off) data)) = 1" "big (take 8 (drop (nat off + 8) data)) = v"
              using sz v True 1(4) full by (auto simp: Uint32_def Uint64_def go_slice_def nat_add_distrib split: if_splits)
            have "v < 2 ^ 63 - int (length data)"
              using huge_boxI [of "nat off" data] at lt full True 1(2,4) by force
            then show ?thesis using full True id by simp
          qed
          with v True that show ?thesis by auto
        next
          case False
          with szr full 1(3) \<open>\<not> off + 8 > int (length data)\<close> that show ?thesis by auto
        qed
        show ?thesis
        proof (cases "bsize < header \<or> int64 (off + bsize) > int (length data)")
          case True
          with False nz full sz ty sh(1) show ?thesis by (subst box_walk.simps) simp
        next
          case fits: False
          have id: "int64 (off + bsize) = off + bsize" using sh(2,3) fits 1(4) by (intro int64_id) auto
          from fits sh(2) 1(4) obtain body where body: "go_slice data (off + header) (off + bsize) = Some body"
            using go_slice_total [of "off + header" "off + bsize" data] id by auto
          have "\<exists>bs. box_walk data (off + bsize) = Some bs \<and> (\<forall>(t, b) \<in> set bs. sublist b data)"
            using "1.IH" [OF False sz ty nz full sh(1) refl] fits body id 1(2,3,4) sh(2) by simp
          then obtain rest where rest: "box_walk data (off + bsize) = Some rest" "\<forall>(t, b) \<in> set rest. sublist b data" by blast
          with False nz full sz ty sh(1) fits body id go_slice_sublist [OF body] show ?thesis
            by (subst box_walk.simps) simp
        qed
      qed
    qed
  qed
qed

lemma forEachBox_total:
  "\<not> huge_box data \<Longrightarrow> int (length data) < 2 ^ 62 \<Longrightarrow> \<exists>bs. forEachBox data = Some bs \<and> (\<forall>(t, b) \<in> set bs. sublist b data)"
  unfolding forEachBox_def by (rule box_walk_total) simp_all

text \<open>A loop over boxes that can panic in no step does not panic.\<close>

lemma fold_option_total:
  assumes "J st" and "\<And>tb st. tb \<in> set xs \<Longrightarrow> J st \<Longrightarrow> \<exists>st'. f tb st = Some st' \<and> J st'"
  shows "\<exists>st'. fold (\<lambda>tb acc. Option.bind acc (f tb)) xs (Some st) = Some st' \<and> J st'"
  using assms
proof (induction xs arbitrary: st)
  case (Cons x xs)
  from Cons.prems(2) [of x st] Cons.prems(1) obtain st1 where st1: "f x st = Some st1" "J st1" by auto
  have "\<exists>st'. fold (\<lambda>tb acc. Option.bind acc (f tb)) xs (Some st1) = Some st' \<and> J st'"
    by (rule Cons.IH [OF st1(2)]) (use Cons.prems(2) in auto)
  with st1(1) show ?case by simp
qed simp

lemma findBox_total:
  assumes "\<not> huge_box data" and "int (length data) < 2 ^ 62"
  shows "\<exists>r. findBox data want depth = Some r \<and> (\<forall>b. r = Some b \<longrightarrow> sublist b data)"
  using assms
proof (induction data want depth rule: findBox.induct)
  case (1 data want depth)
  show ?case
  proof (cases "depth > maxBoxDepth")
    case True
    then show ?thesis by (subst findBox.simps) simp
  next
    case False
    obtain bs where bs: "forEachBox data = Some bs" "\<forall>(t, b) \<in> set bs. sublist b data"
      using forEachBox_total [OF 1(2,3)] by blast
    let ?f = "\<lambda>(typ, body) found. if found \<noteq> None then Some found
          else if typ = want then Some (Some body)
          else if typ \<in> {''trak'', ''mdia'', ''minf'', ''stbl'', ''edts''} then findBox body want (depth + 1)
          else Some None"
    let ?J = "\<lambda>r. \<forall>b. r = Some b \<longrightarrow> sublist b data"
    have "\<exists>r. fold (\<lambda>tb acc. Option.bind acc (?f tb)) bs (Some None) = Some r \<and> ?J r"
    proof (rule fold_option_total)
      fix tb st assume tb: "tb \<in> set bs" and J: "?J st"
      obtain t body where t: "tb = (t, body)" by (cases tb)
      have sub: "sublist body data" using bs(2) tb t by auto
      have nested: "\<exists>r. findBox body want (depth + 1) = Some r \<and> ?J r"
        if "st = None" "t \<noteq> want" "t \<in> {''trak'', ''mdia'', ''minf'', ''stbl'', ''edts''}"
      proof -
        have "\<not> huge_box body" using huge_box_sublist [OF sub] 1(2) by blast
        moreover have "int (length body) < 2 ^ 62" using sublist_length_le [OF sub] 1(3) by linarith
        ultimately have "\<exists>r. findBox body want (depth + 1) = Some r \<and> (\<forall>b. r = Some b \<longrightarrow> sublist b body)"
          using "1.IH" [OF False bs(1) tb] t that by auto
        then show ?thesis using sub sublist_order.order_trans by blast
      qed
      show "\<exists>st'. ?f tb st = Some st' \<and> ?J st'"
        using J sub nested by (cases "st = None") (auto simp: t)
    qed simp
    moreover have "(\<lambda>tb acc. Option.bind acc (?f tb)) = (\<lambda>(typ, body) acc. Option.bind acc (\<lambda>found. ?f (typ, body) found))"
      by (auto simp: fun_eq_iff)
    ultimately show ?thesis using False bs(1) by (subst findBox.simps) simp
  qed
qed

section \<open>MP4 fields\<close>

lemma parseMVHD_total: "\<exists>d c ok. parseMVHD b = Some (d, c, ok) \<and> d < 2 ^ 63"
proof -
  have at: "\<exists>v. go_at b 0 = Some v" if "\<not> length b < 4" using that by (intro go_at_total) auto
  have dur: "int64 (x mod 18446744073709551616 div y) < 9223372036854775808" for x y by (simp add: int64_def)
  have ex: "\<exists>b. b" "Ex Not" by blast+
  have v0: "\<exists>c t d. Uint32 b 4 = Some c \<and> Uint32 b 12 = Some t \<and> Uint32 b 16 = Some d" if "\<not> length b < 20"
    using that Uint_total(1) [of 4 b] Uint_total(1) [of 12 b] Uint_total(1) [of 16 b] by auto
  have v1: "\<exists>c t d. Uint64 b 4 = Some c \<and> Uint32 b 20 = Some t \<and> Uint64 b 24 = Some d" if "\<not> length b < 32"
    using that Uint_total(2) [of 4 b] Uint_total(1) [of 20 b] Uint_total(2) [of 24 b] by auto
  consider "length b < 4" | v where "go_at b 0 = Some v" "\<not> length b < 4" using at by blast
  then show ?thesis
  proof cases
    case 2
    consider "v = 0" "length b < 20" | "v = 0" "\<not> length b < 20" | "v = 1" "length b < 32" | "v = 1" "\<not> length b < 32" | "v \<noteq> 0" "v \<noteq> 1"
      by blast
    then show ?thesis
    proof cases
      case b: 2
      with v0 obtain c t d where "Uint32 b 4 = Some c" "Uint32 b 12 = Some t" "Uint32 b 16 = Some d" by blast
      with 2 b show ?thesis by (simp add: parseMVHD_def dur uint64_def ex)
    next
      case b: 4
      with v1 obtain c t d where "Uint64 b 4 = Some c" "Uint32 b 20 = Some t" "Uint64 b 24 = Some d" by blast
      with 2 b show ?thesis by (simp add: parseMVHD_def dur uint64_def ex)
    qed (use 2 in \<open>simp_all add: parseMVHD_def ex\<close>)
  qed (simp add: parseMVHD_def ex)
qed

lemma matrixOrientation_total: "\<exists>v. matrixOrientation m = Some v \<and> v \<in> {1, 3, 6, 8}"
proof (cases "length m < 36")
  case False
  then obtain a b c d where "Uint32 m 0 = Some a" "Uint32 m 4 = Some b" "Uint32 m 12 = Some c" "Uint32 m 16 = Some d"
    using Uint_total(1) [of 0 m] Uint_total(1) [of 4 m] Uint_total(1) [of 12 m] Uint_total(1) [of 16 m] by auto
  with False show ?thesis by (simp add: matrixOrientation_def Let_def)
qed (simp add: matrixOrientation_def)

lemma parseTKHD_total:
  "\<exists>w h v ok. parseTKHD b = Some (w, h, v, ok) \<and> 0 \<le> w \<and> w < 2 ^ 16 \<and> 0 \<le> h \<and> h < 2 ^ 16 \<and> (ok \<longrightarrow> v \<in> {1, 3, 6, 8})"
proof (cases "length b < 4")
  case True
  then have "parseTKHD b = Some (0, 0, 0, False)" by (simp add: parseTKHD_def)
  then show ?thesis by auto
next
  case False
  have "\<exists>v. go_at b 0 = Some v" using False by (intro go_at_total) auto
  then obtain v where v: "go_at b 0 = Some v" by blast
  show ?thesis
  proof (cases "v = 0 \<or> v = 1")
    case False
    with v \<open>\<not> length b < 4\<close> have "parseTKHD b = Some (0, 0, 0, False)" by (simp add: parseTKHD_def)
    then show ?thesis by auto
  next
    case True
    define offset :: int where "offset = (if v = 0 then 4 + 4 + 4 + 4 + 4 + 4 else 4 + 8 + 8 + 4 + 4 + 8) + 16"
    have pos: "0 \<le> offset" by (simp add: offset_def)
    show ?thesis
    proof (cases "offset + 36 + 8 > int (length b)")
      case t: True
      have "parseTKHD b = Some (0, 0, 0, False)"
        unfolding parseTKHD_def using v True False \<open>\<not> length b < 4\<close> t by (simp add: Let_def flip: offset_def)
      then show ?thesis by auto
    next
      case f: False
      with pos obtain w h m where whm: "Uint32 b (offset + 36) = Some w" "Uint32 b (offset + 40) = Some h"
        "go_slice b offset (offset + 36) = Some m"
        using Uint_total(1) [of "offset + 36" b] Uint_total(1) [of "offset + 40" b] go_slice_total [of offset "offset + 36" b] by auto
      obtain q where q: "matrixOrientation m = Some q" "q \<in> {1, 3, 6, 8}" using matrixOrientation_total by blast
      have "parseTKHD b = Some (w div 2 ^ 16, h div 2 ^ 16, q, True)"
        unfolding parseTKHD_def using v True False \<open>\<not> length b < 4\<close> f whm q(1)
        by (simp add: Let_def flip: offset_def)
      with q(2) Uint32_range [OF whm(1)] Uint32_range [OF whm(2)] show ?thesis by auto
    qed
  qed
qed

definition sane :: "Metadata \<Rightarrow> bool" where
  "sane m \<longleftrightarrow> 0 \<le> md_Width m \<and> md_Width m < 2 ^ 16 \<and> 0 \<le> md_Height m \<and> md_Height m < 2 ^ 16 \<and>
     md_Orientation m \<in> {1, 3, 6, 8} \<and> (case md_DurationMS m of None \<Rightarrow> True | Some d \<Rightarrow> 0 < d \<and> d < 2 ^ 63)"

lemma parseMoov_total:
  assumes "\<not> huge_box moov" and "int (length moov) < 2 ^ 62"
  shows "\<exists>m ok. parseMoov moov = Some (m, ok) \<and> sane m"
proof -
  obtain r where mvhd: "findBox moov ''mvhd'' 0 = Some r" using findBox_total [OF assms] by blast
  have "\<exists>m ok. moov_header moov = Some (m, ok) \<and> sane m"
  proof (cases r)
    case None
    with mvhd show ?thesis by (auto simp: moov_header_def Let_def no_metadata_def sane_def)
  next
    case (Some b)
    obtain d c good where "parseMVHD b = Some (d, c, good)" "d < 2 ^ 63" using parseMVHD_total by blast
    with mvhd Some show ?thesis by (auto simp: moov_header_def Let_def no_metadata_def sane_def)
  qed
  then obtain m ok where header: "moov_header moov = Some (m, ok)" "sane m" by blast
  obtain bs where bs: "forEachBox moov = Some bs" "\<forall>(t, b) \<in> set bs. sublist b moov"
    using forEachBox_total [OF assms] by blast
  have "\<exists>st. fold (\<lambda>tb acc. Option.bind acc (moov_track tb)) bs (Some (m, ok, 0)) = Some st \<and> sane (fst st)"
  proof (rule fold_option_total)
    fix tb and st :: "Metadata \<times> bool \<times> int" assume tb: "tb \<in> set bs" and sane: "sane (fst st)"
    obtain t body where t: "tb = (t, body)" by (cases tb)
    obtain m0 ok0 best where st: "st = (m0, ok0, best)" by (cases st)
    have sub: "sublist body moov" using bs(2) tb t by auto
    have "\<not> huge_box body" using huge_box_sublist [OF sub] assms(1) by blast
    moreover have "int (length body) < 2 ^ 62" using sublist_length_le [OF sub] assms(2) by linarith
    ultimately obtain r where r: "findBox body ''tkhd'' 0 = Some r" using findBox_total by blast
    show "\<exists>st'. moov_track tb st = Some st' \<and> sane (fst st')"
    proof (cases r)
      case None
      with r sane show ?thesis by (simp add: moov_track_def t st)
    next
      case (Some b)
      obtain w h v good where "parseTKHD b = Some (w, h, v, good)" "0 \<le> w" "w < 2 ^ 16" "0 \<le> h" "h < 2 ^ 16"
        "good \<longrightarrow> v \<in> {1, 3, 6, 8}" using parseTKHD_total by blast
      with r Some sane show ?thesis by (auto simp: moov_track_def t st sane_def)
    qed
  qed (use header in simp)
  then obtain st where "fold (\<lambda>tb acc. Option.bind acc (moov_track tb)) bs (Some (m, ok, 0)) = Some st" "sane (fst st)" by blast
  with header bs(1) show ?thesis by (cases st) (simp add: parseMoov_def)
qed

lemma seek_walk_sublist: "fst (seek_walk fl n off bs) = Some moov \<Longrightarrow> sublist moov fl"
proof (induction fl n off bs rule: seek_walk.induct)
  case (2 fl i off bs)
  have read: "sublist s fl" if "fst (rs_read fl a k b) = Some s" for a k b s
    using that go_slice_sublist by (auto simp: rs_read_def split: prod.splits if_splits)
  obtain q bs' where q: "rs_box fl off bs = (q, bs')" by fastforce
  show ?case
  proof (cases q)
    case None
    with 2(2) q show ?thesis by (auto split: if_splits)
  next
    case (Some x)
    obtain boxSize t header where x: "x = (boxSize, t, header)" by (cases x)
    with 2(2) q Some have "\<not> int64 (off + 8) > int (length fl)" "\<not> (boxSize < header \<or> int64 (off + boxSize) > int (length fl))"
      by (auto split: if_splits)
    with 2 q Some x read show ?thesis
      by (cases "t = ''moov''") (auto split: if_splits prod.splits bool.splits)
  qed
qed simp

text \<open>C38: as long as no box declares a 64-bit length that overflows an offset, reading an MP4 header never
  panics, from a prefix in memory or by seeking in a file that may fail at any call, and what it
  reports is in range: dimensions of 16 bits, one of the four orientations, a positive duration.\<close>

theorem mp4_reader_is_total:
  assumes "\<not> huge_box data" and "int (length data) < 2 ^ 62"
  shows "\<exists>m ok m' ok'. parseMP4 data = Some (m, ok) \<and> (ok \<longrightarrow> sane m) \<and>
    parseMP4Seek data fs = Some (m', ok') \<and> (ok' \<longrightarrow> sane m')"
proof -
  have moov: "\<exists>m ok. parseMoov b = Some (m, ok) \<and> (ok \<longrightarrow> sane m)" if sub: "sublist b data" for b
  proof -
    have "\<not> huge_box b" "int (length b) < 2 ^ 62"
      using huge_box_sublist [OF sub] sublist_length_le [OF sub] assms by auto
    with parseMoov_total show ?thesis by blast
  qed
  obtain r where r: "findBox data ''moov'' 0 = Some r" "\<forall>b. r = Some b \<longrightarrow> sublist b data"
    using findBox_total [OF assms] by blast
  have "\<exists>m ok. parseMP4 data = Some (m, ok) \<and> (ok \<longrightarrow> sane m)"
    using r moov by (cases r) (auto simp: parseMP4_def)
  moreover have "\<exists>m ok. parseMP4Seek data fs = Some (m, ok) \<and> (ok \<longrightarrow> sane m)"
    using moov seek_walk_sublist [of data maxTopLevelBoxes 0]
    by (auto simp: parseMP4Seek_def split: prod.splits option.splits)
  ultimately show ?thesis by blast
qed

definition chars :: "nat list \<Rightarrow> string" where
  "chars bs = map char_of bs"

definition demo_mp4 :: string where
  "demo_mp4 = chars [0, 0, 0, 36] @ ''moov'' @ chars [0, 0, 0, 28] @ ''mvhd'' @
     chars [0, 0, 0, 0, 0, 0, 0, 0, 0, 0, 0, 0, 0, 0, 3, 232, 0, 0, 19, 136]"

theorem mp4_reader_is_total_witness:
  "\<exists>m ok m' ok'. parseMP4 demo_mp4 = Some (m, ok) \<and> parseMP4Seek demo_mp4 [] = Some (m', ok')"
proof -
  have "\<not> huge_box demo_mp4" "int (length demo_mp4) < 2 ^ 62" by code_simp+
  from mp4_reader_is_total [OF this] show ?thesis by blast
qed

lemma demo_mp4_read: "map_option (\<lambda>(m, ok). (md_DurationMS m, ok)) (parseMP4 demo_mp4) = Some (Some 5000, True)"
  by code_simp

text \<open>The addition of a declared length to an offset is not guarded against overflow: a file of 24 bytes
  whose second box declares a length of \<open>2 ^ 63 - 1\<close> passes the bounds test and makes the slice
  expression panic.\<close>

definition crafted_mp4 :: string where
  "crafted_mp4 = chars [0, 0, 0, 8] @ ''ftyp'' @ chars [0, 0, 0, 1] @ ''free'' @ chars [127, 255, 255, 255, 255, 255, 255, 255]"

theorem mp4_reader_panics: "looksLikeMP4 crafted_mp4 = Some True \<and> parseMP4 crafted_mp4 = None"
  by code_simp

section \<open>EBML\<close>

lemma marker_width_pos: "0 < marker_width b"
  by (auto simp: marker_width_def find_Some_iff split: option.splits)

lemma ebmlID_bounds: "ebmlID data = (i, n, True) \<Longrightarrow> 0 < n \<and> n \<le> length data"
  using marker_width_pos by (auto simp: ebmlID_def Let_def split: if_splits)

lemma foldl_big_nonneg: "0 \<le> a \<Longrightarrow> 0 \<le> foldl (\<lambda>v c. 256 * v + int (byte c)) a cs"
  by (induction cs arbitrary: a) auto

lemma ebmlSize_bounds:
  "ebmlSize data = (v, k, u, True) \<Longrightarrow> 0 < k \<and> k \<le> length data \<and> 0 \<le> v \<and> v < 2 ^ 31"
  using marker_width_pos by (auto simp: ebmlSize_def Let_def foldl_big_nonneg split: if_splits)

lemma ebml_walk_total: "0 \<le> off \<Longrightarrow> \<exists>es. ebml_walk data off = Some es \<and> (\<forall>(i, b) \<in> set es. sublist b data)"
proof (induction data off rule: ebml_walk.induct)
  case (1 data off)
  show ?case
  proof (cases "off \<ge> int (length data)")
    case True
    then show ?thesis by (subst ebml_walk.simps) simp
  next
    case inside: False
    then obtain front where front: "go_slice data off (int (length data)) = Some front"
      "int (length front) = int (length data) - off" using go_slice_total [of off "int (length data)" data] 1(2) by auto
    obtain i n ok where i: "ebmlID front = (i, n, ok)" by (cases "ebmlID front")
    show ?thesis
    proof (cases ok)
      case False
      with inside front(1) i show ?thesis by (subst ebml_walk.simps) simp
    next
      case True
      with ebmlID_bounds i have n: "0 < n" "n \<le> length front" by auto
      then obtain rest where rest: "go_slice data (off + int n) (int (length data)) = Some rest"
        "int (length rest) = int (length data) - (off + int n)"
        using go_slice_total [of "off + int n" "int (length data)" data] 1(2) front(2) by auto
      obtain v k u ok' where s: "ebmlSize rest = (v, k, u, ok')" by (cases "ebmlSize rest")
      show ?thesis
      proof (cases ok')
        case False
        with inside front(1) i True rest(1) s show ?thesis by (subst ebml_walk.simps) simp
      next
        case ok': True
        with ebmlSize_bounds s have k: "0 < k" "k \<le> length rest" "0 \<le> v" "v < 2 ^ 31" by auto
        let ?off = "off + int n + int k"
        note step = inside front(1) i True rest(1) s ok'
        show ?thesis
        proof (cases u)
          case u: True
          obtain tail where "go_slice data ?off (int (length data)) = Some tail"
            using go_slice_total [of ?off "int (length data)" data] 1(2) k(2) rest(2) by auto
          with step u go_slice_sublist show ?thesis by (subst ebml_walk.simps) auto
        next
          case u: False
          show ?thesis
          proof (cases "v < 0 \<or> ?off + v > int (length data)")
            case out: True
            with step u show ?thesis by (subst ebml_walk.simps) auto
          next
            case fits: False
            then obtain body where body: "go_slice data ?off (?off + v) = Some body"
              using go_slice_total [of ?off "?off + v" data] 1(2) by auto
            have "\<exists>es. ebml_walk data (?off + v) = Some es \<and> (\<forall>(i, b) \<in> set es. sublist b data)"
              using "1.IH" [OF inside front(1)] i True rest(1) s ok' u fits body 1(2) by auto
            then obtain es where "ebml_walk data (?off + v) = Some es" "\<forall>(i, b) \<in> set es. sublist b data" by blast
            with step u fits body go_slice_sublist [OF body] show ?thesis by (subst ebml_walk.simps) simp
          qed
        qed
      qed
    qed
  qed
qed

lemma findEBML_total: "\<exists>r. findEBML data want depth = Some r \<and> (\<forall>b. r = Some b \<longrightarrow> sublist b data)"
proof (induction data want depth rule: findEBML.induct)
  case (1 data want depth)
  show ?case
  proof (cases "depth > maxEBMLDepth")
    case True
    then show ?thesis by (subst findEBML.simps) simp
  next
    case False
    obtain es where es: "forEachEBML data = Some es" "\<forall>(i, b) \<in> set es. sublist b data"
      using ebml_walk_total [of 0 data] by (auto simp: forEachEBML_def)
    let ?f = "\<lambda>(i, body) found. if found \<noteq> None then Some found
          else if i = want then Some (Some body)
          else if i \<in> {idSegment, idTracks, idTrackEntry, idVideo, idProjection} then findEBML body want (depth + 1)
          else Some None"
    let ?J = "\<lambda>r. \<forall>b. r = Some b \<longrightarrow> sublist b data"
    have "\<exists>r. fold (\<lambda>e acc. Option.bind acc (?f e)) es (Some None) = Some r \<and> ?J r"
    proof (rule fold_option_total)
      fix e st assume e: "e \<in> set es" and J: "?J st"
      obtain i body where ib: "e = (i, body)" by (cases e)
      have sub: "sublist body data" using es(2) e ib by auto
      have nested: "\<exists>r. findEBML body want (depth + 1) = Some r \<and> ?J r"
        if "st = None" "i \<noteq> want" "i \<in> {idSegment, idTracks, idTrackEntry, idVideo, idProjection}"
      proof -
        have "\<exists>r. findEBML body want (depth + 1) = Some r \<and> (\<forall>b. r = Some b \<longrightarrow> sublist b body)"
          using "1.IH" [OF False es(1) e] ib that by auto
        then show ?thesis using sub sublist_order.order_trans by blast
      qed
      show "\<exists>st'. ?f e st = Some st' \<and> ?J st'"
        using J sub nested by (cases "st = None") (auto simp: ib)
    qed simp
    moreover have "(\<lambda>e acc. Option.bind acc (?f e)) = (\<lambda>(i, body) acc. Option.bind acc (\<lambda>found. ?f (i, body) found))"
      by (auto simp: fun_eq_iff)
    ultimately show ?thesis using False es(1) by (subst findEBML.simps) simp
  qed
qed


section \<open>The length format\<close>

text \<open>
  The EBML specification's side: a length \<open>n\<close> in \<open>w\<close> bytes is a marker bit after \<open>w - 1\<close> zero bits,
  followed by \<open>n\<close> in \<open>7 * w\<close> bits; all of them set is reserved.
\<close>

fun be_bytes :: "nat \<Rightarrow> nat \<Rightarrow> string" where
  "be_bytes 0 n = []"
| "be_bytes (Suc k) n = char_of (n div 256 ^ k) # be_bytes k (n mod 256 ^ k)"

definition enc_size :: "nat \<Rightarrow> nat \<Rightarrow> string" where
  "enc_size w n = char_of (2 ^ (8 - w) + n div 256 ^ (w - 1)) # be_bytes (w - 1) (n mod 256 ^ (w - 1))"

lemma length_be_bytes [simp]: "length (be_bytes k n) = k"
  by (induction k arbitrary: n) auto

lemma foldl_be_bytes:
  "n < 256 ^ k \<Longrightarrow> foldl (\<lambda>v c. 256 * v + int (byte c)) a (be_bytes k n) = a * 256 ^ k + int n"
proof (induction k arbitrary: n a)
  case (Suc k)
  have "n div 256 ^ k < 256" using Suc.prems by (simp add: less_mult_imp_div_less)
  then have b: "byte (char_of (n div 256 ^ k)) = n div 256 ^ k" by simp
  have n: "int (n div 256 ^ k) * 256 ^ k + int (n mod 256 ^ k) = int n"
    using arg_cong [OF div_mult_mod_eq [of n "256 ^ k"], of int] by (simp only: of_nat_add of_nat_mult of_nat_power of_nat_numeral)
  have "n mod 256 ^ k < 256 ^ k" by simp
  from Suc.IH [OF this, of "256 * a + int (n div 256 ^ k)"]
  have "foldl (\<lambda>v c. 256 * v + int (byte c)) a (be_bytes (Suc k) n)
      = (256 * a + int (n div 256 ^ k)) * 256 ^ k + int (n mod 256 ^ k)" using b by simp
  also have "\<dots> = a * 256 ^ Suc k + int n" unfolding n [symmetric] by (simp only: distrib_left distrib_right power_Suc ac_simps)
  finally show ?case .
qed simp

lemma foldl_all_ones:
  "list_all (\<lambda>c. byte c = 255) cs \<Longrightarrow> foldl (\<lambda>v c. 256 * v + int (byte c)) a cs = (a + 1) * 256 ^ length cs - 1"
  by (induction cs arbitrary: a) (auto simp: algebra_simps)

lemma marker_width_enc: "1 \<le> w \<Longrightarrow> w \<le> 8 \<Longrightarrow> x < 2 ^ (8 - w) \<Longrightarrow> marker_width (2 ^ (8 - w) + x) = w"
proof -
  assume w: "1 \<le> w" "w \<le> 8" and x: "x < 2 ^ (8 - w)"
  have "find (\<lambda>v. 2 ^ (8 - v) \<le> 2 ^ (8 - w) + x) [1 ..< 9] = Some w"
    unfolding find_Some_iff
  proof (intro exI conjI allI impI)
    show "w - 1 < length [1 ..< 9]" using w by simp
    show "2 ^ (8 - [1 ..< 9] ! (w - 1)) \<le> 2 ^ (8 - w) + x" using w by simp
    show "w = [1 ..< 9] ! (w - 1)" using w by simp
    show "\<not> 2 ^ (8 - [1 ..< 9] ! j) \<le> 2 ^ (8 - w) + x" if "j < w - 1" for j
    proof -
      have "[1 ..< 9] ! j = 1 + j" using that w by simp
      moreover have "(2 :: nat) ^ (8 - w) + x < 2 * 2 ^ (8 - w)" using x by simp
      moreover have "(2 :: nat) * 2 ^ (8 - w) = 2 ^ (9 - w)" using w by (simp flip: power_Suc add: Suc_diff_le)
      moreover have "(2 :: nat) ^ (9 - w) \<le> 2 ^ (8 - (1 + j))" using that w by (intro power_increasing) auto
      ultimately show ?thesis unfolding not_le by (metis order.strict_trans2)
    qed
  qed
  then show ?thesis by (simp add: marker_width_def)
qed

text \<open>\<open>ebmlSize\<close> reads back what the format's encoding writes: every length below \<open>2 ^ 31\<close> that fits
  its width and is not the reserved value, in every width from one to eight bytes, with the bytes
  that follow left alone.\<close>

theorem ebml_size_roundtrip:
  assumes "1 \<le> w" and "w \<le> 8" and "n < 2 ^ (7 * w) - 1" and "n < 2 ^ 31"
  shows "ebmlSize (enc_size w n @ rest) = (int n, w, False, True)"
proof -
  define x where "x = n div 256 ^ (w - 1)"
  define y where "y = n mod 256 ^ (w - 1)"
  let ?mask = "2 ^ (8 - w) :: nat"
  have n: "n = x * 256 ^ (w - 1) + y" unfolding x_def y_def by (rule div_mult_mod_eq [symmetric])
  have y: "y < 256 ^ (w - 1)" by (simp add: y_def)
  have pw: "(2 :: nat) ^ (7 * w) = ?mask * 256 ^ (w - 1)"
  proof -
    have "(256 :: nat) ^ (w - 1) = 2 ^ (8 * (w - 1))" by (simp add: power_mult)
    moreover have "8 - w + 8 * (w - 1) = 7 * w" using assms(1,2) by simp
    ultimately show ?thesis by (simp flip: power_add)
  qed
  have x: "x < ?mask" using assms(3) by (simp add: x_def pw less_mult_imp_div_less)
  have "?mask \<le> 128" using assms(1) power_increasing [of "8 - w" 7 "2 :: nat"] by simp
  with x have b: "byte (char_of (?mask + x)) = ?mask + x" by simp
  let ?data = "enc_size w n @ rest"
  have data: "?data = char_of (?mask + x) # be_bytes (w - 1) y @ rest" by (simp add: enc_size_def x_def y_def)
  have hd: "byte (hd ?data) = ?mask + x" and ne: "?data \<noteq> []" and len: "w \<le> length ?data"
    using assms(1) b by (simp_all add: data)
  have width: "marker_width (?mask + x) = w" using marker_width_enc [OF assms(1,2) x] .
  have more: "take (w - 1) (tl ?data) = be_bytes (w - 1) y" by (simp add: data)
  have first: "(?mask + x) mod ?mask = x" using x by simp
  have val: "foldl (\<lambda>v c. 256 * v + int (byte c)) (int x) (be_bytes (w - 1) y) = int n"
    using foldl_be_bytes [OF y, of "int x"] by (simp add: n)
  have "\<not> (x = ?mask - 1 \<and> list_all (\<lambda>c. byte c = 255) (be_bytes (w - 1) y))"
  proof
    assume ones: "x = ?mask - 1 \<and> list_all (\<lambda>c. byte c = 255) (be_bytes (w - 1) y)"
    then have "int n = (int x + 1) * 256 ^ (w - 1) - 1" using foldl_all_ones val by fastforce
    also have "int x + 1 = int ?mask" using ones by (simp add: of_nat_diff)
    finally have "int n = int (2 ^ (7 * w)) - 1" by (simp add: pw)
    with assms(3) show False by linarith
  qed
  moreover have "0 < ?mask + x" by simp
  ultimately show ?thesis
    using ne len assms(2,4) unfolding ebmlSize_def hd width Let_def more first val by simp
qed

theorem ebml_size_roundtrip_witness: "ebmlSize (enc_size 4 70000 @ ''x'') = (70000, 4, False, True)"
  using ebml_size_roundtrip [of 4 70000 "''x''"] by simp
end
