(* ===== verification/Exif.thy ===== *)
theory Exif
  imports Containers
begin

text \<open>
  The EXIF reader of \<open>server/internal/media/exif.go\<close>: finding the block in a JPEG, its TIFF header, the walk
  over the directories and the values of their entries, as far as they are not floats.  As in
  Containers, \<open>None\<close> is a run-time panic.  Offsets are bounded by the length of a buffer plus \<open>2 ^ 35\<close>,
  so that the additions of \<open>int\<close> do not wrap.
\<close>

section \<open>The block and its byte order\<close>

definition tagMake :: int where "tagMake = 0x010F"
definition tagModel :: int where "tagModel = 0x0110"
definition tagOrientation :: int where "tagOrientation = 0x0112"
definition tagExifIFD :: int where "tagExifIFD = 0x8769"
definition tagGPSIFD :: int where "tagGPSIFD = 0x8825"
definition tagDateTimeOrig :: int where "tagDateTimeOrig = 0x9003"
definition tagDateTimeDigital :: int where "tagDateTimeDigital = 0x9004"
definition tagOffsetTimeOrig :: int where "tagOffsetTimeOrig = 0x9011"
definition gpsLatRef :: int where "gpsLatRef = 1"
definition gpsLat :: int where "gpsLat = 2"
definition gpsLonRef :: int where "gpsLonRef = 3"
definition gpsLon :: int where "gpsLon = 4"
definition typeASCII :: int where "typeASCII = 2"
definition typeShort :: int where "typeShort = 3"
definition typeRational :: int where "typeRational = 5"
definition maxIFDEntries :: nat where "maxIFDEntries = 512"
definition maxIFDDepth :: nat where "maxIFDDepth = 4"

text \<open>\<open>binary.BigEndian\<close> or \<open>binary.LittleEndian\<close>.\<close>

datatype ByteOrder = BigEndian | LittleEndian

record exifData =
  ex_buf :: string
  ex_order :: ByteOrder

definition ordered :: "ByteOrder \<Rightarrow> string \<Rightarrow> int" where
  "ordered ord b = (case ord of BigEndian \<Rightarrow> big b | LittleEndian \<Rightarrow> big (rev b))"

definition order_Uint16 :: "ByteOrder \<Rightarrow> string \<Rightarrow> int \<Rightarrow> int option" where
  "order_Uint16 ord b i = map_option (ordered ord) (go_slice b i (i + 2))"

definition order_Uint32 :: "ByteOrder \<Rightarrow> string \<Rightarrow> int \<Rightarrow> int option" where
  "order_Uint32 ord b i = map_option (ordered ord) (go_slice b i (i + 4))"

text \<open>The inner option is \<open>errNoEXIF\<close>.\<close>

definition newEXIF :: "string \<Rightarrow> exifData option option" where
  "newEXIF buf =
     (if length buf < 8 then Some None
      else do {
        b0 \<leftarrow> go_at buf 0;
        b1 \<leftarrow> go_at buf 1;
        let order = (if b0 = 0x49 \<and> b1 = 0x49 then Some LittleEndian
                     else if b0 = 0x4D \<and> b1 = 0x4D then Some BigEndian else None);
        case order of
          None \<Rightarrow> Some None
        | Some ord \<Rightarrow> do {
            magic \<leftarrow> order_Uint16 ord buf 2;
            Some (if magic \<noteq> 42 then None else Some \<lparr>ex_buf = buf, ex_order = ord\<rparr>)
          }
      })"

function jpeg_walk :: "string \<Rightarrow> int \<Rightarrow> exifData option option" where
  "jpeg_walk data i =
     (if i + 4 > int (length data) then Some None
      else do {
        sync \<leftarrow> go_at data i;
        if sync \<noteq> 0xFF then Some None
        else do {
          marker \<leftarrow> go_at data (i + 1);
          if marker = 0xD8 \<or> marker = 0x01 \<or> (0xD0 \<le> marker \<and> marker \<le> 0xD7) then jpeg_walk data (i + 2)
          else if marker = 0xDA \<or> marker = 0xD9 then Some None
          else do {
            segLen \<leftarrow> Uint16 data (i + 2);
            if segLen < 2 \<or> i + 2 + segLen > int (length data) then Some None
            else do {
              payload \<leftarrow> go_slice data (i + 4) (i + 2 + segLen);
              if marker = 0xE1 \<and> length payload > 6 \<and> take 6 payload = ''Exif'' @ [char_of (0 :: nat), char_of (0 :: nat)]
              then newEXIF (drop 6 payload)
              else jpeg_walk data (i + 2 + segLen)
            }
          }
        }
      })"
  by pat_completeness auto
termination
  by (relation "measure (\<lambda>(data, i). nat (int (length data) - i))") auto

declare jpeg_walk.simps [simp del]

definition findEXIF :: "string \<Rightarrow> exifData option option" where
  "findEXIF data =
     (if length data < 4 then Some None
      else do {
        a \<leftarrow> go_at data 0;
        b \<leftarrow> go_at data 1;
        if a \<noteq> 0xFF \<or> b \<noteq> 0xD8 then Some None else jpeg_walk data 2
      })"

section \<open>Directories\<close>

record ifd_entry =
  en_tag :: int
  en_typ :: int
  en_count :: int
  en_offset :: int
  en_inline :: string

text \<open>The entries of one directory, as far as the buffer holds them.\<close>

fun ifd_entries :: "exifData \<Rightarrow> int \<Rightarrow> nat \<Rightarrow> ifd_entry list option" where
  "ifd_entries e pos 0 = Some []"
| "ifd_entries e pos (Suc n) =
     (if pos + 12 > int (length (ex_buf e)) then Some []
      else do {
        raw \<leftarrow> go_slice (ex_buf e) pos (pos + 12);
        tag \<leftarrow> order_Uint16 (ex_order e) raw 0;
        typ \<leftarrow> order_Uint16 (ex_order e) raw 2;
        cnt \<leftarrow> order_Uint32 (ex_order e) raw 4;
        inl \<leftarrow> go_slice raw 8 12;
        off \<leftarrow> order_Uint32 (ex_order e) raw 8;
        more \<leftarrow> ifd_entries e (pos + 12) n;
        Some (\<lparr>en_tag = tag, en_typ = typ, en_count = cnt, en_offset = off, en_inline = inl\<rparr> # more)
      })"

text \<open>The entries \<open>walk\<close> calls \<open>fn\<close> for, in its order: those of a sub-directory follow the entry
  that points to it.\<close>

function exif_walk :: "exifData \<Rightarrow> int \<Rightarrow> nat \<Rightarrow> ifd_entry list option" where
  "exif_walk e off depth =
     (if depth > maxIFDDepth \<or> off + 2 > int (length (ex_buf e)) then Some []
      else do {
        n \<leftarrow> order_Uint16 (ex_order e) (ex_buf e) off;
        ens \<leftarrow> ifd_entries e (off + 2) (min (nat n) maxIFDEntries);
        parts \<leftarrow> those (map (\<lambda>en. map_option ((#) en)
          (if en_tag en = tagExifIFD \<or> en_tag en = tagGPSIFD then exif_walk e (en_offset en) (depth + 1) else Some [])) ens);
        Some (concat parts)
      })"
  by pat_completeness auto
termination
  by (relation "measure (\<lambda>(e, off, depth). Suc maxIFDDepth - depth)") auto

declare exif_walk.simps [simp del]

section \<open>Values\<close>

definition valueBytes :: "exifData \<Rightarrow> ifd_entry \<Rightarrow> int \<Rightarrow> string option" where
  "valueBytes e en width =
     (let n = en_count en * width in
      if n \<le> 0 then Some []
      else if n \<le> 4 then go_slice (en_inline en) 0 n
      else if en_offset en < 0 \<or> en_offset en + n > int (length (ex_buf e)) then Some []
      else go_slice (ex_buf e) (en_offset en) (en_offset en + n))"

definition exif_ascii :: "exifData \<Rightarrow> ifd_entry \<Rightarrow> string option" where
  "exif_ascii e en =
     (if en_typ en \<noteq> typeASCII then Some []
      else do { b \<leftarrow> valueBytes e en 1; Some (TrimSpace (TrimRightByte b (char_of (0 :: nat)))) })"

definition exif_short :: "exifData \<Rightarrow> ifd_entry \<Rightarrow> (int \<times> bool) option" where
  "exif_short e en =
     (if en_typ en \<noteq> typeShort \<or> en_count en = 0 then Some (0, False)
      else do {
        b \<leftarrow> valueBytes e en 2;
        if length b < 2 then Some (0, False)
        else do { v \<leftarrow> order_Uint16 (ex_order e) b 0; Some (v, True) }
      })"

text \<open>\<open>rationals\<close> divides floats; here the fractions are pairs, and \<open>[]\<close> is \<open>nil\<close>.\<close>

definition rationals :: "exifData \<Rightarrow> ifd_entry \<Rightarrow> nat \<Rightarrow> (int \<times> int) list option" where
  "rationals e en want =
     (if en_typ en \<noteq> typeRational \<or> en_count en < int want then Some []
      else do {
        b \<leftarrow> valueBytes e en 8;
        if length b < want * 8 then Some []
        else do {
          out \<leftarrow> those (map (\<lambda>i. do {
            num \<leftarrow> order_Uint32 (ex_order e) b (int i * 8);
            den \<leftarrow> order_Uint32 (ex_order e) b (int i * 8 + 4);
            Some (num, den) }) [0 ..< want]);
          Some (if list_ex (\<lambda>(num, den). den = 0) out then [] else out)
        }
      })"

text \<open>What the callback of \<open>parseEXIF\<close> collects.\<close>

record exif_fields =
  ef_Orientation :: int
  ef_make :: string
  ef_model :: string
  ef_dateOrig :: string
  ef_dateDigital :: string
  ef_offsetTime :: string
  ef_latRef :: string
  ef_lonRef :: string
  ef_latVals :: "(int \<times> int) list"
  ef_lonVals :: "(int \<times> int) list"

definition no_fields :: exif_fields where
  "no_fields = \<lparr>ef_Orientation = 0, ef_make = [], ef_model = [], ef_dateOrig = [], ef_dateDigital = [],
     ef_offsetTime = [], ef_latRef = [], ef_lonRef = [], ef_latVals = [], ef_lonVals = []\<rparr>"

definition exif_field :: "exifData \<Rightarrow> ifd_entry \<Rightarrow> exif_fields \<Rightarrow> exif_fields option" where
  "exif_field e en f =
     (let tag = en_tag en in
      if tag = tagOrientation then do {
        (v, ok) \<leftarrow> exif_short e en;
        Some (if ok \<and> 1 \<le> v \<and> v \<le> 8 then f\<lparr>ef_Orientation := v\<rparr> else f) }
      else if tag = tagMake then do { s \<leftarrow> exif_ascii e en; Some (f\<lparr>ef_make := s\<rparr>) }
      else if tag = tagModel then do { s \<leftarrow> exif_ascii e en; Some (f\<lparr>ef_model := s\<rparr>) }
      else if tag = tagDateTimeOrig then do { s \<leftarrow> exif_ascii e en; Some (f\<lparr>ef_dateOrig := s\<rparr>) }
      else if tag = tagDateTimeDigital then do { s \<leftarrow> exif_ascii e en; Some (f\<lparr>ef_dateDigital := s\<rparr>) }
      else if tag = tagOffsetTimeOrig then do { s \<leftarrow> exif_ascii e en; Some (f\<lparr>ef_offsetTime := s\<rparr>) }
      else if tag = gpsLatRef then do { s \<leftarrow> exif_ascii e en; Some (if s \<noteq> [] then f\<lparr>ef_latRef := s\<rparr> else f) }
      else if tag = gpsLonRef then do { s \<leftarrow> exif_ascii e en; Some (if s \<noteq> [] then f\<lparr>ef_lonRef := s\<rparr> else f) }
      else if tag = gpsLat then do { vs \<leftarrow> rationals e en 3; Some (f\<lparr>ef_latVals := vs\<rparr>) }
      else if tag = gpsLon then do { vs \<leftarrow> rationals e en 3; Some (f\<lparr>ef_lonVals := vs\<rparr>) }
      else Some f)"

text \<open>\<open>parseEXIF\<close> up to the conversion of dates and coordinates.\<close>

definition parseEXIF_fields :: "string \<Rightarrow> exif_fields option" where
  "parseEXIF_fields data = do {
     r \<leftarrow> findEXIF data;
     case r of
       None \<Rightarrow> Some no_fields
     | Some e \<Rightarrow>
         if length (ex_buf e) < 8 then Some no_fields
         else do {
           ifd0 \<leftarrow> order_Uint32 (ex_order e) (ex_buf e) 4;
           ens \<leftarrow> exif_walk e ifd0 0;
           fold (\<lambda>en acc. do { f \<leftarrow> acc; exif_field e en f }) ens (Some no_fields)
         }
   }"

definition joinCamera :: "(string \<Rightarrow> string) \<Rightarrow> string \<Rightarrow> string \<Rightarrow> string" where
  "joinCamera u camMake camModel =
     (let mk = TrimSpace camMake; md = TrimSpace camModel in
      if mk = [] \<and> md = [] then []
      else if mk = [] then md
      else if md = [] then mk
      else if HasPrefix (ToLower u md) (ToLower u mk) then md
      else mk @ '' '' @ md)"

definition exif_camera :: "(string \<Rightarrow> string) \<Rightarrow> string \<Rightarrow> string option" where
  "exif_camera u data = map_option (\<lambda>f. joinCamera u (ef_make f) (ef_model f)) (parseEXIF_fields data)"

end
