(* ===== verification/ExifSpec.thy ===== *)
theory ExifSpec
  imports ContainersSpec Exif
begin

text \<open>
  What the EXIF reader guarantees: it returns for every input, what it collects is in range, and the
  entries it visits are bounded; the bound is reached by a small file.
\<close>

section \<open>Reading never panics\<close>

lemma ordered_range: "0 \<le> ordered ord b \<and> ordered ord b < 256 ^ length b"
  using big_range [of b] big_range [of "rev b"] by (auto simp: ordered_def split: ByteOrder.splits)

lemma order_total:
  "0 \<le> i \<Longrightarrow> i + 2 \<le> int (length b) \<Longrightarrow> \<exists>v. order_Uint16 ord b i = Some v \<and> 0 \<le> v"
  "0 \<le> i \<Longrightarrow> i + 4 \<le> int (length b) \<Longrightarrow> \<exists>v. order_Uint32 ord b i = Some v \<and> 0 \<le> v"
  using go_slice_total [of i "i + 2" b] go_slice_total [of i "i + 4" b] ordered_range [of ord]
  by (auto simp: order_Uint16_def order_Uint32_def)

lemma newEXIF_total: "\<exists>r. newEXIF buf = Some r \<and> (\<forall>e. r = Some e \<longrightarrow> 8 \<le> length (ex_buf e))"
proof (cases "length buf < 8")
  case False
  then have "0 < int (length buf)" "1 < int (length buf)" by linarith+
  then obtain b0 b1 where "go_at buf 0 = Some b0" "go_at buf 1 = Some b1"
    using go_at_total [of 0 buf] go_at_total [of 1 buf] by (metis order_refl zero_le_one)
  moreover have "\<exists>v. order_Uint16 ord buf 2 = Some v" for ord using order_total(1) [of 2 buf ord] False by auto
  then obtain v where "\<And>ord. order_Uint16 ord buf 2 = Some (v ord)" by metis
  ultimately show ?thesis using False by (simp add: newEXIF_def)
qed (simp add: newEXIF_def)

lemma jpeg_walk_total: "0 \<le> i \<Longrightarrow> \<exists>r. jpeg_walk data i = Some r \<and> (\<forall>e. r = Some e \<longrightarrow> 8 \<le> length (ex_buf e))"
proof (induction data i rule: jpeg_walk.induct)
  case (1 data i)
  show ?case
  proof (cases "i + 4 > int (length data)")
    case False
    from False "1.prems" obtain sync marker segLen
      where reads: "go_at data i = Some sync" "go_at data (i + 1) = Some marker" "Uint16 data (i + 2) = Some segLen"
      using go_at_total [of i data] go_at_total [of "i + 1" data] go_slice_total [of "i + 2" "i + 2 + 2" data]
      by (auto simp: Uint16_def)
    have slice: "\<exists>p. go_slice data (i + 4) (i + 2 + segLen) = Some p"
      if "\<not> segLen < 2" "\<not> i + 2 + segLen > int (length data)"
      using go_slice_total [of "i + 4" "i + 2 + segLen" data] that "1.prems" by auto
    show ?thesis
      using False 1 reads slice newEXIF_total by (subst jpeg_walk.simps) (auto split: if_splits)
  qed (simp add: jpeg_walk.simps)
qed

lemma findEXIF_total: "\<exists>r. findEXIF data = Some r \<and> (\<forall>e. r = Some e \<longrightarrow> 8 \<le> length (ex_buf e))"
proof (cases "length data < 4")
  case False
  then have "0 < int (length data)" "1 < int (length data)" by linarith+
  then obtain b0 b1 where "go_at data 0 = Some b0" "go_at data 1 = Some b1"
    using go_at_total [of 0 data] go_at_total [of 1 data] by (metis order_refl zero_le_one)
  with False jpeg_walk_total [of 2 data] show ?thesis by (simp add: findEXIF_def)
qed (simp add: findEXIF_def)

definition good_entry :: "ifd_entry \<Rightarrow> bool" where
  "good_entry en \<longleftrightarrow> 0 \<le> en_count en \<and> 0 \<le> en_offset en \<and> length (en_inline en) = 4"

lemma ifd_entries_total:
  "0 \<le> pos \<Longrightarrow> \<exists>ens. ifd_entries e pos n = Some ens \<and> length ens \<le> n \<and> list_all good_entry ens"
proof (induction n arbitrary: pos)
  case (Suc n)
  show ?case
  proof (cases "pos + 12 > int (length (ex_buf e))")
    case False
    with Suc.prems obtain raw where raw: "go_slice (ex_buf e) pos (pos + 12) = Some raw" "length raw = 12"
      using go_slice_total [of pos "pos + 12" "ex_buf e"] by auto
    then obtain tag kind cnt val off where
      "order_Uint16 (ex_order e) raw 0 = Some tag" "order_Uint16 (ex_order e) raw 2 = Some kind"
      "order_Uint32 (ex_order e) raw 4 = Some cnt" "0 \<le> cnt" "order_Uint32 (ex_order e) raw 8 = Some off" "0 \<le> off"
      "go_slice raw 8 12 = Some val" "length val = 4"
      using order_total(1) [of 0 raw "ex_order e"] order_total(1) [of 2 raw "ex_order e"]
        order_total(2) [of 4 raw "ex_order e"] order_total(2) [of 8 raw "ex_order e"] go_slice_total [of 8 12 raw]
      by force
    with Suc.IH [of "pos + 12"] Suc.prems False raw show ?thesis by (auto simp: good_entry_def)
  qed simp
qed simp

lemma those_map_total: "(\<And>x. x \<in> set xs \<Longrightarrow> \<exists>y. f x = Some y) \<Longrightarrow> those (map f xs) = Some (map (\<lambda>x. the (f x)) xs)"
  by (induction xs) fastforce+

text \<open>How many entries a walk may visit when \<open>d\<close> levels of directories remain.\<close>

fun walk_bound :: "nat \<Rightarrow> nat" where
  "walk_bound 0 = 0"
| "walk_bound (Suc d) = maxIFDEntries * Suc (walk_bound d)"

lemma levels: "Suc maxIFDDepth = Suc (Suc (Suc (Suc (Suc 0))))"
  by (simp add: maxIFDDepth_def)

lemma walk_bound_all: "walk_bound (Suc maxIFDDepth) = 512 + 512 ^ 2 + 512 ^ 3 + 512 ^ 4 + 512 ^ 5"
  unfolding levels walk_bound.simps maxIFDEntries_def by simp

lemma sum_list_le: "(\<And>x. x \<in> set xs \<Longrightarrow> f x \<le> (c :: nat)) \<Longrightarrow> sum_list (map f xs) \<le> length xs * c"
  by (induction xs) fastforce+

lemma exif_walk_total:
  "0 \<le> off \<Longrightarrow> \<exists>ens. exif_walk e off depth = Some ens \<and> length ens \<le> walk_bound (Suc maxIFDDepth - depth) \<and> list_all good_entry ens"
proof (induction e off depth rule: exif_walk.induct)
  case (1 e off depth)
  show ?case
  proof (cases "depth > maxIFDDepth \<or> off + 2 > int (length (ex_buf e))")
    case False
    with 1(2) obtain n where n: "order_Uint16 (ex_order e) (ex_buf e) off = Some n"
      using order_total(1) [of off "ex_buf e"] by auto
    obtain ens where ens: "ifd_entries e (off + 2) (min (nat n) maxIFDEntries) = Some ens"
      "length ens \<le> maxIFDEntries" "list_all good_entry ens"
      using ifd_entries_total [of "off + 2" e "min (nat n) maxIFDEntries"] 1(2) by auto
    define sub where "sub = (\<lambda>en. map_option ((#) en)
      (if en_tag en = tagExifIFD \<or> en_tag en = tagGPSIFD then exif_walk e (en_offset en) (depth + 1) else Some []))"
    define d where "d = maxIFDDepth - depth"
    have d: "Suc maxIFDDepth - depth = Suc d" "Suc maxIFDDepth - (depth + 1) = d" using False by (auto simp: d_def)
    have part: "\<exists>p. sub en = Some p \<and> length p \<le> Suc (walk_bound d) \<and> list_all good_entry p" if "en \<in> set ens" for en
    proof -
      have "good_entry en" using ens(3) that by (simp add: list_all_iff)
      then have "0 \<le> en_offset en" by (simp add: good_entry_def)
      with 1(1) [OF False n ens(1) that] \<open>good_entry en\<close> d(2) show ?thesis unfolding sub_def by fastforce
    qed
    have parts: "those (map sub ens) = Some (map (\<lambda>en. the (sub en)) ens)" using part by (intro those_map_total) blast
    have "length (concat (map (\<lambda>en. the (sub en)) ens)) = sum_list (map (\<lambda>en. length (the (sub en))) ens)"
      by (simp add: length_concat comp_def)
    also have "\<dots> \<le> length ens * Suc (walk_bound d)" using part by (intro sum_list_le) fastforce
    also have "\<dots> \<le> walk_bound (Suc d)" using ens(2) by (simp only: walk_bound.simps mult_le_mono1)
    finally have "length (concat (map (\<lambda>en. the (sub en)) ens)) \<le> walk_bound (Suc d)" .
    moreover have "list_all good_entry (concat (map (\<lambda>en. the (sub en)) ens))" using part by (fastforce simp: list_all_iff)
    moreover have "exif_walk e off depth = Some (concat (map (\<lambda>en. the (sub en)) ens))"
      using False n ens(1) parts by (subst exif_walk.simps) (simp add: sub_def)
    ultimately show ?thesis by (simp only: d) simp
  qed (simp add: exif_walk.simps)
qed

lemma valueBytes_total: "good_entry en \<Longrightarrow> \<exists>b. valueBytes e en width = Some b"
  using go_slice_total [of 0 "en_count en * width" "en_inline en"]
    go_slice_total [of "en_offset en" "en_offset en + en_count en * width" "ex_buf e"]
  by (auto simp: valueBytes_def Let_def good_entry_def)

lemma exif_ascii_total: "good_entry en \<Longrightarrow> \<exists>s. exif_ascii e en = Some s"
  using valueBytes_total [of en e 1] by (auto simp: exif_ascii_def)

lemma exif_short_total: "good_entry en \<Longrightarrow> \<exists>v ok. exif_short e en = Some (v, ok)"
proof -
  assume "good_entry en"
  then obtain b where b: "valueBytes e en 2 = Some b" using valueBytes_total by blast
  show ?thesis
  proof (cases "length b < 2")
    case False
    then obtain v where "order_Uint16 (ex_order e) b 0 = Some v" using order_total(1) [of 0 b "ex_order e"] by auto
    with b False show ?thesis by (auto simp: exif_short_def)
  qed (use b in \<open>auto simp: exif_short_def\<close>)
qed

lemma rationals_total:
  "good_entry en \<Longrightarrow> \<exists>vs. rationals e en want = Some vs \<and> length vs \<in> {0, want} \<and> list_all (\<lambda>(num, den). 0 \<le> num \<and> 0 < den) vs"
proof -
  assume "good_entry en"
  then obtain b where b: "valueBytes e en 8 = Some b" using valueBytes_total by blast
  define at where "at = (\<lambda>i. do { num \<leftarrow> order_Uint32 (ex_order e) b (int i * 8);
    den \<leftarrow> order_Uint32 (ex_order e) b (int i * 8 + 4); Some (num, den) })"
  have at: "\<exists>num den. at i = Some (num, den) \<and> 0 \<le> num \<and> 0 \<le> den" if "want * 8 \<le> length b" "i < want" for i
    using order_total(2) [of "int i * 8" b "ex_order e"] order_total(2) [of "int i * 8 + 4" b "ex_order e"] that
    by (auto simp: at_def)
  have "\<exists>out. those (map at [0 ..< want]) = Some out \<and> length out = want \<and> list_all (\<lambda>(num, den). 0 \<le> num \<and> 0 \<le> den) out"
    if "want * 8 \<le> length b"
    using those_map_total [of "[0 ..< want]" at] at [OF that] by (fastforce simp: list_all_iff)
  then show ?thesis using b
    by (cases "length b < want * 8") (fastforce simp: rationals_def at_def list_ex_iff list_all_iff)+
qed

text \<open>What is collected stays in range.\<close>

definition good_fields :: "exif_fields \<Rightarrow> bool" where
  "good_fields f \<longleftrightarrow> 0 \<le> ef_Orientation f \<and> ef_Orientation f \<le> 8 \<and>
     list_all (\<lambda>vs. length vs \<in> {0, 3} \<and> list_all (\<lambda>(num, den). 0 \<le> num \<and> 0 < den) vs) [ef_latVals f, ef_lonVals f]"

lemma exif_field_total: "good_entry en \<Longrightarrow> good_fields f \<Longrightarrow> \<exists>f'. exif_field e en f = Some f' \<and> good_fields f'"
proof -
  assume en: "good_entry en" and f: "good_fields f"
  obtain s v ok vs where "exif_ascii e en = Some s" "exif_short e en = Some (v, ok)" "rationals e en 3 = Some vs"
    "length vs \<in> {0, 3} \<and> list_all (\<lambda>(num, den). 0 \<le> num \<and> 0 < den) vs"
    using exif_ascii_total [OF en] exif_short_total [OF en] rationals_total [OF en] by metis
  then show ?thesis using f by (simp add: exif_field_def Let_def good_fields_def)
qed

lemma exif_fields_fold:
  "list_all good_entry ens \<Longrightarrow> good_fields f \<Longrightarrow>
   \<exists>f'. fold (\<lambda>en acc. do { f \<leftarrow> acc; exif_field e en f }) ens (Some f) = Some f' \<and> good_fields f'"
proof (induction ens arbitrary: f)
  case (Cons en ens)
  then obtain f' where "exif_field e en f = Some f'" "good_fields f'" using exif_field_total by fastforce
  with Cons show ?case by simp
qed simp

text \<open>C40: whatever the bytes of a JPEG, reading its EXIF block never panics and visits a bounded number of entries;
  an orientation it reports is one of the eight, and coordinates are three fractions without a zero
  denominator.\<close>

theorem exif_reader_is_total:
  "(\<exists>f. parseEXIF_fields data = Some f \<and> ef_Orientation f \<in> {0 .. 8} \<and>
      list_all (\<lambda>vs. length vs \<in> {0, 3} \<and> list_all (\<lambda>(num, den). 0 \<le> num \<and> 0 < den) vs) [ef_latVals f, ef_lonVals f]) \<and>
   (\<exists>ens. exif_walk e (int off) 0 = Some ens \<and> length ens \<le> 512 + 512 ^ 2 + 512 ^ 3 + 512 ^ 4 + 512 ^ 5)"
proof
  obtain r where r: "findEXIF data = Some r" "\<And>e. r = Some e \<Longrightarrow> 8 \<le> length (ex_buf e)"
    using findEXIF_total [of data] by blast
  have none: "good_fields no_fields" by (simp add: good_fields_def no_fields_def)
  have "\<exists>f. parseEXIF_fields data = Some f \<and> good_fields f"
  proof (cases r)
    case (Some e)
    then obtain ifd0 where "order_Uint32 (ex_order e) (ex_buf e) 4 = Some ifd0" "0 \<le> ifd0"
      using r(2) order_total(2) [of 4 "ex_buf e"] by fastforce
    moreover from exif_walk_total [OF this(2), of e 0]
    obtain ens where "exif_walk e ifd0 0 = Some ens" "list_all good_entry ens" by blast
    moreover from exif_fields_fold [OF this(2) none, of e]
    obtain f where "fold (\<lambda>en acc. do { f \<leftarrow> acc; exif_field e en f }) ens (Some no_fields) = Some f" "good_fields f" by blast
    ultimately show ?thesis using r Some none by (simp add: parseEXIF_fields_def)
  qed (use r none in \<open>simp add: parseEXIF_fields_def\<close>)
  then show "\<exists>f. parseEXIF_fields data = Some f \<and> ef_Orientation f \<in> {0 .. 8} \<and>
      list_all (\<lambda>vs. length vs \<in> {0, 3} \<and> list_all (\<lambda>(num, den). 0 \<le> num \<and> 0 < den) vs) [ef_latVals f, ef_lonVals f]"
    by (auto simp: good_fields_def)
  show "\<exists>ens. exif_walk e (int off) 0 = Some ens \<and> length ens \<le> 512 + 512 ^ 2 + 512 ^ 3 + 512 ^ 4 + 512 ^ 5"
    using exif_walk_total [of "int off" e 0] unfolding diff_zero walk_bound_all by auto
qed

section \<open>The bound on depth is not a bound on work\<close>

text \<open>A block of \<open>10 + 12 * k\<close> bytes whose only directory has \<open>k\<close> entries that all point back to it.\<close>

definition loop_entry :: string where
  "loop_entry = chars [0x87, 0x69, 0, 4, 0, 0, 0, 1, 0, 0, 0, 8]"

definition loop_tiff :: "nat \<Rightarrow> string" where
  "loop_tiff k = ''MM'' @ chars [0, 42, 0, 0, 0, 8, k div 256, k mod 256] @ concat (replicate k loop_entry)"

definition loop_jpeg :: "nat \<Rightarrow> string" where
  "loop_jpeg k = chars [0xFF, 0xD8, 0xFF, 0xE1, (18 + 12 * k) div 256, (18 + 12 * k) mod 256]
     @ ''Exif'' @ chars [0, 0] @ loop_tiff k"

definition loop_exif :: "nat \<Rightarrow> exifData" where
  "loop_exif k = \<lparr>ex_buf = loop_tiff k, ex_order = BigEndian\<rparr>"

lemma length_loop: "length loop_entry = 12" "length (loop_tiff k) = 10 + 12 * k" "length (loop_jpeg k) = 22 + 12 * k"
  by (simp_all add: loop_tiff_def loop_jpeg_def loop_entry_def chars_def length_concat sum_list_replicate)

lemma loop_slice:
  "i < k \<Longrightarrow> go_slice (loop_tiff k) (10 + 12 * int i) (10 + 12 * int i + 12) = Some loop_entry"
proof -
  assume i: "i < k"
  have rest: "drop (12 * i) (concat (replicate k loop_entry)) = concat (replicate (k - i) loop_entry)"
    using i
  proof (induction i arbitrary: k)
    case (Suc i)
    then obtain k' where "k = Suc k'" by (cases k) auto
    with Suc show ?case by (simp add: length_loop)
  qed simp
  obtain d where "k - i = Suc d" using i by (cases "k - i") auto
  with rest have "take 12 (drop (12 * i) (drop 10 (loop_tiff k))) = loop_entry"
    by (simp add: loop_tiff_def chars_def length_loop)
  then show ?thesis using i by (simp add: go_slice_def length_loop nat_add_distrib nat_mult_distrib add.commute)
qed

definition loop_ifd_entry :: ifd_entry where
  "loop_ifd_entry = \<lparr>en_tag = tagExifIFD, en_typ = 4, en_count = 1, en_offset = 8, en_inline = chars [0, 0, 0, 8]\<rparr>"

lemma loop_entry_fields:
  "order_Uint16 BigEndian loop_entry 0 = Some tagExifIFD" "order_Uint16 BigEndian loop_entry 2 = Some 4"
  "order_Uint32 BigEndian loop_entry 4 = Some 1" "order_Uint32 BigEndian loop_entry 8 = Some 8"
  "go_slice loop_entry 8 12 = Some (chars [0, 0, 0, 8])"
  by code_simp+

lemma loop_entries:
  "i + n = k \<Longrightarrow> ifd_entries (loop_exif k) (10 + 12 * int i) n = Some (replicate n loop_ifd_entry)"
proof (induction n arbitrary: i)
  case (Suc n)
  have "ifd_entries (loop_exif k) (10 + 12 * int i + 12) n = Some (replicate n loop_ifd_entry)"
    using Suc.IH [of "Suc i"] Suc.prems by (simp add: algebra_simps)
  moreover have "\<not> 10 + 12 * int i + 12 > int (length (loop_tiff k))" using Suc.prems by (simp add: length_loop)
  ultimately show ?case
    using loop_slice [of i k] Suc.prems by (simp add: loop_exif_def loop_entry_fields loop_ifd_entry_def)
qed simp

fun loop_work :: "nat \<Rightarrow> nat \<Rightarrow> nat" where
  "loop_work k 0 = 0"
| "loop_work k (Suc d) = k * Suc (loop_work k d)"

lemma those_replicate: "x = Some y \<Longrightarrow> those (replicate n x) = Some (replicate n y)"
  by (induction n) auto

lemma loop_walk:
  "k \<le> maxIFDEntries \<Longrightarrow> depth + d = Suc maxIFDDepth \<Longrightarrow>
   \<exists>ens. exif_walk (loop_exif k) 8 depth = Some ens \<and> length ens = loop_work k d"
proof (induction d arbitrary: depth)
  case 0
  then show ?case by (simp add: exif_walk.simps)
next
  case (Suc d)
  obtain ens where ens: "exif_walk (loop_exif k) 8 (Suc depth) = Some ens" "length ens = loop_work k d"
    using Suc.IH [OF Suc.prems(1), of "Suc depth"] Suc.prems(2) by auto
  have count: "order_Uint16 BigEndian (loop_tiff k) 8 = Some (int k)"
    using Suc.prems(1) length_loop(2) [of k]
    by (simp add: order_Uint16_def go_slice_def loop_tiff_def chars_def ordered_def big_def maxIFDEntries_def
      flip: of_nat_mod of_nat_div) (simp add: zdiv_int zmod_int)
  have "ifd_entries (loop_exif k) 10 k = Some (replicate k loop_ifd_entry)" using loop_entries [of 0 k k] by simp
  with Suc.prems ens count
  have "exif_walk (loop_exif k) 8 depth = Some (concat (replicate k (loop_ifd_entry # ens)))"
    by (subst exif_walk.simps)
      (simp add: loop_exif_def length_loop map_replicate those_replicate [OF refl] loop_ifd_entry_def min_def)
  with ens show ?case by (simp add: length_concat sum_list_replicate)
qed

theorem exif_work_explodes:
  "length (loop_jpeg 512) = 6166 \<and> findEXIF (loop_jpeg 512) = Some (Some (loop_exif 512)) \<and>
   (\<exists>ens. exif_walk (loop_exif 512) 8 0 = Some ens \<and> length ens = 512 + 512 ^ 2 + 512 ^ 3 + 512 ^ 4 + 512 ^ 5)"
proof (intro conjI)
  show "length (loop_jpeg 512) = 6166" by (simp add: length_loop)
  have block: "newEXIF (loop_tiff 512) = Some (Some (loop_exif 512))"
    using length_loop(2) [of 512]
    by (simp add: newEXIF_def go_at_def order_Uint16_def go_slice_def ordered_def big_def loop_exif_def)
      (simp add: loop_tiff_def chars_def)
  then show "findEXIF (loop_jpeg 512) = Some (Some (loop_exif 512))"
    using length_loop(2) [of 512]
    by (simp add: findEXIF_def go_at_def loop_jpeg_def chars_def jpeg_walk.simps [of _ 2] Uint16_def go_slice_def big_def)
  show "\<exists>ens. exif_walk (loop_exif 512) 8 0 = Some ens \<and> length ens = 512 + 512 ^ 2 + 512 ^ 3 + 512 ^ 4 + 512 ^ 5"
    using loop_walk [of 512 0 "Suc maxIFDDepth"] unfolding levels loop_work.simps by (simp add: maxIFDEntries_def)
qed

end
