(* ===== verification/Ignore.thy ===== *)
theory Ignore
  imports Chunker
begin

text \<open>
  The rules of \<open>.pcsyncignore\<close>, \<open>client/internal/ignore/ignore.go\<close>, and the glob matcher
  \<open>path.Match\<close> of the standard library they rest on.
\<close>

section \<open>The glob matcher of the standard library\<close>

text \<open>\<open>utf8.DecodeRuneInString\<close>: the code point at the front and its width; an ill-formed front is U+FFFD.\<close>

definition rune_value :: "string \<Rightarrow> nat" where
  "rune_value s =
     (let b = (\<lambda>i. byte (s ! i)); n = rune_len s in
      if n = 0 then 0xFFFD
      else if n = 1 then (if b 0 < 128 then b 0 else 0xFFFD)
      else if n = 2 then (b 0 - 192) * 64 + (b 1 - 128)
      else if n = 3 then ((b 0 - 224) * 64 + (b 1 - 128)) * 64 + (b 2 - 128)
      else (((b 0 - 240) * 64 + (b 1 - 128)) * 64 + (b 2 - 128)) * 64 + (b 3 - 128))"

text \<open>\<open>None\<close> is \<open>path.ErrBadPattern\<close>.\<close>

definition getEsc :: "string \<Rightarrow> (nat \<times> string) option" where
  "getEsc chunk =
     (if chunk = [] \<or> hd chunk = CHR ''-'' \<or> hd chunk = CHR '']'' then None
      else let rest = (if hd chunk = CHR 0x5C then tl chunk else chunk) in
        if rest = [] then None
        else let r = rune_value rest; n = rune_len rest; nchunk = drop n rest in
          if r = 0xFFFD \<and> n = 1 then None
          else if nchunk = [] then None
          else Some (r, nchunk))"

lemma getEsc_shorter: "getEsc chunk = Some (r, rest) \<Longrightarrow> rest \<noteq> [] \<and> length rest < length chunk"
proof -
  assume a: "getEsc chunk = Some (r, rest)"
  let ?c = "if hd chunk = CHR 0x5C then tl chunk else chunk"
  from a have c: "?c \<noteq> []" "chunk \<noteq> []" "rest = drop (rune_len ?c) ?c" "rest \<noteq> []"
    by (auto simp: getEsc_def Let_def split: if_splits)
  then have "length rest < length ?c" using rune_len_pos [of ?c] by simp
  also have "\<dots> \<le> length chunk" by simp
  finally show ?thesis using c(4) by simp
qed

text \<open>
  The ranges of a character class up to its closing bracket: whether \<open>r\<close> is in one of them, and what
  follows.  \<open>first\<close> says that no range was read yet.
\<close>

function class_ranges :: "nat \<Rightarrow> bool \<Rightarrow> bool \<Rightarrow> string \<Rightarrow> (bool \<times> string) option" where
  "class_ranges r first matched chunk =
     (if chunk \<noteq> [] \<and> hd chunk = CHR '']'' \<and> \<not> first then Some (matched, tl chunk)
      else (case getEsc chunk of
        None \<Rightarrow> None
      | Some (lo, rest) \<Rightarrow>
          if hd rest = CHR ''-'' then
            (case getEsc (tl rest) of
               None \<Rightarrow> None
             | Some (hi, rest') \<Rightarrow> class_ranges r False (matched \<or> lo \<le> r \<and> r \<le> hi) rest')
          else class_ranges r False (matched \<or> lo \<le> r \<and> r \<le> lo) rest))"
  by pat_completeness auto
termination
  by (relation "measure (\<lambda>(r, first, matched, chunk). length chunk)") (force dest: getEsc_shorter)+

declare class_ranges.simps [simp del]

lemma class_ranges_shorter: "class_ranges r f m chunk = Some (b, rest) \<Longrightarrow> length rest < length chunk"
proof (induction r f m chunk rule: class_ranges.induct)
  case (1 r f m chunk)
  show ?case
  proof (cases "chunk \<noteq> [] \<and> hd chunk = CHR '']'' \<and> \<not> f")
    case True
    with 1(3) have "rest = tl chunk" by (subst (asm) class_ranges.simps) simp
    with True show ?thesis by (cases chunk) auto
  next
    case False
    then obtain lo cs where lo: "getEsc chunk = Some (lo, cs)"
      using 1(3) by (cases "getEsc chunk") (auto simp: class_ranges.simps [of r f m chunk] split: if_splits)
    note shorter = getEsc_shorter [OF lo]
    show ?thesis
    proof (cases "hd cs = CHR ''-''")
      case True
      then obtain hi cs' where hi: "getEsc (tl cs) = Some (hi, cs')"
        using 1(3) False lo by (cases "getEsc (tl cs)") (auto simp: class_ranges.simps [of r f m chunk] split: if_splits)
      then have "class_ranges r False (m \<or> lo \<le> r \<and> r \<le> hi) cs' = Some (b, rest)"
        using 1(3) False lo True by (subst (asm) class_ranges.simps) auto
      from 1(1) [OF False lo refl True hi refl this] getEsc_shorter [OF hi] shorter show ?thesis by (metis diff_le_self length_tl less_le_trans less_trans)
    next
      case no: False
      then have "class_ranges r False (m \<or> lo \<le> r \<and> r \<le> lo) cs = Some (b, rest)"
        using 1(3) False lo by (subst (asm) class_ranges.simps) auto
      from 1(2) [OF False lo refl no this] shorter show ?thesis by simp
    qed
  qed
qed

function matchChunk :: "string \<Rightarrow> string \<Rightarrow> bool \<Rightarrow> (string \<times> bool) option" where
  "matchChunk [] s failed = Some (if failed then ([], False) else (s, True))"
| "matchChunk (c # chunk) s failed0 =
     (let failed = (failed0 \<or> s = []) in
      if c = CHR ''['' then
        let r = (if failed then 0 else rune_value s);
            s' = (if failed then s else drop (rune_len s) s);
            negated = (chunk \<noteq> [] \<and> hd chunk = CHR ''^'') in
        (case class_ranges r True False (if negated then tl chunk else chunk) of
           None \<Rightarrow> None
         | Some (m, rest) \<Rightarrow> matchChunk rest s' (failed \<or> m = negated))
      else if c = CHR ''?'' then
        (if failed then matchChunk chunk s True
         else matchChunk chunk (drop (rune_len s) s) (hd s = CHR ''/''))
      else if c = CHR 0x5C then
        (case chunk of
           [] \<Rightarrow> None
         | d # rest \<Rightarrow> if failed then matchChunk rest s True else matchChunk rest (tl s) (d \<noteq> hd s))
      else if failed then matchChunk chunk s True else matchChunk chunk (tl s) (c \<noteq> hd s))"
  by pat_completeness auto
termination
proof (relation "measure (\<lambda>(chunk, s, failed). length chunk)", goal_cases)
  case (2 c chunk s failed0 failed r s' negated p m rest)
  then have "length rest < length (if negated then tl chunk else chunk)" by (auto dest: class_ranges_shorter)
  also have "\<dots> \<le> length chunk" by simp
  finally show ?case by simp
qed auto

text \<open>The length of the first chunk: up to a star outside a character class.\<close>

fun scan_len :: "bool \<Rightarrow> string \<Rightarrow> nat" where
  "scan_len inrange [] = 0"
| "scan_len inrange (c # cs) =
     (if c = CHR 0x5C then (case cs of [] \<Rightarrow> 1 | d # ds \<Rightarrow> 2 + scan_len inrange ds)
      else if c = CHR ''['' then Suc (scan_len True cs)
      else if c = CHR '']'' then Suc (scan_len False cs)
      else if c = CHR ''*'' \<and> \<not> inrange then 0
      else Suc (scan_len inrange cs))"

definition scanChunk :: "string \<Rightarrow> bool \<times> string \<times> string" where
  "scanChunk pattern =
     (let rest = dropWhile (\<lambda>c. c = CHR ''*'') pattern; n = scan_len False rest
      in (rest \<noteq> pattern, take n rest, drop n rest))"

lemma scanChunk_shorter: "pattern \<noteq> [] \<Longrightarrow> scanChunk pattern = (star, chunk, rest) \<Longrightarrow> length rest < length pattern"
proof -
  assume p: "pattern \<noteq> []" and s: "scanChunk pattern = (star, chunk, rest)"
  let ?d = "dropWhile (\<lambda>c. c = CHR ''*'') pattern"
  have split: "takeWhile (\<lambda>c. c = CHR ''*'') pattern @ ?d = pattern" by (rule takeWhile_dropWhile_id)
  show ?thesis
  proof (cases "?d = pattern")
    case True
    with p obtain c cs where c: "pattern = c # cs" "c \<noteq> CHR ''*''"
      by (cases pattern) (simp_all add: dropWhile_eq_self_iff del: dropWhile.simps)
    then have "0 < scan_len False pattern" by (auto split: list.splits)
    with p s True show ?thesis by (auto simp: scanChunk_def Let_def)
  next
    case False
    with split have "takeWhile (\<lambda>c. c = CHR ''*'') pattern \<noteq> []" by (metis append_Nil)
    then have "0 < length (takeWhile (\<lambda>c. c = CHR ''*'') pattern)" by (rule length_greater_0_conv [THEN iffD2])
    moreover have "length (takeWhile (\<lambda>c. c = CHR ''*'') pattern) + length ?d = length pattern"
      using arg_cong [OF split, of length] by (simp only: length_append)
    ultimately have "length ?d < length pattern" by linarith
    with s show ?thesis by (auto simp: scanChunk_def Let_def)
  qed
qed

text \<open>
  Where a chunk after a star matches: the rest of the name after the leftmost match, \<open>Some None\<close> if there is none.
\<close>

fun star_match :: "string \<Rightarrow> bool \<Rightarrow> string \<Rightarrow> string option option" where
  "star_match chunk final [] = Some None"
| "star_match chunk final (c # name) =
     (if c = CHR ''/'' then Some None
      else (case matchChunk chunk name False of
        None \<Rightarrow> None
      | Some (t, ok) \<Rightarrow> if ok \<and> \<not> (final \<and> t \<noteq> []) then Some (Some t) else star_match chunk final name))"

function path_Match :: "string \<Rightarrow> string \<Rightarrow> bool" where
  "path_Match pattern name =
     (if pattern = [] then name = []
      else (case scanChunk pattern of (star, chunk, rest) \<Rightarrow>
        if star \<and> chunk = [] then CHR ''/'' \<notin> set name
        else (case matchChunk chunk name False of
          None \<Rightarrow> False
        | Some (t, ok) \<Rightarrow>
            if ok \<and> (t = [] \<or> rest \<noteq> []) then path_Match rest t
            else if star then
              (case star_match chunk (rest = []) name of
                 Some (Some t') \<Rightarrow> path_Match rest t'
               | _ \<Rightarrow> False)
            else False)))"
  by pat_completeness auto
termination
  by (relation "measure (\<lambda>(pattern, name). length pattern)") (auto dest: scanChunk_shorter [OF _ sym])

declare path_Match.simps [simp del]

section \<open>Rules\<close>

record pattern =
  ig_glob :: string
  ig_anchored :: bool
  ig_dirOnly :: bool

type_synonym Matcher = "pattern list"

definition compile_line :: "string \<Rightarrow> pattern list" where
  "compile_line ln =
     (let s = TrimSpace ln in
      if s = [] \<or> HasPrefix s ''#'' then []
      else let dirOnly = HasSuffix s ''/''; s' = TrimSuffix s ''/'' in
        if s' = [] then []
        else [\<lparr>ig_glob = TrimPrefix s' ''/'', ig_anchored = (CHR ''/'' \<in> set s'), ig_dirOnly = dirOnly\<rparr>])"

definition Compile :: "string list \<Rightarrow> Matcher" where
  "Compile lines = concat (map compile_line lines)"

text \<open>The receiver may be a nil pointer.\<close>

definition matcher_Empty :: "Matcher option \<Rightarrow> bool" where
  "matcher_Empty m \<longleftrightarrow> m = None \<or> m = Some []"

definition matcher_Count :: "Matcher option \<Rightarrow> nat" where
  "matcher_Count m = (case m of None \<Rightarrow> 0 | Some ps \<Rightarrow> length ps)"

definition Match :: "Matcher option \<Rightarrow> string \<Rightarrow> bool \<Rightarrow> bool" where
  "Match m serverPath isDir =
     (if matcher_Empty m then False
      else let rel = TrimPrefix serverPath ''/'' in
        if rel = [] then False
        else list_ex (\<lambda>p. \<not> (ig_dirOnly p \<and> \<not> isDir) \<and>
          path_Match (ig_glob p) (if ig_anchored p then rel else path_Base rel)) (the m))"

end
