(* ===== verification/ClientApi.thy ===== *)
theory ClientApi
  imports Ignore
begin

text \<open>
  What the sync client knows of the server, \<open>client/internal/api/client.go\<close>: the wire types, the errors the
  engine branches on, and the \<open>Server\<close> interface of \<open>client/internal/engine/engine.go\<close>.  The interface is a
  record of functions over a state \<open>'s\<close> of its own, so what is proved of the engine holds for every
  server behind it, including one that fails or lies.  A chunk's plaintext is checked against its address
  after the download (\<open>api_GetChunk\<close>); the client half of chunking is \<open>client/internal/chunk/chunk.go\<close>.
\<close>

section \<open>Errors\<close>

text \<open>An \<open>*api.Error\<close> is told apart by its HTTP status.\<close>

definition api_error :: "string \<Rightarrow> goerr" where
  "api_error status = Sentinel status"

definition IsNotFound :: "goerr \<Rightarrow> bool" where
  "IsNotFound e \<longleftrightarrow> errors_Is e (api_error ''404'')"

definition IsConflict :: "goerr \<Rightarrow> bool" where
  "IsConflict e \<longleftrightarrow> errors_Is e (api_error ''409'')"

section \<open>Wire types\<close>

record Node =
  an_ID :: string
  an_Kind :: string
  an_Name :: string
  an_Path :: string
  an_ParentID :: string
  an_Size :: int
  an_MIME :: string
  an_Blake3 :: string
  an_SHA256 :: string

definition api_IsFolder :: "Node \<Rightarrow> bool" where
  "api_IsFolder n \<longleftrightarrow> an_Kind n = ''folder''"

definition ContentHash :: "Node \<Rightarrow> string" where
  "ContentHash n = (if an_Blake3 n \<noteq> [] then an_Blake3 n else an_SHA256 n)"

record ManifestChunk =
  mfc_Hash :: string
  mfc_Offset :: int
  mfc_Size :: int

record Manifest =
  am_Kind :: string
  am_Chunks :: "ManifestChunk list"

record Change =
  ac_Seq :: int
  ac_Kind :: string
  ac_NodeID :: string
  ac_Node :: "Node option"

record Changes =
  pg_Changes :: "Change list"
  pg_Cursor :: int
  pg_Latest :: int
  pg_Reset :: bool
  pg_HasMore :: bool

record 's Server =
  srv_GetRoot :: "('s, Node) m"
  srv_ListChildren :: "string \<Rightarrow> ('s, Node list) m"
  srv_CreateFolder :: "string \<Rightarrow> string \<Rightarrow> ('s, Node) m"
  srv_Upload :: "string \<Rightarrow> string \<Rightarrow> string \<Rightarrow> ('s, Node) m"
  srv_Download :: "string \<Rightarrow> ('s, reader) m"
  srv_Manifest :: "string \<Rightarrow> ('s, Manifest) m"
  srv_HaveChunks :: "string list \<Rightarrow> ('s, string list) m"
  srv_PutChunk :: "string \<Rightarrow> string \<Rightarrow> ('s, unit) m"
  srv_GetChunk :: "string \<Rightarrow> ('s, string) m"
  srv_CommitManifest :: "string \<Rightarrow> string \<Rightarrow> string \<Rightarrow> string list \<Rightarrow> ('s, Node) m"
  srv_Trash :: "string \<Rightarrow> ('s, unit) m"
  srv_Move :: "string \<Rightarrow> string \<Rightarrow> string \<Rightarrow> ('s, Node) m"
  srv_Poll :: "int \<Rightarrow> nat \<Rightarrow> ('s, Changes) m"

section \<open>Chunks\<close>

definition cl_MinSize :: int where "cl_MinSize = 2 * 1024"
definition cl_AvgSize :: int where "cl_AvgSize = 16 * 1024"
definition cl_MaxSize :: int where "cl_MaxSize = 64 * 1024"
definition cl_WholeFileThreshold :: int where "cl_WholeFileThreshold = cl_MinSize"

record ClientChunk =
  cc_Hash :: string
  cc_Offset :: int
  cc_Size :: int
  cc_Plain :: string

definition cl_emit ::
  "ext \<Rightarrow> ('b \<Rightarrow> ClientChunk \<Rightarrow> ('s, 'b) m) \<Rightarrow> int \<times> string \<times> 'b \<Rightarrow> string \<Rightarrow> ('s, int \<times> string \<times> 'b) m" where
  "cl_emit x fn st plain =
     (case st of (offset, whole, acc) \<Rightarrow>
        bindM (fn acc \<lparr>cc_Hash = blake3 x plain, cc_Offset = offset, cc_Size = int (length plain), cc_Plain = plain\<rparr>)
          (\<lambda>acc'. ret (offset + int (length plain), whole @ plain, acc')))"

text \<open>The reader delivers bytes and then ends or fails, as in Chunker.\<close>

definition cl_Split ::
  "ext \<Rightarrow> reader \<Rightarrow> ('b \<Rightarrow> ClientChunk \<Rightarrow> ('a io_scheme, 'b) m) \<Rightarrow> 'b \<Rightarrow> ('a io_scheme, string \<times> 'b) m" where
  "cl_Split x r fn b =
     thenM (ioM (Io ''create chunker''))
     (bindM (wrapM ''split''
        (bindM (foldM (cl_emit x fn) (0, [], b) (cdc_split x r)) (\<lambda>st.
         thenM (guardM (\<not> snd r) copy_err) (ret st)))) (\<lambda>st.
      bindM (wrapM ''finalize split'' (foldM (cl_emit x fn) st (cdc_final x r)))
        (\<lambda>(_, whole, acc). ret (blake3 x whole, acc))))"

definition cl_Decompress :: "ext \<Rightarrow> string \<Rightarrow> string \<Rightarrow> goerr + string" where
  "cl_Decompress x stored compression =
     (if compression = ''none'' \<or> compression = [] then Inr stored
      else if compression = ''zstd'' then
        (case zstd_dec x stored of
           None \<Rightarrow> Inl (Wrap ''decompress chunk'' (Io ''zstd''))
         | Some out \<Rightarrow> Inr out)
      else Inl (Msg ''unknown compression''))"

text \<open>A response to \<open>GET /api/v1/chunks/<hash>\<close>: the status, the compression header and the body.\<close>

record chunk_response =
  cr_Status :: nat
  cr_Compression :: string
  cr_Body :: reader

definition api_GetChunk :: "ext \<Rightarrow> (string \<Rightarrow> ('s, chunk_response) m) \<Rightarrow> (nat \<Rightarrow> goerr) \<Rightarrow> string \<Rightarrow> ('s, string) m" where
  "api_GetChunk x get readError hash =
     bindM (get hash) (\<lambda>resp.
     thenM (guardM (cr_Status resp = 200) (readError (cr_Status resp)))
     (thenM (guardM (\<not> snd (cr_Body resp)) copy_err)
     (case cl_Decompress x (fst (cr_Body resp)) (cr_Compression resp) of
        Inl e \<Rightarrow> raise e
      | Inr plain \<Rightarrow>
          (case hex_decode hash of
             None \<Rightarrow> raise (Msg ''api: bad chunk hash'')
           | Some want \<Rightarrow>
               if length want \<noteq> 32 then raise (Msg ''api: bad chunk hash'')
               else if blake3 x plain \<noteq> want then raise (Msg ''api: chunk failed verification after download'')
               else ret plain))))"

end
