(* ===== verification/Device.thy ===== *)
theory Device
  imports ClientApi "HOL-Library.List_Lexorder"
begin

text \<open>
  The device the sync client runs on: the local disk with the operations of the packages \<open>os\<close> and
  \<open>path/filepath\<close> the engine uses, the state database (\<open>client/internal/state/state.go\<close>), the mapping between server
  paths and local paths (\<open>client/internal/engine/paths.go\<close>) and the fields of \<open>Engine\<close>.

  The disk maps absolute path names to nodes; a call asks the fault schedule first, as every call into
  the environment does.  Symbolic links, permissions and file names that differ only in case are not
  modelled.  The state database is a list of rows; its \<open>meta\<close> table holds the cursor and the exclude set.
\<close>

section \<open>State\<close>

text \<open>The modification time has the resolution the state database records it in.\<close>

datatype lnode = LDir | LFile string int | LOther int

record Entry =
  se_Path :: string
  se_NodeID :: string
  se_Kind :: string
  se_Size :: int
  se_MtimeUnix :: int
  se_Hash :: string
  se_RemoteHash :: string

datatype Phase = PhaseIdle | PhaseSyncing | PhaseError

record ConflictRecord =
  cf_Original :: string
  cf_Copy :: string
  cf_At :: int

text \<open>
  The variable part: the server's own state, the disk, the clock, the random bytes, the tables \<open>synced\<close> and
  \<open>meta\<close>, and the fields of \<open>Engine\<close> that change.  The persisted exclude set is \<open>Some None\<close> when its text is
  not the JSON of a list.
\<close>

record 's client = io +
  cl_remote :: 's
  cl_disk :: "(string \<times> lnode) list"
  cl_now :: int
  cl_random :: "string list"
  cl_synced :: "Entry list"
  cl_cursor :: "int option"
  cl_saved_excludes :: "string list option option"
  cl_rootID :: string
  cl_excludes :: "string list option"
  cl_excludesLoaded :: bool
  cl_ignore :: "Matcher option"
  cl_phase :: Phase
  cl_lastSync :: "int option"
  cl_lastErr :: "goerr option"
  cl_lastErrAt :: "int option"
  cl_conflicts :: "ConflictRecord list"
  cl_since :: int
  cl_paused :: bool
  cl_syncNow :: bool
  cl_pulled :: "int \<times> int"
  cl_pushed :: "int \<times> int"

text \<open>The fixed part.  \<open>eg_date\<close> formats the clock in the local time zone.\<close>

record engine =
  eg_root :: string
  eg_stateDir :: string
  eg_hostname :: string
  eg_date :: "int \<Rightarrow> string"

definition remoteM :: "('s, 'a) m \<Rightarrow> ('s client, 'a) m" where
  "remoteM c = (\<lambda>s. case c (cl_remote s) of (r, t) \<Rightarrow> (r, s\<lparr>cl_remote := t\<rparr>))"

section \<open>Paths\<close>

definition isUnder :: "string \<Rightarrow> string \<Rightarrow> bool" where
  "isUnder child parent \<longleftrightarrow> parent = ''/'' \<or> child = parent \<or> HasPrefix child (parent @ ''/'')"

definition parentPath :: "string \<Rightarrow> string" where
  "parentPath serverPath = path_Dir serverPath"

definition baseName :: "string \<Rightarrow> string" where
  "baseName serverPath = path_Base serverPath"

definition filepath_Join :: "string \<Rightarrow> string \<Rightarrow> string" where
  "filepath_Join a b = path_Clean (a @ ''/'' @ b)"

definition localPath :: "engine \<Rightarrow> string \<Rightarrow> string" where
  "localPath eng serverPath =
     (let rel = TrimPrefix serverPath ''/'' in
      if rel = [] then eg_root eng else filepath_Join (eg_root eng) rel)"

text \<open>\<open>filepath.Rel\<close> of two absolute paths: the elements they do not share.\<close>

definition path_elems :: "string \<Rightarrow> string list" where
  "path_elems p = filter (\<lambda>w. w \<noteq> []) (SplitByte (path_Clean p) (CHR ''/''))"

fun rel_elems :: "string list \<Rightarrow> string list \<Rightarrow> string list" where
  "rel_elems (b # bs) (t # ts) = (if b = t then rel_elems bs ts else map (\<lambda>_. ''..'') (b # bs) @ t # ts)"
| "rel_elems bs ts = map (\<lambda>_. ''..'') bs @ ts"

definition filepath_Rel :: "string \<Rightarrow> string \<Rightarrow> string" where
  "filepath_Rel base targ =
     (let es = rel_elems (path_elems base) (path_elems targ) in if es = [] then ''.'' else JoinByte es (CHR ''/''))"

definition serverPath :: "engine \<Rightarrow> string \<Rightarrow> string option" where
  "serverPath eng localAbs =
     (let rel = filepath_Rel (eg_root eng) localAbs in
      if rel = ''..'' \<or> HasPrefix rel ''../'' then None
      else if rel = ''.'' then Some ''/'' else Some (''/'' @ rel))"

section \<open>The disk\<close>

definition ENOENT :: goerr where "ENOENT = Sentinel ''file does not exist''"
definition ENOTDIR :: goerr where "ENOTDIR = Sentinel ''not a directory''"
definition EEXIST :: goerr where "EEXIST = Sentinel ''file exists''"
definition EISDIR :: goerr where "EISDIR = Sentinel ''is a directory''"
definition ENOTEMPTY :: goerr where "ENOTEMPTY = Sentinel ''directory not empty''"
definition EINVAL :: goerr where "EINVAL = Sentinel ''invalid argument''"
definition EIO :: goerr where "EIO = Io ''disk''"

definition IsNotExist :: "goerr \<Rightarrow> bool" where
  "IsNotExist e \<longleftrightarrow> e = ENOENT"

definition lookup :: "'s client \<Rightarrow> string \<Rightarrow> lnode option" where
  "lookup s p = map_of (cl_disk s) p"

definition disk_put :: "string \<Rightarrow> lnode \<Rightarrow> 's client \<Rightarrow> 's client" where
  "disk_put p n s = s\<lparr>cl_disk := AList.update p n (cl_disk s)\<rparr>"

definition disk_del :: "string \<Rightarrow> 's client \<Rightarrow> 's client" where
  "disk_del p s = s\<lparr>cl_disk := AList.delete p (cl_disk s)\<rparr>"

text \<open>A directory is moved with everything below it.\<close>

definition disk_move :: "string \<Rightarrow> string \<Rightarrow> 's client \<Rightarrow> 's client" where
  "disk_move src dst s = s\<lparr>cl_disk := map (\<lambda>(q, n). (if isUnder q src then dst @ drop (length src) q else q, n)) (cl_disk s)\<rparr>"

definition ancestors :: "string \<Rightarrow> string list" where
  "ancestors p = map (\<lambda>i. take i p) (filter (\<lambda>i. p ! i = CHR ''/'') [1 ..< length p])"

definition missing :: "'s client \<Rightarrow> string \<Rightarrow> goerr" where
  "missing s p =
     (if list_ex (\<lambda>q. lookup s q \<noteq> None \<and> lookup s q \<noteq> Some LDir) (ancestors p) then ENOTDIR else ENOENT)"

definition os_Stat :: "string \<Rightarrow> ('s client, lnode) m" where
  "os_Stat p =
     thenM (ioM EIO)
     (\<lambda>s. case lookup s p of Some n \<Rightarrow> (Inr n, s) | None \<Rightarrow> (Inl (missing s p), s))"

definition info_Size :: "lnode \<Rightarrow> int" where
  "info_Size n = (case n of LFile c t \<Rightarrow> int (length c) | _ \<Rightarrow> 0)"

definition info_ModTime :: "lnode \<Rightarrow> int" where
  "info_ModTime n = (case n of LFile c t \<Rightarrow> t | LOther t \<Rightarrow> t | LDir \<Rightarrow> 0)"

definition os_ReadFile :: "string \<Rightarrow> ('s client, string) m" where
  "os_ReadFile p =
     bindM (os_Stat p) (\<lambda>n. case n of LFile c t \<Rightarrow> ret c | LDir \<Rightarrow> raise EISDIR | LOther t \<Rightarrow> raise EIO)"

definition os_Mkdir :: "string \<Rightarrow> ('s client, unit) m" where
  "os_Mkdir p =
     thenM (ioM EIO)
     (\<lambda>s. case lookup s p of
        None \<Rightarrow> (Inr (), disk_put p LDir s)
      | Some LDir \<Rightarrow> (Inr (), s)
      | Some _ \<Rightarrow> (Inl ENOTDIR, s))"

definition os_MkdirAll :: "string \<Rightarrow> ('s client, unit) m" where
  "os_MkdirAll p = foldM (\<lambda>_. os_Mkdir) () (ancestors p @ [p])"

definition os_Remove :: "string \<Rightarrow> ('s client, unit) m" where
  "os_Remove p =
     thenM (ioM EIO)
     (\<lambda>s. case lookup s p of
        None \<Rightarrow> (Inl (missing s p), s)
      | Some LDir \<Rightarrow>
          if list_ex (\<lambda>(q, n). q \<noteq> p \<and> isUnder q p) (cl_disk s) then (Inl ENOTEMPTY, s) else (Inr (), disk_del p s)
      | Some _ \<Rightarrow> (Inr (), disk_del p s))"

text \<open>The order of a directory walk: lexical, element by element, a directory before its contents.\<close>

definition walk_key :: "string \<Rightarrow> string list" where
  "walk_key p = SplitByte p (CHR ''/'')"

definition paths_below :: "'s client \<Rightarrow> string \<Rightarrow> string list" where
  "paths_below s p = sort_key walk_key (filter (\<lambda>q. isUnder q p) (map fst (cl_disk s)))"

definition os_RemoveAll :: "string \<Rightarrow> ('s client, unit) m" where
  "os_RemoveAll p =
     bindM (getM (\<lambda>s. rev (paths_below s p))) (\<lambda>qs.
     foldM (\<lambda>_ q. thenM (ioM EIO) (modM (disk_del q))) () qs)"

definition os_Rename :: "string \<Rightarrow> string \<Rightarrow> ('s client, unit) m" where
  "os_Rename src dst =
     thenM (ioM EIO)
     (\<lambda>s. case lookup s src of
        None \<Rightarrow> (Inl (missing s src), s)
      | Some n \<Rightarrow>
          if dst = src then (Inr (), s)
          else if lookup s dst = Some LDir then (Inl EEXIST, s)
          else if lookup s (path_Dir dst) \<noteq> Some LDir then (Inl (missing s (path_Dir dst @ ''/'')), s)
          else if n = LDir then
            (if isUnder dst src then (Inl EINVAL, s)
             else if lookup s dst \<noteq> None then (Inl ENOTDIR, s)
             else (Inr (), disk_move src dst s))
          else (Inr (), disk_put dst n (disk_del src s)))"

text \<open>Writing sets the modification time.\<close>

definition unix_now :: "'s client \<Rightarrow> int" where
  "unix_now s = cl_now s div 1000000000"

definition os_WriteFile :: "string \<Rightarrow> string \<Rightarrow> ('s client, unit) m" where
  "os_WriteFile p c = thenM (ioM EIO) (modM (\<lambda>s. disk_put p (LFile c (unix_now s)) s))"

text \<open>\<open>OpenFile\<close> with \<open>O_CREATE|O_EXCL\<close>.\<close>

definition os_CreateExcl :: "string \<Rightarrow> ('s client, unit) m" where
  "os_CreateExcl p =
     thenM (ioM EIO)
     (\<lambda>s. if lookup s p \<noteq> None then (Inl EEXIST, s)
       else if lookup s (path_Dir p) \<noteq> Some LDir then (Inl (missing s (path_Dir p @ ''/'')), s)
       else (Inr (), disk_put p (LFile [] (unix_now s)) s))"

section \<open>The state database\<close>

definition sqlite_err :: goerr where
  "sqlite_err = Io ''state database''"

definition st_Get :: "string \<Rightarrow> ('s client, Entry option) m" where
  "st_Get p = thenM (ioM sqlite_err) (getM (\<lambda>s. find (\<lambda>e. se_Path e = p) (cl_synced s)))"

definition GetByNodeID :: "string \<Rightarrow> ('s client, Entry option) m" where
  "GetByNodeID nid = thenM (ioM sqlite_err) (getM (\<lambda>s. find (\<lambda>e. se_NodeID e = nid) (cl_synced s)))"

text \<open>\<open>path\<close> is the primary key.\<close>

definition put_entry :: "Entry \<Rightarrow> Entry list \<Rightarrow> Entry list" where
  "put_entry e es =
     (if list_ex (\<lambda>f. se_Path f = se_Path e) es then map (\<lambda>f. if se_Path f = se_Path e then e else f) es
      else es @ [e])"

definition st_Put :: "Entry \<Rightarrow> ('s client, unit) m" where
  "st_Put e = thenM (ioM sqlite_err) (modM (\<lambda>s. s\<lparr>cl_synced := put_entry e (cl_synced s)\<rparr>))"

definition st_Delete :: "string \<Rightarrow> ('s client, unit) m" where
  "st_Delete p = thenM (ioM sqlite_err) (modM (\<lambda>s. s\<lparr>cl_synced := filter (\<lambda>e. se_Path e \<noteq> p) (cl_synced s)\<rparr>))"

definition st_List :: "('s client, Entry list) m" where
  "st_List = thenM (ioM sqlite_err) (getM (\<lambda>s. sort_key se_Path (cl_synced s)))"

definition st_Count :: "('s client, int) m" where
  "st_Count = thenM (ioM sqlite_err) (getM (\<lambda>s. int (length (cl_synced s))))"

definition st_Empty :: "('s client, bool) m" where
  "st_Empty = bindM st_Count (\<lambda>n. ret (n = 0))"

definition st_Cursor :: "('s client, int) m" where
  "st_Cursor = thenM (ioM sqlite_err) (getM (\<lambda>s. case cl_cursor s of None \<Rightarrow> 0 | Some c \<Rightarrow> c))"

definition SetCursor :: "int \<Rightarrow> ('s client, unit) m" where
  "SetCursor c = thenM (ioM sqlite_err) (modM (\<lambda>s. s\<lparr>cl_cursor := Some c\<rparr>))"

end
