(* ===== verification/Encodings.thy ===== *)
theory Encodings
  imports GoText
begin

text \<open>
  The text encodings the code uses beyond hexadecimal: decimal numbers (\<open>strconv\<close>, the verb \<open>%d\<close> of \<open>fmt\<close> in
  both directions) and \<open>encoding/base32\<close> and \<open>encoding/base64\<close> without padding, which cut the bits of a string
  into groups of five or six and name each group by a letter.
\<close>

section \<open>Decimal numbers\<close>

fun decimal :: "nat \<Rightarrow> string" where
  "decimal n = (if n < 10 then [char_of (48 + n)] else decimal (n div 10) @ [char_of (48 + n mod 10)])"

declare decimal.simps [simp del]

definition is_digit :: "char \<Rightarrow> bool" where
  "is_digit c \<longleftrightarrow> 48 \<le> byte c \<and> byte c < 58"

definition digits_value :: "string \<Rightarrow> nat" where
  "digits_value ds = foldl (\<lambda>n c. 10 * n + (byte c - 48)) 0 ds"

text \<open>
  The verb \<open>%d\<close> of \<open>fmt.Sscanf\<close> for an unsigned and for a signed variable: white space but no line break is
  skipped, then come the digits, and a value that does not fit is an error.
\<close>

definition skip_space :: "string \<Rightarrow> string" where
  "skip_space s = concat (dropWhile (\<lambda>ch. IsSpace ch \<and> ch \<noteq> [CHR 0x0A]) (runes s))"

definition scan_uint :: "nat \<Rightarrow> string \<Rightarrow> (nat \<times> string) option" where
  "scan_uint bits s =
     (let t = skip_space s; ds = takeWhile is_digit t in
      if ds = [] \<or> digits_value ds \<ge> 2 ^ bits then None else Some (digits_value ds, dropWhile is_digit t))"

definition scan_int :: "string \<Rightarrow> (int \<times> string) option" where
  "scan_int s =
     (let t = skip_space s;
          neg = prefix ''-'' t;
          u = (if neg \<or> prefix ''+'' t then tl t else t);
          ds = takeWhile is_digit u;
          v = (if neg then - int (digits_value ds) else int (digits_value ds))
      in if ds = [] \<or> v < - (2 ^ 63) \<or> v \<ge> 2 ^ 63 then None else Some (v, dropWhile is_digit u))"

definition scan_literal :: "string \<Rightarrow> string \<Rightarrow> string option" where
  "scan_literal p s = (if prefix p s then Some (drop (length p) s) else None)"

section \<open>Groups of bits\<close>

definition nat_bits :: "nat \<Rightarrow> nat \<Rightarrow> bool list" where
  "nat_bits w n = map (\<lambda>i. odd (n div 2 ^ (w - Suc i))) [0 ..< w]"

definition bits_nat :: "bool list \<Rightarrow> nat" where
  "bits_nat bs = foldl (\<lambda>n b. 2 * n + of_bool b) 0 bs"

function groups :: "nat \<Rightarrow> 'a list \<Rightarrow> 'a list list" where
  "groups w xs = (if w = 0 \<or> xs = [] then [] else take w xs # groups w (drop w xs))"
  by pat_completeness auto
termination by (relation "measure (\<lambda>(w, xs). length xs)") auto

declare groups.simps [simp del]

definition pad_bits :: "nat \<Rightarrow> bool list \<Rightarrow> bool list" where
  "pad_bits w bs = bs @ replicate (w - length bs) False"

definition encode_bits :: "nat \<Rightarrow> string \<Rightarrow> string \<Rightarrow> string" where
  "encode_bits w alphabet s =
     map (\<lambda>g. alphabet ! bits_nat (pad_bits w g)) (groups w (concat (map (\<lambda>c. nat_bits 8 (byte c)) s)))"

fun letter_index :: "string \<Rightarrow> char \<Rightarrow> nat option" where
  "letter_index [] c = None"
| "letter_index (a # as) c = (if a = c then Some 0 else map_option Suc (letter_index as c))"

text \<open>Bits that do not fill a byte are ignored, whatever they are.\<close>

definition bits_bytes :: "bool list \<Rightarrow> string" where
  "bits_bytes bs = map (\<lambda>g. char_of (bits_nat g)) (groups 8 (take (length bs div 8 * 8) bs))"

definition base64_decode :: "string \<Rightarrow> string \<Rightarrow> string option" where
  "base64_decode alphabet s =
     (let t = filter (\<lambda>c. c \<noteq> CHR 0x0A \<and> c \<noteq> CHR 0x0D) s; is = map (letter_index alphabet) t in
      if length t mod 4 = 1 \<or> None \<in> set is then None
      else Some (bits_bytes (concat (map (\<lambda>i. nat_bits 6 (the i)) is))))"

definition std_alphabet :: string where
  "std_alphabet = ''ABCDEFGHIJKLMNOPQRSTUVWXYZabcdefghijklmnopqrstuvwxyz0123456789+/''"

definition url_alphabet :: string where
  "url_alphabet = ''ABCDEFGHIJKLMNOPQRSTUVWXYZabcdefghijklmnopqrstuvwxyz0123456789-_''"

abbreviation RawStdEncoding :: "string \<Rightarrow> string" where
  "RawStdEncoding \<equiv> encode_bits 6 std_alphabet"

abbreviation RawURLEncoding :: "string \<Rightarrow> string" where
  "RawURLEncoding \<equiv> encode_bits 6 url_alphabet"

section \<open>Round trips\<close>

lemma length_nat_bits [simp]: "length (nat_bits w n) = w"
  by (simp add: nat_bits_def)

lemma bits_nat_snoc: "bits_nat (bs @ [b]) = 2 * bits_nat bs + of_bool b"
  by (simp add: bits_nat_def)

lemma nat_bits_Suc: "nat_bits (Suc w) n = nat_bits w (n div 2) @ [odd n]"
proof (rule nth_equalityI)
  fix i assume "i < length (nat_bits (Suc w) n)"
  then consider "i < w" | "i = w" by fastforce
  then show "nat_bits (Suc w) n ! i = (nat_bits w (n div 2) @ [odd n]) ! i"
  proof cases
    case 1
    then have "Suc w - Suc i = Suc (w - Suc i)" by simp
    with 1 show ?thesis by (simp add: nat_bits_def nth_append div_mult2_eq)
  next
    case 2
    have "nat_bits (Suc w) n ! w = odd (n div 2 ^ (Suc w - Suc w))" by (simp add: nat_bits_def nth_append del: upt_Suc)
    with 2 show ?thesis by (simp add: nth_append)
  qed
qed simp

lemma bits_nat_inverse: "n < 2 ^ w \<Longrightarrow> bits_nat (nat_bits w n) = n"
proof (induction w arbitrary: n)
  case 0
  then show ?case by (simp add: bits_nat_def nat_bits_def)
next
  case (Suc w)
  then have "n div 2 < 2 ^ w" by simp
  with Suc.IH show ?case by (simp add: nat_bits_Suc bits_nat_snoc)
qed

lemma nat_bits_inverse: "nat_bits (length bs) (bits_nat bs) = bs \<and> bits_nat bs < 2 ^ length bs"
proof (induction bs rule: rev_induct)
  case Nil
  then show ?case by (simp add: bits_nat_def nat_bits_def)
next
  case (snoc b bs)
  then show ?case by (cases b) (auto simp: nat_bits_Suc bits_nat_snoc)
qed

lemma concat_groups: "0 < w \<Longrightarrow> concat (groups w xs) = xs"
proof (induction w xs rule: groups.induct)
  case (1 w xs)
  then show ?case by (subst groups.simps) auto
qed

lemma groups_exact: "0 < w \<Longrightarrow> \<forall>g \<in> set gs. length g = w \<Longrightarrow> groups w (concat gs) = gs"
proof (induction gs)
  case Nil
  then show ?case by (simp add: groups.simps)
next
  case (Cons g gs)
  then have "concat (g # gs) \<noteq> []" by (cases g) auto
  with Cons show ?case by (subst groups.simps) auto
qed

lemma letter_index_nth: "distinct as \<Longrightarrow> i < length as \<Longrightarrow> letter_index as (as ! i) = Some i"
proof (induction as arbitrary: i)
  case (Cons a as)
  then show ?case by (cases i) (auto dest: nth_mem)
qed simp

lemma pad_groups: "0 < w \<Longrightarrow> \<exists>k < w. concat (map (pad_bits w) (groups w xs)) = xs @ replicate k False"
proof (induction w xs rule: groups.induct)
  case (1 w xs)
  show ?case
  proof (cases "xs = []")
    case True
    with 1(2) show ?thesis by (subst groups.simps) auto
  next
    case False
    show ?thesis
    proof (cases "length xs < w")
      case True
      with False 1(2) have "groups w xs = [xs]" by (simp add: groups.simps [of w xs] groups.simps [of w "[]"])
      with True False show ?thesis by (intro exI [of _ "w - length xs"]) (auto simp: pad_bits_def)
    next
      case long: False
      with 1(1) 1(2) False obtain k where k: "k < w" "concat (map (pad_bits w) (groups w (drop w xs))) = drop w xs @ replicate k False" by auto
      have "groups w xs = take w xs # groups w (drop w xs)" using False 1(2) by (subst groups.simps) simp
      moreover have "pad_bits w (take w xs) = take w xs" using long by (simp add: pad_bits_def)
      ultimately show ?thesis using k by (intro exI [of _ k]) simp
    qed
  qed
qed

lemma group_length: "0 < w \<Longrightarrow> g \<in> set (groups w xs) \<Longrightarrow> length g \<le> w"
proof (induction w xs rule: groups.induct)
  case (1 w xs)
  then show ?case by (subst (asm) (2) groups.simps) (auto split: if_splits)
qed

lemma pad_value: "length g \<le> w \<Longrightarrow> nat_bits w (bits_nat (pad_bits w g)) = pad_bits w g \<and> bits_nat (pad_bits w g) < 2 ^ w"
  using nat_bits_inverse [of "pad_bits w g"] by (simp add: pad_bits_def)

lemma bits_bytes_pad:
  assumes "k < 8"
  shows "bits_bytes (concat (map (\<lambda>c. nat_bits 8 (byte c)) s) @ replicate k False) = s"
proof -
  let ?b = "concat (map (\<lambda>c. nat_bits 8 (byte c)) s)"
  have l: "length ?b = 8 * length s" by (induction s) auto
  have "(length ?b + k) div 8 * 8 = length ?b" using assms l by simp
  then have "bits_bytes (?b @ replicate k False) = map (\<lambda>g. char_of (bits_nat g)) (groups 8 ?b)" by (simp add: bits_bytes_def)
  also have "groups 8 ?b = map (\<lambda>c. nat_bits 8 (byte c)) s" by (rule groups_exact) auto
  also have "map (\<lambda>g. char_of (bits_nat g)) \<dots> = map (\<lambda>c. char_of (bits_nat (nat_bits 8 (byte c)))) s" by simp
  also have "\<dots> = s"
  proof (rule map_idI)
    fix c :: char
    have "byte c mod 256 = byte c" by (rule of_char_mod_256)
    then have "byte c < 2 ^ 8" using mod_less_divisor [of 256 "byte c"] by simp
    then show "char_of (bits_nat (nat_bits 8 (byte c))) = c" by (simp add: bits_nat_inverse)
  qed
  finally show ?thesis .
qed

lemma sextets_octets:
  fixes a b k :: nat
  assumes "6 * a = 8 * b + k" and "k < 6"
  shows "a mod 4 \<noteq> 1"
proof
  assume "a mod 4 = 1"
  then have "a = 4 * (a div 4) + 1" using div_mult_mod_eq [of a 4] by simp
  with assms(1) have "8 * b + k = 8 * (3 * (a div 4)) + 6" by simp
  then have "(8 * b + k) mod 8 = (8 * (3 * (a div 4)) + 6) mod 8" by (rule arg_cong)
  with assms(2) show False by (simp only: mod_mult_self4) simp
qed

lemma base64_roundtrip:
  assumes a: "distinct alphabet" "length alphabet = 64" "CHR 0x0A \<notin> set alphabet" "CHR 0x0D \<notin> set alphabet"
  shows "base64_decode alphabet (encode_bits 6 alphabet s) = Some s"
proof -
  let ?b = "concat (map (\<lambda>c. nat_bits 8 (byte c)) s)"
  let ?gs = "groups 6 ?b" and ?v = "\<lambda>g. bits_nat (pad_bits 6 g)"
  let ?e = "encode_bits 6 alphabet s"
  have v: "?v g < 64 \<and> nat_bits 6 (?v g) = pad_bits 6 g" if "g \<in> set ?gs" for g
    using group_length [OF _ that] pad_value [of g 6] by simp
  have e: "?e = map (\<lambda>g. alphabet ! ?v g) ?gs" by (simp add: encode_bits_def)
  have "c \<in> set alphabet" if "c \<in> set ?e" for c using that v a(2) by (auto simp: e)
  with a(3,4) have f: "filter (\<lambda>c. c \<noteq> CHR 0x0A \<and> c \<noteq> CHR 0x0D) ?e = ?e" by (auto simp: filter_id_conv)
  have i: "map (letter_index alphabet) ?e = map (\<lambda>g. Some (?v g)) ?gs"
    using v a(1,2) by (auto simp: e letter_index_nth)
  obtain k where k: "k < 6" "concat (map (pad_bits 6) ?gs) = ?b @ replicate k False" using pad_groups [of 6 ?b] by auto
  have bits: "concat (map (\<lambda>g. nat_bits 6 (?v g)) ?gs) = ?b @ replicate k False"
    unfolding k(2) [symmetric] using v by (intro arg_cong [of _ _ concat] map_cong) auto
  have "length (concat (map (pad_bits 6) ?gs)) = 6 * length ?gs"
  proof -
    have "length (pad_bits 6 g) = 6" if "g \<in> set ?gs" for g using group_length [OF _ that] by (simp add: pad_bits_def)
    then have "map (length \<circ> pad_bits 6) ?gs = map (\<lambda>_. 6) ?gs" by simp
    then show ?thesis by (simp add: length_concat sum_list_triv del: map_eq_conv)
  qed
  moreover have "length ?b = 8 * length s" by (induction s) auto
  ultimately have "6 * length ?gs = 8 * length s + k" using arg_cong [OF k(2), of length] by simp
  then have m: "length ?gs mod 4 \<noteq> 1" by (rule sextets_octets [OF _ k(1)])
  have d: "concat (map (\<lambda>i. nat_bits 6 (the i)) (map (\<lambda>g. Some (?v g)) ?gs)) = ?b @ replicate k False"
    unfolding map_map o_def option.sel by (rule bits)
  have n: "None \<notin> set (map (\<lambda>g. Some (?v g)) ?gs)" by auto
  have len: "length ?e = length ?gs" by (simp add: e)
  from k(1) have "bits_bytes (?b @ replicate k False) = s" by (intro bits_bytes_pad) simp
  with m n show ?thesis unfolding base64_decode_def Let_def f i d len by simp
qed

lemma alphabets: "distinct std_alphabet" "length std_alphabet = 64" "CHR 0x0A \<notin> set std_alphabet" "CHR 0x0D \<notin> set std_alphabet"
  by (simp_all add: std_alphabet_def)

lemma std_roundtrip: "base64_decode std_alphabet (RawStdEncoding s) = Some s"
  by (rule base64_roundtrip [OF alphabets])

lemma encode_letters: "0 < w \<Longrightarrow> 2 ^ w \<le> length alphabet \<Longrightarrow> set (encode_bits w alphabet s) \<subseteq> set alphabet"
proof
  fix c assume w: "0 < w" "2 ^ w \<le> length alphabet" and "c \<in> set (encode_bits w alphabet s)"
  then obtain g where g: "g \<in> set (groups w (concat (map (\<lambda>c. nat_bits 8 (byte c)) s)))" "c = alphabet ! bits_nat (pad_bits w g)"
    by (auto simp: encode_bits_def)
  from pad_value [OF group_length [OF w(1) g(1)]] w(2) g(2) show "c \<in> set alphabet" by (auto intro!: nth_mem)
qed

section \<open>Printing and scanning numbers\<close>

lemma decimal_digits_only: "c \<in> set (decimal n) \<Longrightarrow> is_digit c"
proof (induction n rule: decimal.induct)
  case (1 n)
  have digit: "is_digit (char_of (48 + d))" if "d < 10" for d :: nat using that by (simp add: is_digit_def)
  show ?case
  proof (cases "n < 10")
    case True
    with 1 digit [of n] show ?thesis by (simp add: decimal.simps [of n])
  next
    case False
    with 1 digit [of "n mod 10"] show ?thesis by (auto simp: decimal.simps [of n])
  qed
qed

lemma decimal_value: "digits_value (decimal n) = n"
proof (induction n rule: decimal.induct)
  case (1 n)
  have d: "byte (char_of (48 + d)) = 48 + d" if "d < 10" for d :: nat using that by simp
  show ?case
  proof (cases "n < 10")
    case True
    then show ?thesis using d [of n] by (simp add: decimal.simps [of n] digits_value_def)
  next
    case False
    have "digits_value (decimal n) = 10 * digits_value (decimal (n div 10)) + (byte (char_of (48 + n mod 10)) - 48)"
      using False by (subst decimal.simps) (simp add: digits_value_def)
    with False 1 d [of "n mod 10"] show ?thesis by simp
  qed
qed

lemma decimal_nonempty: "decimal n \<noteq> []"
  by (subst decimal.simps) simp

lemma digit_ascii: "is_digit c \<Longrightarrow> byte c < 128 \<and> \<not> IsSpace [c]"
proof -
  assume d: "is_digit c"
  then have "c \<noteq> char_of n" if "n < 48" for n :: nat using that by (auto simp: is_digit_def)
  with d show ?thesis by (auto simp: is_digit_def IsSpace_def space_runes_def)
qed

lemma skip_digits: "is_digit c \<Longrightarrow> skip_space (c # s) = c # s"
proof -
  assume d: "is_digit c"
  then have "byte c < 128" using digit_ascii by blast
  then have "rune_len (c # s) = 1" by (simp add: rune_len.simps Let_def)
  with digit_ascii [OF d] have "dropWhile (\<lambda>ch. IsSpace ch \<and> ch \<noteq> [CHR 0x0A]) (runes (c # s)) = runes (c # s)" by simp
  then show ?thesis by (simp only: skip_space_def concat_runes)
qed

lemma scan_uint_decimal:
  assumes "n < 2 ^ b" and "s = [] \<or> \<not> is_digit (hd s)"
  shows "scan_uint b (decimal n @ s) = Some (n, s)"
proof -
  obtain c cs where c: "decimal n = c # cs" by (cases "decimal n") (simp_all add: decimal_nonempty)
  have all: "\<forall>d \<in> set (decimal n). is_digit d" using decimal_digits_only by blast
  with c have "skip_space (decimal n @ s) = decimal n @ s" using skip_digits [of c "cs @ s"] by simp
  moreover have "takeWhile is_digit (decimal n @ s) = decimal n \<and> dropWhile is_digit (decimal n @ s) = s"
    using all assms(2) by (cases s) (auto simp: takeWhile_append dropWhile_append)
  ultimately show ?thesis using assms(1) by (simp add: scan_uint_def decimal_value decimal_nonempty)
qed

lemma scan_int_decimal:
  assumes "int n < 2 ^ 63" and "s = [] \<or> \<not> is_digit (hd s)"
  shows "scan_int (decimal n @ s) = Some (int n, s)"
proof -
  obtain c cs where c: "decimal n = c # cs" by (cases "decimal n") (simp_all add: decimal_nonempty)
  have all: "\<forall>d \<in> set (decimal n). is_digit d" using decimal_digits_only by blast
  with c have skip: "skip_space (decimal n @ s) = decimal n @ s" using skip_digits [of c "cs @ s"] by simp
  have "is_digit c" using all c by simp
  then have "c \<noteq> CHR ''-''" "c \<noteq> CHR ''+''" by (auto simp: is_digit_def)
  moreover have "takeWhile is_digit (decimal n @ s) = decimal n \<and> dropWhile is_digit (decimal n @ s) = s"
    using all assms(2) by (cases s) (auto simp: takeWhile_append dropWhile_append)
  ultimately show ?thesis using assms(1) skip c decimal_value [of n] by (auto simp: scan_int_def decimal_nonempty Let_def split: if_splits)
qed

end
