(* ===== verification/Engine.thy ===== *)
theory Engine
  imports Device Encodings
begin

text \<open>
  The sync engine, \<open>client/internal/engine\<close>: one definition per function, in the order of its files
  (\<open>status.go\<close>, \<open>ignore.go\<close>, \<open>selective.go\<close>, \<open>conflict.go\<close>, \<open>transfer.go\<close>, \<open>pull.go\<close>, \<open>push.go\<close>, \<open>engine.go\<close>,
  \<open>run.go\<close>).  \<open>srv\<close> is the server interface, \<open>x\<close> the hash and the chunker.  The queue of the tree walk and the
  pages of the journal come from the server and need not end, so these two loops take fuel; the search for
  a free conflict name is bounded by the size of the disk.  Log lines are left out.
\<close>

definition out_of_fuel :: goerr where
  "out_of_fuel = Sentinel ''out of fuel''"

section \<open>Status\<close>

definition maxConflicts :: nat where "maxConflicts = 50"

definition countPull :: "int \<Rightarrow> ('s client, unit) m" where
  "countPull n = modM (\<lambda>s. s\<lparr>cl_pulled := (fst (cl_pulled s) + 1, snd (cl_pulled s) + n)\<rparr>)"

definition countPush :: "int \<Rightarrow> ('s client, unit) m" where
  "countPush n = modM (\<lambda>s. s\<lparr>cl_pushed := (fst (cl_pushed s) + 1, snd (cl_pushed s) + n)\<rparr>)"

definition setPhase :: "Phase \<Rightarrow> ('s client, unit) m" where
  "setPhase p = modM (\<lambda>s. s\<lparr>cl_phase := p\<rparr>)"

text \<open>The outcome of one reconcile is folded into the status and handed back.\<close>

definition recordResult :: "('s client, unit) m \<Rightarrow> ('s client, unit) m" where
  "recordResult c =
     bindM (tryM c) (\<lambda>r. case r of
       Inl e \<Rightarrow> thenM (modM (\<lambda>s. s\<lparr>cl_phase := PhaseError, cl_lastErr := Some e, cl_lastErrAt := Some (cl_now s)\<rparr>)) (raise e)
     | Inr _ \<Rightarrow> modM (\<lambda>s. s\<lparr>cl_phase := PhaseIdle, cl_lastErr := None, cl_lastSync := Some (cl_now s)\<rparr>))"

definition recordConflict :: "string \<Rightarrow> string \<Rightarrow> ('s client, unit) m" where
  "recordConflict original copyPath =
     modM (\<lambda>s. let cs = cl_conflicts s @ [\<lparr>cf_Original = original, cf_Copy = copyPath, cf_At = cl_now s\<rparr>] in
       s\<lparr>cl_conflicts := (if length cs > maxConflicts then drop (length cs - maxConflicts) cs else cs)\<rparr>)"

definition ClearConflicts :: "('s client, unit) m" where
  "ClearConflicts = modM (\<lambda>s. s\<lparr>cl_conflicts := []\<rparr>)"

definition Pause :: "('s client, unit) m" where "Pause = modM (\<lambda>s. s\<lparr>cl_paused := True\<rparr>)"
definition Resume :: "('s client, unit) m" where "Resume = modM (\<lambda>s. s\<lparr>cl_paused := False\<rparr>)"
definition SyncNow :: "('s client, unit) m" where "SyncNow = modM (\<lambda>s. s\<lparr>cl_syncNow := True\<rparr>)"

record Status =
  sn_Phase :: Phase
  sn_Paused :: bool
  sn_LastSync :: "int option"
  sn_LastError :: "goerr option"
  sn_LastErrorAt :: "int option"
  sn_Tracked :: int
  sn_Conflicts :: "ConflictRecord list"
  sn_Since :: int
  sn_IgnoreRules :: nat
  sn_Pulled :: "int \<times> int"
  sn_Pushed :: "int \<times> int"

definition Snapshot :: "('s client, Status) m" where
  "Snapshot =
     bindM (getM (\<lambda>s. \<lparr>sn_Phase = cl_phase s, sn_Paused = cl_paused s, sn_LastSync = cl_lastSync s,
       sn_LastError = cl_lastErr s, sn_LastErrorAt = cl_lastErrAt s, sn_Tracked = 0, sn_Conflicts = cl_conflicts s,
       sn_Since = cl_since s, sn_IgnoreRules = matcher_Count (cl_ignore s), sn_Pulled = cl_pulled s, sn_Pushed = cl_pushed s\<rparr>)) (\<lambda>st.
     bindM (tryM st_Count) (\<lambda>r. case r of
       Inl e \<Rightarrow> ret st
     | Inr n \<Rightarrow> ret (st\<lparr>sn_Tracked := n\<rparr>)))"

section \<open>Ignore rules and excluded subtrees\<close>

definition ignoreFileName :: string where "ignoreFileName = ''.pcsyncignore''"

definition loadIgnore :: "engine \<Rightarrow> ('s client, unit) m" where
  "loadIgnore eng =
     bindM (tryM (os_ReadFile (filepath_Join (eg_root eng) ignoreFileName))) (\<lambda>r. case r of
       Inl e \<Rightarrow> modM (\<lambda>s. s\<lparr>cl_ignore := Some (Compile [])\<rparr>)
     | Inr text \<Rightarrow> modM (\<lambda>s. s\<lparr>cl_ignore := Some (Compile (SplitByte text (CHR 0x0A)))\<rparr>))"

definition ignored :: "'s client \<Rightarrow> string \<Rightarrow> bool \<Rightarrow> bool" where
  "ignored s p isDir = Match (cl_ignore s) p isDir"

definition loadExcludes :: "'s client \<Rightarrow> string list" where
  "loadExcludes s = (case cl_excludes s of None \<Rightarrow> [] | Some ps \<Rightarrow> ps)"

definition excluded :: "'s client \<Rightarrow> string \<Rightarrow> bool" where
  "excluded s p = list_ex (\<lambda>pre. isUnder p pre) (loadExcludes s)"

definition Excludes :: "('s client, string list) m" where
  "Excludes = getM loadExcludes"

definition normalize_step :: "string list \<Rightarrow> string \<Rightarrow> string list" where
  "normalize_step out raw =
     (let p = TrimSpace raw in
      if p = [] then out
      else let p' = TrimRightByte (if HasPrefix p ''/'' then p else ''/'' @ p) (CHR ''/'') in
        if p' = [] \<or> p' \<in> set out then out else out @ [p'])"

definition normalizeExcludes :: "string list \<Rightarrow> string list" where
  "normalizeExcludes raw = sort (foldl normalize_step [] raw)"

text \<open>A failed write is logged and ignored.\<close>

definition SetExcludes :: "string list \<Rightarrow> ('s client, unit) m" where
  "SetExcludes raw =
     (let norm = normalizeExcludes raw in
      thenM (modM (\<lambda>s. s\<lparr>cl_excludes := Some norm\<rparr>))
      (catchM (thenM (ioM sqlite_err) (modM (\<lambda>s. s\<lparr>cl_saved_excludes := Some (Some norm)\<rparr>))) (\<lambda>e. ret ())))"

definition SeedExcludes :: "string list \<Rightarrow> ('s client, unit) m" where
  "SeedExcludes fromConfig =
     bindM (getM cl_excludesLoaded) (\<lambda>loaded. if loaded then ret () else SetExcludes fromConfig)"

definition loadPersistedExcludes :: "('s client, unit) m" where
  "loadPersistedExcludes =
     bindM (tryM (thenM (ioM sqlite_err) (getM cl_saved_excludes))) (\<lambda>r. case r of
       Inl e \<Rightarrow> ret ()
     | Inr None \<Rightarrow> ret ()
     | Inr (Some raw) \<Rightarrow>
         thenM (modM (\<lambda>s. s\<lparr>cl_excludesLoaded := True\<rparr>))
         (case raw of
            None \<Rightarrow> ret ()
          | Some xs \<Rightarrow> modM (\<lambda>s. s\<lparr>cl_excludes := Some (normalizeExcludes xs)\<rparr>)))"

definition matchingPrefix :: "string \<Rightarrow> string list \<Rightarrow> string option" where
  "matchingPrefix p pres = find (isUnder p) pres"

text \<open>Whether a recorded file is on disk, and whether its content differs from what was synced.\<close>

definition hex_hash :: "ext \<Rightarrow> string \<Rightarrow> string" where
  "hex_hash x c = hex_encode (blake3 x c)"

definition hashFile :: "ext \<Rightarrow> string \<Rightarrow> ('s client, string) m" where
  "hashFile x p = bindM (os_ReadFile p) (\<lambda>c. ret (hex_hash x c))"

definition localStatus :: "engine \<Rightarrow> ext \<Rightarrow> Entry \<Rightarrow> ('s client, bool \<times> bool) m" where
  "localStatus eng x e =
     bindM (tryM (os_Stat (localPath eng (se_Path e)))) (\<lambda>r. case r of
       Inl err \<Rightarrow> if IsNotExist err then ret (False, False) else raise err
     | Inr info \<Rightarrow>
         if info = LDir then ret (True, False)
         else if info_Size info = se_Size e \<and> info_ModTime info = se_MtimeUnix e then ret (True, False)
         else bindM (hashFile x (localPath eng (se_Path e))) (\<lambda>h. ret (True, h \<noteq> se_Hash e)))"

text \<open>Every state record at or beneath a path is dropped.\<close>

definition forgetSubtree :: "string \<Rightarrow> ('s client, unit) m" where
  "forgetSubtree root =
     bindM st_List (\<lambda>es.
     foldM (\<lambda>_ e. if isUnder (se_Path e) root then st_Delete (se_Path e) else ret ()) () es)"

text \<open>
  \<open>pruneExcluded\<close> collects the excluded prefixes that have tracked entries and those of them with a local
  edit; the code walks the first set in the order of a Go map, the model in the order of collection.
\<close>

definition prune_scan ::
  "engine \<Rightarrow> ext \<Rightarrow> string list \<Rightarrow> string list \<times> string list \<Rightarrow> Entry \<Rightarrow> ('s client, string list \<times> string list) m" where
  "prune_scan eng x pres st e =
     (case st of (dirty, tracked) \<Rightarrow>
      case matchingPrefix (se_Path e) pres of
        None \<Rightarrow> ret (dirty, tracked)
      | Some pre \<Rightarrow>
          let tracked' = (if pre \<in> set tracked then tracked else tracked @ [pre]) in
          if se_Kind e \<noteq> ''file'' \<or> pre \<in> set dirty then ret (dirty, tracked')
          else bindM (localStatus eng x e) (\<lambda>(exists, changed).
            ret (if exists \<and> changed then dirty @ [pre] else dirty, tracked')))"

definition pruneExcluded :: "engine \<Rightarrow> ext \<Rightarrow> ('s client, unit) m" where
  "pruneExcluded eng x =
     bindM (getM loadExcludes) (\<lambda>pres.
     if pres = [] then ret ()
     else bindM st_List (\<lambda>es.
       bindM (foldM (prune_scan eng x pres) ([], []) es) (\<lambda>(dirty, tracked).
       foldM (\<lambda>_ pre.
         thenM (if pre \<in> set dirty then ret () else os_RemoveAll (localPath eng pre))
         (forgetSubtree pre)) () tracked)))"

section \<open>Conflict copies\<close>

definition conflict_suffix :: "engine \<Rightarrow> int \<Rightarrow> nat \<Rightarrow> string" where
  "conflict_suffix eng t n =
     '' (conflict from '' @ eg_hostname eng @ '' '' @ eg_date eng t @ '')'' @
     (if n > 1 then '' ('' @ decimal n @ '')'' else [])"

definition conflictServerPath :: "engine \<Rightarrow> int \<Rightarrow> string \<Rightarrow> nat \<Rightarrow> string" where
  "conflictServerPath eng t p n =
     (let dir = parentPath p; base = baseName p; e = path_Ext base; stem = TrimSuffix base e;
          name = stem @ conflict_suffix eng t n @ e
      in if dir = ''/'' then ''/'' @ name else dir @ ''/'' @ name)"

fun free_name :: "engine \<Rightarrow> string \<Rightarrow> nat \<Rightarrow> nat \<Rightarrow> ('s client, string) m" where
  "free_name eng p 0 n = raise out_of_fuel"
| "free_name eng p (Suc k) n =
     bindM (getM (\<lambda>s. conflictServerPath eng (cl_now s) p n)) (\<lambda>candidate.
     bindM (tryM (os_Stat (localPath eng candidate))) (\<lambda>r. case r of
       Inl e \<Rightarrow> if IsNotExist e then ret candidate else raise e
     | Inr _ \<Rightarrow> free_name eng p k (Suc n)))"

definition conflictCopy :: "engine \<Rightarrow> Entry \<Rightarrow> ('s client, string) m" where
  "conflictCopy eng e =
     bindM (getM (\<lambda>s. Suc (length (cl_disk s)))) (\<lambda>k.
     bindM (free_name eng (se_Path e) k 1) (\<lambda>dstServer.
     let src = localPath eng (se_Path e); dst = localPath eng dstServer in
     thenM (os_MkdirAll (path_Dir dst))
     (thenM (catchM (os_Rename src dst) (\<lambda>err. if IsNotExist err then ret () else raise err))
     (thenM (st_Delete (se_Path e))
     (thenM (recordConflict (se_Path e) dstServer)
     (ret dstServer))))))"

section \<open>Transfers\<close>

definition collect_hash :: "string list \<Rightarrow> ClientChunk \<Rightarrow> ('s client, string list) m" where
  "collect_hash order c = ret (order @ [hex_encode (cc_Hash c)])"

definition hashChunks :: "ext \<Rightarrow> string \<Rightarrow> ('s client, string list \<times> string) m" where
  "hashChunks x p =
     bindM (os_ReadFile p) (\<lambda>content.
     bindM (cl_Split x (content, False) collect_hash []) (\<lambda>(w, order).
     ret (order, hex_encode w)))"

definition dedupe :: "string list \<Rightarrow> string list" where
  "dedupe hashes = foldl (\<lambda>out h. if h \<in> set out then out else out @ [h]) [] hashes"

definition send_chunk :: "'s Server \<Rightarrow> string list \<Rightarrow> string list \<Rightarrow> ClientChunk \<Rightarrow> ('s client, string list) m" where
  "send_chunk srv need uploaded c =
     (let h = hex_encode (cc_Hash c) in
      if h \<notin> set need \<or> h \<in> set uploaded then ret uploaded
      else thenM (wrapM (''upload chunk '' @ h) (remoteM (srv_PutChunk srv h (cc_Plain c)))) (ret (uploaded @ [h])))"

definition uploadChunked :: "'s Server \<Rightarrow> ext \<Rightarrow> string \<Rightarrow> string \<Rightarrow> string \<Rightarrow> ('s client, Node \<times> string) m" where
  "uploadChunked srv x local parentID name =
     bindM (hashChunks x local) (\<lambda>(order, whole).
     bindM (remoteM (srv_HaveChunks srv (dedupe order))) (\<lambda>need.
     thenM (if need = [] then ret ()
            else bindM (os_ReadFile local) (\<lambda>content.
              bindM (cl_Split x (content, False) (send_chunk srv need) []) (\<lambda>_. ret ())))
     (bindM (remoteM (srv_CommitManifest srv parentID name whole order)) (\<lambda>node.
      ret (node, whole)))))"

definition uploadWhole :: "'s Server \<Rightarrow> ext \<Rightarrow> string \<Rightarrow> string \<Rightarrow> string \<Rightarrow> ('s client, Node \<times> string) m" where
  "uploadWhole srv x local parentID name =
     bindM (os_ReadFile local) (\<lambda>content.
     bindM (remoteM (srv_Upload srv parentID name content)) (\<lambda>node.
     ret (node, hex_hash x content)))"

definition uploadFile :: "engine \<Rightarrow> 's Server \<Rightarrow> ext \<Rightarrow> string \<Rightarrow> string \<Rightarrow> ('s client, Node \<times> string) m" where
  "uploadFile eng srv x p parentID =
     (let local = localPath eng p in
      bindM (os_Stat local) (\<lambda>info.
      if info_Size info < cl_WholeFileThreshold then uploadWhole srv x local parentID (baseName p)
      else uploadChunked srv x local parentID (baseName p)))"

definition tempFile :: "engine \<Rightarrow> ('s client, string) m" where
  "tempFile eng =
     bindM (\<lambda>s. case cl_random s of
         [] \<Rightarrow> (Inl (Io ''rand''), s)
       | b # bs \<Rightarrow> (Inr (filepath_Join (eg_stateDir eng) (''download-'' @ hex_encode b @ ''.tmp'')), s\<lparr>cl_random := bs\<rparr>)) (\<lambda>name.
     thenM (os_CreateExcl name) (ret name))"

text \<open>The bytes of a node, as they are written to the temporary file and to the hasher.\<close>

definition fetch_content :: "'s Server \<Rightarrow> string \<Rightarrow> ('s client, string) m" where
  "fetch_content srv nid =
     bindM (remoteM (srv_Manifest srv nid)) (\<lambda>man.
     if am_Kind man = ''chunked'' then
       foldM (\<lambda>sink ce.
         bindM (remoteM (srv_GetChunk srv (mfc_Hash ce))) (\<lambda>plain.
         thenM (ioM EIO) (ret (sink @ plain)))) [] (am_Chunks man)
     else
       bindM (remoteM (srv_Download srv nid)) (\<lambda>rc.
       thenM (ioM EIO)
       (thenM (guardM (\<not> snd rc) copy_err)
       (ret (fst rc)))))"

definition downloadFile :: "engine \<Rightarrow> 's Server \<Rightarrow> ext \<Rightarrow> Node \<Rightarrow> string \<Rightarrow> ('s client, string \<times> int \<times> int) m" where
  "downloadFile eng srv x node p =
     (let dest = localPath eng p in
      thenM (os_MkdirAll (path_Dir dest))
      (bindM (tempFile eng) (\<lambda>tmpName.
       catchM
         (bindM (fetch_content srv (an_ID node)) (\<lambda>content.
          thenM (os_WriteFile tmpName content)
          (thenM (os_Rename tmpName dest)
          (bindM (os_Stat dest) (\<lambda>info.
           ret (hex_hash x content, info_Size info, info_ModTime info))))))
         (\<lambda>err. thenM (catchM (os_Remove tmpName) (\<lambda>e. ret ())) (raise err)))))"

section \<open>Pull\<close>

definition pullDown :: "engine \<Rightarrow> 's Server \<Rightarrow> ext \<Rightarrow> Node \<Rightarrow> ('s client, unit) m" where
  "pullDown eng srv x node =
     bindM (downloadFile eng srv x node (an_Path node)) (\<lambda>(h, n, t).
     thenM (countPull n)
     (st_Put \<lparr>se_Path = an_Path node, se_NodeID = an_ID node, se_Kind = ''file'', se_Size = n,
        se_MtimeUnix = t, se_Hash = h, se_RemoteHash = ContentHash node\<rparr>))"

definition folder_entry :: "string \<Rightarrow> string \<Rightarrow> Entry" where
  "folder_entry p nid = \<lparr>se_Path = p, se_NodeID = nid, se_Kind = ''folder'', se_Size = 0, se_MtimeUnix = 0,
     se_Hash = [], se_RemoteHash = []\<rparr>"

definition materializeFolder :: "engine \<Rightarrow> Node \<Rightarrow> ('s client, unit) m" where
  "materializeFolder eng node =
     thenM (os_MkdirAll (localPath eng (an_Path node))) (st_Put (folder_entry (an_Path node) (an_ID node)))"

definition materializeFile :: "engine \<Rightarrow> 's Server \<Rightarrow> ext \<Rightarrow> Node \<Rightarrow> ('s client, unit) m" where
  "materializeFile eng srv x node =
     bindM (st_Get (an_Path node)) (\<lambda>r.
     bindM (case r of
         Some e \<Rightarrow>
           if se_RemoteHash e = ContentHash node
           then bindM (localStatus eng x e) (\<lambda>(exists, changed). ret (exists \<and> \<not> changed))
           else ret False
       | None \<Rightarrow> ret False) (\<lambda>have_it.
     if have_it then ret () else pullDown eng srv x node))"

definition remove_file :: "engine \<Rightarrow> Entry \<Rightarrow> ('s client, unit) m" where
  "remove_file eng e =
     thenM (catchM (os_Remove (localPath eng (se_Path e))) (\<lambda>err. if IsNotExist err then ret () else raise err))
     (st_Delete (se_Path e))"

definition removeVanished :: "engine \<Rightarrow> ext \<Rightarrow> Entry \<Rightarrow> ('s client, unit) m" where
  "removeVanished eng x e =
     (if se_Kind e = ''folder'' then thenM (os_RemoveAll (localPath eng (se_Path e))) (forgetSubtree (se_Path e))
      else bindM (localStatus eng x e) (\<lambda>(exists, changed).
        if exists \<and> changed then bindM (conflictCopy eng e) (\<lambda>_. ret ())
        else remove_file eng e))"

definition applyDelete :: "engine \<Rightarrow> ext \<Rightarrow> string \<Rightarrow> ('s client, unit) m" where
  "applyDelete eng x nid =
     bindM (GetByNodeID nid) (\<lambda>r. case r of
       None \<Rightarrow> ret ()
     | Some e \<Rightarrow>
         if se_Kind e = ''folder'' then thenM (os_RemoveAll (localPath eng (se_Path e))) (forgetSubtree (se_Path e))
         else bindM (localStatus eng x e) (\<lambda>(exists, changed).
           if exists \<and> changed then bindM (conflictCopy eng e) (\<lambda>_. ret ())
           else remove_file eng e))"

definition moveLocal :: "engine \<Rightarrow> Entry \<Rightarrow> string \<Rightarrow> ('s client, unit) m" where
  "moveLocal eng prev newPath =
     (let dst = localPath eng newPath in
      thenM (os_MkdirAll (path_Dir dst))
      (thenM (catchM (os_Rename (localPath eng (se_Path prev)) dst) (\<lambda>err. if IsNotExist err then ret () else raise err))
      (thenM (st_Delete (se_Path prev))
      (st_Put (prev\<lparr>se_Path := newPath\<rparr>)))))"

definition applyFileUpsert :: "engine \<Rightarrow> 's Server \<Rightarrow> ext \<Rightarrow> Node \<Rightarrow> ('s client, unit) m" where
  "applyFileUpsert eng srv x node =
     bindM (st_Get (an_Path node)) (\<lambda>r. case r of
       None \<Rightarrow> pullDown eng srv x node
     | Some e \<Rightarrow>
         bindM (localStatus eng x e) (\<lambda>(exists, changed).
         if se_RemoteHash e = ContentHash node then (if \<not> exists then pullDown eng srv x node else ret ())
         else
           thenM (if exists \<and> changed then bindM (conflictCopy eng e) (\<lambda>_. ret ()) else ret ())
           (pullDown eng srv x node)))"

definition applyChange :: "engine \<Rightarrow> 's Server \<Rightarrow> ext \<Rightarrow> Change \<Rightarrow> ('s client, unit) m" where
  "applyChange eng srv x ch =
     (if ac_Kind ch = ''delete'' then applyDelete eng x (ac_NodeID ch)
      else case ac_Node ch of
        None \<Rightarrow> ret ()
      | Some node \<Rightarrow>
          bindM (getM (\<lambda>s. excluded s (an_Path node) \<or> ignored s (an_Path node) (api_IsFolder node))) (\<lambda>skip.
          if skip then ret ()
          else
            bindM (GetByNodeID (an_ID node)) (\<lambda>r.
            thenM (case r of
                Some prev \<Rightarrow> if se_Path prev \<noteq> an_Path node then moveLocal eng prev (an_Path node) else ret ()
              | None \<Rightarrow> ret ())
            (if api_IsFolder node then materializeFolder eng node else applyFileUpsert eng srv x node))))"

text \<open>One listed child; the state is the queue and the paths seen.\<close>

definition reconcile_child ::
  "engine \<Rightarrow> 's Server \<Rightarrow> ext \<Rightarrow> string list \<times> string list \<Rightarrow> Node \<Rightarrow> ('s client, string list \<times> string list) m" where
  "reconcile_child eng srv x st node =
     (case st of (queue, seen) \<Rightarrow>
      bindM (getM (\<lambda>s. excluded s (an_Path node) \<or> ignored s (an_Path node) (api_IsFolder node))) (\<lambda>skip.
      if skip then ret (queue, seen)
      else if api_IsFolder node then
        thenM (materializeFolder eng node) (ret (queue @ [an_ID node], an_Path node # seen))
      else thenM (materializeFile eng srv x node) (ret (queue, an_Path node # seen))))"

fun reconcile_queue ::
  "engine \<Rightarrow> 's Server \<Rightarrow> ext \<Rightarrow> nat \<Rightarrow> string list \<times> string list \<Rightarrow> ('s client, string list) m" where
  "reconcile_queue eng srv x k ([], seen) = ret seen"
| "reconcile_queue eng srv x 0 (q # queue, seen) = raise out_of_fuel"
| "reconcile_queue eng srv x (Suc k) (q # queue, seen) =
     bindM (remoteM (srv_ListChildren srv q)) (\<lambda>children.
     bindM (foldM (reconcile_child eng srv x) (queue, seen) children) (\<lambda>st.
     reconcile_queue eng srv x k st))"

definition reconcileTree :: "engine \<Rightarrow> 's Server \<Rightarrow> ext \<Rightarrow> nat \<Rightarrow> ('s client, unit) m" where
  "reconcileTree eng srv x k =
     bindM (getM cl_rootID) (\<lambda>rid.
     bindM (reconcile_queue eng srv x k ([rid], [''/''])) (\<lambda>seen.
     bindM st_List (\<lambda>es.
     foldM (\<lambda>_ e.
       bindM (getM (\<lambda>s. se_Path e \<in> set seen \<or> excluded s (se_Path e) \<or> ignored s (se_Path e) (se_Kind e = ''folder''))) (\<lambda>skip.
       if skip then ret () else removeVanished eng x e)) () es)))"

definition changePageLimit :: nat where "changePageLimit = 500"

fun poll_loop :: "engine \<Rightarrow> 's Server \<Rightarrow> ext \<Rightarrow> nat \<Rightarrow> nat \<Rightarrow> int \<Rightarrow> ('s client, unit) m" where
  "poll_loop eng srv x k 0 cursor = raise out_of_fuel"
| "poll_loop eng srv x k (Suc j) cursor =
     bindM (remoteM (srv_Poll srv cursor changePageLimit)) (\<lambda>resp.
     if pg_Reset resp then thenM (reconcileTree eng srv x k) (SetCursor (pg_Latest resp))
     else
       thenM (foldM (\<lambda>_. applyChange eng srv x) () (pg_Changes resp))
       (thenM (SetCursor (pg_Cursor resp))
       (if \<not> pg_HasMore resp then ret () else poll_loop eng srv x k j (pg_Cursor resp))))"

definition applyRemote :: "engine \<Rightarrow> 's Server \<Rightarrow> ext \<Rightarrow> nat \<Rightarrow> ('s client, unit) m" where
  "applyRemote eng srv x k = bindM st_Cursor (poll_loop eng srv x k k)"

definition latestSeq :: "'s Server \<Rightarrow> ('s client, int) m" where
  "latestSeq srv = bindM (remoteM (srv_Poll srv 0 1)) (\<lambda>resp. ret (pg_Latest resp))"

definition pull :: "engine \<Rightarrow> 's Server \<Rightarrow> ext \<Rightarrow> nat \<Rightarrow> ('s client, unit) m" where
  "pull eng srv x k =
     bindM st_Empty (\<lambda>empty.
     if empty then
       bindM (latestSeq srv) (\<lambda>latest.
       thenM (reconcileTree eng srv x k) (SetCursor latest))
     else applyRemote eng srv x k)"

section \<open>Push\<close>

definition missingParent :: "string \<Rightarrow> goerr" where
  "missingParent p = Msg (''no recorded parent folder for '' @ p)"

definition parentNodeID :: "string \<Rightarrow> ('s client, string) m" where
  "parentNodeID p =
     (if parentPath p = ''/'' then getM cl_rootID
      else bindM (st_Get (parentPath p)) (\<lambda>r. case r of
        None \<Rightarrow> raise (missingParent (parentPath p))
      | Some e \<Rightarrow> ret (se_NodeID e)))"

definition adoptExistingFolder :: "'s Server \<Rightarrow> string \<Rightarrow> string \<Rightarrow> ('s client, unit) m" where
  "adoptExistingFolder srv p parentID =
     bindM (remoteM (srv_ListChildren srv parentID)) (\<lambda>children.
     case find (\<lambda>c. an_Name c = baseName p \<and> an_Kind c = ''folder'') children of
       Some c \<Rightarrow> st_Put (folder_entry p (an_ID c))
     | None \<Rightarrow> ret ())"

definition pushFolder :: "'s Server \<Rightarrow> string \<Rightarrow> ('s client, unit) m" where
  "pushFolder srv p =
     bindM (st_Get p) (\<lambda>r.
     if r \<noteq> None then ret ()
     else
       bindM (parentNodeID p) (\<lambda>parentID.
       bindM (tryM (remoteM (srv_CreateFolder srv parentID (baseName p)))) (\<lambda>q. case q of
         Inl err \<Rightarrow>
           if IsConflict err then adoptExistingFolder srv p parentID
           else if IsNotFound err then ret ()
           else raise err
       | Inr node \<Rightarrow> st_Put (folder_entry p (an_ID node)))))"

definition pushFile :: "engine \<Rightarrow> 's Server \<Rightarrow> ext \<Rightarrow> string \<Rightarrow> ('s client, unit) m" where
  "pushFile eng srv x p =
     bindM (st_Get p) (\<lambda>r.
     bindM (case r of
         None \<Rightarrow> ret True
       | Some e \<Rightarrow> bindM (localStatus eng x e) (\<lambda>(exists, changed). ret (exists \<and> changed))) (\<lambda>send.
     if \<not> send then ret ()
     else
       bindM (parentNodeID p) (\<lambda>parentID.
       bindM (uploadFile eng srv x p parentID) (\<lambda>(node, localHash).
       bindM (os_Stat (localPath eng p)) (\<lambda>info.
       thenM (countPush (info_Size info))
       (st_Put \<lparr>se_Path = p, se_NodeID = an_ID node, se_Kind = ''file'', se_Size = info_Size info,
          se_MtimeUnix = info_ModTime info, se_Hash = localHash, se_RemoteHash = ContentHash node\<rparr>))))))"

text \<open>
  The callback of \<open>WalkDir\<close> for one path; the state is the set of server paths seen and the directories
  skipped with \<open>SkipDir\<close>.  A directory is read after its own callback, and that may fail.
\<close>

definition push_visit ::
  "engine \<Rightarrow> 's Server \<Rightarrow> ext \<Rightarrow> string list \<times> string list \<Rightarrow> string \<Rightarrow> ('s client, string list \<times> string list) m" where
  "push_visit eng srv x st full =
     (case st of (seen, skipped) \<Rightarrow>
      if list_ex (isUnder full) skipped then ret st
      else if full = eg_stateDir eng then ret (seen, full # skipped)
      else case serverPath eng full of
        None \<Rightarrow> ret st
      | Some p \<Rightarrow>
          bindM (getM (\<lambda>s. lookup s full)) (\<lambda>n.
          if p = ''/'' then thenM (ioM EIO) (ret st)
          else
            bindM (getM (\<lambda>s. excluded s p \<or> ignored s p (n = Some LDir))) (\<lambda>skip.
            if skip then ret (seen, (if n = Some LDir then full # skipped else skipped))
            else case n of
              Some LDir \<Rightarrow> thenM (pushFolder srv p) (thenM (ioM EIO) (ret (p # seen, skipped)))
            | Some (LFile c t) \<Rightarrow> thenM (pushFile eng srv x p) (ret (p # seen, skipped))
            | _ \<Rightarrow> ret (removeAll p seen, skipped))))"

definition pushExisting :: "engine \<Rightarrow> 's Server \<Rightarrow> ext \<Rightarrow> ('s client, string list) m" where
  "pushExisting eng srv x =
     thenM (ioM EIO)
     (bindM (getM (\<lambda>s. paths_below s (eg_root eng))) (\<lambda>ps.
     bindM (foldM (push_visit eng srv x) ([''/''], []) ps) (\<lambda>(seen, skipped). ret seen)))"

definition pushDeletions :: "'s Server \<Rightarrow> string list \<Rightarrow> ('s client, unit) m" where
  "pushDeletions srv seen =
     bindM st_List (\<lambda>es.
     foldM (\<lambda>_ e.
       bindM (getM (\<lambda>s. se_Path e \<in> set seen \<or> excluded s (se_Path e) \<or> ignored s (se_Path e) (se_Kind e = ''folder''))) (\<lambda>skip.
       if skip then ret ()
       else
         thenM (catchM (remoteM (srv_Trash srv (se_NodeID e))) (\<lambda>err. if IsNotFound err then ret () else raise err))
         (st_Delete (se_Path e)))) () es)"

definition push :: "engine \<Rightarrow> 's Server \<Rightarrow> ext \<Rightarrow> ('s client, unit) m" where
  "push eng srv x = bindM (pushExisting eng srv x) (pushDeletions srv)"

section \<open>One reconciliation\<close>

definition ensureRoot :: "engine \<Rightarrow> 's Server \<Rightarrow> ('s client, unit) m" where
  "ensureRoot eng srv =
     thenM (os_MkdirAll (eg_root eng))
     (thenM (os_MkdirAll (eg_stateDir eng))
     (thenM (loadIgnore eng)
     (bindM (remoteM (srv_GetRoot srv)) (\<lambda>root.
      modM (\<lambda>s. s\<lparr>cl_rootID := an_ID root\<rparr>)))))"

definition Sync :: "engine \<Rightarrow> 's Server \<Rightarrow> ext \<Rightarrow> nat \<Rightarrow> ('s client, unit) m" where
  "Sync eng srv x k =
     thenM (ensureRoot eng srv)
     (thenM (pruneExcluded eng x)
     (thenM (pull eng srv x k)
     (push eng srv x)))"

definition pullSafe :: "engine \<Rightarrow> 's Server \<Rightarrow> ext \<Rightarrow> nat \<Rightarrow> ('s client, unit) m" where
  "pullSafe eng srv x k = thenM (ensureRoot eng srv) (pull eng srv x k)"

definition pushSafe :: "engine \<Rightarrow> 's Server \<Rightarrow> ext \<Rightarrow> ('s client, unit) m" where
  "pushSafe eng srv x = thenM (ensureRoot eng srv) (push eng srv x)"

definition syncTracked :: "engine \<Rightarrow> 's Server \<Rightarrow> ext \<Rightarrow> nat \<Rightarrow> ('s client, unit) m" where
  "syncTracked eng srv x k = thenM (setPhase PhaseSyncing) (recordResult (Sync eng srv x k))"

definition pullTracked :: "engine \<Rightarrow> 's Server \<Rightarrow> ext \<Rightarrow> nat \<Rightarrow> ('s client, unit) m" where
  "pullTracked eng srv x k = thenM (setPhase PhaseSyncing) (recordResult (pullSafe eng srv x k))"

definition pushTracked :: "engine \<Rightarrow> 's Server \<Rightarrow> ext \<Rightarrow> ('s client, unit) m" where
  "pushTracked eng srv x = thenM (setPhase PhaseSyncing) (recordResult (pushSafe eng srv x))"

text \<open>
  One turn of the daemon's \<open>select\<close>: what woke it, and whether the debounce timer is running afterwards.
  An error is logged and the loop goes on.
\<close>

datatype wake = WakeSyncNow | WakePoll | WakeRescan | WakeEvent string | WakeDebounce

definition log_error :: "('s client, unit) m \<Rightarrow> ('s client, unit) m" where
  "log_error c = catchM c (\<lambda>e. ret ())"

definition run_wake :: "engine \<Rightarrow> 's Server \<Rightarrow> ext \<Rightarrow> nat \<Rightarrow> bool \<Rightarrow> wake \<Rightarrow> ('s client, bool) m" where
  "run_wake eng srv x k timer w =
     bindM (getM cl_paused) (\<lambda>paused.
     case w of
       WakeSyncNow \<Rightarrow>
         thenM (modM (\<lambda>s. s\<lparr>cl_syncNow := False\<rparr>)) (thenM (log_error (syncTracked eng srv x k)) (ret timer))
     | WakePoll \<Rightarrow> if paused then ret timer else thenM (log_error (pullTracked eng srv x k)) (ret timer)
     | WakeRescan \<Rightarrow> if paused then ret timer else thenM (log_error (syncTracked eng srv x k)) (ret timer)
     | WakeEvent name \<Rightarrow> if HasPrefix name (eg_stateDir eng) \<or> paused then ret timer else ret True
     | WakeDebounce \<Rightarrow> if paused then ret False else thenM (log_error (pushTracked eng srv x)) (ret False))"

end
