(* ===== verification/DevicePaths.thy ===== *)
theory DevicePaths
  imports Engine
begin

text \<open>
  Clean absolute paths as lists of elements, and what the path functions of the engine do to them: on clean
  paths \<open>localPath\<close> and \<open>serverPath\<close> are inverse to each other and stay below the root.
\<close>

section \<open>Clean paths\<close>

definition good_seg :: "string \<Rightarrow> bool" where
  "good_seg w \<longleftrightarrow> w \<noteq> [] \<and> w \<noteq> ''.'' \<and> w \<noteq> ''..'' \<and> CHR ''/'' \<notin> set w"

definition abs_path :: "string list \<Rightarrow> string" where
  "abs_path ws = CHR ''/'' # JoinByte ws (CHR ''/'')"

definition good_path :: "string \<Rightarrow> bool" where
  "good_path p \<longleftrightarrow> (\<exists>ws. list_all good_seg ws \<and> p = abs_path ws)"

lemma JoinByte_Cons: "ws \<noteq> [] \<Longrightarrow> JoinByte (w # ws) c = w @ c # JoinByte ws c"
  by (cases ws) auto

lemma SplitByte_Join: "ws \<noteq> [] \<Longrightarrow> list_all (\<lambda>w. c \<notin> set w) ws \<Longrightarrow> SplitByte (JoinByte ws c) c = ws"
proof (induction ws)
  case (Cons w ws)
  then show ?case by (cases "ws = []") (simp_all add: SplitByte_none SplitByte_append JoinByte_Cons)
qed simp

lemma good_segs_no_sep: "list_all good_seg ws \<Longrightarrow> list_all (\<lambda>w. CHR ''/'' \<notin> set w) ws"
  by (auto simp: list_all_iff good_seg_def)

lemma Split_abs: "list_all good_seg ws \<Longrightarrow> SplitByte (abs_path ws) (CHR ''/'') = [] # (if ws = [] then [[]] else ws)"
  by (simp add: abs_path_def SplitByte_Join good_segs_no_sep)

lemma abs_path_inj: "list_all good_seg vs \<Longrightarrow> list_all good_seg ws \<Longrightarrow> abs_path vs = abs_path ws \<longleftrightarrow> vs = ws"
proof
  assume g: "list_all good_seg vs" "list_all good_seg ws" and eq: "abs_path vs = abs_path ws"
  then have "(if vs = [] then [[]] else vs) = (if ws = [] then [[]] else ws)"
    using Split_abs [OF g(1)] Split_abs [OF g(2)] by simp
  with g show "vs = ws" by (auto simp: good_seg_def split: if_splits)
qed simp

lemma clean_elems_good: "list_all good_seg ws \<Longrightarrow> clean_elems r acc ws = rev acc @ ws"
  by (induction ws arbitrary: acc) (auto simp: good_seg_def)

lemma clean_abs: "list_all good_seg ws \<Longrightarrow> path_Clean (abs_path ws) = abs_path ws"
  by (simp add: path_Clean_def Split_abs clean_elems_good) (simp add: abs_path_def)

definition flat :: "string list \<Rightarrow> string" where
  "flat ws = concat (map (\<lambda>w. CHR ''/'' # w) ws)"

lemma flat_simps [simp]: "flat [] = []" "flat (w # ws) = CHR ''/'' # w @ flat ws" "flat (vs @ ws) = flat vs @ flat ws"
  by (simp_all add: flat_def)

lemma abs_flat: "abs_path ws = (if ws = [] then ''/'' else flat ws)"
proof (induction ws)
  case (Cons w ws)
  then show ?case by (cases ws) (auto simp: abs_path_def)
qed (simp add: abs_path_def)

lemma path_elems_abs: "list_all good_seg ws \<Longrightarrow> path_elems (abs_path ws) = ws"
proof -
  assume g: "list_all good_seg ws"
  then have "filter (\<lambda>w. w \<noteq> []) ws = ws" by (auto simp: filter_id_conv list_all_iff good_seg_def)
  with g show ?thesis by (simp add: path_elems_def clean_abs Split_abs)
qed

lemma rel_elems_prefix: "rel_elems bs (bs @ ws) = ws"
  by (induction bs) auto

lemma flat_head: "flat ws = [] \<or> hd (flat ws) = CHR ''/''"
  by (cases ws) auto

lemma takeWhile_seg: "CHR ''/'' \<notin> set w \<Longrightarrow> r = [] \<or> hd r = CHR ''/'' \<Longrightarrow> takeWhile (\<lambda>c. c \<noteq> CHR ''/'') (w @ r) = w"
  by (induction w) (cases r; auto)+

lemma prefix_flat:
  "list_all good_seg vs \<Longrightarrow> list_all good_seg ws \<Longrightarrow> prefix (flat vs @ ''/'') (flat ws) \<Longrightarrow> prefix vs ws"
proof (induction vs arbitrary: ws)
  case (Cons v vs)
  then obtain w ws' where ws: "ws = w # ws'" by (cases ws) auto
  from Cons.prems(3) obtain z where z: "v @ flat vs @ ''/'' @ z = w @ flat ws'" by (auto simp: ws prefix_def)
  have "flat vs @ ''/'' @ z = [] \<or> hd (flat vs @ ''/'' @ z) = CHR ''/''" using flat_head [of vs] by (cases "flat vs") auto
  with Cons.prems(1) have "takeWhile (\<lambda>c. c \<noteq> CHR ''/'') (v @ flat vs @ ''/'' @ z) = v"
    by (intro takeWhile_seg) (auto simp: good_seg_def)
  moreover have "takeWhile (\<lambda>c. c \<noteq> CHR ''/'') (w @ flat ws') = w"
    using Cons.prems(2) flat_head [of ws'] ws by (intro takeWhile_seg) (auto simp: good_seg_def)
  ultimately have "v = w" using z by simp
  with z have "flat ws' = (flat vs @ ''/'') @ z" by simp
  then have "prefix (flat vs @ ''/'') (flat ws')" by (rule prefixI)
  with Cons \<open>v = w\<close> ws show ?case by simp
qed simp

lemma isUnder_abs:
  assumes v: "list_all good_seg vs" and w: "list_all good_seg ws"
  shows "isUnder (abs_path ws) (abs_path vs) \<longleftrightarrow> prefix vs ws"
proof (cases "vs = []")
  case True
  then show ?thesis by (simp add: isUnder_def abs_flat)
next
  case False
  then have root: "abs_path vs \<noteq> ''/''" using abs_path_inj [of vs "[]"] v by (simp add: abs_flat)
  show ?thesis
  proof
    assume u: "isUnder (abs_path ws) (abs_path vs)"
    then consider "abs_path ws = abs_path vs" | "prefix (flat vs @ ''/'') (abs_path ws)"
      using root False by (auto simp: isUnder_def abs_flat)
    then show "prefix vs ws"
    proof cases
      case 1
      with abs_path_inj [OF w v] show ?thesis by simp
    next
      case 2
      have "ws \<noteq> []"
      proof
        assume "ws = []"
        with 2 False show False by (cases vs) (auto simp: abs_flat)
      qed
      with 2 prefix_flat [OF v w] show ?thesis by (simp add: abs_flat)
    qed
  next
    assume "prefix vs ws"
    then obtain zs where zs: "ws = vs @ zs" by (auto simp: prefix_def)
    show "isUnder (abs_path ws) (abs_path vs)"
    proof (cases zs)
      case Nil
      with zs show ?thesis by (simp add: isUnder_def)
    next
      case (Cons z zs')
      with zs False show ?thesis by (simp add: isUnder_def abs_flat)
    qed
  qed
qed

lemma after_slash_append: "CHR ''/'' \<notin> set w \<Longrightarrow> after_slash (p @ CHR ''/'' # w) = w"
proof -
  assume "CHR ''/'' \<notin> set w"
  then have "takeWhile (\<lambda>c. c \<noteq> CHR ''/'') (rev w @ CHR ''/'' # rev p) = rev w" by (intro takeWhile_seg) auto
  then show ?thesis by (simp add: after_slash_def)
qed

lemma upto_slash_append: "CHR ''/'' \<notin> set w \<Longrightarrow> upto_slash (p @ CHR ''/'' # w) = p @ ''/''"
proof -
  assume "CHR ''/'' \<notin> set w"
  then have "upto_slash (p @ CHR ''/'' # w) @ w = (p @ ''/'') @ w"
    using upto_after_slash [of "p @ CHR ''/'' # w"] by (simp add: after_slash_append)
  then show ?thesis by (simp only: append_same_eq)
qed

lemma Split_flat: "list_all good_seg ws \<Longrightarrow> SplitByte (flat ws @ ''/'') (CHR ''/'') = [] # ws @ [[]]"
proof (induction ws)
  case (Cons w ws)
  then obtain r where r: "flat ws @ ''/'' = CHR ''/'' # r" by (cases ws) auto
  with Cons have "SplitByte r (CHR ''/'') = ws @ [[]]" by simp
  moreover have "SplitByte (w @ CHR ''/'' # r) (CHR ''/'') = w # SplitByte r (CHR ''/'')"
    using Cons.prems by (intro SplitByte_append) (simp add: good_seg_def)
  ultimately show ?case using r by simp
qed simp

lemma clean_elems_snoc: "list_all good_seg ws \<Longrightarrow> clean_elems r acc (ws @ [[]]) = rev acc @ ws"
  by (induction ws arbitrary: acc) (auto simp: good_seg_def)

lemma parent_abs: "list_all good_seg ws \<Longrightarrow> good_seg w \<Longrightarrow> parentPath (abs_path (ws @ [w])) = abs_path ws"
proof -
  assume g: "list_all good_seg ws" and w: "good_seg w"
  have "upto_slash (abs_path (ws @ [w])) = flat ws @ ''/''"
    using w upto_slash_append [of w "flat ws"] by (simp add: abs_flat good_seg_def)
  moreover have "path_Clean (flat ws @ ''/'') = abs_path ws"
  proof -
    have "prefix ''/'' (flat ws @ ''/'')" by (cases ws) simp_all
    then show ?thesis using g by (simp add: path_Clean_def Split_flat clean_elems_snoc abs_path_def)
  qed
  ultimately show ?thesis by (simp add: parentPath_def path_Dir_def)
qed

lemma base_abs: "list_all good_seg ws \<Longrightarrow> good_seg w \<Longrightarrow> baseName (abs_path (ws @ [w])) = w"
proof -
  assume g: "list_all good_seg ws" and w: "good_seg w"
  then obtain w' c where c: "w = w' @ [c]" "c \<noteq> CHR ''/''"
    by (cases w rule: rev_cases) (auto simp: good_seg_def)
  have a: "abs_path (ws @ [w]) = flat ws @ CHR ''/'' # w" by (simp add: abs_flat)
  then have "TrimRightByte (abs_path (ws @ [w])) (CHR ''/'') = flat ws @ CHR ''/'' # w"
    using c by (simp add: TrimRightByte_def)
  with a w show ?thesis by (simp add: baseName_def path_Base_def after_slash_append good_seg_def)
qed

text \<open>The engine's root and the names it builds.\<close>

definition engine_ok :: "engine \<Rightarrow> bool" where
  "engine_ok eng \<longleftrightarrow> good_path (eg_root eng) \<and> eg_root eng \<noteq> ''/'' \<and> good_path (eg_stateDir eng) \<and>
     CHR ''/'' \<notin> set (eg_hostname eng) \<and> (\<forall>t. CHR ''/'' \<notin> set (eg_date eng t))"

lemma localPath_abs:
  assumes "list_all good_seg rs" and "rs \<noteq> []" and "eg_root eng = abs_path rs" and "list_all good_seg ws"
  shows "localPath eng (abs_path ws) = abs_path (rs @ ws)"
proof (cases "ws = []")
  case True
  then show ?thesis using assms by (simp add: localPath_def abs_flat TrimPrefix_def)
next
  case False
  then obtain w ws' where ws: "ws = w # ws'" by (cases ws) auto
  have rel: "TrimPrefix (abs_path ws) ''/'' = w @ flat ws'" by (simp add: ws abs_flat TrimPrefix_def)
  have "eg_root eng @ ''/'' @ w @ flat ws' = abs_path (rs @ ws)" using assms(2,3) by (simp add: ws abs_flat)
  moreover have "w \<noteq> []" using assms(4) ws by (simp add: good_seg_def)
  ultimately show ?thesis using assms by (simp add: localPath_def rel filepath_Join_def clean_abs)
qed

lemma serverPath_abs:
  assumes "list_all good_seg rs" and "eg_root eng = abs_path rs" and "list_all good_seg ws"
  shows "serverPath eng (abs_path (rs @ ws)) = Some (abs_path ws)"
proof -
  have rel: "filepath_Rel (eg_root eng) (abs_path (rs @ ws)) = (if ws = [] then ''.'' else JoinByte ws (CHR ''/''))"
    using assms by (simp add: filepath_Rel_def path_elems_abs rel_elems_prefix)
  show ?thesis
  proof (cases ws)
    case Nil
    with rel show ?thesis by (simp add: serverPath_def abs_flat)
  next
    case (Cons w ws')
    have flat: "CHR ''/'' # JoinByte ws (CHR ''/'') = flat ws" using Cons abs_flat [of ws] by (simp add: abs_path_def)
    then have j: "JoinByte ws (CHR ''/'') = w @ flat ws'" using Cons by simp
    have w: "good_seg w" using assms(3) Cons by simp
    have "takeWhile (\<lambda>c. c \<noteq> CHR ''/'') (w @ flat ws') = w"
      using w flat_head [of ws'] by (intro takeWhile_seg) (auto simp: good_seg_def)
    then have "\<not> (w @ flat ws' = ''..'' \<or> prefix ''../'' (w @ flat ws') \<or> w @ flat ws' = ''.'')"
      using w by (auto simp: good_seg_def prefix_def)
    with rel j Cons flat show ?thesis by (simp add: serverPath_def abs_path_def)
  qed
qed

lemma ancestors_snoc:
  assumes "p \<noteq> []" and "CHR ''/'' \<notin> set w"
  shows "ancestors (p @ CHR ''/'' # w) = ancestors p @ [p]"
proof -
  let ?q = "p @ CHR ''/'' # w"
  have "[1 ..< length ?q] = [1 ..< length p] @ [length p] @ [Suc (length p) ..< length ?q]"
  proof -
    have "1 \<le> length p" using assms(1) by (cases p) auto
    then have "[1 ..< length p + Suc (length w)] = [1 ..< length p] @ [length p ..< length p + Suc (length w)]"
      by (rule upt_add_eq_append)
    moreover have "[length p ..< length p + Suc (length w)] = length p # [Suc (length p) ..< length p + Suc (length w)]"
      by (rule upt_conv_Cons) simp
    ultimately show ?thesis by (simp only: length_append length_Cons append_Cons append_Nil)
  qed
  moreover have "filter (\<lambda>i. ?q ! i = CHR ''/'') [Suc (length p) ..< length ?q] = []"
  proof -
    have "?q ! i \<noteq> CHR ''/''" if "i \<in> set [Suc (length p) ..< length ?q]" for i
    proof -
      from that have "Suc (length p) \<le> i" "i < length p + Suc (length w)" by auto
      then obtain j where "i = Suc (length p + j)" "j < length w" by (metis add_Suc add_less_cancel_left le_Suc_ex not_less_eq add_Suc_right)
      then have "?q ! i \<in> set w" by (simp add: nth_append)
      with assms(2) show ?thesis by metis
    qed
    then show ?thesis by (simp add: filter_empty_conv)
  qed
  moreover have "filter (\<lambda>i. ?q ! i = CHR ''/'') [1 ..< length p] = filter (\<lambda>i. p ! i = CHR ''/'') [1 ..< length p]"
    by (rule filter_cong) (auto simp: nth_append)
  ultimately show ?thesis by (auto simp: ancestors_def)
qed

lemma ancestors_abs:
  "list_all good_seg ws \<Longrightarrow> good_seg w \<Longrightarrow>
   ancestors (abs_path (ws @ [w])) = (if ws = [] then [] else ancestors (abs_path ws) @ [abs_path ws])"
proof -
  assume g: "list_all good_seg ws" and w: "good_seg w"
  show ?thesis
  proof (cases "ws = []")
    case True
    have "\<not> w ! i = CHR ''/''" if "i < length w" for i using w that by (metis good_seg_def nth_mem)
    then have "filter (\<lambda>i. (CHR ''/'' # w) ! i = CHR ''/'') [1 ..< length (CHR ''/'' # w)] = []"
      by (auto simp: filter_empty_conv nth_Cons')
    then show ?thesis using True by (simp add: ancestors_def abs_flat)
  next
    case False
    then have "abs_path (ws @ [w]) = abs_path ws @ CHR ''/'' # w" by (simp add: abs_flat)
    moreover have "abs_path ws \<noteq> []" by (simp add: abs_path_def)
    ultimately show ?thesis using False ancestors_snoc [of "abs_path ws" w] w by (simp add: good_seg_def)
  qed
qed

lemma ancestors_root: "ancestors ''/'' = []"
  by (simp add: ancestors_def)

lemma set_ancestors_abs:
  "list_all good_seg ws \<Longrightarrow> set (ancestors (abs_path ws)) = abs_path ` {vs. strict_prefix vs ws \<and> vs \<noteq> []}"
proof (induction ws rule: rev_induct)
  case Nil
  then show ?case by (simp add: ancestors_root abs_flat)
next
  case (snoc w ws)
  then have "list_all good_seg ws" "good_seg w" by simp_all
  with snoc.IH show ?case
    by (simp add: ancestors_abs) (auto simp: strict_prefix_def prefix_Cons)
qed

end
