(* ===== verification/DeviceFacts.thy ===== *)
theory DeviceFacts
  imports DevicePaths
begin

text \<open>
  Frame facts about the engine's calls: which of them leave the disk and the state database alone, that a
  download touches only its target, and what a conflict copy does with the file it sets aside.
\<close>

section \<open>What an operation reads and writes\<close>

lemma lookup_put: "lookup (disk_put p n s) q = (if q = p then Some n else lookup s q)"
  by (simp add: lookup_def disk_put_def update_conv')

lemma lookup_del: "lookup (disk_del p s) q = (if q = p then None else lookup s q)"
  by (simp add: lookup_def disk_del_def delete_conv')

lemma lookup_disk: "cl_disk s = cl_disk s' \<Longrightarrow> lookup s = lookup s'"
  by (simp add: lookup_def fun_eq_iff)

text \<open>The part of the state that decides what the engine does locally.\<close>

definition view :: "'s client \<Rightarrow> (string \<times> lnode) list \<times> int \<times> Entry list \<times> string \<times> string list option \<times> Matcher option" where
  "view s = (cl_disk s, cl_now s, cl_synced s, cl_rootID s, cl_excludes s, cl_ignore s)"

definition quiet :: "('s client, 'a) m \<Rightarrow> bool" where
  "quiet c \<longleftrightarrow> (\<forall>v. keeps (\<lambda>s. view s = v) c)"

definition view_only :: "('s client \<Rightarrow> bool) \<Rightarrow> bool" where
  "view_only I \<longleftrightarrow> (\<forall>s s'. view s = view s' \<longrightarrow> I s \<longrightarrow> I s')"

definition disk_only :: "('s client \<Rightarrow> bool) \<Rightarrow> bool" where
  "disk_only I \<longleftrightarrow> (\<forall>s s'. cl_disk s = cl_disk s' \<longrightarrow> cl_now s = cl_now s' \<longrightarrow> I s \<longrightarrow> I s')"

named_theorems quiet_intros

lemma disk_view: "disk_only I \<Longrightarrow> view_only I"
  by (auto simp: disk_only_def view_only_def view_def)

lemma view_fault_free: "view_only I \<Longrightarrow> fault_free I"
  by (auto simp: view_only_def fault_free_def view_def)

lemma quiet_view: "quiet c \<Longrightarrow> view (snd (c s)) = view s"
  unfolding quiet_def keeps_def by blast

lemma keeps_quiet: "quiet c \<Longrightarrow> view_only I \<Longrightarrow> keeps I c"
  unfolding keeps_def view_only_def by (metis quiet_view)

lemma quiet_run: "quiet c \<Longrightarrow> c s = (r, s') \<Longrightarrow> view s' = view s"
  using quiet_view [of c s] by simp

lemma quiet_basic [quiet_intros]: "quiet (ret v)" "quiet (raise e)" "quiet (getM f)" "quiet (ioM e)" "quiet (guardM b e)"
  by (auto simp: quiet_def fault_free_def view_def intro!: keeps_intros)

lemma quiet_bindM [quiet_intros]: "quiet c \<Longrightarrow> (\<And>v. quiet (f v)) \<Longrightarrow> quiet (bindM c f)"
  and quiet_thenM [quiet_intros]: "quiet c \<Longrightarrow> quiet d \<Longrightarrow> quiet (thenM c d)"
  and quiet_catchM [quiet_intros]: "quiet c \<Longrightarrow> (\<And>e. quiet (h e)) \<Longrightarrow> quiet (catchM c h)"
  and quiet_wrapM [quiet_intros]: "quiet c \<Longrightarrow> quiet (wrapM w c)"
  and quiet_tryM [quiet_intros]: "quiet c \<Longrightarrow> quiet (tryM c)"
  by (auto simp: quiet_def intro!: keeps_intros)

lemma quiet_foldM [quiet_intros]: "(\<And>b y. quiet (g b y)) \<Longrightarrow> quiet (foldM g b ys)"
  by (auto simp: quiet_def intro!: keeps_intros)

lemma quiet_cases [quiet_intros]:
  "(b \<Longrightarrow> quiet c) \<Longrightarrow> (\<not> b \<Longrightarrow> quiet d) \<Longrightarrow> quiet (if b then c else d)"
  "(o' = None \<Longrightarrow> quiet c) \<Longrightarrow> (\<And>y. o' = Some y \<Longrightarrow> quiet (d' y)) \<Longrightarrow> quiet (case o' of None \<Rightarrow> c | Some y \<Rightarrow> d' y)"
  "(\<And>e. u = Inl e \<Longrightarrow> quiet (f e)) \<Longrightarrow> (\<And>y. u = Inr y \<Longrightarrow> quiet (g y)) \<Longrightarrow> quiet (case u of Inl e \<Rightarrow> f e | Inr y \<Rightarrow> g y)"
  "(\<And>a b. p = (a, b) \<Longrightarrow> quiet (h a b)) \<Longrightarrow> quiet (case p of (a, b) \<Rightarrow> h a b)"
  by (auto split: option.split sum.split prod.split)

lemma quiet_remoteM [quiet_intros]: "quiet (remoteM c)"
  by (auto simp: quiet_def keeps_def remoteM_def view_def split: prod.split)

lemma quiet_stat [quiet_intros]: "quiet (os_Stat p)"
  unfolding os_Stat_def
  by (intro quiet_thenM quiet_basic) (auto simp: quiet_def keeps_def split: option.split)

lemma quiet_read [quiet_intros]: "quiet (os_ReadFile p)"
  by (auto simp: os_ReadFile_def split: lnode.split intro!: quiet_intros)

lemma quiet_reads [quiet_intros]: "quiet (st_Get p)" "quiet (GetByNodeID p)" "quiet st_List" "quiet st_Count" "quiet st_Empty" "quiet st_Cursor"
  by (auto simp: st_Get_def GetByNodeID_def st_List_def st_Count_def st_Empty_def st_Cursor_def intro!: quiet_intros)

lemma quiet_modM: "(\<And>s. view (f s) = view s) \<Longrightarrow> quiet (modM f)"
  by (auto simp: quiet_def intro!: keeps_intros)

lemma quiet_counts [quiet_intros]: "quiet (countPull n)" "quiet (countPush n)" "quiet (recordConflict a b)" "quiet (setPhase ph)" "quiet (SetCursor k)"
  by (auto simp: countPull_def countPush_def recordConflict_def setPhase_def SetCursor_def view_def Let_def intro!: quiet_intros quiet_modM)

lemma quiet_localStatus [quiet_intros]: "quiet (localStatus eng x e)"
  by (auto simp: localStatus_def hashFile_def intro!: quiet_intros)

lemma quiet_fetch [quiet_intros]: "quiet (fetch_content srv nid)"
  by (auto simp: fetch_content_def intro!: quiet_intros)

lemma quiet_free_name [quiet_intros]: "quiet (free_name eng p k n)"
proof (induction k arbitrary: n)
  case (Suc k)
  show ?case
    unfolding free_name.simps
    apply (rule quiet_bindM, rule quiet_basic)
    apply (rule quiet_bindM, rule quiet_tryM, rule quiet_stat)
    apply (rule quiet_cases(3))
     apply (rule quiet_cases(1); rule quiet_basic)
    apply (rule Suc.IH)
    done
qed (simp add: quiet_basic)

text \<open>Writing the state database leaves the disk alone.\<close>

lemma keeps_disk_modM: "disk_only I \<Longrightarrow> (\<And>s. cl_disk (f s) = cl_disk s \<and> cl_now (f s) = cl_now s) \<Longrightarrow> keeps I (thenM (ioM e) (modM f))"
proof -
  assume d: "disk_only I" and f: "\<And>s. cl_disk (f s) = cl_disk s \<and> cl_now (f s) = cl_now s"
  have "I (f s)" if "I s" for s using d that f [of s] unfolding disk_only_def by metis
  then show ?thesis by (intro keeps_thenM keeps_ioM keeps_modM view_fault_free disk_view d)
qed

lemma keeps_db: "disk_only I \<Longrightarrow> keeps I (st_Put e)" "disk_only I \<Longrightarrow> keeps I (st_Delete p)"
  by (simp_all add: st_Put_def st_Delete_def keeps_disk_modM)

text \<open>The node at \<open>q\<close> stays what it is; the clock stands still during a call.\<close>

definition holds :: "int \<Rightarrow> string \<Rightarrow> lnode \<Rightarrow> 's client \<Rightarrow> bool" where
  "holds T q n s \<longleftrightarrow> lookup s q = Some n \<and> cl_now s = T"

lemma now_put [simp]: "cl_now (disk_put p n s) = cl_now s" "cl_now (disk_del p s) = cl_now s" "cl_now (disk_move p d s) = cl_now s"
  by (simp_all add: disk_put_def disk_del_def disk_move_def)

lemma disk_only_holds [simp]: "disk_only (holds T q n)"
  by (auto simp: disk_only_def holds_def lookup_def)

lemmas view_only_holds [simp] = disk_view [OF disk_only_holds]
lemmas fault_free_holds [simp] = view_fault_free [OF view_only_holds]

lemma holds_mkdir: "keeps (holds T q n) (os_Mkdir p)"
  unfolding os_Mkdir_def
  by (intro keeps_thenM keeps_ioM) (auto simp: keeps_def holds_def lookup_put split: option.split lnode.split)

lemma holds_mkdirall: "keeps (holds T q n) (os_MkdirAll p)"
  by (auto simp: os_MkdirAll_def intro: keeps_foldM holds_mkdir)

lemma holds_remove: "p \<noteq> q \<Longrightarrow> keeps (holds T q n) (os_Remove p)"
  unfolding os_Remove_def
  by (intro keeps_thenM keeps_ioM) (auto simp: keeps_def holds_def lookup_del split: option.split lnode.split)

lemma holds_write: "p \<noteq> q \<Longrightarrow> keeps (holds T q n) (os_WriteFile p c)"
  by (auto simp: os_WriteFile_def holds_def lookup_put intro!: keeps_thenM keeps_ioM keeps_modM)

lemma holds_rename:
  "p \<noteq> q \<Longrightarrow> d \<noteq> q \<Longrightarrow> keeps (\<lambda>s. holds T q n s \<and> lookup s p \<noteq> Some LDir) (os_Rename p d)"
  unfolding os_Rename_def
proof (intro keeps_thenM keeps_ioM)
  show "fault_free (\<lambda>s. holds T q n s \<and> lookup s p \<noteq> Some LDir)" by (auto simp: fault_free_def holds_def lookup_def)
qed (auto simp: keeps_def holds_def lookup_put lookup_del split: option.split)

lemma triple_catchM:
  "triple P c Q E' \<Longrightarrow> (\<And>e. triple (E' e) (h e) Q E) \<Longrightarrow> triple P (catchM c h) Q E"
  by (fastforce simp: triple_def catchM_def split: prod.splits sum.splits)

lemma triple_keeps: "keeps I c \<Longrightarrow> triple I c (\<lambda>_. I) (\<lambda>_. I)"
  by (simp add: keeps_triple)

lemma keeps_post: "triple I c (\<lambda>v s. I s \<and> P v) (\<lambda>_. I) \<Longrightarrow> (\<And>v. P v \<Longrightarrow> keeps I (f v)) \<Longrightarrow> keeps I (bindM c f)"
  unfolding keeps_triple by (erule triple_bindM) (auto simp: triple_def)

section \<open>Downloads\<close>

lemma createExcl_new:
  "triple (holds T q n) (os_CreateExcl p) (\<lambda>_ s. (holds T q n s \<and> (\<exists>c t. lookup s p = Some (LFile c t))) \<and> p \<noteq> q) (\<lambda>_. holds T q n)"
  unfolding os_CreateExcl_def
  by (rule triple_thenM [OF triple_ioM [where Q = "\<lambda>_. holds T q n"]]) (auto simp: triple_def holds_def lookup_put)

lemma tempFile_new:
  "triple (holds T q n) (tempFile eng) (\<lambda>name s. (holds T q n s \<and> (\<exists>c t. lookup s name = Some (LFile c t))) \<and> name \<noteq> q) (\<lambda>_. holds T q n)"
  unfolding tempFile_def
proof (rule triple_bindM [where R = "\<lambda>_. holds T q n"], goal_cases)
  case 1
  show ?case by (auto simp: triple_def holds_def lookup_def split: list.split)
next
  case (2 name)
  show ?case by (rule triple_thenM [OF createExcl_new]) (auto simp: triple_def ret_def)
qed

lemma download_holds:
  fixes srv :: "'s Server"
  assumes dest: "localPath eng p \<noteq> q"
  shows "keeps (holds T q n) (downloadFile eng srv x node p)"
proof -
  define P where "P = (\<lambda>name (s :: 's client). holds T q n s \<and> (\<exists>c t. lookup s name = Some (LFile c t)))"
  have vP: "view_only (P name)" for name by (auto simp: P_def view_only_def view_def holds_def lookup_def)
  have body: "triple (P name)
      (bindM (fetch_content srv (an_ID node)) (\<lambda>content.
       thenM (os_WriteFile name content)
       (thenM (os_Rename name (localPath eng p))
       (bindM (os_Stat (localPath eng p)) (\<lambda>info. ret (hex_hash x content, info_Size info, info_ModTime info))))))
      (\<lambda>_. holds T q n) (\<lambda>_. holds T q n)" if name: "name \<noteq> q" for name
  proof (rule triple_bindM [where R = "\<lambda>_. P name"])
    show "triple (P name) (fetch_content srv (an_ID node)) (\<lambda>_. P name) (\<lambda>_. holds T q n)"
      by (rule triple_conseq [OF triple_keeps [OF keeps_quiet [OF quiet_fetch vP]]]) (auto simp: P_def)
  next
    fix content
    have "keeps (P name) (os_WriteFile name content)"
      using name vP [of name] by (auto simp: os_WriteFile_def P_def holds_def lookup_put intro!: keeps_thenM keeps_ioM keeps_modM view_fault_free)
    then have w: "triple (P name) (os_WriteFile name content) (\<lambda>_. P name) (\<lambda>_. holds T q n)"
      by (rule triple_conseq [OF triple_keeps]) (auto simp: P_def)
    have r: "triple (P name) (os_Rename name (localPath eng p)) (\<lambda>_. holds T q n) (\<lambda>_. holds T q n)"
      by (rule triple_conseq [OF triple_keeps [OF holds_rename [OF name dest]]]) (auto simp: P_def)
    have st: "triple (holds T q n) (bindM (os_Stat (localPath eng p)) (\<lambda>info. ret (hex_hash x content, info_Size info, info_ModTime info)))
        (\<lambda>_. holds T q n) (\<lambda>_. holds T q n)"
      by (intro triple_keeps keeps_quiet quiet_intros view_only_holds)
    show "triple (P name) (thenM (os_WriteFile name content)
       (thenM (os_Rename name (localPath eng p))
       (bindM (os_Stat (localPath eng p)) (\<lambda>info. ret (hex_hash x content, info_Size info, info_ModTime info)))))
      (\<lambda>_. holds T q n) (\<lambda>_. holds T q n)"
      by (rule triple_thenM [OF w triple_thenM [OF r st]])
  qed
  have clean: "triple (holds T q n) (thenM (catchM (os_Remove name) (\<lambda>e. ret ())) (raise err)) (\<lambda>_. holds T q n) (\<lambda>_. holds T q n)"
    if "name \<noteq> q" for name err
    using that by (intro triple_keeps keeps_thenM keeps_catchM holds_remove keeps_ret keeps_raise) auto
  have "triple (holds T q n) (downloadFile eng srv x node p) (\<lambda>_. holds T q n) (\<lambda>_. holds T q n)"
    unfolding downloadFile_def Let_def
  proof (rule triple_thenM [OF triple_keeps [OF holds_mkdirall] triple_bindM [OF tempFile_new]])
    fix name
    show "triple (\<lambda>s. (holds T q n s \<and> (\<exists>c t. lookup s name = Some (LFile c t))) \<and> name \<noteq> q)
     (catchM
       (bindM (fetch_content srv (an_ID node))
         (\<lambda>content.
             thenM (os_WriteFile name content)
              (thenM (os_Rename name (localPath eng p))
                (bindM (os_Stat (localPath eng p)) (\<lambda>info. ret (hex_hash x content, info_Size info, info_ModTime info))))))
       (\<lambda>err. thenM (catchM (os_Remove name) (\<lambda>e. ret ())) (raise err)))
     (\<lambda>_. holds T q n) (\<lambda>_. holds T q n)"
    proof (cases "name = q")
      case False
      from triple_catchM [OF body [OF False] clean [OF False]] show ?thesis
        by (rule triple_conseq) (auto simp: P_def)
    qed (simp add: triple_def)
  qed
  then show ?thesis by (simp add: keeps_triple)
qed

lemma pullDown_holds:
  "localPath eng (an_Path node) \<noteq> q \<Longrightarrow> keeps (holds T q n) (pullDown eng srv x node)"
  unfolding pullDown_def
  by (intro keeps_bindM download_holds keeps_case_prod keeps_thenM keeps_quiet [OF quiet_counts(1)] keeps_db) auto

section \<open>Conflict copies\<close>

lemma foldM_append: "foldM f b (xs @ ys) = bindM (foldM f b xs) (\<lambda>b'. foldM f b' ys)"
  by (induction xs arbitrary: b) (auto simp: fun_eq_iff bindM_def ret_def split: prod.split sum.split)

lemma mkdirall_dir: "os_MkdirAll p s = (Inr u, s') \<Longrightarrow> lookup s' p = Some LDir"
proof -
  assume "os_MkdirAll p s = (Inr u, s')"
  then obtain t v where "os_Mkdir p t = (Inr v, s')"
    by (auto simp: os_MkdirAll_def foldM_append ret_iff elim!: bindM_cases)
  then show ?thesis
    by (auto simp: os_Mkdir_def lookup_put elim!: thenM_cases split: option.splits lnode.splits)
qed

text \<open>A conflict name is free when it is chosen.\<close>

lemma stat_missing: "os_Stat p s = (Inl e, s') \<Longrightarrow> IsNotExist e \<Longrightarrow> lookup s' p = None"
  by (auto simp: os_Stat_def ioM_def thenM_def bindM_def IsNotExist_def ENOENT_def EIO_def lookup_def
      split: option.splits list.splits if_splits)

lemma free_name_free:
  "free_name eng p k n s = (Inr d, s') \<Longrightarrow>
   lookup s' (localPath eng d) = None \<and> (\<exists>m. d = conflictServerPath eng (cl_now s) p m)"
proof (induction k arbitrary: n s)
  case (Suc k)
  let ?c = "conflictServerPath eng (cl_now s) p n"
  from Suc.prems obtain q t where q: "os_Stat (localPath eng ?c) s = (q, t)"
    and go: "(case q of Inl e \<Rightarrow> if IsNotExist e then ret ?c else raise e | Inr _ \<Rightarrow> free_name eng p k (Suc n)) t = (Inr d, s')"
    by (auto simp: bindM_getM elim!: bindM_cases tryM_run)
  have now: "cl_now t = cl_now s" using quiet_run [OF quiet_stat q] by (simp add: view_def)
  show ?case
  proof (cases q)
    case (Inl e)
    with go have "IsNotExist e" "d = ?c" "s' = t" by (auto simp: run_iffs split: if_splits)
    with stat_missing [of "localPath eng ?c" s e t] q Inl show ?thesis by auto
  next
    case (Inr v)
    with go Suc.IH [of "Suc n" t] now show ?thesis by simp
  qed
qed (simp add: raise_iff)

lemma rename_file:
  assumes run: "os_Rename src dst s = (r, s')" and src: "holds T src (LFile c t) s" and ne: "src \<noteq> dst"
    and dir: "lookup s (path_Dir dst) = Some LDir"
  shows "(\<exists>e. r = Inl e \<and> \<not> IsNotExist e \<and> holds T src (LFile c t) s') \<or>
         (r = Inr () \<and> holds T dst (LFile c t) s')"
proof -
  obtain q s1 where io: "ioM EIO s = (q, s1)" by fastforce
  then have s1: "lookup s1 = lookup s" "cl_now s1 = cl_now s" "q = Inr () \<or> q = Inl EIO"
    by (auto simp: ioM_def lookup_def fun_eq_iff split: list.splits if_splits)
  show ?thesis
  proof (cases q)
    case (Inl e)
    with run io s1 src show ?thesis
      by (auto simp: os_Rename_def thenM_def bindM_def holds_def IsNotExist_def EIO_def ENOENT_def)
  next
    case (Inr u)
    with run io s1 src ne dir show ?thesis
      by (auto simp: os_Rename_def thenM_def bindM_def holds_def IsNotExist_def EEXIST_def ENOENT_def lookup_put lookup_del
          split: if_splits)
  qed
qed

lemma conflictCopy_keeps:
  assumes run: "conflictCopy eng e s = (r, s')" and src: "holds T (localPath eng (se_Path e)) (LFile c t) s"
  obtains "holds T (localPath eng (se_Path e)) (LFile c t) s'" "\<exists>err. r = Inl err"
  | m where "holds T (localPath eng (conflictServerPath eng T (se_Path e) m)) (LFile c t) s'"
      "localPath eng (conflictServerPath eng T (se_Path e) m) \<noteq> localPath eng (se_Path e)"
proof -
  let ?src = "localPath eng (se_Path e)"
  from src have T: "cl_now s = T" by (simp add: holds_def)
  from run obtain q1 s1 where f: "free_name eng (se_Path e) (Suc (length (cl_disk s))) 1 s = (q1, s1)"
    and k1: "case q1 of Inl err \<Rightarrow> r = Inl err \<and> s' = s1
       | Inr d \<Rightarrow> (thenM (os_MkdirAll (path_Dir (localPath eng d)))
          (thenM (catchM (os_Rename ?src (localPath eng d)) (\<lambda>err. if IsNotExist err then ret () else raise err))
          (thenM (st_Delete (se_Path e)) (thenM (recordConflict (se_Path e) d) (ret d))))) s1 = (r, s')"
    unfolding conflictCopy_def Let_def bindM_getM by (elim bindM_cases) auto
  have s1: "holds T ?src (LFile c t) s1"
    using keepsD [OF keeps_quiet [OF quiet_free_name view_only_holds] src f] .
  show ?thesis
  proof (cases q1)
    case (Inl err)
    with k1 s1 that(1) show ?thesis by auto
  next
    case (Inr d)
    from free_name_free [OF f [unfolded Inr]] T obtain m
      where d: "lookup s1 (localPath eng d) = None" "d = conflictServerPath eng T (se_Path e) m" by auto
    then have ne: "?src \<noteq> localPath eng d" using s1 by (auto simp: holds_def)
    from k1 Inr have "thenM (os_MkdirAll (path_Dir (localPath eng d)))
          (thenM (catchM (os_Rename ?src (localPath eng d)) (\<lambda>err. if IsNotExist err then ret () else raise err))
          (thenM (st_Delete (se_Path e)) (thenM (recordConflict (se_Path e) d) (ret d)))) s1 = (r, s')" by simp
    then show ?thesis
    proof (cases rule: thenM_cases)
      case (1 err)
      with keepsD [OF holds_mkdirall s1 1(1)] that(1) show ?thesis by auto
    next
      case (2 u s2)
      note s2 = keepsD [OF holds_mkdirall s1 2(1)]
      note dir = mkdirall_dir [OF 2(1)]
      from 2(2) show ?thesis
      proof (cases rule: thenM_cases)
        case (1 err)
        from 1(1) show ?thesis
        proof (rule catchM_run)
          fix e1 s3 assume ren: "os_Rename ?src (localPath eng d) s2 = (Inl e1, s3)"
            and h: "(if IsNotExist e1 then ret () else raise e1) s3 = (Inl err, s')"
          from rename_file [OF ren s2 ne dir] have "holds T ?src (LFile c t) s3" by auto
          with h 1(2) that(1) show ?thesis by (auto simp: run_iffs split: if_splits)
        qed simp
      next
        case (2 u s3)
        from 2(1) have "holds T (localPath eng d) (LFile c t) s3"
        proof (rule catchM_run)
          fix e1 s4 assume ren: "os_Rename ?src (localPath eng d) s2 = (Inl e1, s4)"
            and h: "(if IsNotExist e1 then ret () else raise e1) s4 = (Inr u, s3)"
          from rename_file [OF ren s2 ne dir] h show ?thesis by (auto simp: run_iffs split: if_splits)
        next
          fix v assume "os_Rename ?src (localPath eng d) s2 = (Inr v, s3)"
          from rename_file [OF this s2 ne dir] show ?thesis by auto
        qed
        moreover have "keeps (holds T (localPath eng d) (LFile c t)) (thenM (st_Delete (se_Path e)) (thenM (recordConflict (se_Path e) d) (ret d)))"
          by (intro keeps_thenM keeps_db keeps_quiet [OF quiet_counts(3)] keeps_ret) auto
        ultimately have "holds T (localPath eng d) (LFile c t) s'" using 2(2) by (metis keepsD)
        with d(2) ne that(2) [of m] show ?thesis by metis
      qed
    qed
  qed
qed

lemma conflictCopy_others:
  fixes s :: "'s client"
  assumes q: "q \<noteq> localPath eng (se_Path e)" and run: "conflictCopy eng e s = (r, s')"
    and q0: "holds T q n s" and src: "holds T (localPath eng (se_Path e)) (LFile c t) s"
  shows "holds T q n s'"
proof -
  let ?src = "localPath eng (se_Path e)"
  define P where "P = (\<lambda>s :: 's client. holds T q n s \<and> holds T ?src (LFile c t) s)"
  have vP: "view_only P" by (auto simp: P_def view_only_def view_def holds_def lookup_def)
  have free: "triple P (free_name eng (se_Path e) k m) (\<lambda>d s. P s \<and> localPath eng d \<noteq> q) (\<lambda>_. holds T q n)" for k m
  proof (rule tripleI)
    fix s d s' assume "P s" and run: "free_name eng (se_Path e) k m s = (Inr d, s')"
    then have "P s'" using keepsD [OF keeps_quiet [OF quiet_free_name vP]] by blast
    with free_name_free [OF run] show "P s' \<and> localPath eng d \<noteq> q" by (auto simp: P_def holds_def)
  next
    fix s e' s' assume "P s" "free_name eng (se_Path e) k m s = (Inl e', s')"
    then have "P s'" using keepsD [OF keeps_quiet [OF quiet_free_name vP]] by blast
    then show "holds T q n s'" by (simp add: P_def)
  qed
  have mk: "triple (\<lambda>s. P s \<and> localPath eng d \<noteq> q) (os_MkdirAll p) (\<lambda>_ s. P s \<and> localPath eng d \<noteq> q) (\<lambda>_. holds T q n)" for d p
  proof -
    have "keeps P (os_MkdirAll p)" using holds_mkdirall [of T q n p] holds_mkdirall [of T ?src "LFile c t" p] by (auto simp: P_def keeps_def)
    note mk = keepsD [OF this]
    show ?thesis
    proof (rule tripleI)
      fix s e' s' assume "P s \<and> localPath eng d \<noteq> q" "os_MkdirAll p s = (Inl e', s')"
      then have "P s'" using mk by blast
      then show "holds T q n s'" by (simp add: P_def)
    qed (use mk in blast)
  qed
  have ren: "triple (\<lambda>s. P s \<and> localPath eng d \<noteq> q)
      (catchM (os_Rename ?src (localPath eng d)) (\<lambda>err. if IsNotExist err then ret () else raise err))
      (\<lambda>_. holds T q n) (\<lambda>_. holds T q n)" for d
  proof (cases "localPath eng d = q")
    case False
    have "triple P (os_Rename ?src (localPath eng d)) (\<lambda>_. holds T q n) (\<lambda>_. holds T q n)"
      by (rule triple_conseq [OF triple_keeps [OF holds_rename]]) (use q False in \<open>auto simp: P_def holds_def\<close>)
    then have "triple P (catchM (os_Rename ?src (localPath eng d)) (\<lambda>err. if IsNotExist err then ret () else raise err))
        (\<lambda>_. holds T q n) (\<lambda>_. holds T q n)"
      by (rule triple_catchM) (auto simp: triple_def ret_def raise_def)
    then show ?thesis by (rule triple_conseq) auto
  qed (simp add: triple_def)
  have rest: "keeps (holds T q n) (thenM (st_Delete (se_Path e)) (thenM (recordConflict (se_Path e) d) (ret d)))" for d
    by (intro keeps_thenM keeps_db keeps_quiet [OF quiet_counts(3)] keeps_ret) auto
  have "triple P (conflictCopy eng e) (\<lambda>_. holds T q n) (\<lambda>_. holds T q n)"
    unfolding conflictCopy_def Let_def
  proof (rule triple_bindM)
    show "triple P (getM (\<lambda>s. Suc (length (cl_disk s)))) (\<lambda>_. P) (\<lambda>_. holds T q n)" by (rule triple_getM)
  next
    fix k
    show "triple P (bindM (free_name eng (se_Path e) k 1) (\<lambda>d.
        thenM (os_MkdirAll (path_Dir (localPath eng d)))
        (thenM (catchM (os_Rename ?src (localPath eng d)) (\<lambda>err. if IsNotExist err then ret () else raise err))
        (thenM (st_Delete (se_Path e)) (thenM (recordConflict (se_Path e) d) (ret d)))))) (\<lambda>_. holds T q n) (\<lambda>_. holds T q n)"
      by (rule triple_bindM [OF free triple_thenM [OF mk triple_thenM [OF ren triple_keeps [OF rest]]]])
  qed
  with q0 src run show ?thesis by (cases r) (auto simp: P_def dest: tripleD)
qed

end
