(* ===== verification/EngineEdits.thy ===== *)
theory EngineEdits
  imports DeviceFacts
begin

text \<open>
  What applying a change of the journal does to files that were edited locally: they stay, move with a rename,
  or are set aside under a conflict name.
\<close>

section \<open>A disk that is a tree\<close>

definition wf_disk :: "'s client \<Rightarrow> bool" where
  "wf_disk s \<longleftrightarrow> (\<forall>p n. lookup s p = Some n \<longrightarrow> good_path p \<and> (\<forall>a \<in> set (ancestors p). lookup s a = Some LDir))"

lemma wf_disk_view: "view_only wf_disk"
  by (auto simp: view_only_def wf_disk_def view_def lookup_def)

lemma good_path_abs [simp]: "list_all good_seg ws \<Longrightarrow> good_path (abs_path ws)"
  by (auto simp: good_path_def)

lemma mkdirall_snoc:
  "list_all good_seg ws \<Longrightarrow> good_seg w \<Longrightarrow> ws \<noteq> [] \<Longrightarrow>
   os_MkdirAll (abs_path (ws @ [w])) = bindM (os_MkdirAll (abs_path ws)) (\<lambda>_. os_Mkdir (abs_path (ws @ [w])))"
  by (auto simp: os_MkdirAll_def ancestors_abs foldM_append fun_eq_iff bindM_def ret_def split: prod.split sum.split)

lemma mkdir_effect:
  assumes run: "os_Mkdir p s = (r, s')" and wf: "wf_disk s" and p: "good_path p"
    and up: "\<forall>a \<in> set (ancestors p). lookup s a = Some LDir"
  shows "wf_disk s'" and "\<forall>q. q \<noteq> p \<longrightarrow> lookup s' q = lookup s q" and "r = Inr u \<Longrightarrow> lookup s' p = Some LDir"
    and "lookup s q = Some n \<Longrightarrow> lookup s' q = Some n"
proof -
  obtain q1 s1 where io: "ioM EIO s = (q1, s1)" by fastforce
  then have s1: "lookup s1 = lookup s" by (auto simp: ioM_def lookup_def fun_eq_iff split: list.splits if_splits)
  have cases: "(\<exists>e. r = Inl e \<and> lookup s' = lookup s) \<or> r = Inr () \<and> lookup s p = Some LDir \<and> lookup s' = lookup s
      \<or> r = Inr () \<and> lookup s p = None \<and> lookup s' = (lookup s)(p \<mapsto> LDir)"
    using run io s1
    by (auto simp: os_Mkdir_def thenM_def bindM_def lookup_put fun_eq_iff split: sum.splits option.splits lnode.splits)
  show "\<forall>q. q \<noteq> p \<longrightarrow> lookup s' q = lookup s q" using cases by auto
  show "r = Inr u \<Longrightarrow> lookup s' p = Some LDir" using cases by auto
  show "lookup s q = Some n \<Longrightarrow> lookup s' q = Some n" using cases by auto
  from cases show "wf_disk s'"
  proof (elim disjE exE conjE)
    assume "lookup s p = None" "lookup s' = (lookup s)(p \<mapsto> LDir)"
    with wf p up show ?thesis by (simp add: wf_disk_def)
  next
    assume "lookup s' = lookup s"
    with wf show "wf_disk s'" by (simp add: wf_disk_def)
  next
    assume "lookup s' = lookup s"
    with wf show "wf_disk s'" by (simp add: wf_disk_def)
  qed
qed

lemma mkdirall_effect:
  assumes "list_all good_seg ws" and "os_MkdirAll (abs_path ws) s = (r, s')" and "wf_disk s"
  shows "wf_disk s' \<and> (\<forall>q. \<not> isUnder (abs_path ws) q \<longrightarrow> lookup s' q = lookup s q) \<and>
    (\<forall>q n. lookup s q = Some n \<longrightarrow> lookup s' q = Some n) \<and>
    (r = Inr () \<longrightarrow> lookup s' (abs_path ws) = Some LDir \<and> (\<forall>a \<in> set (ancestors (abs_path ws)). lookup s' a = Some LDir))"
  using assms
proof (induction ws arbitrary: r s' rule: rev_induct)
  case Nil
  then have run: "os_Mkdir ''/'' s = (r, s')"
    by (auto simp: os_MkdirAll_def ancestors_root abs_flat bindM_def ret_def split: prod.splits sum.splits)
  have "good_path ''/''" using good_path_abs [of "[]"] by (simp add: abs_flat)
  note e = mkdir_effect [OF run Nil.prems(3) this]
  show ?case using e by (simp add: ancestors_root abs_flat) (metis isUnder_def)
next
  case (snoc w ws)
  then have g: "list_all good_seg ws" "good_seg w" by simp_all
  show ?case
  proof (cases "ws = []")
    case True
    then have run: "os_Mkdir (abs_path [w]) s = (r, s')"
      using snoc.prems(2) ancestors_abs [of "[]" w] g
      by (auto simp: os_MkdirAll_def bindM_def ret_def split: prod.splits sum.splits)
    have none: "ancestors (abs_path [w]) = []" using ancestors_abs [of "[]" w] g by simp
    have "good_path (abs_path [w])" using g by (intro good_path_abs) simp
    note e = mkdir_effect [OF run snoc.prems(3) this]
    show ?thesis using e none True by simp (metis isUnder_def)
  next
    case False
    note anc = ancestors_abs [OF g]
    from snoc.prems(2) show ?thesis
      unfolding mkdirall_snoc [OF g False]
    proof (cases rule: bindM_cases)
      case (1 e)
      note ih = snoc.IH [OF g(1) 1(1) snoc.prems(3)]
      have "isUnder (abs_path (ws @ [w])) (abs_path ws)" using g by (simp add: isUnder_abs)
      then have "isUnder (abs_path ws) q \<Longrightarrow> isUnder (abs_path (ws @ [w])) q" for q
        by (auto simp: isUnder_def prefix_def abs_flat False)
      with ih 1(2) show ?thesis by auto
    next
      case (2 u t)
      note ih = snoc.IH [OF g(1) 2(1) snoc.prems(3)]
      have "good_path (abs_path (ws @ [w]))" using g by (intro good_path_abs) simp
      moreover have "\<forall>a \<in> set (ancestors (abs_path (ws @ [w]))). lookup t a = Some LDir" using ih anc False by auto
      ultimately have e: "wf_disk s'" "\<forall>q. q \<noteq> abs_path (ws @ [w]) \<longrightarrow> lookup s' q = lookup t q"
        "r = Inr () \<Longrightarrow> lookup s' (abs_path (ws @ [w])) = Some LDir" "\<And>q n. lookup t q = Some n \<Longrightarrow> lookup s' q = Some n"
        using mkdir_effect [OF 2(2)] ih by blast+
      have "isUnder (abs_path ws) q \<Longrightarrow> isUnder (abs_path (ws @ [w])) q" for q
        by (auto simp: isUnder_def prefix_def abs_flat False)
      moreover have "isUnder (abs_path (ws @ [w])) (abs_path (ws @ [w]))" by (simp add: isUnder_def)
      ultimately have "\<forall>q. \<not> isUnder (abs_path (ws @ [w])) q \<longrightarrow> lookup s' q = lookup s q" using e(2) ih by metis
      then show ?thesis using e ih anc False by auto
    qed
  qed
qed

section \<open>Local edits\<close>

text \<open>A tracked file whose content the engine would find changed.\<close>

definition edited_as :: "ext \<Rightarrow> Entry \<Rightarrow> string \<Rightarrow> int \<Rightarrow> bool" where
  "edited_as x e c t \<longleftrightarrow> (int (length c), t) \<noteq> (se_Size e, se_MtimeUnix e) \<and> hex_hash x c \<noteq> se_Hash e"

lemma stat_run:
  assumes "os_Stat p s = (q, s')"
  shows "lookup s' = lookup s" and "q = Inr n \<Longrightarrow> lookup s p = Some n"
    and "lookup s p = Some n \<Longrightarrow> q = Inl EIO \<or> q = Inr n"
  using assms by (auto simp: os_Stat_def ioM_def thenM_def bindM_def lookup_def split: option.splits list.splits if_splits)

lemma EIO_exists [simp]: "\<not> IsNotExist EIO"
  by (simp add: IsNotExist_def EIO_def ENOENT_def)

lemma localStatus_edited:
  assumes run: "localStatus eng x e s = (q, s')" and f: "lookup s (localPath eng (se_Path e)) = Some (LFile c t)"
    and ed: "edited_as x e c t"
  shows "(\<exists>err. q = Inl err) \<or> q = Inr (True, True)"
proof -
  from run obtain q1 s1 where st: "os_Stat (localPath eng (se_Path e)) s = (q1, s1)"
    and k: "(case q1 of Inl err \<Rightarrow> if IsNotExist err then ret (False, False) else raise err
      | Inr info \<Rightarrow> if info = LDir then ret (True, False)
         else if info_Size info = se_Size e \<and> info_ModTime info = se_MtimeUnix e then ret (True, False)
         else bindM (hashFile x (localPath eng (se_Path e))) (\<lambda>h. ret (True, h \<noteq> se_Hash e))) s1 = (q, s')"
    unfolding localStatus_def by (auto elim!: bindM_cases tryM_run)
  from stat_run(3) [OF st f] show ?thesis
  proof
    assume "q1 = Inl EIO"
    with k show ?thesis by (simp add: raise_iff)
  next
    assume "q1 = Inr (LFile c t)"
    with k ed have k2: "bindM (hashFile x (localPath eng (se_Path e))) (\<lambda>h. ret (True, h \<noteq> se_Hash e)) s1 = (q, s')"
      by (auto simp: edited_as_def info_Size_def info_ModTime_def split: if_splits)
    have f1: "lookup s1 (localPath eng (se_Path e)) = Some (LFile c t)" using stat_run(1) [OF st] f by simp
    from k2 show ?thesis
    proof (cases rule: bindM_cases)
      case (2 h s2)
      then obtain n s3 c' where "os_Stat (localPath eng (se_Path e)) s1 = (Inr n, s3)" "h = hex_hash x c'"
        "(case n of LFile c t \<Rightarrow> ret c | LDir \<Rightarrow> raise EISDIR | LOther t \<Rightarrow> raise EIO) s3 = (Inr c', s2)"
        by (auto simp: hashFile_def os_ReadFile_def run_iffs elim!: bindM_cases)
      moreover from stat_run(2) [OF this(1) refl] f1 have "n = LFile c t" by simp
      ultimately have "h = hex_hash x c" by (simp add: ret_iff)
      with 2(2) ed show ?thesis by (auto simp: edited_as_def ret_iff)
    qed simp
  qed
qed

lemma localStatus_changed:
  assumes run: "localStatus eng x e s = (Inr (ex, True), s')"
  shows "ex \<and> (\<exists>c t. lookup s (localPath eng (se_Path e)) = Some (LFile c t))"
proof -
  from run obtain q1 s1 where st: "os_Stat (localPath eng (se_Path e)) s = (q1, s1)"
    and k: "(case q1 of Inl err \<Rightarrow> if IsNotExist err then ret (False, False) else raise err
      | Inr info \<Rightarrow> if info = LDir then ret (True, False)
         else if info_Size info = se_Size e \<and> info_ModTime info = se_MtimeUnix e then ret (True, False)
         else bindM (hashFile x (localPath eng (se_Path e))) (\<lambda>h. ret (True, h \<noteq> se_Hash e))) s1 = (Inr (ex, True), s')"
    unfolding localStatus_def by (auto elim!: bindM_cases tryM_run)
  from k obtain h s2 where h: "hashFile x (localPath eng (se_Path e)) s1 = (Inr h, s2)" and "ex"
    by (auto simp: run_iffs split: sum.splits if_splits elim!: bindM_cases)
  from h obtain s3 n where st2: "os_Stat (localPath eng (se_Path e)) s1 = (Inr n, s3)"
    and "\<exists>c t. n = LFile c t"
    by (auto simp: hashFile_def os_ReadFile_def run_iffs elim!: bindM_cases split: lnode.splits)
  with \<open>ex\<close> stat_run(1) [OF st] stat_run(2) [OF st2 refl] show ?thesis by auto
qed

text \<open>A file survives: it is still where it was, or at a conflict name of the path given.\<close>

definition survives :: "engine \<Rightarrow> int \<Rightarrow> string \<Rightarrow> string \<Rightarrow> string \<Rightarrow> int \<Rightarrow> 's client \<Rightarrow> bool" where
  "survives eng T q p c t s \<longleftrightarrow> holds T q (LFile c t) s \<or>
     (q = localPath eng p \<and> (\<exists>m. holds T (localPath eng (conflictServerPath eng T p m)) (LFile c t) s))"

lemma upsert_survives:
  assumes run: "applyFileUpsert eng srv x node s = (r, s')" and q: "holds T q (LFile c t) s"
    and ed: "q = localPath eng (an_Path node) \<Longrightarrow>
      \<exists>e. find (\<lambda>e. se_Path e = an_Path node) (cl_synced s) = Some e \<and> edited_as x e c t"
  shows "survives eng T q (an_Path node) c t s'"
proof -
  let ?p = "an_Path node"
  let ?d = "localPath eng ?p"
  have pull: "holds T q' n s2" if "holds T q' n s1" "q' \<noteq> ?d" "pullDown eng srv x node s1 = (r2, s2)" for q' n s1 r2 s2
    using keepsD [OF pullDown_holds] that by metis
  from run consider (err) e where "st_Get ?p s = (Inl e, s')"
    | (none) s1 where "st_Get ?p s = (Inr None, s1)" "pullDown eng srv x node s1 = (r, s')"
    | (some) s1 e where "st_Get ?p s = (Inr (Some e), s1)"
      "bindM (localStatus eng x e) (\<lambda>(exists, changed).
         if se_RemoteHash e = ContentHash node then (if \<not> exists then pullDown eng srv x node else ret ())
         else thenM (if exists \<and> changed then bindM (conflictCopy eng e) (\<lambda>_. ret ()) else ret ()) (pullDown eng srv x node)) s1 = (r, s')"
    unfolding applyFileUpsert_def by (auto elim!: bindM_cases split: option.splits)
  then show ?thesis
  proof cases
    case err
    with keepsD [OF keeps_quiet [OF quiet_reads(1) view_only_holds] q] show ?thesis by (auto simp: survives_def)
  next
    case none
    then have s1: "holds T q (LFile c t) s1" using keepsD [OF keeps_quiet [OF quiet_reads(1) view_only_holds] q] by blast
    have "find (\<lambda>e. se_Path e = ?p) (cl_synced s) = None"
      using none(1) by (auto simp: st_Get_def getM_iff ioM_def elim!: thenM_cases split: list.splits if_splits)
    with ed have "q \<noteq> ?d" by auto
    with pull [OF s1 _ none(2)] show ?thesis by (simp add: survives_def)
  next
    case some
    then have s1: "holds T q (LFile c t) s1" using keepsD [OF keeps_quiet [OF quiet_reads(1) view_only_holds] q] by blast
    have fe: "find (\<lambda>e. se_Path e = ?p) (cl_synced s) = Some e"
      using some(1) by (auto simp: st_Get_def getM_iff ioM_def elim!: thenM_cases split: list.splits if_splits)
    then have ep: "se_Path e = ?p" by (auto dest: find_Some_set)
    from some(2) show ?thesis
    proof (cases rule: bindM_cases)
      case (1 err)
      with keepsD [OF keeps_quiet [OF quiet_localStatus view_only_holds] s1] show ?thesis by (auto simp: survives_def)
    next
      case (2 st s2)
      obtain ex ch where st: "st = (ex, ch)" by fastforce
      have s2: "holds T q (LFile c t) s2" using keepsD [OF keeps_quiet [OF quiet_localStatus view_only_holds] s1 2(1)] .
      have edited: "st = (True, True)" if "q = ?d"
        using localStatus_edited [OF 2(1), of c t] that ed [OF that] fe s1 ep by (auto simp: holds_def)
      show ?thesis
      proof (cases "se_RemoteHash e = ContentHash node")
        case True
        show ?thesis
        proof (cases "ex")
          case True
          with 2(2) st \<open>se_RemoteHash e = ContentHash node\<close> s2 show ?thesis by (auto simp: ret_iff survives_def)
        next
          case False
          with edited st have "q \<noteq> ?d" by auto
          with 2(2) st True False pull [OF s2] show ?thesis by (auto simp: survives_def)
        qed
      next
        case False
        show ?thesis
        proof (cases "ex \<and> ch")
          case True
          then obtain c0 t0 where src: "holds T (localPath eng (se_Path e)) (LFile c0 t0) s2"
            using localStatus_changed [of eng x e s1 ex s2] 2(1) st s2 quiet_run [OF quiet_localStatus 2(1)]
            by (auto simp: holds_def view_def lookup_def)
          from 2(2) st True False have "thenM (bindM (conflictCopy eng e) (\<lambda>_. ret ())) (pullDown eng srv x node) s2 = (r, s')"
            by simp
          then obtain r1 s3 where cc: "conflictCopy eng e s2 = (r1, s3)"
            and rest: "(\<exists>err. r1 = Inl err \<and> s' = s3) \<or> (\<exists>v. r1 = Inr v) \<and> pullDown eng srv x node s3 = (r, s')"
            by (auto simp: ret_iff elim!: thenM_cases bindM_cases)
          show ?thesis
          proof (cases "q = ?d")
            case True
            with s2 ep have "holds T (localPath eng (se_Path e)) (LFile c t) s2" by simp
            from cc this show ?thesis
            proof (rule conflictCopy_keeps)
              assume "holds T (localPath eng (se_Path e)) (LFile c t) s3" "\<exists>err. r1 = Inl err"
              with rest True ep show ?thesis by (auto simp: survives_def)
            next
              fix m assume m: "holds T (localPath eng (conflictServerPath eng T (se_Path e) m)) (LFile c t) s3"
                "localPath eng (conflictServerPath eng T (se_Path e) m) \<noteq> localPath eng (se_Path e)"
              with pull [OF m(1)] rest ep have "holds T (localPath eng (conflictServerPath eng T ?p m)) (LFile c t) s'" by auto
              with True show ?thesis by (auto simp: survives_def)
            qed
          next
            case no: False
            with ep have "holds T q (LFile c t) s3" by (intro conflictCopy_others [OF _ cc s2 src]) simp
            with pull [OF this no] rest show ?thesis by (auto simp: survives_def)
          qed
        next
          case no: False
          with edited st have "q \<noteq> ?d" by auto
          with 2(2) st False no pull [OF s2] show ?thesis by (auto simp: survives_def thenM_ret)
        qed
      qed
    qed
  qed
qed

text \<open>Deleting a file.\<close>

lemma remove_file_keeps: "q \<noteq> localPath eng (se_Path e) \<Longrightarrow> keeps (holds T q n) (remove_file eng e)"
  unfolding remove_file_def
  by (intro keeps_thenM keeps_catchM holds_remove keeps_if keeps_ret keeps_raise keeps_db) auto

lemma node_run: "GetByNodeID nid s = (Inr v, s') \<Longrightarrow> v = find (\<lambda>e. se_NodeID e = nid) (cl_synced s)"
  by (auto simp: GetByNodeID_def getM_iff ioM_def elim!: thenM_cases split: list.splits if_splits)

lemma delete_survives:
  assumes run: "applyDelete eng x nid s = (r, s')" and q: "holds T q (LFile c t) s"
    and kind: "\<And>e. find (\<lambda>e. se_NodeID e = nid) (cl_synced s) = Some e \<Longrightarrow> se_Kind e \<noteq> ''folder'' \<and>
      (q = localPath eng (se_Path e) \<longrightarrow> edited_as x e c t)"
  shows "holds T q (LFile c t) s' \<or> (\<exists>e. find (\<lambda>e. se_NodeID e = nid) (cl_synced s) = Some e \<and> survives eng T q (se_Path e) c t s')"
proof -
  from run consider (stop) v where "GetByNodeID nid s = (v, s')" | (some) s1 e where "GetByNodeID nid s = (Inr (Some e), s1)"
      "(if se_Kind e = ''folder'' then thenM (os_RemoveAll (localPath eng (se_Path e))) (forgetSubtree (se_Path e))
         else bindM (localStatus eng x e) (\<lambda>(exists, changed).
           if exists \<and> changed then bindM (conflictCopy eng e) (\<lambda>_. ret ()) else remove_file eng e)) s1 = (r, s')"
    unfolding applyDelete_def by (auto simp: ret_iff elim!: bindM_cases split: option.splits)
  then show ?thesis
  proof cases
    case (stop v)
    with keepsD [OF keeps_quiet [OF quiet_reads(2) view_only_holds] q] show ?thesis by blast
  next
    case (some s1 e)
    from keepsD [OF keeps_quiet [OF quiet_reads(2) view_only_holds] q some(1)] have s1: "holds T q (LFile c t) s1" .
    have fe: "find (\<lambda>e. se_NodeID e = nid) (cl_synced s) = Some e" using node_run [OF some(1)] by simp
    from kind [OF fe] some(2)
    have "bindM (localStatus eng x e) (\<lambda>(exists, changed).
           if exists \<and> changed then bindM (conflictCopy eng e) (\<lambda>_. ret ()) else remove_file eng e) s1 = (r, s')" by simp
    then show ?thesis
    proof (cases rule: bindM_cases)
      case (1 err)
      with keepsD [OF keeps_quiet [OF quiet_localStatus view_only_holds] s1] show ?thesis by blast
    next
      case (2 st s2)
      obtain ex ch where st: "st = (ex, ch)" by fastforce
      have s2: "holds T q (LFile c t) s2" using keepsD [OF keeps_quiet [OF quiet_localStatus view_only_holds] s1 2(1)] .
      show ?thesis
      proof (cases "ex \<and> ch")
        case True
        then obtain c0 t0 where src: "holds T (localPath eng (se_Path e)) (LFile c0 t0) s2"
          using localStatus_changed [of eng x e s1 ex s2] 2(1) st s2 quiet_run [OF quiet_localStatus 2(1)]
          by (auto simp: holds_def view_def lookup_def)
        from 2(2) st True obtain r1 where cc: "conflictCopy eng e s2 = (r1, s')" by (auto simp: ret_iff elim!: bindM_cases)
        show ?thesis
        proof (cases "q = localPath eng (se_Path e)")
          case True
          with s2 have "holds T (localPath eng (se_Path e)) (LFile c t) s2" by simp
          from conflictCopy_keeps [OF cc this] have "survives eng T q (se_Path e) c t s'"
            using True by (auto simp: survives_def)
          with fe show ?thesis by blast
        next
          case False
          from conflictCopy_others [OF this cc s2 src] show ?thesis by blast
        qed
      next
        case False
        have "q \<noteq> localPath eng (se_Path e)"
        proof
          assume q: "q = localPath eng (se_Path e)"
          with kind [OF fe] have "edited_as x e c t" by simp
          with localStatus_edited [OF 2(1), of c t] q s1 st False show False by (auto simp: holds_def)
        qed
        with keepsD [OF remove_file_keeps s2] 2(2) st False show ?thesis by auto
      qed
    qed
  qed
qed

section \<open>Moves\<close>

lemma map_of_rename:
  "(\<And>k'. k' \<in> fst ` set xs \<Longrightarrow> f k' = f k \<Longrightarrow> k' = k) \<Longrightarrow> map_of (map (\<lambda>(k, v). (f k, v)) xs) (f k) = map_of xs k"
proof (induction xs)
  case (Cons kv xs)
  have "f (fst kv) = f k \<Longrightarrow> fst kv = k" by (rule Cons.prems) auto
  moreover have "map_of (map (\<lambda>(k, v). (f k, v)) xs) (f k) = map_of xs k" by (rule Cons.IH, rule Cons.prems) auto
  ultimately show ?case by (cases kv) auto
qed simp

lemma lookup_keys: "k \<in> fst ` set (cl_disk s) \<longleftrightarrow> lookup s k \<noteq> None"
  by (simp add: lookup_def map_of_eq_None_iff)

text \<open>On clean paths: the root of the device, a path below it, and its parent.\<close>

lemma good_nonroot:
  assumes "good_path p" and "p \<noteq> ''/''"
  obtains ws where "list_all good_seg ws" "p = abs_path ws" "ws \<noteq> []"
proof -
  from assms(1) obtain ws where "list_all good_seg ws" "p = abs_path ws" by (auto simp: good_path_def)
  moreover with assms(2) have "ws \<noteq> []" by (auto simp: abs_flat)
  ultimately show thesis by (rule that)
qed

lemma ok_root:
  assumes "engine_ok eng"
  obtains rs where "list_all good_seg rs" "eg_root eng = abs_path rs" "rs \<noteq> []"
  using assms good_nonroot [of "eg_root eng"] by (auto simp: engine_ok_def)

lemma local_cases:
  assumes "engine_ok eng" and "good_path p" and "p \<noteq> ''/''"
  obtains ws w where "list_all good_seg ws" "good_seg w" "ws \<noteq> []" "localPath eng p = abs_path (ws @ [w])"
    "isUnder (localPath eng p) (eg_root eng)"
proof -
  from assms(1) obtain rs where rs: "list_all good_seg rs" "eg_root eng = abs_path rs" "rs \<noteq> []" by (rule ok_root)
  from assms(2,3) obtain ps where ps: "list_all good_seg ps" "p = abs_path ps" "ps \<noteq> []" by (rule good_nonroot)
  then obtain us u where u: "ps = us @ [u]" by (cases ps rule: rev_cases) auto
  have l: "localPath eng p = abs_path (rs @ ps)" using localPath_abs [OF rs(1,3,2) ps(1)] ps(2) by simp
  show thesis
  proof (rule that [of "rs @ us" u])
    show "localPath eng p = abs_path ((rs @ us) @ [u])" using l u by simp
    have "isUnder (abs_path (rs @ ps)) (abs_path rs)" using rs ps by (simp add: isUnder_abs)
    then show "isUnder (localPath eng p) (eg_root eng)" using l rs(2) by simp
  qed (use rs ps u in auto)
qed

lemma localPath_inj:
  assumes "engine_ok eng" and "good_path p" and "good_path p'" and "localPath eng p = localPath eng p'"
  shows "p = p'"
proof -
  from assms(1) obtain rs where rs: "list_all good_seg rs" "eg_root eng = abs_path rs" "rs \<noteq> []" by (rule ok_root)
  from assms(2,3) obtain ps ps' where ps: "list_all good_seg ps" "p = abs_path ps" "list_all good_seg ps'" "p' = abs_path ps'"
    by (auto simp: good_path_def)
  then have "abs_path (rs @ ps) = abs_path (rs @ ps')" using assms(4) localPath_abs [OF rs(1,3,2)] by simp
  with rs ps abs_path_inj [of "rs @ ps" "rs @ ps'"] show ?thesis by simp
qed

lemma isUnder_trans: "isUnder a b \<Longrightarrow> isUnder b c \<Longrightarrow> c \<noteq> [] \<Longrightarrow> isUnder a c"
  by (cases c) (auto simp: isUnder_def prefix_def)

lemma free_below:
  assumes "wf_disk s" and "list_all good_seg ws" and "ws \<noteq> []" and "lookup s (abs_path ws) = None" and "lookup s k \<noteq> None"
  shows "\<not> isUnder k (abs_path ws)"
proof
  assume u: "isUnder k (abs_path ws)"
  from assms(5) obtain n where n: "lookup s k = Some n" by auto
  with assms(1) obtain ks where ks: "list_all good_seg ks" "k = abs_path ks" by (auto simp: wf_disk_def good_path_def)
  with u assms(2) have p: "prefix ws ks" by (simp add: isUnder_abs)
  show False
  proof (cases "ws = ks")
    case True
    with assms(4) ks n show False by simp
  next
    case False
    with p assms(3) have "abs_path ws \<in> set (ancestors k)" using ks by (auto simp: set_ancestors_abs strict_prefix_def)
    with assms(1,4) n show False by (auto simp: wf_disk_def)
  qed
qed

lemma thenM_split:
  "thenM c d s = (r, s') \<Longrightarrow> \<exists>q t. c s = (q, t) \<and> (case q of Inl e \<Rightarrow> r = Inl e \<and> s' = t | Inr _ \<Rightarrow> d t = (r, s'))"
  by (erule thenM_cases) auto

text \<open>Where a rename takes a file.\<close>

definition moved_to :: "string \<Rightarrow> string \<Rightarrow> string \<Rightarrow> string" where
  "moved_to src dst q = (if isUnder q src then dst @ drop (length src) q else q)"

lemma rename_moves:
  assumes run: "os_Rename src dst s = (r, s')" and wf: "wf_disk s" and q: "holds T q (LFile c t) s"
    and src: "list_all good_seg ss" "ss \<noteq> []" "src = abs_path ss"
    and dst: "list_all good_seg ds" "ds \<noteq> []" "dst = abs_path ds"
    and free: "lookup s dst = None" and dir: "lookup s (path_Dir dst) = Some LDir"
  shows "(\<exists>e. r = Inl e \<and> holds T q (LFile c t) s' \<and> (IsNotExist e \<longrightarrow> \<not> isUnder q src)) \<or>
    (r = Inr () \<and> holds T (moved_to src dst q) (LFile c t) s')"
proof -
  have qs: "lookup s q = Some (LFile c t)" "cl_now s = T" using q by (simp_all add: holds_def)
  have not_root: "src \<noteq> ''/''" using src abs_path_inj [of ss "[]"] by (auto simp: abs_flat)
  obtain q1 s1 where io: "ioM EIO s = (q1, s1)" by fastforce
  then have s1: "lookup s1 = lookup s" "cl_now s1 = cl_now s" "q1 = Inr () \<or> q1 = Inl EIO" "cl_disk s1 = cl_disk s"
    by (auto simp: ioM_def lookup_def fun_eq_iff split: list.splits if_splits)
  show ?thesis
  proof (cases q1)
    case (Inl e)
    with run io s1 qs show ?thesis by (auto simp: os_Rename_def thenM_def bindM_def holds_def)
  next
    case (Inr u)
    with run io s1 have body: "(case lookup s1 src of
        None \<Rightarrow> (Inl (missing s1 src), s1)
      | Some n \<Rightarrow>
          if dst = src then (Inr (), s1)
          else if lookup s1 dst = Some LDir then (Inl EEXIST, s1)
          else if lookup s1 (path_Dir dst) \<noteq> Some LDir then (Inl (missing s1 (path_Dir dst @ ''/'')), s1)
          else if n = LDir then
            (if isUnder dst src then (Inl EINVAL, s1)
             else if lookup s1 dst \<noteq> None then (Inl ENOTDIR, s1)
             else (Inr (), disk_move src dst s1))
          else (Inr (), disk_put dst n (disk_del src s1))) = (r, s')"
      by (simp add: os_Rename_def thenM_def bindM_def)
    have under: "lookup s src = Some LDir" if "isUnder q src" "q \<noteq> src"
    proof -
      from wf qs obtain ks where ks: "list_all good_seg ks" "q = abs_path ks" by (auto simp: wf_disk_def good_path_def)
      with that src have "src \<in> set (ancestors q)" by (auto simp: isUnder_abs set_ancestors_abs strict_prefix_def)
      with wf qs show ?thesis by (auto simp: wf_disk_def)
    qed
    show ?thesis
    proof (cases "lookup s src")
      case None
      with qs under have "\<not> isUnder q src" by force
      with None body s1 qs show ?thesis by (auto simp: holds_def)
    next
      case (Some n)
      with free have ne: "dst \<noteq> src" by auto
      show ?thesis
      proof (cases "n = LDir")
        case False
        with body s1 Some ne free dir have s': "r = Inr ()" "s' = disk_put dst n (disk_del src s1)" by auto
        show ?thesis
        proof (cases "q = src")
          case True
          with Some qs s' s1 show ?thesis by (auto simp: moved_to_def isUnder_def holds_def lookup_put)
        next
          case no: False
          with under Some False have "\<not> isUnder q src" by auto
          moreover have "q \<noteq> dst" using free qs by auto
          ultimately show ?thesis using no s' s1 qs by (simp add: moved_to_def holds_def lookup_put lookup_del)
        qed
      next
        case True
        show ?thesis
        proof (cases "isUnder dst src")
          case under: True
          with body s1 Some True ne free dir have "r = Inl EINVAL" "s' = s1" by auto
          then show ?thesis using s1 qs by (auto simp: holds_def IsNotExist_def EINVAL_def ENOENT_def)
        next
          case False
          with body s1 Some True ne free dir have s': "r = Inr ()" "s' = disk_move src dst s1" by auto
          have "map_of (map (\<lambda>(k, n). (moved_to src dst k, n)) (cl_disk s)) (moved_to src dst q) = map_of (cl_disk s) q"
          proof (rule map_of_rename)
            fix k assume "k \<in> fst ` set (cl_disk s)" and eq: "moved_to src dst k = moved_to src dst q"
            then have k: "lookup s k \<noteq> None" by (simp add: lookup_keys)
            have q': "lookup s q \<noteq> None" using qs by simp
            have off: "\<not> isUnder k dst" "\<not> isUnder q dst"
              using free_below [OF wf dst(1,2)] free dst(3) k q' by blast+
            have new: "isUnder (dst @ drop (length src) z) dst" if "isUnder z src" for z
              using that not_root by (auto simp: isUnder_def prefix_def)
            show "k = q"
            proof (cases "isUnder k src"; cases "isUnder q src")
              assume "isUnder k src" "isUnder q src"
              with eq not_root show ?thesis by (auto simp: moved_to_def isUnder_def prefix_def)
            qed (use eq off new in \<open>auto simp: moved_to_def split: if_splits\<close>)
          qed
          then have "lookup s' (moved_to src dst q) = lookup s q"
            using s'(2) s1(4) by (simp add: lookup_def disk_move_def moved_to_def)
          then show ?thesis using s' s1 qs by (simp add: holds_def)
        qed
      qed
    qed
  qed
qed

lemma moveLocal_survives:
  assumes ok: "engine_ok eng" and wf: "wf_disk s" and run: "moveLocal eng prev p s = (r, s')"
    and q: "holds T q (LFile c t) s" and p: "good_path p" "p \<noteq> ''/''"
    and prev: "good_path (se_Path prev)" "se_Path prev \<noteq> ''/''" and free: "lookup s (localPath eng p) = None"
  shows "(\<exists>e. r = Inl e \<and> (holds T q (LFile c t) s' \<or> holds T (moved_to (localPath eng (se_Path prev)) (localPath eng p) q) (LFile c t) s')) \<or>
    (r = Inr () \<and> holds T (moved_to (localPath eng (se_Path prev)) (localPath eng p) q) (LFile c t) s' \<and>
     cl_synced s' = put_entry (prev\<lparr>se_Path := p\<rparr>) (filter (\<lambda>e. se_Path e \<noteq> se_Path prev) (cl_synced s)))"
proof -
  let ?src = "localPath eng (se_Path prev)" and ?dst = "localPath eng p"
  obtain ws w where dst: "list_all good_seg ws" "good_seg w" "ws \<noteq> []" "?dst = abs_path (ws @ [w])"
    by (rule local_cases [OF ok p])
  obtain us u where src: "list_all good_seg us" "good_seg u" "?src = abs_path (us @ [u])"
    by (rule local_cases [OF ok prev])
  have par: "path_Dir ?dst = abs_path ws" using dst parent_abs [of ws w] by (simp add: parentPath_def)
  have off: "\<not> isUnder (abs_path ws) ?dst" using dst by (simp add: isUnder_abs)
  from run obtain q1 s1 where mk: "os_MkdirAll (abs_path ws) s = (q1, s1)"
    and k1: "case q1 of Inl e \<Rightarrow> r = Inl e \<and> s' = s1 | Inr _ \<Rightarrow>
      (thenM (catchM (os_Rename ?src ?dst) (\<lambda>err. if IsNotExist err then ret () else raise err))
      (thenM (st_Delete (se_Path prev)) (st_Put (prev\<lparr>se_Path := p\<rparr>)))) s1 = (r, s')"
    using thenM_split [OF run [unfolded moveLocal_def Let_def par]] by auto
  have s1: "holds T q (LFile c t) s1" using keepsD [OF holds_mkdirall q mk] .
  show ?thesis
  proof (cases q1)
    case (Inl e)
    with k1 s1 show ?thesis by auto
  next
    case (Inr v)
    note eff = mkdirall_effect [OF dst(1) mk wf]
    have f1: "lookup s1 ?dst = None" using eff off free by auto
    have d1: "lookup s1 (path_Dir ?dst) = Some LDir" using eff Inr par by auto
    have synced1: "cl_synced s1 = cl_synced s"
    proof -
      have "keeps (\<lambda>s. cl_synced s = C) (os_Mkdir a)" for C and a
        unfolding os_Mkdir_def by (intro keeps_thenM keeps_ioM) (auto simp: fault_free_def keeps_def disk_put_def split: option.split lnode.split)
      then have "keeps (\<lambda>s. cl_synced s = C) (os_MkdirAll a)" for C and a by (auto simp: os_MkdirAll_def intro: keeps_foldM)
      from keepsD [OF this refl mk] show ?thesis by simp
    qed
    from k1 Inr have k1': "thenM (catchM (os_Rename ?src ?dst) (\<lambda>err. if IsNotExist err then ret () else raise err))
      (thenM (st_Delete (se_Path prev)) (st_Put (prev\<lparr>se_Path := p\<rparr>))) s1 = (r, s')" by simp
    obtain q2 s2 where ren: "catchM (os_Rename ?src ?dst) (\<lambda>err. if IsNotExist err then ret () else raise err) s1 = (q2, s2)"
      and k2: "case q2 of Inl e \<Rightarrow> r = Inl e \<and> s' = s2 | Inr _ \<Rightarrow>
        (thenM (st_Delete (se_Path prev)) (st_Put (prev\<lparr>se_Path := p\<rparr>))) s2 = (r, s')"
      using thenM_split [OF k1'] by (elim exE conjE) (rule that)
    have mv: "(\<exists>e. q' = Inl e \<and> holds T q (LFile c t) t2 \<and> (IsNotExist e \<longrightarrow> \<not> isUnder q ?src)) \<or>
        (q' = Inr () \<and> holds T (moved_to ?src ?dst q) (LFile c t) t2)" if "os_Rename ?src ?dst s1 = (q', t2)" for q' t2
      using rename_moves [OF that _ s1, of "us @ [u]" "ws @ [w]"] eff src dst f1 d1 by auto
    have synced2: "cl_synced s2 = cl_synced s"
    proof -
      have "keeps (\<lambda>s. cl_synced s = C) (os_Rename a b)" for C and a b
        unfolding os_Rename_def
        by (intro keeps_thenM keeps_ioM)
          (auto simp: fault_free_def keeps_def disk_put_def disk_del_def disk_move_def split: option.split)
      then have "keeps (\<lambda>s. cl_synced s = C) (catchM (os_Rename a b) (\<lambda>err. if IsNotExist err then ret () else raise err))" for C and a b
        by (intro keeps_catchM keeps_if keeps_ret keeps_raise)
      from keepsD [OF this synced1 ren] show ?thesis .
    qed
    show ?thesis
    proof (cases q2)
      case (Inl e)
      from ren have "holds T q (LFile c t) s2"
        using Inl mv by (elim catchM_run) (fastforce simp: run_iffs split: if_splits)+
      with k2 Inl show ?thesis by auto
    next
      case (Inr v2)
      have moved: "holds T (moved_to ?src ?dst q) (LFile c t) s2"
        using ren
      proof (rule catchM_run)
        fix e t2 assume a: "os_Rename ?src ?dst s1 = (Inl e, t2)" "(if IsNotExist e then ret () else raise e) t2 = (q2, s2)"
        with Inr have "IsNotExist e" "s2 = t2" by (auto simp: run_iffs split: if_splits)
        with mv [OF a(1)] show ?thesis by (auto simp: moved_to_def)
      next
        fix v' assume "os_Rename ?src ?dst s1 = (Inr v', s2)"
        from mv [OF this] show ?thesis by auto
      qed
      from k2 Inr have fin: "thenM (st_Delete (se_Path prev)) (st_Put (prev\<lparr>se_Path := p\<rparr>)) s2 = (r, s')" by simp
      have "keeps (holds T (moved_to ?src ?dst q) (LFile c t)) (thenM (st_Delete (se_Path prev)) (st_Put (prev\<lparr>se_Path := p\<rparr>)))"
        by (intro keeps_thenM keeps_db) simp_all
      then have "holds T (moved_to ?src ?dst q) (LFile c t) s'" using moved fin by (rule keepsD)
      moreover have "r = Inr () \<Longrightarrow> cl_synced s' = put_entry (prev\<lparr>se_Path := p\<rparr>) (filter (\<lambda>e. se_Path e \<noteq> se_Path prev) (cl_synced s))"
        using fin synced2 by (auto simp: st_Delete_def st_Put_def modM_iff ioM_def elim!: thenM_cases split: list.splits if_splits)
      ultimately show ?thesis by (cases r) auto
    qed
  qed
qed

section \<open>Conflict names\<close>

lemma decimal_digits: "c \<in> set (decimal n) \<Longrightarrow> c \<noteq> CHR ''/''"
proof (induction n rule: decimal.induct)
  case (1 n)
  have digit: "char_of (48 + d) \<noteq> CHR ''/''" if "d < 10" for d :: nat
  proof
    assume "char_of (48 + d) = CHR ''/''"
    then have "byte (char_of (48 + d)) = 47" by simp
    with that show False by simp
  qed
  show ?case
  proof (cases "n < 10")
    case True
    with "1.prems" digit [OF True] show ?thesis by (simp add: decimal.simps [of n])
  next
    case False
    have "n mod 10 < 10" by simp
    with False "1.prems" "1.IH" digit [of "n mod 10"] show ?thesis by (auto simp: decimal.simps [of n])
  qed
qed

lemma conflict_name:
  assumes ok: "engine_ok eng" and p: "list_all good_seg ps" "good_seg b"
  obtains w where "good_seg w" "conflictServerPath eng T (abs_path (ps @ [b])) m = abs_path (ps @ [w])"
proof -
  let ?e = "path_Ext b"
  define w where "w = TrimSuffix b ?e @ conflict_suffix eng T m @ ?e"
  have "set (TrimSuffix b ?e) \<subseteq> set b" by (auto simp: TrimSuffix_def dest: in_set_takeD)
  moreover have "set ?e \<subseteq> set b" using path_Ext_suffix [of b] by (auto dest: set_mono_suffix)
  moreover have "CHR ''/'' \<notin> set (conflict_suffix eng T m)"
    using ok decimal_digits by (auto simp: conflict_suffix_def engine_ok_def)
  ultimately have "CHR ''/'' \<notin> set w" using p(2) by (auto simp: w_def good_seg_def)
  moreover have "CHR '' '' \<in> set w" by (simp add: w_def conflict_suffix_def)
  ultimately have w: "good_seg w" by (auto simp: good_seg_def)
  have "abs_path ps = ''/'' \<longleftrightarrow> ps = []" using abs_path_inj [of ps "[]"] p by (simp add: abs_flat)
  moreover have "abs_path (ps @ [w]) = (if ps = [] then ''/'' @ w else abs_path ps @ ''/'' @ w)" by (simp add: abs_flat)
  ultimately have "conflictServerPath eng T (abs_path (ps @ [b])) m = abs_path (ps @ [w])"
    using p by (simp add: conflictServerPath_def Let_def parent_abs base_abs w_def)
  with w show thesis by (rule that)
qed

lemma conflict_under:
  assumes "engine_ok eng" and "good_path p" and "p \<noteq> ''/''"
  shows "isUnder (localPath eng (conflictServerPath eng T p m)) (eg_root eng)"
proof -
  from assms(2,3) obtain ws where ws: "list_all good_seg ws" "p = abs_path ws" "ws \<noteq> []" by (rule good_nonroot)
  then obtain ps b where b: "ws = ps @ [b]" by (cases ws rule: rev_cases) auto
  with ws assms(1) obtain w where "good_seg w" "conflictServerPath eng T p m = abs_path (ps @ [w])"
    using conflict_name [of eng ps b T m] by auto
  moreover have "good_path (abs_path (ps @ [w]))" using ws b \<open>good_seg w\<close> by (intro good_path_abs) simp
  moreover have "abs_path (ps @ [w]) \<noteq> ''/''" using \<open>good_seg w\<close> by (cases ps) (auto simp: abs_flat good_seg_def)
  ultimately show ?thesis using local_cases [OF assms(1)] by metis
qed

lemma survives_under:
  assumes "engine_ok eng" and "good_path p" and "p \<noteq> ''/''" and "isUnder q (eg_root eng)" and "survives eng T q p c t s"
  shows "\<exists>q t. isUnder q (eg_root eng) \<and> lookup s q = Some (LFile c t)"
  using assms conflict_under [OF assms(1-3)] unfolding survives_def holds_def by metis

section \<open>A change of the journal\<close>

definition tracked_ok :: "'s client \<Rightarrow> bool" where
  "tracked_ok s \<longleftrightarrow> distinct (map se_Path (cl_synced s)) \<and> (\<forall>e \<in> set (cl_synced s). good_path (se_Path e) \<and> se_Path e \<noteq> ''/'')"

text \<open>The file at server path \<open>p\<close> is tracked and was edited: \<open>localStatus\<close> would find its content changed.\<close>

definition edited :: "engine \<Rightarrow> ext \<Rightarrow> 's client \<Rightarrow> string \<Rightarrow> string \<Rightarrow> bool" where
  "edited eng x s p c \<longleftrightarrow> (\<exists>e t. e \<in> set (cl_synced s) \<and> se_Path e = p \<and> lookup s (localPath eng p) = Some (LFile c t) \<and>
     edited_as x e c t)"

text \<open>A change that is neither the deletion of a folder nor a rename onto a path that is taken locally.\<close>

definition harmless :: "engine \<Rightarrow> 's client \<Rightarrow> Change \<Rightarrow> bool" where
  "harmless eng s ch \<longleftrightarrow>
     (ac_Kind ch = ''delete'' \<longrightarrow>
        (\<forall>e. find (\<lambda>e. se_NodeID e = ac_NodeID ch) (cl_synced s) = Some e \<longrightarrow> se_Kind e \<noteq> ''folder'')) \<and>
     (\<forall>node. ac_Node ch = Some node \<longrightarrow> good_path (an_Path node) \<and> an_Path node \<noteq> ''/'' \<and>
        (\<forall>e. find (\<lambda>e. se_NodeID e = an_ID node) (cl_synced s) = Some e \<and> se_Path e \<noteq> an_Path node \<longrightarrow>
           lookup s (localPath eng (an_Path node)) = None))"

lemma find_path:
  "tracked_ok s \<Longrightarrow> e \<in> set (cl_synced s) \<Longrightarrow> find (\<lambda>f. se_Path f = se_Path e) (cl_synced s) = Some e"
  by (simp add: tracked_ok_def find_unique)

lemma find_put_entry: "find (\<lambda>f. se_Path f = se_Path e) (put_entry e es) = Some e"
proof (cases "list_ex (\<lambda>f. se_Path f = se_Path e) es")
  case True
  then have "find (\<lambda>f. se_Path f = se_Path e) (map (\<lambda>f. if se_Path f = se_Path e then e else f) es) = Some e"
    by (induction es) auto
  with True show ?thesis by (simp add: put_entry_def)
next
  case False
  then have "find (\<lambda>f. se_Path f = se_Path e) (es @ [e]) = Some e" by (induction es) auto
  with False show ?thesis by (simp add: put_entry_def)
qed

text \<open>Content that is in some file below the root.\<close>

definition on_disk :: "engine \<Rightarrow> string \<Rightarrow> 's client \<Rightarrow> bool" where
  "on_disk eng c s \<longleftrightarrow> (\<exists>q t. isUnder q (eg_root eng) \<and> lookup s q = Some (LFile c t))"

lemma on_disk_holds: "holds T q (LFile c t) s \<Longrightarrow> isUnder q (eg_root eng) \<Longrightarrow> on_disk eng c s"
  by (auto simp: on_disk_def holds_def)

lemma delete_keeps_edit:
  assumes ok: "engine_ok eng" and tr: "tracked_ok s" and e: "e \<in> set (cl_synced s)" "edited_as x e c t"
    and q: "holds T (localPath eng (se_Path e)) (LFile c t) s" and run: "applyDelete eng x nid s = (r, s')"
    and kind: "\<forall>f. find (\<lambda>e. se_NodeID e = nid) (cl_synced s) = Some f \<longrightarrow> se_Kind f \<noteq> ''folder''"
  shows "on_disk eng c s'"
proof -
  let ?q = "localPath eng (se_Path e)"
  have good: "good_path (se_Path f) \<and> se_Path f \<noteq> ''/''" if "f \<in> set (cl_synced s)" for f
    using tr that by (simp add: tracked_ok_def)
  have under: "isUnder ?q (eg_root eng)" using local_cases [OF ok] good [OF e(1)] by metis
  have same: "se_Kind f \<noteq> ''folder'' \<and> (?q = localPath eng (se_Path f) \<longrightarrow> edited_as x f c t)"
    if f: "find (\<lambda>e. se_NodeID e = nid) (cl_synced s) = Some f" for f
  proof -
    have fs: "f \<in> set (cl_synced s)" using find_Some_set [OF f] by blast
    have "f = e" if "?q = localPath eng (se_Path f)"
    proof -
      have "se_Path e = se_Path f" using localPath_inj [OF ok _ _ that] good [OF e(1)] good [OF fs] by simp
      with find_path [OF tr fs] find_path [OF tr e(1)] show ?thesis by simp
    qed
    with e(2) kind f show ?thesis by auto
  qed
  from delete_survives [OF run q same] show ?thesis
  proof
    assume "\<exists>f. find (\<lambda>e. se_NodeID e = nid) (cl_synced s) = Some f \<and> survives eng T ?q (se_Path f) c t s'"
    then obtain f where "find (\<lambda>e. se_NodeID e = nid) (cl_synced s) = Some f" and f: "survives eng T ?q (se_Path f) c t s'" by blast
    then have "f \<in> set (cl_synced s)" by (metis find_Some_set)
    from survives_under [OF ok _ _ under f] good [OF this] show ?thesis by (simp add: on_disk_def)
  next
    assume "holds T ?q (LFile c t) s'"
    from this under show ?thesis by (rule on_disk_holds)
  qed
qed

text \<open>The last step of an upsert.\<close>

definition place :: "engine \<Rightarrow> 's Server \<Rightarrow> ext \<Rightarrow> Node \<Rightarrow> ('s client, unit) m" where
  "place eng srv x node = (if api_IsFolder node then materializeFolder eng node else applyFileUpsert eng srv x node)"

lemma place_keeps_edit:
  assumes ok: "engine_ok eng" and node: "good_path (an_Path node)" "an_Path node \<noteq> ''/''"
    and q: "holds T q (LFile c t) s" "isUnder q (eg_root eng)" and run: "place eng srv x node s = (r, s')"
    and edit: "q = localPath eng (an_Path node) \<Longrightarrow>
      \<exists>f. find (\<lambda>f. se_Path f = an_Path node) (cl_synced s) = Some f \<and> edited_as x f c t"
  shows "on_disk eng c s'"
proof (cases "api_IsFolder node")
  case True
  have "keeps (holds T q (LFile c t)) (materializeFolder eng node)"
    unfolding materializeFolder_def by (intro keeps_thenM holds_mkdirall keeps_db) simp
  with q run True have "holds T q (LFile c t) s'" by (auto simp: place_def dest: keepsD)
  with q(2) show ?thesis by (auto intro: on_disk_holds)
next
  case False
  with run have "applyFileUpsert eng srv x node s = (r, s')" by (simp add: place_def)
  from survives_under [OF ok node q(2) upsert_survives [OF this q(1) edit]] show ?thesis by (simp add: on_disk_def)
qed

lemma local_not_root: "engine_ok eng \<Longrightarrow> good_path p \<Longrightarrow> p \<noteq> ''/'' \<Longrightarrow> localPath eng p \<noteq> ''/''"
proof -
  assume "engine_ok eng" "good_path p" "p \<noteq> ''/''"
  then obtain ws w where "list_all good_seg ws" "good_seg w" "localPath eng p = abs_path (ws @ [w])" by (rule local_cases)
  then show ?thesis using abs_path_inj [of "ws @ [w]" "[]"] by (auto simp: abs_flat)
qed

lemma moved_under:
  assumes ok: "engine_ok eng" and prev: "good_path p0" "p0 \<noteq> ''/''" and p: "good_path p" "p \<noteq> ''/''"
    and q: "isUnder q (eg_root eng)"
  shows "isUnder (moved_to (localPath eng p0) (localPath eng p) q) (eg_root eng)"
proof (cases "isUnder q (localPath eng p0)")
  case True
  with local_not_root [OF ok prev] have "isUnder (moved_to (localPath eng p0) (localPath eng p) q) (localPath eng p)"
    by (auto simp: moved_to_def isUnder_def prefix_def)
  moreover have "isUnder (localPath eng p) (eg_root eng)" using local_cases [OF ok p] by metis
  moreover have "eg_root eng \<noteq> []" using ok_root [OF ok] by (metis abs_path_def list.distinct(1))
  ultimately show ?thesis by (rule isUnder_trans)
qed (use q in \<open>simp add: moved_to_def\<close>)

lemma moved_onto:
  "moved_to src dst q = dst \<Longrightarrow> q \<noteq> dst \<Longrightarrow> src \<noteq> ''/'' \<Longrightarrow> q = src"
  by (auto simp: moved_to_def isUnder_def prefix_def split: if_splits)

lemma rename_keeps_edit:
  assumes ok: "engine_ok eng" and wf: "wf_disk s" and tr: "tracked_ok s" and e: "e \<in> set (cl_synced s)" "edited_as x e c t"
    and q: "holds T (localPath eng (se_Path e)) (LFile c t) s"
    and node: "good_path (an_Path node)" "an_Path node \<noteq> ''/''"
    and prev: "prev \<in> set (cl_synced s)" and free: "lookup s (localPath eng (an_Path node)) = None"
    and run: "thenM (moveLocal eng prev (an_Path node)) (place eng srv x node) s = (r, s')"
  shows "on_disk eng c s'"
proof -
  let ?q = "localPath eng (se_Path e)" and ?p = "an_Path node"
  let ?m = "moved_to (localPath eng (se_Path prev)) (localPath eng ?p) ?q"
  have good: "good_path (se_Path e)" "se_Path e \<noteq> ''/''" "good_path (se_Path prev)" "se_Path prev \<noteq> ''/''"
    using tr e(1) prev by (auto simp: tracked_ok_def)
  have under: "isUnder ?q (eg_root eng)" using local_cases [OF ok good(1,2)] by metis
  have mu: "isUnder ?m (eg_root eng)" using moved_under [OF ok good(3,4) node under] .
  obtain q2 s2 where mv: "moveLocal eng prev ?p s = (q2, s2)"
    and k: "case q2 of Inl err \<Rightarrow> r = Inl err \<and> s' = s2 | Inr _ \<Rightarrow> place eng srv x node s2 = (r, s')"
    using thenM_split [OF run] by (elim exE conjE) (rule that)
  from moveLocal_survives [OF ok wf mv q node good(3,4) free] show ?thesis
  proof (elim disjE exE conjE)
    assume a: "q2 = Inr ()" "holds T ?m (LFile c t) s2"
      "cl_synced s2 = put_entry (prev\<lparr>se_Path := ?p\<rparr>) (filter (\<lambda>e. se_Path e \<noteq> se_Path prev) (cl_synced s))"
    have edit: "\<exists>f. find (\<lambda>f. se_Path f = ?p) (cl_synced s2) = Some f \<and> edited_as x f c t" if m: "?m = localPath eng ?p"
    proof -
      have "?q \<noteq> localPath eng ?p" using q free by (auto simp: holds_def)
      from moved_onto [OF m this local_not_root [OF ok good(3,4)]] have "se_Path e = se_Path prev"
        by (rule localPath_inj [OF ok good(1,3)])
      then have "prev = e" using find_path [OF tr prev] find_path [OF tr e(1)] by simp
      with e(2) have "edited_as x (prev\<lparr>se_Path := ?p\<rparr>) c t" by (simp add: edited_as_def)
      with a(3) find_put_entry [of "prev\<lparr>se_Path := ?p\<rparr>"] show ?thesis by auto
    qed
    from k a(1) have "place eng srv x node s2 = (r, s')" by simp
    from place_keeps_edit [OF ok node a(2) mu this edit] show ?thesis .
  next
    fix err assume "q2 = Inl err" "holds T ?q (LFile c t) s2"
    with k under show ?thesis by (auto intro: on_disk_holds)
  next
    fix err assume "q2 = Inl err" "holds T ?m (LFile c t) s2"
    with k mu show ?thesis by (auto intro: on_disk_holds)
  qed
qed

lemma upsert_keeps_edit:
  assumes ok: "engine_ok eng" and wf: "wf_disk s" and tr: "tracked_ok s" and e: "e \<in> set (cl_synced s)" "edited_as x e c t"
    and q: "holds (cl_now s) (localPath eng (se_Path e)) (LFile c t) s"
    and ch: "harmless eng s ch" and False: "ac_Kind ch \<noteq> ''delete''" and Some: "ac_Node ch = Some node"
    and run: "applyChange eng srv x ch s = (r, s')"
  shows "on_disk eng c s'"
proof -
  from tr e(1) have good: "good_path (se_Path e)" "se_Path e \<noteq> ''/''" by (auto simp: tracked_ok_def)
  have under: "isUnder (localPath eng (se_Path e)) (eg_root eng)" using local_cases [OF ok good] by metis
  have stay: "on_disk eng c s" using q under by (rule on_disk_holds)
  let ?p = "an_Path node"
  from ch Some have node: "good_path ?p" "?p \<noteq> ''/''" by (auto simp: harmless_def)
  show ?thesis
  proof (cases "excluded s ?p \<or> ignored s ?p (api_IsFolder node)")
    case True
    with False Some run stay show ?thesis by (simp add: applyChange_def bindM_getM ret_iff)
  next
    case go: False
    from False Some go run obtain q1 s1 where g: "GetByNodeID (an_ID node) s = (q1, s1)"
      and k: "case q1 of Inl err \<Rightarrow> r = Inl err \<and> s' = s1 | Inr v \<Rightarrow>
        thenM (case v of Some prev \<Rightarrow> if se_Path prev \<noteq> ?p then moveLocal eng prev ?p else ret () | None \<Rightarrow> ret ())
          (place eng srv x node) s1 = (r, s')"
      by (auto simp: applyChange_def bindM_getM place_def elim!: bindM_cases)
    have s1: "view s1 = view s" using quiet_run [OF quiet_reads(2) g] .
    then have same: "cl_synced s1 = cl_synced s" "lookup s1 = lookup s" by (auto simp: view_def lookup_def fun_eq_iff)
    have q1: "holds (cl_now s) (localPath eng (se_Path e)) (LFile c t) s1"
      using keepsD [OF keeps_quiet [OF quiet_reads(2) view_only_holds] q g] .
    show ?thesis
    proof (cases q1)
      case (Inl err)
      with k q1 under show ?thesis by (auto intro: on_disk_holds)
    next
      case (Inr v)
      note v = node_run [OF g [unfolded Inr]]
      show ?thesis
      proof (cases "\<exists>prev. v = Some prev \<and> se_Path prev \<noteq> ?p")
        case False
        with k Inr have run1: "place eng srv x node s1 = (r, s')" by (auto simp: thenM_ret split: option.splits)
        have "\<exists>f. find (\<lambda>f. se_Path f = ?p) (cl_synced s1) = Some f \<and> edited_as x f c t"
          if "localPath eng (se_Path e) = localPath eng ?p"
          using localPath_inj [OF ok good(1) node(1) that] find_path [OF tr e(1)] e(2) same by auto
        from place_keeps_edit [OF ok node q1 under run1 this] show ?thesis .
      next
        case True
        then obtain prev where prev: "v = Some prev" "se_Path prev \<noteq> ?p" by blast
        with v have "find (\<lambda>e. se_NodeID e = an_ID node) (cl_synced s) = Some prev" by simp
        with ch Some prev(2) same have p: "prev \<in> set (cl_synced s1)" "lookup s1 (localPath eng ?p) = None"
          by (auto simp: harmless_def dest: find_Some_set)
        have "wf_disk s1" "tracked_ok s1" "e \<in> set (cl_synced s1)" using wf tr e(1) same by (auto simp: wf_disk_def tracked_ok_def)
        from rename_keeps_edit [OF ok this e(2) q1 node p] k Inr prev show ?thesis by simp
      qed
    qed
  qed
qed

end
