(* ===== verification/EngineCalls.thy ===== *)
theory EngineCalls
  imports EngineEdits
begin

text \<open>
  The calls the engine makes to change the server's tree.  A recording server keeps the list of them; the
  pull side of the engine makes none, and an upload makes only calls that write the node it is about.
\<close>

section \<open>Calls that change the server\<close>

datatype srv_call = CallCreate string string | CallUpload string string | CallCommit string string
  | CallTrash string | CallMove string

text \<open>A server that records the calls that change its tree, in front of the one given.\<close>

definition unrecorded :: "('s, 'a) m \<Rightarrow> ('s \<times> srv_call list, 'a) m" where
  "unrecorded c = (\<lambda>(s, l). case c s of (r, s') \<Rightarrow> (r, (s', l)))"

definition recorded :: "srv_call \<Rightarrow> ('s, 'a) m \<Rightarrow> ('s \<times> srv_call list, 'a) m" where
  "recorded k c = (\<lambda>(s, l). case c s of (r, s') \<Rightarrow> (r, (s', l @ [k])))"

definition recording :: "'s Server \<Rightarrow> ('s \<times> srv_call list) Server" where
  "recording srv = \<lparr>
     srv_GetRoot = unrecorded (srv_GetRoot srv),
     srv_ListChildren = (\<lambda>nid. unrecorded (srv_ListChildren srv nid)),
     srv_CreateFolder = (\<lambda>pid name. recorded (CallCreate pid name) (srv_CreateFolder srv pid name)),
     srv_Upload = (\<lambda>pid name c. recorded (CallUpload pid name) (srv_Upload srv pid name c)),
     srv_Download = (\<lambda>nid. unrecorded (srv_Download srv nid)),
     srv_Manifest = (\<lambda>nid. unrecorded (srv_Manifest srv nid)),
     srv_HaveChunks = (\<lambda>hs. unrecorded (srv_HaveChunks srv hs)),
     srv_PutChunk = (\<lambda>h c. unrecorded (srv_PutChunk srv h c)),
     srv_GetChunk = (\<lambda>h. unrecorded (srv_GetChunk srv h)),
     srv_CommitManifest = (\<lambda>pid name h hs. recorded (CallCommit pid name) (srv_CommitManifest srv pid name h hs)),
     srv_Trash = (\<lambda>nid. recorded (CallTrash nid) (srv_Trash srv nid)),
     srv_Move = (\<lambda>nid name pid. recorded (CallMove nid) (srv_Move srv nid name pid)),
     srv_Poll = (\<lambda>c n. unrecorded (srv_Poll srv c n))\<rparr>"

definition calls :: "('s \<times> srv_call list) client \<Rightarrow> srv_call list" where
  "calls s = snd (cl_remote s)"

text \<open>A computation that makes none of these calls.\<close>

definition mute :: "(('s \<times> srv_call list) client, 'a) m \<Rightarrow> bool" where
  "mute c \<longleftrightarrow> (\<forall>l. keeps (\<lambda>s. calls s = l) c)"

named_theorems mute_intros

lemma mute_run: "mute c \<Longrightarrow> c s = (r, s') \<Longrightarrow> calls s' = calls s"
  unfolding mute_def using keepsD [of "\<lambda>u. calls u = calls s" c s r s'] by auto

lemma mute_basic [mute_intros]: "mute (ret v)" "mute (raise e)" "mute (getM f)" "mute (ioM e)" "mute (guardM b e)"
  by (auto simp: mute_def fault_free_def calls_def intro!: keeps_intros)

lemma mute_bindM [mute_intros]: "mute c \<Longrightarrow> (\<And>v. mute (f v)) \<Longrightarrow> mute (bindM c f)"
  and mute_thenM [mute_intros]: "mute c \<Longrightarrow> mute d \<Longrightarrow> mute (thenM c d)"
  and mute_catchM [mute_intros]: "mute c \<Longrightarrow> (\<And>e. mute (h e)) \<Longrightarrow> mute (catchM c h)"
  and mute_wrapM [mute_intros]: "mute c \<Longrightarrow> mute (wrapM w c)"
  and mute_tryM [mute_intros]: "mute c \<Longrightarrow> mute (tryM c)"
  by (auto simp: mute_def intro!: keeps_intros)

lemma mute_foldM [mute_intros]: "(\<And>b y. mute (g b y)) \<Longrightarrow> mute (foldM g b ys)"
  by (auto simp: mute_def intro!: keeps_intros)

lemma mute_cases [mute_intros]:
  "(b \<Longrightarrow> mute c) \<Longrightarrow> (\<not> b \<Longrightarrow> mute d) \<Longrightarrow> mute (if b then c else d)"
  "(o' = None \<Longrightarrow> mute c) \<Longrightarrow> (\<And>y. o' = Some y \<Longrightarrow> mute (d' y)) \<Longrightarrow> mute (case o' of None \<Rightarrow> c | Some y \<Rightarrow> d' y)"
  "(\<And>e. u = Inl e \<Longrightarrow> mute (f e)) \<Longrightarrow> (\<And>y. u = Inr y \<Longrightarrow> mute (g y)) \<Longrightarrow> mute (case u of Inl e \<Rightarrow> f e | Inr y \<Rightarrow> g y)"
  "(\<And>a b. p = (a, b) \<Longrightarrow> mute (h a b)) \<Longrightarrow> mute (case p of (a, b) \<Rightarrow> h a b)"
  by (auto split: option.split sum.split prod.split)

lemma mute_modM: "(\<And>s. calls (f s) = calls s) \<Longrightarrow> mute (modM f)"
  by (auto simp: mute_def intro!: keeps_intros)

lemma mute_state: "(\<And>s. calls (snd (c s)) = calls s) \<Longrightarrow> mute c"
  by (simp add: mute_def keeps_def)

lemma mute_remote [mute_intros]: "mute (remoteM (unrecorded c))"
  by (auto simp: unrecorded_def remoteM_def calls_def split: prod.split intro!: mute_state)

lemma recording_simps [simp]:
  "srv_GetRoot (recording srv) = unrecorded (srv_GetRoot srv)"
  "srv_ListChildren (recording srv) nid = unrecorded (srv_ListChildren srv nid)"
  "srv_CreateFolder (recording srv) pid name = recorded (CallCreate pid name) (srv_CreateFolder srv pid name)"
  "srv_Upload (recording srv) pid name c = recorded (CallUpload pid name) (srv_Upload srv pid name c)"
  "srv_Download (recording srv) nid = unrecorded (srv_Download srv nid)"
  "srv_Manifest (recording srv) nid = unrecorded (srv_Manifest srv nid)"
  "srv_HaveChunks (recording srv) hs = unrecorded (srv_HaveChunks srv hs)"
  "srv_PutChunk (recording srv) h c = unrecorded (srv_PutChunk srv h c)"
  "srv_GetChunk (recording srv) h = unrecorded (srv_GetChunk srv h)"
  "srv_CommitManifest (recording srv) pid name h hs = recorded (CallCommit pid name) (srv_CommitManifest srv pid name h hs)"
  "srv_Trash (recording srv) nid = recorded (CallTrash nid) (srv_Trash srv nid)"
  "srv_Poll (recording srv) k n = unrecorded (srv_Poll srv k n)"
  by (simp_all add: recording_def)

lemma mute_disk [mute_intros]:
  "mute (os_Stat p)" "mute (os_Mkdir p)" "mute (os_Remove p)" "mute (os_Rename p p')" "mute (os_CreateExcl p)"
  unfolding os_Stat_def os_Mkdir_def os_Remove_def os_Rename_def os_CreateExcl_def
  by (intro mute_thenM mute_basic mute_state;
      auto simp: calls_def disk_put_def disk_del_def disk_move_def split: option.split lnode.split)+

lemma mute_disk2 [mute_intros]:
  "mute (os_ReadFile p)" "mute (os_MkdirAll p)" "mute (os_RemoveAll p)" "mute (os_WriteFile p c)"
  unfolding os_ReadFile_def os_MkdirAll_def os_RemoveAll_def os_WriteFile_def
  by (intro mute_intros mute_modM; auto simp: calls_def disk_put_def disk_del_def split: lnode.split intro!: mute_intros)+

lemma mute_db [mute_intros]:
  "mute (st_Get p)" "mute (GetByNodeID nid)" "mute st_List" "mute st_Count" "mute st_Empty" "mute st_Cursor"
  "mute (st_Put e)" "mute (st_Delete p)" "mute (SetCursor k)" "mute (countPull n)" "mute (countPush n)" "mute (recordConflict a b)"
  unfolding st_Get_def GetByNodeID_def st_List_def st_Count_def st_Empty_def st_Cursor_def st_Put_def st_Delete_def SetCursor_def
    countPull_def countPush_def recordConflict_def
  by (intro mute_intros mute_modM; simp add: calls_def Let_def)+

lemma mute_status [mute_intros]: "mute (localStatus eng x e)" "mute (forgetSubtree p)"
  unfolding localStatus_def hashFile_def forgetSubtree_def by (intro mute_intros)+

lemma mute_free_name [mute_intros]: "mute (free_name eng p k n)"
proof (induction k arbitrary: n)
  case (Suc k)
  show ?case
    unfolding free_name.simps
    by (rule mute_bindM, rule mute_basic, rule mute_bindM, rule mute_tryM, rule mute_disk, rule mute_cases(3),
        rule mute_cases(1), rule mute_basic, rule mute_basic, rule Suc.IH)
qed (simp add: mute_basic)

lemma mute_transfer [mute_intros]:
  "mute (conflictCopy eng e)" "mute (tempFile eng)" "mute (fetch_content (recording srv) nid)"
  unfolding conflictCopy_def Let_def tempFile_def fetch_content_def recording_simps
  by (intro mute_intros mute_state; auto simp: calls_def split: list.split)+

lemma mute_pull [mute_intros]:
  "mute (downloadFile eng (recording srv) x node p)" "mute (pullDown eng (recording srv) x node)"
  "mute (materializeFolder eng node)" "mute (materializeFile eng (recording srv) x node)"
  "mute (removeVanished eng x e)" "mute (applyDelete eng x nid)" "mute (moveLocal eng e p)"
  "mute (applyFileUpsert eng (recording srv) x node)" "mute (applyChange eng (recording srv) x ch)"
  unfolding downloadFile_def pullDown_def materializeFolder_def materializeFile_def removeVanished_def applyDelete_def
    remove_file_def moveLocal_def applyFileUpsert_def applyChange_def Let_def
  by (intro mute_intros)+

lemma mute_queue: "mute (reconcile_queue eng (recording srv) x k st)"
proof (induction eng "recording srv" x k st rule: reconcile_queue.induct)
  case (3 eng x k q queue seen)
  have "mute (reconcile_child eng (recording srv) x st node)" for st node
    unfolding reconcile_child_def Let_def by (intro mute_intros)
  then show ?case unfolding reconcile_queue.simps recording_simps by (intro mute_bindM mute_remote mute_foldM 3)
qed (simp_all add: mute_basic)

lemma mute_reconcile [mute_intros]: "mute (reconcileTree eng (recording srv) x k)"
  unfolding reconcileTree_def by (intro mute_intros mute_queue)

lemma mute_poll: "mute (poll_loop eng (recording srv) x k j cursor)"
proof (induction j arbitrary: cursor)
  case (Suc j)
  show ?case unfolding poll_loop.simps recording_simps by (intro mute_bindM mute_remote mute_cases(1) mute_thenM mute_intros Suc.IH)
qed (simp add: mute_basic)

lemma mute_sync [mute_intros]:
  "mute (pull eng (recording srv) x k)" "mute (ensureRoot eng (recording srv))" "mute (pruneExcluded eng x)"
  unfolding pull_def latestSeq_def applyRemote_def ensureRoot_def loadIgnore_def pruneExcluded_def prune_scan_def recording_simps Let_def
  by (intro mute_intros mute_poll mute_modM; simp add: calls_def)+

section \<open>One visit of the scan\<close>

lemma still: "quiet c \<Longrightarrow> mute c \<Longrightarrow> c s = (r, s') \<Longrightarrow> view s' = view s \<and> calls s' = calls s"
  using quiet_run mute_run by blast

lemma quiet_split [quiet_intros]: "(\<And>a c. quiet (fn a c)) \<Longrightarrow> quiet (cl_Split x r fn b)"
  unfolding cl_Split_def cl_emit_def by (intro quiet_intros)

lemma mute_split [mute_intros]: "(\<And>a c. mute (fn a c)) \<Longrightarrow> mute (cl_Split x r fn b)"
  unfolding cl_Split_def cl_emit_def by (intro mute_intros)

lemma recorded_run:
  "remoteM (recorded k c) s = (r, s') \<Longrightarrow> view s' = view s \<and> calls s' = calls s @ [k]"
  by (auto simp: remoteM_def recorded_def calls_def view_def split: prod.splits)

text \<open>The calls that create or replace the node at path \<open>p\<close> in the folder \<open>pid\<close>.\<close>

definition writes_node :: "srv_call \<Rightarrow> string \<Rightarrow> string \<Rightarrow> bool" where
  "writes_node k p pid \<longleftrightarrow> k \<in> {CallCreate pid (baseName p), CallUpload pid (baseName p), CallCommit pid (baseName p)}"

lemma upload_effect:
  assumes "uploadFile eng (recording srv) x p pid s = (r, s')"
  shows "view s' = view s \<and> (\<exists>new. calls s' = calls s @ new \<and> (\<forall>k \<in> set new. writes_node k p pid))"
proof -
  let ?l = "localPath eng p"
  have whole: "view t' = view t \<and> (\<exists>new. calls t' = calls t @ new \<and> (\<forall>k \<in> set new. writes_node k p pid))"
    if run: "uploadWhole (recording srv) x ?l pid (baseName p) t = (r', t')" for r' t t'
  proof -
    from run consider (err) q where "os_ReadFile ?l t = (q, t')"
      | (sent) t1 q content where "os_ReadFile ?l t = (Inr content, t1)"
        "remoteM (recorded (CallUpload pid (baseName p)) (srv_Upload srv pid (baseName p) content)) t1 = (q, t')"
      unfolding uploadWhole_def recording_simps by (auto simp: ret_iff elim!: bindM_cases)
    then show ?thesis
    proof cases
      case err
      with still [OF quiet_read mute_disk2(1)] show ?thesis by fastforce
    next
      case sent
      with still [OF quiet_read mute_disk2(1) sent(1)] recorded_run [OF sent(2)] show ?thesis by (simp add: writes_node_def)
    qed
  qed
  have chunked: "view t' = view t \<and> (\<exists>new. calls t' = calls t @ new \<and> (\<forall>k \<in> set new. writes_node k p pid))"
    if run: "uploadChunked (recording srv) x ?l pid (baseName p) t = (r', t')" for r' t t'
  proof -
    define prep where "prep = bindM (hashChunks x ?l) (\<lambda>(order, whole).
     bindM (remoteM (unrecorded (srv_HaveChunks srv (dedupe order)))) (\<lambda>need.
     thenM (if need = [] then ret ()
            else bindM (os_ReadFile ?l) (\<lambda>content.
              bindM (cl_Split x (content, False) (send_chunk (recording srv) need) []) (\<lambda>_. ret ())))
     (ret (order, whole))))"
    have q: "quiet prep" "mute prep"
      unfolding prep_def hashChunks_def collect_hash_def send_chunk_def recording_simps Let_def
      by (intro quiet_intros, intro mute_intros)
    have split: "uploadChunked (recording srv) x ?l pid (baseName p) = bindM prep (\<lambda>(order, whole).
        bindM (remoteM (recorded (CallCommit pid (baseName p)) (srv_CommitManifest srv pid (baseName p) whole order))) (\<lambda>node. ret (node, whole)))"
      unfolding uploadChunked_def prep_def recording_simps
      by (simp add: fun_eq_iff bindM_def thenM_def ret_def split: prod.split sum.split)
    from run consider (err) q where "prep t = (q, t')"
      | (sent) t1 q order whole where "prep t = (Inr (order, whole), t1)"
        "remoteM (recorded (CallCommit pid (baseName p)) (srv_CommitManifest srv pid (baseName p) whole order)) t1 = (q, t')"
      unfolding split by (auto simp: ret_iff elim!: bindM_cases)
    then show ?thesis
    proof cases
      case err
      with still [OF q] show ?thesis by fastforce
    next
      case sent
      with still [OF q sent(1)] recorded_run [OF sent(2)] show ?thesis by (simp add: writes_node_def)
    qed
  qed
  from assms obtain q s1 where st: "os_Stat ?l s = (q, s1)"
    and k: "case q of Inl e \<Rightarrow> s' = s1 | Inr info \<Rightarrow>
      (if info_Size info < cl_WholeFileThreshold then uploadWhole (recording srv) x ?l pid (baseName p)
       else uploadChunked (recording srv) x ?l pid (baseName p)) s1 = (r, s')"
    unfolding uploadFile_def Let_def by (auto elim!: bindM_cases)
  from still [OF quiet_stat mute_disk(1) st] k whole [of s1 r s'] chunked [of s1 r s'] show ?thesis
    by (cases q) (auto split: if_splits)
qed

end
