(* ===== verification/EnginePush.thy ===== *)
theory EnginePush
  imports EngineCalls
begin

text \<open>
  The push side of the engine.  The scan visits every name below the root in lexical order; its invariant
  (\<open>walk_inv\<close>) says which server paths it has seen, which directories it skips, and that every changing call so far
  writes a path the scan offers.  What is left of the state database afterwards decides the deletions.
\<close>

section \<open>The walk below the root\<close>

lemma strict_prefix_less: "strict_prefix vs ws \<Longrightarrow> vs < (ws :: 'a :: order list)"
proof (induction vs arbitrary: ws)
  case Nil
  then show ?case by (cases ws) (auto simp: strict_prefix_def)
next
  case (Cons v vs)
  then show ?case by (cases ws) (auto simp: strict_prefix_def)
qed

text \<open>A directory comes before what is below it.\<close>

lemma walk_key_below:
  assumes "list_all good_seg vs" "vs \<noteq> []" "list_all good_seg ws" "strict_prefix vs ws"
  shows "walk_key (abs_path vs) < walk_key (abs_path ws)"
  using assms strict_prefix_less [OF assms(4)] by (auto simp: walk_key_def Split_abs)

lemma paths_below_parts:
  "set (paths_below s p) = {q. lookup s q \<noteq> None \<and> isUnder q p}"
  "distinct (map fst (cl_disk s)) \<Longrightarrow> distinct (paths_below s p)"
  "sorted (map walk_key (paths_below s p))"
proof -
  have "set (paths_below s p) = {q \<in> fst ` set (cl_disk s). isUnder q p}" by (auto simp: paths_below_def)
  then show "set (paths_below s p) = {q. lookup s q \<noteq> None \<and> isUnder q p}" unfolding lookup_keys by blast
qed (auto simp: paths_below_def distinct_filter)

text \<open>What is on disk below the root is the local path of a clean server path.\<close>

lemma disk_path:
  assumes "engine_ok eng" "wf_disk s" "lookup s full \<noteq> None" "isUnder full (eg_root eng)"
  obtains p where "good_path p" "serverPath eng full = Some p" "full = localPath eng p" "p = ''/'' \<longleftrightarrow> full = eg_root eng"
proof -
  obtain rs where rs: "list_all good_seg rs" "eg_root eng = abs_path rs" "rs \<noteq> []" by (rule ok_root [OF assms(1)])
  from assms(2,3) obtain fs where fs: "list_all good_seg fs" "full = abs_path fs" by (auto simp: wf_disk_def good_path_def)
  with rs assms(4) obtain ws where ws: "fs = rs @ ws" by (auto simp: isUnder_abs prefix_def)
  with fs have g: "list_all good_seg ws" by simp
  show thesis
  proof
    show "good_path (abs_path ws)" using g by simp
    show "serverPath eng full = Some (abs_path ws)" using serverPath_abs [OF rs(1,2) g] fs ws by simp
    show "full = localPath eng (abs_path ws)" using localPath_abs [OF rs(1,3,2) g] fs ws by simp
    show "abs_path ws = ''/'' \<longleftrightarrow> full = eg_root eng" using fs rs ws abs_path_inj [of ws "[]"] abs_path_inj [of "rs @ ws" rs] g
      by (auto simp: abs_flat)
  qed
qed

lemma serverPath_local:
  assumes "engine_ok eng" "good_path p"
  shows "serverPath eng (localPath eng p) = Some p" "isUnder (localPath eng p) (eg_root eng)" "good_path (localPath eng p)"
proof -
  obtain rs where rs: "list_all good_seg rs" "eg_root eng = abs_path rs" "rs \<noteq> []" by (rule ok_root [OF assms(1)])
  from assms(2) obtain ws where ws: "list_all good_seg ws" "p = abs_path ws" by (auto simp: good_path_def)
  show "serverPath eng (localPath eng p) = Some p"
    using serverPath_abs [OF rs(1,2) ws(1)] localPath_abs [OF rs(1,3,2) ws(1)] ws(2) by simp
  show "isUnder (localPath eng p) (eg_root eng)" "good_path (localPath eng p)"
    using localPath_abs [OF rs(1,3,2) ws(1)] ws rs by (simp_all add: isUnder_abs)
qed

lemma isUnder_local:
  assumes "engine_ok eng" "good_path p" "good_path q"
  shows "isUnder (localPath eng p) (localPath eng q) \<longleftrightarrow> isUnder p q"
proof -
  obtain rs where rs: "list_all good_seg rs" "eg_root eng = abs_path rs" "rs \<noteq> []" by (rule ok_root [OF assms(1)])
  from assms(2,3) obtain ws vs where "list_all good_seg ws" "p = abs_path ws" "list_all good_seg vs" "q = abs_path vs"
    by (auto simp: good_path_def)
  with rs show ?thesis by (simp add: localPath_abs isUnder_abs)
qed

lemma under_self: "isUnder p p" by (simp add: isUnder_def)

lemma walk_before:
  assumes ok: "engine_ok eng" and wf: "wf_disk s" and ps: "paths_below s (eg_root eng) = ys @ y # zs"
    and d: "lookup s d \<noteq> None" "isUnder d (eg_root eng)" "isUnder y d" "d \<noteq> y"
  shows "d \<in> set ys"
proof (rule ccontr)
  assume "d \<notin> set ys"
  with ps d paths_below_parts(1) [of s "eg_root eng"] have z: "d \<in> set zs" by auto
  obtain rs where rs: "list_all good_seg rs" "eg_root eng = abs_path rs" "rs \<noteq> []" by (rule ok_root [OF ok])
  have y: "lookup s y \<noteq> None" using ps paths_below_parts(1) [of s "eg_root eng"] by auto
  with wf d(1) obtain ws vs where a: "list_all good_seg ws" "y = abs_path ws" "list_all good_seg vs" "d = abs_path vs"
    unfolding wf_disk_def good_path_def by (meson option.exhaust)
  with d rs have "prefix vs ws" "vs \<noteq> ws" "prefix rs vs" by (auto simp: isUnder_abs)
  then have "walk_key d < walk_key y" using walk_key_below [of vs ws] a rs(3) by (cases vs) (auto simp: strict_prefix_def)
  moreover have "walk_key y \<le> walk_key d" using paths_below_parts(3) [of s "eg_root eng"] ps z by (auto simp: sorted_append)
  ultimately show False by simp
qed

section \<open>Selected paths\<close>

text \<open>
  A path is hidden when it is in the state directory or when it is, or is below, a local directory that is
  excluded or ignored.
\<close>

definition skip_dir :: "engine \<Rightarrow> 's client \<Rightarrow> string \<Rightarrow> bool" where
  "skip_dir eng s d \<longleftrightarrow> lookup s (localPath eng d) \<noteq> None \<and>
     (localPath eng d = eg_stateDir eng \<or>
      (d \<noteq> ''/'' \<and> lookup s (localPath eng d) = Some LDir \<and> (excluded s d \<or> ignored s d True)))"

definition hidden :: "engine \<Rightarrow> 's client \<Rightarrow> string \<Rightarrow> bool" where
  "hidden eng s p \<longleftrightarrow> list_ex (skip_dir eng s) (''/'' # ancestors p @ [p])"

definition selected :: "'s client \<Rightarrow> string \<Rightarrow> bool \<Rightarrow> bool" where
  "selected s p isDir \<longleftrightarrow> \<not> excluded s p \<and> \<not> ignored s p isDir"

text \<open>The server paths the scan offers for upload: a file or a directory is there, and nothing hides it.\<close>

definition offered :: "engine \<Rightarrow> 's client \<Rightarrow> string \<Rightarrow> bool" where
  "offered eng s p \<longleftrightarrow> p \<noteq> ''/'' \<and> \<not> hidden eng s p \<and>
     (case lookup s (localPath eng p) of
        Some LDir \<Rightarrow> selected s p True | Some (LFile c t) \<Rightarrow> selected s p False | _ \<Rightarrow> False)"

lemma hidden_iff: "good_path p \<Longrightarrow> hidden eng s p \<longleftrightarrow> (\<exists>d. good_path d \<and> isUnder p d \<and> skip_dir eng s d)"
proof -
  assume "good_path p"
  then obtain ws where ws: "list_all good_seg ws" "p = abs_path ws" by (auto simp: good_path_def)
  have "set (''/'' # ancestors p @ [p]) = {d. good_path d \<and> isUnder p d}"
  proof -
    have "{d. good_path d \<and> isUnder p d} = abs_path ` {vs. prefix vs ws}"
    proof -
      have "list_all good_seg vs" if "prefix vs ws" for vs using ws(1) set_mono_prefix [OF that] by (auto simp: list_all_iff)
      with ws show ?thesis by (auto simp: good_path_def isUnder_abs)
    qed
    moreover have "{vs. prefix vs ws} = insert [] (insert ws {vs. strict_prefix vs ws \<and> vs \<noteq> []})" by (auto simp: strict_prefix_def)
    ultimately have "{d. good_path d \<and> isUnder p d} = insert (abs_path []) (insert p (set (ancestors p)))"
      using ws by (simp only: set_ancestors_abs image_insert)
    moreover have "abs_path [] = ''/''" by (simp add: abs_flat)
    ultimately show ?thesis by (simp only: list.set set_append) blast
  qed
  then show ?thesis unfolding hidden_def list_ex_iff by blast
qed


section \<open>One visit\<close>

text \<open>The node the new child goes into.\<close>

definition parent_known :: "Entry list \<Rightarrow> string \<Rightarrow> string \<Rightarrow> string \<Rightarrow> bool" where
  "parent_known es rid p pid \<longleftrightarrow>
     (if parentPath p = ''/'' then pid = rid else \<exists>e \<in> set es. se_Path e = parentPath p \<and> se_NodeID e = pid)"

definition site :: "'s client \<Rightarrow> (string \<times> lnode) list \<times> string \<times> string list option \<times> Matcher option" where
  "site s = (cl_disk s, cl_rootID s, cl_excludes s, cl_ignore s)"

definition node_step :: "string \<Rightarrow> ('s \<times> srv_call list) client \<Rightarrow> ('s \<times> srv_call list) client \<Rightarrow> bool" where
  "node_step p s s' \<longleftrightarrow> site s' = site s \<and>
     (cl_synced s' = cl_synced s \<or> (\<exists>e. se_Path e = p \<and> cl_synced s' = put_entry e (cl_synced s))) \<and>
     (\<exists>new. calls s' = calls s @ new \<and> (\<forall>k \<in> set new. \<exists>pid. writes_node k p pid \<and> parent_known (cl_synced s) (cl_rootID s) p pid))"

lemma view_site: "view s' = view s \<Longrightarrow> site s' = site s \<and> cl_synced s' = cl_synced s"
  by (simp add: view_def site_def)

lemma node_step_still: "view s' = view s \<Longrightarrow> calls s' = calls s \<Longrightarrow> node_step p s s'"
  unfolding node_step_def using view_site [of s' s] by auto

lemma node_step_before:
  "view t = view s \<Longrightarrow> calls t = calls s \<Longrightarrow> node_step p t s' \<Longrightarrow> node_step p s s'"
  by (auto simp: node_step_def site_def view_def)

lemma st_Get_run: "st_Get p s = (q, t) \<Longrightarrow> view t = view s \<and> calls t = calls s \<and>
    (\<forall>v. q = Inr v \<longrightarrow> v = find (\<lambda>e. se_Path e = p) (cl_synced s))"
  using still [OF quiet_reads(1) mute_db(1), of p s q t]
  by (auto simp: st_Get_def getM_iff ioM_def elim!: thenM_cases split: list.splits if_splits)

lemma put_step:
  assumes "st_Put e s = (r, s')" "se_Path e = p"
  shows "node_step p s s'"
proof -
  have "site s' = site s" "calls s' = calls s" "cl_synced s' = cl_synced s \<or> cl_synced s' = put_entry e (cl_synced s)"
    using assms(1) by (auto simp: st_Put_def ioM_def thenM_def bindM_def modM_def site_def calls_def split: list.splits if_splits)
  with assms(2) show ?thesis by (auto simp: node_step_def)
qed

lemma parentNode_run:
  assumes "parentNodeID p s = (q, t)"
  shows "view t = view s \<and> calls t = calls s \<and> (\<forall>pid. q = Inr pid \<longrightarrow> parent_known (cl_synced s) (cl_rootID s) p pid)"
proof (cases "parentPath p = ''/''")
  case True
  with assms show ?thesis by (auto simp: parentNodeID_def getM_def parent_known_def)
next
  case False
  with assms obtain q1 where g: "st_Get (parentPath p) s = (q1, t)"
    and k: "case q1 of Inl e \<Rightarrow> q = Inl e | Inr None \<Rightarrow> (\<exists>e. q = Inl e) | Inr (Some e) \<Rightarrow> q = Inr (se_NodeID e)"
    by (auto simp: parentNodeID_def run_iffs elim!: bindM_cases split: option.splits)
  from st_Get_run [OF g] k False show ?thesis
    by (auto simp: parent_known_def split: sum.splits option.splits dest: find_Some_set)
qed

lemma node_step_after:
  assumes "view t = view s" "calls t = calls s @ new" "\<forall>k \<in> set new. writes_node k p pid"
    and "parent_known (cl_synced s) (cl_rootID s) p pid" and "node_step p t s'"
  shows "node_step p s s'"
proof -
  from assms(1) have t: "site t = site s" "cl_synced t = cl_synced s" "cl_rootID t = cl_rootID s" by (auto simp: view_def site_def)
  from assms(5) obtain new' where n: "calls s' = calls t @ new'"
    "\<forall>k \<in> set new'. \<exists>pid. writes_node k p pid \<and> parent_known (cl_synced t) (cl_rootID t) p pid"
    by (auto simp: node_step_def)
  with assms(2-4) t have "calls s' = calls s @ new @ new'"
    "\<forall>k \<in> set (new @ new'). \<exists>pid. writes_node k p pid \<and> parent_known (cl_synced s) (cl_rootID s) p pid" by auto
  with assms(5) t show ?thesis unfolding node_step_def by auto
qed

lemma bindM_split:
  "bindM c f s = (r, s') \<Longrightarrow> \<exists>q t. c s = (q, t) \<and> (case q of Inl e \<Rightarrow> r = Inl e \<and> s' = t | Inr v \<Rightarrow> f v t = (r, s'))"
  by (erule bindM_cases) auto

lemma adopt_step: "adoptExistingFolder (recording srv) p pid s = (r, s') \<Longrightarrow> node_step p s s'"
proof -
  assume "adoptExistingFolder (recording srv) p pid s = (r, s')"
  then obtain q t where l: "remoteM (unrecorded (srv_ListChildren srv pid)) s = (q, t)"
    and k: "case q of Inl e \<Rightarrow> s' = t | Inr children \<Rightarrow>
      (case find (\<lambda>c. an_Name c = baseName p \<and> an_Kind c = ''folder'') children of
         Some c \<Rightarrow> st_Put (folder_entry p (an_ID c)) | None \<Rightarrow> ret ()) t = (r, s')"
    by (auto simp: adoptExistingFolder_def elim!: bindM_cases)
  note t = still [OF quiet_remoteM mute_remote l]
  show ?thesis
  proof (cases q)
    case (Inl e)
    with t k show ?thesis by (simp add: node_step_still)
  next
    case (Inr children)
    show ?thesis
    proof (cases "find (\<lambda>c. an_Name c = baseName p \<and> an_Kind c = ''folder'') children")
      case None
      with t k Inr show ?thesis by (simp add: node_step_still ret_iff)
    next
      case (Some c)
      with k Inr have "st_Put (folder_entry p (an_ID c)) t = (r, s')" by simp
      from put_step [OF this] have "node_step p t s'" by (simp add: folder_entry_def)
      with t show ?thesis by (blast intro: node_step_before)
    qed
  qed
qed

lemma pushFolder_step:
  assumes "pushFolder (recording srv) p s = (r, s')"
  shows "node_step p s s'"
proof -
  from assms obtain q t where g: "st_Get p s = (q, t)"
    and k: "case q of Inl e \<Rightarrow> s' = t | Inr v \<Rightarrow> (if v \<noteq> None then ret () else
       bindM (parentNodeID p) (\<lambda>parentID.
       bindM (tryM (remoteM (recorded (CallCreate parentID (baseName p)) (srv_CreateFolder srv parentID (baseName p))))) (\<lambda>q. case q of
         Inl err \<Rightarrow>
           if IsConflict err then adoptExistingFolder (recording srv) p parentID
           else if IsNotFound err then ret ()
           else raise err
       | Inr node \<Rightarrow> st_Put (folder_entry p (an_ID node))))) t = (r, s')"
    unfolding pushFolder_def recording_simps by (auto elim!: bindM_cases)
  from st_Get_run [OF g] have t: "view t = view s" "calls t = calls s" by auto
  show ?thesis
  proof (cases "\<exists>e v. q = Inl e \<or> q = Inr (Some v)")
    case True
    with k t show ?thesis by (auto simp: ret_iff intro: node_step_still)
  next
    case False
    then have "q = Inr None" by (metis option.exhaust sum.exhaust)
    with k have run: "bindM (parentNodeID p) (\<lambda>parentID.
       bindM (tryM (remoteM (recorded (CallCreate parentID (baseName p)) (srv_CreateFolder srv parentID (baseName p))))) (\<lambda>q. case q of
         Inl err \<Rightarrow>
           if IsConflict err then adoptExistingFolder (recording srv) p parentID
           else if IsNotFound err then ret ()
           else raise err
       | Inr node \<Rightarrow> st_Put (folder_entry p (an_ID node)))) t = (r, s')" by simp
    obtain q1 t1 where pn: "parentNodeID p t = (q1, t1)"
      and k1: "case q1 of Inl e \<Rightarrow> r = Inl e \<and> s' = t1 | Inr pid \<Rightarrow>
       bindM (tryM (remoteM (recorded (CallCreate pid (baseName p)) (srv_CreateFolder srv pid (baseName p))))) (\<lambda>q. case q of
         Inl err \<Rightarrow>
           if IsConflict err then adoptExistingFolder (recording srv) p pid
           else if IsNotFound err then ret ()
           else raise err
       | Inr node \<Rightarrow> st_Put (folder_entry p (an_ID node))) t1 = (r, s')"
      using bindM_split [OF run] by (elim exE conjE) (rule that)
    note t1 = parentNode_run [OF pn]
    have "node_step p t s'"
    proof (cases q1)
      case (Inl e)
      with k1 t1 show ?thesis by (auto intro: node_step_still)
    next
      case (Inr pid)
      with k1 obtain q2 t2 where c: "remoteM (recorded (CallCreate pid (baseName p)) (srv_CreateFolder srv pid (baseName p))) t1 = (q2, t2)"
        and k2: "(case q2 of
         Inl err \<Rightarrow>
           if IsConflict err then adoptExistingFolder (recording srv) p pid
           else if IsNotFound err then ret ()
           else raise err
       | Inr node \<Rightarrow> st_Put (folder_entry p (an_ID node))) t2 = (r, s')"
        by (auto elim!: bindM_cases tryM_run)
      have "node_step p t2 s'"
      proof (cases q2)
        case (Inl err)
        with k2 show ?thesis by (auto simp: run_iffs node_step_still split: if_splits dest: adopt_step)
      next
        case (Inr node)
        with k2 put_step [of "folder_entry p (an_ID node)" t2 r s' p] show ?thesis by (simp add: folder_entry_def)
      qed
      moreover note recorded_run [OF c]
      moreover have "writes_node (CallCreate pid (baseName p)) p pid" by (simp add: writes_node_def)
      ultimately show ?thesis
        using node_step_after [of t2 t "[CallCreate pid (baseName p)]" p pid s'] t1 Inr by auto
    qed
    with t show ?thesis by (blast intro: node_step_before)
  qed
qed

lemma countPush_run: "thenM (countPush n) c s = (r, s') \<Longrightarrow> \<exists>t. view t = view s \<and> calls t = calls s \<and> c t = (r, s')"
proof -
  assume run: "thenM (countPush n) c s = (r, s')"
  let ?t = "s\<lparr>cl_pushed := (fst (cl_pushed s) + 1, snd (cl_pushed s) + n)\<rparr>"
  from run have "c ?t = (r, s')" by (simp add: countPush_def thenM_def bindM_def modM_def)
  moreover have "view ?t = view s" "calls ?t = calls s" by (simp_all add: view_def calls_def)
  ultimately show ?thesis by blast
qed

lemma pushFile_step:
  fixes s :: "('s \<times> srv_call list) client"
  assumes "pushFile eng (recording srv) x p s = (r, s')"
  shows "node_step p s s'"
proof -
  define prep :: "(('s \<times> srv_call list) client, bool) m" where "prep = bindM (st_Get p) (\<lambda>r. case r of None \<Rightarrow> ret True
       | Some e \<Rightarrow> bindM (localStatus eng x e) (\<lambda>(exists, changed). ret (exists \<and> changed)))"
  define put :: "Node \<times> string \<Rightarrow> (('s \<times> srv_call list) client, unit) m" where "put = (\<lambda>(node, localHash). bindM (os_Stat (localPath eng p)) (\<lambda>info.
       thenM (countPush (info_Size info))
       (st_Put \<lparr>se_Path = p, se_NodeID = an_ID node, se_Kind = ''file'', se_Size = info_Size info,
          se_MtimeUnix = info_ModTime info, se_Hash = localHash, se_RemoteHash = ContentHash node\<rparr>)))"
  have q: "quiet prep" "mute prep" unfolding prep_def by (intro quiet_intros, intro mute_intros)
  have "pushFile eng (recording srv) x p = bindM prep (\<lambda>send. if \<not> send then ret () else
       bindM (parentNodeID p) (\<lambda>pid. bindM (uploadFile eng (recording srv) x p pid) put))"
    by (simp add: pushFile_def prep_def put_def fun_eq_iff bindM_def split: prod.split sum.split)
  with assms have run: "bindM prep (\<lambda>send. if \<not> send then ret () else
       bindM (parentNodeID p) (\<lambda>pid. bindM (uploadFile eng (recording srv) x p pid) put)) s = (r, s')" by simp
  obtain b t where g: "prep s = (b, t)"
    and k: "case b of Inl e \<Rightarrow> r = Inl e \<and> s' = t | Inr send \<Rightarrow> (if \<not> send then ret () else
       bindM (parentNodeID p) (\<lambda>pid. bindM (uploadFile eng (recording srv) x p pid) put)) t = (r, s')"
    using bindM_split [OF run] by (elim exE conjE) (rule that)
  have t: "view t = view s" "calls t = calls s" using still [OF q g] by auto
  have put: "node_step p t2 s'" if put_run: "put nh t2 = (r, s')" for nh t2
  proof -
    obtain node h where nh: "nh = (node, h)" by fastforce
    from bindM_split [OF put_run [unfolded put_def nh prod.case]] obtain q t3 where st: "os_Stat (localPath eng p) t2 = (q, t3)"
      and k: "case q of Inl e \<Rightarrow> r = Inl e \<and> s' = t3 | Inr info \<Rightarrow> thenM (countPush (info_Size info))
       (st_Put \<lparr>se_Path = p, se_NodeID = an_ID node, se_Kind = ''file'', se_Size = info_Size info,
          se_MtimeUnix = info_ModTime info, se_Hash = h, se_RemoteHash = ContentHash node\<rparr>) t3 = (r, s')" by blast
    note t3 = still [OF quiet_stat mute_disk(1) st]
    show ?thesis
    proof (cases q)
      case (Inl e)
      with k t3 show ?thesis by (auto intro: node_step_still)
    next
      case (Inr info)
      with k have "thenM (countPush (info_Size info))
       (st_Put \<lparr>se_Path = p, se_NodeID = an_ID node, se_Kind = ''file'', se_Size = info_Size info,
          se_MtimeUnix = info_ModTime info, se_Hash = h, se_RemoteHash = ContentHash node\<rparr>) t3 = (r, s')" by simp
      from countPush_run [OF this] obtain t4 where t4: "view t4 = view t3" "calls t4 = calls t3"
        and p: "st_Put \<lparr>se_Path = p, se_NodeID = an_ID node, se_Kind = ''file'', se_Size = info_Size info,
          se_MtimeUnix = info_ModTime info, se_Hash = h, se_RemoteHash = ContentHash node\<rparr> t4 = (r, s')" by blast
      have "node_step p t4 s'" by (rule put_step [OF p]) simp
      with t3 t4 show ?thesis by (intro node_step_before [of t4 t2]) simp_all
    qed
  qed
  have send: "node_step p t s'"
    if run: "bindM (parentNodeID p) (\<lambda>pid. bindM (uploadFile eng (recording srv) x p pid) put) t = (r, s')"
  proof -
    from bindM_split [OF run] obtain q1 t1 where pn: "parentNodeID p t = (q1, t1)"
      and k1: "case q1 of Inl e \<Rightarrow> r = Inl e \<and> s' = t1 | Inr pid \<Rightarrow> bindM (uploadFile eng (recording srv) x p pid) put t1 = (r, s')"
      by blast
    note t1 = parentNode_run [OF pn]
    show ?thesis
    proof (cases q1)
      case (Inl e)
      with k1 t1 show ?thesis by (auto intro: node_step_still)
    next
      case (Inr pid)
      with k1 bindM_split obtain q2 t2 where u: "uploadFile eng (recording srv) x p pid t1 = (q2, t2)"
        and k2: "case q2 of Inl e \<Rightarrow> r = Inl e \<and> s' = t2 | Inr nh \<Rightarrow> put nh t2 = (r, s')" by fastforce
      from upload_effect [OF u] obtain new where new: "view t2 = view t1" "calls t2 = calls t1 @ new"
        "\<forall>k \<in> set new. writes_node k p pid" by blast
      have "node_step p t2 s'" using k2 put by (cases q2) (auto intro: node_step_still)
      with new t1 Inr show ?thesis by (intro node_step_after [of t2 t new p pid s']) auto
    qed
  qed
  have "node_step p t s'"
    using k send t by (cases b) (auto simp: ret_iff intro: node_step_still split: if_splits)
  with t show ?thesis by (blast intro: node_step_before)
qed

lemma io_still: "ioM e s = (r, s') \<Longrightarrow> view s' = view s \<and> calls s' = calls s \<and> (r = Inr () \<or> r = Inl e)"
  using still [OF quiet_basic(4) mute_basic(4), of e s r s'] by (auto simp: ioM_def split: list.splits if_splits)

lemma node_step_then:
  assumes "node_step p s t" "view s' = view t" "calls s' = calls t"
  shows "node_step p s s'"
  using assms by (auto simp: node_step_def site_def view_def)

lemma visit_cases:
  assumes run: "push_visit eng (recording srv) x (seen, skipped) y s = (r, s')" and sp: "serverPath eng y = Some p"
  obtains (below) "list_ex (isUnder y) skipped" "r = Inr (seen, skipped)" "s' = s"
  | (state) "\<not> list_ex (isUnder y) skipped" "y = eg_stateDir eng" "r = Inr (seen, y # skipped)" "s' = s"
  | (root) "\<not> list_ex (isUnder y) skipped" "y \<noteq> eg_stateDir eng" "p = ''/''"
      "view s' = view s" "calls s' = calls s" "r = Inr (seen, skipped) \<or> r = Inl EIO"
  | (skip) "\<not> list_ex (isUnder y) skipped" "y \<noteq> eg_stateDir eng" "p \<noteq> ''/''" "\<not> selected s p (lookup s y = Some LDir)"
      "r = Inr (seen, if lookup s y = Some LDir then y # skipped else skipped)" "s' = s"
  | (node) "\<not> list_ex (isUnder y) skipped" "y \<noteq> eg_stateDir eng" "p \<noteq> ''/''" "selected s p (lookup s y = Some LDir)"
      "\<exists>c t. lookup s y \<in> {Some LDir, Some (LFile c t)}" "node_step p s s'" "\<exists>e. r \<in> {Inl e, Inr (p # seen, skipped)}"
  | (other) "\<not> list_ex (isUnder y) skipped" "y \<noteq> eg_stateDir eng" "p \<noteq> ''/''" "selected s p (lookup s y = Some LDir)"
      "\<nexists>c t. lookup s y \<in> {Some LDir, Some (LFile c t)}" "r = Inr (removeAll p seen, skipped)" "s' = s"
proof -
  consider "list_ex (isUnder y) skipped" | "\<not> list_ex (isUnder y) skipped" "y = eg_stateDir eng"
    | "\<not> list_ex (isUnder y) skipped" "y \<noteq> eg_stateDir eng" "p = ''/''"
    | "\<not> list_ex (isUnder y) skipped" "y \<noteq> eg_stateDir eng" "p \<noteq> ''/''" "\<not> selected s p (lookup s y = Some LDir)"
    | "\<not> list_ex (isUnder y) skipped" "y \<noteq> eg_stateDir eng" "p \<noteq> ''/''" "selected s p (lookup s y = Some LDir)" by blast
  then show thesis
  proof cases
    case 1
    with run that(1) show ?thesis by (simp add: push_visit_def ret_iff)
  next
    case 2
    with run that(2) show ?thesis by (simp add: push_visit_def ret_iff)
  next
    case 3
    with run sp have "thenM (ioM EIO) (ret (seen, skipped)) s = (r, s')" by (simp add: push_visit_def bindM_getM)
    then have "view s' = view s" "calls s' = calls s" "r = Inr (seen, skipped) \<or> r = Inl EIO"
      by (auto simp: ret_iff elim!: thenM_cases dest!: io_still)
    with 3 that(3) show ?thesis by blast
  next
    case 4
    then have "excluded s p \<or> ignored s p (lookup s y = Some LDir)" by (simp add: selected_def)
    with run sp 4 that(4) show ?thesis by (simp add: push_visit_def bindM_getM ret_iff)
  next
    case 5
    then have sel: "\<not> (excluded s p \<or> ignored s p (lookup s y = Some LDir))" by (simp add: selected_def)
    show ?thesis
    proof (cases "lookup s y")
      case None
      with run sp 5 sel that(6) show ?thesis by (simp add: push_visit_def bindM_getM ret_iff)
    next
      case (Some n)
      show ?thesis
      proof (cases n)
        case LDir
        with Some run sp 5 sel have "thenM (pushFolder (recording srv) p) (thenM (ioM EIO) (ret (p # seen, skipped))) s = (r, s')"
          by (simp add: push_visit_def bindM_getM)
        from thenM_split [OF this] obtain q t where a: "pushFolder (recording srv) p s = (q, t)"
          and k: "case q of Inl e \<Rightarrow> r = Inl e \<and> s' = t | Inr _ \<Rightarrow> thenM (ioM EIO) (ret (p # seen, skipped)) t = (r, s')" by blast
        have "view s' = view t" "calls s' = calls t" "\<exists>e. r \<in> {Inl e, Inr (p # seen, skipped)}"
          using k by (cases q; auto simp: ret_iff elim!: thenM_cases dest!: io_still)+
        with pushFolder_step [OF a] 5 that(5) Some LDir show ?thesis by (blast intro: node_step_then)
      next
        case (LFile c t0)
        with Some run sp 5 sel have "thenM (pushFile eng (recording srv) x p) (ret (p # seen, skipped)) s = (r, s')"
          by (simp add: push_visit_def bindM_getM)
        from thenM_split [OF this] obtain q t where a: "pushFile eng (recording srv) x p s = (q, t)"
          and k: "case q of Inl e \<Rightarrow> r = Inl e \<and> s' = t | Inr _ \<Rightarrow> ret (p # seen, skipped) t = (r, s')" by blast
        have "s' = t" "\<exists>e. r \<in> {Inl e, Inr (p # seen, skipped)}" using k by (auto simp: ret_iff split: sum.splits)
        with pushFile_step [OF a] 5 that(5) Some LFile show ?thesis by blast
      next
        case (LOther t0)
        with Some run sp 5 sel that(6) show ?thesis by (simp add: push_visit_def bindM_getM ret_iff)
      qed
    qed
  qed
qed

section \<open>The scan\<close>

text \<open>A call that writes an offered path, in a folder known before or after.\<close>

definition wrote :: "engine \<Rightarrow> 's client \<Rightarrow> Entry list \<Rightarrow> srv_call \<Rightarrow> bool" where
  "wrote eng s es k \<longleftrightarrow> (\<exists>p pid. good_path p \<and> offered eng s p \<and> writes_node k p pid \<and>
     parent_known (cl_synced s @ es) (cl_rootID s) p pid)"

definition visited :: "engine \<Rightarrow> string list \<Rightarrow> string \<Rightarrow> bool" where
  "visited eng ys p \<longleftrightarrow> good_path p \<and> localPath eng p \<in> set ys"

definition walk_inv ::
  "engine \<Rightarrow> ('s \<times> srv_call list) client \<Rightarrow> string list \<Rightarrow> string list \<times> string list \<Rightarrow> ('s \<times> srv_call list) client \<Rightarrow> bool" where
  "walk_inv eng s0 ys st s \<longleftrightarrow> site s = site s0 \<and>
     set (fst st) = insert ''/'' {p. visited eng ys p \<and> offered eng s0 p} \<and>
     (\<forall>k \<in> set (snd st). \<exists>d. good_path d \<and> k = localPath eng d \<and> skip_dir eng s0 d) \<and>
     (\<forall>d. visited eng ys d \<and> skip_dir eng s0 d \<longrightarrow> list_ex (isUnder (localPath eng d)) (snd st)) \<and>
     (\<forall>e \<in> set (cl_synced s). e \<in> set (cl_synced s0) \<or> se_Path e \<in> set (fst st)) \<and>
     (\<forall>e \<in> set (cl_synced s0). se_Path e \<notin> set (fst st) \<longrightarrow> e \<in> set (cl_synced s)) \<and>
     (\<exists>new. calls s = calls s0 @ new \<and> (\<forall>k \<in> set new. wrote eng s0 (cl_synced s) k))"

lemma site_parts:
  assumes "site s = site s0"
  shows "lookup s = lookup s0" "excluded s = excluded s0" "ignored s = ignored s0" "cl_rootID s = cl_rootID s0"
    "selected s = selected s0"
  using assms by (auto simp: site_def lookup_def excluded_def loadExcludes_def ignored_def selected_def fun_eq_iff)

lemma visited_snoc:
  assumes "engine_ok eng" "good_path p"
  shows "visited eng (ys @ [localPath eng p]) q \<longleftrightarrow> visited eng ys q \<or> q = p"
  using localPath_inj [OF assms(1) _ assms(2)] assms(2) by (auto simp: visited_def)

lemma wrote_mono:
  assumes "wrote eng s es k" "\<And>e. e \<in> set es \<Longrightarrow> e \<in> set (cl_synced s) \<or> e \<in> set es'"
  shows "wrote eng s es' k"
  using assms unfolding wrote_def parent_known_def by (fastforce split: if_splits)

lemma put_entry_sub: "e \<in> set es \<Longrightarrow> se_Path e \<noteq> se_Path f \<Longrightarrow> e \<in> set (put_entry f es)"
  and put_entry_sup: "e \<in> set (put_entry f es) \<Longrightarrow> e \<in> set es \<or> e = f"
  by (auto simp: put_entry_def list_ex_iff split: if_splits)

text \<open>A visit of a path that is not offered changes neither the table nor the server.\<close>

lemma walk_idle:
  assumes ok: "engine_ok eng" and p: "good_path p" and inv: "walk_inv eng s0 ys (seen, skipped) s"
    and st: "site s' = site s" "cl_synced s' = cl_synced s" "calls s' = calls s"
    and off: "\<not> offered eng s0 p" and seen: "set seen' = set seen"
    and skipped: "set skipped \<subseteq> set skipped'" "\<forall>k \<in> set skipped'. k \<in> set skipped \<or> (k = localPath eng p \<and> skip_dir eng s0 p)"
    and below: "skip_dir eng s0 p \<Longrightarrow> list_ex (isUnder (localPath eng p)) skipped'"
  shows "walk_inv eng s0 (ys @ [localPath eng p]) (seen', skipped') s'"
  unfolding walk_inv_def fst_conv snd_conv visited_snoc [OF ok p]
proof (intro conjI)
  have v: "{q. (visited eng ys q \<or> q = p) \<and> offered eng s0 q} = {q. visited eng ys q \<and> offered eng s0 q}" using off by blast
  show "set seen' = insert ''/'' {q. (visited eng ys q \<or> q = p) \<and> offered eng s0 q}"
    unfolding v using inv seen by (simp add: walk_inv_def)
  show "\<forall>k \<in> set skipped'. \<exists>d. good_path d \<and> k = localPath eng d \<and> skip_dir eng s0 d"
    using inv skipped(2) p unfolding walk_inv_def snd_conv by blast
  have "list_ex (isUnder (localPath eng d)) skipped'" if "list_ex (isUnder (localPath eng d)) skipped" for d
    using that skipped(1) by (auto simp: list_ex_iff)
  then show "\<forall>d. (visited eng ys d \<or> d = p) \<and> skip_dir eng s0 d \<longrightarrow> list_ex (isUnder (localPath eng d)) skipped'"
    using inv below unfolding walk_inv_def snd_conv by blast
  show "\<forall>e \<in> set (cl_synced s'). e \<in> set (cl_synced s0) \<or> se_Path e \<in> set seen'"
    "\<forall>e \<in> set (cl_synced s0). se_Path e \<notin> set seen' \<longrightarrow> e \<in> set (cl_synced s')"
    using inv unfolding walk_inv_def fst_conv st(2) seen by blast+
qed (use inv st in \<open>simp_all add: walk_inv_def\<close>)

text \<open>A visit of an offered path records at most that path and writes nothing else.\<close>

lemma walk_node:
  assumes ok: "engine_ok eng" and p: "good_path p" "p \<noteq> ''/''" and inv: "walk_inv eng s0 ys (seen, skipped) s"
    and new: "localPath eng p \<notin> set ys" and st: "node_step p s s'" and off: "offered eng s0 p" and nskip: "\<not> skip_dir eng s0 p"
  shows "walk_inv eng s0 (ys @ [localPath eng p]) (p # seen, skipped) s'"
    and "\<exists>new. calls s' = calls s0 @ new \<and> (\<forall>k \<in> set new. wrote eng s0 (cl_synced s') k)"
proof -
  have fresh: "p \<notin> set seen" using inv new p(2) by (auto simp: walk_inv_def visited_def)
  from st obtain more where more: "calls s' = calls s @ more"
    "\<And>k. k \<in> set more \<Longrightarrow> \<exists>pid. writes_node k p pid \<and> parent_known (cl_synced s) (cl_rootID s) p pid"
    unfolding node_step_def by blast
  from inv obtain old where old: "calls s = calls s0 @ old" "\<And>k. k \<in> set old \<Longrightarrow> wrote eng s0 (cl_synced s) k"
    unfolding walk_inv_def by blast
  have site: "site s = site s0" "site s' = site s0" using inv st by (auto simp: walk_inv_def node_step_def)
  have entry: "e \<in> set (cl_synced s0) \<or> se_Path e \<in> set seen" if "e \<in> set (cl_synced s)" for e
    using inv that by (auto simp: walk_inv_def)
  have keep: "e \<in> set (cl_synced s')" if "e \<in> set (cl_synced s)" "se_Path e \<noteq> p" for e
    using st that by (auto simp: node_step_def put_entry_sub)
  have up: "e \<in> set (cl_synced s0) \<or> e \<in> set (cl_synced s')" if "e \<in> set (cl_synced s)" for e
    using entry [OF that] keep [OF that] fresh by metis
  have "wrote eng s0 (cl_synced s) k" if k: "k \<in> set more" for k
  proof -
    from more(2) [OF k] obtain pid where "writes_node k p pid" "parent_known (cl_synced s) (cl_rootID s) p pid" by blast
    with off p site_parts(4) [OF site(1)] show ?thesis unfolding wrote_def parent_known_def by (auto split: if_splits)
  qed
  with old more(1) have "calls s' = calls s0 @ old @ more \<and> (\<forall>k \<in> set (old @ more). wrote eng s0 (cl_synced s') k)"
    using wrote_mono [of eng s0 "cl_synced s" _ "cl_synced s'"] up by (simp add: ball_Un)
  then show calls: "\<exists>new. calls s' = calls s0 @ new \<and> (\<forall>k \<in> set new. wrote eng s0 (cl_synced s') k)" by blast
  have gain: "e \<in> set (cl_synced s) \<or> se_Path e = p" if "e \<in> set (cl_synced s')" for e
    using st that by (auto simp: node_step_def dest: put_entry_sup)
  show "walk_inv eng s0 (ys @ [localPath eng p]) (p # seen, skipped) s'"
    unfolding walk_inv_def fst_conv snd_conv visited_snoc [OF ok p(1)]
  proof (intro conjI calls)
    show "site s' = site s0" by fact
    have "{q. (visited eng ys q \<or> q = p) \<and> offered eng s0 q} = insert p {q. visited eng ys q \<and> offered eng s0 q}"
      using off by blast
    then show "set (p # seen) = insert ''/'' {q. (visited eng ys q \<or> q = p) \<and> offered eng s0 q}"
      using inv by (simp add: walk_inv_def insert_commute)
    show "\<forall>e \<in> set (cl_synced s'). e \<in> set (cl_synced s0) \<or> se_Path e \<in> set (p # seen)" using gain entry by fastforce
    show "\<forall>e \<in> set (cl_synced s0). se_Path e \<notin> set (p # seen) \<longrightarrow> e \<in> set (cl_synced s')"
      using inv keep by (auto simp: walk_inv_def)
  qed (use inv nskip in \<open>auto simp: walk_inv_def\<close>)
qed

lemma hidden_walk:
  assumes ok: "engine_ok eng" and wf: "wf_disk s0" and ps: "paths_below s0 (eg_root eng) = ys @ localPath eng p # zs"
    and p: "good_path p" and inv: "walk_inv eng s0 ys (seen, skipped) s"
  shows "hidden eng s0 p \<longleftrightarrow> list_ex (isUnder (localPath eng p)) skipped \<or> skip_dir eng s0 p"
proof
  assume "hidden eng s0 p"
  then obtain d where d: "good_path d" "isUnder p d" "skip_dir eng s0 d" using hidden_iff [OF p] by blast
  show "list_ex (isUnder (localPath eng p)) skipped \<or> skip_dir eng s0 p"
  proof (cases "d = p")
    case False
    have u: "isUnder (localPath eng p) (localPath eng d)" using d p by (simp add: isUnder_local [OF ok])
    have "localPath eng d \<in> set ys"
    proof (rule walk_before [OF ok wf ps _ serverPath_local(2) [OF ok d(1)] u])
      show "lookup s0 (localPath eng d) \<noteq> None" using d(3) by (simp add: skip_dir_def)
      show "localPath eng d \<noteq> localPath eng p" using localPath_inj [OF ok d(1) p] False by blast
    qed
    with d inv have "list_ex (isUnder (localPath eng d)) skipped" by (auto simp: walk_inv_def visited_def)
    then obtain k where k: "k \<in> set skipped" "isUnder (localPath eng d) k" by (auto simp: list_ex_iff)
    with inv have "k \<noteq> []" using serverPath_local(3) [OF ok] by (fastforce simp: walk_inv_def good_path_def abs_path_def)
    with u k show ?thesis by (auto simp: list_ex_iff intro: isUnder_trans)
  qed (use d in simp)
next
  assume "list_ex (isUnder (localPath eng p)) skipped \<or> skip_dir eng s0 p"
  then show "hidden eng s0 p"
  proof
    assume "list_ex (isUnder (localPath eng p)) skipped"
    with inv obtain d where d: "good_path d" "isUnder (localPath eng p) (localPath eng d)" "skip_dir eng s0 d"
      by (auto simp: walk_inv_def list_ex_iff)
    with p have "isUnder p d" by (simp add: isUnder_local [OF ok])
    with d show ?thesis using hidden_iff [OF p] by blast
  qed (use p under_self hidden_iff [OF p] in blast)
qed

lemma walk_step:
  assumes ok: "engine_ok eng" and wf: "wf_disk s0" and dist: "distinct (map fst (cl_disk s0))"
    and ps: "paths_below s0 (eg_root eng) = ys @ y # zs"
    and inv: "walk_inv eng s0 ys st s" and run: "push_visit eng (recording srv) x st y s = (r, s')"
  shows "case r of Inl e \<Rightarrow> \<exists>new. calls s' = calls s0 @ new \<and> (\<forall>k \<in> set new. wrote eng s0 (cl_synced s') k)
    | Inr st' \<Rightarrow> walk_inv eng s0 (ys @ [y]) st' s'"
proof -
  obtain seen skipped where st: "st = (seen, skipped)" by fastforce
  have "y \<in> set (paths_below s0 (eg_root eng))" using ps by simp
  then have y: "lookup s0 y \<noteq> None" "isUnder y (eg_root eng)" by (simp_all add: paths_below_parts)
  obtain p where p: "good_path p" "serverPath eng y = Some p" "y = localPath eng p" by (rule disk_path [OF ok wf y])
  note i = inv [unfolded st]
  have site: "site s = site s0" using i by (simp add: walk_inv_def)
  note same = site_parts [OF site]
  note hid = hidden_walk [OF ok wf ps [unfolded p(3)] p(1) i]
  note idle = walk_idle [OF ok p(1) i]
  have fresh: "y \<notin> set ys" using paths_below_parts(2) [OF dist, of "eg_root eng"] ps by auto
  have err: "\<exists>new. calls s = calls s0 @ new \<and> (\<forall>k \<in> set new. wrote eng s0 (cl_synced s) k)" using i by (simp add: walk_inv_def)
  from run [unfolded st] p(2) show ?thesis
  proof (cases rule: visit_cases)
    case below
    with hid p(3) have "\<not> offered eng s0 p" by (simp add: offered_def)
    with idle [of s seen skipped] below p(3) show ?thesis by simp
  next
    case state
    with p(3) y have "skip_dir eng s0 p" by (simp add: skip_dir_def)
    with hid have "\<not> offered eng s0 p" by (simp add: offered_def)
    with idle [of s seen "y # skipped"] state p(3) \<open>skip_dir eng s0 p\<close> show ?thesis by (auto simp: under_self)
  next
    case root
    then have "\<not> offered eng s0 p" "\<not> skip_dir eng s0 p" using p(3) by (auto simp: offered_def skip_dir_def)
    with idle [of s' seen skipped] root p(3) view_site [OF root(4)] err show ?thesis by auto
  next
    case skip
    then have sk: "skip_dir eng s0 p \<longleftrightarrow> lookup s0 y = Some LDir" using p(3) same by (auto simp: skip_dir_def selected_def)
    have "\<not> offered eng s0 p"
      using skip(4) p(3) same by (auto simp: offered_def split: option.splits lnode.splits)
    with idle [of s seen "if lookup s y = Some LDir then y # skipped else skipped"] skip p(3) same sk
    show ?thesis by (auto simp: under_self subset_insertI)
  next
    case node
    have nsk: "\<not> skip_dir eng s0 p" using node p(3) same by (auto simp: skip_dir_def selected_def)
    with hid node p(3) have "\<not> hidden eng s0 p" by simp
    with node p(3) same have "offered eng s0 p" by (auto simp: offered_def)
    from walk_node [OF ok p(1) node(3) i _ node(6) this nsk] fresh p(3) node(7) show ?thesis by auto
  next
    case other
    then have "\<not> offered eng s0 p" "\<not> skip_dir eng s0 p" using p(3) same
      by (auto simp: offered_def skip_dir_def split: option.splits lnode.splits)
    moreover have "p \<notin> set seen" using i other(3) fresh p(3) by (auto simp: walk_inv_def visited_def)
    ultimately show ?thesis using idle [of s "removeAll p seen" skipped] other p(3) by auto
  qed
qed

lemma scan_run:
  assumes ok: "engine_ok eng" and wf: "wf_disk s0" and dist: "distinct (map fst (cl_disk s0))"
    and run: "pushExisting eng (recording srv) x s0 = (r, s')"
  shows "case r of Inl e \<Rightarrow> \<exists>new. calls s' = calls s0 @ new \<and> (\<forall>k \<in> set new. wrote eng s0 (cl_synced s') k)
    | Inr seen \<Rightarrow> \<exists>skipped. walk_inv eng s0 (paths_below s0 (eg_root eng)) (seen, skipped) s'"
proof -
  let ?walk = "\<lambda>ps. foldM (push_visit eng (recording srv) x) ([''/''], []) ps"
  from run obtain q t where io: "ioM EIO s0 = (q, t)"
    and k: "case q of Inl e \<Rightarrow> r = Inl e \<and> s' = t | Inr _ \<Rightarrow>
      bindM (?walk (paths_below t (eg_root eng))) (\<lambda>(seen, skipped). ret seen) t = (r, s')"
    unfolding pushExisting_def by (elim thenM_cases) (auto simp: bindM_getM)
  note t = io_still [OF io]
  show ?thesis
  proof (cases q)
    case (Inl e)
    with k t show ?thesis by simp
  next
    case (Inr u)
    have ps: "paths_below t (eg_root eng) = paths_below s0 (eg_root eng)" using t by (simp add: paths_below_def view_def)
    with k Inr have "bindM (?walk (paths_below s0 (eg_root eng))) (\<lambda>(seen, skipped). ret seen) t = (r, s')" by simp
    from bindM_split [OF this] obtain q1 t1 where w: "?walk (paths_below s0 (eg_root eng)) t = (q1, t1)"
      and k1: "case q1 of Inl e \<Rightarrow> r = Inl e \<and> s' = t1 | Inr st \<Rightarrow> (case st of (seen, skipped) \<Rightarrow> ret seen) t1 = (r, s')" by blast
    have "walk_inv eng s0 [] ([''/''], []) t"
      using t view_site [of t s0] by (auto simp: walk_inv_def visited_def)
    with w have "case q1 of Inl e \<Rightarrow> \<exists>new. calls t1 = calls s0 @ new \<and> (\<forall>k \<in> set new. wrote eng s0 (cl_synced t1) k)
      | Inr st \<Rightarrow> walk_inv eng s0 (paths_below s0 (eg_root eng)) st t1"
      by (rule foldM_run) (rule walk_step [OF ok wf dist])
    then show ?thesis using k1 by (auto simp: ret_iff split: sum.splits prod.splits)
  qed
qed

section \<open>Deletions\<close>

definition doomed :: "'s client \<Rightarrow> string list \<Rightarrow> Entry \<Rightarrow> bool" where
  "doomed s seen e \<longleftrightarrow> se_Path e \<notin> set seen \<and> selected s (se_Path e) (se_Kind e = ''folder'')"

definition del_inv ::
  "('s \<times> srv_call list) client \<Rightarrow> string list \<Rightarrow> Entry list \<Rightarrow> unit \<Rightarrow> ('s \<times> srv_call list) client \<Rightarrow> bool" where
  "del_inv s1 seen ys u s \<longleftrightarrow> site s = site s1 \<and>
     calls s = calls s1 @ map (\<lambda>e. CallTrash (se_NodeID e)) (filter (doomed s1 seen) ys) \<and>
     (\<forall>e \<in> set (cl_synced s1). se_Path e \<in> set seen \<longrightarrow> e \<in> set (cl_synced s))"

definition del_err ::
  "('s \<times> srv_call list) client \<Rightarrow> string list \<Rightarrow> Entry list \<Rightarrow> ('s \<times> srv_call list) client \<Rightarrow> bool" where
  "del_err s1 seen es s \<longleftrightarrow>
     (\<exists>new. calls s = calls s1 @ new \<and> set new \<subseteq> (\<lambda>e. CallTrash (se_NodeID e)) ` {e \<in> set es. doomed s1 seen e}) \<and>
     (\<forall>e \<in> set (cl_synced s1). se_Path e \<in> set seen \<longrightarrow> e \<in> set (cl_synced s))"

lemma delete_step:
  assumes inv: "del_inv s1 seen ys u s" and es: "es = ys @ e # zs"
    and run: "bindM (getM (\<lambda>s. se_Path e \<in> set seen \<or> excluded s (se_Path e) \<or> ignored s (se_Path e) (se_Kind e = ''folder''))) (\<lambda>skip.
       if skip then ret ()
       else
         thenM (catchM (remoteM (srv_Trash (recording srv) (se_NodeID e))) (\<lambda>err. if IsNotFound err then ret () else raise err))
         (st_Delete (se_Path e))) s = (r, s')"
  shows "case r of Inl err \<Rightarrow> del_err s1 seen es s' | Inr v \<Rightarrow> del_inv s1 seen (ys @ [e]) v s'"
proof -
  let ?tr = "catchM (remoteM (recorded (CallTrash (se_NodeID e)) (srv_Trash srv (se_NodeID e)))) (\<lambda>err. if IsNotFound err then ret () else raise err)"
  have site: "site s = site s1" using inv by (simp add: del_inv_def)
  note same = site_parts [OF site]
  show ?thesis
  proof (cases "doomed s1 seen e")
    case False
    then have "se_Path e \<in> set seen \<or> excluded s (se_Path e) \<or> ignored s (se_Path e) (se_Kind e = ''folder'')"
      using same by (auto simp: doomed_def selected_def)
    with run inv False show ?thesis by (simp add: bindM_getM ret_iff del_inv_def)
  next
    case True
    then have "\<not> (se_Path e \<in> set seen \<or> excluded s (se_Path e) \<or> ignored s (se_Path e) (se_Kind e = ''folder''))"
      using same by (auto simp: doomed_def selected_def)
    with run have "thenM ?tr (st_Delete (se_Path e)) s = (r, s')" by (simp add: bindM_getM)
    from thenM_split [OF this] obtain q t where tr: "?tr s = (q, t)"
      and k: "case q of Inl err \<Rightarrow> r = Inl err \<and> s' = t | Inr _ \<Rightarrow> st_Delete (se_Path e) t = (r, s')" by blast
    have t: "view t = view s \<and> calls t = calls s @ [CallTrash (se_NodeID e)]"
      using tr by (rule catchM_run) (auto dest: recorded_run simp: run_iffs split: if_splits)
    then have t': "site t = site s1" "cl_synced t = cl_synced s"
      "calls t = calls s1 @ map (\<lambda>e. CallTrash (se_NodeID e)) (filter (doomed s1 seen) (ys @ [e]))"
      using site view_site [of t s] inv True by (auto simp: del_inv_def)
    have keep: "f \<in> set (cl_synced t)" if "f \<in> set (cl_synced s1)" "se_Path f \<in> set seen" for f
      using inv that t'(2) by (simp add: del_inv_def)
    have s': "site s' = site t" "calls s' = calls t"
      "cl_synced s' = cl_synced t \<or> cl_synced s' = filter (\<lambda>f. se_Path f \<noteq> se_Path e) (cl_synced t)"
      using k by (auto simp: st_Delete_def ioM_def thenM_def bindM_def modM_def site_def calls_def split: sum.splits list.splits if_splits)
    have "f \<in> set (cl_synced s')" if "f \<in> set (cl_synced s1)" "se_Path f \<in> set seen" for f
      using s'(3) keep [OF that] that(2) True by (auto simp: doomed_def)
    with s' t' es True show ?thesis
      by (auto simp: del_inv_def del_err_def split: sum.split)
  qed
qed

lemma deletions_run:
  assumes "pushDeletions (recording srv) seen s1 = (r, s')"
  shows "case r of Inl e \<Rightarrow> del_err s1 seen (cl_synced s1) s'
    | Inr u \<Rightarrow> del_inv s1 seen (sort_key se_Path (cl_synced s1)) u s'"
proof -
  obtain q t where l: "st_List s1 = (q, t)" by fastforce
  note t = still [OF quiet_reads(3) mute_db(3) l]
  then have st: "site t = site s1" "cl_synced t = cl_synced s1" "calls t = calls s1" using view_site [of t s1] by auto
  show ?thesis
  proof (cases q)
    case (Inl e)
    with assms l have "r = Inl e" "s' = t" by (auto simp: pushDeletions_def bindM_def)
    with st show ?thesis by (simp add: del_err_def)
  next
    case (Inr es)
    with l have es: "es = sort_key se_Path (cl_synced s1)"
      by (auto simp: st_List_def getM_def ioM_def thenM_def bindM_def split: list.splits if_splits)
    from Inr assms l have "foldM (\<lambda>_ e.
       bindM (getM (\<lambda>s. se_Path e \<in> set seen \<or> excluded s (se_Path e) \<or> ignored s (se_Path e) (se_Kind e = ''folder''))) (\<lambda>skip.
       if skip then ret ()
       else
         thenM (catchM (remoteM (srv_Trash (recording srv) (se_NodeID e))) (\<lambda>err. if IsNotFound err then ret () else raise err))
         (st_Delete (se_Path e)))) () es t = (r, s')"
      by (simp add: pushDeletions_def bindM_def)
    from foldM_run [where J = "del_inv s1 seen" and E = "\<lambda>_. del_err s1 seen es", OF this _ delete_step] st es
    show ?thesis by (auto simp: del_inv_def del_err_def split: sum.splits)
  qed
qed

section \<open>What a push does to the server\<close>

text \<open>A tracked entry that is selected but no longer offered by the scan.\<close>

definition withdrawn :: "engine \<Rightarrow> 's client \<Rightarrow> Entry \<Rightarrow> bool" where
  "withdrawn eng s e \<longleftrightarrow> selected s (se_Path e) (se_Kind e = ''folder'') \<and> \<not> offered eng s (se_Path e)"

lemma seen_iff:
  assumes ok: "engine_ok eng" and inv: "walk_inv eng s (paths_below s (eg_root eng)) (seen, skipped) s1"
    and p: "good_path p" "p \<noteq> ''/''"
  shows "p \<in> set seen \<longleftrightarrow> offered eng s p"
proof -
  have "visited eng (paths_below s (eg_root eng)) p" if "offered eng s p"
    using that p serverPath_local(2) [OF ok p(1)]
    by (auto simp: visited_def paths_below_parts offered_def split: option.splits)
  with inv p(2) show ?thesis by (auto simp: walk_inv_def)
qed

lemma doomed_withdrawn:
  assumes ok: "engine_ok eng" and tr: "tracked_ok s"
    and inv: "walk_inv eng s (paths_below s (eg_root eng)) (seen, skipped) s1"
  shows "{e \<in> set (cl_synced s1). doomed s1 seen e} = {e \<in> set (cl_synced s). withdrawn eng s e}"
proof -
  have sel: "selected s1 = selected s" using inv site_parts(5) [of s1 s] by (simp add: walk_inv_def)
  have seen: "se_Path e \<in> set seen \<longleftrightarrow> offered eng s (se_Path e)" if "e \<in> set (cl_synced s)" for e
    using seen_iff [OF ok inv] tr that by (simp add: tracked_ok_def)
  have "e \<in> set (cl_synced s)" if "e \<in> set (cl_synced s1)" "doomed s1 seen e" for e
    using that inv by (auto simp: walk_inv_def doomed_def)
  moreover have "e \<in> set (cl_synced s1)" if "e \<in> set (cl_synced s)" "withdrawn eng s e" for e
    using that inv seen by (auto simp: walk_inv_def withdrawn_def)
  ultimately show ?thesis using sel seen by (auto simp: doomed_def withdrawn_def)
qed

end
