(* ===== verification/DeviceDemo.thy ===== *)
theory DeviceDemo
  imports EngineEdits Demo
begin

text \<open>
  A concrete device: an engine with root \<open>/r\<close>, a server that refuses every call, and a client state with
  a given disk and a given table.
\<close>

definition demo_engine :: engine where
  "demo_engine = \<lparr>eg_root = ''/r'', eg_stateDir = ''/r/.s'', eg_hostname = ''h'', eg_date = (\<lambda>t. ''d'')\<rparr>"

definition demo_refusal :: goerr where
  "demo_refusal = api_error ''404''"

definition demo_server :: "unit Server" where
  "demo_server = \<lparr>
     srv_GetRoot = raise demo_refusal,
     srv_ListChildren = (\<lambda>nid. raise demo_refusal),
     srv_CreateFolder = (\<lambda>pid name. raise demo_refusal),
     srv_Upload = (\<lambda>pid name c. raise demo_refusal),
     srv_Download = (\<lambda>nid. raise demo_refusal),
     srv_Manifest = (\<lambda>nid. raise demo_refusal),
     srv_HaveChunks = (\<lambda>hs. raise demo_refusal),
     srv_PutChunk = (\<lambda>h c. raise demo_refusal),
     srv_GetChunk = (\<lambda>h. raise demo_refusal),
     srv_CommitManifest = (\<lambda>pid name h hs. raise demo_refusal),
     srv_Trash = (\<lambda>nid. raise demo_refusal),
     srv_Move = (\<lambda>nid name pid. raise demo_refusal),
     srv_Poll = (\<lambda>k n. raise demo_refusal)\<rparr>"

definition demo_client :: "'s \<Rightarrow> (string \<times> lnode) list \<Rightarrow> Entry list \<Rightarrow> 's client" where
  "demo_client srv ns es = \<lparr>faults = [], cl_remote = srv, cl_disk = ns, cl_now = 0, cl_random = [], cl_synced = es,
     cl_cursor = None, cl_saved_excludes = None, cl_rootID = ''n0'', cl_excludes = None, cl_excludesLoaded = False,
     cl_ignore = Some [], cl_phase = PhaseIdle, cl_lastSync = None, cl_lastErr = None, cl_lastErrAt = None,
     cl_conflicts = [], cl_since = 0, cl_paused = False, cl_syncNow = False, cl_pulled = (0, 0), cl_pushed = (0, 0)\<rparr>"

definition demo_entry :: "string \<Rightarrow> string \<Rightarrow> Entry" where
  "demo_entry p nid = \<lparr>se_Path = p, se_NodeID = nid, se_Kind = ''file'', se_Size = 1, se_MtimeUnix = 0,
     se_Hash = ''0'', se_RemoteHash = ''0''\<rparr>"

lemma demo_paths:
  "abs_path [] = ''/''" "abs_path [''r''] = ''/r''" "abs_path [''r'', ''.s''] = ''/r/.s''" "abs_path [''r'', ''a''] = ''/r/a''"
  "abs_path [''a''] = ''/a''" "abs_path [''b''] = ''/b''"
  by (simp_all add: abs_path_def)

lemma demo_segs: "list_all good_seg [''r'']" "list_all good_seg [''r'', ''.s'']" "list_all good_seg [''r'', ''a'']"
  "list_all good_seg [''a'']" "list_all good_seg [''b'']"
  by (simp_all add: good_seg_def)

lemma demo_good: "good_path ''/r''" "good_path ''/r/.s''" "good_path ''/r/a''" "good_path ''/a''" "good_path ''/b''"
  using demo_segs [THEN good_path_abs] by (simp_all only: demo_paths)

lemma demo_ok: "engine_ok demo_engine"
  by (simp add: engine_ok_def demo_engine_def demo_good)

lemma demo_local: "localPath demo_engine ''/'' = ''/r''" "localPath demo_engine ''/a'' = ''/r/a''" "localPath demo_engine ''/b'' = ''/r/b''"
  using localPath_abs [of "[''r'']" demo_engine] demo_segs
  by (simp_all add: demo_engine_def localPath_def filepath_Join_def path_Clean_def TrimPrefix_def)

lemma demo_ancestors: "ancestors ''/r'' = []" "ancestors ''/r/a'' = [''/r'']" "ancestors ''/b'' = []"
  by (simp_all add: ancestors_def upt_rec)

lemma demo_disk: "wf_disk (demo_client srv [(''/r'', LDir)] es)" "wf_disk (demo_client srv [(''/r'', LDir), (''/r/a'', LFile c t)] es)"
  using demo_good by (auto simp: wf_disk_def lookup_def demo_client_def demo_ancestors split: if_splits)

lemma demo_tracked: "tracked_ok (demo_client srv ns [demo_entry ''/a'' nid])" "tracked_ok (demo_client srv ns [demo_entry ''/b'' nid])"
  using demo_good by (simp_all add: tracked_ok_def demo_client_def demo_entry_def)

end
