(* ===== verification/EngineSpec.thy ===== *)
theory EngineSpec
  imports EnginePush DeviceDemo
begin

text \<open>
  What the sync engine promises about both sides: a change pulled from the server loses no local edit, and a
  push changes the server only within what the user selected.  A concrete device shows that the
  hypotheses can hold.
\<close>

lemma hex_length: "length (hex_encode bs) = 2 * length bs"
  by (induction bs) auto

definition demo_delete :: Change where
  "demo_delete = \<lparr>ac_Seq = 1, ac_Kind = ''delete'', ac_NodeID = ''n1'', ac_Node = None\<rparr>"

definition demo_edit :: "unit client" where
  "demo_edit = demo_client () [(''/r'', LDir), (''/r/a'', LFile ''x'' 5)] [demo_entry ''/a'' ''n1'']"

definition demo_gone :: "(unit \<times> srv_call list) client" where
  "demo_gone = demo_client ((), []) [(''/r'', LDir)] [demo_entry ''/b'' ''n9'']"

lemma demo_push: "push demo_engine (recording demo_server) demo_ext demo_gone =
    (Inr (), demo_client ((), [CallTrash ''n9'']) [(''/r'', LDir)] [])"
proof -
  have sp: "serverPath demo_engine ''/r'' = Some ''/''"
    by (simp add: serverPath_def filepath_Rel_def demo_engine_def path_elems_def path_Clean_def)
  have ps: "paths_below demo_gone ''/r'' = [''/r'']" by (simp add: paths_below_def demo_gone_def demo_client_def isUnder_def)
  have ex: "pushExisting demo_engine (recording demo_server) demo_ext demo_gone = (Inr [''/''], demo_gone)"
    using sp ps by (simp add: pushExisting_def push_visit_def demo_engine_def monad_defs ioM_def demo_gone_def demo_client_def)
  show ?thesis
    by (simp add: push_def ex bindM_def [of "pushExisting _ _ _"])
      (simp add: pushDeletions_def st_List_def demo_gone_def demo_client_def demo_entry_def monad_defs ioM_def excluded_def loadExcludes_def
        ignored_def Match_def matcher_Empty_def demo_server_def remoteM_def recorded_def demo_refusal_def api_error_def IsNotFound_def st_Delete_def)
qed



text \<open>C25: whatever fails, a push changes the server's tree only within the selection.  Each call creates or replaces a
  node at a path where a local file or directory is offered, in a folder known for its parent, or it
  trashes the node of a tracked entry that is selected and no longer offered.\<close>

theorem push_stays_in_selection:
  assumes ok: "engine_ok eng" and wf: "wf_disk s" and dist: "distinct (map fst (cl_disk s))" and tr: "tracked_ok s"
    and start: "calls s = []" and run: "push eng (recording srv) x s = (r, s')" and k: "k \<in> set (calls s')"
  shows "wrote eng s (cl_synced s') k \<or> (\<exists>e \<in> set (cl_synced s). k = CallTrash (se_NodeID e) \<and> withdrawn eng s e)"
proof -
  from bindM_split [OF run [unfolded push_def]] obtain q t where sc: "pushExisting eng (recording srv) x s = (q, t)"
    and d: "case q of Inl e \<Rightarrow> r = Inl e \<and> s' = t | Inr seen \<Rightarrow> pushDeletions (recording srv) seen t = (r, s')" by blast
  note scan = scan_run [OF ok wf dist sc]
  show ?thesis
  proof (cases q)
    case (Inl e)
    with scan d start k show ?thesis by auto
  next
    case (Inr seen)
    with scan obtain skipped where inv: "walk_inv eng s (paths_below s (eg_root eng)) (seen, skipped) t" by auto
    then obtain old where old: "calls t = old" "\<And>k. k \<in> set old \<Longrightarrow> wrote eng s (cl_synced t) k"
      using start by (auto simp: walk_inv_def)
    from Inr d have "pushDeletions (recording srv) seen t = (r, s')" by simp
    from deletions_run [OF this]
    have del: "\<exists>new. calls s' = calls t @ new \<and> set new \<subseteq> (\<lambda>e. CallTrash (se_NodeID e)) ` {e \<in> set (cl_synced t). doomed t seen e}"
      "\<And>e. e \<in> set (cl_synced t) \<Longrightarrow> se_Path e \<in> set seen \<Longrightarrow> e \<in> set (cl_synced s')"
      by (auto simp: del_inv_def del_err_def split: sum.splits)
    show ?thesis
    proof (cases "k \<in> set old")
      case True
      have "e \<in> set (cl_synced s) \<or> e \<in> set (cl_synced s')" if "e \<in> set (cl_synced t)" for e
        using inv that del(2) by (auto simp: walk_inv_def)
      from wrote_mono [OF old(2) [OF True] this] show ?thesis by blast
    next
      case False
      with k old(1) del(1) have "k \<in> (\<lambda>e. CallTrash (se_NodeID e)) ` {e \<in> set (cl_synced t). doomed t seen e}" by auto
      then show ?thesis unfolding doomed_withdrawn [OF ok tr inv] by blast
    qed
  qed
qed

theorem push_stays_witness:
  "withdrawn demo_engine demo_gone (demo_entry ''/b'' ''n9'')"
proof -
  have "wrote demo_engine demo_gone [] (CallTrash ''n9'') \<or>
      (\<exists>e \<in> set (cl_synced demo_gone). CallTrash ''n9'' = CallTrash (se_NodeID e) \<and> withdrawn demo_engine demo_gone e)"
    using push_stays_in_selection [OF demo_ok _ _ _ _ demo_push, of "CallTrash ''n9''"]
    by (simp add: demo_gone_def demo_disk demo_tracked) (simp add: demo_client_def calls_def)
  then show ?thesis
    by (simp add: wrote_def writes_node_def) (simp add: demo_gone_def demo_client_def)
qed



end
