(* ===== verification/Auth.thy ===== *)
theory Auth
  imports Encodings World
begin

text \<open>
  Identity, \<open>server/internal/auth\<close>: the tables of migrations 00002, 00005 and 00021, secrets and recovery codes
  (\<open>recovery.go\<close>), app passwords (\<open>apppassword.go\<close>), and the statements of \<open>store.go\<close>, \<open>devices.go\<close> and \<open>admin.go\<close>.

  What the code calls and does not contain is the record \<open>authlib\<close>: argon2id, PostgreSQL's \<open>lower\<close>, and the WebAuthn
  library with its random bytes.  A ceremony's data is stored as JSON and read back as it was.
\<close>

section \<open>State\<close>

definition ErrUserNotFound :: goerr where "ErrUserNotFound = Sentinel ''user not found''"
definition ErrUserDisabled :: goerr where "ErrUserDisabled = Sentinel ''user is disabled''"
definition ErrUserExists :: goerr where "ErrUserExists = Sentinel ''username already taken''"
definition ErrNoCredentials :: goerr where "ErrNoCredentials = Sentinel ''user has no registered passkeys''"
definition ErrSessionInvalid :: goerr where "ErrSessionInvalid = Sentinel ''session invalid or expired''"
definition ErrCeremonyNotFound :: goerr where "ErrCeremonyNotFound = Sentinel ''ceremony not found or expired''"
definition ErrBadRecoveryCode :: goerr where "ErrBadRecoveryCode = Sentinel ''invalid recovery code''"
definition ErrRegistrationShut :: goerr where "ErrRegistrationShut = Sentinel ''registration is closed''"
definition ErrAppPasswordInvalid :: goerr where "ErrAppPasswordInvalid = Sentinel ''invalid app password''"
definition ErrDeviceNotFound :: goerr where "ErrDeviceNotFound = Sentinel ''device not found''"
definition ErrLastAdmin :: goerr where "ErrLastAdmin = Sentinel ''cannot remove the last admin''"

definition SessionKindWeb :: string where "SessionKindWeb = ''web''"
definition SessionKindDevice :: string where "SessionKindDevice = ''device''"
definition SessionKindRecovery :: string where "SessionKindRecovery = ''recovery''"

record User =
  us_ID :: nat
  us_Username :: string
  us_DisplayName :: string
  us_IsAdmin :: bool
  us_Quota :: "int option"
  us_DisabledAt :: "int option"
  us_CreatedAt :: int

text \<open>A row of \<open>users\<close> has the folded name beside the columns a \<open>User\<close> is scanned from.\<close>

record account = User +
  us_Fold :: string

definition scanUser :: "account \<Rightarrow> User" where
  "scanUser a = User.truncate a"

definition Disabled :: "'a User_scheme \<Rightarrow> bool" where
  "Disabled u \<longleftrightarrow> us_DisabledAt u \<noteq> None"

text \<open>The parts of a \<open>webauthn.Credential\<close> the package reads; \<open>WC_Rest\<close> is what it only stores.\<close>

record wa_credential =
  WC_ID :: string
  WC_Rest :: string
  WC_SignCount :: nat
  WC_CloneWarning :: bool

record wa_user =
  wu_id :: string
  wu_name :: string
  wu_display :: string
  wu_creds :: "wa_credential list"

text \<open>\<open>webauthn.SessionData\<close>: the user handle, and what the package only stores.\<close>

record SessionData =
  sd_UserID :: string
  sd_rest :: string

record cred_row =
  wc_id :: nat
  wc_user :: nat
  wc_cred :: wa_credential
  wc_name :: string
  wc_created :: int
  wc_used :: "int option"

record code_row =
  rc_id :: nat
  rc_user :: nat
  rc_hash :: string
  rc_used :: "int option"

record session_row =
  ss_id :: nat
  ss_user :: nat
  ss_token :: string
  ss_kind :: string
  ss_agent :: string
  ss_device :: string
  ss_created :: int
  ss_seen :: int
  ss_expires :: int
  ss_revoked :: "int option"

record ceremony_row =
  ce_id :: nat
  ce_user :: "nat option"
  ce_kind :: string
  ce_data :: SessionData
  ce_pending :: "string option"
  ce_expires :: int

record app_row =
  ap_id :: nat
  ap_user :: nat
  ap_name :: string
  ap_hash :: string
  ap_lookup :: string
  ap_created :: int
  ap_used :: "int option"
  ap_expires :: "int option"
  ap_revoked :: "int option"

record push_row =
  ps_session :: nat
  ps_user :: nat
  ps_endpoint :: string
  ps_p256dh :: string
  ps_auth :: string

text \<open>\<open>at_random\<close> are the bytes the random source will give; ids are drawn in order.\<close>

record auth = io +
  at_now :: int
  at_next :: nat
  at_random :: string
  at_users :: "account list"
  at_creds :: "cred_row list"
  at_codes :: "code_row list"
  at_sessions :: "session_row list"
  at_ceremonies :: "ceremony_row list"
  at_apps :: "app_row list"
  at_push :: "push_row list"

record authlib =
  al_argon :: "string \<Rightarrow> string \<Rightarrow> nat \<Rightarrow> nat \<Rightarrow> nat \<Rightarrow> nat \<Rightarrow> string"
  al_lower :: "string \<Rightarrow> string"
  al_BeginRegistration :: "string \<Rightarrow> wa_user \<Rightarrow> goerr + (string \<times> SessionData)"
  al_FinishRegistration :: "wa_user \<Rightarrow> SessionData \<Rightarrow> string \<Rightarrow> goerr + wa_credential"
  al_BeginLogin :: "string \<Rightarrow> wa_user \<Rightarrow> goerr + (string \<times> SessionData)"
  al_FinishLogin :: "wa_user \<Rightarrow> SessionData \<Rightarrow> string \<Rightarrow> goerr + wa_credential"

section \<open>Statements\<close>

definition adbM :: "(auth, unit) m" where
  "adbM = ioM db_err"

definition aselectM :: "(auth \<Rightarrow> 'a) \<Rightarrow> (auth, 'a) m" where
  "aselectM f = thenM adbM (getM f)"

definition freshM :: "(auth, nat) m" where
  "freshM = (\<lambda>s. (Inr (at_next s), s\<lparr>at_next := Suc (at_next s)\<rparr>))"

text \<open>\<open>rand.Read\<close> of \<open>n\<close> bytes.\<close>

definition randM :: "nat \<Rightarrow> (auth, string) m" where
  "randM n = (\<lambda>s.
     if length (at_random s) < n then (Inl (Io ''rand''), s)
     else (Inr (take n (at_random s)), s\<lparr>at_random := drop n (at_random s)\<rparr>))"

definition liftE :: "goerr + 'a \<Rightarrow> ('s, 'a) m" where
  "liftE r = (case r of Inl e \<Rightarrow> raise e | Inr v \<Rightarrow> ret v)"

definition user_exists :: "nat \<Rightarrow> auth \<Rightarrow> bool" where
  "user_exists u s \<longleftrightarrow> list_ex (\<lambda>a. us_ID a = u) (at_users s)"

text \<open>\<open>UPDATE ... SET ... WHERE ...\<close>: the result is \<open>RowsAffected\<close>.\<close>

definition count_rows :: "('r \<Rightarrow> bool) \<Rightarrow> 'r list \<Rightarrow> int" where
  "count_rows p rs = int (length (filter p rs))"

definition set_rows :: "('r \<Rightarrow> bool) \<Rightarrow> ('r \<Rightarrow> 'r) \<Rightarrow> 'r list \<Rightarrow> 'r list" where
  "set_rows p f rs = map (\<lambda>r. if p r then f r else r) rs"

definition update_sessions :: "(auth \<Rightarrow> session_row \<Rightarrow> bool) \<Rightarrow> (auth \<Rightarrow> session_row \<Rightarrow> session_row) \<Rightarrow> (auth, int) m" where
  "update_sessions p f =
     thenM adbM
     (bindM (getM id) (\<lambda>s.
      thenM (modM (\<lambda>t. t\<lparr>at_sessions := set_rows (p s) (f s) (at_sessions t)\<rparr>))
      (ret (count_rows (p s) (at_sessions s)))))"

definition update_apps :: "(auth \<Rightarrow> app_row \<Rightarrow> bool) \<Rightarrow> (auth \<Rightarrow> app_row \<Rightarrow> app_row) \<Rightarrow> (auth, int) m" where
  "update_apps p f =
     thenM adbM
     (bindM (getM id) (\<lambda>s.
      thenM (modM (\<lambda>t. t\<lparr>at_apps := set_rows (p s) (f s) (at_apps t)\<rparr>))
      (ret (count_rows (p s) (at_apps s)))))"

section \<open>Secrets and recovery codes\<close>

definition RecoveryCodeCount :: nat where "RecoveryCodeCount = 10"
definition argonTime :: nat where "argonTime = 3"
definition argonMemory :: nat where "argonMemory = 64 * 1024"
definition argonThreads :: nat where "argonThreads = 2"
definition argonKeyLen :: nat where "argonKeyLen = 32"
definition argonSaltLen :: nat where "argonSaltLen = 16"
definition argonVersion :: nat where "argonVersion = 19"

definition codeAlphabet :: string where
  "codeAlphabet = ''ABCDEFGHJKMNPQRSTVWXYZ0123456789''"

definition format_code :: "string \<Rightarrow> string" where
  "format_code s = take 5 s @ ''-'' @ take 5 (drop 5 s) @ ''-'' @ take 5 (drop 10 s) @ ''-'' @ take 5 (drop 15 s)"

definition GenerateRecoveryCodes :: "nat \<Rightarrow> (auth, string list) m" where
  "GenerateRecoveryCodes n =
     foldM (\<lambda>codes _.
       bindM (wrapM ''generate recovery code'' (randM 13)) (\<lambda>raw.
       ret (codes @ [format_code (take 20 (encode_bits 5 codeAlphabet raw))]))) [] [0 ..< n]"

definition ToUpper :: "(string \<Rightarrow> string) \<Rightarrow> string \<Rightarrow> string" where
  "ToUpper u s = concat (map (\<lambda>ch. if ascii ch then map upper_byte ch else u ch) (runes s))"

definition NormalizeRecoveryCode :: "ext \<Rightarrow> string \<Rightarrow> string" where
  "NormalizeRecoveryCode x s =
     filter (\<lambda>c. c \<noteq> CHR '' '') (filter (\<lambda>c. c \<noteq> CHR ''-'') (ToUpper (uni_upper x) (TrimSpace s)))"

definition phc :: "string \<Rightarrow> string \<Rightarrow> string" where
  "phc salt key =
     ''$argon2id$v='' @ decimal argonVersion @ ''$m='' @ decimal argonMemory @ '',t='' @ decimal argonTime @
     '',p='' @ decimal argonThreads @ ''$'' @ RawStdEncoding salt @ ''$'' @ RawStdEncoding key"

definition HashSecret :: "authlib \<Rightarrow> string \<Rightarrow> (auth, string) m" where
  "HashSecret al secret =
     bindM (wrapM ''generate salt'' (randM argonSaltLen)) (\<lambda>salt.
     ret (phc salt (al_argon al secret salt argonTime argonMemory argonThreads argonKeyLen)))"

definition scan_version :: "string \<Rightarrow> int option" where
  "scan_version s = Option.bind (scan_literal ''v='' s) (\<lambda>r. map_option fst (scan_int r))"

definition scan_params :: "string \<Rightarrow> (nat \<times> nat \<times> nat) option" where
  "scan_params s =
     Option.bind (scan_literal ''m='' s) (\<lambda>r.
     Option.bind (scan_uint 32 r) (\<lambda>(m, r).
     Option.bind (scan_literal '',t='' r) (\<lambda>r.
     Option.bind (scan_uint 32 r) (\<lambda>(t, r).
     Option.bind (scan_literal '',p='' r) (\<lambda>r.
     Option.bind (scan_uint 8 r) (\<lambda>(p, _). Some (m, t, p)))))))"

text \<open>\<open>argon2.IDKey\<close> panics when the passes or the lanes are zero: then the result is \<open>None\<close>.\<close>

definition VerifySecret :: "authlib \<Rightarrow> string \<Rightarrow> string \<Rightarrow> bool option" where
  "VerifySecret al secret encoded =
     (let parts = SplitByte encoded (CHR ''$'') in
      if length parts \<noteq> 6 \<or> parts ! 1 \<noteq> ''argon2id'' then Some False
      else if scan_version (parts ! 2) \<noteq> Some (int argonVersion) then Some False
      else case (scan_params (parts ! 3), base64_decode std_alphabet (parts ! 4), base64_decode std_alphabet (parts ! 5)) of
        (Some (memory, time, threads), Some salt, Some want) \<Rightarrow>
          if time < 1 \<or> threads < 1 then None
          else Some (al_argon al secret salt time memory threads (length want) = want)
      | _ \<Rightarrow> Some False)"

definition verifyM :: "authlib \<Rightarrow> string \<Rightarrow> string \<Rightarrow> ('s, bool) m" where
  "verifyM al secret encoded =
     (case VerifySecret al secret encoded of None \<Rightarrow> raise (Msg ''panic: argon2'') | Some b \<Rightarrow> ret b)"

definition HashRecoveryCode :: "ext \<Rightarrow> authlib \<Rightarrow> string \<Rightarrow> (auth, string) m" where
  "HashRecoveryCode x al code = HashSecret al (NormalizeRecoveryCode x code)"

definition VerifyRecoveryCode :: "ext \<Rightarrow> authlib \<Rightarrow> string \<Rightarrow> string \<Rightarrow> ('s, bool) m" where
  "VerifyRecoveryCode x al code encoded = verifyM al (NormalizeRecoveryCode x code) encoded"

end
