(* ===== verification/AuthStore.thy ===== *)
theory AuthStore
  imports Auth
begin

text \<open>
  The statements of \<open>server/internal/auth/store.go\<close>, \<open>devices.go\<close>, \<open>apppassword.go\<close> and \<open>admin.go\<close>.  Every statement is
  atomic; a method that makes several is a sequence of them, and other requests may run in between.
\<close>

section \<open>Users\<close>

definition CountUsers :: "(auth, int) m" where
  "CountUsers = aselectM (\<lambda>s. int (length (at_users s)))"

definition insert_user :: "authlib \<Rightarrow> nat \<Rightarrow> string \<Rightarrow> string \<Rightarrow> bool \<Rightarrow> (auth, User) m" where
  "insert_user al i username display admin =
     thenM adbM
     (bindM (getM id) (\<lambda>s.
      let a = \<lparr>us_ID = i, us_Username = username, us_DisplayName = display, us_IsAdmin = admin, us_Quota = None,
               us_DisabledAt = None, us_CreatedAt = at_now s, us_Fold = al_lower al username\<rparr>
      in if list_ex (\<lambda>b. us_ID b = i \<or> us_Fold b = us_Fold a) (at_users s) then raise unique_violation
         else thenM (modM (\<lambda>t. t\<lparr>at_users := at_users t @ [a]\<rparr>)) (ret (scanUser a))))"

definition CreateUser :: "authlib \<Rightarrow> nat \<Rightarrow> string \<Rightarrow> string \<Rightarrow> bool \<Rightarrow> (auth, User) m" where
  "CreateUser al i username display admin =
     catchM (insert_user al i username display admin)
       (\<lambda>e. if e = unique_violation then raise ErrUserExists else raise (Wrap ''create user'' e))"

definition find_user :: "(account \<Rightarrow> bool) \<Rightarrow> (auth, User) m" where
  "find_user p =
     bindM (aselectM (\<lambda>s. find p (at_users s))) (\<lambda>r. case r of
       None \<Rightarrow> raise ErrUserNotFound
     | Some a \<Rightarrow> ret (scanUser a))"

definition GetUserByID :: "nat \<Rightarrow> (auth, User) m" where
  "GetUserByID i = find_user (\<lambda>a. us_ID a = i)"

definition GetUserByUsername :: "authlib \<Rightarrow> string \<Rightarrow> (auth, User) m" where
  "GetUserByUsername al username = find_user (\<lambda>a. us_Fold a = al_lower al username)"

definition ListUsers :: "(auth, User list) m" where
  "ListUsers = aselectM (\<lambda>s. map scanUser (sort_key us_CreatedAt (at_users s)))"

definition update_users :: "(account \<Rightarrow> bool) \<Rightarrow> (int \<Rightarrow> account \<Rightarrow> account) \<Rightarrow> (auth, account list) m" where
  "update_users p f =
     thenM adbM
     (bindM (getM id) (\<lambda>s.
      thenM (modM (\<lambda>t. t\<lparr>at_users := set_rows p (f (at_now t)) (at_users t)\<rparr>))
      (ret (map (f (at_now s)) (filter p (at_users s))))))"

definition SetUserDisabled :: "nat \<Rightarrow> bool \<Rightarrow> (auth, unit) m" where
  "SetUserDisabled i disabled =
     bindM (update_users (\<lambda>a. us_ID a = i) (\<lambda>t a. a\<lparr>us_DisabledAt := (if disabled then Some t else None)\<rparr>)) (\<lambda>rows.
     guardM (rows \<noteq> []) ErrUserNotFound)"

section \<open>Credentials\<close>

definition AddCredential :: "nat \<Rightarrow> string \<Rightarrow> wa_credential \<Rightarrow> (auth, unit) m" where
  "AddCredential u name c =
     thenM adbM
     (bindM (getM id) (\<lambda>s.
      if list_ex (\<lambda>r. WC_ID (wc_cred r) = WC_ID c) (at_creds s) then raise (Msg ''this passkey is already registered'')
      else if \<not> user_exists u s then raise fk_violation
      else bindM freshM (\<lambda>i. modM (\<lambda>t. t\<lparr>at_creds := at_creds t @
             [\<lparr>wc_id = i, wc_user = u, wc_cred = c, wc_name = name, wc_created = at_now t, wc_used = None\<rparr>]\<rparr>))))"

definition CredentialsForUser :: "nat \<Rightarrow> (auth, wa_credential list) m" where
  "CredentialsForUser u = aselectM (\<lambda>s. map wc_cred (filter (\<lambda>r. wc_user r = u) (at_creds s)))"

definition ListCredentials :: "nat \<Rightarrow> (auth, cred_row list) m" where
  "ListCredentials u = aselectM (\<lambda>s. sort_key wc_created (filter (\<lambda>r. wc_user r = u) (at_creds s)))"

definition UpdateCredentialUsage :: "string \<Rightarrow> nat \<Rightarrow> bool \<Rightarrow> (auth, unit) m" where
  "UpdateCredentialUsage cid n clone =
     thenM adbM
     (modM (\<lambda>s. s\<lparr>at_creds := set_rows (\<lambda>r. WC_ID (wc_cred r) = cid)
        (\<lambda>r. r\<lparr>wc_cred := (wc_cred r)\<lparr>WC_SignCount := n, WC_CloneWarning := clone\<rparr>, wc_used := Some (at_now s)\<rparr>) (at_creds s)\<rparr>))"

definition delete_creds :: "(cred_row \<Rightarrow> bool) \<Rightarrow> (auth, int) m" where
  "delete_creds p =
     thenM adbM
     (bindM (getM (\<lambda>s. count_rows p (at_creds s))) (\<lambda>n.
      thenM (modM (\<lambda>s. s\<lparr>at_creds := filter (\<lambda>r. \<not> p r) (at_creds s)\<rparr>)) (ret n)))"

definition DeleteCredential :: "nat \<Rightarrow> nat \<Rightarrow> (auth, unit) m" where
  "DeleteCredential u i =
     bindM (delete_creds (\<lambda>r. wc_id r = i \<and> wc_user r = u)) (\<lambda>n. guardM (n \<noteq> 0) (Msg ''credential not found''))"

definition DeleteAllCredentials :: "nat \<Rightarrow> (auth, int) m" where
  "DeleteAllCredentials u = delete_creds (\<lambda>r. wc_user r = u)"

section \<open>Recovery codes\<close>

definition insert_code :: "nat \<Rightarrow> string \<Rightarrow> (auth, unit) m" where
  "insert_code u h =
     thenM adbM
     (bindM (getM (user_exists u)) (\<lambda>ok.
      if \<not> ok then raise fk_violation
      else bindM freshM (\<lambda>i.
        modM (\<lambda>s. s\<lparr>at_codes := at_codes s @ [\<lparr>rc_id = i, rc_user = u, rc_hash = h, rc_used = None\<rparr>]\<rparr>))))"

text \<open>The transaction rolls the table back when a statement fails, and its commit may fail or go unacknowledged.\<close>

definition codes_tx :: "(auth, unit) m \<Rightarrow> (auth, unit) m" where
  "codes_tx c =
     thenM adbM
     (thenM (\<lambda>s. case thenM c adbM s of
          (Inl e, s') \<Rightarrow> (Inl e, s'\<lparr>at_codes := at_codes s\<rparr>)
        | (Inr u, s') \<Rightarrow> (Inr u, s'))
      adbM)"

definition ReplaceRecoveryCodes :: "nat \<Rightarrow> string list \<Rightarrow> (auth, unit) m" where
  "ReplaceRecoveryCodes u hashes =
     codes_tx
       (thenM adbM
       (thenM (modM (\<lambda>s. s\<lparr>at_codes := filter (\<lambda>r. rc_user r \<noteq> u) (at_codes s)\<rparr>))
       (foldM (\<lambda>_ h. insert_code u h) () hashes)))"

definition unused_codes :: "nat \<Rightarrow> (auth, code_row list) m" where
  "unused_codes u = aselectM (\<lambda>s. filter (\<lambda>r. rc_user r = u \<and> rc_used r = None) (at_codes s))"

definition mark_code :: "nat \<Rightarrow> (auth, int) m" where
  "mark_code i =
     thenM adbM
     (bindM (getM (\<lambda>s. count_rows (\<lambda>r. rc_id r = i \<and> rc_used r = None) (at_codes s))) (\<lambda>n.
      thenM (modM (\<lambda>s. s\<lparr>at_codes := set_rows (\<lambda>r. rc_id r = i \<and> rc_used r = None) (\<lambda>r. r\<lparr>rc_used := Some (at_now s)\<rparr>) (at_codes s)\<rparr>))
      (ret n)))"

fun consume_loop :: "ext \<Rightarrow> authlib \<Rightarrow> string \<Rightarrow> code_row list \<Rightarrow> (auth, unit) m" where
  "consume_loop x al code [] = raise ErrBadRecoveryCode"
| "consume_loop x al code (c # cs) =
     bindM (VerifyRecoveryCode x al code (rc_hash c)) (\<lambda>ok.
     if \<not> ok then consume_loop x al code cs
     else bindM (mark_code (rc_id c)) (\<lambda>n. guardM (n \<noteq> 0) ErrBadRecoveryCode))"

definition ConsumeRecoveryCode :: "ext \<Rightarrow> authlib \<Rightarrow> nat \<Rightarrow> string \<Rightarrow> (auth, unit) m" where
  "ConsumeRecoveryCode x al u code = bindM (unused_codes u) (consume_loop x al code)"

definition CountUnusedRecoveryCodes :: "nat \<Rightarrow> (auth, int) m" where
  "CountUnusedRecoveryCodes u = aselectM (\<lambda>s. count_rows (\<lambda>r. rc_user r = u \<and> rc_used r = None) (at_codes s))"

section \<open>Sessions\<close>

definition CreateSession :: "nat \<Rightarrow> string \<Rightarrow> string \<Rightarrow> string \<Rightarrow> int \<Rightarrow> (auth, nat) m" where
  "CreateSession u tokenHash kind agent expires =
     thenM adbM
     (bindM (getM id) (\<lambda>s.
      if list_ex (\<lambda>r. ss_token r = tokenHash) (at_sessions s) then raise unique_violation
      else if \<not> user_exists u s then raise fk_violation
      else bindM freshM (\<lambda>i.
        thenM (modM (\<lambda>t. t\<lparr>at_sessions := at_sessions t @
          [\<lparr>ss_id = i, ss_user = u, ss_token = tokenHash, ss_kind = kind, ss_agent = agent, ss_device = [],
            ss_created = at_now t, ss_seen = at_now t, ss_expires = expires, ss_revoked = None\<rparr>]\<rparr>))
        (ret i))))"

definition live_session :: "auth \<Rightarrow> session_row \<Rightarrow> bool" where
  "live_session s r \<longleftrightarrow> ss_revoked r = None \<and> ss_expires r > at_now s"

definition SessionUser :: "string \<Rightarrow> (auth, session_row \<times> User) m" where
  "SessionUser tokenHash =
     bindM (aselectM (\<lambda>s. case find (\<lambda>r. ss_token r = tokenHash \<and> live_session s r) (at_sessions s) of
         None \<Rightarrow> None
       | Some r \<Rightarrow> map_option (\<lambda>a. (r, scanUser a)) (find (\<lambda>a. us_ID a = ss_user r) (at_users s)))) (\<lambda>q. case q of
       None \<Rightarrow> raise ErrSessionInvalid
     | Some p \<Rightarrow> ret p)"

definition TouchSession :: "nat \<Rightarrow> (auth, unit) m" where
  "TouchSession i = bindM (update_sessions (\<lambda>s r. ss_id r = i) (\<lambda>s r. r\<lparr>ss_seen := at_now s\<rparr>)) (\<lambda>_. ret ())"

definition RevokeSession :: "nat \<Rightarrow> nat \<Rightarrow> (auth, unit) m" where
  "RevokeSession u i =
     bindM (update_sessions (\<lambda>s r. ss_id r = i \<and> ss_user r = u \<and> ss_revoked r = None)
       (\<lambda>s r. r\<lparr>ss_revoked := Some (at_now s)\<rparr>)) (\<lambda>n.
     guardM (n \<noteq> 0) ErrSessionInvalid)"

definition RevokeSessionByTokenHash :: "string \<Rightarrow> (auth, unit) m" where
  "RevokeSessionByTokenHash h =
     bindM (update_sessions (\<lambda>s r. ss_token r = h) (\<lambda>s r. r\<lparr>ss_revoked := Some (at_now s)\<rparr>)) (\<lambda>_. ret ())"

definition RevokeAllSessions :: "nat \<Rightarrow> (auth, int) m" where
  "RevokeAllSessions u =
     update_sessions (\<lambda>s r. ss_user r = u \<and> ss_revoked r = None) (\<lambda>s r. r\<lparr>ss_revoked := Some (at_now s)\<rparr>)"

definition ListSessions :: "nat \<Rightarrow> (auth, session_row list) m" where
  "ListSessions u =
     aselectM (\<lambda>s. sort_key (\<lambda>r. - ss_seen r) (filter (\<lambda>r. ss_user r = u \<and> live_session s r) (at_sessions s)))"

section \<open>Ceremonies\<close>

definition CreateCeremony :: "nat option \<Rightarrow> string \<Rightarrow> string \<Rightarrow> SessionData \<Rightarrow> int \<Rightarrow> (auth, nat) m" where
  "CreateCeremony u kind pending d ttl =
     thenM adbM
     (bindM (getM (\<lambda>s. case u of None \<Rightarrow> True | Some i \<Rightarrow> user_exists i s)) (\<lambda>ok.
      if \<not> ok then raise fk_violation
      else bindM freshM (\<lambda>i.
        thenM (modM (\<lambda>s. s\<lparr>at_ceremonies := at_ceremonies s @
          [\<lparr>ce_id = i, ce_user = u, ce_kind = kind, ce_data = d,
            ce_pending = (if pending = [] then None else Some pending), ce_expires = at_now s + ttl\<rparr>]\<rparr>))
        (ret i))))"

definition open_ceremony :: "nat \<Rightarrow> string \<Rightarrow> auth \<Rightarrow> ceremony_row \<Rightarrow> bool" where
  "open_ceremony i kind s c \<longleftrightarrow> ce_id c = i \<and> ce_kind c = kind \<and> ce_expires c > at_now s"

definition TakeCeremony :: "nat \<Rightarrow> string \<Rightarrow> (auth, nat option \<times> string \<times> SessionData) m" where
  "TakeCeremony i kind =
     thenM adbM
     (bindM (getM (\<lambda>s. find (open_ceremony i kind s) (at_ceremonies s))) (\<lambda>q. case q of
        None \<Rightarrow> raise ErrCeremonyNotFound
      | Some c \<Rightarrow>
          thenM (modM (\<lambda>s. s\<lparr>at_ceremonies := filter (\<lambda>c. \<not> open_ceremony i kind s c) (at_ceremonies s)\<rparr>))
          (ret (ce_user c, (case ce_pending c of None \<Rightarrow> [] | Some n \<Rightarrow> n), ce_data c))))"

definition day :: int where
  "day = 24 * 3600 * 1000000000"

definition sweep_sessions :: "(auth, int) m" where
  "sweep_sessions =
     thenM adbM
     (bindM (getM (\<lambda>s. count_rows (\<lambda>r. ss_expires r < at_now s - 30 * day) (at_sessions s))) (\<lambda>n.
      thenM (modM (\<lambda>s.
        let gone = map ss_id (filter (\<lambda>r. ss_expires r < at_now s - 30 * day) (at_sessions s))
        in s\<lparr>at_sessions := filter (\<lambda>r. \<not> ss_expires r < at_now s - 30 * day) (at_sessions s),
             at_push := filter (\<lambda>p. ps_session p \<notin> set gone) (at_push s)\<rparr>))
      (ret n)))"

definition sweep_ceremonies :: "(auth, int) m" where
  "sweep_ceremonies =
     thenM adbM
     (bindM (getM (\<lambda>s. count_rows (\<lambda>c. ce_expires c < at_now s) (at_ceremonies s))) (\<lambda>n.
      thenM (modM (\<lambda>s. s\<lparr>at_ceremonies := filter (\<lambda>c. \<not> ce_expires c < at_now s) (at_ceremonies s)\<rparr>))
      (ret n)))"

definition auth_Cleanup :: "(auth, int \<times> int) m" where
  "auth_Cleanup = bindM sweep_sessions (\<lambda>n. bindM sweep_ceremonies (\<lambda>k. ret (n, k)))"

end
