(* ===== verification/AuthDevices.thy ===== *)
theory AuthDevices
  imports AuthStore
begin

text \<open>
  Devices and their push subscriptions (\<open>devices.go\<close>), app passwords (\<open>apppassword.go\<close>) and account
  administration (\<open>admin.go\<close>).
\<close>

section \<open>Devices\<close>

definition ua_name_char :: "char \<Rightarrow> bool" where
  "ua_name_char c \<longleftrightarrow> is_digit c \<or> (65 \<le> byte c \<and> byte c \<le> 90) \<or> (97 \<le> byte c \<and> byte c \<le> 122) \<or> c \<in> set ''_.-''"

text \<open>The groups of \<open>^([A-Za-z0-9_.-]+)/([A-Za-z0-9_.+-]+)\<close>.\<close>

definition uaPattern :: "string \<Rightarrow> (string \<times> string) option" where
  "uaPattern ua =
     (let name = takeWhile ua_name_char ua; rest = dropWhile ua_name_char ua;
          version = takeWhile (\<lambda>c. ua_name_char c \<or> c = CHR ''+'') (tl rest)
      in if name = [] \<or> \<not> prefix ''/'' rest \<or> version = [] then None else Some (name, version))"

definition strings_Contains :: "string \<Rightarrow> string \<Rightarrow> bool" where
  "strings_Contains s t \<longleftrightarrow> sublist t s"

definition ParseUserAgent :: "ext \<Rightarrow> string \<Rightarrow> string \<times> string" where
  "ParseUserAgent x ua =
     (if ua = [] then ([], [])
      else
        let version = (case uaPattern ua of None \<Rightarrow> [] | Some (_, v) \<Rightarrow> v);
            lower = ToLower (uni_lower x) ua;
            has = strings_Contains lower
        in (if has ''windows'' then ''windows''
            else if has ''android'' then ''android''
            else if has ''iphone'' \<or> has ''ipad'' \<or> has ''ios'' then ''ios''
            else if has ''mac os'' \<or> has ''macos'' \<or> has ''darwin'' then ''macos''
            else if has ''linux'' then ''linux'' else [], version))"

definition defaultDeviceName :: "string \<Rightarrow> string \<Rightarrow> string" where
  "defaultDeviceName platform ua =
     (if platform \<noteq> [] then platform @ '' device''
      else case uaPattern ua of Some (n, _) \<Rightarrow> n | None \<Rightarrow> ''unknown device'')"

record Device =
  dv_ID :: nat
  dv_Name :: string
  dv_Platform :: string
  dv_AppVersion :: string
  dv_UserAgent :: string
  dv_LastSeenAt :: int
  dv_CreatedAt :: int
  dv_ExpiresAt :: int
  dv_HasPush :: bool

definition scanDevice :: "ext \<Rightarrow> auth \<Rightarrow> session_row \<Rightarrow> Device" where
  "scanDevice x s r =
     (let (platform, version) = ParseUserAgent x (ss_agent r) in
      \<lparr>dv_ID = ss_id r, dv_Name = (if ss_device r = [] then defaultDeviceName platform (ss_agent r) else ss_device r),
       dv_Platform = platform, dv_AppVersion = version, dv_UserAgent = ss_agent r, dv_LastSeenAt = ss_seen r,
       dv_CreatedAt = ss_created r, dv_ExpiresAt = ss_expires r,
       dv_HasPush = list_ex (\<lambda>p. ps_session p = ss_id r) (at_push s)\<rparr>)"

definition own_device :: "nat \<Rightarrow> nat \<Rightarrow> session_row \<Rightarrow> bool" where
  "own_device u i r \<longleftrightarrow> ss_id r = i \<and> ss_user r = u \<and> ss_kind r = SessionKindDevice \<and> ss_revoked r = None"

definition ListDevices :: "ext \<Rightarrow> nat \<Rightarrow> (auth, Device list) m" where
  "ListDevices x u =
     aselectM (\<lambda>s. map (scanDevice x s) (sort_key (\<lambda>r. - ss_seen r)
       (filter (\<lambda>r. ss_user r = u \<and> ss_kind r = SessionKindDevice \<and> live_session s r) (at_sessions s))))"

text \<open>PostgreSQL refuses text that is not UTF-8.\<close>

definition utf8_ok :: "string \<Rightarrow> bool" where
  "utf8_ok s \<longleftrightarrow> list_all (\<lambda>ch. length ch > 1 \<or> ascii ch) (runes s)"

definition RenameDevice :: "nat \<Rightarrow> nat \<Rightarrow> string \<Rightarrow> (auth, unit) m" where
  "RenameDevice u i name =
     (let trimmed = TrimSpace name; cut = (if length trimmed > 128 then take 128 trimmed else trimmed) in
      thenM (guardM (utf8_ok cut) (Sentinel ''22021''))
      (bindM (update_sessions (\<lambda>s. own_device u i) (\<lambda>s r. r\<lparr>ss_device := cut\<rparr>)) (\<lambda>n.
       guardM (n \<noteq> 0) ErrDeviceNotFound)))"

definition RevokeDevice :: "nat \<Rightarrow> nat \<Rightarrow> (auth, unit) m" where
  "RevokeDevice u i =
     thenM adbM
     (bindM (getM id) (\<lambda>s.
      let revoked = filter (own_device u i) (at_sessions s) in
      thenM (modM (\<lambda>t. t\<lparr>at_sessions := set_rows (own_device u i) (\<lambda>r. r\<lparr>ss_revoked := Some (at_now t)\<rparr>) (at_sessions t),
                     at_push := filter (\<lambda>p. ps_session p \<notin> set (map ss_id revoked)) (at_push t)\<rparr>))
      (guardM (revoked \<noteq> []) ErrDeviceNotFound)))"

definition PutPushSubscription :: "nat \<Rightarrow> nat \<Rightarrow> string \<Rightarrow> string \<Rightarrow> string \<Rightarrow> (auth, unit) m" where
  "PutPushSubscription u i endpoint p256dh key =
     thenM adbM
     (bindM (getM id) (\<lambda>s.
      if list_ex (\<lambda>r. own_device u i r \<and> ss_expires r > at_now s) (at_sessions s) then
        (if endpoint = [] then raise check_violation
         else
           let p = \<lparr>ps_session = i, ps_user = u, ps_endpoint = endpoint, ps_p256dh = p256dh, ps_auth = key\<rparr> in
           modM (\<lambda>t. t\<lparr>at_push :=
             (if list_ex (\<lambda>q. ps_session q = i) (at_push t) then
                set_rows (\<lambda>q. ps_session q = i) (\<lambda>q. q\<lparr>ps_endpoint := endpoint, ps_p256dh := p256dh, ps_auth := key\<rparr>) (at_push t)
              else at_push t @ [p])\<rparr>))
      else raise ErrDeviceNotFound))"

definition PushTargetsFor :: "nat \<Rightarrow> (auth, push_row list) m" where
  "PushTargetsFor u =
     aselectM (\<lambda>s. filter (\<lambda>p. ps_user p = u \<and>
       list_ex (\<lambda>r. ss_id r = ps_session p \<and> live_session s r) (at_sessions s)) (at_push s))"

definition delete_push :: "(push_row \<Rightarrow> bool) \<Rightarrow> (auth, int) m" where
  "delete_push p =
     thenM adbM
     (bindM (getM (\<lambda>s. count_rows p (at_push s))) (\<lambda>n.
      thenM (modM (\<lambda>s. s\<lparr>at_push := filter (\<lambda>r. \<not> p r) (at_push s)\<rparr>)) (ret n)))"

definition DeletePushSubscriptionBySession :: "nat \<Rightarrow> (auth, unit) m" where
  "DeletePushSubscriptionBySession i = bindM (delete_push (\<lambda>p. ps_session p = i)) (\<lambda>_. ret ())"

definition DeletePushSubscription :: "nat \<Rightarrow> nat \<Rightarrow> (auth, unit) m" where
  "DeletePushSubscription u i =
     bindM (delete_push (\<lambda>p. ps_session p = i \<and> ps_user p = u)) (\<lambda>n. guardM (n \<noteq> 0) ErrDeviceNotFound)"

section \<open>App passwords\<close>

definition appPasswordPrefix :: string where "appPasswordPrefix = ''pcap_''"
definition appPasswordLookupSz :: nat where "appPasswordLookupSz = 8"
definition appPasswordSecretSz :: nat where "appPasswordSecretSz = 16"

definition GenerateAppPassword :: "(auth, string \<times> string) m" where
  "GenerateAppPassword =
     bindM (wrapM ''generate app password'' (randM appPasswordLookupSz)) (\<lambda>lookupRaw.
     bindM (wrapM ''generate app password'' (randM appPasswordSecretSz)) (\<lambda>secretRaw.
     ret (appPasswordPrefix @ hex_encode lookupRaw @ ''_'' @ hex_encode secretRaw, hex_encode lookupRaw)))"

text \<open>\<open>strings.Cut\<close> at the first underscore after the prefix.\<close>

definition splitAppPassword :: "string \<Rightarrow> (string \<times> string) option" where
  "splitAppPassword plaintext =
     (if \<not> prefix appPasswordPrefix plaintext then None
      else
        let rest = drop (length appPasswordPrefix) plaintext in
        case IndexByte rest (CHR ''_'') of
          None \<Rightarrow> None
        | Some i \<Rightarrow>
            if length (take i rest) \<noteq> appPasswordLookupSz * 2 \<or> length (drop (Suc i) rest) \<noteq> appPasswordSecretSz * 2 then None
            else Some (take i rest, drop (Suc i) rest))"

definition insert_app :: "nat \<Rightarrow> string \<Rightarrow> string \<Rightarrow> string \<Rightarrow> int option \<Rightarrow> (auth, app_row) m" where
  "insert_app u name hash lookup expires =
     thenM adbM
     (bindM (getM id) (\<lambda>s.
      if list_ex (\<lambda>r. ap_lookup r = lookup) (at_apps s) then raise unique_violation
      else if \<not> user_exists u s then raise fk_violation
      else bindM freshM (\<lambda>i.
        let r = \<lparr>ap_id = i, ap_user = u, ap_name = name, ap_hash = hash, ap_lookup = lookup, ap_created = at_now s,
                 ap_used = None, ap_expires = expires, ap_revoked = None\<rparr>
        in thenM (modM (\<lambda>t. t\<lparr>at_apps := at_apps t @ [r]\<rparr>)) (ret r))))"

definition CreateAppPassword :: "authlib \<Rightarrow> nat \<Rightarrow> string \<Rightarrow> int \<Rightarrow> (auth, app_row \<times> string) m" where
  "CreateAppPassword al u name ttl =
     thenM (guardM (TrimSpace name \<noteq> []) (Msg ''app password name is required''))
     (bindM GenerateAppPassword (\<lambda>(plaintext, lookup).
      bindM (HashSecret al (case splitAppPassword plaintext of None \<Rightarrow> [] | Some (_, secret) \<Rightarrow> secret)) (\<lambda>hash.
      bindM (getM (\<lambda>s. if ttl > 0 then Some (at_now s + ttl) else None)) (\<lambda>expires.
      bindM (wrapM ''create app password'' (insert_app u name hash lookup expires)) (\<lambda>r.
      ret (r, plaintext))))))"

definition ListAppPasswords :: "nat \<Rightarrow> (auth, app_row list) m" where
  "ListAppPasswords u =
     aselectM (\<lambda>s. sort_key (\<lambda>r. - ap_created r) (filter (\<lambda>r. ap_user r = u \<and> ap_revoked r = None) (at_apps s)))"

definition RevokeAppPassword :: "nat \<Rightarrow> nat \<Rightarrow> (auth, unit) m" where
  "RevokeAppPassword u i =
     bindM (update_apps (\<lambda>s r. ap_id r = i \<and> ap_user r = u \<and> ap_revoked r = None) (\<lambda>s r. r\<lparr>ap_revoked := Some (at_now s)\<rparr>)) (\<lambda>n.
     guardM (n \<noteq> 0) (Msg ''app password not found''))"

definition RevokeAllAppPasswords :: "nat \<Rightarrow> (auth, int) m" where
  "RevokeAllAppPasswords u =
     update_apps (\<lambda>s r. ap_user r = u \<and> ap_revoked r = None) (\<lambda>s r. r\<lparr>ap_revoked := Some (at_now s)\<rparr>)"

definition usable_app :: "auth \<Rightarrow> string \<Rightarrow> app_row \<Rightarrow> bool" where
  "usable_app s lookup r \<longleftrightarrow> ap_lookup r = lookup \<and> ap_revoked r = None \<and>
     (case ap_expires r of None \<Rightarrow> True | Some t \<Rightarrow> t > at_now s)"

definition VerifyAppPassword :: "authlib \<Rightarrow> string \<Rightarrow> (auth, User) m" where
  "VerifyAppPassword al plaintext =
     (case splitAppPassword plaintext of
        None \<Rightarrow> raise ErrAppPasswordInvalid
      | Some (lookup, secret) \<Rightarrow>
          bindM (aselectM (\<lambda>s. case find (usable_app s lookup) (at_apps s) of
              None \<Rightarrow> None
            | Some r \<Rightarrow> map_option (\<lambda>a. (r, scanUser a)) (find (\<lambda>a. us_ID a = ap_user r) (at_users s)))) (\<lambda>q. case q of
            None \<Rightarrow> raise ErrAppPasswordInvalid
          | Some (r, u) \<Rightarrow>
              bindM (verifyM al secret (ap_hash r)) (\<lambda>ok.
              thenM (guardM ok ErrAppPasswordInvalid)
              (thenM (guardM (\<not> Disabled u) ErrUserDisabled)
              (bindM (tryM (update_apps (\<lambda>s a. ap_id a = ap_id r) (\<lambda>s a. a\<lparr>ap_used := Some (at_now s)\<rparr>))) (\<lambda>_.
               ret u))))))"

section \<open>Administration\<close>

text \<open>A \<open>nil\<close> field is \<open>None\<close>; the quota can be set to \<open>nil\<close> as well.\<close>

record UserPatch =
  pt_DisplayName :: "string option"
  pt_IsAdmin :: "bool option"
  pt_Disabled :: "bool option"
  pt_QuotaBytes :: "int option option"

definition active_admin :: "'a User_scheme \<Rightarrow> bool" where
  "active_admin a \<longleftrightarrow> us_IsAdmin a \<and> us_DisabledAt a = None"

definition isLastActiveAdmin :: "nat \<Rightarrow> (auth, bool) m" where
  "isLastActiveAdmin i =
     bindM (aselectM (\<lambda>s. map_option us_IsAdmin (find (\<lambda>a. us_ID a = i \<and> us_DisabledAt a = None) (at_users s)))) (\<lambda>q. case q of
       None \<Rightarrow> ret False
     | Some isAdmin \<Rightarrow>
         if \<not> isAdmin then ret False
         else bindM (aselectM (\<lambda>s. count_rows (\<lambda>a. active_admin a \<and> us_ID a \<noteq> i) (at_users s))) (\<lambda>others.
           ret (others = 0)))"

definition patched :: "UserPatch \<Rightarrow> int \<Rightarrow> account \<Rightarrow> account" where
  "patched p t a =
     a\<lparr>us_DisplayName := (case pt_DisplayName p of None \<Rightarrow> us_DisplayName a | Some d \<Rightarrow> TrimSpace d),
       us_IsAdmin := (case pt_IsAdmin p of None \<Rightarrow> us_IsAdmin a | Some b \<Rightarrow> b),
       us_Quota := (case pt_QuotaBytes p of None \<Rightarrow> us_Quota a | Some q \<Rightarrow> q),
       us_DisabledAt := (case pt_Disabled p of
           None \<Rightarrow> us_DisabledAt a
         | Some True \<Rightarrow> (case us_DisabledAt a of None \<Rightarrow> Some t | Some t0 \<Rightarrow> Some t0)
         | Some False \<Rightarrow> None)\<rparr>"

definition demotes :: "UserPatch \<Rightarrow> bool" where
  "demotes p \<longleftrightarrow> pt_IsAdmin p = Some False \<or> pt_Disabled p = Some True"

definition patch_user :: "nat \<Rightarrow> UserPatch \<Rightarrow> (auth, User) m" where
  "patch_user i p =
     bindM (update_users (\<lambda>a. us_ID a = i) (patched p)) (\<lambda>rows. case rows of
       [] \<Rightarrow> raise ErrUserNotFound
     | a # _ \<Rightarrow> ret (scanUser a))"

definition UpdateUser :: "nat \<Rightarrow> UserPatch \<Rightarrow> (auth, User) m" where
  "UpdateUser i p =
     thenM (if demotes p then bindM (isLastActiveAdmin i) (\<lambda>last. guardM (\<not> last) ErrLastAdmin) else ret ())
     (bindM (patch_user i p) (\<lambda>u.
      thenM (if pt_Disabled p = Some True then bindM (RevokeAllSessions i) (\<lambda>_. ret ()) else ret ())
      (ret u)))"

definition DisableUser :: "nat \<Rightarrow> (auth, unit) m" where
  "DisableUser i =
     bindM (UpdateUser i \<lparr>pt_DisplayName = None, pt_IsAdmin = None, pt_Disabled = Some True, pt_QuotaBytes = None\<rparr>) (\<lambda>_. ret ())"

end
