(* ===== verification/AuthService.thy ===== *)
theory AuthService
  imports AuthDevices
begin

text \<open>
  The ceremonies, recovery and sessions of \<open>server/internal/auth/service.go\<close>.  A request \<open>r\<close> is the text the WebAuthn
  library reads; log lines are left out.  A user handle is the sixteen bytes of the user's id.
\<close>

definition ceremonyTTL :: int where "ceremonyTTL = 5 * 60 * 1000000000"
definition recoverySessionTTL :: int where "recoverySessionTTL = 15 * 60 * 1000000000"

record AuthConfig =
  cfg_SessionTTL :: int

definition uuid_bytes :: "nat \<Rightarrow> string" where
  "uuid_bytes i = map (\<lambda>k. char_of (i div 256 ^ (15 - k) mod 256)) [0 ..< 16]"

definition bytes_uuid :: "string \<Rightarrow> nat" where
  "bytes_uuid s = foldl (\<lambda>a c. a * 256 + byte c) 0 s"

definition webauthnUser :: "'a User_scheme \<Rightarrow> wa_credential list \<Rightarrow> wa_user" where
  "webauthnUser u creds =
     \<lparr>wu_id = uuid_bytes (us_ID u), wu_name = us_Username u,
      wu_display = (if us_DisplayName u \<noteq> [] then us_DisplayName u else us_Username u), wu_creds = creds\<rparr>"

definition unsaved_user :: "nat \<Rightarrow> string \<Rightarrow> User" where
  "unsaved_user i name = \<lparr>us_ID = i, us_Username = name, us_DisplayName = name, us_IsAdmin = False, us_Quota = None,
     us_DisabledAt = None, us_CreatedAt = 0\<rparr>"

definition credentialsFor :: "nat option \<Rightarrow> (auth, wa_credential list) m" where
  "credentialsFor u = (case u of None \<Rightarrow> ret [] | Some i \<Rightarrow> CredentialsForUser i)"

section \<open>Registration\<close>

text \<open>\<open>target\<close>, \<open>targetID\<close> and \<open>pending\<close> of \<open>BeginRegistration\<close>.\<close>

definition registration_target :: "string \<Rightarrow> User option \<Rightarrow> (auth, User \<times> nat option \<times> string) m" where
  "registration_target username current =
     (case current of
        Some u \<Rightarrow> ret (u, Some (us_ID u), [])
      | None \<Rightarrow>
          bindM CountUsers (\<lambda>n.
          thenM (guardM (\<not> n > 0) ErrRegistrationShut)
          (thenM (guardM (username \<noteq> []) (Msg ''username is required''))
          (bindM freshM (\<lambda>i. ret (unsaved_user i username, None, username))))))"

definition BeginRegistration :: "authlib \<Rightarrow> string \<Rightarrow> User option \<Rightarrow> (auth, string \<times> nat) m" where
  "BeginRegistration al username current =
     bindM (registration_target username current) (\<lambda>(target, targetID, pending).
     bindM (credentialsFor targetID) (\<lambda>creds.
     bindM (wrapM ''begin registration'' (liftE (al_BeginRegistration al [] (webauthnUser target creds)))) (\<lambda>(options, d).
     bindM (CreateCeremony targetID ''registration'' pending d ceremonyTTL) (\<lambda>i.
     ret (options, i)))))"

definition RegenerateRecoveryCodes :: "ext \<Rightarrow> authlib \<Rightarrow> nat \<Rightarrow> (auth, string list) m" where
  "RegenerateRecoveryCodes x al u =
     bindM (GenerateRecoveryCodes RecoveryCodeCount) (\<lambda>codes.
     bindM (foldM (\<lambda>hs c. bindM (HashRecoveryCode x al c) (\<lambda>h. ret (hs @ [h]))) [] codes) (\<lambda>hashes.
     thenM (ReplaceRecoveryCodes u hashes)
     (ret codes)))"

definition registration_user :: "nat option \<Rightarrow> string \<Rightarrow> SessionData \<Rightarrow> (auth, User) m" where
  "registration_user uid pending d =
     (case uid of
        Some i \<Rightarrow> GetUserByID i
      | None \<Rightarrow>
          thenM (guardM (length (sd_UserID d) = 16) (Msg ''ceremony carries a malformed user handle''))
          (ret (unsaved_user (bytes_uuid (sd_UserID d)) pending)))"

definition bootstrap_admin :: "ext \<Rightarrow> authlib \<Rightarrow> nat \<Rightarrow> string \<Rightarrow> (auth, User \<times> string list) m" where
  "bootstrap_admin x al i name =
     bindM (CreateUser al i name name True) (\<lambda>u.
     bindM (RegenerateRecoveryCodes x al (us_ID u)) (\<lambda>codes.
     ret (u, codes)))"

definition FinishRegistration :: "ext \<Rightarrow> authlib \<Rightarrow> nat \<Rightarrow> string \<Rightarrow> string \<Rightarrow> (auth, User \<times> string list) m" where
  "FinishRegistration x al ceremony credName r =
     bindM (TakeCeremony ceremony ''registration'') (\<lambda>(uid, pending, d).
     bindM (registration_user uid pending d) (\<lambda>u.
     bindM (credentialsFor uid) (\<lambda>creds.
     bindM (wrapM ''verify registration'' (liftE (al_FinishRegistration al (webauthnUser u creds) d r))) (\<lambda>c.
     bindM (if uid = None then bootstrap_admin x al (us_ID u) pending else ret (u, [])) (\<lambda>(u', codes).
     thenM (AddCredential (us_ID u') credName c)
     (ret (u', codes)))))))"

section \<open>Login\<close>

definition BeginLogin :: "authlib \<Rightarrow> string \<Rightarrow> (auth, string \<times> nat) m" where
  "BeginLogin al username =
     bindM (GetUserByUsername al username) (\<lambda>u.
     thenM (guardM (\<not> Disabled u) ErrUserDisabled)
     (bindM (CredentialsForUser (us_ID u)) (\<lambda>creds.
      thenM (guardM (creds \<noteq> []) ErrNoCredentials)
      (bindM (wrapM ''begin login'' (liftE (al_BeginLogin al [] (webauthnUser u creds)))) (\<lambda>(options, d).
       bindM (CreateCeremony (Some (us_ID u)) ''login'' [] d ceremonyTTL) (\<lambda>i.
       ret (options, i)))))))"

definition FinishLogin :: "authlib \<Rightarrow> nat \<Rightarrow> string \<Rightarrow> (auth, User) m" where
  "FinishLogin al ceremony r =
     bindM (TakeCeremony ceremony ''login'') (\<lambda>(uid, _, d). case uid of
       None \<Rightarrow> raise ErrCeremonyNotFound
     | Some i \<Rightarrow>
         bindM (GetUserByID i) (\<lambda>u.
         thenM (guardM (\<not> Disabled u) ErrUserDisabled)
         (bindM (CredentialsForUser (us_ID u)) (\<lambda>creds.
          bindM (wrapM ''verify login'' (liftE (al_FinishLogin al (webauthnUser u creds) d r))) (\<lambda>c.
          bindM (tryM (UpdateCredentialUsage (WC_ID c) (WC_SignCount c) (WC_CloneWarning c))) (\<lambda>_.
          ret u))))))"

section \<open>Recovery\<close>

definition RedeemRecoveryCode :: "ext \<Rightarrow> authlib \<Rightarrow> string \<Rightarrow> string \<Rightarrow> (auth, User) m" where
  "RedeemRecoveryCode x al username code =
     bindM (GetUserByUsername al username) (\<lambda>u.
     thenM (guardM (\<not> Disabled u) ErrUserDisabled)
     (thenM (ConsumeRecoveryCode x al (us_ID u) code)
     (ret u)))"

section \<open>Sessions\<close>

definition session_ttl :: "AuthConfig \<Rightarrow> string \<Rightarrow> int" where
  "session_ttl cfg kind = (if kind = SessionKindRecovery then recoverySessionTTL else cfg_SessionTTL cfg)"

definition NewSessionToken :: "ext \<Rightarrow> AuthConfig \<Rightarrow> 'a User_scheme \<Rightarrow> string \<Rightarrow> string \<Rightarrow> (auth, string \<times> int) m" where
  "NewSessionToken x cfg u kind agent =
     bindM (wrapM ''generate session token'' (randM 32)) (\<lambda>raw.
     bindM (getM at_now) (\<lambda>t.
     bindM (CreateSession (us_ID u) (sha256 x (RawURLEncoding raw)) kind agent (t + session_ttl cfg kind)) (\<lambda>_.
     ret (RawURLEncoding raw, t + session_ttl cfg kind))))"

definition Authenticate :: "ext \<Rightarrow> string \<Rightarrow> (auth, session_row \<times> User) m" where
  "Authenticate x token =
     (if token = [] then raise ErrSessionInvalid
      else bindM (SessionUser (sha256 x token)) (\<lambda>(sess, u).
        thenM (guardM (\<not> Disabled u) ErrUserDisabled) (ret (sess, u))))"

definition Logout :: "ext \<Rightarrow> string \<Rightarrow> (auth, unit) m" where
  "Logout x token = (if token = [] then ret () else RevokeSessionByTokenHash (sha256 x token))"

end
