(* ===== verification/AuthRuns.thy ===== *)
theory AuthRuns
  imports AuthService
begin

text \<open>
  Statements of concurrent requests, and what no statement ever undoes.  A request is a sequence of the statements of
  \<open>store.go\<close>, \<open>devices.go\<close>, \<open>apppassword.go\<close> and \<open>admin.go\<close>; PostgreSQL runs each of them alone, so every
  interleaving of any number of requests is a run of \<open>stmt\<close>.
\<close>

section \<open>Statements\<close>

inductive stmt :: "auth \<Rightarrow> auth \<Rightarrow> bool" where
  clock: "at_now s \<le> t \<Longrightarrow> stmt s (s\<lparr>at_now := t\<rparr>)"
| faults: "stmt s (s\<lparr>faults := bs\<rparr>)"
| random: "stmt s (s\<lparr>at_random := bs\<rparr>)"
| uuid: "stmt s (s\<lparr>at_next := Suc (at_next s)\<rparr>)"
| insert_user: "insert_user al i u d a s = (r, s') \<Longrightarrow> stmt s s'"
| update_users: "update_users p (\<lambda>t a. a\<lparr>us_DisabledAt := g t\<rparr>) s = (r, s') \<Longrightarrow> stmt s s'"
| patch_users: "update_users p (patched q) s = (r, s') \<Longrightarrow> stmt s s'"
| AddCredential: "AddCredential i n c s = (r, s') \<Longrightarrow> stmt s s'"
| UpdateCredentialUsage: "UpdateCredentialUsage cid n b s = (r, s') \<Longrightarrow> stmt s s'"
| delete_creds: "delete_creds pc s = (r, s') \<Longrightarrow> stmt s s'"
| ReplaceRecoveryCodes: "ReplaceRecoveryCodes i hs s = (r, s') \<Longrightarrow> stmt s s'"
| mark_code: "mark_code i s = (r, s') \<Longrightarrow> stmt s s'"
| CreateSession: "CreateSession i h k ag e s = (r, s') \<Longrightarrow> stmt s s'"
| TouchSession: "TouchSession i s = (r, s') \<Longrightarrow> stmt s s'"
| RevokeSession: "RevokeSession i j s = (r, s') \<Longrightarrow> stmt s s'"
| RevokeSessionByTokenHash: "RevokeSessionByTokenHash h s = (r, s') \<Longrightarrow> stmt s s'"
| RevokeAllSessions: "RevokeAllSessions i s = (r, s') \<Longrightarrow> stmt s s'"
| CreateCeremony: "CreateCeremony o' k pn d e s = (r, s') \<Longrightarrow> stmt s s'"
| TakeCeremony: "TakeCeremony i k s = (r, s') \<Longrightarrow> stmt s s'"
| sweep_sessions: "sweep_sessions s = (r, s') \<Longrightarrow> stmt s s'"
| sweep_ceremonies: "sweep_ceremonies s = (r, s') \<Longrightarrow> stmt s s'"
| rename_session: "update_sessions (\<lambda>_. own_device i j) (\<lambda>_ r. r\<lparr>ss_device := n\<rparr>) s = (r, s') \<Longrightarrow> stmt s s'"
| RevokeDevice: "RevokeDevice i j s = (r, s') \<Longrightarrow> stmt s s'"
| PutPushSubscription: "PutPushSubscription i j e k a s = (r, s') \<Longrightarrow> stmt s s'"
| delete_push: "delete_push pp s = (r, s') \<Longrightarrow> stmt s s'"
| insert_app: "insert_app i n h l e s = (r, s') \<Longrightarrow> stmt s s'"
| use_app: "update_apps (\<lambda>s a. ap_id a = i) (\<lambda>s a. a\<lparr>ap_used := Some (at_now s)\<rparr>) s = (r, s') \<Longrightarrow> stmt s s'"
| RevokeAppPassword: "RevokeAppPassword i j s = (r, s') \<Longrightarrow> stmt s s'"
| RevokeAllAppPasswords: "RevokeAllAppPasswords i s = (r, s') \<Longrightarrow> stmt s s'"

abbreviation run :: "auth \<Rightarrow> auth \<Rightarrow> bool" where
  "run \<equiv> stmt\<^sup>*\<^sup>*"

section \<open>What is never undone\<close>

text \<open>Every row of \<open>ys\<close> is newer than \<open>n\<close>, or it is a row of \<open>xs\<close> moved on by \<open>R\<close>.\<close>

definition grown :: "('r \<Rightarrow> nat) \<Rightarrow> ('r \<Rightarrow> 'r \<Rightarrow> bool) \<Rightarrow> nat \<Rightarrow> 'r list \<Rightarrow> 'r list \<Rightarrow> bool" where
  "grown k R n xs ys \<longleftrightarrow> (\<forall>y \<in> set ys. n \<le> k y \<or> (\<exists>x \<in> set xs. R x y))"

definition session_kept :: "session_row \<Rightarrow> session_row \<Rightarrow> bool" where
  "session_kept x y \<longleftrightarrow> ss_id x = ss_id y \<and> ss_user x = ss_user y \<and> ss_token x = ss_token y \<and> ss_kind x = ss_kind y \<and>
     ss_expires x = ss_expires y \<and> (ss_revoked x \<noteq> None \<longrightarrow> ss_revoked y \<noteq> None)"

definition code_kept :: "code_row \<Rightarrow> code_row \<Rightarrow> bool" where
  "code_kept x y \<longleftrightarrow> rc_id x = rc_id y \<and> rc_user x = rc_user y \<and> rc_hash x = rc_hash y \<and>
     (rc_used x \<noteq> None \<longrightarrow> rc_used y \<noteq> None)"

definition app_kept :: "app_row \<Rightarrow> app_row \<Rightarrow> bool" where
  "app_kept x y \<longleftrightarrow> ap_id x = ap_id y \<and> ap_user x = ap_user y \<and> ap_hash x = ap_hash y \<and> ap_lookup x = ap_lookup y \<and>
     ap_expires x = ap_expires y \<and> (ap_revoked x \<noteq> None \<longrightarrow> ap_revoked y \<noteq> None)"

definition later :: "auth \<Rightarrow> auth \<Rightarrow> bool" where
  "later s s' \<longleftrightarrow> at_now s \<le> at_now s' \<and> at_next s \<le> at_next s' \<and>
     grown ss_id session_kept (at_next s) (at_sessions s) (at_sessions s') \<and>
     grown rc_id code_kept (at_next s) (at_codes s) (at_codes s') \<and>
     grown ce_id (=) (at_next s) (at_ceremonies s) (at_ceremonies s') \<and>
     grown ap_id app_kept (at_next s) (at_apps s) (at_apps s')"

text \<open>The primary keys and the unique indexes of the tables.\<close>

definition keys_ok :: "('r \<Rightarrow> nat) \<Rightarrow> nat \<Rightarrow> 'r list \<Rightarrow> bool" where
  "keys_ok k n rs \<longleftrightarrow> distinct (map k rs) \<and> (\<forall>r \<in> set rs. k r < n)"

definition ids_ok :: "auth \<Rightarrow> bool" where
  "ids_ok s \<longleftrightarrow> keys_ok ss_id (at_next s) (at_sessions s) \<and> keys_ok rc_id (at_next s) (at_codes s) \<and>
     keys_ok ce_id (at_next s) (at_ceremonies s) \<and> keys_ok ap_id (at_next s) (at_apps s) \<and>
     distinct (map ss_token (at_sessions s)) \<and> distinct (map ap_lookup (at_apps s))"

section \<open>Tables\<close>

named_theorems table_intros

lemma count_rows_zero: "count_rows p rs = 0 \<longleftrightarrow> (\<forall>r \<in> set rs. \<not> p r)"
  by (simp add: count_rows_def filter_empty_conv)

lemma marked_rows: "c \<in> set (set_rows p f rs) \<Longrightarrow> \<exists>r \<in> set rs. c = f r \<and> p r \<or> c = r \<and> \<not> p r"
  by (auto simp: set_rows_def)

lemma grown_refl [table_intros]: "(\<And>x. R x x) \<Longrightarrow> grown k R n xs xs"
  by (auto simp: grown_def)

lemma grown_trans:
  assumes "grown k R n xs ys" "grown k R n' ys zs" "n \<le> n'"
    and R: "\<And>x y z. R x y \<Longrightarrow> R y z \<Longrightarrow> R x z" "\<And>x y. R x y \<Longrightarrow> k x = k y"
  shows "grown k R n xs zs"
  unfolding grown_def
proof
  fix z assume "z \<in> set zs"
  with assms(2) consider "n' \<le> k z" | y where "y \<in> set ys" "R y z" by (auto simp: grown_def)
  then show "n \<le> k z \<or> (\<exists>x \<in> set xs. R x z)"
  proof cases
    case 1
    with assms(3) show ?thesis by simp
  next
    case 2
    with assms(1) R show ?thesis by (fastforce simp: grown_def)
  qed
qed

lemma grown_filter [table_intros]: "(\<And>x. R x x) \<Longrightarrow> grown k R n xs (filter p xs)"
  by (auto simp: grown_def)

lemma grown_set_rows [table_intros]: "(\<And>x. R x x) \<Longrightarrow> (\<And>x. R x (f x)) \<Longrightarrow> grown k R n xs (set_rows p f xs)"
  by (auto simp: grown_def set_rows_def)

lemma grown_append [table_intros]: "(\<And>x. R x x) \<Longrightarrow> n \<le> k y \<Longrightarrow> grown k R n xs (xs @ [y])"
  by (auto simp: grown_def)

lemma keys_ok_filter [table_intros]: "keys_ok k n rs \<Longrightarrow> keys_ok k n (filter p rs)"
  by (auto simp: keys_ok_def distinct_map_filter)

lemma set_rows_map: "(\<And>r. k (f r) = k r) \<Longrightarrow> map k (set_rows p f rs) = map k rs"
  by (auto simp: set_rows_def)

lemma keys_ok_set_rows [table_intros]: "keys_ok k n rs \<Longrightarrow> (\<And>r. k (f r) = k r) \<Longrightarrow> keys_ok k n (set_rows p f rs)"
  by (auto simp: keys_ok_def set_rows_map) (auto simp: set_rows_def)

lemma keys_ok_append [table_intros]: "keys_ok k n rs \<Longrightarrow> k r = n \<Longrightarrow> keys_ok k (Suc n) (rs @ [r])"
  by (auto simp: keys_ok_def)

lemma keys_ok_Suc: "keys_ok k n rs \<Longrightarrow> keys_ok k (Suc n) rs"
  by (auto simp: keys_ok_def)

lemma kept_refl [simp]: "session_kept x x" "code_kept y y" "app_kept z z"
  by (auto simp: session_kept_def code_kept_def app_kept_def)

lemma later_refl [simp]: "later s s"
  by (simp add: later_def table_intros)

lemma later_trans: "later s s' \<Longrightarrow> later s' s'' \<Longrightarrow> later s s''"
  unfolding later_def
  by (elim conjE, intro conjI; (erule (1) order_trans | (erule (2) grown_trans; auto simp: session_kept_def code_kept_def app_kept_def)))

text \<open>A statement keeps the keys and undoes nothing.\<close>

definition moves_on :: "auth \<Rightarrow> auth \<Rightarrow> bool" where
  "moves_on s s' \<longleftrightarrow> (ids_ok s \<longrightarrow> ids_ok s' \<and> later s s')"

lemma moves_on_refl [simp]: "moves_on s s"
  by (simp add: moves_on_def)

lemma moves_on_trans: "moves_on s s' \<Longrightarrow> moves_on s' s'' \<Longrightarrow> moves_on s s''"
  using later_trans by (auto simp: moves_on_def)

lemma moves_on_faults [simp]: "moves_on s (s'\<lparr>faults := bs\<rparr>) = moves_on s s'" "moves_on (s\<lparr>faults := bs\<rparr>) s' = moves_on s s'"
  by (simp_all add: moves_on_def ids_ok_def later_def)

lemma adb_run:
  assumes "adbM s = (r, s')"
  obtains bs where "s' = s\<lparr>faults := bs\<rparr>" "r = Inr () \<or> r = Inl db_err"
proof -
  have "(\<exists>bs. s' = s\<lparr>faults := bs\<rparr>) \<and> (r = Inr () \<or> r = Inl db_err)"
    using assms by (cases "faults s") (auto simp: adbM_def ioM_def intro!: exI [of _ "faults s'"] split: if_splits)
  then show ?thesis using that by blast
qed

text \<open>One statement: the connection is lost, or it runs on the rows it finds.\<close>

lemma after_adb:
  assumes "thenM adbM c s = (r, s')"
  obtains bs where "s' = s\<lparr>faults := bs\<rparr>" "r = Inl db_err" | bs where "c (s\<lparr>faults := bs\<rparr>) = (r, s')"
  using assms by (elim thenM_cases adb_run) auto

lemma moves_update_sessions:
  assumes "update_sessions p f s = (r, s')" and f: "\<And>x y. session_kept y (f x y)"
  shows "moves_on s s'"
proof -
  have k: "ss_id (f x y) = ss_id y" "ss_token (f x y) = ss_token y" for x y using f [of y x] by (auto simp: session_kept_def)
  show ?thesis
    using assms(1) unfolding update_sessions_def
    by (elim after_adb) (auto simp: run_iffs moves_on_def later_def ids_ok_def set_rows_map k f elim!: bindM_cases thenM_cases intro!: table_intros)
qed

lemma list_ex_image: "list_ex (\<lambda>r. g r = v) rs \<longleftrightarrow> v \<in> g ` set rs"
  by (auto simp: list_ex_iff)

lemma moves_update_apps:
  assumes "update_apps p f s = (r, s')" and f: "\<And>x y. app_kept y (f x y)"
  shows "moves_on s s'"
proof -
  have k: "ap_id (f x y) = ap_id y" "ap_lookup (f x y) = ap_lookup y" for x y using f [of y x] by (auto simp: app_kept_def)
  show ?thesis
    using assms(1) unfolding update_apps_def
    by (elim after_adb) (auto simp: run_iffs moves_on_def later_def keys_ok_Suc ids_ok_def set_rows_map k f elim!: bindM_cases thenM_cases intro!: table_intros)
qed

lemma moves_update_users: "update_users p f s = (r, s') \<Longrightarrow> moves_on s s'"
  unfolding update_users_def
  by (elim after_adb) (auto simp: run_iffs moves_on_def later_def keys_ok_Suc ids_ok_def elim!: bindM_cases thenM_cases intro!: table_intros)

lemma moves_code_loop:
  assumes "foldM (\<lambda>_ h. insert_code u h) () hs s = (r, s')"
  shows "moves_on s s'"
proof -
  have step: "insert_code u h t = (q, t') \<Longrightarrow> moves_on t t'" for h t q t'
    unfolding insert_code_def
    by (elim after_adb) (auto simp: run_iffs freshM_def moves_on_def later_def keys_ok_Suc ids_ok_def elim!: bindM_cases thenM_cases intro!: table_intros split: if_splits)
  have "case r of Inl e \<Rightarrow> moves_on s s' | Inr b \<Rightarrow> moves_on s s'"
    by (rule foldM_run [OF assms, where J = "\<lambda>_ _. moves_on s"]) (auto dest: step elim: moves_on_trans split: sum.splits)
  then show ?thesis by (simp split: sum.splits)
qed

lemma moves_ReplaceRecoveryCodes:
  assumes "ReplaceRecoveryCodes u hs s = (r, s')"
  shows "moves_on s s'"
proof -
  let ?body = "thenM adbM (thenM (modM (\<lambda>s. s\<lparr>at_codes := filter (\<lambda>r. rc_user r \<noteq> u) (at_codes s)\<rparr>)) (foldM (\<lambda>_ h. insert_code u h) () hs))"
  have clear: "moves_on t (t\<lparr>at_codes := filter (\<lambda>r. rc_user r \<noteq> u) (at_codes t)\<rparr>)" for t
    by (auto simp: moves_on_def later_def keys_ok_Suc ids_ok_def intro!: table_intros)
  have body: "moves_on t t'" if "thenM ?body adbM t = (q, t')" for t q t'
    using that by (auto simp: run_iffs elim!: thenM_cases adb_run dest!: moves_code_loop intro: moves_on_trans [OF clear [of "t\<lparr>faults := _\<rparr>", simplified]])
  have undo: "moves_on t (t'\<lparr>at_codes := at_codes t\<rparr>)" if "moves_on t t'" for t t'
    using that by (auto simp: moves_on_def later_def keys_ok_Suc ids_ok_def keys_ok_def intro!: table_intros)
  show ?thesis
    using assms unfolding ReplaceRecoveryCodes_def codes_tx_def
    by (auto elim!: after_adb thenM_cases adb_run dest!: body split: prod.splits sum.splits simp: undo)
qed

lemma moves_CreateSession: "CreateSession i h k ag e s = (r, s') \<Longrightarrow> moves_on s s'"
  unfolding CreateSession_def
  by (elim after_adb) (auto simp: run_iffs freshM_def list_ex_image moves_on_def later_def keys_ok_Suc ids_ok_def elim!: bindM_cases thenM_cases intro!: table_intros  split: if_splits)

lemma moves_insert_app: "insert_app i n h l e s = (r, s') \<Longrightarrow> moves_on s s'"
  unfolding insert_app_def Let_def
  by (elim after_adb) (auto simp: run_iffs freshM_def list_ex_image moves_on_def later_def keys_ok_Suc ids_ok_def elim!: bindM_cases thenM_cases intro!: table_intros  split: if_splits)

lemma moves_ceremonies:
  "CreateCeremony u k pn d t s = (r, s') \<Longrightarrow> moves_on s s'"
  "TakeCeremony i k s = (r', s') \<Longrightarrow> moves_on s s'"
  "sweep_ceremonies s = (r'', s') \<Longrightarrow> moves_on s s'"
  unfolding CreateCeremony_def TakeCeremony_def sweep_ceremonies_def
  by (elim after_adb; auto simp: run_iffs freshM_def moves_on_def later_def keys_ok_Suc ids_ok_def elim!: bindM_cases thenM_cases intro!: table_intros split: if_splits option.splits)+

lemma moves_others:
  "insert_user al i u d a s = (r, s') \<Longrightarrow> moves_on s s'"
  "AddCredential i n c s = (r1, s') \<Longrightarrow> moves_on s s'"
  "UpdateCredentialUsage cid m b s = (r2, s') \<Longrightarrow> moves_on s s'"
  "delete_creds pc s = (r3, s') \<Longrightarrow> moves_on s s'"
  "mark_code i s = (r4, s') \<Longrightarrow> moves_on s s'"
  "sweep_sessions s = (r5, s') \<Longrightarrow> moves_on s s'"
  "PutPushSubscription i j en k au s = (r6, s') \<Longrightarrow> moves_on s s'"
  "delete_push pp s = (r7, s') \<Longrightarrow> moves_on s s'"
  unfolding insert_user_def AddCredential_def UpdateCredentialUsage_def delete_creds_def mark_code_def sweep_sessions_def
    PutPushSubscription_def delete_push_def Let_def
  by (elim after_adb; auto simp: run_iffs freshM_def moves_on_def later_def keys_ok_Suc ids_ok_def code_kept_def distinct_map_filter elim!: bindM_cases thenM_cases intro!: table_intros split: if_splits option.splits)+

lemma moves_RevokeDevice: "RevokeDevice i j s = (r, s') \<Longrightarrow> moves_on s s'"
  unfolding RevokeDevice_def Let_def
  by (elim after_adb) (auto simp: run_iffs moves_on_def later_def keys_ok_Suc ids_ok_def session_kept_def set_rows_map elim!: bindM_cases thenM_cases intro!: table_intros split: if_splits)

lemma moves_sessions:
  "TouchSession i s = (r, s') \<Longrightarrow> moves_on s s'"
  "RevokeSession u i s = (r, s') \<Longrightarrow> moves_on s s'"
  "RevokeSessionByTokenHash h s = (r, s') \<Longrightarrow> moves_on s s'"
  "RevokeAllSessions u s = (q, s') \<Longrightarrow> moves_on s s'"
  "update_sessions (\<lambda>_. own_device u i) (\<lambda>_ r. r\<lparr>ss_device := n\<rparr>) s = (q, s') \<Longrightarrow> moves_on s s'"
  unfolding TouchSession_def RevokeSession_def RevokeSessionByTokenHash_def RevokeAllSessions_def
  by (auto simp: run_iffs session_kept_def elim!: bindM_cases moves_update_sessions)

lemma moves_apps:
  "RevokeAppPassword u i s = (r, s') \<Longrightarrow> moves_on s s'"
  "RevokeAllAppPasswords u s = (q, s') \<Longrightarrow> moves_on s s'"
  "update_apps (\<lambda>s a. ap_id a = i) (\<lambda>s a. a\<lparr>ap_used := Some (at_now s)\<rparr>) s = (q, s') \<Longrightarrow> moves_on s s'"
  unfolding RevokeAppPassword_def RevokeAllAppPasswords_def
  by (auto simp: run_iffs app_kept_def elim!: bindM_cases moves_update_apps)

lemma moves_environment:
  "at_now s \<le> t \<Longrightarrow> moves_on s (s\<lparr>at_now := t\<rparr>)" "moves_on s (s\<lparr>at_random := bs\<rparr>)"
  "moves_on s (s\<lparr>at_next := Suc (at_next s)\<rparr>)"
  by (auto simp: moves_on_def later_def ids_ok_def keys_ok_Suc intro!: table_intros)

lemma stmt_moves_on: "stmt s s' \<Longrightarrow> moves_on s s'"
  by (induction rule: stmt.induct)
     ((erule moves_update_users moves_ReplaceRecoveryCodes moves_CreateSession moves_insert_app moves_ceremonies
        moves_others moves_RevokeDevice moves_sessions moves_apps | (rule moves_environment; assumption?) | simp)+)

lemma run_moves_on: "run s s' \<Longrightarrow> moves_on s s'"
  by (induction rule: rtranclp_induct) (auto dest: stmt_moves_on intro: moves_on_trans)

lemma run_later:
  assumes "run s s'" "ids_ok s"
  shows "ids_ok s'" "later s s'"
  using run_moves_on [OF assms(1)] assms(2) by (simp_all add: moves_on_def)

section \<open>Requests are runs\<close>

lemma keeps_run:
  assumes "\<And>s r s'. c s = (r, s') \<Longrightarrow> stmt s s'"
  shows "keeps (run s0) c"
  unfolding keeps_def
proof (intro allI impI)
  fix s assume "run s0 s"
  moreover have "stmt s (snd (c s))" using assms [of s "fst (c s)" "snd (c s)"] by simp
  ultimately show "run s0 (snd (c s))" by (rule rtranclp.rtrancl_into_rtrancl)
qed

lemma fault_free_run [simp]: "fault_free (run s0)"
  by (auto simp: fault_free_def intro: rtranclp.rtrancl_into_rtrancl stmt.faults)

lemma keeps_adb [keeps_intros]: "keeps (run s0) adbM" "keeps (run s0) (aselectM f)"
  by (simp_all add: adbM_def aselectM_def keeps_intros)

lemma keeps_randM [keeps_intros]: "keeps (run s0) (randM n)"
  unfolding randM_def keeps_def by (auto intro: rtranclp.rtrancl_into_rtrancl stmt.random)

lemma keeps_freshM [keeps_intros]: "keeps (run s0) freshM"
  by (rule keeps_run) (auto simp: freshM_def intro: stmt.uuid)

lemma keeps_statements [keeps_intros]:
  "keeps (run s0) (insert_user al i u d a)" "keeps (run s0) (update_users p (patched q))"
  "keeps (run s0) (update_users p (\<lambda>t a. a\<lparr>us_DisabledAt := g t\<rparr>))"
  "keeps (run s0) (AddCredential i n c)" "keeps (run s0) (UpdateCredentialUsage cid m b)" "keeps (run s0) (delete_creds pc)"
  "keeps (run s0) (ReplaceRecoveryCodes i hs)" "keeps (run s0) (mark_code i)" "keeps (run s0) (CreateSession i h k ag e)"
  "keeps (run s0) (TouchSession i)" "keeps (run s0) (RevokeSession i j)" "keeps (run s0) (RevokeSessionByTokenHash h)"
  "keeps (run s0) (RevokeAllSessions i)" "keeps (run s0) (CreateCeremony ow k pn dt e)" "keeps (run s0) (TakeCeremony i k)"
  "keeps (run s0) sweep_sessions" "keeps (run s0) sweep_ceremonies"
  "keeps (run s0) (update_sessions (\<lambda>_. own_device i j) (\<lambda>_ r. r\<lparr>ss_device := n\<rparr>))"
  "keeps (run s0) (RevokeDevice i j)" "keeps (run s0) (PutPushSubscription i j en k au)" "keeps (run s0) (delete_push pp)"
  "keeps (run s0) (insert_app i n h l ex)" "keeps (run s0) (update_apps (\<lambda>s a. ap_id a = i) (\<lambda>s a. a\<lparr>ap_used := Some (at_now s)\<rparr>))"
  "keeps (run s0) (RevokeAppPassword i j)" "keeps (run s0) (RevokeAllAppPasswords i)"
  by (rule keeps_run, erule stmt.intros)+

lemma keeps_lifted [keeps_intros]: "keeps I (liftE r)" "keeps I (verifyM al a b)" "keeps I (VerifyRecoveryCode x al a b)"
  by (auto simp: liftE_def verifyM_def VerifyRecoveryCode_def keeps_intros split: sum.splits option.splits)

lemma keeps_consume [keeps_intros]: "keeps (run s0) (consume_loop x al code cs)"
  by (induction cs) (simp_all add: keeps_intros)

lemmas request_defs = BeginRegistration_def FinishRegistration_def BeginLogin_def FinishLogin_def RedeemRecoveryCode_def
  RegenerateRecoveryCodes_def NewSessionToken_def Authenticate_def Logout_def CreateAppPassword_def VerifyAppPassword_def
  UpdateUser_def DisableUser_def SetUserDisabled_def RenameDevice_def auth_Cleanup_def registration_target_def registration_user_def
  bootstrap_admin_def credentialsFor_def CreateUser_def find_user_def GetUserByID_def GetUserByUsername_def CountUsers_def
  CredentialsForUser_def ConsumeRecoveryCode_def unused_codes_def SessionUser_def HashRecoveryCode_def HashSecret_def
  GenerateRecoveryCodes_def GenerateAppPassword_def isLastActiveAdmin_def patch_user_def DeleteCredential_def DeleteAllCredentials_def

lemma requests_are_runs:
  "keeps (run s) (BeginRegistration al n cur)" "keeps (run s) (FinishRegistration x al i cn r)"
  "keeps (run s) (BeginLogin al n)" "keeps (run s) (FinishLogin al i r)" "keeps (run s) (RedeemRecoveryCode x al n code)"
  "keeps (run s) (RegenerateRecoveryCodes x al u)" "keeps (run s) (NewSessionToken x cfg us k ag)"
  "keeps (run s) (Authenticate x tok)" "keeps (run s) (Logout x tok)" "keeps (run s) (CreateAppPassword al u n ttl)"
  "keeps (run s) (VerifyAppPassword al pw)" "keeps (run s) (UpdateUser u pt)" "keeps (run s) (DisableUser u)"
  "keeps (run s) (SetUserDisabled u b)" "keeps (run s) (RenameDevice u i n)" "keeps (run s) auth_Cleanup"
  "keeps (run s) (DeleteCredential u i)" "keeps (run s) (DeleteAllCredentials u)"
  unfolding request_defs Let_def by (auto intro!: keeps_intros split: list.split)

end
