(* ===== verification/AuthSpec.thy ===== *)
theory AuthSpec
  imports AuthRuns
begin

text \<open>
  What the identity service promises, over every interleaving of the statements of concurrent requests (\<open>run\<close>).
\<close>

section \<open>Ceremonies and codes work once\<close>

lemma open_ceremony_faults [simp]: "open_ceremony i k (s\<lparr>faults := bs\<rparr>) = open_ceremony i k s"
  by (simp add: open_ceremony_def fun_eq_iff)

lemma TakeCeremony_run:
  assumes "TakeCeremony i k s = (r, s')"
  obtains bs where "s' = s\<lparr>faults := bs\<rparr>" "r = Inl db_err"
  | bs where "s' = s\<lparr>faults := bs\<rparr>" "r = Inl ErrCeremonyNotFound" "find (open_ceremony i k s) (at_ceremonies s) = None"
  | bs c where "find (open_ceremony i k s) (at_ceremonies s) = Some c"
      "r = Inr (ce_user c, (case ce_pending c of None \<Rightarrow> [] | Some n \<Rightarrow> n), ce_data c)"
      "s' = s\<lparr>faults := bs, at_ceremonies := filter (\<lambda>c. \<not> open_ceremony i k s c) (at_ceremonies s)\<rparr>"
  using assms unfolding TakeCeremony_def
  by (elim after_adb) (auto simp: run_iffs elim!: bindM_cases thenM_cases split: option.splits)

lemma taken_ceremony:
  assumes "TakeCeremony i k s = (Inr v, s')" and ok: "ids_ok s"
  shows "\<forall>c \<in> set (at_ceremonies s'). ce_id c \<noteq> i" and "i < at_next s'"
proof -
  from assms(1) obtain bs c where c: "find (open_ceremony i k s) (at_ceremonies s) = Some c"
    and s': "s' = s\<lparr>faults := bs, at_ceremonies := filter (\<lambda>c. \<not> open_ceremony i k s c) (at_ceremonies s)\<rparr>"
    by (cases rule: TakeCeremony_run) auto
  from c have in_s: "c \<in> set (at_ceremonies s)" and o: "open_ceremony i k s c" by (auto dest: find_Some_set)
  have "c' = c" if "c' \<in> set (at_ceremonies s)" "ce_id c' = i" for c'
    using ok that in_s o by (auto simp: ids_ok_def keys_ok_def distinct_map inj_on_def open_ceremony_def)
  with o show "\<forall>c \<in> set (at_ceremonies s'). ce_id c \<noteq> i" by (auto simp: s')
  show "i < at_next s'" using ok in_s o by (auto simp: ids_ok_def keys_ok_def open_ceremony_def s')
qed

lemma gone_ceremony:
  assumes "\<forall>c \<in> set (at_ceremonies s). ce_id c \<noteq> i"
  shows "\<exists>e. fst (TakeCeremony i k s) = Inl e"
proof -
  have "find (open_ceremony i k s) (at_ceremonies s) = None"
    using assms by (auto simp: find_None_all open_ceremony_def)
  moreover obtain r s' where run: "TakeCeremony i k s = (r, s')" by fastforce
  ultimately have "\<exists>e. r = Inl e" using run by (auto elim: TakeCeremony_run)
  with run show ?thesis by simp
qed

lemma stmt_later: "stmt s s' \<Longrightarrow> ids_ok s \<Longrightarrow> ids_ok s' \<and> later s s'"
  using stmt_moves_on by (auto simp: moves_on_def)

lemma bind_fails: "\<exists>e. fst (c s) = Inl e \<Longrightarrow> \<exists>e. fst (bindM c f s) = Inl e"
  by (auto simp: bindM_def split: prod.splits)

lemma grown_gone:
  assumes "grown k R n xs ys" "\<forall>x \<in> set xs. k x \<noteq> i" "i < n" "\<And>x y. R x y \<Longrightarrow> k x = k y"
  shows "\<forall>y \<in> set ys. k y \<noteq> i"
  using assms unfolding grown_def by (metis leD)

text \<open>C27: A sign-in or registration ceremony is spent by the first request that takes it: after that no request gets it
  again, in any interleaving of requests, so a captured answer of an authenticator signs nobody in twice.\<close>

theorem ceremony_works_once:
  assumes "ids_ok s" and "TakeCeremony i k s = (Inr v, s1)" and "run s1 s2"
  shows "(\<exists>e. fst (TakeCeremony i k' s2) = Inl e) \<and> (\<exists>e. fst (FinishLogin al i r s2) = Inl e) \<and>
    (\<exists>e. fst (FinishRegistration x al i n r' s2) = Inl e)"
proof -
  have ok1: "ids_ok s1" using stmt_later [OF stmt.TakeCeremony [OF assms(2)] assms(1)] by simp
  have "\<forall>c \<in> set (at_ceremonies s2). ce_id c \<noteq> i"
    using run_later(2) [OF assms(3) ok1] taken_ceremony [OF assms(2,1)] by (auto simp: later_def dest: grown_gone [where i = i])
  then show ?thesis by (auto simp: FinishLogin_def FinishRegistration_def intro!: bind_fails gone_ceremony)
qed

lemma mark_code_run:
  assumes "mark_code i s = (r, s')"
  obtains bs where "s' = s\<lparr>faults := bs\<rparr>" "r = Inl db_err"
  | bs where "r = Inr (count_rows (\<lambda>c. rc_id c = i \<and> rc_used c = None) (at_codes s))"
      "s' = s\<lparr>faults := bs, at_codes := set_rows (\<lambda>c. rc_id c = i \<and> rc_used c = None) (\<lambda>c. c\<lparr>rc_used := Some (at_now s)\<rparr>) (at_codes s)\<rparr>"
  using assms unfolding mark_code_def
  by (elim after_adb) (auto simp: run_iffs elim!: bindM_cases thenM_cases)

lemma marked_code:
  assumes run: "mark_code i s = (Inr n, s')" and n: "n \<noteq> 0" and ok: "ids_ok s"
  shows "\<forall>c \<in> set (at_codes s'). rc_id c = i \<longrightarrow> rc_used c \<noteq> None" and "i < at_next s'"
proof -
  from run obtain bs where n': "n = count_rows (\<lambda>c. rc_id c = i \<and> rc_used c = None) (at_codes s)"
    and s': "s' = s\<lparr>faults := bs, at_codes := set_rows (\<lambda>c. rc_id c = i \<and> rc_used c = None) (\<lambda>c. c\<lparr>rc_used := Some (at_now s)\<rparr>) (at_codes s)\<rparr>"
    by (cases rule: mark_code_run) auto
  show "\<forall>c \<in> set (at_codes s'). rc_id c = i \<longrightarrow> rc_used c \<noteq> None"
  proof (intro ballI impI)
    fix c assume "c \<in> set (at_codes s')" and i: "rc_id c = i"
    then have "c \<in> set (set_rows (\<lambda>c. rc_id c = i \<and> rc_used c = None) (\<lambda>c. c\<lparr>rc_used := Some (at_now s)\<rparr>) (at_codes s))" by (simp add: s')
    from marked_rows [OF this] obtain r where "c = r\<lparr>rc_used := Some (at_now s)\<rparr> \<or> c = r \<and> \<not> (rc_id r = i \<and> rc_used r = None)" by blast
    with i show "rc_used c \<noteq> None" by (elim disjE) simp_all
  qed
  have "\<exists>c \<in> set (at_codes s). rc_id c = i" using n n' by (auto simp: count_rows_zero)
  with ok show "i < at_next s'" by (auto simp: ids_ok_def keys_ok_def s')
qed

lemma spent_code:
  assumes "\<forall>c \<in> set (at_codes s). rc_id c = i \<longrightarrow> rc_used c \<noteq> None"
  shows "fst (mark_code i s) \<in> {Inl db_err, Inr 0}"
proof -
  have "count_rows (\<lambda>c. rc_id c = i \<and> rc_used c = None) (at_codes s) = 0"
    using assms by (auto simp: count_rows_zero)
  moreover obtain r s' where run: "mark_code i s = (r, s')" by fastforce
  ultimately have "r \<in> {Inl db_err, Inr 0}" using run by (auto elim: mark_code_run)
  with run show ?thesis by simp
qed

lemma consume_marks:
  assumes "consume_loop x al code cs s = (Inr (), s')"
  shows "\<exists>c n. c \<in> set cs \<and> mark_code (rc_id c) s = (Inr n, s') \<and> n \<noteq> 0 \<and>
    VerifySecret al (NormalizeRecoveryCode x code) (rc_hash c) = Some True"
  using assms
proof (induction cs)
  case (Cons c cs)
  from Cons.prems obtain ok where ok: "VerifySecret al (NormalizeRecoveryCode x code) (rc_hash c) = Some ok"
    and rest: "(if \<not> ok then consume_loop x al code cs else bindM (mark_code (rc_id c)) (\<lambda>n. guardM (n \<noteq> 0) ErrBadRecoveryCode)) s = (Inr (), s')"
    by (auto simp: run_iffs VerifyRecoveryCode_def verifyM_def elim!: bindM_cases split: option.splits)
  show ?case
  proof (cases ok)
    case True
    with rest obtain n where "mark_code (rc_id c) s = (Inr n, s')" "n \<noteq> 0"
      by (auto simp: run_iffs elim!: bindM_cases split: if_splits)
    with True ok show ?thesis by auto
  next
    case False
    with rest Cons.IH show ?thesis by auto
  qed
qed (simp add: run_iffs)

text \<open>C28: A recovery code is redeemed at most once, in any interleaving of requests: once a request has marked the code
  used, no later request marks it, and a request still holding the row as unused is refused.\<close>

theorem recovery_code_works_once:
  assumes "ids_ok s" and "mark_code i s = (Inr n, s1)" "n \<noteq> 0" and "run s1 s2"
  shows "fst (mark_code i s2) \<in> {Inl db_err, Inr 0} \<and>
    (\<forall>rows. (\<forall>c \<in> set rows. rc_id c = i) \<longrightarrow> (\<exists>e. fst (consume_loop x al code rows s2) = Inl e))"
proof -
  have ok1: "ids_ok s1" using stmt_later [OF stmt.mark_code [OF assms(2)] assms(1)] by simp
  have "\<forall>c \<in> set (at_codes s2). rc_id c = i \<longrightarrow> rc_used c \<noteq> None"
    using run_later(2) [OF assms(4) ok1] marked_code [OF assms(2,3,1)]
    by (fastforce simp: later_def grown_def code_kept_def)
  note spent = spent_code [OF this]
  have "\<exists>e. fst (consume_loop x al code rows s2) = Inl e" if rows: "\<forall>c \<in> set rows. rc_id c = i" for rows
  proof (rule ccontr)
    assume "\<nexists>e. fst (consume_loop x al code rows s2) = Inl e"
    then obtain s3 where "consume_loop x al code rows s2 = (Inr (), s3)"
      by (cases "consume_loop x al code rows s2"; cases "fst (consume_loop x al code rows s2)") auto
    then show False using rows spent by (auto dest!: consume_marks)
  qed
  with spent show ?thesis by blast
qed

section \<open>Sessions\<close>

lemma Authenticate_finds:
  assumes "Authenticate x tok s = (Inr (q, u), s')"
  obtains bs a where "s' = s\<lparr>faults := bs\<rparr>" "q \<in> set (at_sessions s)" "live_session s q" "ss_token q = sha256 x tok"
    "a \<in> set (at_users s)" "us_ID a = ss_user q" "u = scanUser a" "us_DisabledAt a = None"
  using assms unfolding Authenticate_def SessionUser_def aselectM_def
  by (auto simp: run_iffs Disabled_def scanUser_def User.defs live_session_def elim!: bindM_cases thenM_cases adb_run split: if_splits option.splits
     dest!: find_Some_set)

lemma dead_session:
  assumes "later s s2" "q \<in> set (at_sessions s2)" "live_session s2 q" "ss_id q < at_next s"
  shows "\<exists>r \<in> set (at_sessions s). session_kept r q \<and> live_session s r"
proof -
  from assms obtain r where "r \<in> set (at_sessions s)" "session_kept r q" by (auto simp: later_def grown_def)
  with assms show ?thesis by (auto simp: session_kept_def live_session_def later_def intro!: bexI [of _ r])
qed

text \<open>A session that is revoked or has expired is never accepted again, whatever requests run in between and whatever
  they do to its row.\<close>

theorem dead_sessions_stay_dead:
  assumes "ids_ok s" and "r \<in> set (at_sessions s)" and "\<not> live_session s r" and "run s s2"
    and "Authenticate x tok s2 = (Inr (q, u), s3)"
  shows "ss_id q \<noteq> ss_id r \<and> (ss_token q = ss_token r \<longrightarrow> at_next s \<le> ss_id q)"
proof -
  from assms(1) have inj: "inj_on ss_id (set (at_sessions s))" "inj_on ss_token (set (at_sessions s))" and "ss_id r < at_next s"
    using assms(2) by (auto simp: ids_ok_def keys_ok_def distinct_map)
  from assms(5) have q: "q \<in> set (at_sessions s2)" "live_session s2 q" by (auto elim: Authenticate_finds)
  show ?thesis
  proof (cases "at_next s \<le> ss_id q")
    case True
    with \<open>ss_id r < at_next s\<close> show ?thesis by simp
  next
    case False
    with dead_session q run_later(2) [OF assms(4,1)] obtain r' where r': "r' \<in> set (at_sessions s)" "session_kept r' q" "live_session s r'"
      by (meson not_le)
    have "r' \<noteq> r" using r'(3) assms(3) by blast
    then have "ss_id r' \<noteq> ss_id r" "ss_token r' \<noteq> ss_token r"
      using inj_onD [OF inj(1) _ r'(1) assms(2)] inj_onD [OF inj(2) _ r'(1) assms(2)] by blast+
    with r'(2) show ?thesis by (simp add: session_kept_def)
  qed
qed

lemma RevokeAllSessions_run:
  assumes "RevokeAllSessions u s = (Inr n, s')"
  shows "\<forall>q \<in> set (at_sessions s'). ss_user q = u \<longrightarrow> ss_revoked q \<noteq> None"
proof -
  let ?p = "\<lambda>q. ss_user q = u \<and> ss_revoked q = None" and ?f = "\<lambda>q. q\<lparr>ss_revoked := Some (at_now s)\<rparr>"
  from assms have s': "at_sessions s' = set_rows ?p ?f (at_sessions s)"
    unfolding RevokeAllSessions_def update_sessions_def
    by (elim after_adb) (auto simp: run_iffs elim!: bindM_cases thenM_cases)
  show ?thesis
  proof (intro ballI impI)
    fix q assume "q \<in> set (at_sessions s')" and u: "ss_user q = u"
    from marked_rows [OF this(1) [unfolded s']] obtain r where "q = ?f r \<or> q = r \<and> \<not> ?p r" by blast
    with u show "ss_revoked q \<noteq> None" by (elim disjE) simp_all
  qed
qed


section \<open>Administrators\<close>

definition has_admin :: "auth \<Rightarrow> bool" where
  "has_admin s \<longleftrightarrow> (\<exists>a \<in> set (at_users s). active_admin a)"

lemma update_users_run:
  assumes "update_users p f s = (r, s')"
  obtains bs where "s' = s\<lparr>faults := bs\<rparr>" "r = Inl db_err"
  | bs where "s' = s\<lparr>faults := bs, at_users := set_rows p (f (at_now s)) (at_users s)\<rparr>"
      "r = Inr (map (f (at_now s)) (filter p (at_users s)))"
  using assms unfolding update_users_def
  by (elim after_adb) (auto simp: run_iffs elim!: bindM_cases thenM_cases)

lemma aselect_run:
  assumes "aselectM f s = (r, s')"
  obtains bs where "s' = s\<lparr>faults := bs\<rparr>" "r = Inl db_err \<or> r = Inr (f (s\<lparr>faults := bs\<rparr>))"
  using assms unfolding aselectM_def by (auto simp: run_iffs elim!: thenM_cases adb_run)

lemma auth_faults_eq [simp]: "(s :: auth)\<lparr>faults := a\<rparr> = s\<lparr>faults := b\<rparr> \<longleftrightarrow> a = b"
proof
  assume "s\<lparr>faults := a\<rparr> = s\<lparr>faults := b\<rparr>"
  then have "faults (s\<lparr>faults := a\<rparr>) = faults (s\<lparr>faults := b\<rparr>)" by (rule arg_cong)
  then show "a = b" by simp
qed simp

lemma isLastActiveAdmin_run:
  assumes "isLastActiveAdmin i s = (r, s')"
  shows "\<exists>bs. s' = s\<lparr>faults := bs\<rparr>"
    and "r = Inr False \<Longrightarrow> distinct (map us_ID (at_users s)) \<Longrightarrow> a \<in> set (at_users s) \<Longrightarrow> us_ID a = i \<Longrightarrow> active_admin a \<Longrightarrow>
      \<exists>b \<in> set (at_users s). active_admin b \<and> us_ID b \<noteq> i"
proof -
  from assms show "\<exists>bs. s' = s\<lparr>faults := bs\<rparr>" unfolding isLastActiveAdmin_def
    by (auto simp: run_iffs elim!: bindM_cases aselect_run split: option.splits if_splits)
next
  assume False': "r = Inr False" and d: "distinct (map us_ID (at_users s))"
    and a: "a \<in> set (at_users s)" "us_ID a = i" "active_admin a"
  let ?q = "find (\<lambda>a. us_ID a = i \<and> us_DisabledAt a = None) (at_users s)"
  have "?q \<noteq> None" using a by (auto simp: find_None_all active_admin_def)
  then obtain a' where a': "?q = Some a'" by blast
  then have "a' = a" using a(1,2) d by (auto dest!: find_Some_set simp: distinct_map inj_on_def)
  with a a' have q: "map_option us_IsAdmin ?q = Some True" by (simp add: active_admin_def)
  from assms False' have "count_rows (\<lambda>b. active_admin b \<and> us_ID b \<noteq> i) (at_users s) \<noteq> 0" unfolding isLastActiveAdmin_def
    by (auto simp: run_iffs q elim!: bindM_cases aselect_run split: option.splits if_splits)
  then show "\<exists>b \<in> set (at_users s). active_admin b \<and> us_ID b \<noteq> i" by (auto simp: count_rows_zero)
qed

lemma not_last_admin:
  assumes "isLastActiveAdmin i s = (Inr False, s')" "distinct (map us_ID (at_users s))" "has_admin s"
  shows "\<exists>b \<in> set (at_users s). active_admin b \<and> us_ID b \<noteq> i"
  using assms isLastActiveAdmin_run(2) [OF assms(1) refl assms(2)] unfolding has_admin_def by blast

lemma patched_admin: "\<not> demotes p \<Longrightarrow> active_admin a \<Longrightarrow> active_admin (patched p t a)"
  by (auto simp: demotes_def active_admin_def patched_def split: option.splits bool.splits)

lemma patch_user_run:
  assumes "patch_user i p s = (r, s')"
  shows "\<exists>bs. s' = s\<lparr>faults := bs\<rparr> \<or> s' = s\<lparr>faults := bs, at_users := set_rows (\<lambda>a. us_ID a = i) (patched p (at_now s)) (at_users s)\<rparr>"
  using assms unfolding patch_user_def
  by (auto simp: run_iffs elim!: bindM_cases update_users_run split: list.splits)

lemma has_admin_sessions: "RevokeAllSessions i s = (r, s') \<Longrightarrow> has_admin s' = has_admin s"
  unfolding RevokeAllSessions_def update_sessions_def
  by (elim after_adb) (auto simp: run_iffs has_admin_def elim!: bindM_cases thenM_cases)

lemma patch_keeps_admin:
  assumes "patch_user i p s = (r, s')" and "has_admin s"
    and other: "demotes p \<Longrightarrow> \<exists>b \<in> set (at_users s). active_admin b \<and> us_ID b \<noteq> i"
  shows "has_admin s'"
proof -
  have "\<exists>b \<in> set (at_users s). active_admin b \<and> (us_ID b \<noteq> i \<or> \<not> demotes p)"
    using assms(2) other by (auto simp: has_admin_def)
  then obtain b where b: "b \<in> set (at_users s)" "active_admin b" "us_ID b \<noteq> i \<or> \<not> demotes p" by blast
  have "\<exists>c \<in> set (set_rows (\<lambda>a. us_ID a = i) (patched p (at_now s)) (at_users s)). active_admin c"
  proof (cases "us_ID b = i")
    case True
    with b have "active_admin (patched p (at_now s) b)" by (simp add: patched_admin)
    with True b(1) show ?thesis unfolding set_rows_def by force
  next
    case False
    with b(1,2) show ?thesis unfolding set_rows_def by force
  qed
  with patch_user_run [OF assms(1)] assms(2) show ?thesis by (auto simp: has_admin_def)
qed

text \<open>C30: An update of an account never takes the last administrator away: while one account is an active admin, one is
  after \<open>UpdateUser\<close>, whatever it patches and whichever of its statements fails.\<close>

theorem an_admin_remains:
  assumes "distinct (map us_ID (at_users s))" and "has_admin s" and "UpdateUser i p s = (r, s')"
  shows "has_admin s'"
proof -
  have d: "has_admin (t\<lparr>faults := bs\<rparr>) = has_admin t" for t bs by (simp add: has_admin_def)
  have check: "has_admin t \<and> (q = Inr () \<longrightarrow> demotes p \<longrightarrow> (\<exists>b \<in> set (at_users t). active_admin b \<and> us_ID b \<noteq> i))"
    if run: "(if demotes p then bindM (isLastActiveAdmin i) (\<lambda>last. guardM (\<not> last) ErrLastAdmin) else ret ()) s = (q, t)" for q t
  proof (cases "demotes p")
    case False
    with run assms(2) show ?thesis by (simp add: run_iffs)
  next
    case True
    with run have "bindM (isLastActiveAdmin i) (\<lambda>last. guardM (\<not> last) ErrLastAdmin) s = (q, t)" by simp
    then obtain v where v: "isLastActiveAdmin i s = (v, t)" "q = Inr () \<Longrightarrow> v = Inr False"
      by (auto simp: run_iffs elim!: bindM_cases split: if_splits)
    from isLastActiveAdmin_run(1) [OF v(1)] obtain bs where t: "t = s\<lparr>faults := bs\<rparr>" by blast
    show ?thesis using v not_last_admin [OF _ assms(1,2), of i t] assms(2) by (auto simp: t d)
  qed
  from assms(3) [unfolded UpdateUser_def] show ?thesis
  proof (cases rule: thenM_cases)
    case (1 e)
    then show ?thesis using check by blast
  next
    case (2 x t)
    from check [OF 2(1)] have t: "has_admin t" "demotes p \<Longrightarrow> \<exists>b \<in> set (at_users t). active_admin b \<and> us_ID b \<noteq> i" by simp_all
    have patch: "has_admin t'" if "patch_user i p t = (q, t')" for q t' using patch_keeps_admin [OF that t] by blast
    from 2(2) show ?thesis
      by (auto simp: run_iffs has_admin_sessions split: if_splits elim!: thenM_cases bindM_cases dest!: patch)
  qed
qed

section \<open>Stored secrets\<close>

lemma std_letters: "c \<in> set (RawStdEncoding s) \<Longrightarrow> c \<noteq> CHR ''$''"
proof -
  assume "c \<in> set (RawStdEncoding s)"
  then have "c \<in> set std_alphabet" using encode_letters [of 6 std_alphabet s] alphabets(2) by auto
  then show ?thesis by (auto simp: std_alphabet_def)
qed

lemma phc_parts:
  "SplitByte (phc salt key) (CHR ''$'') =
     [[], ''argon2id'', ''v='' @ decimal argonVersion,
      ''m='' @ decimal argonMemory @ '',t='' @ decimal argonTime @ '',p='' @ decimal argonThreads, RawStdEncoding salt, RawStdEncoding key]"
proof -
  have dec: "CHR ''$'' \<notin> set (decimal n)" for n using decimal_digits_only [of "CHR ''$''" n] by (auto simp: is_digit_def)
  have enc: "CHR ''$'' \<notin> set (RawStdEncoding s)" for s using std_letters by blast
  let ?v = "''v='' @ decimal argonVersion"
  let ?p = "''m='' @ decimal argonMemory @ '',t='' @ decimal argonTime @ '',p='' @ decimal argonThreads"
  have e: "phc salt key = [] @ CHR ''$'' # ''argon2id'' @ CHR ''$'' # ?v @ CHR ''$'' # ?p @ CHR ''$'' # RawStdEncoding salt @ CHR ''$'' # RawStdEncoding key"
    by (simp add: phc_def)
  have free: "CHR ''$'' \<notin> set ([] :: string)" "CHR ''$'' \<notin> set ''argon2id''" "CHR ''$'' \<notin> set ?v" "CHR ''$'' \<notin> set ?p"
    using dec by auto
  show ?thesis
    by (simp only: e SplitByte_append [OF free(1)] SplitByte_append [OF free(2)] SplitByte_append [OF free(3)]
      SplitByte_append [OF free(4)] SplitByte_append [OF enc] SplitByte_none [OF enc])
qed

lemma scan_versions: "scan_version (''v='' @ decimal argonVersion) = Some (int argonVersion)"
  using scan_int_decimal [of argonVersion "[]"] by (simp add: scan_version_def scan_literal_def argonVersion_def)

lemma scan_parameters:
  "scan_params (''m='' @ decimal argonMemory @ '',t='' @ decimal argonTime @ '',p='' @ decimal argonThreads) =
     Some (argonMemory, argonTime, argonThreads)"
  using scan_uint_decimal [of argonMemory 32 "'',t='' @ decimal argonTime @ '',p='' @ decimal argonThreads"]
    scan_uint_decimal [of argonTime 32 "'',p='' @ decimal argonThreads"] scan_uint_decimal [of argonThreads 8 "[]"]
  by (simp add: scan_params_def scan_literal_def argonMemory_def argonTime_def argonThreads_def is_digit_def)

lemma VerifySecret_phc:
  assumes "length key = argonKeyLen"
  shows "VerifySecret al secret (phc salt key) = Some (al_argon al secret salt argonTime argonMemory argonThreads argonKeyLen = key)"
proof -
  obtain v p where parts: "SplitByte (phc salt key) (CHR ''$'') = [[], ''argon2id'', v, p, RawStdEncoding salt, RawStdEncoding key]"
    and v: "scan_version v = Some (int argonVersion)" and p: "scan_params p = Some (argonMemory, argonTime, argonThreads)"
    using phc_parts scan_versions scan_parameters by blast
  have "\<not> (argonTime < 1 \<or> argonThreads < 1)" by (simp add: argonTime_def argonThreads_def)
  then show ?thesis using assms by (simp add: VerifySecret_def parts v p std_roundtrip)
qed

text \<open>What \<open>argon2.IDKey\<close> documents of its result.\<close>

definition argon_law :: "authlib \<Rightarrow> bool" where
  "argon_law al \<longleftrightarrow> (\<forall>p s t m c n. length (al_argon al p s t m c n) = n)"

lemma HashSecret_run:
  assumes "HashSecret al secret s = (Inr h, s')"
  obtains salt bs where "h = phc salt (al_argon al secret salt argonTime argonMemory argonThreads argonKeyLen)" "s' = s\<lparr>at_random := bs\<rparr>"
  using assms unfolding HashSecret_def randM_def
  by (auto simp: run_iffs wrap_iffs elim!: bindM_cases split: if_splits)

lemma hash_verifies:
  assumes "HashSecret al secret s = (Inr h, s')" and "argon_law al"
  shows "VerifySecret al secret h = Some True"
  using assms by (elim HashSecret_run) (simp add: VerifySecret_phc argon_law_def)

lemma IndexByte_append: "c \<notin> set w \<Longrightarrow> IndexByte (w @ c # t) c = Some (length w)"
  by (induction w) auto

lemma split_generated:
  assumes "GenerateAppPassword s = (Inr (pw, lookup), s')"
  obtains secret bs where "splitAppPassword pw = Some (lookup, secret)" "s' = s\<lparr>at_random := bs\<rparr>"
proof -
  from assms obtain a b bs where pw: "pw = appPasswordPrefix @ hex_encode a @ ''_'' @ hex_encode b" and l: "lookup = hex_encode a"
    and len: "length a = appPasswordLookupSz" "length b = appPasswordSecretSz" and s': "s' = s\<lparr>at_random := bs\<rparr>"
    unfolding GenerateAppPassword_def randM_def
    by (auto simp: run_iffs wrap_iffs elim!: bindM_cases split: if_splits)
  have "CHR ''_'' \<notin> set (hex_encode a)" using hex_encode_chars [of "CHR ''_''" a] by (auto simp: is_hex_def)
  then have i: "IndexByte (hex_encode a @ ''_'' @ t) (CHR ''_'') = Some (length (hex_encode a))" for t
    using IndexByte_append by simp
  have "splitAppPassword pw = Some (lookup, hex_encode b)"
    using len i [of "hex_encode b"] by (simp add: splitAppPassword_def Let_def pw l)
  with s' that show thesis by blast
qed

text \<open>An app password handed out works, in any later state reached by other requests, as long as its row is neither
  revoked nor expired, the account exists and is enabled, and the database answers.\<close>

theorem app_password_works:
  assumes al: "argon_law al" and ok: "ids_ok s" and made: "CreateAppPassword al i name ttl s = (Inr (row, pw), s1)" and later: "run s1 s2"
    and r: "r \<in> set (at_apps s2)" "ap_id r = ap_id row" "ap_revoked r = None" "\<forall>t. ap_expires r = Some t \<longrightarrow> at_now s2 < t"
    and a: "find (\<lambda>a. us_ID a = i) (at_users s2) = Some a" "us_DisabledAt a = None" and nf: "faults s2 = []"
  shows "fst (VerifyAppPassword al pw s2) = Inr (scanUser a)"
proof -
  have ok1: "ids_ok s1" using keepsD [OF requests_are_runs(10) _ made] run_later(1) ok by blast
  note ok2 = run_later(1) [OF later ok1]
  from made obtain lookup secret h s0 t0 t1 expires where sp: "splitAppPassword pw = Some (lookup, secret)" 
    and h: "HashSecret al secret s0 = (Inr h, t0)" and ins: "insert_app i name h lookup expires t1 = (Inr row, s1)"
    unfolding CreateAppPassword_def
    by (auto simp: run_iffs wrap_iffs elim!: bindM_cases thenM_cases split_generated split: if_splits)
  from ins have row: "row \<in> set (at_apps s1)" "ap_hash row = h" "ap_lookup row = lookup" "ap_user row = i"
    unfolding insert_app_def Let_def
    by (auto simp: run_iffs elim!: after_adb bindM_cases thenM_cases split: if_splits)
  have "ap_id row < at_next s1" using ok1 row by (auto simp: ids_ok_def keys_ok_def)
  with run_later(2) [OF later ok1] r(1,2) obtain q where q: "q \<in> set (at_apps s1)" "app_kept q r" by (auto simp: later_def grown_def)
  have "q = row" using ok1 q row(1) r(2) by (auto simp: ids_ok_def keys_ok_def distinct_map inj_on_def app_kept_def)
  with q row have rr: "ap_hash r = h" "ap_lookup r = lookup" "ap_user r = i" by (auto simp: app_kept_def)
  have "find (usable_app s2 lookup) (at_apps s2) = Some r"
  proof (cases "find (usable_app s2 lookup) (at_apps s2)")
    case None
    with r rr show ?thesis by (auto simp: find_None_all usable_app_def split: option.splits)
  next
    case (Some r')
    then have "r' \<in> set (at_apps s2)" "ap_lookup r' = ap_lookup r" using rr by (auto simp: usable_app_def dest!: find_Some_set)
    with r(1) ok2 have "r' = r" by (auto simp: ids_ok_def distinct_map inj_on_def)
    with Some show ?thesis by simp
  qed
  then show ?thesis using a nf hash_verifies [OF h al]
    by (simp add: VerifyAppPassword_def sp rr aselectM_def adbM_def run_eval verifyM_def scanUser_def Disabled_def User.defs tryP_def)
qed

section \<open>A set of recovery codes\<close>

definition stored_code :: "ext \<Rightarrow> authlib \<Rightarrow> string \<Rightarrow> string \<Rightarrow> bool" where
  "stored_code x al code h \<longleftrightarrow>
     (\<exists>salt. h = phc salt (al_argon al (NormalizeRecoveryCode x code) salt argonTime argonMemory argonThreads argonKeyLen))"

lemma stored_code_verifies:
  assumes "stored_code x al code h" "argon_law al"
  shows "\<exists>b. VerifySecret al secret h = Some b"
    and "VerifySecret al (NormalizeRecoveryCode x code) h = Some True"
  using assms by (auto simp: stored_code_def VerifySecret_phc argon_law_def)

lemma GenerateRecoveryCodes_run:
  assumes "GenerateRecoveryCodes n s = (Inr codes, s')"
  shows "length codes = n" and "\<exists>bs. s' = s\<lparr>at_random := bs\<rparr>"
proof -
  have "case Inr codes of Inl (e :: goerr) \<Rightarrow> True | Inr cs \<Rightarrow> length cs = length [0..<n] \<and> (\<exists>bs. s' = s\<lparr>at_random := bs\<rparr>)"
    by (rule foldM_run [OF assms [unfolded GenerateRecoveryCodes_def], where J = "\<lambda>ys cs t. length cs = length ys \<and> (\<exists>bs. t = s\<lparr>at_random := bs\<rparr>)"])
       (auto simp: run_iffs wrap_iffs randM_def intro: exI [of _ "at_random s"] elim!: bindM_cases split: if_splits sum.splits)
  then show "length codes = n" "\<exists>bs. s' = s\<lparr>at_random := bs\<rparr>" by auto
qed

lemma list_all2_left: "list_all2 P xs ys \<Longrightarrow> x \<in> set xs \<Longrightarrow> \<exists>y \<in> set ys. P x y"
  and list_all2_right: "list_all2 P xs ys \<Longrightarrow> y \<in> set ys \<Longrightarrow> \<exists>x \<in> set xs. P x y"
  by (induction rule: list_all2_induct) auto

lemma HashRecoveryCode_run:
  assumes "HashRecoveryCode x al c s = (Inr h, s')"
  shows "stored_code x al c h \<and> (\<exists>bs. s' = s\<lparr>at_random := bs\<rparr>)"
  using HashSecret_run [OF assms [unfolded HashRecoveryCode_def]] unfolding stored_code_def by metis

lemma list_all2_snoc: "list_all2 P xs ys \<Longrightarrow> P x y \<Longrightarrow> list_all2 P (xs @ [x]) (ys @ [y])"
  by (simp add: list_all2_appendI)

lemma hash_codes_run:
  assumes "foldM (\<lambda>hs c. bindM (HashRecoveryCode x al c) (\<lambda>h. ret (hs @ [h]))) [] codes s = (Inr hashes, s')"
  shows "list_all2 (stored_code x al) codes hashes" and "\<exists>bs. s' = s\<lparr>at_random := bs\<rparr>"
proof -
  have "case Inr hashes of Inl (e :: goerr) \<Rightarrow> True | Inr hs \<Rightarrow> list_all2 (stored_code x al) codes hs \<and> (\<exists>bs. s' = s\<lparr>at_random := bs\<rparr>)"
    by (rule foldM_run [OF assms, where J = "\<lambda>ys hs t. list_all2 (stored_code x al) ys hs \<and> (\<exists>bs. t = s\<lparr>at_random := bs\<rparr>)"])
       (auto simp: run_iffs intro: exI [of _ "at_random s"] list_all2_snoc elim!: bindM_cases dest!: HashRecoveryCode_run split: sum.splits)
  then show "list_all2 (stored_code x al) codes hashes" "\<exists>bs. s' = s\<lparr>at_random := bs\<rparr>" by auto
qed

definition codes_of :: "nat \<Rightarrow> auth \<Rightarrow> code_row list" where
  "codes_of u s = filter (\<lambda>r. rc_user r = u) (at_codes s)"

lemma codes_of_simps [simp]:
  "codes_of u (s\<lparr>faults := bs\<rparr>) = codes_of u s" "codes_of u (s\<lparr>at_next := i\<rparr>) = codes_of u s"
  "codes_of u (s\<lparr>at_codes := cs @ [r]\<rparr>) = codes_of u (s\<lparr>at_codes := cs\<rparr>) @ (if rc_user r = u then [r] else [])"
  "codes_of u (s\<lparr>at_codes := at_codes s\<rparr>) = codes_of u s"
  by (simp_all add: codes_of_def)

lemma insert_codes_run:
  assumes "foldM (\<lambda>_ h. insert_code u h) () hs s = (Inr (), s')" and "codes_of u s = []"
  shows "map rc_hash (codes_of u s') = hs" and "\<forall>c \<in> set (codes_of u s'). rc_used c = None" and "at_users s' = at_users s"
proof -
  let ?J = "\<lambda>ys (_ :: unit) t. map rc_hash (codes_of u t) = ys \<and> (\<forall>c \<in> set (codes_of u t). rc_used c = None) \<and> at_users t = at_users s"
  have "case Inr () of Inl (e :: goerr) \<Rightarrow> True | Inr b \<Rightarrow> ?J hs b s'"
    by (rule foldM_run [OF assms(1), where J = ?J])
       (use assms(2) in \<open>auto simp: run_iffs insert_code_def freshM_def elim!: after_adb bindM_cases split: sum.splits if_splits\<close>)
  then show "map rc_hash (codes_of u s') = hs" "\<forall>c \<in> set (codes_of u s'). rc_used c = None" "at_users s' = at_users s" by auto
qed

lemma ReplaceRecoveryCodes_run:
  assumes "ReplaceRecoveryCodes u hs s = (Inr (), s')"
  shows "map rc_hash (codes_of u s') = hs" and "\<forall>c \<in> set (codes_of u s'). rc_used c = None" and "at_users s' = at_users s"
proof -
  from assms obtain t t' bs where "foldM (\<lambda>_ h. insert_code u h) () hs t = (Inr (), t')" "codes_of u t = []"
    and "at_users t = at_users s" and s': "s' = t'\<lparr>faults := bs\<rparr>"
    unfolding ReplaceRecoveryCodes_def codes_tx_def
    by (auto simp: run_iffs codes_of_def elim!: thenM_cases adb_run split: prod.splits sum.splits)
  from insert_codes_run [OF this(1,2)] this(3) show "map rc_hash (codes_of u s') = hs"
    "\<forall>c \<in> set (codes_of u s'). rc_used c = None" "at_users s' = at_users s" by (auto simp: s' codes_of_def)
qed

lemma consume_loop_ok:
  assumes "argon_law al" and "faults s = []" and "\<forall>c \<in> set cs. c \<in> set (at_codes s) \<and> rc_used c = None \<and> (\<exists>b. VerifySecret al (NormalizeRecoveryCode x code) (rc_hash c) = Some b)"
    and "\<exists>c \<in> set cs. VerifySecret al (NormalizeRecoveryCode x code) (rc_hash c) = Some True"
  shows "fst (consume_loop x al code cs s) = Inr ()"
  using assms(3,4)
proof (induction cs)
  case (Cons c cs)
  then obtain b where b: "VerifySecret al (NormalizeRecoveryCode x code) (rc_hash c) = Some b" by auto
  have "count_rows (\<lambda>r. rc_id r = rc_id c \<and> rc_used r = None) (at_codes s) \<noteq> 0" using Cons.prems by (auto simp: count_rows_zero)
  then have mark: "b \<Longrightarrow> fst (bindM (mark_code (rc_id c)) (\<lambda>n. guardM (n \<noteq> 0) ErrBadRecoveryCode) s) = Inr ()"
    using assms(2) by (simp add: mark_code_def adbM_def run_eval)
  show ?case using Cons b mark by (auto simp: VerifyRecoveryCode_def verifyM_def bindM_ret)
qed simp

lemma RegenerateRecoveryCodes_run:
  assumes "RegenerateRecoveryCodes x al u s = (Inr codes, s')"
  shows "length codes = RecoveryCodeCount" and "list_all2 (\<lambda>code c. stored_code x al code (rc_hash c)) codes (codes_of u s')"
    and "\<forall>c \<in> set (codes_of u s'). rc_used c = None" and "at_users s' = at_users s"
proof -
  from assms obtain s1 s2 hashes where gen: "GenerateRecoveryCodes RecoveryCodeCount s = (Inr codes, s1)"
    and hash: "foldM (\<lambda>hs c. bindM (HashRecoveryCode x al c) (\<lambda>h. ret (hs @ [h]))) [] codes s1 = (Inr hashes, s2)"
    and replace: "ReplaceRecoveryCodes u hashes s2 = (Inr (), s')"
    unfolding RegenerateRecoveryCodes_def by (auto simp: run_iffs elim!: bindM_cases thenM_cases)
  note r = ReplaceRecoveryCodes_run [OF replace]
  from hash_codes_run(1) [OF hash] r(1) show "list_all2 (\<lambda>code c. stored_code x al code (rc_hash c)) codes (codes_of u s')"
    unfolding r(1) [symmetric] list_all2_map2 by simp
  show "length codes = RecoveryCodeCount" "\<forall>c \<in> set (codes_of u s'). rc_used c = None"
    by (fact GenerateRecoveryCodes_run(1) [OF gen] r(2))+
  show "at_users s' = at_users s" using GenerateRecoveryCodes_run(2) [OF gen] hash_codes_run(2) [OF hash] r(3) by auto
qed

lemma RedeemRecoveryCode_codes:
  assumes "RedeemRecoveryCode x al name typed s = (Inr user, s')"
  obtains c where "c \<in> set (codes_of (us_ID user) s)" "rc_used c = None" "VerifySecret al (NormalizeRecoveryCode x typed) (rc_hash c) = Some True"
    "\<exists>a. find (\<lambda>a. us_Fold a = al_lower al name) (at_users s) = Some a \<and> user = scanUser a"
proof -
  from assms obtain t bs where t: "t = s\<lparr>faults := bs\<rparr>" and a: "\<exists>a. find (\<lambda>a. us_Fold a = al_lower al name) (at_users s) = Some a \<and> user = scanUser a"
    and c: "ConsumeRecoveryCode x al (us_ID user) typed t = (Inr (), s')"
    unfolding RedeemRecoveryCode_def GetUserByUsername_def find_user_def
    by (auto simp: run_iffs elim!: bindM_cases thenM_cases aselect_run split: option.splits if_splits)
  from c obtain rows t' where "rows = filter (\<lambda>r. rc_user r = us_ID user \<and> rc_used r = None) (at_codes s)"
    and "consume_loop x al typed rows t' = (Inr (), s')"
    unfolding ConsumeRecoveryCode_def unused_codes_def by (auto simp: t elim!: bindM_cases aselect_run)
  with consume_marks [OF this(2)] a that show thesis by (auto simp: codes_of_def)
qed


section \<open>The first administrator\<close>

lemma foldl_bytes: "foldl (\<lambda>a c. a * 256 + byte c) b s = b * 256 ^ length s + foldl (\<lambda>a c. a * 256 + byte c) 0 s"
proof (induction s arbitrary: b)
  case (Cons c s)
  show ?case using Cons [of "b * 256 + byte c"] Cons [of "byte c"] by (simp add: algebra_simps)
qed simp

lemma big_endian:
  "foldl (\<lambda>a c. a * 256 + byte c) 0 (map (\<lambda>k. char_of (i div 256 ^ (n - Suc k) mod 256)) [0 ..< n]) = i mod 256 ^ n"
proof (induction n arbitrary: i)
  case (Suc n)
  have shift: "map (\<lambda>k. char_of (i div 256 ^ (Suc n - Suc k) mod 256)) [0 ..< Suc n] =
      char_of (i div 256 ^ n mod 256) # map (\<lambda>k. char_of (i div 256 ^ (n - Suc k) mod 256)) [0 ..< n]"
    by (simp add: map_upt_Suc del: upt_Suc)
  have "byte (char_of (i div 256 ^ n mod 256)) = i div 256 ^ n mod 256" by simp
  then have "foldl (\<lambda>a c. a * 256 + byte c) 0 (map (\<lambda>k. char_of (i div 256 ^ (Suc n - Suc k) mod 256)) [0 ..< Suc n]) =
      (i div 256 ^ n mod 256) * 256 ^ n + i mod 256 ^ n"
    using Suc by (simp only: shift foldl_Cons) (subst foldl_bytes, simp)
  also have "\<dots> = i mod 256 ^ Suc n" using mod_mult2_eq [of i "256 ^ n" 256] by (simp only: power_Suc2 mult.commute)
  finally show ?case .
qed simp

lemma bytes_uuid_inverse: "i < 2 ^ 128 \<Longrightarrow> bytes_uuid (uuid_bytes i) = i"
  using big_endian [of i 16] by (simp add: bytes_uuid_def uuid_bytes_def)

text \<open>What the WebAuthn library documents of \<open>SessionData\<close>: it carries the handle of the user it was made for.\<close>

definition handle_law :: "authlib \<Rightarrow> bool" where
  "handle_law al \<longleftrightarrow> (\<forall>o' u options d. al_BeginRegistration al o' u = Inr (options, d) \<longrightarrow> sd_UserID d = wu_id u)"

lemma CreateCeremony_run:
  assumes "CreateCeremony u k pending d ttl s = (Inr i, s')"
  shows "i = at_next s" and "\<lparr>ce_id = i, ce_user = u, ce_kind = k, ce_data = d, ce_pending = (if pending = [] then None else Some pending),
    ce_expires = at_now s + ttl\<rparr> \<in> set (at_ceremonies s')"
  using assms unfolding CreateCeremony_def freshM_def
  by (elim after_adb; auto simp: run_iffs elim!: bindM_cases thenM_cases split: if_splits option.splits)+

lemma BeginRegistration_open:
  assumes "BeginRegistration al name None s = (Inr (options, i), s')" and "handle_law al"
  obtains c where "at_users s = []" "name \<noteq> []" "c \<in> set (at_ceremonies s')" "ce_id c = i" "ce_user c = None" "ce_pending c = Some name"
    "sd_UserID (ce_data c) = uuid_bytes (at_next s)"
proof -
  have law: "sd_UserID d = wu_id u" if "al_BeginRegistration al o' u = Inr (options, d)" for o' u options d
    using assms(2) that unfolding handle_law_def by blast
  from assms(1) obtain t d where u: "at_users s = []" "name \<noteq> []" and "sd_UserID d = uuid_bytes (at_next s)"
    and "CreateCeremony None ''registration'' name d ceremonyTTL t = (Inr i, s')"
    unfolding BeginRegistration_def registration_target_def CountUsers_def credentialsFor_def
    by (auto simp: run_iffs wrap_iffs liftE_def freshM_def unsaved_user_def webauthnUser_def elim!: bindM_cases thenM_cases aselect_run
      split: sum.splits if_splits prod.splits dest!: law)
  with CreateCeremony_run(2) [OF this(4)] that show thesis by auto
qed


lemma bootstrap_admin_run:
  assumes "bootstrap_admin x al i name s = (Inr (u, codes), s')"
  obtains t where "CreateUser al i name name True s = (Inr u, t)" "RegenerateRecoveryCodes x al (us_ID u) t = (Inr codes, s')"
  using assms unfolding bootstrap_admin_def by (auto simp: run_iffs elim!: bindM_cases)

lemma CreateUser_run:
  assumes "CreateUser al i name display admin s = (Inr u, s')"
  shows "us_ID u = i \<and> us_Username u = name \<and> us_IsAdmin u = admin \<and> us_DisabledAt u = None \<and>
    (\<exists>a. at_users s' = at_users s @ [a] \<and> u = scanUser a \<and> us_Fold a = al_lower al name) \<and>
    (\<forall>b \<in> set (at_users s). us_Fold b \<noteq> al_lower al name \<and> us_ID b \<noteq> i)"
  using assms unfolding CreateUser_def insert_user_def Let_def
  by (auto simp: run_iffs scanUser_def User.defs list_ex_iff elim!: catchM_run adb_run bindM_cases thenM_cases split: if_splits)

lemma AddCredential_run:
  assumes "AddCredential u name c s = (Inr (), s')"
  obtains bs row where "s' = s\<lparr>faults := bs, at_next := Suc (at_next s), at_creds := at_creds s @ [row]\<rparr>" "wc_user row = u" "wc_cred row = c"
  using assms unfolding AddCredential_def freshM_def
  by (elim after_adb) (auto simp: run_iffs elim!: bindM_cases split: if_splits)

text \<open>C32: The bootstrap creates an administrator that can sign in again: registration without a session begins only on an
  empty server, and when the ceremony is finished, with other requests in between, the account is stored as an enabled admin
  with the requested name, the verified credential and ten unused recovery codes, and its id is the handle the authenticator
  was given, which is also the one every later ceremony presents.\<close>

theorem bootstrap_admin_is_usable:
  assumes "handle_law al" and ok: "ids_ok s" and "at_next s < 2 ^ 128"
    and begun: "BeginRegistration al name None s = (Inr (options, i), s1)" and "run s1 s2"
    and finished: "FinishRegistration x al i cred r s2 = (Inr (u, codes), s3)"
  shows "at_users s = [] \<and> us_Username u = name \<and> us_IsAdmin u \<and> us_DisabledAt u = None \<and> us_ID u = at_next s \<and>
    (\<exists>a \<in> set (at_users s3). scanUser a = u) \<and> length codes = 10 \<and>
    list_all2 (\<lambda>code c. stored_code x al code (rc_hash c) \<and> rc_used c = None) codes (codes_of (us_ID u) s3) \<and>
    (\<exists>row \<in> set (at_creds s3). wc_user row = us_ID u \<and>
       (\<exists>d. sd_UserID d = wu_id (webauthnUser u []) \<and>
          al_FinishRegistration al (webauthnUser (unsaved_user (us_ID u) name) []) d r = Inr (wc_cred row)))"
proof -
  from BeginRegistration_open [OF begun assms(1)] obtain c where empty: "at_users s = []" "name \<noteq> []"
    and c: "c \<in> set (at_ceremonies s1)" "ce_id c = i" "ce_user c = None" "ce_pending c = Some name"
      "sd_UserID (ce_data c) = uuid_bytes (at_next s)" by blast
  have ok1: "ids_ok s1" using keepsD [OF requests_are_runs(1) _ begun] run_later(1) ok by blast
  have "i < at_next s1" using ok1 c by (auto simp: ids_ok_def keys_ok_def)
  have c2: "c' = c" if "c' \<in> set (at_ceremonies s2)" "ce_id c' = i" for c'
  proof -
    from run_later(2) [OF \<open>run s1 s2\<close> ok1] that \<open>i < at_next s1\<close> have "c' \<in> set (at_ceremonies s1)" by (auto simp: later_def grown_def)
    with ok1 c that show ?thesis by (auto simp: ids_ok_def keys_ok_def distinct_map inj_on_def)
  qed
  from finished [unfolded FinishRegistration_def] obtain v t where take: "TakeCeremony i ''registration'' s2 = (Inr v, t)"
    and rest: "(case v of (uid, pending, d) \<Rightarrow>
     bindM (registration_user uid pending d) (\<lambda>u.
     bindM (credentialsFor uid) (\<lambda>creds.
     bindM (wrapM ''verify registration'' (liftE (al_FinishRegistration al (webauthnUser u creds) d r))) (\<lambda>c.
     bindM (if uid = None then bootstrap_admin x al (us_ID u) pending else ret (u, [])) (\<lambda>(u', codes).
     thenM (AddCredential (us_ID u') cred c)
     (ret (u', codes))))))) t = (Inr (u, codes), s3)"
    by (rule bindM_cases) simp
  from take obtain c' where "find (open_ceremony i ''registration'' s2) (at_ceremonies s2) = Some c'"
    and v: "v = (ce_user c', (case ce_pending c' of None \<Rightarrow> [] | Some n \<Rightarrow> n), ce_data c')"
    by (cases rule: TakeCeremony_run) auto
  then have "c' = c" using c2 by (auto simp: open_ceremony_def dest!: find_Some_set)
  with v c have v: "v = (None, name, ce_data c)" by simp
  have "bytes_uuid (uuid_bytes (at_next s)) = at_next s" using assms(3) by (rule bytes_uuid_inverse)
  then have user: "registration_user None name (ce_data c) = ret (unsaved_user (at_next s) name)"
    using c(5) by (simp add: registration_user_def uuid_bytes_def guardM_def thenM_ret)
  from rest obtain cc t1 t2 where verified: "al_FinishRegistration al (webauthnUser (unsaved_user (at_next s) name) []) (ce_data c) r = Inr cc"
    and boot: "bootstrap_admin x al (at_next s) name t1 = (Inr (u, codes), t2)" and add: "AddCredential (us_ID u) cred cc t2 = (Inr (), s3)"
    by (auto simp: v user credentialsFor_def run_iffs liftE_def wrap_iffs unsaved_user_def elim!: bindM_cases thenM_cases split: sum.splits)
  from boot obtain t3 where create: "CreateUser al (at_next s) name name True t1 = (Inr u, t3)"
    and codes: "RegenerateRecoveryCodes x al (us_ID u) t3 = (Inr codes, t2)" by (rule bootstrap_admin_run)
  note made = CreateUser_run [OF create] and regen = RegenerateRecoveryCodes_run [OF codes] 
  from AddCredential_run [OF add] obtain bs row where s3: "s3 = t2\<lparr>faults := bs, at_next := Suc (at_next t2), at_creds := at_creds t2 @ [row]\<rparr>"
    and row: "wc_user row = us_ID u" "wc_cred row = cc" by blast
  have "codes_of (us_ID u) s3 = codes_of (us_ID u) t2" by (simp add: s3 codes_of_def)
  then have "list_all2 (\<lambda>code c. stored_code x al code (rc_hash c) \<and> rc_used c = None) codes (codes_of (us_ID u) s3)"
    using regen(2,3) by (auto simp: list_all2_conv_all_nth)
  moreover have "\<exists>a \<in> set (at_users s3). scanUser a = u" using made regen(4) by (auto simp: s3)
  moreover have "row \<in> set (at_creds s3)" by (simp add: s3)
  moreover have "sd_UserID (ce_data c) = wu_id (webauthnUser u [])" using c(5) made by (simp add: webauthnUser_def)
  ultimately show ?thesis using empty made regen(1) row verified unfolding RecoveryCodeCount_def by metis
qed

end
