(* ===== verification/RateLimit.thy ===== *)
theory RateLimit
  imports Prelude Complex_Main
begin

text \<open>
  The token buckets of \<open>server/internal/httpapi/ratelimit.go\<close>.  Times are nanoseconds of the monotonic clock, tokens and
  rates are exact rationals where the code computes in \<open>float64\<close>.
\<close>

record bucket =
  bk_tokens :: rat
  bk_last :: int

record rateLimiter =
  rl_buckets :: "(string \<times> bucket) list"
  rl_rate :: rat
  rl_capacity :: rat

definition newRateLimiter :: "rat \<Rightarrow> rat \<Rightarrow> rateLimiter" where
  "newRateLimiter perMinute burst = \<lparr>rl_buckets = [], rl_rate = perMinute / 60, rl_capacity = burst\<rparr>"

definition seconds :: "int \<Rightarrow> rat" where
  "seconds t = of_int t / 1000000000"

definition put_bucket :: "string \<Rightarrow> bucket \<Rightarrow> (string \<times> bucket) list \<Rightarrow> (string \<times> bucket) list" where
  "put_bucket k b bs = (k, b) # filter (\<lambda>p. fst p \<noteq> k) bs"

definition refill :: "rateLimiter \<Rightarrow> int \<Rightarrow> bucket \<Rightarrow> rat" where
  "refill rl t b =
     (let tokens = bk_tokens b + seconds (t - bk_last b) * rl_rate rl
      in if tokens > rl_capacity rl then rl_capacity rl else tokens)"

definition allow :: "int \<Rightarrow> string \<Rightarrow> rateLimiter \<Rightarrow> bool \<times> rateLimiter" where
  "allow t key rl =
     (case map_of (rl_buckets rl) key of
        None \<Rightarrow> (True, rl\<lparr>rl_buckets := put_bucket key \<lparr>bk_tokens = rl_capacity rl - 1, bk_last = t\<rparr> (rl_buckets rl)\<rparr>)
      | Some b \<Rightarrow>
          let tokens = refill rl t b in
          if tokens < 1 then (False, rl\<lparr>rl_buckets := put_bucket key \<lparr>bk_tokens = tokens, bk_last = t\<rparr> (rl_buckets rl)\<rparr>)
          else (True, rl\<lparr>rl_buckets := put_bucket key \<lparr>bk_tokens = tokens - 1, bk_last = t\<rparr> (rl_buckets rl)\<rparr>))"

definition reap :: "int \<Rightarrow> rateLimiter \<Rightarrow> rateLimiter" where
  "reap t rl = rl\<lparr>rl_buckets := filter (\<lambda>p. \<not> bk_last (snd p) < t - 15 * 60 * 1000000000) (rl_buckets rl)\<rparr>"

section \<open>A run of a limiter\<close>

text \<open>Calls of \<open>allow\<close>, and passes of the reaper, each with the time it happens at.\<close>

datatype limiter_event = Allow int string | Reap int

fun event_time :: "limiter_event \<Rightarrow> int" where
  "event_time (Allow t _) = t" | "event_time (Reap t) = t"

fun limiter_run :: "limiter_event list \<Rightarrow> rateLimiter \<Rightarrow> bool list \<times> rateLimiter" where
  "limiter_run [] rl = ([], rl)"
| "limiter_run (Allow t k # es) rl = (case allow t k rl of (b, rl') \<Rightarrow> case limiter_run es rl' of (bs, rl'') \<Rightarrow> (b # bs, rl''))"
| "limiter_run (Reap t # es) rl = (case limiter_run es (reap t rl) of (bs, rl'') \<Rightarrow> (False # bs, rl''))"

text \<open>How often \<open>key\<close> was let through.\<close>

definition granted :: "string \<Rightarrow> limiter_event list \<Rightarrow> rateLimiter \<Rightarrow> nat" where
  "granted key es rl = length (filter (\<lambda>(e, b). b \<and> (\<exists>t. e = Allow t key)) (zip es (fst (limiter_run es rl))))"

text \<open>The tokens \<open>key\<close> could draw on at time \<open>t\<close>.\<close>

definition budget :: "string \<Rightarrow> int \<Rightarrow> rateLimiter \<Rightarrow> rat" where
  "budget key t rl = (case map_of (rl_buckets rl) key of None \<Rightarrow> rl_capacity rl | Some b \<Rightarrow> refill rl t b)"

definition limiter_ok :: "int \<Rightarrow> rateLimiter \<Rightarrow> bool" where
  "limiter_ok t rl \<longleftrightarrow> 1 \<le> rl_capacity rl \<and> 0 \<le> rl_rate rl \<and> rl_capacity rl \<le> 900 * rl_rate rl \<and> distinct (map fst (rl_buckets rl)) \<and>
     (\<forall>(k, b) \<in> set (rl_buckets rl). 0 \<le> bk_tokens b \<and> bk_last b \<le> t)"

lemma map_of_put: "map_of (put_bucket k b bs) k' = (if k' = k then Some b else map_of bs k')"
proof -
  have "map_of (filter (\<lambda>p. fst p \<noteq> k) bs) k' = map_of bs k'" if "k' \<noteq> k" using that by (induction bs) auto
  then show ?thesis by (simp add: put_bucket_def)
qed

lemma seconds_mono: "t \<le> t' \<Longrightarrow> 0 \<le> r \<Longrightarrow> seconds (t' - t) * r \<ge> 0"
  by (simp add: seconds_def)

lemma seconds_split: "seconds (t'' - t) = seconds (t' - t) + seconds (t'' - t')"
  by (simp add: seconds_def add_divide_distrib [symmetric] of_int_add [symmetric] del: of_int_add)

lemma refill_bounds:
  assumes "limiter_ok t rl" "map_of (rl_buckets rl) k = Some b" "t \<le> t'"
  shows "0 \<le> refill rl t' b" "refill rl t' b \<le> rl_capacity rl"
proof -
  from assms(1,2) have "0 \<le> bk_tokens b" "bk_last b \<le> t" "0 \<le> rl_rate rl" "1 \<le> rl_capacity rl"
    by (auto simp: limiter_ok_def dest!: map_of_SomeD)
  moreover have "0 \<le> seconds (t' - bk_last b) * rl_rate rl" using calculation assms(3) by (intro seconds_mono) auto
  ultimately show "0 \<le> refill rl t' b" "refill rl t' b \<le> rl_capacity rl" by (auto simp: refill_def Let_def)
qed

lemma budget_grows:
  assumes "limiter_ok t rl" "t \<le> t'"
  shows "budget k t' rl \<le> budget k t rl + seconds (t' - t) * rl_rate rl"
proof (cases "map_of (rl_buckets rl) k")
  case None
  then show ?thesis using assms seconds_mono [of t t' "rl_rate rl"] by (simp add: budget_def limiter_ok_def)
next
  case (Some b)
  have "seconds (t' - bk_last b) * rl_rate rl = seconds (t - bk_last b) * rl_rate rl + seconds (t' - t) * rl_rate rl"
    by (simp add: seconds_split [of t' "bk_last b" t] distrib_right)
  moreover have "0 \<le> seconds (t' - t) * rl_rate rl" using assms by (intro seconds_mono) (auto simp: limiter_ok_def)
  ultimately show ?thesis using Some by (auto simp: budget_def refill_def Let_def)
qed

end
