(* ===== verification/Gate.thy ===== *)
theory Gate
  imports AuthService RateLimit Containers
begin

text \<open>
  The HTTP layer of identity: \<open>server/internal/httpapi/auth.go\<close>, \<open>devices.go\<close>, \<open>ratelimit_user.go\<close> and the
  authentication of \<open>webdav.go\<close>.  A \<open>request\<close> holds what a handler reads of an HTTP request, with the body decoded;
  a response is its status, its error code, the cookies it sets (\<open>None\<close> clears one) and its content.  Messages for people,
  log lines and the push notification after a request are left out.  \<open>uuid.Parse\<close> and \<open>String\<close> are parameters.
\<close>

section \<open>Requests and responses\<close>

record request =
  rq_path :: string
  rq_pattern :: string
  rq_cookies :: "(string \<times> string) list"
  rq_authorization :: string
  rq_basic :: "(string \<times> string) option"
  rq_agent :: string
  rq_client :: string
  rq_id :: string
  rq_queryname :: string
  rq_json :: bool
  rq_username :: string
  rq_code :: string
  rq_name :: string
  rq_ttl :: int
  rq_endpoint :: string
  rq_p256dh :: string
  rq_pushauth :: string
  rq_body :: string

datatype payload =
    NoBody | Done string | AuthStatus bool int | Challenge string | UserBody User | Registered User "string list"
  | Recovered User int | Me User string int | Credentials "cred_row list" | Sessions "(session_row \<times> bool) list"
  | Codes "string list" | AppPasswords "app_row list" | AppPassword app_row string | DeviceToken string int User
  | Devices "(Device \<times> bool) list"

record response =
  rs_status :: nat
  rs_code :: string
  rs_cookies :: "(string \<times> string option) list"
  rs_payload :: payload

record gate_config =
  gc_cookie :: string
  gc_auth :: AuthConfig
  gc_String :: "nat \<Rightarrow> string"
  gc_Parse :: "string \<Rightarrow> nat option"
  gc_fold :: "string \<Rightarrow> string"

record gate =
  gt_auth :: auth
  gt_authLimiter :: rateLimiter
  gt_userLimiter :: "rateLimiter option"
  gt_heavyLimiter :: "rateLimiter option"

type_synonym 'a gm = "gate \<Rightarrow> (goerr + 'a) \<times> gate"

definition onAuth :: "(auth, 'a) m \<Rightarrow> (goerr + 'a) gm" where
  "onAuth c = (\<lambda>g. case c (gt_auth g) of (r, s) \<Rightarrow> (Inr r, g\<lparr>gt_auth := s\<rparr>))"

definition callM :: "(auth, 'a) m \<Rightarrow> (goerr \<Rightarrow> 'b gm) \<Rightarrow> ('a \<Rightarrow> 'b gm) \<Rightarrow> 'b gm" where
  "callM c f k = bindM (onAuth c) (\<lambda>r. case r of Inl e \<Rightarrow> f e | Inr v \<Rightarrow> k v)"

definition writeError :: "nat \<Rightarrow> string \<Rightarrow> response" where
  "writeError status code = \<lparr>rs_status = status, rs_code = code, rs_cookies = [], rs_payload = NoBody\<rparr>"

definition writeJSON :: "nat \<Rightarrow> payload \<Rightarrow> response" where
  "writeJSON status body = \<lparr>rs_status = status, rs_code = [], rs_cookies = [], rs_payload = body\<rparr>"

definition serverError :: "response gm" where
  "serverError = ret (writeError 500 ''internal_error'')"

definition set_cookie :: "string \<Rightarrow> string option \<Rightarrow> response \<Rightarrow> response" where
  "set_cookie name v r = r\<lparr>rs_cookies := rs_cookies r @ [(name, v)]\<rparr>"

definition ceremonyCookie :: string where "ceremonyCookie = ''pc_ceremony''"

definition setSessionCookie :: "gate_config \<Rightarrow> string \<Rightarrow> response \<Rightarrow> response" where
  "setSessionCookie gc token = set_cookie (gc_cookie gc) (Some token)"

definition clearCookie :: "string \<Rightarrow> response \<Rightarrow> response" where
  "clearCookie name = set_cookie name None"

definition setCeremonyCookie :: "gate_config \<Rightarrow> nat \<Rightarrow> response \<Rightarrow> response" where
  "setCeremonyCookie gc i = set_cookie ceremonyCookie (Some (gc_String gc i))"

definition ceremonyIDFrom :: "gate_config \<Rightarrow> request \<Rightarrow> nat option" where
  "ceremonyIDFrom gc r = Option.bind (map_of (rq_cookies r) ceremonyCookie) (gc_Parse gc)"

definition sessionTokenFrom :: "request \<Rightarrow> string \<Rightarrow> string" where
  "sessionTokenFrom r cookieName =
     (case map_of (rq_cookies r) cookieName of
        Some (c # cs) \<Rightarrow> c # cs
      | _ \<Rightarrow> let h = rq_authorization r in
             if length h > length ''Bearer '' \<and> take (length ''Bearer '') h = ''Bearer '' then drop (length ''Bearer '') h else [])"

definition EqualFold :: "gate_config \<Rightarrow> string \<Rightarrow> string \<Rightarrow> bool" where
  "EqualFold gc s t \<longleftrightarrow> map (gc_fold gc) (runes s) = map (gc_fold gc) (runes t)"

section \<open>Rate limits\<close>

datatype routeCost = costNormal | costHeavy | costStream

definition heavyRoutes :: "string list" where
  "heavyRoutes = [''POST /api/v1/chat'', ''GET /api/v1/nodes/{id}/similar'', ''POST /api/v1/admin/fsck'']"

definition streamRoutes :: "string list" where
  "streamRoutes =
     [''GET /api/v1/nodes/{id}/content'', ''HEAD /api/v1/nodes/{id}/content'',
      ''GET /api/v1/nodes/{id}/versions/{versionId}/content'', ''HEAD /api/v1/nodes/{id}/versions/{versionId}/content'',
      ''POST /api/v1/upload'', ''OPTIONS /api/v1/uploads'', ''POST /api/v1/uploads'', ''HEAD /api/v1/uploads/{id}'',
      ''PATCH /api/v1/uploads/{id}'', ''DELETE /api/v1/uploads/{id}'', ''GET /api/v1/nodes/{id}/manifest'',
      ''POST /api/v1/chunks/have'', ''GET /api/v1/chunks/{hash}'', ''PUT /api/v1/chunks/{hash}'', ''POST /api/v1/manifests'',
      ''GET /api/v1/changes'']"

definition costOf :: "request \<Rightarrow> routeCost" where
  "costOf r = (if rq_pattern r \<in> set streamRoutes then costStream else if rq_pattern r \<in> set heavyRoutes then costHeavy else costNormal)"

definition ask_limiter :: "rateLimiter option \<Rightarrow> int \<Rightarrow> string \<Rightarrow> bool \<times> rateLimiter option" where
  "ask_limiter l t key = (case l of None \<Rightarrow> (True, None) | Some rl \<Rightarrow> (case allow t key rl of (b, rl') \<Rightarrow> (b, Some rl')))"

definition userAllowed :: "gate_config \<Rightarrow> request \<Rightarrow> nat \<Rightarrow> bool gm" where
  "userAllowed gc r i = (\<lambda>g.
     let t = at_now (gt_auth g); key = ''user:'' @ gc_String gc i in
     case costOf r of
       costStream \<Rightarrow> (Inr True, g)
     | costHeavy \<Rightarrow> (case ask_limiter (gt_heavyLimiter g) t key of (b, l) \<Rightarrow> (Inr b, g\<lparr>gt_heavyLimiter := l\<rparr>))
     | costNormal \<Rightarrow> (case ask_limiter (gt_userLimiter g) t key of (b, l) \<Rightarrow> (Inr b, g\<lparr>gt_userLimiter := l\<rparr>)))"

definition withRateLimit :: "(request \<Rightarrow> response gm) \<Rightarrow> request \<Rightarrow> response gm" where
  "withRateLimit next r = (\<lambda>g.
     case allow (at_now (gt_auth g)) (rq_client r) (gt_authLimiter g) of (b, l) \<Rightarrow>
       (if b then next r else ret (writeError 429 ''rate_limited'')) (g\<lparr>gt_authLimiter := l\<rparr>))"

section \<open>Authentication of a request\<close>

definition isRecoveryAllowedPath :: "string \<Rightarrow> bool" where
  "isRecoveryAllowedPath path \<longleftrightarrow> path \<in>
     {''/api/v1/auth/register/begin'', ''/api/v1/auth/register/finish'', ''/api/v1/auth/me'', ''/api/v1/auth/logout'',
      ''/api/v1/auth/recovery/regenerate''}"

definition deviceDeniedPrefixes :: "string list" where
  "deviceDeniedPrefixes = [''/api/v1/devices'', ''/api/v1/admin'']"

definition isDeviceAllowedPath :: "string \<Rightarrow> bool" where
  "isDeviceAllowedPath path \<longleftrightarrow>
     (if list_ex (\<lambda>p. prefix p path) deviceDeniedPrefixes then False
      else if \<not> prefix ''/api/v1/auth/'' path then True
      else path \<in> {''/api/v1/auth/me'', ''/api/v1/auth/logout''})"

type_synonym handler = "session_row \<Rightarrow> User \<Rightarrow> request \<Rightarrow> response gm"

definition requireAuth :: "ext \<Rightarrow> gate_config \<Rightarrow> handler \<Rightarrow> request \<Rightarrow> response gm" where
  "requireAuth x gc next r =
     callM (Authenticate x (sessionTokenFrom r (gc_cookie gc)))
       (\<lambda>_. ret (writeError 401 ''unauthenticated''))
       (\<lambda>(sess, u).
          if ss_kind sess = SessionKindRecovery \<and> \<not> isRecoveryAllowedPath (rq_path r) then ret (writeError 403 ''recovery_session_limited'')
          else if ss_kind sess = SessionKindDevice \<and> \<not> isDeviceAllowedPath (rq_path r) then ret (writeError 403 ''device_session_limited'')
          else bindM (userAllowed gc r (us_ID u)) (\<lambda>ok.
            if \<not> ok then ret (writeError 429 ''rate_limited'')
            else bindM (getM (\<lambda>g. at_now (gt_auth g))) (\<lambda>t.
              thenM (if t - ss_seen sess > 5 * 60 * 1000000000 then bindM (onAuth (TouchSession (ss_id sess))) (\<lambda>_. ret ()) else ret ())
              (next sess u r))))"

definition requireAdmin :: "ext \<Rightarrow> gate_config \<Rightarrow> handler \<Rightarrow> request \<Rightarrow> response gm" where
  "requireAdmin x gc next =
     requireAuth x gc (\<lambda>sess u r. if \<not> us_IsAdmin u then ret (writeError 403 ''forbidden'') else next sess u r)"

definition requireBasicAuth :: response where
  "requireBasicAuth = writeError 401 []"

definition withDavAuth :: "ext \<Rightarrow> authlib \<Rightarrow> gate_config \<Rightarrow> (User \<Rightarrow> request \<Rightarrow> response gm) \<Rightarrow> request \<Rightarrow> response gm" where
  "withDavAuth x al gc next r = (\<lambda>g.
     case allow (at_now (gt_auth g)) (rq_client r) (gt_authLimiter g) of (b, l) \<Rightarrow>
       (if \<not> b then ret (writeError 429 [])
        else case rq_basic r of
          Some (username, password) \<Rightarrow>
            callM (VerifyAppPassword al password) (\<lambda>_. ret requireBasicAuth) (\<lambda>u.
              if username \<noteq> [] \<and> \<not> EqualFold gc username (us_Username u) then ret requireBasicAuth else next u r)
        | None \<Rightarrow>
            callM (Authenticate x (sessionTokenFrom r (gc_cookie gc))) (\<lambda>_. ret requireBasicAuth) (\<lambda>(sess, u).
              if ss_kind sess = SessionKindRecovery then ret requireBasicAuth else next u r))
       (g\<lparr>gt_authLimiter := l\<rparr>))"

section \<open>Registration and sign-in\<close>

definition handleAuthStatus :: "request \<Rightarrow> response gm" where
  "handleAuthStatus r = callM CountUsers (\<lambda>_. serverError) (\<lambda>n. ret (writeJSON 200 (AuthStatus (n = 0) n)))"

definition current_user :: "ext \<Rightarrow> gate_config \<Rightarrow> request \<Rightarrow> User option gm" where
  "current_user x gc r =
     callM (Authenticate x (sessionTokenFrom r (gc_cookie gc))) (\<lambda>_. ret None) (\<lambda>(_, u). ret (Some u))"

definition handleRegisterBegin :: "ext \<Rightarrow> authlib \<Rightarrow> gate_config \<Rightarrow> request \<Rightarrow> response gm" where
  "handleRegisterBegin x al gc r =
     bindM (current_user x gc r) (\<lambda>current.
     callM (BeginRegistration al (rq_username r) current)
       (\<lambda>e. if errors_Is e ErrRegistrationShut then ret (writeError 403 ''registration_closed'')
            else if errors_Is e ErrUserExists then ret (writeError 409 ''username_taken'')
            else serverError)
       (\<lambda>(options, i). ret (setCeremonyCookie gc i (writeJSON 200 (Challenge options)))))"

definition handleRegisterFinish :: "ext \<Rightarrow> authlib \<Rightarrow> gate_config \<Rightarrow> request \<Rightarrow> response gm" where
  "handleRegisterFinish x al gc r =
     (case ceremonyIDFrom gc r of
        None \<Rightarrow> ret (writeError 400 ''no_ceremony'')
      | Some i \<Rightarrow>
          bindM (callM (FinishRegistration x al i (if rq_queryname r = [] then ''passkey'' else rq_queryname r) (rq_body r))
            (\<lambda>e. if errors_Is e ErrCeremonyNotFound then ret (writeError 400 ''ceremony_expired'')
                 else if errors_Is e ErrUserExists then ret (writeError 409 ''username_taken'')
                 else ret (writeError 400 ''registration_failed''))
            (\<lambda>(u, codes).
               if codes = [] then ret (writeJSON 200 (UserBody u))
               else callM (NewSessionToken x (gc_auth gc) u SessionKindWeb (rq_agent r)) (\<lambda>_. serverError)
                 (\<lambda>(token, _). ret (setSessionCookie gc token (writeJSON 200 (Registered u codes)))))) (\<lambda>resp.
          ret (clearCookie ceremonyCookie resp)))"

definition handleLoginBegin :: "authlib \<Rightarrow> gate_config \<Rightarrow> request \<Rightarrow> response gm" where
  "handleLoginBegin al gc r =
     (if \<not> rq_json r \<or> rq_username r = [] then ret (writeError 400 ''invalid_request'')
      else callM (BeginLogin al (rq_username r))
        (\<lambda>e. if errors_Is e ErrUserNotFound \<or> errors_Is e ErrNoCredentials \<or> errors_Is e ErrUserDisabled
             then ret (writeError 401 ''login_failed'') else serverError)
        (\<lambda>(options, i). ret (setCeremonyCookie gc i (writeJSON 200 (Challenge options)))))"

definition handleLoginFinish :: "ext \<Rightarrow> authlib \<Rightarrow> gate_config \<Rightarrow> request \<Rightarrow> response gm" where
  "handleLoginFinish x al gc r =
     (case ceremonyIDFrom gc r of
        None \<Rightarrow> ret (writeError 400 ''no_ceremony'')
      | Some i \<Rightarrow>
          bindM (callM (FinishLogin al i (rq_body r)) (\<lambda>_. ret (writeError 401 ''login_failed''))
            (\<lambda>u. callM (NewSessionToken x (gc_auth gc) u SessionKindWeb (rq_agent r)) (\<lambda>_. serverError)
              (\<lambda>(token, _). ret (setSessionCookie gc token (writeJSON 200 (UserBody u)))))) (\<lambda>resp.
          ret (clearCookie ceremonyCookie resp)))"

definition handleRecoveryRedeem :: "ext \<Rightarrow> authlib \<Rightarrow> gate_config \<Rightarrow> request \<Rightarrow> response gm" where
  "handleRecoveryRedeem x al gc r =
     (if \<not> rq_json r \<or> rq_username r = [] \<or> rq_code r = [] then ret (writeError 400 ''invalid_request'')
      else callM (RedeemRecoveryCode x al (rq_username r) (rq_code r)) (\<lambda>_. ret (writeError 401 ''recovery_failed'')) (\<lambda>u.
        callM (NewSessionToken x (gc_auth gc) u SessionKindRecovery (rq_agent r)) (\<lambda>_. serverError) (\<lambda>(token, _).
        bindM (onAuth (CountUnusedRecoveryCodes (us_ID u))) (\<lambda>n.
        ret (setSessionCookie gc token (writeJSON 200 (Recovered u (case n of Inl _ \<Rightarrow> 0 | Inr k \<Rightarrow> k))))))))"

definition handleLogout :: "ext \<Rightarrow> gate_config \<Rightarrow> request \<Rightarrow> response gm" where
  "handleLogout x gc r =
     bindM (onAuth (Logout x (sessionTokenFrom r (gc_cookie gc)))) (\<lambda>_.
     ret (clearCookie (gc_cookie gc) (writeJSON 200 (Done ''signed out''))))"

section \<open>The signed-in user's own credentials\<close>

definition handleMe :: handler where
  "handleMe sess u r =
     callM (CountUnusedRecoveryCodes (us_ID u)) (\<lambda>_. serverError) (\<lambda>n. ret (writeJSON 200 (Me u (ss_kind sess) n)))"

definition handleListCredentials :: handler where
  "handleListCredentials sess u r =
     callM (ListCredentials (us_ID u)) (\<lambda>_. serverError) (\<lambda>cs. ret (writeJSON 200 (Credentials cs)))"

definition handleDeleteCredential :: "gate_config \<Rightarrow> handler" where
  "handleDeleteCredential gc sess u r =
     (case gc_Parse gc (rq_id r) of
        None \<Rightarrow> ret (writeError 400 ''invalid_id'')
      | Some i \<Rightarrow>
          callM (ListCredentials (us_ID u)) (\<lambda>_. serverError) (\<lambda>cs.
          if length cs \<le> 1 then ret (writeError 409 ''last_credential'')
          else callM (DeleteCredential (us_ID u) i) (\<lambda>_. ret (writeError 404 ''not_found'')) (\<lambda>_.
            ret (writeJSON 200 (Done ''deleted'')))))"

definition handleListSessions :: handler where
  "handleListSessions sess u r =
     callM (ListSessions (us_ID u)) (\<lambda>_. serverError) (\<lambda>ss. ret (writeJSON 200 (Sessions (map (\<lambda>q. (q, ss_id q = ss_id sess)) ss))))"

definition handleRevokeSession :: "gate_config \<Rightarrow> handler" where
  "handleRevokeSession gc sess u r =
     (case gc_Parse gc (rq_id r) of
        None \<Rightarrow> ret (writeError 400 ''invalid_id'')
      | Some i \<Rightarrow>
          callM (RevokeSession (us_ID u) i) (\<lambda>_. ret (writeError 404 ''not_found'')) (\<lambda>_.
          let done = writeJSON 200 (Done ''revoked'')
          in ret (if ss_id sess = i then clearCookie (gc_cookie gc) done else done)))"

definition handleRegenerateRecoveryCodes :: "ext \<Rightarrow> authlib \<Rightarrow> handler" where
  "handleRegenerateRecoveryCodes x al sess u r =
     callM (RegenerateRecoveryCodes x al (us_ID u)) (\<lambda>_. serverError) (\<lambda>codes. ret (writeJSON 200 (Codes codes)))"

definition handleListAppPasswords :: handler where
  "handleListAppPasswords sess u r =
     callM (ListAppPasswords (us_ID u)) (\<lambda>_. serverError) (\<lambda>rows. ret (writeJSON 200 (AppPasswords rows)))"

text \<open>\<open>time.Duration(req.TTLHours) * time.Hour\<close> wraps.\<close>

definition handleCreateAppPassword :: "authlib \<Rightarrow> handler" where
  "handleCreateAppPassword al sess u r =
     (if \<not> rq_json r \<or> rq_name r = [] then ret (writeError 400 ''invalid_request'')
      else callM (CreateAppPassword al (us_ID u) (rq_name r) (int64 (rq_ttl r * 3600000000000))) (\<lambda>_. serverError) (\<lambda>(row, plaintext).
        ret (writeJSON 201 (AppPassword row plaintext))))"

definition handleRevokeAppPassword :: "gate_config \<Rightarrow> handler" where
  "handleRevokeAppPassword gc sess u r =
     (case gc_Parse gc (rq_id r) of
        None \<Rightarrow> ret (writeError 400 ''invalid_id'')
      | Some i \<Rightarrow> callM (RevokeAppPassword (us_ID u) i) (\<lambda>_. ret (writeError 404 ''not_found'')) (\<lambda>_. ret (writeJSON 200 (Done ''revoked''))))"

definition handleCreateDeviceToken :: "ext \<Rightarrow> authlib \<Rightarrow> gate_config \<Rightarrow> request \<Rightarrow> response gm" where
  "handleCreateDeviceToken x al gc r =
     (case rq_basic r of
        None \<Rightarrow> ret (writeError 401 ''unauthenticated'')
      | Some (username, password) \<Rightarrow>
          callM (VerifyAppPassword al password) (\<lambda>_. ret (writeError 401 ''unauthenticated'')) (\<lambda>u.
          if username \<noteq> [] \<and> \<not> EqualFold gc username (us_Username u) then ret (writeError 401 ''unauthenticated'')
          else callM (NewSessionToken x (gc_auth gc) u SessionKindDevice (if rq_agent r = [] then ''device'' else rq_agent r))
            (\<lambda>_. serverError) (\<lambda>(token, expires). ret (writeJSON 200 (DeviceToken token expires u)))))"

section \<open>Devices\<close>

definition writeDeviceError :: "goerr \<Rightarrow> response gm" where
  "writeDeviceError e = (if errors_Is e ErrDeviceNotFound then ret (writeError 404 ''not_found'') else serverError)"

definition handleListDevices :: "ext \<Rightarrow> handler" where
  "handleListDevices x sess u r =
     callM (ListDevices x (us_ID u)) (\<lambda>_. serverError) (\<lambda>ds. ret (writeJSON 200 (Devices (map (\<lambda>d. (d, dv_ID d = ss_id sess)) ds))))"

definition handlePatchDevice :: "gate_config \<Rightarrow> handler" where
  "handlePatchDevice gc sess u r =
     (case gc_Parse gc (rq_id r) of
        None \<Rightarrow> ret (writeError 400 ''invalid_id'')
      | Some i \<Rightarrow>
          if \<not> rq_json r then ret (writeError 400 ''invalid_request'')
          else if TrimSpace (rq_name r) = [] then ret (writeError 400 ''invalid_name'')
          else callM (RenameDevice (us_ID u) i (rq_name r)) writeDeviceError (\<lambda>_. ret (writeJSON 200 (Done ''renamed''))))"

definition handleRevokeDevice :: "gate_config \<Rightarrow> handler" where
  "handleRevokeDevice gc sess u r =
     (case gc_Parse gc (rq_id r) of
        None \<Rightarrow> ret (writeError 400 ''invalid_id'')
      | Some i \<Rightarrow> callM (RevokeDevice (us_ID u) i) writeDeviceError (\<lambda>_. ret (writeJSON 200 (Done ''revoked''))))"

definition handleRegisterPush :: "gate_config \<Rightarrow> handler" where
  "handleRegisterPush gc sess u r =
     (case gc_Parse gc (rq_id r) of
        None \<Rightarrow> ret (writeError 400 ''invalid_id'')
      | Some i \<Rightarrow>
          let endpoint = TrimSpace (rq_endpoint r) in
          if \<not> rq_json r then ret (writeError 400 ''invalid_request'')
          else if endpoint = [] \<or> rq_p256dh r = [] \<or> rq_pushauth r = [] then ret (writeError 400 ''invalid_request'')
          else if \<not> HasPrefix endpoint ''https://'' then ret (writeError 400 ''invalid_request'')
          else callM (PutPushSubscription (us_ID u) i endpoint (rq_p256dh r) (rq_pushauth r)) writeDeviceError (\<lambda>_.
            ret (writeJSON 200 (Done ''registered''))))"

definition handleUnregisterPush :: "gate_config \<Rightarrow> handler" where
  "handleUnregisterPush gc sess u r =
     (case gc_Parse gc (rq_id r) of
        None \<Rightarrow> ret (writeError 400 ''invalid_id'')
      | Some i \<Rightarrow> callM (DeletePushSubscription (us_ID u) i) writeDeviceError (\<lambda>_. ret (writeJSON 200 (Done ''unregistered''))))"

section \<open>Routes\<close>

text \<open>The routes of \<open>server.go\<close> these handlers are mounted at; \<open>{id}\<close> stands for one segment.\<close>

definition open_routes :: "ext \<Rightarrow> authlib \<Rightarrow> gate_config \<Rightarrow> (string \<times> string \<times> (request \<Rightarrow> response gm)) list" where
  "open_routes x al gc =
     [(''GET'', ''/api/v1/auth/status'', handleAuthStatus),
      (''POST'', ''/api/v1/auth/register/begin'', withRateLimit (handleRegisterBegin x al gc)),
      (''POST'', ''/api/v1/auth/register/finish'', withRateLimit (handleRegisterFinish x al gc)),
      (''POST'', ''/api/v1/auth/login/begin'', withRateLimit (handleLoginBegin al gc)),
      (''POST'', ''/api/v1/auth/login/finish'', withRateLimit (handleLoginFinish x al gc)),
      (''POST'', ''/api/v1/auth/recovery/redeem'', withRateLimit (handleRecoveryRedeem x al gc)),
      (''POST'', ''/api/v1/auth/logout'', handleLogout x gc),
      (''POST'', ''/api/v1/auth/token'', withRateLimit (handleCreateDeviceToken x al gc))]"

definition guarded_routes :: "ext \<Rightarrow> authlib \<Rightarrow> gate_config \<Rightarrow> (string \<times> string \<times> (request \<Rightarrow> response gm)) list" where
  "guarded_routes x al gc =
     [(''GET'', ''/api/v1/auth/me'', requireAuth x gc handleMe),
      (''GET'', ''/api/v1/auth/credentials'', requireAuth x gc handleListCredentials),
      (''DELETE'', ''/api/v1/auth/credentials/{id}'', requireAuth x gc (handleDeleteCredential gc)),
      (''GET'', ''/api/v1/auth/sessions'', requireAuth x gc handleListSessions),
      (''DELETE'', ''/api/v1/auth/sessions/{id}'', requireAuth x gc (handleRevokeSession gc)),
      (''POST'', ''/api/v1/auth/recovery/regenerate'', requireAuth x gc (handleRegenerateRecoveryCodes x al)),
      (''GET'', ''/api/v1/devices'', requireAuth x gc (handleListDevices x)),
      (''PATCH'', ''/api/v1/devices/{id}'', requireAuth x gc (handlePatchDevice gc)),
      (''DELETE'', ''/api/v1/devices/{id}'', requireAuth x gc (handleRevokeDevice gc)),
      (''POST'', ''/api/v1/devices/{id}/push'', requireAuth x gc (handleRegisterPush gc)),
      (''DELETE'', ''/api/v1/devices/{id}/push'', requireAuth x gc (handleUnregisterPush gc)),
      (''GET'', ''/api/v1/auth/app-passwords'', requireAuth x gc handleListAppPasswords),
      (''POST'', ''/api/v1/auth/app-passwords'', requireAuth x gc (handleCreateAppPassword al)),
      (''DELETE'', ''/api/v1/auth/app-passwords/{id}'', requireAuth x gc (handleRevokeAppPassword gc))]"

text \<open>A path the mux hands to a pattern is the pattern, or starts with what stands before its first \<open>{\<close>.\<close>

definition reaches :: "string \<Rightarrow> string \<Rightarrow> bool" where
  "reaches pat path \<longleftrightarrow>
     (if CHR ''{'' \<in> set pat then prefix (takeWhile (\<lambda>c. c \<noteq> CHR ''{'') pat) path else path = pat)"

end
