(* ===== verification/GateSpec.thy ===== *)
theory GateSpec
  imports AuthSpec Gate
begin

text \<open>What a token can reach, and whose account a passkey is added to.\<close>

lemma all_device_paths:
  "\<forall>(meth, pat, h) \<in> set (guarded_routes x al gc). pat = ''/api/v1/auth/me'' \<or> (\<forall>path. reaches pat path \<longrightarrow> \<not> isDeviceAllowedPath path)"
  by (auto simp: guarded_routes_def reaches_def isDeviceAllowedPath_def deviceDeniedPrefixes_def elim!: prefixE)

lemma all_recovery_paths:
  "\<forall>(meth, pat, h) \<in> set (guarded_routes x al gc). pat = ''/api/v1/auth/me'' \<or> pat = ''/api/v1/auth/recovery/regenerate'' \<or>
     (\<forall>path. reaches pat path \<longrightarrow> \<not> isRecoveryAllowedPath path)"
  by (auto simp: guarded_routes_def reaches_def isRecoveryAllowedPath_def elim!: prefixE)

lemma device_paths:
  assumes "(meth, pat, h) \<in> set (guarded_routes x al gc)" "pat \<noteq> ''/api/v1/auth/me''" "reaches pat path"
  shows "\<not> isDeviceAllowedPath path"
  using bspec [OF all_device_paths assms(1)] assms(2,3) unfolding prod.case by blast

lemma recovery_paths:
  assumes "(meth, pat, h) \<in> set (guarded_routes x al gc)" "pat \<notin> {''/api/v1/auth/me'', ''/api/v1/auth/recovery/regenerate''}" "reaches pat path"
  shows "\<not> isRecoveryAllowedPath path"
  using bspec [OF all_recovery_paths assms(1)] assms(2,3) unfolding prod.case by blast

lemma guarded_by_requireAuth: "(meth, pat, h) \<in> set (guarded_routes x al gc) \<Longrightarrow> \<exists>next. h = requireAuth x gc next"
  unfolding guarded_routes_def by auto

lemma requireAuth_run:
  assumes "Authenticate x (sessionTokenFrom r (gc_cookie gc)) (gt_auth g) = (Inr (sess, u), s)"
  shows "ss_kind sess = SessionKindDevice \<Longrightarrow> \<not> isDeviceAllowedPath (rq_path r) \<Longrightarrow>
      requireAuth x gc next r g = (Inr (writeError 403 ''device_session_limited''), g\<lparr>gt_auth := s\<rparr>)"
    and "ss_kind sess = SessionKindRecovery \<Longrightarrow> \<not> isRecoveryAllowedPath (rq_path r) \<Longrightarrow>
      requireAuth x gc next r g = (Inr (writeError 403 ''recovery_session_limited''), g\<lparr>gt_auth := s\<rparr>)"
  using assms by (simp_all add: requireAuth_def callM_def onAuth_def bindM_def ret_def SessionKindDevice_def SessionKindRecovery_def)


lemma callM_run:
  assumes "callM c f k g = (r, g')"
  obtains e s where "c (gt_auth g) = (Inl e, s)" "f e (g\<lparr>gt_auth := s\<rparr>) = (r, g')"
  | v s where "c (gt_auth g) = (Inr v, s)" "k v (g\<lparr>gt_auth := s\<rparr>) = (r, g')"
  using assms unfolding callM_def onAuth_def by (auto simp: bindM_def split: prod.splits sum.splits)

lemma begin_refused:
  "(if errors_Is e ErrRegistrationShut then ret (writeError 403 ''registration_closed'')
    else if errors_Is e ErrUserExists then ret (writeError 409 ''username_taken'')
    else serverError) g = (Inr resp, g') \<Longrightarrow> rs_status resp \<noteq> 200"
  unfolding serverError_def writeError_def by (auto simp: ret_iff split: if_split_asm)

lemma BeginRegistration_for:
  assumes "BeginRegistration al name (Some u) s = (Inr (options, i), s')"
  obtains c where "c \<in> set (at_ceremonies s')" "ce_id c = i" "ce_user c = Some (us_ID u)"
proof -
  from assms obtain t d where "CreateCeremony (Some (us_ID u)) ''registration'' [] d ceremonyTTL t = (Inr i, s')"
    unfolding BeginRegistration_def registration_target_def
    by (auto simp: run_iffs elim!: bindM_cases split: prod.splits)
  from CreateCeremony_run(2) [OF this] that show thesis by auto
qed

lemma FinishRegistration_adds:
  assumes "FinishRegistration x al i cred r s = (Inr (u, codes), s')"
    and "\<forall>c \<in> set (at_ceremonies s). ce_id c = i \<longrightarrow> ce_user c = Some j"
  shows "us_ID u = j \<and> codes = [] \<and> (\<exists>row \<in> set (at_creds s'). wc_user row = j)"
proof -
  from assms(1) [unfolded FinishRegistration_def] obtain v t where take: "TakeCeremony i ''registration'' s = (Inr v, t)"
    and rest: "(case v of (uid, pending, d) \<Rightarrow>
     bindM (registration_user uid pending d) (\<lambda>u.
     bindM (credentialsFor uid) (\<lambda>creds.
     bindM (wrapM ''verify registration'' (liftE (al_FinishRegistration al (webauthnUser u creds) d r))) (\<lambda>c.
     bindM (if uid = None then bootstrap_admin x al (us_ID u) pending else ret (u, [])) (\<lambda>(u', codes).
     thenM (AddCredential (us_ID u') cred c)
     (ret (u', codes))))))) t = (Inr (u, codes), s')"
    by (rule bindM_cases) simp
  from take assms(2) obtain pending d where v: "v = (Some j, pending, d)"
    by (cases rule: TakeCeremony_run) (auto simp: open_ceremony_def dest!: find_Some_set)
  from rest obtain t1 t2 t3 c where u: "GetUserByID j t1 = (Inr u, t2)" and codes: "codes = []"
    and add: "AddCredential (us_ID u) cred c t3 = (Inr (), s')"
    by (auto simp: v registration_user_def run_iffs elim!: bindM_cases thenM_cases)
  from u have "us_ID u = j" unfolding GetUserByID_def find_user_def
    by (auto simp: run_iffs scanUser_def User.defs elim!: bindM_cases aselect_run split: option.splits dest!: find_Some_set)
  from AddCredential_run [OF add] obtain bs row where "s' = t3\<lparr>faults := bs, at_next := Suc (at_next t3), at_creds := at_creds t3 @ [row]\<rparr>"
    and "wc_user row = us_ID u" by blast
  with codes \<open>us_ID u = j\<close> show ?thesis by auto
qed


end
