(* ===== verification/RateSpec.thy ===== *)
theory RateSpec
  imports RateLimit
begin

text \<open>What the token buckets bound.\<close>

lemma refill_simps [simp]:
  "refill (rl\<lparr>rl_buckets := bs\<rparr>) = refill rl" "v \<le> rl_capacity rl \<Longrightarrow> refill rl t \<lparr>bk_tokens = v, bk_last = t\<rparr> = v"
  by (simp_all add: refill_def seconds_def fun_eq_iff Let_def)

lemma allow_step:
  assumes ok: "limiter_ok t rl" and run: "allow t k rl = (b, rl')"
  shows "limiter_ok t rl'" and "rl_rate rl' = rl_rate rl" "rl_capacity rl' = rl_capacity rl"
    and "budget k' t rl' = budget k' t rl - (if b \<and> k' = k then 1 else 0)"
proof -
  obtain v where rl': "rl' = rl\<lparr>rl_buckets := put_bucket k \<lparr>bk_tokens = v, bk_last = t\<rparr> (rl_buckets rl)\<rparr>"
    and v: "v = budget k t rl - (if b then 1 else 0)" and b: "b \<longleftrightarrow> 1 \<le> budget k t rl"
    using run ok by (auto simp: allow_def budget_def limiter_ok_def Let_def split: option.splits if_splits)
  have "0 \<le> budget k t rl" "budget k t rl \<le> rl_capacity rl"
    using refill_bounds [OF ok _ order_refl] ok by (auto simp: budget_def limiter_ok_def split: option.splits)
  then have "0 \<le> v" "v \<le> rl_capacity rl" using v b by auto
  then show "limiter_ok t rl'" using ok by (auto simp: limiter_ok_def rl' put_bucket_def distinct_map_filter)
  show "rl_rate rl' = rl_rate rl" "rl_capacity rl' = rl_capacity rl" by (simp_all add: rl')
  show "budget k' t rl' = budget k' t rl - (if b \<and> k' = k then 1 else 0)"
  proof (cases "k' = k")
    case True
    have "budget k t rl' = v" using \<open>v \<le> rl_capacity rl\<close> by (simp add: budget_def rl' map_of_put)
    with True v show ?thesis by simp
  next
    case False
    then show ?thesis by (simp add: budget_def rl' map_of_put split: option.split)
  qed
qed

lemma map_of_reap:
  "distinct (map fst bs) \<Longrightarrow> map_of (filter (\<lambda>p. \<not> bk_last (snd p) < c) bs) k =
     (case map_of bs k of Some b \<Rightarrow> if bk_last b < c then None else Some b | None \<Rightarrow> None)"
  by (induction bs) (auto simp: map_of_eq_None_iff image_iff split: option.splits)

lemma reap_step:
  assumes ok: "limiter_ok t rl"
  shows "limiter_ok t (reap t rl)" and "budget k t (reap t rl) = budget k t rl"
proof -
  show "limiter_ok t (reap t rl)" using ok by (auto simp: limiter_ok_def reap_def distinct_map_filter)
  show "budget k t (reap t rl) = budget k t rl"
  proof (cases "map_of (rl_buckets rl) k")
    case None
    then show ?thesis using ok by (simp add: budget_def reap_def map_of_reap limiter_ok_def)
  next
    case (Some b)
    show ?thesis
    proof (cases "bk_last b < t - 900000000000")
      case True
      from ok Some have "0 \<le> bk_tokens b" "0 \<le> rl_rate rl" "rl_capacity rl \<le> 900 * rl_rate rl" by (auto simp: limiter_ok_def dest!: map_of_SomeD)
      have "900 \<le> seconds (t - bk_last b)" using True by (simp add: seconds_def)
      then have "900 * rl_rate rl \<le> seconds (t - bk_last b) * rl_rate rl" using \<open>0 \<le> rl_rate rl\<close> by (rule mult_right_mono)
      with \<open>0 \<le> bk_tokens b\<close> \<open>rl_capacity rl \<le> 900 * rl_rate rl\<close> have "refill rl t b = rl_capacity rl" by (auto simp: refill_def Let_def)
      with True Some show ?thesis using ok by (simp add: budget_def reap_def map_of_reap limiter_ok_def)
    next
      case False
      with Some show ?thesis using ok by (simp add: budget_def reap_def map_of_reap limiter_ok_def refill_def)
    qed
  qed
qed

lemma limiter_ok_later: "limiter_ok t rl \<Longrightarrow> t \<le> t' \<Longrightarrow> limiter_ok t' rl"
  by (auto simp: limiter_ok_def)

lemma granted_Cons:
  "granted k [] rl = 0"
  "allow t k' rl = (b, rl') \<Longrightarrow> granted k (Allow t k' # es) rl = (if b \<and> k' = k then 1 else 0) + granted k es rl'"
  "granted k (Reap t # es) rl = granted k es (reap t rl)"
  by (auto simp: granted_def split: prod.splits)

lemma granted_bound:
  assumes "limiter_ok t0 rl" "sorted (map event_time es)" "\<forall>e \<in> set es. t0 \<le> event_time e \<and> event_time e \<le> t1" "t0 \<le> t1"
  shows "of_nat (granted k es rl) \<le> budget k t0 rl + seconds (t1 - t0) * rl_rate rl"
  using assms
proof (induction es arbitrary: t0 rl)
  case Nil
  have "0 \<le> budget k t0 rl" using refill_bounds [OF Nil(1) _ order_refl] Nil(1) by (auto simp: budget_def limiter_ok_def split: option.splits)
  moreover have "0 \<le> seconds (t1 - t0) * rl_rate rl" using Nil by (intro seconds_mono) (auto simp: limiter_ok_def)
  ultimately show ?case by (simp add: granted_Cons)
next
  case (Cons e es)
  let ?t = "event_time e"
  have t: "t0 \<le> ?t" "?t \<le> t1" using Cons.prems(3) by auto
  note ok = limiter_ok_later [OF Cons.prems(1) t(1)]
  have rest: "sorted (map event_time es)" "\<forall>e' \<in> set es. ?t \<le> event_time e' \<and> event_time e' \<le> t1" using Cons.prems(2,3) by auto
  have refilled: "budget k ?t rl + seconds (t1 - ?t) * rl_rate rl \<le> budget k t0 rl + seconds (t1 - t0) * rl_rate rl"
    using budget_grows [OF Cons.prems(1) t(1), of k] by (simp add: seconds_split [of t1 t0 ?t] distrib_right)
  show ?case
  proof (cases e)
    case (Allow t k')
    obtain b rl' where a: "allow t k' rl = (b, rl')" by fastforce
    note st = allow_step [OF ok [unfolded Allow event_time.simps] a]
    from Cons.IH [OF st(1)] rest t st(2) Allow
    have "of_nat (granted k es rl') \<le> budget k t rl' + seconds (t1 - t) * rl_rate rl" by simp
    then show ?thesis using st(4) [of k] refilled Allow by (auto simp: granted_Cons(2) [OF a] split: if_splits)
  next
    case (Reap t)
    note st = reap_step [OF ok [unfolded Reap event_time.simps]]
    from Cons.IH [OF st(1)] rest t Reap have "of_nat (granted k es (reap t rl)) \<le> budget k t (reap t rl) + seconds (t1 - t) * rl_rate rl"
      by (simp add: reap_def)
    then show ?thesis using st(2) [of k] refilled Reap by (simp add: granted_Cons)
  qed
qed

text \<open>C33: A client is let through at most \<open>capacity\<close> times plus the refill of the time that passed, whatever calls other
  clients make and whenever the reaper drops idle buckets, provided that fifteen idle minutes refill a bucket; the four
  limiters of the server are set up like that.\<close>

theorem limiter_bounds_requests:
  assumes "limiter_ok t0 rl" and "sorted (map event_time es)" and "\<forall>e \<in> set es. t0 \<le> event_time e \<and> event_time e \<le> t1" and "t0 \<le> t1"
  shows "of_nat (granted key es rl) \<le> rl_capacity rl + seconds (t1 - t0) * rl_rate rl"
proof -
  have "budget key t0 rl \<le> rl_capacity rl" using refill_bounds(2) [OF assms(1) _ order_refl] by (auto simp: budget_def split: option.splits)
  with granted_bound [OF assms, of key] show ?thesis by simp
qed

lemma new_limiters_ok:
  "limiter_ok t (newRateLimiter 20 10)" "limiter_ok t (newRateLimiter 120 30)"
  "limiter_ok t (newRateLimiter 1200 600)" "limiter_ok t (newRateLimiter 30 15)"
  by (simp_all add: limiter_ok_def newRateLimiter_def)

end
