(* ===== verification/AuthDemo.thy ===== *)
theory AuthDemo
  imports AuthRuns Demo
begin

text \<open>
  A small server to evaluate the identity service on: a hash that joins password and salt and is padded to the length asked
  for, names compared as they are, an authenticator that answers every challenge, and two accounts.
\<close>

definition demo_authlib :: authlib where
  "demo_authlib = \<lparr>al_argon = (\<lambda>p s t m c n. take n (p @ s @ replicate n CHR ''.'')), al_lower = (\<lambda>s. s),
     al_BeginRegistration = (\<lambda>o' u. Inr (''create'', \<lparr>sd_UserID = wu_id u, sd_rest = []\<rparr>)),
     al_FinishRegistration = (\<lambda>u d r. Inr \<lparr>WC_ID = r, WC_Rest = [], WC_SignCount = 0, WC_CloneWarning = False\<rparr>),
     al_BeginLogin = (\<lambda>o' u. Inr (''get'', \<lparr>sd_UserID = wu_id u, sd_rest = []\<rparr>)),
     al_FinishLogin = (\<lambda>u d r. Inr \<lparr>WC_ID = r, WC_Rest = [], WC_SignCount = 1, WC_CloneWarning = False\<rparr>)\<rparr>"

definition demo_account :: "nat \<Rightarrow> string \<Rightarrow> account" where
  "demo_account i name = \<lparr>us_ID = i, us_Username = name, us_DisplayName = name, us_IsAdmin = True, us_Quota = None,
     us_DisabledAt = None, us_CreatedAt = 0, us_Fold = name\<rparr>"

definition demo_session :: "nat \<Rightarrow> nat \<Rightarrow> string \<Rightarrow> string \<Rightarrow> session_row" where
  "demo_session i u token kind = \<lparr>ss_id = i, ss_user = u, ss_token = demo_digest token, ss_kind = kind, ss_agent = [], ss_device = [],
     ss_created = 0, ss_seen = 5, ss_expires = 100, ss_revoked = None\<rparr>"

definition demo_auth :: "account list \<Rightarrow> auth" where
  "demo_auth as = \<lparr>faults = [], at_now = 10, at_next = 7, at_random = replicate 400 CHR 0x00, at_users = as, at_creds = [],
     at_codes = [], at_sessions = [], at_ceremonies = [], at_apps = [], at_push = []\<rparr>"

lemmas auth_eval = adbM_def aselectM_def freshM_def randM_def liftE_def update_sessions_def update_apps_def update_users_def
  count_rows_def set_rows_def run_eval Let_def

end
