(* ===== verification/AuthRunDemo.thy ===== *)
theory AuthRunDemo
  imports AuthSpec AuthDemo
begin

text \<open>
  The properties of the identity service on the small server of \<open>AuthDemo\<close>.
\<close>

lemma demo_laws: "argon_law demo_authlib" "handle_law demo_authlib"
  by (auto simp: argon_law_def handle_law_def demo_authlib_def)

definition demo_ceremony :: ceremony_row where
  "demo_ceremony = \<lparr>ce_id = 3, ce_user = Some 1, ce_kind = ''login'', ce_data = \<lparr>sd_UserID = [], sd_rest = []\<rparr>, ce_pending = None, ce_expires = 50\<rparr>"

theorem ceremony_works_once_witness:
  "\<exists>v s1. TakeCeremony 3 ''login'' ((demo_auth [])\<lparr>at_ceremonies := [demo_ceremony]\<rparr>) = (Inr v, s1) \<and>
     (\<exists>e. fst (FinishLogin demo_authlib 3 [] s1) = Inl e)"
proof -
  let ?s = "(demo_auth [])\<lparr>at_ceremonies := [demo_ceremony]\<rparr>"
  have "ids_ok ?s" by (simp add: demo_auth_def demo_ceremony_def ids_ok_def keys_ok_def)
  moreover have "\<exists>v s1. TakeCeremony 3 ''login'' ?s = (Inr v, s1)"
    by (simp add: TakeCeremony_def auth_eval demo_auth_def demo_ceremony_def open_ceremony_def)
  ultimately show ?thesis using ceremony_works_once [of ?s 3 "''login''" _ _ _ _ demo_authlib] by blast
qed

theorem recovery_code_works_once_witness:
  "\<exists>s1. mark_code 3 ((demo_auth [])\<lparr>at_codes := [\<lparr>rc_id = 3, rc_user = 1, rc_hash = [], rc_used = None\<rparr>]\<rparr>) = (Inr 1, s1) \<and>
     fst (mark_code 3 s1) \<in> {Inl db_err, Inr 0}"
proof -
  let ?s = "(demo_auth [])\<lparr>at_codes := [\<lparr>rc_id = 3, rc_user = 1, rc_hash = [], rc_used = None\<rparr>]\<rparr>"
  have "ids_ok ?s" by (simp add: demo_auth_def ids_ok_def keys_ok_def)
  moreover have "\<exists>s1. mark_code 3 ?s = (Inr 1, s1)" by (simp add: mark_code_def auth_eval demo_auth_def)
  ultimately show ?thesis using recovery_code_works_once [of ?s 3 1] by (metis rtranclp.rtrancl_refl one_neq_zero)
qed

text \<open>Two sessions of one account, the first revoked.\<close>

definition demo_sessions :: auth where
  "demo_sessions = (demo_auth [demo_account 1 ''ann''])\<lparr>at_sessions :=
     [(demo_session 2 1 ''a'' SessionKindWeb)\<lparr>ss_revoked := Some 4\<rparr>, demo_session 3 1 ''b'' SessionKindDevice]\<rparr>"

lemma demo_sessions_ok: "ids_ok demo_sessions"
  by (simp add: demo_sessions_def demo_auth_def demo_session_def ids_ok_def keys_ok_def demo_digest_def)

lemma demo_authenticates:
  "Authenticate demo_ext ''b'' demo_sessions = (Inr (demo_session 3 1 ''b'' SessionKindDevice, scanUser (demo_account 1 ''ann'')), demo_sessions)"
  by (simp add: Authenticate_def SessionUser_def auth_eval demo_sessions_def demo_auth_def demo_session_def demo_ext_def demo_digest_def
    live_session_def demo_account_def scanUser_def User.defs Disabled_def)

theorem dead_sessions_stay_dead_witness:
  "ss_id (demo_session 3 1 ''b'' SessionKindDevice) \<noteq> ss_id ((demo_session 2 1 ''a'' SessionKindWeb)\<lparr>ss_revoked := Some 4\<rparr>)"
  using dead_sessions_stay_dead [OF demo_sessions_ok _ _ rtranclp.rtrancl_refl demo_authenticates, of "(demo_session 2 1 ''a'' SessionKindWeb)\<lparr>ss_revoked := Some 4\<rparr>"]
  by (simp add: demo_sessions_def live_session_def)

text \<open>The second of two accounts is disabled, enabled again, and signs in.\<close>

definition demo_pair :: auth where
  "demo_pair = (demo_auth [demo_account 1 ''ann'', demo_account 2 ''bob''])\<lparr>at_sessions := [demo_session 3 2 ''b'' SessionKindWeb]\<rparr>"

definition disable_patch :: UserPatch where
  "disable_patch = \<lparr>pt_DisplayName = None, pt_IsAdmin = None, pt_Disabled = Some True, pt_QuotaBytes = None\<rparr>"

lemmas update_eval = DisableUser_def UpdateUser_def isLastActiveAdmin_def patch_user_def patched_def demotes_def RevokeAllSessions_def
  active_admin_def scanUser_def User.defs auth_eval

definition demo_disabled :: auth where
  "demo_disabled = demo_pair\<lparr>at_users := [demo_account 1 ''ann'', (demo_account 2 ''bob'')\<lparr>us_DisabledAt := Some 10\<rparr>],
     at_sessions := [(demo_session 3 2 ''b'' SessionKindWeb)\<lparr>ss_revoked := Some 10\<rparr>]\<rparr>"

lemma demo_disable: "DisableUser 2 demo_pair = (Inr (), demo_disabled)"
  by (simp add: demo_pair_def demo_disabled_def demo_auth_def demo_account_def demo_session_def update_eval)

definition demo_again :: auth where
  "demo_again = demo_disabled\<lparr>at_users := [demo_account 1 ''ann'', demo_account 2 ''bob''], at_next := 8,
     at_sessions := [(demo_session 3 2 ''b'' SessionKindWeb)\<lparr>ss_revoked := Some 10\<rparr>,
       (demo_session 7 2 ''c'' SessionKindWeb)\<lparr>ss_created := 10, ss_seen := 10\<rparr>]\<rparr>"

lemma demo_again_run: "run demo_disabled demo_again"
proof -
  let ?s = "demo_disabled\<lparr>at_users := [demo_account 1 ''ann'', demo_account 2 ''bob'']\<rparr>"
  have "update_users (\<lambda>a. us_ID a = 2) (\<lambda>t a. a\<lparr>us_DisabledAt := None\<rparr>) demo_disabled = (Inr [demo_account 2 ''bob''], ?s)"
    by (simp add: demo_disabled_def demo_pair_def demo_auth_def demo_account_def auth_eval)
  then have "stmt demo_disabled ?s" by (rule stmt.update_users)
  moreover have "CreateSession 2 (demo_digest ''c'') SessionKindWeb [] 100 ?s = (Inr 7, demo_again)"
    by (simp add: CreateSession_def demo_again_def demo_disabled_def demo_pair_def demo_auth_def demo_account_def demo_session_def
      user_exists_def demo_digest_def auth_eval)
  then have "stmt ?s demo_again" by (rule stmt.CreateSession)
  ultimately show ?thesis by (meson r_into_rtranclp rtranclp.rtrancl_into_rtrancl)
qed

lemma demo_pair_ok: "ids_ok demo_pair"
  by (simp add: demo_pair_def demo_auth_def demo_session_def ids_ok_def keys_ok_def)


theorem an_admin_remains_witness: "has_admin demo_pair \<and> has_admin (snd (UpdateUser 2 disable_patch demo_pair))"
proof -
  have h: "has_admin demo_pair" "distinct (map us_ID (at_users demo_pair))"
    by (simp_all add: demo_pair_def demo_auth_def demo_account_def has_admin_def active_admin_def)
  then show ?thesis using an_admin_remains [of demo_pair 2 disable_patch] by (metis prod.collapse)
qed

definition demo_tokens :: auth where
  "demo_tokens = (demo_auth [demo_account 1 ''ann''])"

theorem app_password_works_witness:
  "\<exists>row pw s1. CreateAppPassword demo_authlib 1 ''7'' 0 demo_tokens = (Inr (row, pw), s1) \<and>
     fst (VerifyAppPassword demo_authlib pw s1) = Inr (scanUser (demo_account 1 ''ann''))"
proof -
  have ok: "ids_ok demo_tokens" by (simp add: demo_tokens_def demo_auth_def ids_ok_def keys_ok_def)
  have "runes ''7'' = [''7'']" by (subst runes_ascii) (simp_all add: ascii_def)
  then have "TrimSpace ''7'' \<noteq> []" using digit_ascii [of "CHR ''7''"] by (simp add: TrimSpace_def is_digit_def)
  then have "\<exists>row pw s1. CreateAppPassword demo_authlib 1 ''7'' 0 demo_tokens = (Inr (row, pw), s1) \<and> row \<in> set (at_apps s1) \<and>
      ap_revoked row = None \<and> ap_expires row = None \<and> at_users s1 = at_users demo_tokens \<and> faults s1 = []"
    by (simp add: CreateAppPassword_def GenerateAppPassword_def HashSecret_def insert_app_def demo_tokens_def demo_auth_def demo_account_def
      user_exists_def appPasswordLookupSz_def appPasswordSecretSz_def argonSaltLen_def auth_eval)
  then obtain row pw s1 where made: "CreateAppPassword demo_authlib 1 ''7'' 0 demo_tokens = (Inr (row, pw), s1)"
    and s1: "row \<in> set (at_apps s1)" "ap_revoked row = None" "ap_expires row = None" "at_users s1 = at_users demo_tokens" "faults s1 = []" by blast
  have "fst (VerifyAppPassword demo_authlib pw s1) = Inr (scanUser (demo_account 1 ''ann''))"
    by (rule app_password_works [OF demo_laws(1) ok made rtranclp.rtrancl_refl s1(1) refl s1(2)])
       (use s1 in \<open>simp_all add: demo_tokens_def demo_auth_def demo_account_def\<close>)
  with made show ?thesis by blast
qed

end
