(* ===== verification/AuthCodesDemo.thy ===== *)
theory AuthCodesDemo
  imports AuthRunDemo
begin

text \<open>
  A whole set of recovery codes made, hashed and stored on the small server, and the first registration.
\<close>

section \<open>A fresh set of codes is made\<close>

lemma codes_generated:
  assumes "13 * n \<le> length (at_random s)"
  shows "\<exists>codes. GenerateRecoveryCodes n s = (Inr codes, s\<lparr>at_random := drop (13 * n) (at_random s)\<rparr>)"
proof -
  have "\<exists>cs t. GenerateRecoveryCodes n s = (Inr cs, t) \<and> t = s\<lparr>at_random := drop (13 * length [0 ..< n]) (at_random s)\<rparr>"
    unfolding GenerateRecoveryCodes_def
    by (rule foldM_ok [where J = "\<lambda>ys _ t. t = s\<lparr>at_random := drop (13 * length ys) (at_random s)\<rparr>"])
       (use assms in \<open>auto simp: run_eval randM_def dest: arg_cong [where f = length]\<close>)
  then show ?thesis by auto
qed

lemma codes_hashed:
  assumes "16 * length codes \<le> length (at_random s)"
  shows "\<exists>hs. foldM (\<lambda>hs c. bindM (HashRecoveryCode x al c) (\<lambda>h. ret (hs @ [h]))) [] codes s =
    (Inr hs, s\<lparr>at_random := drop (16 * length codes) (at_random s)\<rparr>)"
proof -
  have "\<exists>hs t. foldM (\<lambda>hs c. bindM (HashRecoveryCode x al c) (\<lambda>h. ret (hs @ [h]))) [] codes s = (Inr hs, t) \<and>
      t = s\<lparr>at_random := drop (16 * length codes) (at_random s)\<rparr>"
    by (rule foldM_ok [where J = "\<lambda>ys _ t. t = s\<lparr>at_random := drop (16 * length ys) (at_random s)\<rparr>"])
       (use assms in \<open>auto simp: run_eval randM_def HashRecoveryCode_def HashSecret_def argonSaltLen_def\<close>)
  then show ?thesis by auto
qed

text \<open>What a replacement of the codes leaves alone.\<close>

definition others_kept :: "auth \<Rightarrow> auth \<Rightarrow> bool" where
  "others_kept s t \<longleftrightarrow> faults t = faults s \<and> at_users t = at_users s \<and> at_creds t = at_creds s"

lemma codes_replaced:
  assumes "faults s = []" "user_exists u s"
  shows "\<exists>t. ReplaceRecoveryCodes u hs s = (Inr (), t) \<and> others_kept s t"
proof -
  let ?s = "s\<lparr>at_codes := filter (\<lambda>r. rc_user r \<noteq> u) (at_codes s)\<rparr>"
  have "\<exists>v t. foldM (\<lambda>_ h. insert_code u h) () hs ?s = (Inr v, t) \<and> others_kept s t"
    by (rule foldM_ok [where J = "\<lambda>_ _. others_kept s"])
       (use assms in \<open>auto simp: others_kept_def insert_code_def freshM_def adbM_def run_eval user_exists_def\<close>)
  then obtain t where t: "foldM (\<lambda>_ h. insert_code u h) () hs ?s = (Inr (), t)" "others_kept s t" by auto
  have "ReplaceRecoveryCodes u hs s = (Inr (), t)"
    using assms t by (simp add: ReplaceRecoveryCodes_def codes_tx_def adbM_def run_eval others_kept_def)
  with t(2) show ?thesis by blast
qed

lemma codes_regenerated:
  assumes "faults s = []" "user_exists u s" "290 \<le> length (at_random s)"
  shows "\<exists>codes t. RegenerateRecoveryCodes x al u s = (Inr codes, t) \<and> others_kept s t"
proof -
  from codes_generated [of 10 s] assms(3) obtain codes
    where g: "GenerateRecoveryCodes 10 s = (Inr codes, s\<lparr>at_random := drop 130 (at_random s)\<rparr>)" by auto
  let ?s = "s\<lparr>at_random := drop 130 (at_random s)\<rparr>"
  have "length codes = 10" using GenerateRecoveryCodes_run(1) [OF g] .
  with assms(3) have "16 * length codes \<le> length (at_random ?s)" by simp
  from codes_hashed [OF this] \<open>length codes = 10\<close> obtain hs
    where h: "foldM (\<lambda>hs c. bindM (HashRecoveryCode x al c) (\<lambda>h. ret (hs @ [h]))) [] codes ?s = (Inr hs, ?s\<lparr>at_random := drop 160 (at_random ?s)\<rparr>)"
    by auto
  from codes_replaced [of "?s\<lparr>at_random := drop 160 (at_random ?s)\<rparr>" u hs] assms obtain t
    where "ReplaceRecoveryCodes u hs (?s\<lparr>at_random := drop 160 (at_random ?s)\<rparr>) = (Inr (), t)" "others_kept s t"
    by (auto simp: others_kept_def user_exists_def)
  then show ?thesis using g h by (simp add: RegenerateRecoveryCodes_def RecoveryCodeCount_def run_eval)
qed


definition demo_begun :: auth where
  "demo_begun = (demo_auth [])\<lparr>at_next := 9, at_ceremonies := [\<lparr>ce_id = 8, ce_user = None, ce_kind = ''registration'',
     ce_data = \<lparr>sd_UserID = uuid_bytes 7, sd_rest = []\<rparr>, ce_pending = Some ''ann'', ce_expires = 10 + ceremonyTTL\<rparr>]\<rparr>"

lemma demo_begins: "BeginRegistration demo_authlib ''ann'' None (demo_auth []) = (Inr (''create'', 8), demo_begun)"
  by (simp add: BeginRegistration_def registration_target_def CountUsers_def credentialsFor_def CreateCeremony_def demo_authlib_def demo_auth_def
    demo_begun_def unsaved_user_def webauthnUser_def auth_eval)

theorem bootstrap_admin_is_usable_witness:
  "\<exists>u codes s3. FinishRegistration demo_ext demo_authlib 8 ''key'' ''cred'' demo_begun = (Inr (u, codes), s3) \<and>
     us_Username u = ''ann'' \<and> us_IsAdmin u \<and> us_ID u = 7 \<and> length codes = 10"
proof -
  have ok: "ids_ok (demo_auth [])" "at_next (demo_auth []) < 2 ^ 128" by (simp_all add: demo_auth_def ids_ok_def keys_ok_def)
  let ?ann = "\<lparr>us_ID = 7, us_Username = ''ann'', us_DisplayName = ''ann'', us_IsAdmin = True, us_Quota = None, us_DisabledAt = None,
    us_CreatedAt = 10, us_Fold = ''ann''\<rparr>"
  let ?s = "demo_begun\<lparr>at_ceremonies := [], at_users := [?ann]\<rparr>"
  have pre: "faults ?s = []" "user_exists 7 ?s" "290 \<le> length (at_random ?s)" by (simp_all add: demo_begun_def demo_auth_def user_exists_def)
  from codes_regenerated [OF this] obtain codes t where regen: "RegenerateRecoveryCodes demo_ext demo_authlib 7 ?s = (Inr codes, t)"
    and kept: "others_kept ?s t" by blast
  have boot: "bootstrap_admin demo_ext demo_authlib 7 ''ann'' (demo_begun\<lparr>at_ceremonies := []\<rparr>) = (Inr (scanUser ?ann, codes), t)"
    using regen by (simp add: bootstrap_admin_def CreateUser_def insert_user_def demo_authlib_def demo_begun_def demo_auth_def scanUser_def User.defs auth_eval)
  have take: "TakeCeremony 8 ''registration'' demo_begun =
      (Inr (None, ''ann'', \<lparr>sd_UserID = uuid_bytes 7, sd_rest = []\<rparr>), demo_begun\<lparr>at_ceremonies := []\<rparr>)"
    by (simp add: TakeCeremony_def demo_begun_def demo_auth_def open_ceremony_def ceremonyTTL_def auth_eval)
  have len: "length (uuid_bytes 7) = 16" by (simp add: uuid_bytes_def)
  have user: "registration_user None ''ann'' \<lparr>sd_UserID = uuid_bytes 7, sd_rest = []\<rparr> q = (Inr (unsaved_user 7 ''ann''), q)" for q
    by (simp add: registration_user_def len bytes_uuid_inverse run_eval)
  have verify: "liftE (al_FinishRegistration demo_authlib u d ''cred'') q = (Inr \<lparr>WC_ID = ''cred'', WC_Rest = [], WC_SignCount = 0, WC_CloneWarning = False\<rparr>, q)"
    for u d and q :: auth by (simp add: demo_authlib_def liftE_def run_eval)
  have t: "faults t = []" "at_creds t = []" "user_exists (us_ID (scanUser ?ann)) t"
    using kept by (simp_all add: others_kept_def user_exists_def scanUser_def User.defs demo_begun_def demo_auth_def)
  have add: "\<exists>s3. AddCredential (us_ID (scanUser ?ann)) ''key'' c t = (Inr (), s3)" for c
    using t by (simp add: AddCredential_def adbM_def freshM_def run_eval)
  have i: "us_ID (unsaved_user 7 ''ann'') = 7" by (simp add: unsaved_user_def)
  obtain s3 where "AddCredential (us_ID (scanUser ?ann)) ''key'' \<lparr>WC_ID = ''cred'', WC_Rest = [], WC_SignCount = 0, WC_CloneWarning = False\<rparr> t = (Inr (), s3)"
    using add by blast
  then have "\<exists>s3. FinishRegistration demo_ext demo_authlib 8 ''key'' ''cred'' demo_begun = (Inr (scanUser ?ann, codes), s3)"
    by (simp add: FinishRegistration_def take user verify boot credentialsFor_def i run_eval)
  then obtain s3 where finished: "FinishRegistration demo_ext demo_authlib 8 ''key'' ''cred'' demo_begun = (Inr (scanUser ?ann, codes), s3)" by blast
  from bootstrap_admin_is_usable [OF demo_laws(2) ok demo_begins rtranclp.rtrancl_refl this] have
    "us_Username (scanUser ?ann) = ''ann'' \<and> us_IsAdmin (scanUser ?ann) \<and> us_ID (scanUser ?ann) = 7 \<and> length codes = 10" by (simp add: demo_auth_def)
  with finished show ?thesis by blast
qed

end
