(* ===== verification/GateDemo.thy ===== *)
theory GateDemo
  imports GateSpec RateSpec AuthCodesDemo
begin

text \<open>
  The gate and the rate limiter on the small server of \<open>AuthDemo\<close>, and two demotions that race.
\<close>

definition demo_config :: gate_config where
  "demo_config = \<lparr>gc_cookie = ''pc'', gc_auth = \<lparr>cfg_SessionTTL = 50\<rparr>, gc_String = (\<lambda>i. replicate i CHR ''x''),
     gc_Parse = (\<lambda>s. Some (length s)), gc_fold = (\<lambda>s. s)\<rparr>"

definition demo_gate :: gate where
  "demo_gate = \<lparr>gt_auth = demo_sessions, gt_authLimiter = newRateLimiter 20 10, gt_userLimiter = None, gt_heavyLimiter = None\<rparr>"

definition demo_request :: "string \<Rightarrow> (string \<times> string) list \<Rightarrow> request" where
  "demo_request path cookies = \<lparr>rq_path = path, rq_pattern = [], rq_cookies = cookies, rq_authorization = ''Bearer b'', rq_basic = None,
     rq_agent = [], rq_client = [], rq_id = [], rq_queryname = [], rq_json = True, rq_username = [], rq_code = [], rq_name = [], rq_ttl = 0,
     rq_endpoint = [], rq_p256dh = [], rq_pushauth = [], rq_body = ''cred''\<rparr>"

lemma demo_token: "sessionTokenFrom (demo_request path []) (gc_cookie demo_config) = ''b''"
  by (simp add: sessionTokenFrom_def demo_request_def Let_def)

lemma demo_device: "Authenticate demo_ext (sessionTokenFrom (demo_request path []) (gc_cookie demo_config)) (gt_auth demo_gate) =
    (Inr (demo_session 3 1 ''b'' SessionKindDevice, scanUser (demo_account 1 ''ann'')), demo_sessions)"
  unfolding demo_token by (simp add: demo_gate_def demo_authenticates)


definition demo_g1 :: gate where
  "demo_g1 = demo_gate\<lparr>gt_auth := demo_sessions\<lparr>at_next := 8, at_ceremonies := [\<lparr>ce_id = 7, ce_user = Some 1, ce_kind = ''registration'',
     ce_data = \<lparr>sd_UserID = uuid_bytes 1, sd_rest = []\<rparr>, ce_pending = None, ce_expires = 10 + ceremonyTTL\<rparr>]\<rparr>\<rparr>"

lemma demo_register_begin:
  "handleRegisterBegin demo_ext demo_authlib demo_config (demo_request ''/api/v1/auth/register/begin'' []) demo_gate =
     (Inr (setCeremonyCookie demo_config 7 (writeJSON 200 (Challenge ''create''))), demo_g1)"
proof -
  have "BeginRegistration demo_authlib [] (Some (scanUser (demo_account 1 ''ann''))) demo_sessions = (Inr (''create'', 7), gt_auth demo_g1)"
    by (simp add: BeginRegistration_def registration_target_def credentialsFor_def CredentialsForUser_def CreateCeremony_def demo_authlib_def
      demo_sessions_def demo_auth_def demo_g1_def demo_account_def scanUser_def User.defs webauthnUser_def user_exists_def auth_eval)
  moreover have "demo_gate\<lparr>gt_auth := demo_sessions\<rparr> = demo_gate" "demo_gate\<lparr>gt_auth := gt_auth demo_g1\<rparr> = demo_g1"
    "gt_auth demo_gate = demo_sessions" by (simp_all add: demo_gate_def demo_g1_def)
  moreover from this have "current_user demo_ext demo_config (demo_request ''/api/v1/auth/register/begin'' []) demo_gate =
      (Inr (Some (scanUser (demo_account 1 ''ann''))), demo_gate)"
    using demo_device [of "''/api/v1/auth/register/begin''"] by (simp add: current_user_def callM_def onAuth_def run_eval)
  moreover have "rq_username (demo_request path []) = []" for path by (simp add: demo_request_def)
  ultimately show ?thesis by (simp add: handleRegisterBegin_def callM_def onAuth_def run_eval)
qed

lemma demo_register_finish:
  "\<exists>resp g. handleRegisterFinish demo_ext demo_authlib demo_config (demo_request [] [(ceremonyCookie, replicate 7 CHR ''x'')]) demo_g1 = (Inr resp, g) \<and>
     rs_status resp = 200"
proof -
  let ?ann = "scanUser (demo_account 1 ''ann'')"
  have id: "ceremonyIDFrom demo_config (demo_request [] [(ceremonyCookie, replicate 7 CHR ''x'')]) = Some 7"
    by (simp add: ceremonyIDFrom_def demo_config_def demo_request_def)
  have "\<exists>s. FinishRegistration demo_ext demo_authlib 7 ''passkey'' ''cred'' (gt_auth demo_g1) = (Inr (?ann, []), s)"
    by (simp add: FinishRegistration_def TakeCeremony_def open_ceremony_def ceremonyTTL_def registration_user_def GetUserByID_def find_user_def
      credentialsFor_def CredentialsForUser_def AddCredential_def user_exists_def demo_authlib_def
      demo_sessions_def demo_auth_def demo_g1_def demo_account_def scanUser_def User.defs auth_eval)
  then obtain s where "FinishRegistration demo_ext demo_authlib 7 ''passkey'' ''cred'' (gt_auth demo_g1) = (Inr (?ann, []), s)" by blast
  then show ?thesis
    unfolding handleRegisterFinish_def id
    by (simp add: callM_def onAuth_def run_eval demo_request_def clearCookie_def set_cookie_def writeJSON_def)
qed


theorem limiter_bounds_requests_witness:
  "of_nat (granted ''k'' [Allow 1 ''k'', Reap 2, Allow 3 ''k''] (newRateLimiter 20 10)) \<le> 10 + seconds 3 * (20 / 60 :: rat)"
  using limiter_bounds_requests [OF new_limiters_ok(1), of "[Allow 1 ''k'', Reap 2, Allow 3 ''k'']" 0 3 "''k''"]
  by (simp add: newRateLimiter_def)

text \<open>
  Two requests that demote each other's account: both checks find another administrator, and then both updates run.
\<close>

theorem racing_demotions_leave_no_admin:
  "\<exists>s1 s2 u v. has_admin demo_pair \<and> isLastActiveAdmin 1 demo_pair = (Inr False, demo_pair) \<and> isLastActiveAdmin 2 demo_pair = (Inr False, demo_pair) \<and>
     patch_user 1 disable_patch demo_pair = (Inr u, s1) \<and> patch_user 2 disable_patch s1 = (Inr v, s2) \<and> \<not> has_admin s2"
  by (simp add: demo_pair_def demo_auth_def demo_account_def disable_patch_def has_admin_def update_eval)


end
