(* ===== verification/Shares.thy ===== *)
theory Shares
  imports AuthRuns Service
begin

text \<open>
  Public share links, \<open>server/internal/shares\<close> with migration 00009: the rows (\<open>store.go\<close>) and what an anonymous visitor
  can do with a link (\<open>service.go\<close>).  The state joins the file server's tables, the random source and the table \<open>shares\<close>;
  a row whose node or owner is gone has been deleted with it, so statements see \<open>share_rows\<close>.  HMAC-SHA-256 and the text
  of an id are parameters.  A \<open>NULL\<close> password is the empty string, as \<open>scanShare\<close> reads it.
\<close>

section \<open>Rows\<close>

record Share =
  sh_ID :: nat
  sh_NodeID :: nat
  sh_OwnerID :: nat
  sh_TokenHash :: string
  sh_UnlockKey :: string
  sh_PasswordHash :: string
  sh_ExpiresAt :: "int option"
  sh_MaxDownloads :: "int option"
  sh_DownloadCount :: int
  sh_CreatedAt :: int
  sh_RevokedAt :: "int option"

record links =
  lk_world :: world
  lk_auth :: auth
  lk_shares :: "Share list"

record linklib =
  ll_hmac :: "string \<Rightarrow> string \<Rightarrow> string"
  ll_String :: "nat \<Rightarrow> string"

type_synonym 'a lm = "links \<Rightarrow> (goerr + 'a) \<times> links"

definition inWorld :: "(world, 'a) m \<Rightarrow> 'a lm" where
  "inWorld c = (\<lambda>s. case c (lk_world s) of (r, w) \<Rightarrow> (r, s\<lparr>lk_world := w\<rparr>))"

definition inAuth :: "(auth, 'a) m \<Rightarrow> 'a lm" where
  "inAuth c = (\<lambda>s. case c (lk_auth s) of (r, a) \<Rightarrow> (r, s\<lparr>lk_auth := a\<rparr>))"

definition HasPassword :: "Share \<Rightarrow> bool" where
  "HasPassword sh \<longleftrightarrow> sh_PasswordHash sh \<noteq> []"

definition Revoked :: "Share \<Rightarrow> bool" where
  "Revoked sh \<longleftrightarrow> sh_RevokedAt sh \<noteq> None"

definition Expired :: "int \<Rightarrow> Share \<Rightarrow> bool" where
  "Expired t sh \<longleftrightarrow> (case sh_ExpiresAt sh of None \<Rightarrow> False | Some e \<Rightarrow> \<not> t < e)"

definition CapReached :: "Share \<Rightarrow> bool" where
  "CapReached sh \<longleftrightarrow> (case sh_MaxDownloads sh of None \<Rightarrow> False | Some m \<Rightarrow> sh_DownloadCount sh \<ge> m)"

definition Active :: "int \<Rightarrow> Share \<Rightarrow> bool" where
  "Active t sh \<longleftrightarrow> \<not> Revoked sh \<and> \<not> Expired t sh \<and> \<not> CapReached sh"

section \<open>Statements (store.go)\<close>

definition ErrShareNotFound :: goerr where "ErrShareNotFound = Sentinel ''share not found''"

definition share_rows :: "links \<Rightarrow> Share list" where
  "share_rows s = filter (\<lambda>sh. (\<exists>n \<in> set (nodes (lk_world s)). n_id n = sh_NodeID sh) \<and>
     (\<exists>u \<in> set (users (lk_world s)). u_id u = sh_OwnerID sh)) (lk_shares s)"

definition share_check :: "Share \<Rightarrow> bool" where
  "share_check sh \<longleftrightarrow> length (sh_TokenHash sh) = 32 \<and> length (sh_UnlockKey sh) = 32 \<and>
     (case sh_MaxDownloads sh of None \<Rightarrow> True | Some m \<Rightarrow> m > 0) \<and> sh_DownloadCount sh \<ge> 0"

record CreateInput =
  ci_NodeID :: nat
  ci_OwnerID :: nat
  ci_TokenHash :: string
  ci_UnlockKey :: string
  ci_PasswordHash :: string
  ci_ExpiresAt :: "int option"
  ci_MaxDownloads :: "int option"

definition insert_share :: "CreateInput \<Rightarrow> Share lm" where
  "insert_share i =
     thenM (inWorld dbM)
     (bindM (inWorld fresh_id) (\<lambda>k.
      bindM (getM id) (\<lambda>s.
      let sh = \<lparr>sh_ID = k, sh_NodeID = ci_NodeID i, sh_OwnerID = ci_OwnerID i, sh_TokenHash = ci_TokenHash i, sh_UnlockKey = ci_UnlockKey i,
                sh_PasswordHash = ci_PasswordHash i, sh_ExpiresAt = ci_ExpiresAt i, sh_MaxDownloads = ci_MaxDownloads i,
                sh_DownloadCount = 0, sh_CreatedAt = now (lk_world s), sh_RevokedAt = None\<rparr>
      in if \<not> share_check sh then raise check_violation
         else if \<exists>t \<in> set (share_rows s). sh_TokenHash t = sh_TokenHash sh then raise unique_violation
         else if sh \<notin> set (share_rows (s\<lparr>lk_shares := [sh]\<rparr>)) then raise fk_violation
         else thenM (modM (\<lambda>s. s\<lparr>lk_shares := share_rows s @ [sh]\<rparr>)) (ret sh))))"

definition share_Create :: "CreateInput \<Rightarrow> Share lm" where
  "share_Create i = wrapM ''create share'' (insert_share i)"

definition FindByTokenHash :: "string \<Rightarrow> Share lm" where
  "FindByTokenHash h =
     thenM (inWorld dbM)
     (bindM (getM (\<lambda>s. find (\<lambda>sh. sh_TokenHash sh = h) (share_rows s))) (\<lambda>q. case q of
        None \<Rightarrow> raise ErrShareNotFound
      | Some sh \<Rightarrow> ret sh))"

definition serveable :: "nat \<Rightarrow> int \<Rightarrow> Share \<Rightarrow> bool" where
  "serveable i t sh \<longleftrightarrow> sh_ID sh = i \<and> sh_RevokedAt sh = None \<and> (case sh_ExpiresAt sh of None \<Rightarrow> True | Some e \<Rightarrow> e > t) \<and>
     (case sh_MaxDownloads sh of None \<Rightarrow> True | Some m \<Rightarrow> sh_DownloadCount sh < m)"

definition update_shares :: "(int \<Rightarrow> Share \<Rightarrow> bool) \<Rightarrow> (int \<Rightarrow> Share \<Rightarrow> Share) \<Rightarrow> bool lm" where
  "update_shares p f =
     thenM (inWorld dbM)
     (bindM (getM id) (\<lambda>s.
      let t = now (lk_world s) in
      thenM (modM (\<lambda>s. s\<lparr>lk_shares := set_rows (p t) (f t) (share_rows s)\<rparr>))
      (ret (count_rows (p t) (share_rows s) > 0))))"

definition TryIncrementDownload :: "nat \<Rightarrow> bool lm" where
  "TryIncrementDownload i = update_shares (serveable i) (\<lambda>_ sh. sh\<lparr>sh_DownloadCount := sh_DownloadCount sh + 1\<rparr>)"

definition RevokeShare :: "nat \<Rightarrow> nat \<Rightarrow> bool lm" where
  "RevokeShare owner i =
     update_shares (\<lambda>_ sh. sh_ID sh = i \<and> sh_OwnerID sh = owner \<and> sh_RevokedAt sh = None) (\<lambda>t sh. sh\<lparr>sh_RevokedAt := Some t\<rparr>)"

record OwnerShare = Share +
  os_NodeName :: string
  os_NodePath :: string
  os_NodeTrashed :: bool

definition owner_share :: "Share \<Rightarrow> node_row \<Rightarrow> OwnerShare" where
  "owner_share sh n = Share.extend sh \<lparr>os_NodeName = n_name n, os_NodePath = n_path n, os_NodeTrashed = (n_trashed n \<noteq> None)\<rparr>"

definition ListForOwner :: "nat \<Rightarrow> OwnerShare list lm" where
  "ListForOwner owner =
     thenM (inWorld dbM)
     (getM (\<lambda>s. concat (map (\<lambda>sh. map (owner_share sh) (filter (\<lambda>n. n_id n = sh_NodeID sh) (nodes (lk_world s))))
        (sort_key (\<lambda>sh. - sh_CreatedAt sh) (filter (\<lambda>sh. sh_OwnerID sh = owner) (share_rows s))))))"

definition stale :: "int \<Rightarrow> int \<Rightarrow> Share \<Rightarrow> bool" where
  "stale grace t sh \<longleftrightarrow> (case sh_RevokedAt sh of None \<Rightarrow> False | Some r \<Rightarrow> r < t - grace) \<or>
     (case sh_ExpiresAt sh of None \<Rightarrow> False | Some e \<Rightarrow> e < t - grace)"

definition DeleteStale :: "int \<Rightarrow> nat \<Rightarrow> int lm" where
  "DeleteStale grace limit =
     thenM (inWorld dbM)
     (bindM (getM id) (\<lambda>s.
      let ids = map sh_ID (take limit (sort_key sh_CreatedAt (filter (stale grace (now (lk_world s))) (share_rows s)))) in
      thenM (modM (\<lambda>s. s\<lparr>lk_shares := filter (\<lambda>sh. sh_ID sh \<notin> set ids) (share_rows s)\<rparr>))
      (ret (int (length ids)))))"

section \<open>The service (service.go)\<close>

definition ErrGone :: goerr where "ErrGone = Sentinel ''share is no longer available''"
definition ErrPasswordNeeded :: goerr where "ErrPasswordNeeded = Sentinel ''share requires a password''"
definition ErrWrongPassword :: goerr where "ErrWrongPassword = Sentinel ''incorrect password''"
definition ErrShareNotAFile :: goerr where "ErrShareNotAFile = Sentinel ''not a file''"
definition ErrShareTargetKind :: goerr where "ErrShareTargetKind = Sentinel ''only files and folders can be shared''"

definition tokenBytes :: nat where "tokenBytes = 32"
definition StaleGrace :: int where "StaleGrace = 24 * 3600 * 1000000000"

record CreateOptions =
  co_Password :: string
  co_ExpiresIn :: int
  co_MaxDownloads :: int

definition svc_Create :: "ext \<Rightarrow> authlib \<Rightarrow> nat \<Rightarrow> nat \<Rightarrow> CreateOptions \<Rightarrow> (Share \<times> string) lm" where
  "svc_Create x al ownerID nodeID opts =
     bindM (inWorld (GetLive ownerID nodeID)) (\<lambda>nd.
     thenM (guardM (N_ParentID nd \<noteq> None) ErrShareTargetKind)
     (bindM (inAuth (randM tokenBytes)) (\<lambda>raw.
      bindM (inAuth (randM 32)) (\<lambda>unlockKey.
      bindM (if co_Password opts \<noteq> [] then inAuth (HashSecret al (co_Password opts)) else ret []) (\<lambda>pwHash.
      bindM (getM (\<lambda>s. now (lk_world s))) (\<lambda>t.
      bindM (share_Create \<lparr>ci_NodeID = N_ID nd, ci_OwnerID = ownerID, ci_TokenHash = sha256 x (RawURLEncoding raw), ci_UnlockKey = unlockKey,
        ci_PasswordHash = pwHash, ci_ExpiresAt = (if co_ExpiresIn opts > 0 then Some (t + co_ExpiresIn opts) else None),
        ci_MaxDownloads = (if co_MaxDownloads opts > 0 then Some (co_MaxDownloads opts) else None)\<rparr>) (\<lambda>sh.
      ret (sh, RawURLEncoding raw))))))))"

definition CollectStale :: "int lm" where
  "CollectStale = DeleteStale StaleGrace 1000"

definition share_lookup :: "ext \<Rightarrow> string \<Rightarrow> Share lm" where
  "share_lookup x token = (if token = [] then raise ErrShareNotFound else FindByTokenHash (sha256 x token))"

definition checkValidity :: "Share \<Rightarrow> int \<Rightarrow> unit lm" where
  "checkValidity sh t =
     (if Revoked sh then raise ErrShareNotFound
      else if Expired t sh \<or> CapReached sh then raise ErrGone
      else ret ())"

text \<open>\<open>lookup\<close> and \<open>checkValidity\<close>, the way every public operation begins.\<close>

definition valid_share :: "ext \<Rightarrow> string \<Rightarrow> Share lm" where
  "valid_share x token =
     bindM (share_lookup x token) (\<lambda>sh.
     bindM (getM (\<lambda>s. now (lk_world s))) (\<lambda>t.
     thenM (checkValidity sh t) (ret sh)))"

definition unlockProof :: "linklib \<Rightarrow> Share \<Rightarrow> string" where
  "unlockProof ll sh = RawURLEncoding (ll_hmac ll (sh_UnlockKey sh) (ll_String ll (sh_ID sh)))"

definition validUnlock :: "linklib \<Rightarrow> Share \<Rightarrow> string \<Rightarrow> bool" where
  "validUnlock ll sh proof' \<longleftrightarrow> proof' = unlockProof ll sh"

definition Unlock :: "ext \<Rightarrow> authlib \<Rightarrow> linklib \<Rightarrow> string \<Rightarrow> string \<Rightarrow> string lm" where
  "Unlock x al ll token password =
     bindM (valid_share x token) (\<lambda>sh.
     bindM (if HasPassword sh then verifyM al password (sh_PasswordHash sh) else ret True) (\<lambda>ok.
     thenM (guardM ok ErrWrongPassword) (ret (unlockProof ll sh))))"

definition trim_slashes :: "string \<Rightarrow> string" where
  "trim_slashes s = rev (dropWhile (\<lambda>c. c = CHR ''/'') (rev (dropWhile (\<lambda>c. c = CHR ''/'') s)))"

definition resolveNode :: "Share \<Rightarrow> string \<Rightarrow> node lm" where
  "resolveNode sh relPath =
     bindM (tryM (inWorld (GetLive (sh_OwnerID sh) (sh_NodeID sh)))) (\<lambda>q. case q of
       Inl _ \<Rightarrow> raise ErrShareNotFound
     | Inr root \<Rightarrow>
         let rel = trim_slashes relPath in
         if rel = [] then ret root
         else thenM (guardM (N_Kind root = KindFolder) ErrShareNotFound)
           (bindM (tryM (inWorld (GetByPath (sh_OwnerID sh) (path_Clean (N_Path root @ ''/'' @ rel))))) (\<lambda>q. case q of
              Inl _ \<Rightarrow> raise ErrShareNotFound
            | Inr nd \<Rightarrow>
                if N_Path nd \<noteq> N_Path root \<and> \<not> HasPrefix (N_Path nd) (N_Path root @ ''/'') then raise ErrShareNotFound
                else ret nd)))"

record ShareEntry =
  se_Name :: string
  se_Kind :: kind
  se_Size :: int

datatype PublicShare =
    Locked
  | FileView bool string int string string
  | FolderView bool string string "ShareEntry list"

definition View :: "ext \<Rightarrow> linklib \<Rightarrow> string \<Rightarrow> string \<Rightarrow> string \<Rightarrow> PublicShare lm" where
  "View x ll token proof' relPath =
     bindM (valid_share x token) (\<lambda>sh.
     if HasPassword sh \<and> \<not> validUnlock ll sh proof' then ret Locked
     else bindM (resolveNode sh relPath) (\<lambda>nd.
       if IsFile nd then ret (FileView (HasPassword sh) (N_Name nd) (N_Size nd) (N_MIME nd) (trim_slashes relPath))
       else bindM (inWorld (ListChildren (sh_OwnerID sh) (N_ID nd))) (\<lambda>cs.
         ret (FolderView (HasPassword sh) (N_Name nd) (trim_slashes relPath)
           (map (\<lambda>c. \<lparr>se_Name = N_Name c, se_Kind = N_Kind c, se_Size = N_Size c\<rparr>) cs)))))"

record Content =
  ct_Name :: string
  ct_MIME :: string
  ct_ContentHash :: string
  ct_ModTime :: int

definition OpenContent :: "service \<Rightarrow> ext \<Rightarrow> linklib \<Rightarrow> string \<Rightarrow> string \<Rightarrow> string \<Rightarrow> (Content \<times> content_reader) lm" where
  "OpenContent sv x ll token proof' relPath =
     bindM (valid_share x token) (\<lambda>sh.
     thenM (guardM (HasPassword sh \<longrightarrow> validUnlock ll sh proof') ErrPasswordNeeded)
     (bindM (resolveNode sh relPath) (\<lambda>nd.
      thenM (guardM (IsFile nd) ErrShareNotAFile)
      (bindM (TryIncrementDownload (sh_ID sh)) (\<lambda>ok.
       thenM (guardM ok ErrGone)
       (bindM (tryM (inWorld (svc_Open sv (sh_OwnerID sh) (N_ID nd)))) (\<lambda>q. case q of
          Inl _ \<Rightarrow> raise ErrShareNotFound
        | Inr (f, rc) \<Rightarrow>
            ret (\<lparr>ct_Name = N_Name f, ct_MIME = N_MIME f, ct_ContentHash = N_ContentHash f, ct_ModTime = N_UpdatedAt f\<rparr>, rc))))))))"

end
