(* ===== verification/SharesSpec.thy ===== *)
theory SharesSpec
  imports Shares GrantsSpec
begin

text \<open>
  What a public link gives away: how often, what, and until when.
\<close>

section \<open>Reads of the file server\<close>

definition faulted :: "world \<Rightarrow> world \<Rightarrow> bool" where
  "faulted w w' \<longleftrightarrow> (\<exists>bs. w' = w\<lparr>faults := bs\<rparr>)"

lemma faulted_fault_free [simp]: "fault_free (faulted w)"
  by (auto simp: fault_free_def faulted_def)

lemma faulted_refl [simp]: "faulted w w"
  by (auto simp: faulted_def intro: exI [of _ "faults w"])

lemma keeps_reads:
  "keeps (faulted w) (GetLive o' i)" "keeps (faulted w) (GetByPath o' p)" "keeps (faulted w) (ListChildren o' i)"
  "keeps (faulted w) (svc_Open sv o' i)" "keeps (faulted w) dbM"
  unfolding GetLive_def GetByPath_def ListChildren_def svc_Open_def openNode_def query_node_def cas_Open_def GetManifest_def fs_Open_def pathFor_def
  by (auto intro!: keeps_intros split: option.split)

lemma inWorld_run:
  assumes "inWorld c s = (r, s')"
  obtains w where "c (lk_world s) = (r, w)" "s' = s\<lparr>lk_world := w\<rparr>"
  using assms by (auto simp: inWorld_def split: prod.splits)

lemma read_run:
  assumes "inWorld c s = (r, s')" and "\<And>w. keeps (faulted w) c"
  obtains bs w where "c (lk_world s) = (r, w)" "w = (lk_world s)\<lparr>faults := bs\<rparr>" "s' = s\<lparr>lk_world := w\<rparr>"
proof -
  from assms(1) obtain w where w: "c (lk_world s) = (r, w)" "s' = s\<lparr>lk_world := w\<rparr>" by (rule inWorld_run)
  have "faulted (lk_world s) w" using keepsD [OF assms(2) faulted_refl w(1)] .
  with w that show thesis unfolding faulted_def by blast
qed

lemma GetLive_found:
  assumes "GetLive o' i w = (Inr nd, w')"
  obtains n where "n \<in> set (nodes w)" "n_id n = i" "n_owner n = o'" "live n" "nd = scanNode w n"
  using assms unfolding GetLive_def
  by (cases rule: query_node_run) (auto simp: live_def)


lemma GetByPath_found:
  assumes "GetByPath o' p w = (Inr nd, w')"
  obtains n where "n \<in> set (nodes w)" "n_path n = p" "n_owner n = o'" "live n" "nd = scanNode w n"
  using assms unfolding GetByPath_def
  by (cases rule: query_node_run) (auto simp: live_def)

lemma inWorld_dbM_run:
  assumes "inWorld dbM s = (r, s')"
  obtains bs where "s' = s\<lparr>lk_world := (lk_world s)\<lparr>faults := bs\<rparr>\<rparr>" "r = Inr () \<or> r = Inl db_err"
  using assms by (elim inWorld_run) (auto simp: dbM_def elim!: ioM_run)

lemma share_rows_faults [simp]: "share_rows (s\<lparr>lk_world := (lk_world s)\<lparr>faults := bs\<rparr>\<rparr>) = share_rows s"
  by (simp add: share_rows_def)

lemma share_rows_next [simp]: "share_rows (s\<lparr>lk_world := (lk_world s)\<lparr>faults := bs, next_id := k\<rparr>\<rparr>) = share_rows s"
  by (simp add: share_rows_def)

lemma insert_share_run:
  assumes "insert_share ci s = (r, s')"
  obtains bs e k where "s' = s\<lparr>lk_world := (lk_world s)\<lparr>faults := bs, next_id := k\<rparr>\<rparr>" "next_id (lk_world s) \<le> k" "r = Inl e"
  | bs sh where "s' = s\<lparr>lk_world := (lk_world s)\<lparr>faults := bs, next_id := Suc (next_id (lk_world s))\<rparr>, lk_shares := share_rows s @ [sh]\<rparr>"
      "sh_ID sh = next_id (lk_world s)" "r = Inr sh"
  using assms unfolding insert_share_def Let_def
proof (elim thenM_cases inWorld_dbM_run, goal_cases)
  case (1 e bs)
  then show ?case by (intro 1(1) [of "next_id (lk_world s)" bs]) auto
next
  case (2 v t bs)
  let ?t = "s\<lparr>lk_world := (lk_world s)\<lparr>faults := bs, next_id := Suc (next_id (lk_world s))\<rparr>\<rparr>"
  have fresh: "inWorld fresh_id t = (Inr (next_id (lk_world s)), ?t)" using 2 by (simp add: inWorld_def fresh_id_def)
  from 2(3) have "(\<exists>e. r = Inl e \<and> s' = ?t) \<or> (\<exists>sh. sh_ID sh = next_id (lk_world s) \<and> r = Inr sh \<and> s' = ?t\<lparr>lk_shares := share_rows ?t @ [sh]\<rparr>)"
    unfolding bindM_Inr [where c = "inWorld fresh_id" and s = t, OF fresh] by (auto simp: run_iffs elim!: bindM_cases thenM_cases split: if_splits)
  then show ?case using 2(1) [of "Suc (next_id (lk_world s))" bs] 2(2) [of _ bs] by auto
qed

section \<open>Downloads of a share\<close>

text \<open>
  A statement of a concurrent request, or anything the rest of the server does: the flag says that a download of share \<open>i\<close>
  was counted.
\<close>

inductive link_step :: "nat \<Rightarrow> bool \<Rightarrow> links \<Rightarrow> links \<Rightarrow> bool" for i where
  server: "now (lk_world s) \<le> now w \<Longrightarrow> next_id (lk_world s) \<le> next_id w \<Longrightarrow> link_step i False s (s\<lparr>lk_world := w, lk_auth := a\<rparr>)"
| insert_share: "insert_share ci s = (r, s') \<Longrightarrow> link_step i False s s'"
| RevokeShare: "RevokeShare ow j s = (r, s') \<Longrightarrow> link_step i False s s'"
| DeleteStale: "DeleteStale g l s = (r, s') \<Longrightarrow> link_step i False s s'"
| charge: "TryIncrementDownload j s = (r, s') \<Longrightarrow> link_step i (j = i \<and> r = Inr True) s s'"

inductive downloads :: "nat \<Rightarrow> nat \<Rightarrow> links \<Rightarrow> links \<Rightarrow> bool" for i where
  none: "downloads i 0 s s"
| more: "downloads i n s s' \<Longrightarrow> link_step i b s' s'' \<Longrightarrow> downloads i (if b then Suc n else n) s s''"

text \<open>The rows of a share count its downloads; there is one, or none any more.\<close>

definition rows_ok :: "links \<Rightarrow> bool" where
  "rows_ok s \<longleftrightarrow> keys_ok sh_ID (next_id (lk_world s)) (lk_shares s)"

definition counted :: "nat \<Rightarrow> int \<Rightarrow> int \<Rightarrow> links \<Rightarrow> bool" where
  "counted i m c s \<longleftrightarrow> i < next_id (lk_world s) \<and>
     (\<forall>sh \<in> set (lk_shares s). sh_ID sh = i \<longrightarrow> sh_MaxDownloads sh = Some m \<and> sh_DownloadCount sh = c)"

lemma share_rows_subset: "set (share_rows s) \<subseteq> set (lk_shares s)"
  by (auto simp: share_rows_def)

lemma counted_rows: "counted i m c s \<Longrightarrow> set shs \<subseteq> set (lk_shares s) \<Longrightarrow> counted i m c (s\<lparr>lk_shares := shs\<rparr>)"
  by (auto simp: counted_def)

lemma update_shares_run:
  assumes "update_shares p f s = (r, s')"
  obtains bs where "s' = s\<lparr>lk_world := (lk_world s)\<lparr>faults := bs\<rparr>\<rparr>" "r = Inl db_err"
  | bs where "s' = s\<lparr>lk_world := (lk_world s)\<lparr>faults := bs\<rparr>, lk_shares := set_rows (p (now (lk_world s))) (f (now (lk_world s))) (share_rows s)\<rparr>"
      "r = Inr (count_rows (p (now (lk_world s))) (share_rows s) > 0)"
  using assms unfolding update_shares_def Let_def
  by (elim thenM_cases inWorld_dbM_run) (auto simp: run_iffs elim!: bindM_cases thenM_cases)

lemma set_rows_id: "\<forall>r \<in> set rs. \<not> p r \<Longrightarrow> set_rows p f rs = rs"
  by (auto simp: set_rows_def intro: map_idI)

lemma charge_run:
  assumes "TryIncrementDownload j s = (r, s')"
  obtains bs where "s' = s\<lparr>lk_world := (lk_world s)\<lparr>faults := bs\<rparr>\<rparr>" "r = Inl db_err"
  | bs where "s' = s\<lparr>lk_world := (lk_world s)\<lparr>faults := bs\<rparr>, lk_shares := share_rows s\<rparr>" "r = Inr False"
  | bs sh where "s' = s\<lparr>lk_world := (lk_world s)\<lparr>faults := bs\<rparr>, lk_shares := set_rows (serveable j (now (lk_world s)))
        (\<lambda>sh. sh\<lparr>sh_DownloadCount := sh_DownloadCount sh + 1\<rparr>) (share_rows s)\<rparr>" "r = Inr True"
      "sh \<in> set (share_rows s)" "serveable j (now (lk_world s)) sh"
  using assms unfolding TryIncrementDownload_def
proof (cases rule: update_shares_run)
  case (2 bs)
  let ?p = "serveable j (now (lk_world s))"
  show ?thesis
  proof (cases "\<exists>sh \<in> set (share_rows s). ?p sh")
    case True
    then have "count_rows ?p (share_rows s) > 0" using count_rows_zero [of ?p "share_rows s"] by (simp add: count_rows_def)
    with 2 True that(3) show ?thesis by blast
  next
    case False
    then have "count_rows ?p (share_rows s) = 0" "set_rows ?p f (share_rows s) = share_rows s" for f
      by (auto simp: count_rows_zero intro: set_rows_id)
    with 2 that(2) show ?thesis by simp
  qed
qed blast

lemma DeleteStale_run:
  assumes "DeleteStale g l s = (r, s')"
  obtains bs where "s' = s\<lparr>lk_world := (lk_world s)\<lparr>faults := bs\<rparr>\<rparr>"
  | bs q where "s' = s\<lparr>lk_world := (lk_world s)\<lparr>faults := bs\<rparr>, lk_shares := filter q (share_rows s)\<rparr>"
  using assms unfolding DeleteStale_def Let_def
  by (elim thenM_cases inWorld_dbM_run) (auto simp: run_iffs elim!: bindM_cases thenM_cases)

lemma keys_ok_mono: "keys_ok k n rs \<Longrightarrow> n \<le> n' \<Longrightarrow> keys_ok k n' rs"
  by (auto simp: keys_ok_def)

lemma rows_ok_step:
  assumes "link_step i b s s'" and "rows_ok s"
  shows "rows_ok s'"
proof -
  have rows: "keys_ok sh_ID n (share_rows t)" if "keys_ok sh_ID n (lk_shares t)" for n t
    unfolding share_rows_def using that by (rule keys_ok_filter)
  have upd: "rows_ok s'" if "update_shares p f s = (r, s')" "\<And>t sh. sh_ID (f t sh) = sh_ID sh" for p f r
    using that(1) assms(2) by (cases rule: update_shares_run) (auto simp: rows_ok_def that(2) intro!: keys_ok_set_rows rows)
  from assms show ?thesis
  proof (cases rule: link_step.cases)
    case (server w a)
    with assms(2) show ?thesis by (auto simp: rows_ok_def keys_ok_def)
  next
    case (insert_share ci r)
    from insert_share(2) assms(2) show ?thesis
      by (cases rule: insert_share_run) (auto simp: rows_ok_def elim: keys_ok_mono intro!: keys_ok_append rows)
  next
    case (RevokeShare ow j r)
    then show ?thesis by (intro upd [of _ "\<lambda>t sh. sh\<lparr>sh_RevokedAt := Some t\<rparr>"]) (auto simp: RevokeShare_def)
  next
    case (DeleteStale g l r)
    from DeleteStale(2) assms(2) show ?thesis
      by (cases rule: DeleteStale_run) (auto simp: rows_ok_def intro!: keys_ok_filter rows)
  next
    case (charge j r)
    then show ?thesis by (intro upd [of _ "\<lambda>_ sh. sh\<lparr>sh_DownloadCount := sh_DownloadCount sh + 1\<rparr>"]) (auto simp: TryIncrementDownload_def)
  qed
qed


lemma one_row: "rows_ok s \<Longrightarrow> a \<in> set (lk_shares s) \<Longrightarrow> b \<in> set (lk_shares s) \<Longrightarrow> sh_ID a = sh_ID b \<Longrightarrow> a = b"
  by (auto simp: rows_ok_def keys_ok_def distinct_map inj_on_def)

lemma charge_counts:
  assumes run: "TryIncrementDownload i s = (Inr True, s')" and ok: "rows_ok s" and c: "counted i m c s"
  shows "counted i m (c + 1) s' \<and> c < m"
  using run
proof (cases rule: charge_run)
  case (3 bs sh)
  let ?p = "serveable i (now (lk_world s))"
  have sh: "sh \<in> set (lk_shares s)" "sh_ID sh = i" using 3(3,4) share_rows_subset by (auto simp: serveable_def)
  with c have m: "sh_MaxDownloads sh = Some m" "sh_DownloadCount sh = c" by (auto simp: counted_def)
  have "t = sh" if "t \<in> set (share_rows s)" "sh_ID t = i" for t using one_row [OF ok, of t sh] that sh share_rows_subset by auto
  then have "sh_MaxDownloads q = Some m \<and> sh_DownloadCount q = c + 1"
    if "q \<in> set (set_rows ?p (\<lambda>sh. sh\<lparr>sh_DownloadCount := sh_DownloadCount sh + 1\<rparr>) (share_rows s))" "sh_ID q = i" for q
    using marked_rows [OF that(1)] that(2) m 3(4) by (elim bexE disjE conjE) auto
  moreover have "c < m" using 3(4) m by (simp add: serveable_def)
  moreover have "i < next_id (lk_world s')" using c 3(1) by (simp add: counted_def)
  ultimately show ?thesis using 3(1) by (simp add: counted_def)
qed auto

lemma counted_step:
  assumes "link_step i False s s'" and "counted i m c s"
  shows "counted i m c s'"
proof -
  have rows: "counted i m c (t\<lparr>lk_shares := filter q (share_rows t)\<rparr>)" if "counted i m c t" for t q
    using that share_rows_subset by (auto simp: counted_def)
  have upd: "counted i m c s'" if run: "update_shares p f s = (r, s')"
    and f: "\<And>t sh. p t sh \<Longrightarrow> sh_ID (f t sh) = sh_ID sh \<and> (sh_ID sh = i \<longrightarrow> sh_MaxDownloads (f t sh) = sh_MaxDownloads sh \<and> sh_DownloadCount (f t sh) = sh_DownloadCount sh)" for p f r
    using run
  proof (cases rule: update_shares_run)
    case (2 bs)
    have "sh_MaxDownloads q = Some m \<and> sh_DownloadCount q = c"
      if "q \<in> set (set_rows (p (now (lk_world s))) (f (now (lk_world s))) (share_rows s))" "sh_ID q = i" for q
    proof -
      from marked_rows [OF that(1)] obtain t where "t \<in> set (share_rows s)"
        "q = f (now (lk_world s)) t \<and> p (now (lk_world s)) t \<or> q = t \<and> \<not> p (now (lk_world s)) t" by blast
      moreover from this(1) have "t \<in> set (lk_shares s)" using share_rows_subset by blast
      ultimately show ?thesis using f [of "now (lk_world s)" t] that(2) assms(2) by (auto simp: counted_def)
    qed
    with 2(1) assms(2) show ?thesis by (auto simp: counted_def)
  qed (use assms(2) in \<open>simp add: counted_def\<close>)
  from assms(1) show ?thesis
  proof (cases rule: link_step.cases)
    case (server w a)
    with assms(2) show ?thesis by (auto simp: counted_def)
  next
    case (insert_share ci r)
    from insert_share(1) show ?thesis
      by (cases rule: insert_share_run) (use assms(2) share_rows_subset in \<open>auto simp: counted_def\<close>)
  next
    case (RevokeShare ow j r)
    then show ?thesis by (intro upd [of _ "\<lambda>t sh. sh\<lparr>sh_RevokedAt := Some t\<rparr>"]) (auto simp: RevokeShare_def)
  next
    case (DeleteStale g l r)
    from DeleteStale(1) assms(2) rows [OF assms(2)] show ?thesis
      by (cases rule: DeleteStale_run) (auto simp: counted_def)
  next
    case (charge j r)
    from charge(2) show ?thesis
    proof (cases rule: charge_run)
      case (3 bs sh)
      with charge have "j \<noteq> i" by simp
      then show ?thesis using charge(2) by (intro upd [of "serveable j" "\<lambda>_ sh. sh\<lparr>sh_DownloadCount := sh_DownloadCount sh + 1\<rparr>"]) (auto simp: TryIncrementDownload_def serveable_def)
    qed (use assms(2) share_rows_subset in \<open>auto simp: counted_def\<close>)
  qed
qed

lemma counted_step_True:
  assumes "link_step i True s s'" and "rows_ok s" "counted i m c s"
  shows "counted i m (c + 1) s' \<and> c < m"
  using assms(1) by (cases rule: link_step.cases) (use charge_counts [OF _ assms(2,3)] in blast)+

lemma downloads_counted:
  assumes "downloads i n s s'" "rows_ok s" "counted i m c s"
  shows "rows_ok s' \<and> counted i m (c + int n) s' \<and> (n = 0 \<or> c + int n \<le> m)"
  using assms
proof (induction rule: downloads.induct)
  case (more n s s' b s'')
  then have IH: "rows_ok s'" "counted i m (c + int n) s'" "n = 0 \<or> c + int n \<le> m" by simp_all
  have ok: "rows_ok s''" using rows_ok_step [OF more.hyps(2) IH(1)] .
  show ?case
  proof (cases b)
    case True
    with counted_step_True [OF _ IH(1,2), of s''] more.hyps(2) ok show ?thesis by (auto simp: algebra_simps)
  next
    case False
    with counted_step [OF _ IH(2), of s''] more.hyps(2) ok IH show ?thesis by simp
  qed
qed simp

text \<open>C36: The download cap of a share holds under any interleaving of requests: between two moments at most as many downloads
  are counted as its row had left, whatever is created, revoked, swept or changed in the file server meanwhile.\<close>

theorem download_cap_holds:
  assumes "rows_ok s" and "sh \<in> set (lk_shares s)" and "sh_MaxDownloads sh = Some m" and "downloads (sh_ID sh) n s s'"
  shows "n = 0 \<or> sh_DownloadCount sh + int n \<le> m"
proof -
  have "counted (sh_ID sh) m (sh_DownloadCount sh) s"
    unfolding counted_def
  proof (intro conjI ballI impI)
    show "sh_ID sh < next_id (lk_world s)" using assms(1,2) by (auto simp: rows_ok_def keys_ok_def)
    fix t assume "t \<in> set (lk_shares s)" "sh_ID t = sh_ID sh"
    then have "t = sh" using one_row assms(1,2) by blast
    with assms(3) show "sh_MaxDownloads t = Some m" "sh_DownloadCount t = sh_DownloadCount sh" by simp_all
  qed
  with downloads_counted [OF assms(4,1)] show ?thesis by blast
qed


section \<open>What a visitor gets\<close>

definition quiet :: "links \<Rightarrow> links \<Rightarrow> bool" where
  "quiet s s' \<longleftrightarrow> (\<exists>bs. s' = s\<lparr>lk_world := (lk_world s)\<lparr>faults := bs\<rparr>\<rparr>)"

lemma quiet_refl [simp]: "quiet s s"
  by (auto simp: quiet_def intro: exI [of _ "faults (lk_world s)"])

lemma quiet_trans: "quiet s t \<Longrightarrow> quiet t u \<Longrightarrow> quiet s u"
  by (auto simp: quiet_def)

lemma quiet_inWorld: "inWorld c s = (r, s') \<Longrightarrow> (\<And>w. keeps (faulted w) c) \<Longrightarrow> quiet s s'"
  by (elim read_run) (auto simp: quiet_def)

lemma quiet_same: "quiet s s' \<Longrightarrow> share_rows s' = share_rows s \<and> nodes (lk_world s') = nodes (lk_world s) \<and> now (lk_world s') = now (lk_world s) \<and>
    lk_shares s' = lk_shares s"
  by (auto simp: quiet_def)

lemma valid_share_run:
  assumes "valid_share x token s = (r, s')"
  shows "quiet s s'" and "r = Inr sh \<Longrightarrow> sh \<in> set (share_rows s) \<and> token \<noteq> [] \<and> sh_TokenHash sh = sha256 x token \<and> Active (now (lk_world s)) sh"
  using assms unfolding valid_share_def share_lookup_def FindByTokenHash_def checkValidity_def Active_def
  by (auto simp: run_iffs quiet_def split: if_splits option.splits elim!: bindM_cases thenM_cases inWorld_dbM_run dest!: find_Some_set
      intro: exI [of _ "faults (lk_world s)"])

lemma scan_fields: "N_Path (scanNode w n) = n_path n" "N_ID (scanNode w n) = n_id n" "N_Name (scanNode w n) = n_name n"
  "N_Kind (scanNode w n) = n_kind n"
  by (simp_all add: scanNode_def Let_def)

lemma try_read_run:
  assumes "tryM (inWorld c) s = (r, s')" and "\<And>w. keeps (faulted w) c"
  obtains q bs where "r = Inr q" "c (lk_world s) = (q, (lk_world s)\<lparr>faults := bs\<rparr>)" "s' = s\<lparr>lk_world := (lk_world s)\<lparr>faults := bs\<rparr>\<rparr>"
  using assms by (elim tryM_run read_run) auto

lemma resolveNode_run:
  assumes run: "resolveNode sh rel s = (r, s')"
  shows "quiet s s'"
    and "r = Inr nd \<Longrightarrow> \<exists>root n. root \<in> set (nodes (lk_world s)) \<and> n_id root = sh_NodeID sh \<and> n_owner root = sh_OwnerID sh \<and> live root \<and>
     n \<in> set (nodes (lk_world s)) \<and> n_owner n = sh_OwnerID sh \<and> live n \<and> nd = scanNode (lk_world s) n \<and> covers (n_path root) (n_path n)"
proof -
  show "quiet s s'" using run unfolding resolveNode_def Let_def
    by (auto simp: run_iffs keeps_reads elim!: bindM_cases thenM_cases tryM_run split: sum.splits if_splits
      dest!: quiet_inWorld) (metis quiet_trans)+
next
  assume r: "r = Inr nd"
  let ?w = "lk_world s"
  from run [unfolded resolveNode_def] obtain v t where g: "tryM (inWorld (GetLive (sh_OwnerID sh) (sh_NodeID sh))) s = (Inr v, t)"
    and rest: "(case v of Inl _ \<Rightarrow> raise ErrShareNotFound
     | Inr root \<Rightarrow>
         let rel = trim_slashes rel in
         if rel = [] then ret root
         else thenM (guardM (N_Kind root = KindFolder) ErrShareNotFound)
           (bindM (tryM (inWorld (GetByPath (sh_OwnerID sh) (path_Clean (N_Path root @ ''/'' @ rel))))) (\<lambda>q. case q of
              Inl _ \<Rightarrow> raise ErrShareNotFound
            | Inr nd \<Rightarrow>
                if N_Path nd \<noteq> N_Path root \<and> \<not> HasPrefix (N_Path nd) (N_Path root @ ''/'') then raise ErrShareNotFound
                else ret nd))) t = (Inr nd, s')"
    using r by (auto elim!: bindM_cases)
  from rest obtain rootn where v: "v = Inr rootn" by (cases v) (auto simp: run_iffs)
  from g v obtain bs where "GetLive (sh_OwnerID sh) (sh_NodeID sh) ?w = (Inr rootn, ?w\<lparr>faults := bs\<rparr>)"
    and t: "t = s\<lparr>lk_world := ?w\<lparr>faults := bs\<rparr>\<rparr>" by (auto elim: try_read_run [OF _ keeps_reads(1)])
  from this(1) obtain root where root: "root \<in> set (nodes ?w)" "n_id root = sh_NodeID sh" "n_owner root = sh_OwnerID sh" "live root"
    "rootn = scanNode ?w root" by (rule GetLive_found)
  show "\<exists>root n. root \<in> set (nodes ?w) \<and> n_id root = sh_NodeID sh \<and> n_owner root = sh_OwnerID sh \<and> live root \<and>
     n \<in> set (nodes ?w) \<and> n_owner n = sh_OwnerID sh \<and> live n \<and> nd = scanNode ?w n \<and> covers (n_path root) (n_path n)"
  proof (cases "trim_slashes rel = []")
    case True
    with rest v have "nd = rootn" by (simp add: run_iffs)
    with root show ?thesis by (auto simp: covers_def)
  next
    case False
    from rest obtain q u where bypath: "tryM (inWorld (GetByPath (sh_OwnerID sh) (path_Clean (N_Path rootn @ ''/'' @ trim_slashes rel)))) t = (Inr (Inr nd), u)"
      and "N_Path nd = N_Path rootn \<or> HasPrefix (N_Path nd) (N_Path rootn @ ''/'')"
      unfolding v sum.case Let_def if_not_P [OF False]
      by (auto simp: run_iffs split: sum.splits if_splits elim!: bindM_cases thenM_cases)
    from bypath obtain bs' where "GetByPath (sh_OwnerID sh) (path_Clean (N_Path rootn @ ''/'' @ trim_slashes rel)) (lk_world t) = (Inr nd, (lk_world t)\<lparr>faults := bs'\<rparr>)"
      by (auto elim: try_read_run [OF _ keeps_reads(2)])
    then obtain n where "n \<in> set (nodes ?w)" "n_owner n = sh_OwnerID sh" "live n" "nd = scanNode ?w n"
      by (rule GetByPath_found) (auto simp: t)
    with root \<open>N_Path nd = N_Path rootn \<or> _\<close> show ?thesis by (auto simp: scan_fields covers_def starts_with_def HasPrefix_def)
  qed
qed

lemma quiet_downloads:
  assumes "downloads i n s s'" "quiet s' s''"
  shows "downloads i n s s''"
proof -
  from assms(2) obtain bs where "s'' = s'\<lparr>lk_world := (lk_world s')\<lparr>faults := bs\<rparr>, lk_auth := lk_auth s'\<rparr>" by (auto simp: quiet_def)
  then have "link_step i False s' s''" using link_step.server [of s' "(lk_world s')\<lparr>faults := bs\<rparr>" i "lk_auth s'"] by simp
  from downloads.more [OF assms(1) this] show ?thesis by simp
qed

lemma svc_Open_found:
  assumes "svc_Open sv o' i w = (Inr (f, rc), w')"
  obtains n where "n \<in> set (nodes w)" "n_id n = i" "N_Name f = n_name n"
  using assms unfolding svc_Open_def openNode_def
  by (auto simp: run_iffs scan_fields elim!: bindM_cases GetLive_found split: if_splits option.splits sum.splits)



end
