(* ===== verification/SharesDemo.thy ===== *)
theory SharesDemo
  imports SharesSpec AuthDemo
begin

text \<open>
  A folder shared by a link with one download, and the visit that uses it up.
\<close>

text \<open>Alice's folder \<open>/e\<close> holds the file \<open>f\<close>; a link with one download shares the folder.\<close>

definition shared_file :: node_row where
  "shared_file = (folder_row 2 (Some 1) ''f'' ''/e/f'')\<lparr>n_kind := KindFile, n_head := Some 3\<rparr>"

definition demo_link :: Share where
  "demo_link = \<lparr>sh_ID = 5, sh_NodeID = 1, sh_OwnerID = 7, sh_TokenHash = demo_digest ''token'', sh_UnlockKey = [], sh_PasswordHash = [],
     sh_ExpiresAt = Some 100, sh_MaxDownloads = Some 1, sh_DownloadCount = 0, sh_CreatedAt = 0, sh_RevokedAt = None\<rparr>"

definition linked_world :: world where
  "linked_world = empty_world\<lparr>now := 10, next_id := 6, users := [alice],
     nodes := [folder_row 0 None [] ''/'', folder_row 1 (Some 0) ''e'' ''/e'', shared_file],
     versions := [\<lparr>v_id = 3, v_node = 2, v_blob = Some 4, v_manifest = None, v_size = 4, v_mime = ''text/plain'', v_created = 0, v_by = Some 7\<rparr>],
     blobs := [\<lparr>b_id = 4, b_key = ''ab'', b_size = 4, b_sha256 = demo_digest ''text'', b_ref = 1, b_created = 0, b_tier = ''hot''\<rparr>],
     disk := [(''ab'', ''text'')]\<rparr>"

definition demo_links :: links where
  "demo_links = \<lparr>lk_world = linked_world, lk_auth = demo_auth [], lk_shares = [demo_link]\<rparr>"

definition demo_linklib :: linklib where
  "demo_linklib = \<lparr>ll_hmac = (\<lambda>k m. k @ m), ll_String = (\<lambda>i. replicate i CHR ''.'')\<rparr>"

lemma below_e: "path_Clean ''/e/f'' = ''/e/f''" "goodKey ''ab''"
  by code_simp+

lemma linked_names: "Fold demo_ext ''e'' = ''e''" "Fold demo_ext ''f'' = ''f''"
  by code_simp+

lemma linked_world_ok: "tree_ok demo_ext linked_world"
proof -
  have "\<exists>nm. ''/e'' = JoinPath ''/'' nm \<and> nm \<noteq> [] \<and> CHR ''/'' \<notin> set nm \<and> Fold demo_ext nm = ''e''"
    by (rule exI [of _ "''e''"]) (simp add: JoinPath_def linked_names)
  moreover have "\<exists>nm. ''/e/f'' = JoinPath ''/e'' nm \<and> nm \<noteq> [] \<and> CHR ''/'' \<notin> set nm \<and> Fold demo_ext nm = ''f''"
    by (rule exI [of _ "''f''"]) (simp add: JoinPath_def linked_names)
  ultimately show ?thesis
    by (simp add: tree_ok_def tree_inv_def nodes_unique_def node_ok_def TreeInv.links_def child_path_def linked_world_def shared_file_def
        folder_row_def empty_world_def nodes_name_check_def live_def)
qed

lemmas link_eval = demo_links_def linked_world_def empty_world_def shared_file_def folder_row_def demo_link_def alice_def
  inWorld_def share_rows_def run_eval tree_eval Let_def

lemma demo_link_valid: "valid_share demo_ext ''token'' demo_links = (Inr demo_link, demo_links)"
  by (simp add: valid_share_def share_lookup_def FindByTokenHash_def checkValidity_def Revoked_def Expired_def CapReached_def
      demo_ext_def link_eval)

lemma demo_link_resolves:
  "resolveNode demo_link ''/f'' demo_links = (Inr (scanNode linked_world shared_file), demo_links)"
  by (simp add: resolveNode_def GetLive_def GetByPath_def query_node_def scanNode_def trim_slashes_def link_eval below_e HasPrefix_def version_hash_def by_id_def)

definition link_service :: service where
  "link_service = \<lparr>sv_cas = False, sv_stager = True, sv_UploadTTL = 0, sv_enqueue = None,
     sv_type_by_ext = (\<lambda>_. []), sv_media_type_ok = (\<lambda>_. True)\<rparr>"

definition spent_links :: links where
  "spent_links = demo_links\<lparr>lk_shares := [demo_link\<lparr>sh_DownloadCount := 1\<rparr>]\<rparr>"

lemma demo_link_charged: "TryIncrementDownload 5 demo_links = (Inr True, spent_links)"
  by (simp add: TryIncrementDownload_def update_shares_def serveable_def set_rows_def count_rows_def spent_links_def link_eval)

theorem download_cap_holds_witness: "sh_DownloadCount demo_link + int 1 \<le> 1"
proof -
  have "rows_ok demo_links" by (simp add: rows_ok_def keys_ok_def demo_links_def demo_link_def linked_world_def empty_world_def)
  moreover have "downloads 5 1 demo_links spent_links"
    using downloads.more [OF downloads.none [of 5 demo_links] link_step.charge [OF demo_link_charged, of 5]] by simp
  ultimately show ?thesis
    using download_cap_holds [of demo_links demo_link 1 1 spent_links] by (simp add: demo_links_def demo_link_def)
qed

lemma linked_fields: "HasPassword demo_link = False" "sh_ID demo_link = 5" "sh_OwnerID demo_link = 7"
  "IsFile (scanNode linked_world shared_file)" "n_id shared_file = 2" "n_name shared_file = ''f''" "n_updated shared_file = 0"
  "N_Name (scanNode linked_world shared_file) = ''f''" "N_MIME (scanNode linked_world shared_file) = ''text/plain''"
  "N_ContentHash (scanNode linked_world shared_file) = demo_digest ''text''" "N_UpdatedAt (scanNode linked_world shared_file) = 0"
  by (simp_all add: HasPassword_def demo_link_def IsFile_def scanNode_def linked_world_def shared_file_def folder_row_def by_id_def version_hash_def)

lemma spent_opens: "inWorld (svc_Open link_service 7 2) spent_links = (Inr (scanNode linked_world shared_file, WholeContent ''text''), spent_links)"
  by (simp add: svc_Open_def openNode_def scanNode_def by_id_def version_hash_def fs_Open_def pathFor_good below_e dget_def link_service_def
      spent_links_def link_eval IsFile_def)


end
