(* ===== verification/Spec2Isabelle.thy ===== *)
theory Spec2Isabelle
  imports CasSpec TreeSpec UploadsSpec JobsSpec ExifSpec EngineSpec GateDemo SharesDemo
begin

text \<open>
  A verification development of the private-cloud server (\<open>server/\<close>) and its sync client (\<open>client/\<close>), both in Go.

  The program.  The server keeps each account's files as a tree of nodes with versions in PostgreSQL and their bytes in a blob
  store on disk: small files as one blob, large ones as chunks named by their BLAKE3 hash and listed by a manifest.  Database
  triggers keep reference counts, from which a collector decides what to delete, and a journal of changes, from which the
  client learns what to fetch.  Accounts sign in with passkeys, devices with app passwords exchanged for tokens; a subtree can
  be granted to another account or published as a link.  Background jobs run from a table that any number of workers claim
  from.  The client keeps a local folder equal to the server's tree, with a small state database of its own.

  How it is modelled.  A method that touches state is a function from a state to a result and a state (\<open>('s, 'a) m\<close> of
  \<open>Prelude\<close>), with Go errors as the left side of a sum and one definition per method, in the order of the source.  A
  statement of SQL is one such step over lists of rows, with the constraints, foreign keys, cascades and triggers of the
  migrations written out; a transaction is a sequence of them with a rollback.  Every call of the environment that may fail
  (a query, a commit, a write, an fsync) consults a schedule of failures that is part of the state, so a theorem over all
  states is a theorem over all schedules.  A commit may fail after it took effect.  Concurrency is interleaving: of whole
  calls where the code holds a lock or a transaction, of single statements where it does not (\<open>AuthRuns\<close>, \<open>JobsSpec\<close>,
  \<open>SharesSpec\<close>, \<open>CasSpec\<close>).

  The theories, by component:
  \<^item> Vocabulary: \<open>Prelude\<close> (errors, the monad, \<open>keeps\<close> and triples with their introduction rules), \<open>GoText\<close> (UTF-8, the
    functions of \<open>strings\<close> and \<open>path\<close>, hexadecimal), \<open>Encodings\<close> (decimal, base32, base64), \<open>World\<close> (the tables and the disk,
    transactions, and the record \<open>ext\<close> of external functions), \<open>Demo\<close> (a concrete \<open>ext\<close> for the examples).
  \<^item> Blobs and chunks: \<open>Blob\<close> (\<open>internal/blob/blob.go\<close>), \<open>Chunker\<close>, \<open>Cas\<close> with its lemmas \<open>CasInv\<close>, \<open>CasOps\<close>, \<open>CasDelta\<close>,
    \<open>CasGc\<close>, \<open>CasTotal\<close>, the seekable reader \<open>CasReader\<close>, and the properties \<open>CasSpec\<close> (\<open>internal/cas\<close>).
  \<^item> The tree: \<open>TreeSql\<close> (migrations 00003, 00008, 00010), \<open>Tree\<close> (\<open>internal/files/models.go\<close>, \<open>store.go\<close>, \<open>versions.go\<close>,
    \<open>changes.go\<close>), the lemmas \<open>TreeInv\<close>, \<open>TreeOps\<close>, \<open>Journal\<close>, \<open>BlobRefs\<close>, \<open>Versions\<close>, \<open>TreeFrame\<close>, the properties \<open>TreeSpec\<close>.
  \<^item> Grants: \<open>Grants\<close>, \<open>GrantsInv\<close>, \<open>GrantsSpec\<close> (\<open>grants.go\<close>).  The service over tree and bytes: \<open>Service\<close> (\<open>service.go\<close>,
    \<open>media.go\<close>).  Resumable uploads: \<open>Uploads\<close>, \<open>UploadsInv\<close>, \<open>UploadsSpec\<close> (\<open>uploads.go\<close>).
  \<^item> Jobs: \<open>Jobs\<close>, \<open>JobsInv\<close>, \<open>JobsSpec\<close> (\<open>internal/jobs\<close>).
  \<^item> Media headers: \<open>Containers\<close>, \<open>ContainersSpec\<close> (\<open>mp4.go\<close>, \<open>mkv.go\<close>), \<open>Exif\<close>, \<open>ExifSpec\<close> (\<open>exif.go\<close>), at the width of their
    integers, where a panic is the result \<open>None\<close>.
  \<^item> The client: \<open>Ignore\<close>, \<open>ClientApi\<close>, \<open>Device\<close> (disk and state database) with \<open>DeviceFacts\<close>, \<open>DevicePaths\<close>, \<open>DeviceDemo\<close>;
    \<open>Engine\<close> (\<open>client/internal/engine\<close>), its lemmas \<open>EngineCalls\<close>, \<open>EngineEdits\<close>, \<open>EnginePush\<close>, the properties \<open>EngineSpec\<close>.
  \<^item> Identity: \<open>Auth\<close> (tables, secrets), \<open>AuthStore\<close>, \<open>AuthDevices\<close>, \<open>AuthService\<close> (\<open>internal/auth\<close>), the interleavings \<open>AuthRuns\<close>,
    the properties \<open>AuthSpec\<close>, with examples in \<open>AuthDemo\<close>, \<open>AuthRunDemo\<close>, \<open>AuthCodesDemo\<close>; \<open>RateLimit\<close>, \<open>RateSpec\<close>; the
    HTTP layer \<open>Gate\<close>, \<open>GateSpec\<close>, \<open>GateDemo\<close> (\<open>internal/httpapi/auth.go\<close>, \<open>devices.go\<close>, \<open>ratelimit*.go\<close>, \<open>webdav.go\<close>).
  \<^item> Public links: \<open>Shares\<close>, \<open>SharesSpec\<close>, \<open>SharesDemo\<close> (\<open>internal/shares\<close>), over the tree, the service and identity.
  The lemmas.  Each state has an invariant (\<open>cas_inv\<close>, \<open>tree_ok\<close>, \<open>grants_ok\<close>, \<open>uploads_ok\<close>, \<open>jobs_ok\<close>, \<open>ids_ok\<close>, \<open>rows_ok\<close>,
  \<open>limiter_ok\<close>) that every operation keeps under every schedule of failures; a \<open>_run\<close> lemma per statement gives the states it can
  leave behind, and the properties combine them.  Two interfaces are locales: \<open>keyed_store\<close> is what the content-addressed
  store relies on in a blob store, interpreted by the file store; \<open>owner_tables\<close> is what a property of the tables around the
  tree must meet to survive all operations of the tree, interpreted by the grants.

  Bounds and fuel.  \<open>read_all\<close> of \<open>CasReader\<close> needs one unit per piece read; the theorem that uses it gives the number from
  the length of the file.  \<open>reconcile_queue\<close> and \<open>poll_loop\<close> of \<open>Engine\<close> follow answers of a server that need not end, so
  their fuel bounds how many folders and pages are asked for, and the safety theorems hold for every amount; \<open>free_name\<close> is
  given the number of files on the disk plus one, more than the names that can be taken.  Every other loop is a recursion
  with a termination proof.

  External code is an argument.  The record \<open>ext\<close> holds BLAKE3, SHA-256, zstd, the FastCDC splitter and the Unicode case
  tables, \<open>authlib\<close> Argon2 and the WebAuthn library, \<open>linklib\<close> HMAC, \<open>Server\<close> the server as the client sees it; what a
  theorem needs of them (a hash has 32 bytes and does not collide on the contents in play, decoding inverts encoding) is a
  named hypothesis, and each witness gives concrete functions that meet it.

  Deviations.  Random ids (\<open>uuid.New\<close>, \<open>gen_random_uuid\<close>) are natural numbers never used before; times are integers
  that count nanoseconds; the tokens of a rate limiter are exact rationals where the code uses \<open>float64\<close>; an HTTP request
  is the record of what its handler reads, with the JSON already decoded.  Contexts are never cancelled.

  Not modelled: metrics, logs, configuration, command lines and the wiring of the programs; JSON and the handlers that only
  decode, call a service and encode; model services, vector and full-text search, image and video codecs, face clustering;
  billing, web push, OIDC, WebDAV, self-update, tray and web interface.  They are input and output, external libraries,
  or optional parts beside the storage and the identity core.
\<close>

end
